(* ===== verification/Omni_Prelude.thy ===== *)
theory Omni_Prelude
  imports Main "HOL-Library.Word" "HOL-Library.Char_ord" "HOL-Library.List_Lexorder" "HOL-Library.AList"
begin

text \<open>
  Shared vocabulary of the development: the Go machine types, the wrap-around of the signed
  integer types, the fragments of the packages \<^verbatim>\<open>strings\<close> and \<^verbatim>\<open>strconv\<close> the sources use, and the
  generic lemmas the component theories rely on. A Go \<^verbatim>\<open>string\<close> and a Go \<^verbatim>\<open>[]byte\<close> are both
  sequences of 8-bit values, which is what \<^typ>\<open>string\<close> is.

  Named collections: \<open>wrap_simps\<close> (machine integers), \<open>go_string_simps\<close> (string functions).
\<close>

unbundle bit_operations_syntax

named_theorems wrap_simps \<open>wrap-around arithmetic of Go integers\<close>
named_theorems go_string_simps \<open>Go string functions\<close>

section \<open>Machine integers\<close>

type_synonym byte = "8 word"
type_synonym u32 = "32 word"
type_synonym u64 = "64 word"

text \<open>The value a Go \<^verbatim>\<open>int64\<close> (and, on the 64-bit targets of the build, a Go \<^verbatim>\<open>int\<close>) holds after
  an arithmetic operation with mathematical result \<open>x\<close>; likewise \<^verbatim>\<open>int32\<close>.\<close>

definition i64 :: "int \<Rightarrow> int" where
  "i64 x = (x + 2 ^ 63) mod 2 ^ 64 - 2 ^ 63"

definition i32 :: "int \<Rightarrow> int" where
  "i32 x = (x + 2 ^ 31) mod 2 ^ 32 - 2 ^ 31"

definition max_i64 :: int where "max_i64 = 2 ^ 63 - 1"

definition in_i64 :: "int \<Rightarrow> bool" where
  "in_i64 x \<longleftrightarrow> - (2 ^ 63) \<le> x \<and> x < 2 ^ 63"

definition in_i32 :: "int \<Rightarrow> bool" where
  "in_i32 x \<longleftrightarrow> - (2 ^ 31) \<le> x \<and> x < 2 ^ 31"

lemma i64_id [wrap_simps]: "in_i64 x \<Longrightarrow> i64 x = x"
  by (simp add: i64_def in_i64_def)

lemma i32_id [wrap_simps]: "in_i32 x \<Longrightarrow> i32 x = x"
  by (simp add: i32_def in_i32_def)

lemma in_i64_i64 [simp, intro]: "in_i64 (i64 x)"
  by (simp add: in_i64_def i64_def)

lemma in_i32_i32 [simp, intro]: "in_i32 (i32 x)"
  by (simp add: in_i32_def i32_def)

lemma i64_i64 [simp]: "i64 (i64 x) = i64 x"
  by (simp add: i64_id)

lemma i64_eq_iff_mod: "i64 x = i64 y \<longleftrightarrow> x mod 2 ^ 64 = y mod 2 ^ 64"
proof -
  have "i64 x = i64 y \<longleftrightarrow> (x + 2 ^ 63) mod 2 ^ 64 = (y + 2 ^ 63) mod 2 ^ 64"
    by (simp add: i64_def)
  also have "\<dots> \<longleftrightarrow> x mod 2 ^ 64 = y mod 2 ^ 64"
    by (simp add: mod_eq_dvd_iff)
  finally show ?thesis .
qed

lemma i64_mod: "i64 x mod 2 ^ 64 = x mod 2 ^ 64"
proof -
  have "i64 (i64 x) = i64 x" by simp
  then show ?thesis by (simp only: i64_eq_iff_mod)
qed

lemma i64_add_left [simp]: "i64 (i64 a + b) = i64 (a + b)"
  unfolding i64_eq_iff_mod by (metis i64_mod mod_add_left_eq)

lemma i64_add_right [simp]: "i64 (a + i64 b) = i64 (a + b)"
  using i64_add_left [of b a] by (simp add: add.commute)

lemma sint_word_of_int_i64 [wrap_simps]: "sint (word_of_int x :: u64) = i64 x"
  by (simp add: signed_of_int i64_def signed_take_bit_eq_take_bit_shift take_bit_eq_mod)

lemma sint_in_i64 [simp, intro]: "in_i64 (sint (w :: u64))"
  using sint_range_size [of w] by (simp add: in_i64_def word_size)

lemma i64_sint [simp]: "i64 (sint (w :: u64)) = sint w"
  by (rule i64_id) simp

lemma in_i64I: "- 9223372036854775808 \<le> x \<Longrightarrow> x \<le> 9223372036854775807 \<Longrightarrow> in_i64 x"
  by (simp add: in_i64_def)

lemma sint_eq_i64: "sint (n :: u64) = i64 (uint n)"
  using sint_word_of_int_i64 [of "uint n"] by (simp only: word_of_int_uint)

lemma uint_le_of_unat: "unat (n :: u64) \<le> k \<Longrightarrow> 0 \<le> uint n \<and> uint n \<le> int k"
proof -
  assume "unat n \<le> k"
  then have "int (unat n) \<le> int k" by (simp only: of_nat_le_iff)
  moreover have "int (unat n) = uint n" by simp
  ultimately show ?thesis by linarith
qed

lemma sint_small: "unat (n :: u64) < 2 ^ 63 \<Longrightarrow> sint n = uint n"
proof -
  assume "unat n < 2 ^ 63"
  then have "unat n \<le> 9223372036854775807" by simp
  from uint_le_of_unat [OF this] have "0 \<le> uint n" "uint n \<le> 9223372036854775807" by simp_all
  then have "in_i64 (uint n)" by (intro in_i64I) linarith+
  then show ?thesis by (simp only: sint_eq_i64 i64_id)
qed

lemma i64_neg_sint:
  assumes "unat (n :: u64) \<le> 2 ^ 63"
  shows "i64 (- sint n) = - uint n"
proof (cases "unat n = 2 ^ 63")
  case True
  then have "n = 2 ^ 63" by (simp add: word_unat_eq_iff)
  then show ?thesis by (simp add: i64_def)
next
  case False
  with assms have lt: "unat n < 2 ^ 63" by simp
  from lt have "unat n \<le> 9223372036854775807" by simp
  from uint_le_of_unat [OF this] have "0 \<le> uint n" "uint n \<le> 9223372036854775807" by simp_all
  then have "in_i64 (- uint n)" by (intro in_i64I) linarith+
  then show ?thesis by (simp only: sint_small [OF lt] i64_id)
qed

lemma sint_of_nat_i64: "sint (of_nat x :: u64) = i64 (int x)"
  using sint_word_of_int_i64 [of "int x"] by simp

lemma i64_minus [simp]: "i64 (- i64 x) = i64 (- x)"
  unfolding i64_eq_iff_mod by (metis i64_mod mod_minus_eq)

section \<open>Bytes and characters\<close>

definition char_code :: "char \<Rightarrow> nat" where
  "char_code c = of_char c"

definition byte_of_char :: "char \<Rightarrow> byte" where
  "byte_of_char c = of_nat (of_char c)"

definition char_of_byte :: "byte \<Rightarrow> char" where
  "char_of_byte b = char_of (unat b)"

lemma char_of_byte_of_char [simp]: "char_of_byte (byte_of_char c) = c"
proof -
  have "(of_char c :: nat) < 256" by simp
  then have "unat (of_nat (of_char c) :: byte) = of_char c"
    by (simp add: unat_of_nat take_bit_eq_mod)
  then show ?thesis by (simp add: char_of_byte_def byte_of_char_def)
qed

lemma map_char_of_byte [simp]: "map (char_of_byte \<circ> byte_of_char) s = s"
  by (simp add: comp_def)

section \<open>Decimal digits (strconv.FormatInt, strconv.FormatUint in base 10)\<close>

definition is_digit :: "char \<Rightarrow> bool" where
  "is_digit c \<longleftrightarrow> 48 \<le> (of_char c :: nat) \<and> (of_char c :: nat) \<le> 57"

definition digit_val :: "char \<Rightarrow> nat" where
  "digit_val c = of_char c - 48"

definition digit_char :: "nat \<Rightarrow> char" where
  "digit_char d = char_of (48 + d)"

fun format_uint :: "nat \<Rightarrow> string" where
  "format_uint n = (if n < 10 then [digit_char n] else format_uint (n div 10) @ [digit_char (n mod 10)])"

declare format_uint.simps [simp del]

definition format_int :: "int \<Rightarrow> string" where
  "format_int x = (if x < 0 then CHR ''-'' # format_uint (nat (- x)) else format_uint (nat x))"

definition dec_val :: "string \<Rightarrow> nat" where
  "dec_val s = foldl (\<lambda>n c. n * 10 + digit_val c) 0 s"

lemma of_char_digit_char [simp]: "d < 10 \<Longrightarrow> (of_char (digit_char d) :: nat) = 48 + d"
  by (simp add: digit_char_def)

lemma is_digit_digit_char [simp]: "d < 10 \<Longrightarrow> is_digit (digit_char d)"
  by (simp add: is_digit_def)

lemma digit_val_digit_char [simp]: "d < 10 \<Longrightarrow> digit_val (digit_char d) = d"
  by (simp add: digit_val_def)

lemma digit_val_lt: "is_digit c \<Longrightarrow> digit_val c < 10"
  by (auto simp: is_digit_def digit_val_def)

lemma dec_val_Nil [simp]: "dec_val [] = 0"
  by (simp add: dec_val_def)

lemma dec_val_snoc [simp]: "dec_val (s @ [c]) = dec_val s * 10 + digit_val c"
  by (simp add: dec_val_def)

lemma dec_val_append: "dec_val (s @ t) = dec_val s * 10 ^ length t + dec_val t"
  by (induction t rule: rev_induct) (auto simp: algebra_simps simp flip: append_assoc)

lemma format_uint_digits: "\<forall>c \<in> set (format_uint n). is_digit c"
proof (induction n rule: format_uint.induct)
  case (1 n)
  then show ?case by (subst format_uint.simps) auto
qed

lemma format_uint_nonempty [simp]: "format_uint n \<noteq> []"
  by (subst format_uint.simps) simp

lemma dec_val_format_uint [simp]: "dec_val (format_uint n) = n"
proof (induction n rule: format_uint.induct)
  case (1 n)
  show ?case
  proof (cases "n < 10")
    case True
    then show ?thesis by (subst format_uint.simps) (simp add: dec_val_def)
  next
    case False
    with 1 show ?thesis by (subst format_uint.simps) simp
  qed
qed

lemma dec_val_Cons: "dec_val (c # s) = digit_val c * 10 ^ length s + dec_val s"
  using dec_val_append [of "[c]" s] by (simp add: dec_val_def)

lemma dec_val_less: "list_all is_digit s \<Longrightarrow> dec_val s < 10 ^ length s"
proof (induction s)
  case (Cons c s)
  then have "dec_val s < 10 ^ length s" "digit_val c \<le> 9"
    using digit_val_lt [of c] by auto
  then have "digit_val c * 10 ^ length s + dec_val s < 9 * 10 ^ length s + 10 ^ length s"
    by (intro add_le_less_mono mult_le_mono1)
  then show ?case by (simp add: dec_val_Cons)
qed simp

lemma is_digit_not_dot: "is_digit c \<Longrightarrow> c \<noteq> CHR ''.''"
  by (auto simp: is_digit_def)

lemma list_all_digits_format_uint: "list_all is_digit (format_uint n)"
  using format_uint_digits by (simp add: list_all_iff)

lemma dec_val_zeros: "dec_val (replicate n (CHR ''0'') @ s) = dec_val s"
  by (induction n) (simp_all add: dec_val_Cons digit_val_def)

section \<open>Package strings\<close>

fun strip_prefix :: "string \<Rightarrow> string \<Rightarrow> string option" where
  "strip_prefix [] s = Some s"
| "strip_prefix (x # xs) [] = None"
| "strip_prefix (x # xs) (y # ys) = (if x = y then strip_prefix xs ys else None)"

definition has_prefix :: "string \<Rightarrow> string \<Rightarrow> bool" where
  "has_prefix s p \<longleftrightarrow> strip_prefix p s \<noteq> None"

fun contains :: "string \<Rightarrow> string \<Rightarrow> bool" where
  "contains [] sub \<longleftrightarrow> sub = []"
| "contains (c # s) sub \<longleftrightarrow> has_prefix (c # s) sub \<or> contains s sub"

text \<open>The UTF-8 encodings of the code points \<^verbatim>\<open>unicode.IsSpace\<close> accepts. \<^verbatim>\<open>strings.TrimSpace\<close>
  removes them, one code point at a time, from both ends.\<close>

definition space_seqs :: "string list" where
  "space_seqs = map (map char_of)
     [[9::nat], [10], [11], [12], [13], [32], [194, 133], [194, 160], [225, 154, 128],
      [226, 128, 128], [226, 128, 129], [226, 128, 130], [226, 128, 131], [226, 128, 132],
      [226, 128, 133], [226, 128, 134], [226, 128, 135], [226, 128, 136], [226, 128, 137],
      [226, 128, 138], [226, 128, 168], [226, 128, 169], [226, 128, 175], [226, 129, 159],
      [227, 128, 128]]"

fun first_strip :: "string list \<Rightarrow> string \<Rightarrow> string option" where
  "first_strip [] s = None"
| "first_strip (p # ps) s = (case strip_prefix p s of Some r \<Rightarrow> Some r | None \<Rightarrow> first_strip ps s)"

fun trim_left_seqs :: "string list \<Rightarrow> string \<Rightarrow> string" where
  "trim_left_seqs ps s = (case first_strip ps s of
      None \<Rightarrow> s
    | Some r \<Rightarrow> if length r < length s then trim_left_seqs ps r else s)"

declare trim_left_seqs.simps [simp del]

definition trim_right_seqs :: "string list \<Rightarrow> string \<Rightarrow> string" where
  "trim_right_seqs ps s = rev (trim_left_seqs (map rev ps) (rev s))"

definition trim_space :: "string \<Rightarrow> string" where
  "trim_space s = trim_right_seqs space_seqs (trim_left_seqs space_seqs s)"

text \<open>\<^verbatim>\<open>strings.ToLower\<close> on the ASCII letters; bytes from 128 up are left as they are.\<close>

definition lower_char :: "char \<Rightarrow> char" where
  "lower_char c = (if 65 \<le> (of_char c :: nat) \<and> (of_char c :: nat) \<le> 90 then char_of (of_char c + 32 :: nat) else c)"

definition to_lower :: "string \<Rightarrow> string" where
  "to_lower s = map lower_char s"

text \<open>\<^verbatim>\<open>strings.TrimRight\<close> with a cutset of ASCII characters.\<close>

definition trim_right_set :: "char set \<Rightarrow> string \<Rightarrow> string" where
  "trim_right_set cs s = rev (dropWhile (\<lambda>c. c \<in> cs) (rev s))"

fun join :: "string \<Rightarrow> string list \<Rightarrow> string" where
  "join sep [] = []"
| "join sep [x] = x"
| "join sep (x # y # ys) = x @ sep @ join sep (y # ys)"

lemma strip_prefix_Some: "strip_prefix p s = Some r \<longleftrightarrow> s = p @ r"
  by (induction p s rule: strip_prefix.induct) auto

lemma has_prefix_iff [go_string_simps]: "has_prefix s p \<longleftrightarrow> (\<exists>r. s = p @ r)"
proof -
  have "has_prefix s p \<longleftrightarrow> (\<exists>r. strip_prefix p s = Some r)"
    by (simp add: has_prefix_def)
  then show ?thesis by (simp only: strip_prefix_Some)
qed

lemma contains_iff: "contains s sub \<longleftrightarrow> (\<exists>a b. s = a @ sub @ b)"
proof (induction s)
  case Nil
  then show ?case by simp
next
  case (Cons c s)
  have "(\<exists>a b. c # s = a @ sub @ b) \<longleftrightarrow> (\<exists>r. c # s = sub @ r) \<or> (\<exists>a b. s = a @ sub @ b)"
    (is "?L \<longleftrightarrow> ?P \<or> ?R")
  proof
    assume ?L
    then obtain a b where ab: "c # s = a @ sub @ b" by blast
    then show "?P \<or> ?R" by (cases a) auto
  next
    assume "?P \<or> ?R"
    then show ?L
    proof
      assume ?P
      then obtain r where "c # s = [] @ sub @ r" by auto
      then show ?L by blast
    next
      assume ?R
      then obtain a b where "c # s = (c # a) @ sub @ b" by auto
      then show ?L by blast
    qed
  qed
  with Cons.IH show ?case by (simp add: has_prefix_iff)
qed

lemma first_strip_Some: "first_strip ps s = Some r \<Longrightarrow> \<exists>p \<in> set ps. s = p @ r"
  by (induction ps) (auto split: option.splits simp: strip_prefix_Some)

lemma first_strip_None: "first_strip ps s = None \<longleftrightarrow> (\<forall>p \<in> set ps. \<not> has_prefix s p)"
  by (induction ps) (auto split: option.splits simp: has_prefix_def)

lemma trim_left_seqs_suffix: "\<exists>p. s = p @ trim_left_seqs ps s"
proof (induction s rule: length_induct)
  case (1 s)
  show ?case
  proof (cases "first_strip ps s")
    case None
    then show ?thesis by (simp add: trim_left_seqs.simps [of ps s])
  next
    case (Some r)
    show ?thesis
    proof (cases "length r < length s")
      case True
      with 1 obtain p where "r = p @ trim_left_seqs ps r" by blast
      moreover obtain q where "s = q @ r" using Some first_strip_Some by blast
      ultimately have "s = (q @ p) @ trim_left_seqs ps r" by simp
      moreover have "trim_left_seqs ps s = trim_left_seqs ps r"
        using Some True by (simp add: trim_left_seqs.simps [of ps s])
      ultimately show ?thesis by metis
    next
      case False
      then show ?thesis using Some by (simp add: trim_left_seqs.simps [of ps s])
    qed
  qed
qed

lemma trim_left_seqs_id: "first_strip ps s = None \<Longrightarrow> trim_left_seqs ps s = s"
  by (simp add: trim_left_seqs.simps [of ps s])

lemma trim_left_seqs_done:
  assumes "[] \<notin> set ps"
  shows "first_strip ps (trim_left_seqs ps s) = None"
proof (induction s rule: length_induct)
  case (1 s)
  show ?case
  proof (cases "first_strip ps s")
    case None
    then show ?thesis by (simp add: trim_left_seqs_id)
  next
    case (Some r)
    then obtain p where "p \<in> set ps" "s = p @ r" using first_strip_Some by blast
    with assms have "length r < length s" by (cases p) auto
    with 1 Some show ?thesis by (simp add: trim_left_seqs.simps [of ps s])
  qed
qed

lemma space_seqs_nonempty: "[] \<notin> set space_seqs"
  by (simp add: space_seqs_def)

lemma trim_right_seqs_prefix: "\<exists>q. s = trim_right_seqs ps s @ q"
proof -
  obtain p where "rev s = p @ trim_left_seqs (map rev ps) (rev s)"
    using trim_left_seqs_suffix by blast
  then have "s = rev (trim_left_seqs (map rev ps) (rev s)) @ rev p"
    by (metis rev_append rev_rev_ident)
  then show ?thesis unfolding trim_right_seqs_def by blast
qed

lemma trim_space_idem [simp]: "trim_space (trim_space s) = trim_space s"
proof -
  let ?l = "trim_left_seqs space_seqs s" and ?t = "trim_space s"
  have done_l: "first_strip space_seqs ?l = None"
    by (rule trim_left_seqs_done) (rule space_seqs_nonempty)
  obtain q where q: "?l = ?t @ q"
    using trim_right_seqs_prefix unfolding trim_space_def by blast
  have "first_strip space_seqs ?t = None"
    using done_l q by (fastforce simp: first_strip_None has_prefix_iff)
  then have l: "trim_left_seqs space_seqs ?t = ?t"
    by (rule trim_left_seqs_id)
  have "[] \<notin> set (map rev space_seqs)" using space_seqs_nonempty by auto
  then have "first_strip (map rev space_seqs) (rev ?t) = None"
    unfolding trim_space_def trim_right_seqs_def rev_rev_ident by (rule trim_left_seqs_done)
  then have "trim_right_seqs space_seqs ?t = ?t"
    by (simp add: trim_right_seqs_def trim_left_seqs_id)
  with l show ?thesis by (simp add: trim_space_def [of ?t])
qed

text \<open>Nothing is trimmed from a string that begins and ends with a printable ASCII character.\<close>

definition ascii_visible :: "char \<Rightarrow> bool" where
  "ascii_visible c \<longleftrightarrow> 33 \<le> (of_char c :: nat) \<and> (of_char c :: nat) \<le> 126"

lemma space_seqs_not_visible:
  "\<forall>p \<in> set space_seqs. \<not> ascii_visible (hd p) \<and> \<not> ascii_visible (last p)"
  by (simp add: space_seqs_def ascii_visible_def)

lemma trim_left_visible:
  assumes "ascii_visible c" and "\<forall>p \<in> set ps. p \<noteq> [] \<and> \<not> ascii_visible (hd p)"
  shows "trim_left_seqs ps (c # s) = c # s"
proof (rule trim_left_seqs_id)
  have "\<not> has_prefix (c # s) p" if "p \<in> set ps" for p
    using assms that by (cases p) (auto simp: has_prefix_iff)
  then show "first_strip ps (c # s) = None" by (simp add: first_strip_None)
qed

lemma trim_space_visible [go_string_simps]:
  assumes "s \<noteq> []" "ascii_visible (hd s)" "ascii_visible (last s)"
  shows "trim_space s = s"
proof -
  have ne: "\<forall>p \<in> set space_seqs. p \<noteq> []" using space_seqs_nonempty by blast
  have "trim_left_seqs space_seqs s = s"
    using assms(1,2) trim_left_visible [of "hd s" space_seqs "tl s"] space_seqs_not_visible ne
    by (simp add: list.collapse)
  moreover have "trim_left_seqs (map rev space_seqs) (rev s) = rev s"
  proof -
    have "\<forall>p \<in> set (map rev space_seqs). p \<noteq> [] \<and> \<not> ascii_visible (hd p)"
      using space_seqs_not_visible ne by (auto simp: hd_rev)
    moreover have "rev s = last s # tl (rev s)"
      using assms(1) by (metis hd_rev list.collapse rev_is_Nil_conv)
    ultimately show ?thesis using trim_left_visible [of "last s" _ "tl (rev s)"] assms(3) by metis
  qed
  ultimately show ?thesis by (simp add: trim_space_def trim_right_seqs_def)
qed

lemma trim_space_Nil [simp]: "trim_space [] = []"
  by (simp add: trim_space_def trim_right_seqs_def trim_left_seqs.simps space_seqs_def)

lemma is_digit_visible: "is_digit c \<Longrightarrow> ascii_visible c"
  by (simp add: is_digit_def ascii_visible_def)

section \<open>Go maps\<close>

text \<open>
  A Go map is the association list of its entries in the order a \<^verbatim>\<open>range\<close> loop visits them, with
  distinct keys; since every theorem is about an arbitrary such list, it holds for every iteration
  order. A nil map reads as the empty one. Reading an absent key gives the zero value.
\<close>

type_synonym 'v gomap = "(string \<times> 'v) list"

definition gm_get :: "string gomap \<Rightarrow> string \<Rightarrow> string" where
  "gm_get m k = (case map_of m k of Some v \<Rightarrow> v | None \<Rightarrow> [])"

definition gm_has :: "'v gomap \<Rightarrow> string \<Rightarrow> bool" where
  "gm_has m k \<longleftrightarrow> map_of m k \<noteq> None"

definition gm_set :: "'v gomap \<Rightarrow> string \<Rightarrow> 'v \<Rightarrow> 'v gomap" where
  "gm_set m k v = AList.update k v m"

definition map_ok :: "'v gomap \<Rightarrow> bool" where
  "map_ok m \<longleftrightarrow> distinct (map fst m)"

lemma map_ok_Nil [simp]: "map_ok []"
  by (simp add: map_ok_def)

lemma map_ok_gm_set [simp, intro]: "map_ok m \<Longrightarrow> map_ok (gm_set m k v)"
  by (simp add: map_ok_def gm_set_def distinct_update)

lemma map_of_gm_set: "map_of (gm_set m k v) = (map_of m)(k \<mapsto> v)"
  by (simp add: gm_set_def update_conv')

lemma gm_get_set [simp]: "gm_get (gm_set m k v) j = (if j = k then v else gm_get m j)"
  by (simp add: gm_get_def map_of_gm_set)

lemma gm_set_new: "k \<notin> fst ` set m \<Longrightarrow> gm_set m k v = m @ [(k, v)]"
  unfolding gm_set_def by (induction m) auto

text \<open>Inserting entries with new keys one by one, as the loops that copy or decode a map do.\<close>

lemma foldl_gm_set_append:
  "map_ok (r @ xs) \<Longrightarrow> foldl (\<lambda>r (k, v). gm_set r k v) r xs = r @ xs"
proof (induction xs arbitrary: r)
  case (Cons x xs)
  have "gm_set r (fst x) (snd x) = r @ [x]"
    using Cons.prems by (simp add: gm_set_new map_ok_def)
  then show ?case using Cons.IH [of "r @ [x]"] Cons.prems by (simp add: case_prod_beta)
qed simp

section \<open>Bit masks\<close>

text \<open>Setting, clearing and testing one bit of a word, as \<^verbatim>\<open>w |= 1 << k\<close>, \<^verbatim>\<open>w &^= 1 << k\<close> and
  \<^verbatim>\<open>w & (1 << k) != 0\<close> do.\<close>

lemma bit_or_push_one:
  fixes x :: "'a::len word"
  assumes "a < LENGTH('a)" "b < LENGTH('a)"
  shows "bit (or x (push_bit a 1)) b \<longleftrightarrow> bit x b \<or> a = b"
  using assms by (auto simp only: bit_or_iff bit_push_bit_iff bit_1_iff possible_bit_word)

lemma bit_andnot_push_one:
  fixes x :: "'a::len word"
  assumes "a < LENGTH('a)" "b < LENGTH('a)"
  shows "bit (and x (not (push_bit a 1))) b \<longleftrightarrow> bit x b \<and> a \<noteq> b"
  using assms by (auto simp only: bit_and_iff bit_not_iff bit_push_bit_iff bit_1_iff possible_bit_word)

lemma mask_test_iff: "and x (push_bit k 1) \<noteq> 0 \<longleftrightarrow> bit x k"
  for x :: "'a::len word"
  by (simp only: bit_iff_and_push_bit_not_eq_0)

section \<open>Step relations\<close>

text \<open>What is kept by every step holds in every reachable state.\<close>

locale transition_invariant =
  fixes step :: "'s \<Rightarrow> 's \<Rightarrow> bool" and inv :: "'s \<Rightarrow> bool"
  assumes step_keeps: "step s s' \<Longrightarrow> inv s \<Longrightarrow> inv s'"
begin

lemma reachable_keeps: "step\<^sup>*\<^sup>* s s' \<Longrightarrow> inv s \<Longrightarrow> inv s'"
  by (induction rule: rtranclp_induct) (auto dest: step_keeps)

end

text \<open>A component that implements an abstract one: the relation is kept by every operation, hence by every
  sequence of operations.\<close>

locale simulation =
  fixes rel :: "'c \<Rightarrow> 'a \<Rightarrow> bool" and cstep :: "'c \<Rightarrow> 'o \<Rightarrow> 'c" and astep :: "'a \<Rightarrow> 'o \<Rightarrow> 'a"
  assumes simulates_step: "rel c a \<Longrightarrow> rel (cstep c op) (astep a op)"
begin

lemma simulates: "rel c a \<Longrightarrow> rel (foldl cstep c ops) (foldl astep a ops)"
  by (induction ops arbitrary: c a) (auto intro: simulates_step)

end

section \<open>Platform primitives\<close>

text \<open>
  IEEE-754 arithmetic, the shortest decimal rendering of a \<^verbatim>\<open>float64\<close>, the layouts of package
  \<^verbatim>\<open>time\<close> and the quoting of the \<^verbatim>\<open>%q\<close> verb are arguments of the model. A \<^verbatim>\<open>float64\<close> is its 64-bit
  pattern, as in \<^verbatim>\<open>FieldValue.NumVal\<close>; an instant is its number of nanoseconds since the epoch.
  No definition fixes these operations: every theorem holds for all of them.
\<close>

record go_env =
  f64_of_u64 :: "u64 \<Rightarrow> u64"
  f64_of_i64 :: "int \<Rightarrow> u64"
  f64_to_i64 :: "u64 \<Rightarrow> int"
  f64_add :: "u64 \<Rightarrow> u64 \<Rightarrow> u64"
  f64_mul :: "u64 \<Rightarrow> u64 \<Rightarrow> u64"
  f64_neg :: "u64 \<Rightarrow> u64"
  f64_format :: "u64 \<Rightarrow> string"
  time_format_rfc3339 :: "int \<Rightarrow> string"
  time_parse :: "string \<Rightarrow> string \<Rightarrow> int option"
  go_quote :: "string \<Rightarrow> string"
  go_quote_char :: "char \<Rightarrow> string"

text \<open>One environment, simple enough to evaluate; only examples use it.\<close>

definition sample_env :: go_env where
  "sample_env = \<lparr>f64_of_u64 = (\<lambda>x. x), f64_of_i64 = (\<lambda>i. word_of_int i), f64_to_i64 = sint, f64_add = (\<lambda>x y. x + y),
     f64_mul = (\<lambda>x y. x * y), f64_neg = (\<lambda>x. - x), f64_format = (\<lambda>x. format_uint (unat x)),
     time_format_rfc3339 = (\<lambda>t. format_int t), time_parse = (\<lambda>f s. None),
     go_quote = (\<lambda>s. [CHR 0x22] @ s @ [CHR 0x22]), go_quote_char = (\<lambda>c. [CHR 0x27, c, CHR 0x27])\<rparr>"

end
