(* ===== verification/Coercion.thy ===== *)
theory Coercion
  imports Omni_Prelude
begin

text \<open>
  The numeric text layer: \<^verbatim>\<open>pkg/fastnum/fastnum.go\<close> (integers and floats),
  \<^verbatim>\<open>internal/domain/coercion.go\<close> (the coercions the validation stage calls) and
  \<^verbatim>\<open>FormatDecimal\<close> of \<^verbatim>\<open>internal/domain/record.go\<close>. Unsigned accumulators are 64-bit words, so their
  wrap-around is the machine's; \<^verbatim>\<open>int64\<close> results are integers in range. The lemmas show that
  \<^verbatim>\<open>ParseInt64\<close> accepts exactly the decimal numerals that fit, that \<^verbatim>\<open>CoerceDecimalFast\<close> rounds half
  up as long as the mantissa fits, and that printing a decimal and reading it back is the identity.
\<close>

section \<open>pkg/fastnum\<close>

datatype num_error = ErrInvalidInt | ErrInvalidFloat | ErrOverflow

fun extract_sign :: "string \<Rightarrow> bool \<times> nat" where
  "extract_sign [] = (False, 0)"
| "extract_sign (c # s) =
     (if c = CHR ''-'' then (True, 1) else if c = CHR ''+'' then (False, 1) else (False, 0))"

fun parse_digits_uint64 :: "u64 \<Rightarrow> string \<Rightarrow> num_error + u64" where
  "parse_digits_uint64 n [] = Inr n"
| "parse_digits_uint64 n (c # s) =
     (if \<not> is_digit c then Inl ErrInvalidInt
      else let digit = of_nat (digit_val c) in
        if n > (- 1 - digit) div 10 then Inl ErrOverflow
        else parse_digits_uint64 (n * 10 + digit) s)"

definition parse_int64 :: "string \<Rightarrow> num_error + int" where
  "parse_int64 s0 = (let s = trim_space s0 in
     if s = [] then Inl ErrInvalidInt
     else let (neg, i) = extract_sign s in
       if i = length s then Inl ErrInvalidInt
       else case parse_digits_uint64 0 (drop i s) of
           Inl e \<Rightarrow> Inl e
         | Inr n \<Rightarrow>
             if neg then if n > 2 ^ 63 then Inl ErrOverflow else Inr (i64 (- sint n))
             else if n > 2 ^ 63 - 1 then Inl ErrOverflow else Inr (sint n))"

text \<open>\<^verbatim>\<open>parseFractional\<close>: the digits before the point are accumulated in a \<^verbatim>\<open>uint64\<close> without an
  overflow test; those after it are added with a factor that is multiplied by 0.1 each time.\<close>

definition f64_tenth :: u64 where
  "f64_tenth = 0x3FB999999999999A"

fun frac_int_part :: "u64 \<Rightarrow> bool \<Rightarrow> string \<Rightarrow> num_error + u64 \<times> bool \<times> string" where
  "frac_int_part n has [] = Inr (n, has, [])"
| "frac_int_part n has (c # s) =
     (if c = CHR ''.'' then Inr (n, has, c # s)
      else if \<not> is_digit c then Inl ErrInvalidFloat
      else frac_int_part (n * 10 + of_nat (digit_val c)) True s)"

fun frac_dec_part :: "go_env \<Rightarrow> u64 \<Rightarrow> u64 \<Rightarrow> bool \<Rightarrow> string \<Rightarrow> num_error + u64 \<times> bool" where
  "frac_dec_part env val factor has [] = Inr (val, has)"
| "frac_dec_part env val factor has (c # s) =
     (if \<not> is_digit c then Inl ErrInvalidFloat
      else frac_dec_part env
        (f64_add env val (f64_mul env (f64_of_u64 env (of_nat (digit_val c))) factor))
        (f64_mul env factor f64_tenth) True s)"

definition parse_fractional :: "go_env \<Rightarrow> string \<Rightarrow> num_error + u64" where
  "parse_fractional env s =
     (case frac_int_part 0 False s of
        Inl e \<Rightarrow> Inl e
      | Inr (n, has, rest) \<Rightarrow>
          (case (case rest of
                   [] \<Rightarrow> Inr (f64_of_u64 env n, has)
                 | _ # t \<Rightarrow> frac_dec_part env (f64_of_u64 env n) f64_tenth has t) of
             Inl e \<Rightarrow> Inl e
           | Inr (val, has') \<Rightarrow> if \<not> has' then Inl ErrInvalidFloat else Inr val))"

definition parse_float64 :: "go_env \<Rightarrow> string \<Rightarrow> num_error + u64" where
  "parse_float64 env s0 = (let s = trim_space s0 in
     if s = [] then Inl ErrInvalidFloat
     else let (neg, i) = extract_sign s in
       if i = length s then Inl ErrInvalidFloat
       else case parse_fractional env (drop i s) of
           Inl e \<Rightarrow> Inl e
         | Inr val \<Rightarrow> Inr (if neg then f64_neg env val else val))"

section \<open>internal/domain/coercion.go\<close>

datatype coerce_error =
    CoerceEmpty string
  | CoerceNum num_error
  | CoerceBool string
  | CoerceTimestamp string
  | DecEmptyDigits string
  | DecMultiplePoints string
  | DecUnexpectedChar string char
  | DecExcessPrecision string int

text \<open>The messages of the errors.\<close>

fun num_error_text :: "num_error \<Rightarrow> string" where
  "num_error_text ErrInvalidInt = ''fastnum: invalid integer string''"
| "num_error_text ErrInvalidFloat = ''fastnum: invalid float string''"
| "num_error_text ErrOverflow = ''fastnum: integer overflow''"

fun coerce_error_text :: "go_env \<Rightarrow> coerce_error \<Rightarrow> string" where
  "coerce_error_text env (CoerceEmpty fn) = fn @ '': empty string''"
| "coerce_error_text env (CoerceNum e) = num_error_text e"
| "coerce_error_text env (CoerceBool s) = ''CoerceBoolFast: cannot parse '' @ go_quote env s @ '' as bool''"
| "coerce_error_text env (CoerceTimestamp s) = ''CoerceTimestampFast: cannot parse '' @ go_quote env s"
| "coerce_error_text env (DecEmptyDigits s) = ''invalid decimal '' @ go_quote env s @ '': empty digits''"
| "coerce_error_text env (DecMultiplePoints s) =
     ''invalid decimal '' @ go_quote env s @ '': multiple decimal points''"
| "coerce_error_text env (DecUnexpectedChar s c) =
     ''invalid decimal '' @ go_quote env s @ '': unexpected character '' @ go_quote_char env c"
| "coerce_error_text env (DecExcessPrecision s k) =
     ''type cast failed: fractional precision exceeds scale '' @ format_int k @ '' in '' @ go_quote env s"

definition coerce_int64_fast :: "string \<Rightarrow> coerce_error + int" where
  "coerce_int64_fast s0 = (let s = trim_space s0 in
     if s = [] then Inl (CoerceEmpty ''CoerceInt64Fast'')
     else case parse_int64 s of Inl e \<Rightarrow> Inl (CoerceNum e) | Inr v \<Rightarrow> Inr v)"

definition coerce_float64_fast :: "go_env \<Rightarrow> string \<Rightarrow> coerce_error + u64" where
  "coerce_float64_fast env s0 = (let s = trim_space s0 in
     if s = [] then Inl (CoerceEmpty ''CoerceFloat64Fast'')
     else case parse_float64 env s of Inl e \<Rightarrow> Inl (CoerceNum e) | Inr v \<Rightarrow> Inr v)"

definition bool_string_map :: "(string \<times> bool) list" where
  "bool_string_map =
     [(''true'', True), (''t'', True), (''1'', True), (''yes'', True), (''y'', True),
      (''false'', False), (''f'', False), (''0'', False), (''no'', False), (''n'', False)]"

definition coerce_bool_fast :: "string \<Rightarrow> coerce_error + bool" where
  "coerce_bool_fast s0 = (let s = to_lower (trim_space s0) in
     case map_of bool_string_map s of Some b \<Rightarrow> Inr b | None \<Rightarrow> Inl (CoerceBool s))"

definition timestamp_formats :: "string list" where
  "timestamp_formats =
     [''2006-01-02T15:04:05.999999999Z07:00'', ''2006-01-02T15:04:05Z07:00'',
      ''2006-01-02 15:04:05'', ''2006-01-02'']"

fun try_formats :: "go_env \<Rightarrow> string list \<Rightarrow> string \<Rightarrow> int option" where
  "try_formats env [] s = None"
| "try_formats env (f # fs) s =
     (case time_parse env f s of Some t \<Rightarrow> Some t | None \<Rightarrow> try_formats env fs s)"

definition coerce_timestamp_fast :: "go_env \<Rightarrow> string \<Rightarrow> coerce_error + int" where
  "coerce_timestamp_fast env s = (let trimmed = trim_space s in
     if trimmed = [] then Inl (CoerceEmpty ''CoerceTimestampFast'')
     else case try_formats env timestamp_formats trimmed of
         Some t \<Rightarrow> Inr t
       | None \<Rightarrow> Inl (CoerceTimestamp s))"

text \<open>\<^verbatim>\<open>CoerceDecimalFast\<close>. The loop's variables are the mantissa (a wrapping \<^verbatim>\<open>uint64\<close>), \<^verbatim>\<open>seenDot\<close>,
  the \<^verbatim>\<open>int32\<close> counter \<^verbatim>\<open>decDigits\<close> and \<^verbatim>\<open>roundUp\<close>.\<close>

record dec_state =
  mantissa :: u64
  seen_dot :: bool
  dec_digits :: int
  round_up :: bool

fun decimal_loop :: "string \<Rightarrow> int \<Rightarrow> bool \<Rightarrow> dec_state \<Rightarrow> string \<Rightarrow> coerce_error + dec_state" where
  "decimal_loop whole target_scale failing st [] = Inr st"
| "decimal_loop whole target_scale failing st (c # s) =
     (if c = CHR ''.'' then
        if seen_dot st then Inl (DecMultiplePoints whole)
        else decimal_loop whole target_scale failing (st\<lparr>seen_dot := True\<rparr>) s
      else if \<not> is_digit c then Inl (DecUnexpectedChar whole c)
      else let digit = of_nat (digit_val c) :: u64 in
        if \<not> seen_dot st then
          decimal_loop whole target_scale failing (st\<lparr>mantissa := mantissa st * 10 + digit\<rparr>) s
        else if dec_digits st < target_scale then
          decimal_loop whole target_scale failing
            (st\<lparr>mantissa := mantissa st * 10 + digit, dec_digits := i32 (dec_digits st + 1)\<rparr>) s
        else if dec_digits st = target_scale then
          if failing then Inl (DecExcessPrecision whole target_scale)
          else decimal_loop whole target_scale failing
            (st\<lparr>round_up := (round_up st \<or> digit \<ge> 5), dec_digits := i32 (dec_digits st + 1)\<rparr>) s
        else decimal_loop whole target_scale failing st s)"

definition coerce_decimal_fast :: "string \<Rightarrow> int \<Rightarrow> string \<Rightarrow> coerce_error + int \<times> int" where
  "coerce_decimal_fast s0 target_scale on_overflow0 =
     (let on_overflow = (if on_overflow0 = [] then ''round'' else on_overflow0);
          s = trim_space s0 in
      if s = [] then Inr (0, target_scale)
      else let neg = (hd s = CHR ''-'');
               i = (if hd s = CHR ''-'' \<or> hd s = CHR ''+'' then 1 else 0) in
        if i \<ge> length s then Inl (DecEmptyDigits s)
        else case decimal_loop s target_scale (on_overflow = ''fail'')
               \<lparr>mantissa = 0, seen_dot = False, dec_digits = 0, round_up = False\<rparr> (drop i s) of
            Inl e \<Rightarrow> Inl e
          | Inr st \<Rightarrow>
              let m = ((\<lambda>m. m * 10) ^^ nat (target_scale - dec_digits st)) (mantissa st);
                  m' = (if round_up st then m + 1 else m);
                  res = sint m'
              in Inr (if neg then i64 (- res) else res, target_scale))"

section \<open>FormatDecimal (internal/domain/record.go)\<close>

definition format_decimal :: "int \<Rightarrow> int \<Rightarrow> string" where
  "format_decimal m scale =
     (if scale \<le> 0 then format_int m
      else let neg = (m < 0);
               uval = (if m < 0 then word_of_int (i64 (0 - m)) else word_of_int m) :: u64;
               str = format_uint (unat uval);
               n = nat scale;
               body = (if length str \<le> n then ''0.'' @ replicate (n - length str) (CHR ''0'') @ str
                       else take (length str - n) str @ ''.'' @ drop (length str - n) str)
           in (if neg then ''-'' else []) @ body)"

section \<open>Specifications\<close>

text \<open>The integer a decimal numeral denotes, and \<open>x / 10 ^ f\<close> in units of \<open>10 ^ (- k)\<close>, rounded half up.\<close>

definition numeral_value :: "string \<Rightarrow> int option" where
  "numeral_value s = (let t = trim_space s; (neg, i) = extract_sign t; ds = drop i t in
     if ds \<noteq> [] \<and> list_all is_digit ds
     then Some (if neg then - int (dec_val ds) else int (dec_val ds)) else None)"

definition round_half_up :: "nat \<Rightarrow> nat \<Rightarrow> nat \<Rightarrow> nat" where
  "round_half_up x f k = (2 * x * 10 ^ k + 10 ^ f) div (2 * 10 ^ f)"

section \<open>Integers\<close>

lemma overflow_test_iff:
  fixes n :: u64 and d :: nat
  assumes "d < 10"
  shows "n > (- 1 - of_nat d) div 10 \<longleftrightarrow> unat n * 10 + d \<ge> 2 ^ 64"
proof -
  have ud: "unat (of_nat d :: u64) = d"
    using assms by (simp add: unat_of_nat take_bit_eq_mod)
  have le: "(of_nat d :: u64) \<le> - 1" by simp
  have "unat (- 1 - of_nat d :: u64) = unat (- 1 :: u64) - d"
    using unat_sub [OF le] ud by simp
  then have "unat ((- 1 - of_nat d) div 10 :: u64) = (2 ^ 64 - 1 - d) div 10"
    by (simp add: unat_div_distrib unsigned_minus_1_eq_mask mask_eq_exp_minus_1)
  then have "n > (- 1 - of_nat d) div 10 \<longleftrightarrow> unat n > (2 ^ 64 - 1 - d) div 10"
    by (simp add: word_less_nat_alt)
  then show ?thesis using assms by auto
qed

lemma unat_shift_add_digit:
  fixes n :: u64
  assumes "d < 10" "unat n * 10 + d < 2 ^ 64"
  shows "unat (n * 10 + of_nat d) = unat n * 10 + d"
proof -
  have "unat (n * 10 + of_nat d) = (unat n * 10 + d) mod 2 ^ 64"
    using assms(1) by (simp add: unat_word_ariths unat_of_nat take_bit_eq_mod mod_simps)
  with assms(2) show ?thesis by simp
qed

lemma parse_digits_uint64_Inr:
  "parse_digits_uint64 n s = Inr r \<longleftrightarrow>
     (\<forall>c \<in> set s. is_digit c) \<and> unat n * 10 ^ length s + dec_val s < 2 ^ 64 \<and>
     unat r = unat n * 10 ^ length s + dec_val s"
proof (induction s arbitrary: n)
  case Nil
  show ?case using unsigned_less [of n] by (auto simp: word_unat_eq_iff)
next
  case (Cons c s)
  show ?case
  proof (cases "is_digit c")
    case False
    then show ?thesis by simp
  next
    case True
    then have d: "digit_val c < 10" by (rule digit_val_lt)
    have dv: "dec_val (c # s) = digit_val c * 10 ^ length s + dec_val s"
      using dec_val_append [of "[c]" s] by (simp add: dec_val_def)
    show ?thesis
    proof (cases "unat n * 10 + digit_val c \<ge> 2 ^ 64")
      case ov: True
      have "2 ^ 64 \<le> (unat n * 10 + digit_val c) * 10 ^ length s"
        using ov by (metis le_trans mult_le_mono nat_mult_1_right one_le_power one_le_numeral)
      then have "\<not> unat n * 10 ^ length (c # s) + dec_val (c # s) < 2 ^ 64"
        by (simp add: dv algebra_simps)
      then show ?thesis using ov True overflow_test_iff [OF d] by simp
    next
      case False
      then have u: "unat (n * 10 + of_nat (digit_val c)) = unat n * 10 + digit_val c"
        using d by (intro unat_shift_add_digit) auto
      have e: "unat n * 10 ^ length (c # s) + dec_val (c # s) =
          unat (n * 10 + of_nat (digit_val c)) * 10 ^ length s + dec_val s"
        by (simp add: u dv) (simp add: algebra_simps)
      show ?thesis
        using False True overflow_test_iff [OF d, of n] Cons.IH [of "n * 10 + of_nat (digit_val c)"]
        unfolding e by simp
    qed
  qed
qed

lemma parse_int64_Inr_iff:
  "parse_int64 s = Inr v \<longleftrightarrow> numeral_value s = Some v \<and> in_i64 v"
proof (cases "trim_space s = []")
  case True
  then show ?thesis by (simp add: parse_int64_def numeral_value_def)
next
  case False
  let ?t = "trim_space s"
  obtain neg i where sg: "extract_sign ?t = (neg, i)" by fastforce
  have il: "i \<le> length ?t" using sg False by (cases ?t) (auto split: if_splits)
  show ?thesis
  proof (cases "i = length ?t")
    case True
    then show ?thesis using False sg by (simp add: parse_int64_def numeral_value_def)
  next
    case ne: False
    let ?d = "drop i ?t"
    have ne: "?d \<noteq> []" using ne il by simp
    show ?thesis
    proof (cases "parse_digits_uint64 0 ?d")
      case (Inl e)
      then have "\<not> (list_all is_digit ?d \<and> dec_val ?d < 2 ^ 64)"
        using parse_digits_uint64_Inr [of 0 ?d "of_nat (dec_val ?d)"]
        by (auto simp: list_all_iff unat_of_nat take_bit_eq_mod)
      with Inl show ?thesis using False sg ne
        by (auto simp: parse_int64_def numeral_value_def in_i64_def Let_def split: if_splits)
    next
      case (Inr n)
      then have n: "list_all is_digit ?d" "unat n = dec_val ?d"
        using parse_digits_uint64_Inr [of 0 ?d n] by (auto simp: list_all_iff)
      have cmp: "n > 2 ^ 63 \<longleftrightarrow> dec_val ?d > 2 ^ 63" "n > 2 ^ 63 - 1 \<longleftrightarrow> dec_val ?d > 2 ^ 63 - 1"
        by (simp_all add: word_less_nat_alt n(2))
      have di: "int (dec_val ?d) = uint n" by (simp only: n(2) [symmetric]) simp
      have sm: "dec_val ?d < 2 ^ 63 \<Longrightarrow> sint n = int (dec_val ?d)"
        using sint_small [of n] di by (simp only: n(2))
      have ng: "dec_val ?d \<le> 2 ^ 63 \<Longrightarrow> i64 (- sint n) = - int (dec_val ?d)"
        using i64_neg_sint [of n] di by (simp only: n(2))
      show ?thesis using False sg ne n(1) Inr cmp sm ng
        by (cases neg) (auto simp: parse_int64_def numeral_value_def in_i64_def Let_def)
    qed
  qed
qed

section \<open>Decimals\<close>

lemma decimal_loop_int_part:
  assumes "\<not> seen_dot st" "list_all is_digit ip"
  shows "decimal_loop w k f st (ip @ rest) =
    decimal_loop w k f (st\<lparr>mantissa := mantissa st * 10 ^ length ip + of_nat (dec_val ip)\<rparr>) rest"
  using assms
proof (induction ip arbitrary: st)
  case Nil
  then show ?case by simp
next
  case (Cons c ip)
  have "decimal_loop w k f st ((c # ip) @ rest) =
      decimal_loop w k f (st\<lparr>mantissa := mantissa st * 10 + of_nat (digit_val c)\<rparr>) (ip @ rest)"
    using Cons.prems is_digit_not_dot by (simp add: Let_def)
  also have "\<dots> = decimal_loop w k f (st\<lparr>mantissa :=
      (mantissa st * 10 + of_nat (digit_val c)) * 10 ^ length ip + of_nat (dec_val ip)\<rparr>) rest"
    using Cons.prems by (subst Cons.IH) auto
  finally show ?case by (simp add: dec_val_Cons algebra_simps)
qed

lemma decimal_loop_excess:
  assumes "seen_dot st" "list_all is_digit fp" "k < dec_digits st"
  shows "decimal_loop w k f st fp = Inr st"
  using assms by (induction fp) (auto simp: Let_def dest: is_digit_not_dot)

lemma decimal_loop_frac_part:
  assumes "seen_dot st" "list_all is_digit fp" "0 \<le> dec_digits st" "dec_digits st \<le> k"
    "k < 2 ^ 31 - 1" "\<not> round_up st"
  shows "decimal_loop w k False st fp = (let n = nat (k - dec_digits st) in
    Inr (st\<lparr>mantissa := mantissa st * 10 ^ length (take n fp) + of_nat (dec_val (take n fp)),
            dec_digits := (if n < length fp then k + 1 else dec_digits st + int (length fp)),
            round_up := (n < length fp \<and> digit_val (fp ! n) \<ge> 5)\<rparr>))"
  using assms
proof (induction fp arbitrary: st)
  case Nil
  then show ?case by (simp add: Let_def)
next
  case (Cons c fp)
  have dg: "is_digit c" "c \<noteq> CHR ''.''" using Cons.prems(2) is_digit_not_dot by auto
  have w: "i32 (dec_digits st + 1) = dec_digits st + 1"
    using Cons.prems(3-5) by (intro i32_id) (simp add: in_i32_def)
  show ?case
  proof (cases "dec_digits st < k")
    case True
    let ?st = "st\<lparr>mantissa := mantissa st * 10 + of_nat (digit_val c), dec_digits := dec_digits st + 1\<rparr>"
    let ?m = "nat (k - (dec_digits st + 1))"
    have n: "nat (k - dec_digits st) = Suc ?m" using True by simp
    have "decimal_loop w k False st (c # fp) = decimal_loop w k False ?st fp"
      using True dg Cons.prems(1) w by (simp add: Let_def)
    also have "\<dots> = Inr (?st\<lparr>mantissa := mantissa ?st * 10 ^ length (take ?m fp) + of_nat (dec_val (take ?m fp)),
            dec_digits := (if ?m < length fp then k + 1 else dec_digits ?st + int (length fp)),
            round_up := (?m < length fp \<and> digit_val (fp ! ?m) \<ge> 5)\<rparr>)"
      using Cons.prems True by (subst Cons.IH) (auto simp: Let_def)
    finally show ?thesis unfolding n by (simp add: Let_def dec_val_Cons algebra_simps)
  next
    case False
    with Cons.prems have k: "dec_digits st = k" by simp
    have d5: "((of_nat (digit_val c) :: u64) \<ge> 5) \<longleftrightarrow> digit_val c \<ge> 5"
      using digit_val_lt [OF dg(1)] by (simp add: word_le_nat_alt unat_of_nat take_bit_eq_mod)
    have "decimal_loop w k False st (c # fp) =
        decimal_loop w k False (st\<lparr>round_up := (digit_val c \<ge> 5), dec_digits := k + 1\<rparr>) fp"
      using dg Cons.prems(1,6) w d5 by (simp add: k Let_def)
    also have "\<dots> = Inr (st\<lparr>round_up := (digit_val c \<ge> 5), dec_digits := k + 1\<rparr>)"
      using Cons.prems(1,2) by (intro decimal_loop_excess) auto
    finally show ?thesis by (simp add: Let_def k)
  qed
qed

lemma round_half_up_exact: "f \<le> k \<Longrightarrow> round_half_up x f k = x * 10 ^ (k - f)"
proof -
  assume "f \<le> k"
  then obtain g where k: "k = f + g" using le_Suc_ex by blast
  have e: "2 * x * 10 ^ k + 10 ^ f = 10 ^ f + (x * 10 ^ g) * (2 * 10 ^ f)"
    unfolding k power_add by (simp add: algebra_simps)
  have "round_half_up x f k = x * 10 ^ g + 10 ^ f div (2 * 10 ^ f)"
    unfolding round_half_up_def e by (rule div_mult_self1) simp
  then show ?thesis by (simp add: k)
qed

lemma round_half_up_cut:
  assumes "r < 10 ^ Suc g"
  shows "round_half_up (q * 10 ^ Suc g + r) (k + Suc g) k = (if r \<ge> 5 * 10 ^ g then q + 1 else q)"
proof -
  let ?G = "10 ^ Suc g :: nat"
  have "2 * (q * ?G + r) * 10 ^ k + 10 ^ (k + Suc g) = 10 ^ k * ((2 * r + ?G) + q * (2 * ?G))"
    unfolding power_add by (simp add: algebra_simps)
  moreover have "2 * 10 ^ (k + Suc g) = 10 ^ k * (2 * ?G)"
    unfolding power_add by (simp add: algebra_simps)
  ultimately have "round_half_up (q * ?G + r) (k + Suc g) k = ((2 * r + ?G) + q * (2 * ?G)) div (2 * ?G)"
    unfolding round_half_up_def by (simp only: div_mult_mult1) simp
  also have "\<dots> = q + (2 * r + ?G) div (2 * ?G)"
    by (rule div_mult_self1) simp
  also have "(2 * r + ?G) div (2 * ?G) = (if r \<ge> 5 * 10 ^ g then 1 else 0)"
  proof (cases "r \<ge> 5 * 10 ^ g")
    case True
    with assms have "2 * r + ?G = (2 * r - ?G) + 1 * (2 * ?G)" "2 * r - ?G < 2 * ?G" by simp_all
    then have "(2 * r + ?G) div (2 * ?G) = 1 + (2 * r - ?G) div (2 * ?G)"
      by (metis div_mult_self1 mult_eq_0_iff power_not_zero zero_neq_numeral)
    with \<open>2 * r - ?G < 2 * ?G\<close> True show ?thesis by simp
  next
    case False
    then show ?thesis by simp
  qed
  finally show ?thesis by simp
qed

lemma funpow_times10: "((\<lambda>m::u64. m * 10) ^^ n) m = m * 10 ^ n"
  by (induction n) (auto simp: algebra_simps)

lemma round_half_up_digits:
  assumes "list_all is_digit fp" "k < length fp"
  shows "round_half_up (dec_val (ip @ fp)) (length fp) k =
    dec_val (ip @ take k fp) + (if digit_val (fp ! k) \<ge> 5 then 1 else 0)"
proof -
  let ?d = "digit_val (fp ! k)" and ?u = "drop (Suc k) fp"
  let ?g = "length ?u"
  have split: "fp = take k fp @ fp ! k # ?u" using assms(2) by (rule id_take_nth_drop)
  have len: "length fp = k + Suc ?g" using assms(2) by simp
  have dig: "is_digit (fp ! k)" "list_all is_digit ?u"
    using assms by (auto simp: list_all_length)
  have r: "dec_val (fp ! k # ?u) = ?d * 10 ^ ?g + dec_val ?u" by (simp add: dec_val_Cons)
  have u: "dec_val ?u < 10 ^ ?g" using dig(2) by (rule dec_val_less)
  have lt: "dec_val (fp ! k # ?u) < 10 ^ Suc ?g"
    using dec_val_less [of "fp ! k # ?u"] dig by simp
  have ge: "dec_val (fp ! k # ?u) \<ge> 5 * 10 ^ ?g \<longleftrightarrow> ?d \<ge> 5"
  proof
    assume "?d \<ge> 5"
    then have "5 * 10 ^ ?g \<le> ?d * 10 ^ ?g" by (rule mult_le_mono1)
    then show "dec_val (fp ! k # ?u) \<ge> 5 * 10 ^ ?g" unfolding r by linarith
  next
    assume a: "dec_val (fp ! k # ?u) \<ge> 5 * 10 ^ ?g"
    show "?d \<ge> 5"
    proof (rule ccontr)
      assume "\<not> ?d \<ge> 5"
      then have "?d * 10 ^ ?g \<le> 4 * 10 ^ ?g" by (intro mult_le_mono1) simp
      with a u show False unfolding r by linarith
    qed
  qed
  have "ip @ fp = (ip @ take k fp) @ fp ! k # ?u" using split by (metis append_assoc)
  then have "dec_val (ip @ fp) = dec_val (ip @ take k fp) * 10 ^ Suc ?g + dec_val (fp ! k # ?u)"
    by (simp only: dec_val_append [of "ip @ take k fp"]) simp
  then have "round_half_up (dec_val (ip @ fp)) (k + Suc ?g) k =
      (if ?d \<ge> 5 then dec_val (ip @ take k fp) + 1 else dec_val (ip @ take k fp))"
    by (simp only: round_half_up_cut [OF lt] ge)
  then show ?thesis unfolding len [symmetric] by simp
qed

lemma decimal_loop_decimal:
  assumes "list_all is_digit ip" "list_all is_digit fp" "0 \<le> k" "k < 2 ^ 31 - 1"
    and st: "st = \<lparr>mantissa = 0, seen_dot = False, dec_digits = 0, round_up = False\<rparr>"
  shows "\<exists>st'. decimal_loop w k False st (ip @ ''.'' @ fp) = Inr st' \<and>
    (let m = ((\<lambda>m. m * 10) ^^ nat (k - dec_digits st')) (mantissa st')
     in (if round_up st' then m + 1 else m) = of_nat (round_half_up (dec_val (ip @ fp)) (length fp) (nat k)))"
proof -
  let ?k = "nat k"
  let ?st' = "\<lparr>mantissa = of_nat (dec_val ip) * 10 ^ length (take ?k fp) + of_nat (dec_val (take ?k fp)),
      seen_dot = True, dec_digits = (if ?k < length fp then k + 1 else int (length fp)),
      round_up = (?k < length fp \<and> digit_val (fp ! ?k) \<ge> 5)\<rparr>"
  have run: "decimal_loop w k False st (ip @ ''.'' @ fp) = Inr ?st'"
    using assms by (simp add: decimal_loop_int_part decimal_loop_frac_part Let_def)
  have m: "mantissa ?st' = of_nat (dec_val (ip @ take ?k fp))"
    by (simp add: dec_val_append)
  show ?thesis
  proof (cases "?k < length fp")
    case True
    then have "nat (k - dec_digits ?st') = 0" by simp
    with run m True round_half_up_digits [OF assms(2) True, of ip] show ?thesis
      by (auto simp: Let_def)
  next
    case False
    then have "nat (k - dec_digits ?st') = ?k - length fp" "take ?k fp = fp" by simp_all
    with run m False round_half_up_exact [of "length fp" ?k "dec_val (ip @ fp)"] show ?thesis
      by (auto simp: Let_def funpow_times10)
  qed
qed

lemma coerce_decimal_general:
  assumes "list_all is_digit ip" "list_all is_digit fp" "ip \<noteq> []" "0 \<le> k" "k < 2 ^ 31 - 1"
    and s: "trim_space s = sg @ ip @ ''.'' @ fp" and sg: "sg = [] \<or> sg = ''-'' \<or> sg = ''+''"
    and mode: "mode \<noteq> ''fail''"
  shows "coerce_decimal_fast s k mode =
    (let v = i64 (int (round_half_up (dec_val (ip @ fp)) (length fp) (nat k)))
     in Inr (if sg = ''-'' then i64 (- v) else v, k))"
proof -
  obtain st' where st': "decimal_loop (trim_space s) k False
      \<lparr>mantissa = 0, seen_dot = False, dec_digits = 0, round_up = False\<rparr> (ip @ ''.'' @ fp) = Inr st'"
    and v: "(let m = ((\<lambda>m. m * 10) ^^ nat (k - dec_digits st')) (mantissa st')
     in (if round_up st' then m + 1 else m) = of_nat (round_half_up (dec_val (ip @ fp)) (length fp) (nat k)))"
    using decimal_loop_decimal [OF assms(1,2,4,5) refl] by blast
  have hd_ip: "hd ip \<noteq> CHR ''-''" "hd ip \<noteq> CHR ''+''"
    using assms(1,3) by (cases ip; auto simp: is_digit_def)+
  have ne: "trim_space s \<noteq> []" using s by simp
  let ?i = "if hd (trim_space s) = CHR ''-'' \<or> hd (trim_space s) = CHR ''+'' then 1 else 0 :: nat"
  have d: "drop ?i (trim_space s) = ip @ ''.'' @ fp" "?i < length (trim_space s)"
    "(hd (trim_space s) = CHR ''-'') = (sg = ''-'')"
    using sg hd_ip assms(3) by (auto simp: s)
  have f: "((if mode = [] then ''round'' else mode) = ''fail'') = False"
    using mode by simp
  show ?thesis
    using ne d st' v unfolding coerce_decimal_fast_def f Let_def
    by (simp add: sint_of_nat_i64 Let_def)
qed

lemma decimal_loop_fail_irrelevant:
  assumes "seen_dot st" "list_all is_digit fp" "0 \<le> dec_digits st" "dec_digits st + int (length fp) \<le> k"
    "k < 2 ^ 31 - 1"
  shows "decimal_loop w k f st fp = decimal_loop w k False st fp"
  using assms
proof (induction fp arbitrary: st)
  case (Cons c fp)
  have "i32 (dec_digits st + 1) = dec_digits st + 1"
    using Cons.prems(3-5) by (intro i32_id) (simp add: in_i32_def)
  then show ?case using Cons by (simp add: Let_def)
qed simp

lemma decimal_loop_fail_irrelevant_point:
  assumes "list_all is_digit ip" "list_all is_digit fp" "int (length fp) \<le> k" "k < 2 ^ 31 - 1"
    "\<not> seen_dot st" "dec_digits st = 0"
  shows "decimal_loop w k f st (ip @ ''.'' @ fp) = decimal_loop w k False st (ip @ ''.'' @ fp)"
  using assms by (simp add: decimal_loop_int_part decimal_loop_fail_irrelevant [of _ fp k w f])

lemma coerce_decimal_mode:
  assumes "list_all is_digit ip" "list_all is_digit fp" "ip \<noteq> []" "int (length fp) \<le> k" "k < 2 ^ 31 - 1"
    and s: "trim_space s = sg @ ip @ ''.'' @ fp" and sg: "sg = [] \<or> sg = ''-'' \<or> sg = ''+''"
  shows "coerce_decimal_fast s k mode = coerce_decimal_fast s k ''round''"
proof -
  have hd_ip: "hd ip \<noteq> CHR ''-''" "hd ip \<noteq> CHR ''+''"
    using assms(1,3) by (cases ip; auto simp: is_digit_def)+
  let ?i = "if hd (trim_space s) = CHR ''-'' \<or> hd (trim_space s) = CHR ''+'' then 1 else 0 :: nat"
  have eq: "drop ?i (trim_space s) = ip @ ''.'' @ fp"
    using sg hd_ip assms(3) by (auto simp: s)
  have run: "decimal_loop (trim_space s) k f
        \<lparr>mantissa = 0, seen_dot = False, dec_digits = 0, round_up = False\<rparr> (drop ?i (trim_space s)) =
      decimal_loop (trim_space s) k False
        \<lparr>mantissa = 0, seen_dot = False, dec_digits = 0, round_up = False\<rparr> (drop ?i (trim_space s))" for f
    unfolding eq by (rule decimal_loop_fail_irrelevant_point [OF assms(1,2,4,5)]) simp_all
  show ?thesis
    unfolding coerce_decimal_fast_def Let_def
      run [of "(if mode = [] then ''round'' else mode) = ''fail''"]
      run [of "(if ''round'' = [] then ''round'' else ''round'') = ''fail''"] ..
qed

lemma format_decimal_shape:
  fixes m scale :: int
  assumes "0 < scale"
  defines "u \<equiv> unat (if m < 0 then word_of_int (i64 (0 - m)) else word_of_int m :: u64)"
  obtains ip fp where "format_decimal m scale = (if m < 0 then ''-'' else []) @ ip @ ''.'' @ fp"
    "list_all is_digit ip" "list_all is_digit fp" "ip \<noteq> []" "length fp = nat scale"
    "dec_val (ip @ fp) = u"
proof (cases "length (format_uint u) \<le> nat scale")
  case True
  have "format_decimal m scale = (if m < 0 then ''-'' else []) @ ''0'' @ ''.'' @
      (replicate (nat scale - length (format_uint u)) (CHR ''0'') @ format_uint u)"
    using True assms(1) by (simp add: format_decimal_def u_def Let_def)
  then show ?thesis
    using True list_all_digits_format_uint [of u] assms(1)
    by (intro that [of "''0''" "replicate (nat scale - length (format_uint u)) (CHR ''0'') @ format_uint u"])
      (auto simp: dec_val_zeros dec_val_Cons digit_val_def is_digit_def list_all_iff)
next
  case False
  let ?p = "length (format_uint u) - nat scale"
  have "format_decimal m scale = (if m < 0 then ''-'' else []) @
      take ?p (format_uint u) @ ''.'' @ drop ?p (format_uint u)"
    using False assms(1) by (simp add: format_decimal_def u_def Let_def)
  moreover have "list_all is_digit (take ?p (format_uint u))" "list_all is_digit (drop ?p (format_uint u))"
    using list_all_digits_format_uint [of u] by (auto simp: list_all_iff dest: in_set_takeD in_set_dropD)
  ultimately show ?thesis using False
    by (intro that [of "take ?p (format_uint u)" "drop ?p (format_uint u)"]) auto
qed

section \<open>Properties\<close>


text \<open>Every \<^verbatim>\<open>int64\<close> printed by \<^verbatim>\<open>strconv.FormatInt\<close> is read back by \<^verbatim>\<open>ParseInt64\<close> as the same
  value, the smallest one included.\<close>

lemma int_print_parse:
  assumes "in_i64 v"
  shows "parse_int64 (format_int v) = Inr v"
proof -
  let ?ds = "format_uint (nat \<bar>v\<bar>)" and ?s = "format_int v"
  have sh: "?s = (if v < 0 then ''-'' else []) @ ?ds" by (simp add: format_int_def)
  have vis: "ascii_visible (hd ?ds)" "ascii_visible (last ?ds)"
    using format_uint_digits [of "nat \<bar>v\<bar>"] by (auto intro: is_digit_visible)
  then have t: "trim_space ?s = ?s"
    by (intro trim_space_visible) (auto simp: sh ascii_visible_def)
  have "extract_sign ?s = (v < 0, if v < 0 then 1 else 0)"
    using list_all_digits_format_uint [of "nat \<bar>v\<bar>"]
    by (cases ?ds) (auto simp: sh is_digit_def)
  moreover have "drop (if v < 0 then 1 else 0) ?s = ?ds" by (simp add: sh)
  ultimately have "numeral_value ?s = Some v"
    using list_all_digits_format_uint [of "nat \<bar>v\<bar>"]
    unfolding numeral_value_def t Let_def by (simp add: sh)
  with assms show ?thesis by (simp add: parse_int64_Inr_iff)
qed

text \<open>\<^verbatim>\<open>CoerceDecimalFast\<close> in its rounding mode returns the decimal rounded half up (away from
  zero) to the target scale, as long as the rounded mantissa fits an \<^verbatim>\<open>int64\<close>.\<close>

lemma coerce_decimal_rounds_half_up:
  assumes "list_all is_digit ip" "list_all is_digit fp" "ip \<noteq> []" "0 \<le> k" "k < 2 ^ 31 - 1"
    and "trim_space s = sg @ ip @ ''.'' @ fp" and "sg = [] \<or> sg = ''-'' \<or> sg = ''+''"
    and "mode \<noteq> ''fail''"
    and fits: "round_half_up (dec_val (ip @ fp)) (length fp) (nat k) < 2 ^ 63"
  shows "coerce_decimal_fast s k mode =
    Inr ((if sg = ''-'' then - 1 else 1) * int (round_half_up (dec_val (ip @ fp)) (length fp) (nat k)), k)"
proof -
  let ?r = "int (round_half_up (dec_val (ip @ fp)) (length fp) (nat k))"
  have "?r < 2 ^ 63" using fits by simp
  then have "i64 ?r = ?r" "i64 (- ?r) = - ?r" by (simp_all add: i64_id in_i64_def)
  then show ?thesis using coerce_decimal_general [OF assms(1-8)] by (simp add: Let_def)
qed

text \<open>A decimal rendered by \<^verbatim>\<open>FormatDecimal\<close> with a positive scale is read back by
  \<^verbatim>\<open>CoerceDecimalFast\<close> at that scale as the same mantissa, in both overflow modes and for every
  \<^verbatim>\<open>int64\<close> mantissa.\<close>

lemma decimal_print_parse:
  assumes "in_i64 m" "0 < scale" "scale < 2 ^ 31 - 1"
  shows "coerce_decimal_fast (format_decimal m scale) scale mode = Inr (m, scale)"
proof -
  let ?u = "unat (if m < 0 then word_of_int (i64 (0 - m)) else word_of_int m :: u64)"
  obtain ip fp where sh: "format_decimal m scale = (if m < 0 then ''-'' else []) @ ip @ ''.'' @ fp"
    and dg: "list_all is_digit ip" "list_all is_digit fp" and ne: "ip \<noteq> []"
    and len: "length fp = nat scale" and dv: "dec_val (ip @ fp) = ?u"
    using format_decimal_shape [OF assms(2)] by blast
  let ?s = "format_decimal m scale"
  have fpne: "fp \<noteq> []" using len assms(2) by auto
  have "ascii_visible (hd ip)" "ascii_visible (last fp)"
    using dg ne fpne by (auto simp: list_all_iff intro: is_digit_visible)
  then have t: "trim_space ?s = (if m < 0 then ''-'' else []) @ ip @ ''.'' @ fp"
    using ne fpne by (subst trim_space_visible) (auto simp: sh ascii_visible_def)
  have "int (length fp) \<le> scale" using len assms(2) by simp
  then have "coerce_decimal_fast ?s scale mode = coerce_decimal_fast ?s scale ''round''"
    using assms(3) by (intro coerce_decimal_mode [OF dg ne _ _ t]) auto
  also have "\<dots> = Inr (if m < 0 then i64 (- i64 (int ?u)) else i64 (int ?u), scale)"
    using coerce_decimal_general [OF dg ne _ assms(3) t, of "''round''"] assms(2) dv
      round_half_up_exact [of "nat scale" "nat scale" ?u]
    by (simp add: len Let_def)
  also have "(if m < 0 then i64 (- i64 (int ?u)) else i64 (int ?u)) = m"
  proof (cases "m < 0")
    case True
    have "i64 (int ?u) = i64 (- m)"
      using True by (simp flip: sint_eq_i64 add: wrap_simps)
    moreover have "i64 (- i64 (- m)) = i64 m" by simp
    ultimately show ?thesis using True assms(1) by (simp add: i64_id)
  next
    case False
    then show ?thesis using assms(1) by (simp flip: sint_eq_i64 add: wrap_simps)
  qed
  finally show ?thesis .
qed

text \<open>\<^verbatim>\<open>CoerceDecimalFast\<close> has no overflow test: the text \<open>9223372036854775808\<close>, one above the
  largest \<^verbatim>\<open>int64\<close>, is accepted as the smallest \<^verbatim>\<open>int64\<close>, while \<^verbatim>\<open>ParseInt64\<close> refuses it.\<close>

lemma coerce_decimal_overflow_wraps:
  "coerce_decimal_fast ''9223372036854775808'' 0 mode = Inr (- 9223372036854775808, 0) \<and>
   parse_int64 ''9223372036854775808'' = Inl ErrOverflow"
proof -
  have t: "trim_space ''9223372036854775808'' = ''9223372036854775808''"
    by (rule trim_space_visible) (simp_all add: ascii_visible_def)
  show ?thesis
    by (simp add: coerce_decimal_fast_def parse_int64_def t is_digit_def digit_val_def)
qed

end
