(* ===== verification/Records.thy ===== *)
theory Records
  imports Coercion
begin

text \<open>
  The data model: \<^verbatim>\<open>internal/domain/schema.go\<close>, \<^verbatim>\<open>record.go\<close>, \<^verbatim>\<open>errors.go\<close> and \<^verbatim>\<open>audit.go\<close>. A
  \<^verbatim>\<open>FieldValue\<close> keeps the number as its 64-bit pattern and the text as bytes, as the struct does; a
  pointer that the code tests for nil is an option. Writing past the end of \<^verbatim>\<open>Values\<close> panics in Go:
  the setters return \<^term>\<open>None\<close> there. The lemmas show what \<^verbatim>\<open>Validate\<close> rejects and when the
  two lookups of \<^verbatim>\<open>FieldByName\<close>, with and without the index, agree.
\<close>

section \<open>Schema (internal/domain/schema.go)\<close>

text \<open>\<^verbatim>\<open>DataType\<close> is a string type with nine named constants; any other string is \<open>TypeOther\<close>, the
  zero value \<^verbatim>\<open>""\<close> included.\<close>

datatype data_type =
    TypeString | TypeInt64 | TypeFloat64 | TypeBool | TypeTimestamp | TypeBytes | TypeDate
  | TypeDecimal | TypeJSON | TypeOther string

fun data_type_name :: "data_type \<Rightarrow> string" where
  "data_type_name TypeString = ''string''"
| "data_type_name TypeInt64 = ''int64''"
| "data_type_name TypeFloat64 = ''float64''"
| "data_type_name TypeBool = ''bool''"
| "data_type_name TypeTimestamp = ''timestamp''"
| "data_type_name TypeBytes = ''bytes''"
| "data_type_name TypeDate = ''date''"
| "data_type_name TypeDecimal = ''decimal''"
| "data_type_name TypeJSON = ''json''"
| "data_type_name (TypeOther s) = s"

abbreviation zero_type :: data_type where "zero_type \<equiv> TypeOther []"

record field =
  field_name :: string
  field_type :: data_type
  nullable :: bool
  field_scale :: int
  on_overflow :: string

record schema =
  sch_fields :: "field list"
  name_idx :: "(string \<rightharpoonup> nat) option"

definition zero_field :: field where
  "zero_field = \<lparr>field_name = [], field_type = zero_type, nullable = False, field_scale = 0, on_overflow = []\<rparr>"

fun index_from :: "nat \<Rightarrow> (string \<rightharpoonup> nat) \<Rightarrow> field list \<Rightarrow> (string \<rightharpoonup> nat)" where
  "index_from i m [] = m"
| "index_from i m (f # fs) = index_from (Suc i) (m(field_name f \<mapsto> i)) fs"

text \<open>\<^verbatim>\<open>UnmarshalJSON\<close> takes an array of fields or an object that has them. \<^verbatim>\<open>json.Unmarshal\<close> is an argument: into the fields, of which some
  may have been stored when it fails, and into a new structure.\<close>

definition schema_unmarshal_json :: "(string \<Rightarrow> field list \<times> string option) \<Rightarrow> (string \<Rightarrow> string + field list) \<Rightarrow> string \<Rightarrow> schema \<Rightarrow> schema \<times> string option" where
  "schema_unmarshal_json array object data s = (let d = trim_space data in
     if d \<noteq> [] \<and> hd d = CHR ''['' then (case array d of (fs, e) \<Rightarrow> (s\<lparr>sch_fields := fs\<rparr>, e))
     else (case object d of Inl e \<Rightarrow> (s, Some e) | Inr fs \<Rightarrow> (s\<lparr>sch_fields := fs\<rparr>, None)))"

definition schema_index :: "schema \<Rightarrow> schema" where
  "schema_index s = (if sch_fields s = [] then s else s\<lparr>name_idx := Some (index_from 0 Map.empty (sch_fields s))\<rparr>)"

definition schema_apply_defaults :: "schema \<Rightarrow> schema" where
  "schema_apply_defaults s = s\<lparr>sch_fields := map (\<lambda>f.
     if field_type f = TypeDecimal \<and> on_overflow f = [] then f\<lparr>on_overflow := ''round''\<rparr> else f) (sch_fields s)\<rparr>"

datatype schema_error =
    SchemaNoFields
  | FieldNameEmpty
  | ScaleNegative string int
  | UnsupportedOverflow string string

fun validate_fields :: "field list \<Rightarrow> schema_error option" where
  "validate_fields [] = None"
| "validate_fields (f # fs) =
     (if trim_space (field_name f) = [] then Some FieldNameEmpty
      else if field_type f = TypeDecimal \<and> field_scale f < 0 then
        Some (ScaleNegative (field_name f) (field_scale f))
      else if field_type f = TypeDecimal \<and> on_overflow f \<noteq> [] \<and> on_overflow f \<noteq> ''round'' \<and>
          on_overflow f \<noteq> ''fail'' then
        Some (UnsupportedOverflow (field_name f) (on_overflow f))
      else validate_fields fs)"

definition schema_validate :: "schema \<Rightarrow> schema_error option" where
  "schema_validate s = (if sch_fields s = [] then Some SchemaNoFields else validate_fields (sch_fields s))"

fun find_field :: "nat \<Rightarrow> string \<Rightarrow> field list \<Rightarrow> (field \<times> nat) option" where
  "find_field i name [] = None"
| "find_field i name (f # fs) = (if field_name f = name then Some (f, i) else find_field (Suc i) name fs)"

text \<open>\<^verbatim>\<open>FieldByName\<close>: through the index when there is one, else by a scan. \<^term>\<open>None\<close> is the
  result \<^verbatim>\<open>(Field{}, -1, false)\<close>. An index entry past the end of \<^verbatim>\<open>Fields\<close> would panic in Go; the
  index is only ever built by \<^verbatim>\<open>Index\<close> over the same slice.\<close>

definition field_by_name :: "schema \<Rightarrow> string \<Rightarrow> (field \<times> nat) option" where
  "field_by_name s name =
     (case name_idx s of
        Some m \<Rightarrow> (case m name of Some idx \<Rightarrow> Some (sch_fields s ! idx, idx) | None \<Rightarrow> None)
      | None \<Rightarrow> find_field 0 name (sch_fields s))"

section \<open>Values and records (internal/domain/record.go)\<close>

record field_value =
  fv_type :: data_type
  is_null :: bool
  scale :: int
  num_val :: u64
  str_val :: string

definition zero_value :: field_value where
  "zero_value = \<lparr>fv_type = zero_type, is_null = False, scale = 0, num_val = 0, str_val = []\<rparr>"

definition int64_val :: "field_value \<Rightarrow> int" where "int64_val f = sint (num_val f)"
definition float64_val :: "field_value \<Rightarrow> u64" where "float64_val f = num_val f"
definition bool_val :: "field_value \<Rightarrow> bool" where "bool_val f \<longleftrightarrow> num_val f = 1"
definition time_val :: "field_value \<Rightarrow> int" where "time_val f = sint (num_val f)"
definition string_val :: "field_value \<Rightarrow> string" where "string_val f = str_val f"
definition bytes_val :: "field_value \<Rightarrow> string" where "bytes_val f = str_val f"
definition decimal_val :: "field_value \<Rightarrow> int \<times> int" where "decimal_val f = (sint (num_val f), scale f)"

definition format_bool :: "bool \<Rightarrow> string" where
  "format_bool b = (if b then ''true'' else ''false'')"

definition fv_string :: "go_env \<Rightarrow> field_value \<Rightarrow> string" where
  "fv_string env f =
     (if is_null f then []
      else case fv_type f of
          TypeString \<Rightarrow> str_val f
        | TypeInt64 \<Rightarrow> format_int (int64_val f)
        | TypeFloat64 \<Rightarrow> f64_format env (float64_val f)
        | TypeBool \<Rightarrow> format_bool (bool_val f)
        | TypeTimestamp \<Rightarrow> time_format_rfc3339 env (time_val f)
        | TypeBytes \<Rightarrow> str_val f
        | TypeDecimal \<Rightarrow> format_decimal (int64_val f) (scale f)
        | _ \<Rightarrow> str_val f)"

datatype go_any =
    GoNil | GoString string | GoInt64 int | GoFloat64 u64 | GoBool bool | GoTime int | GoBytes string

definition fv_interface :: "field_value \<Rightarrow> go_any" where
  "fv_interface f =
     (if is_null f then GoNil
      else case fv_type f of
          TypeString \<Rightarrow> GoString (str_val f)
        | TypeInt64 \<Rightarrow> GoInt64 (int64_val f)
        | TypeFloat64 \<Rightarrow> GoFloat64 (float64_val f)
        | TypeBool \<Rightarrow> GoBool (bool_val f)
        | TypeTimestamp \<Rightarrow> GoTime (time_val f)
        | TypeBytes \<Rightarrow> GoBytes (str_val f)
        | TypeDecimal \<Rightarrow> GoString (format_decimal (int64_val f) (scale f))
        | _ \<Rightarrow> GoString (str_val f))"

record generic_record =
  schema_id :: string
  vals :: "field_value list"
  audit_fields :: "string gomap"

definition new_generic_record :: "string \<Rightarrow> nat \<Rightarrow> generic_record" where
  "new_generic_record sid n = \<lparr>schema_id = sid, vals = replicate n zero_value, audit_fields = []\<rparr>"

definition rec_get :: "generic_record \<Rightarrow> int \<Rightarrow> field_value option" where
  "rec_get r idx = (if idx < 0 \<or> idx \<ge> int (length (vals r)) then None else Some (vals r ! nat idx))"

text \<open>The assignment \<^verbatim>\<open>r.Values[idx] = v\<close>; \<^term>\<open>None\<close> is the run-time panic.\<close>

definition set_value :: "generic_record \<Rightarrow> nat \<Rightarrow> field_value \<Rightarrow> generic_record option" where
  "set_value r i v = (if i < length (vals r) then Some (r\<lparr>vals := (vals r)[i := v]\<rparr>) else None)"

definition set_null :: "generic_record \<Rightarrow> nat \<Rightarrow> data_type \<Rightarrow> generic_record option" where
  "set_null r i t = set_value r i (zero_value\<lparr>fv_type := t, is_null := True\<rparr>)"

definition set_string :: "generic_record \<Rightarrow> nat \<Rightarrow> string \<Rightarrow> generic_record option" where
  "set_string r i v = set_value r i (zero_value\<lparr>fv_type := TypeString, str_val := v\<rparr>)"

definition set_int64 :: "generic_record \<Rightarrow> nat \<Rightarrow> int \<Rightarrow> generic_record option" where
  "set_int64 r i v = set_value r i (zero_value\<lparr>fv_type := TypeInt64, num_val := word_of_int v\<rparr>)"

definition set_float64 :: "generic_record \<Rightarrow> nat \<Rightarrow> u64 \<Rightarrow> generic_record option" where
  "set_float64 r i v = set_value r i (zero_value\<lparr>fv_type := TypeFloat64, num_val := v\<rparr>)"

definition set_bool :: "generic_record \<Rightarrow> nat \<Rightarrow> bool \<Rightarrow> generic_record option" where
  "set_bool r i v = set_value r i (zero_value\<lparr>fv_type := TypeBool, num_val := (if v then 1 else 0)\<rparr>)"

definition set_timestamp :: "generic_record \<Rightarrow> nat \<Rightarrow> int \<Rightarrow> generic_record option" where
  "set_timestamp r i t = set_value r i (zero_value\<lparr>fv_type := TypeTimestamp, num_val := word_of_int t\<rparr>)"

definition set_bytes :: "generic_record \<Rightarrow> nat \<Rightarrow> string \<Rightarrow> generic_record option" where
  "set_bytes r i v = set_value r i (zero_value\<lparr>fv_type := TypeBytes, str_val := v\<rparr>)"

definition set_decimal :: "generic_record \<Rightarrow> nat \<Rightarrow> int \<Rightarrow> int \<Rightarrow> generic_record option" where
  "set_decimal r i m sc =
     set_value r i (zero_value\<lparr>fv_type := TypeDecimal, num_val := word_of_int m, scale := sc\<rparr>)"

fun to_map_from :: "generic_record \<Rightarrow> nat \<Rightarrow> field list \<Rightarrow> (string \<rightharpoonup> go_any) \<Rightarrow> (string \<rightharpoonup> go_any)" where
  "to_map_from r i [] m = m"
| "to_map_from r i (f # fs) m =
     to_map_from r (Suc i) fs
       (m(field_name f \<mapsto> (case rec_get r (int i) of
            None \<Rightarrow> GoNil
          | Some v \<Rightarrow> if is_null v then GoNil else fv_interface v)))"

definition to_map :: "generic_record option \<Rightarrow> schema option \<Rightarrow> (string \<rightharpoonup> go_any) option" where
  "to_map r s = (case (r, s) of
      (Some r, Some s) \<Rightarrow> Some (to_map_from r 0 (sch_fields s) Map.empty)
    | _ \<Rightarrow> None)"

record dead_letter_record =
  raw_payload :: string
  error_message :: string
  failed_column :: string
  source_file :: string
  failed_at :: int

section \<open>Audit events and field errors (audit.go, errors.go)\<close>

datatype audit_severity = SeverityInfo | SeverityWarning | SeverityError

record audit_record =
  ar_timestamp :: int
  event_type :: string
  severity :: audit_severity
  column_name :: string
  rule_name :: string
  message :: string
  sample_value :: string
  ar_pipeline_id :: string
  ar_run_id :: string

definition new_audit_record ::
  "int \<Rightarrow> string \<Rightarrow> audit_severity \<Rightarrow> string \<Rightarrow> string \<Rightarrow> string \<Rightarrow> string \<Rightarrow> audit_record" where
  "new_audit_record now ev sev col rule msg sample =
     \<lparr>ar_timestamp = now, event_type = ev, severity = sev, column_name = col, rule_name = rule,
      message = msg, sample_value = sample, ar_pipeline_id = [], ar_run_id = []\<rparr>"

definition err_type_cast_failed :: string where "err_type_cast_failed = ''type cast failed''"
definition err_null_constraint :: string where "err_null_constraint = ''non-nullable constraint violation''"

definition field_validation_error :: "go_env \<Rightarrow> string \<Rightarrow> string \<Rightarrow> data_type \<Rightarrow> string \<Rightarrow> string" where
  "field_validation_error env fld val t err =
     ''field '' @ go_quote env fld @ '' ('' @ data_type_name t @ '') with value '' @ go_quote env val @
     '': '' @ err"

section \<open>Lemmas\<close>

lemma set_value_Some: "i < length (vals r) \<Longrightarrow> set_value r i v = Some (r\<lparr>vals := (vals r)[i := v]\<rparr>)"
  by (simp add: set_value_def)

lemma int64_val_set [simp]:
  "int64_val (v\<lparr>num_val := word_of_int x\<rparr>) = i64 x"
  by (simp add: int64_val_def wrap_simps)

lemma find_field_Some:
  "find_field i name fs = Some (f, j) \<Longrightarrow> i \<le> j \<and> j < i + length fs \<and> f = fs ! (j - i) \<and> field_name f = name"
  by (induction fs arbitrary: i) (fastforce split: if_splits simp: nth_Cons')+

lemma index_from_notin: "name \<notin> field_name ` set fs \<Longrightarrow> index_from i m fs name = m name"
  by (induction fs arbitrary: i m) auto

lemma index_from_distinct:
  assumes "distinct (map field_name fs)"
  shows "index_from i m fs name =
    (case find_field i name fs of Some (f, j) \<Rightarrow> Some j | None \<Rightarrow> m name)"
  using assms
proof (induction fs arbitrary: i m)
  case (Cons f fs)
  then show ?case
    by (cases "field_name f = name") (auto simp: index_from_notin split: option.splits)
qed simp

text \<open>With distinct field names the indexed lookup and the scan of \<^verbatim>\<open>Schema.FieldByName\<close> return
  the same field and position; building the index does not change what a name resolves to.\<close>

lemma field_by_name_index_agrees:
  assumes "distinct (map field_name (sch_fields s))" "name_idx s = None"
  shows "field_by_name (schema_index s) name = field_by_name s name"
proof (cases "find_field 0 name (sch_fields s)")
  case None
  then show ?thesis using assms
    by (auto simp: field_by_name_def schema_index_def index_from_distinct)
next
  case (Some p)
  obtain f j where p: "p = (f, j)" by fastforce
  then have "f = sch_fields s ! j" using Some find_field_Some by fastforce
  then show ?thesis using assms Some p
    by (auto simp: field_by_name_def schema_index_def index_from_distinct)
qed

text \<open>With a repeated field name, which \<^verbatim>\<open>Schema.Validate\<close> accepts, the two lookups disagree: the
  scan finds the first field of that name and the index the last.\<close>

lemma field_by_name_duplicate_disagrees:
  "let s = \<lparr>sch_fields = [zero_field\<lparr>field_name := ''a'', field_type := TypeInt64\<rparr>,
                     zero_field\<lparr>field_name := ''a'', field_type := TypeString\<rparr>], name_idx = None\<rparr>
   in schema_validate s = None \<and>
      map_option snd (field_by_name s ''a'') = Some 0 \<and>
      map_option snd (field_by_name (schema_index s) ''a'') = Some 1"
proof -
  have "trim_space ''a'' = ''a''" by (rule trim_space_visible) (simp_all add: ascii_visible_def)
  then show ?thesis
    by (simp add: schema_validate_def field_by_name_def schema_index_def zero_field_def)
qed

end
