(* ===== verification/Wire.thy ===== *)
theory Wire
  imports Records
begin

text \<open>
  The primitives of the binary coders, \<^verbatim>\<open>internal/beam/core/coders_helpers.go\<close>, with the part of
  \<^verbatim>\<open>encoding/binary\<close> and \<^verbatim>\<open>io\<close> they use. A writer is the list of bytes it appends (writing to the
  \<^verbatim>\<open>bytes.Buffer\<close> of the coders does not fail); a reader takes the unread bytes and returns an error, or a
  value with the bytes left.

  The locale \<open>codec\<close> is the contract every encoder/decoder pair promises: decoding an encoding gives the
  value back and leaves what follows it unread. Sequences of encodings and unambiguity follow from it once.
\<close>

unbundle bit_operations_syntax

section \<open>Readers\<close>

datatype coder_error =
    IoEOF | IoUnexpectedEOF | VarintOverflow | ErrNilToken
  | InvalidByteLength int
  | InvalidFieldCount int
  | Wrapped string coder_error
  | WrappedAt string nat coder_error

text \<open>\<^verbatim>\<open>errors.Is(err, ErrNilToken)\<close> looks through the wrapping of \<^verbatim>\<open>%w\<close>.\<close>

fun is_nil_token :: "coder_error \<Rightarrow> bool" where
  "is_nil_token ErrNilToken = True"
| "is_nil_token (Wrapped _ e) = is_nil_token e"
| "is_nil_token (WrappedAt _ _ e) = is_nil_token e"
| "is_nil_token _ = False"

type_synonym 'a reader = "byte list \<Rightarrow> coder_error + 'a \<times> byte list"

definition rd_return :: "'a \<Rightarrow> 'a reader" where
  "rd_return x bs = Inr (x, bs)"

definition rd_fail :: "coder_error \<Rightarrow> 'a reader" where
  "rd_fail e bs = Inl e"

definition rd_bind :: "'a reader \<Rightarrow> ('a \<Rightarrow> 'b reader) \<Rightarrow> 'b reader" where
  "rd_bind r f bs = (case r bs of Inl e \<Rightarrow> Inl e | Inr (x, rest) \<Rightarrow> f x rest)"

definition rd_map_error :: "(coder_error \<Rightarrow> coder_error) \<Rightarrow> 'a reader \<Rightarrow> 'a reader" where
  "rd_map_error g r bs = (case r bs of Inl e \<Rightarrow> Inl (g e) | Inr y \<Rightarrow> Inr y)"

text \<open>\<^verbatim>\<open>io.ReadFull\<close> of a buffer of \<open>n\<close> bytes.\<close>

definition read_full :: "nat \<Rightarrow> byte list reader" where
  "read_full n bs =
     (if n \<le> length bs then Inr (take n bs, drop n bs)
      else if bs = [] then Inl IoEOF else Inl IoUnexpectedEOF)"

lemmas reader_defs = rd_return_def rd_fail_def rd_bind_def rd_map_error_def

section \<open>Varints (encoding/binary)\<close>

text \<open>\<^verbatim>\<open>PutVarint\<close> maps the sign to the lowest bit; \<^verbatim>\<open>ReadVarint\<close> maps it back.\<close>

definition zigzag :: "u64 \<Rightarrow> u64" where
  "zigzag w = (if sint w < 0 then NOT (push_bit 1 w) else push_bit 1 w)"

definition unzigzag :: "u64 \<Rightarrow> u64" where
  "unzigzag u = (if u AND 1 \<noteq> 0 then NOT (drop_bit 1 u) else drop_bit 1 u)"

text \<open>
  \<^verbatim>\<open>PutUvarint\<close> and \<^verbatim>\<open>ReadUvarint\<close> on the value of the \<^verbatim>\<open>uint64\<close>: the bits that \<^verbatim>\<open>x |= b << s\<close> adds are
  above those already read, so the \<^verbatim>\<open>|\<close> is an addition, and the tenth byte is refused above 1, so it does
  not leave 64 bits.
\<close>

fun put_uvarint :: "nat \<Rightarrow> byte list" where
  "put_uvarint x = (if x < 128 then [of_nat x] else of_nat (x mod 128 + 128) # put_uvarint (x div 128))"

declare put_uvarint.simps [simp del]

definition max_varint_len64 :: nat where "max_varint_len64 = 10"

function read_uvarint :: "nat \<Rightarrow> nat \<Rightarrow> nat reader" where
  "read_uvarint i x bs =
     (if i \<ge> max_varint_len64 then Inl VarintOverflow
      else case bs of
          [] \<Rightarrow> Inl (if i > 0 then IoUnexpectedEOF else IoEOF)
        | b # rest \<Rightarrow>
            if unat b < 128 then
              (if i = max_varint_len64 - 1 \<and> unat b > 1 then Inl VarintOverflow
               else Inr (x + unat b * 2 ^ (7 * i), rest))
            else read_uvarint (Suc i) (x + unat b mod 128 * 2 ^ (7 * i)) rest)"
  by auto
termination by (relation "measure (\<lambda>(i, x, bs). max_varint_len64 - i)") auto

declare read_uvarint.simps [simp del]

definition write_varint :: "int \<Rightarrow> byte list" where
  "write_varint v = put_uvarint (unat (zigzag (word_of_int v)))"

definition read_varint :: "int reader" where
  "read_varint = rd_bind (read_uvarint 0 0) (\<lambda>ux. rd_return (sint (unzigzag (of_nat ux))))"

section \<open>Byte strings\<close>

definition default_chunk_size_bytes :: nat where
  "default_chunk_size_bytes = 64 * 1024 * 1024"

definition write_bytes :: "string \<Rightarrow> byte list" where
  "write_bytes b = write_varint (int (length b)) @ map byte_of_char b"

definition read_bytes :: "string reader" where
  "read_bytes = rd_bind read_varint (\<lambda>n.
     if n = -1 then rd_fail ErrNilToken
     else if n < -1 \<or> n > int default_chunk_size_bytes then rd_fail (InvalidByteLength n)
     else if n = 0 then rd_return []
     else rd_bind (read_full (nat n)) (\<lambda>b. rd_return (map char_of_byte b)))"

definition write_string :: "string \<Rightarrow> byte list" where
  "write_string s = write_bytes s"

definition read_string :: "string reader" where
  "read_string = rd_bind read_bytes (\<lambda>b. rd_return b)"

section \<open>The contract of a coder\<close>

text \<open>Reading \<open>n\<close> values one after the other, as the decoders' loops do.\<close>

fun read_many :: "nat \<Rightarrow> 'a reader \<Rightarrow> 'a list reader" where
  "read_many 0 r = rd_return []"
| "read_many (Suc n) r = rd_bind r (\<lambda>x. rd_bind (read_many n r) (\<lambda>xs. rd_return (x # xs)))"

locale codec =
  fixes enc :: "'a \<Rightarrow> byte list" and dec :: "'b reader" and ok :: "'a \<Rightarrow> bool" and view :: "'a \<Rightarrow> 'b"
  assumes decode_encode: "ok x \<Longrightarrow> dec (enc x @ rest) = Inr (view x, rest)"
begin

lemma bind_encode: "ok x \<Longrightarrow> rd_bind dec f (enc x @ rest) = f (view x) rest"
  by (simp add: rd_bind_def decode_encode)

lemma map_error_encode: "ok x \<Longrightarrow> rd_bind (rd_map_error g dec) f (enc x @ rest) = f (view x) rest"
  by (simp add: rd_bind_def rd_map_error_def decode_encode)

lemma encode_unambiguous:
  "ok x \<Longrightarrow> ok y \<Longrightarrow> enc x @ r = enc y @ s \<Longrightarrow> view x = view y \<and> r = s"
  by (metis decode_encode prod.inject sum.inject(2))

lemma read_many_encode:
  "list_all ok xs \<Longrightarrow> read_many (length xs) dec (concat (map enc xs) @ rest) = Inr (map view xs, rest)"
  by (induction xs) (auto simp: rd_bind_def rd_return_def decode_encode)

end

text \<open>Two codecs in sequence are a codec for pairs.\<close>

locale codec_pair = c1: codec enc1 dec1 ok1 view1 + c2: codec enc2 dec2 ok2 view2
  for enc1 :: "'a \<Rightarrow> byte list" and dec1 :: "'b reader" and ok1 view1
    and enc2 :: "'c \<Rightarrow> byte list" and dec2 :: "'d reader" and ok2 view2

sublocale codec_pair \<subseteq> pair: codec "\<lambda>(x, y). enc1 x @ enc2 y"
  "rd_bind dec1 (\<lambda>x. rd_bind dec2 (\<lambda>y. rd_return (x, y)))" "\<lambda>(x, y). ok1 x \<and> ok2 y" "\<lambda>(x, y). (view1 x, view2 y)"
  by unfold_locales (auto simp: c1.bind_encode c2.bind_encode rd_return_def)

section \<open>Lemmas\<close>

lemma zigzag_unzigzag: "unzigzag (zigzag w) = w"
proof -
  have neg: "sint w < 0 \<longleftrightarrow> bit w 63" for w :: u64
    using bit_last_iff [of w] by simp
  have dbl: "bit (w * 2) (Suc n) \<longleftrightarrow> n < 63 \<and> bit w n" for n
    using bit_double_iff [of w "Suc n"] by (simp add: mult.commute [of w])
  have last: "n < 64 \<Longrightarrow> \<not> n < 63 \<Longrightarrow> n = 63" for n :: nat by simp
  show ?thesis
    by (rule bit_word_eqI)
      (auto simp: zigzag_def unzigzag_def neg bit_simps and_one_eq mod_2_eq_odd dbl dest: last)
qed

lemma unat_of_nat_byte: "k < 256 \<Longrightarrow> unat (of_nat k :: byte) = k"
  by (simp add: unat_of_nat)

lemma read_put_uvarint:
  assumes "i < 10" "n * 2 ^ (7 * i) < 2 ^ 64"
  shows "read_uvarint i x (put_uvarint n @ rest) = Inr (x + n * 2 ^ (7 * i), rest)"
  using assms
proof (induction n arbitrary: i x rule: put_uvarint.induct)
  case (1 n)
  show ?case
  proof (cases "n < 128")
    case True
    have "\<not> (i = 9 \<and> n > 1)" using "1.prems" by auto
    then show ?thesis
      using True "1.prems" by (simp add: put_uvarint.simps [of n] read_uvarint.simps [of i] unat_of_nat_byte max_varint_len64_def)
  next
    case False
    have i: "i < 9"
    proof (rule ccontr)
      assume "\<not> i < 9"
      then have "i = 9" using "1.prems" by simp
      then show False using False "1.prems" by simp
    qed
    have split: "n * 2 ^ (7 * i) = n mod 128 * 2 ^ (7 * i) + n div 128 * 2 ^ (7 * Suc i)"
    proof -
      have "n * 2 ^ (7 * i) = (n div 128 * 128 + n mod 128) * 2 ^ (7 * i)" by simp
      also have "\<dots> = n mod 128 * 2 ^ (7 * i) + n div 128 * (2 ^ 7 * 2 ^ (7 * i))"
        by (simp only: distrib_right) simp
      also have "(2::nat) ^ 7 * 2 ^ (7 * i) = 2 ^ (7 * Suc i)" by (simp add: power_add)
      finally show ?thesis .
    qed
    then have "n div 128 * 2 ^ (7 * Suc i) < 2 ^ 64" using "1.prems" by linarith
    from "1.IH" [OF False _ this] i
    have "read_uvarint (Suc i) (x + n mod 128 * 2 ^ (7 * i)) (put_uvarint (n div 128) @ rest) =
        Inr (x + n * 2 ^ (7 * i), rest)" unfolding split by (simp add: add.assoc)
    moreover have "unat (of_nat (n mod 128 + 128) :: byte) = n mod 128 + 128" by (rule unat_of_nat_byte) simp
    ultimately show ?thesis
      using False i by (simp add: put_uvarint.simps [of n] read_uvarint.simps [of i] max_varint_len64_def)
  qed
qed

lemma read_write_varint:
  assumes "in_i64 v" shows "read_varint (write_varint v @ rest) = Inr (v, rest)"
proof -
  let ?u = "zigzag (word_of_int v)"
  have "unat ?u < 2 ^ LENGTH(64)" by (rule unsigned_less)
  then have "read_uvarint 0 0 (put_uvarint (unat ?u) @ rest) = Inr (unat ?u, rest)"
    using read_put_uvarint [of 0 "unat ?u" 0 rest] by simp
  moreover have "sint (unzigzag (of_nat (unat ?u))) = v"
    using assms by (simp add: zigzag_unzigzag sint_word_of_int_i64 i64_id)
  ultimately show ?thesis by (simp add: read_varint_def write_varint_def rd_bind_def rd_return_def)
qed

interpretation varint: codec write_varint read_varint in_i64 "\<lambda>v. v"
  by unfold_locales (rule read_write_varint)

text \<open>The strings the coders read back: at most 64 MiB.\<close>

definition wire_string :: "string \<Rightarrow> bool" where
  "wire_string s \<longleftrightarrow> length s \<le> default_chunk_size_bytes"

lemma in_i64_length: "length s \<le> default_chunk_size_bytes \<Longrightarrow> in_i64 (int (length s))"
  by (rule in_i64I) (auto simp: default_chunk_size_bytes_def)

interpretation bytes: codec write_bytes read_bytes wire_string "\<lambda>s. s"
proof
  fix s rest assume "wire_string s"
  then have len: "length s \<le> default_chunk_size_bytes" "in_i64 (int (length s))"
    by (simp_all add: wire_string_def in_i64_length)
  show "read_bytes (write_bytes s @ rest) = Inr (s, rest)"
    unfolding read_bytes_def write_bytes_def append_assoc varint.bind_encode [OF len(2)]
    using len(1) by (simp add: rd_bind_def rd_return_def read_full_def)
qed

interpretation string: codec write_string read_string wire_string "\<lambda>s. s"
  by unfold_locales (simp add: write_string_def read_string_def bytes.bind_encode rd_return_def)

end
