(* ===== verification/Metrics.thy ===== *)
theory Metrics
  imports Records "HOL-Library.Multiset"
begin

text \<open>
  Run metrics: \<^verbatim>\<open>internal/domain/metrics.go\<close> and the two Beam combiners of
  \<^verbatim>\<open>internal/beam/core/metrics_combiner.go\<close>. Counters are \<^verbatim>\<open>int64\<close> values that wrap around. A Go map
  field is an option: \<^term>\<open>None\<close> is the nil map.

  The contract of a combiner is the locale \<open>combine_fn\<close>: how a runner splits the inputs into bundles and
  merges the partial accumulators does not change what the result represents. It is interpreted on
  \<^verbatim>\<open>OriginCombinerFn\<close> and on \<^verbatim>\<open>MetricsSummaryCombinerFn\<close>. The last part models \<^verbatim>\<open>RecordWritten\<close> under
  concurrent callers, where its two atomic operations interleave.
\<close>

section \<open>PipelineMetrics (metrics.go)\<close>

record origin_metric =
  om_total_read :: int
  om_valid :: int
  om_dlq :: int

record watermark_output =
  wo_column :: string
  wo_type :: string
  wo_value :: "string option"

record pipeline_metrics =
  pipeline_id :: string
  run_id :: string
  total_records_read :: int
  row_count :: int
  rows_written :: int
  dead_letter_count :: int
  bytes_written :: int
  files_written :: int
  api_calls_made :: int
  pm_checksum :: string
  execution_duration_ms :: int
  records_per_second :: u64
  throughput_mb_per_second :: u64
  pm_watermark :: "watermark_output option"
  origin_metrics :: "origin_metric gomap option"
  column_null_counts :: "int gomap option"
  invalid_value_counts :: "int gomap option"
  custom_metrics :: "go_any gomap option"

definition zero_metrics :: pipeline_metrics where
  "zero_metrics = \<lparr>pipeline_id = [], run_id = [], total_records_read = 0, row_count = 0, rows_written = 0,
     dead_letter_count = 0, bytes_written = 0, files_written = 0, api_calls_made = 0, pm_checksum = [],
     execution_duration_ms = 0, records_per_second = 0, throughput_mb_per_second = 0, pm_watermark = None,
     origin_metrics = None, column_null_counts = None, invalid_value_counts = None, custom_metrics = None\<rparr>"

definition new_pipeline_metrics :: "string \<Rightarrow> string \<Rightarrow> pipeline_metrics" where
  "new_pipeline_metrics pid rid = zero_metrics\<lparr>pipeline_id := pid, run_id := rid, origin_metrics := Some [],
     column_null_counts := Some [], invalid_value_counts := Some [], custom_metrics := Some []\<rparr>"

definition record_read :: "pipeline_metrics \<Rightarrow> pipeline_metrics" where
  "record_read m = m\<lparr>total_records_read := i64 (total_records_read m + 1)\<rparr>"

text \<open>\<^verbatim>\<open>RecordWritten\<close> is two atomic operations: the addition, whose result it keeps, and the store.\<close>

definition written_add :: "pipeline_metrics \<Rightarrow> pipeline_metrics \<times> int" where
  "written_add m = (let v = i64 (rows_written m + 1) in (m\<lparr>rows_written := v\<rparr>, v))"

definition written_store :: "pipeline_metrics \<Rightarrow> int \<Rightarrow> pipeline_metrics" where
  "written_store m v = m\<lparr>row_count := v\<rparr>"

definition record_written :: "pipeline_metrics \<Rightarrow> pipeline_metrics" where
  "record_written m = (let (m1, v) = written_add m in written_store m1 v)"

definition record_api_call :: "pipeline_metrics \<Rightarrow> pipeline_metrics" where
  "record_api_call m = m\<lparr>api_calls_made := i64 (api_calls_made m + 1)\<rparr>"

definition record_dead_letter :: "pipeline_metrics \<Rightarrow> pipeline_metrics" where
  "record_dead_letter m = m\<lparr>dead_letter_count := i64 (dead_letter_count m + 1)\<rparr>"

definition count_incr :: "int gomap \<Rightarrow> string \<Rightarrow> int gomap" where
  "count_incr c k = gm_set c k (i64 ((case map_of c k of Some n \<Rightarrow> n | None \<Rightarrow> 0) + 1))"

definition add_column_null :: "pipeline_metrics \<Rightarrow> string \<Rightarrow> pipeline_metrics" where
  "add_column_null m col = (case column_null_counts m of
      None \<Rightarrow> m | Some c \<Rightarrow> m\<lparr>column_null_counts := Some (count_incr c col)\<rparr>)"

definition add_invalid_value :: "pipeline_metrics \<Rightarrow> string \<Rightarrow> pipeline_metrics" where
  "add_invalid_value m col = (case invalid_value_counts m of
      None \<Rightarrow> m | Some c \<Rightarrow> m\<lparr>invalid_value_counts := Some (count_incr c col)\<rparr>)"

definition is_strictly_conserved :: "pipeline_metrics \<Rightarrow> bool" where
  "is_strictly_conserved m \<longleftrightarrow> total_records_read m = i64 (rows_written m + dead_letter_count m)"

definition map_entries :: "'v gomap option \<Rightarrow> 'v gomap" where
  "map_entries c = (case c of None \<Rightarrow> [] | Some m \<Rightarrow> m)"

definition is_conserved_per_origin :: "pipeline_metrics \<Rightarrow> bool" where
  "is_conserved_per_origin m \<longleftrightarrow>
     list_all (\<lambda>(k, om). om_total_read om = i64 (om_valid om + om_dlq om)) (map_entries (origin_metrics m))"

text \<open>\<^verbatim>\<open>Snapshot\<close> copies every field; a map that is empty becomes nil, and the copies have their own
  entries, so later updates of the original do not reach them.\<close>

definition copy_map :: "'v gomap option \<Rightarrow> 'v gomap option" where
  "copy_map c = (if map_entries c = [] then None else Some (foldl (\<lambda>r (k, v). gm_set r k v) [] (map_entries c)))"

definition copy_watermark :: "watermark_output option \<Rightarrow> watermark_output option" where
  "copy_watermark w = (case w of None \<Rightarrow> None | Some o' \<Rightarrow>
     Some (case wo_value o' of None \<Rightarrow> o' | Some v \<Rightarrow> o'\<lparr>wo_value := Some v\<rparr>))"

definition snapshot :: "pipeline_metrics \<Rightarrow> pipeline_metrics" where
  "snapshot m = m\<lparr>pm_watermark := copy_watermark (pm_watermark m), origin_metrics := copy_map (origin_metrics m),
     column_null_counts := copy_map (column_null_counts m),
     invalid_value_counts := copy_map (invalid_value_counts m), custom_metrics := copy_map (custom_metrics m)\<rparr>"

text \<open>\<^verbatim>\<open>MarshalJSON\<close>. Values of \<^verbatim>\<open>encoding/json\<close> are an argument: the fields of the struct, what a value becomes when it is read back into an
  \<^verbatim>\<open>any\<close> (a number is a \<^verbatim>\<open>float64\<close> then), the values of the maps, and the error of writing the final object.\<close>

record 'j metrics_json =
  mj_struct :: "pipeline_metrics \<Rightarrow> string + 'j gomap"
  mj_reread :: "'j \<Rightarrow> 'j"
  mj_int :: "int \<Rightarrow> 'j"
  mj_any :: "go_any \<Rightarrow> 'j"
  mj_error :: "'j gomap \<Rightarrow> string option"

definition set_entries :: "('v \<Rightarrow> 'j) \<Rightarrow> 'j gomap \<Rightarrow> 'v gomap \<Rightarrow> 'j gomap" where
  "set_entries f root es = foldl (\<lambda>r (k, v). gm_set r k (f v)) root es"

definition metrics_marshal_json :: "'j metrics_json \<Rightarrow> pipeline_metrics \<Rightarrow> string + 'j gomap" where
  "metrics_marshal_json J m =
     (let s = snapshot m; snap = (if row_count s = 0 \<and> 0 < rows_written s then s\<lparr>row_count := rows_written s\<rparr> else s);
          nulls = map_entries (column_null_counts snap); invalid = map_entries (invalid_value_counts snap); custom = map_entries (custom_metrics snap) in
      case mj_struct J snap of
        Inl e \<Rightarrow> Inl e
      | Inr b \<Rightarrow>
          if nulls = [] \<and> invalid = [] \<and> custom = [] then Inr b
          else let root = set_entries (mj_any J) (set_entries (mj_int J) (set_entries (mj_int J) (map (\<lambda>(k, v). (k, mj_reread J v)) b) nulls) invalid) custom in
            (case mj_error J root of Some e \<Rightarrow> Inl e | None \<Rightarrow> Inr root))"

lemma set_entries_lookup: "map_ok es \<Longrightarrow> map_of (set_entries f root es) k = (case map_of es k of Some v \<Rightarrow> Some (f v) | None \<Rightarrow> map_of root k)"
proof (induction es arbitrary: root)
  case (Cons e es)
  have "set_entries f root (e # es) = set_entries f (gm_set root (fst e) (f (snd e))) es" by (simp add: set_entries_def split_def)
  then show ?case using Cons.IH [of "gm_set root (fst e) (f (snd e))"] Cons.prems map_of_eq_None_iff [of es "fst e"]
    by (auto simp: map_ok_def map_of_gm_set split: option.splits)
qed (simp add: set_entries_def)

text \<open>The counts of columns are written beside the fields of the struct: a column whose name is that of a field replaces it.\<close>

lemma column_replaces_field:
  assumes "metrics_marshal_json J m = Inr root" "map_of (map_entries (column_null_counts m)) name = Some n"
    and "map_ok (map_entries (column_null_counts m))" "map_ok (map_entries (invalid_value_counts m))" "map_ok (map_entries (custom_metrics m))"
    and "map_of (map_entries (invalid_value_counts m)) name = None" "map_of (map_entries (custom_metrics m)) name = None"
  shows "map_of root name = Some (mj_int J n)"
proof -
  have c: "map_ok (map_entries x) \<Longrightarrow> map_entries (copy_map x) = map_entries x" for x :: "'x gomap option"
    using foldl_gm_set_append [of "[]" "map_entries x"] by (auto simp: map_entries_def copy_map_def map_ok_def split: option.splits)
  have "map_entries (column_null_counts m) \<noteq> []" using assms(2) by auto
  then show ?thesis using assms
    by (auto simp: metrics_marshal_json_def snapshot_def c Let_def set_entries_lookup split: sum.splits option.splits if_splits)
qed

section \<open>OriginCombinerFn (metrics_combiner.go)\<close>

record origin_accumulator =
  oa_total_read :: int
  oa_valid :: int
  oa_dlq :: int

definition oc_create :: origin_accumulator where
  "oc_create = \<lparr>oa_total_read = 0, oa_valid = 0, oa_dlq = 0\<rparr>"

definition oc_add :: "origin_accumulator \<Rightarrow> bool \<Rightarrow> origin_accumulator" where
  "oc_add a is_dlq =
     (let a1 = a\<lparr>oa_total_read := i64 (oa_total_read a + 1)\<rparr> in
      if is_dlq then a1\<lparr>oa_dlq := i64 (oa_dlq a1 + 1)\<rparr> else a1\<lparr>oa_valid := i64 (oa_valid a1 + 1)\<rparr>)"

definition oc_merge :: "origin_accumulator \<Rightarrow> origin_accumulator \<Rightarrow> origin_accumulator" where
  "oc_merge a b = \<lparr>oa_total_read = i64 (oa_total_read a + oa_total_read b),
     oa_valid = i64 (oa_valid a + oa_valid b), oa_dlq = i64 (oa_dlq a + oa_dlq b)\<rparr>"

definition oc_extract :: "origin_accumulator \<Rightarrow> origin_metric" where
  "oc_extract a = \<lparr>om_total_read = oa_total_read a, om_valid = oa_valid a, om_dlq = oa_dlq a\<rparr>"

section \<open>MetricsSummaryCombinerFn (metrics_combiner.go)\<close>

record origin_summary =
  os_origin :: string
  os_metric :: origin_metric

definition ms_create :: pipeline_metrics where
  "ms_create = zero_metrics\<lparr>origin_metrics := Some [], column_null_counts := Some [],
     invalid_value_counts := Some [], custom_metrics := Some []\<rparr>"

definition ms_add :: "pipeline_metrics \<Rightarrow> origin_summary \<Rightarrow> pipeline_metrics" where
  "ms_add a item = a\<lparr>total_records_read := i64 (total_records_read a + om_total_read (os_metric item)),
     rows_written := i64 (rows_written a + om_valid (os_metric item)),
     dead_letter_count := i64 (dead_letter_count a + om_dlq (os_metric item)),
     origin_metrics := Some (gm_set (map_entries (origin_metrics a)) (os_origin item) (os_metric item))\<rparr>"

definition ms_merge :: "pipeline_metrics \<Rightarrow> pipeline_metrics \<Rightarrow> pipeline_metrics" where
  "ms_merge a b = ms_create\<lparr>total_records_read := i64 (total_records_read a + total_records_read b),
     rows_written := i64 (rows_written a + rows_written b),
     dead_letter_count := i64 (dead_letter_count a + dead_letter_count b),
     origin_metrics := Some (foldl (\<lambda>r (k, v). gm_set r k v) []
       (map_entries (origin_metrics a) @ map_entries (origin_metrics b)))\<rparr>"

definition ms_extract :: "pipeline_metrics \<Rightarrow> pipeline_metrics" where
  "ms_extract a = a"

section \<open>The contract of a Beam combiner\<close>

text \<open>A runner's execution of a combine: bundles folded with \<^verbatim>\<open>AddInput\<close>, merged in any shape.\<close>

datatype 'x combine_plan = Bundle "'x list" | MergePlans "'x combine_plan" "'x combine_plan"

fun plan_inputs :: "'x combine_plan \<Rightarrow> 'x multiset" where
  "plan_inputs (Bundle xs) = mset xs"
| "plan_inputs (MergePlans p q) = plan_inputs p + plan_inputs q"

fun run_combine :: "'a \<Rightarrow> ('a \<Rightarrow> 'x \<Rightarrow> 'a) \<Rightarrow> ('a \<Rightarrow> 'a \<Rightarrow> 'a) \<Rightarrow> 'x combine_plan \<Rightarrow> 'a" where
  "run_combine create add merge (Bundle xs) = foldl add create xs"
| "run_combine create add merge (MergePlans p q) =
     merge (run_combine create add merge p) (run_combine create add merge q)"

locale combine_fn =
  fixes create :: 'a and add :: "'a \<Rightarrow> 'x \<Rightarrow> 'a" and merge :: "'a \<Rightarrow> 'a \<Rightarrow> 'a"
    and legal :: "'x multiset \<Rightarrow> bool" and repr :: "'a \<Rightarrow> 'x multiset \<Rightarrow> bool"
  assumes legal_part: "legal (M + N) \<Longrightarrow> legal M"
    and repr_create: "repr create {#}"
    and repr_add: "repr a M \<Longrightarrow> legal (add_mset x M) \<Longrightarrow> repr (add a x) (add_mset x M)"
    and repr_merge: "repr a M \<Longrightarrow> repr b N \<Longrightarrow> legal (M + N) \<Longrightarrow> repr (merge a b) (M + N)"
begin

lemma repr_fold:
  "repr a M \<Longrightarrow> legal (mset xs + M) \<Longrightarrow> repr (foldl add a xs) (mset xs + M)"
proof (induction xs arbitrary: a M)
  case (Cons x xs)
  have eq: "mset (x # xs) + M = mset xs + add_mset x M" by simp
  have "legal (add_mset x M + mset xs)" using Cons.prems(2) by (simp add: ac_simps)
  then have "legal (add_mset x M)" by (rule legal_part)
  then have "repr (add a x) (add_mset x M)" using Cons.prems(1) by (rule repr_add [rotated])
  moreover have "legal (mset xs + add_mset x M)" using Cons.prems(2) by simp
  ultimately show ?case unfolding eq foldl_Cons by (rule Cons.IH)
qed simp

lemma run_combine_repr: "legal (plan_inputs p) \<Longrightarrow> repr (run_combine create add merge p) (plan_inputs p)"
proof (induction p)
  case (Bundle xs)
  then show ?case using repr_fold [OF repr_create] by simp
next
  case (MergePlans p q)
  have "legal (plan_inputs p)" "legal (plan_inputs q)"
    using MergePlans.prems legal_part [of "plan_inputs p" "plan_inputs q"]
      legal_part [of "plan_inputs q" "plan_inputs p"] by (simp_all add: ac_simps)
  then show ?case using MergePlans by (auto intro: repr_merge)
qed

end

section \<open>Both combiners meet the contract\<close>

definition oc_repr :: "origin_accumulator \<Rightarrow> bool multiset \<Rightarrow> bool" where
  "oc_repr a M \<longleftrightarrow> oa_total_read a = i64 (int (size M)) \<and> oa_valid a = i64 (int (count M False)) \<and>
     oa_dlq a = i64 (int (count M True))"

lemma i64_0 [simp]: "i64 0 = 0"
  by (simp add: i64_def)

interpretation oc: combine_fn oc_create oc_add oc_merge "\<lambda>_. True" oc_repr
  by unfold_locales (auto simp: oc_repr_def oc_create_def oc_add_def oc_merge_def Let_def ac_simps)

text \<open>A multiset of summaries in which each origin occurs once, and what an accumulator says about it.\<close>

definition once_per_origin :: "origin_summary multiset \<Rightarrow> bool" where
  "once_per_origin M \<longleftrightarrow> (\<forall>k. count (image_mset os_origin M) k \<le> 1)"

definition ms_repr :: "pipeline_metrics \<Rightarrow> origin_summary multiset \<Rightarrow> bool" where
  "ms_repr a M \<longleftrightarrow>
     total_records_read a = i64 (\<Sum>s\<in>#M. om_total_read (os_metric s)) \<and>
     rows_written a = i64 (\<Sum>s\<in>#M. om_valid (os_metric s)) \<and>
     dead_letter_count a = i64 (\<Sum>s\<in>#M. om_dlq (os_metric s)) \<and>
     map_ok (map_entries (origin_metrics a)) \<and>
     set (map_entries (origin_metrics a)) = (\<lambda>s. (os_origin s, os_metric s)) ` set_mset M"

lemma once_per_origin_part: "once_per_origin (M + N) \<Longrightarrow> once_per_origin M"
  by (auto simp: once_per_origin_def intro: order.trans [OF le_add1])

lemma once_per_origin_disjoint:
  assumes "once_per_origin (M + N)" "s \<in># M" "t \<in># N" shows "os_origin s \<noteq> os_origin t"
proof
  assume eq: "os_origin s = os_origin t"
  have "os_origin s \<in># image_mset os_origin M" using assms(2) by simp
  moreover have "os_origin s \<in># image_mset os_origin N" unfolding eq using assms(3) by simp
  ultimately have "count (image_mset os_origin M) (os_origin s) > 0" "count (image_mset os_origin N) (os_origin s) > 0"
    by (simp_all only: count_greater_zero_iff)
  moreover have "count (image_mset os_origin M) (os_origin s) + count (image_mset os_origin N) (os_origin s) \<le> 1"
    using assms(1) unfolding once_per_origin_def image_mset_union count_union by blast
  ultimately show False by linarith
qed

lemma map_entries_Some [simp]: "map_entries (Some m) = m"
  by (simp add: map_entries_def)

interpretation ms: combine_fn ms_create ms_add ms_merge once_per_origin ms_repr
proof
  show "ms_repr ms_create {#}" by (simp add: ms_repr_def ms_create_def zero_metrics_def)
next
  fix a M x assume a: "ms_repr a M" and l: "once_per_origin (add_mset x M)"
  have "os_origin x \<notin> os_origin ` set_mset M"
    using once_per_origin_disjoint [of "{#x#}" M] l by fastforce
  then have new: "os_origin x \<notin> fst ` set (map_entries (origin_metrics a))"
    using a by (auto simp: ms_repr_def)
  show "ms_repr (ms_add a x) (add_mset x M)"
    using a new by (simp add: ms_repr_def ms_add_def gm_set_new [OF new] map_ok_def ac_simps)
next
  fix a M b N assume a: "ms_repr a M" and b: "ms_repr b N" and l: "once_per_origin (M + N)"
  let ?x = "map_entries (origin_metrics a)" and ?y = "map_entries (origin_metrics b)"
  have "fst ` set ?x \<inter> fst ` set ?y = {}"
    using a b once_per_origin_disjoint [OF l] by (auto simp: ms_repr_def)
  then have "map_ok (?x @ ?y)" using a b by (auto simp: ms_repr_def map_ok_def)
  then show "ms_repr (ms_merge a b) (M + N)"
    using a b foldl_gm_set_append [of "[]" "?x @ ?y"]
    by (auto simp: ms_repr_def ms_merge_def image_Un)
qed (rule once_per_origin_part)

section \<open>RecordWritten under concurrent callers\<close>

text \<open>
  The state of several goroutines inside \<^verbatim>\<open>RecordWritten\<close>: the shared metrics and the values that the
  calls between their two atomic operations still have to store.
\<close>

record writers =
  shared :: pipeline_metrics
  pending :: "int list"

inductive writer_step :: "writers \<Rightarrow> writers \<Rightarrow> bool" where
  add: "written_add (shared w) = (m, v) \<Longrightarrow> writer_step w \<lparr>shared = m, pending = pending w @ [v]\<rparr>"
| store: "i < length (pending w) \<Longrightarrow>
    writer_step w \<lparr>shared = written_store (shared w) (pending w ! i),
      pending = take i (pending w) @ drop (Suc i) (pending w)\<rparr>"

inductive_cases writer_stepE: "writer_step w w'"

definition idle :: "pipeline_metrics \<Rightarrow> writers" where
  "idle m = \<lparr>shared = m, pending = []\<rparr>"

text \<open>The counts a state can show: no value above the number of additions is ever stored.\<close>

definition writers_ok :: "writers \<Rightarrow> bool" where
  "writers_ok w \<longleftrightarrow> 0 \<le> row_count (shared w) \<and> row_count (shared w) \<le> rows_written (shared w) \<and>
     list_all (\<lambda>v. 0 \<le> v \<and> v \<le> rows_written (shared w)) (pending w)"

lemma writer_step_ok:
  assumes "writer_step w w'" "writers_ok w" "rows_written (shared w) < max_i64"
  shows "writers_ok w'"
  using assms
proof (cases rule: writer_step.cases)
  case (add m v)
  have "i64 (rows_written (shared w) + 1) = rows_written (shared w) + 1"
    using assms(2,3) by (intro i64_id in_i64I) (auto simp: writers_ok_def max_i64_def)
  then show ?thesis using add assms(2)
    by (auto simp: writers_ok_def written_add_def Let_def list_all_iff)
next
  case (store i)
  have "set (take i (pending w) @ drop (Suc i) (pending w)) \<subseteq> set (pending w)"
    using set_take_subset set_drop_subset by fastforce
  moreover have "pending w ! i \<in> set (pending w)" using store by simp
  ultimately show ?thesis using store assms(2)
    unfolding writers_ok_def list_all_iff written_store_def by auto
qed

section \<open>Properties\<close>

text \<open>C28. For every way a runner bundles the outcomes of one origin and merges the partial accumulators,
  \<^verbatim>\<open>OriginCombinerFn\<close> returns the same metric: the number of outcomes, of valid ones and of dead letters
  (as \<^verbatim>\<open>int64\<close>), with the total equal to the sum of the other two.\<close>

theorem origin_combine_any_bundling:
  "let om = oc_extract (run_combine oc_create oc_add oc_merge p) in
   om_total_read om = i64 (int (size (plan_inputs p))) \<and>
   om_valid om = i64 (int (count (plan_inputs p) False)) \<and>
   om_dlq om = i64 (int (count (plan_inputs p) True)) \<and>
   om_total_read om = i64 (om_valid om + om_dlq om)"
proof -
  have size_bool: "size M = count M False + count M True" for M :: "bool multiset"
    by (induction M) auto
  show ?thesis
    using oc.run_combine_repr [of p] by (simp add: oc_repr_def oc_extract_def Let_def size_bool)
qed

text \<open>\<^verbatim>\<open>RecordWritten\<close> is not atomic: two concurrent calls can end, with no call in progress, in a
  state whose \<^verbatim>\<open>RowCount\<close> is 1 while \<^verbatim>\<open>RowsWritten\<close> is 2; one after the other they leave both at 2.\<close>

lemma record_written_race:
  "let m0 = new_pipeline_metrics ''p'' ''r'' in
   (\<exists>m. writer_step\<^sup>*\<^sup>* (idle m0) (idle m) \<and> rows_written m = 2 \<and> row_count m = 1) \<and>
   rows_written (record_written (record_written m0)) = 2 \<and> row_count (record_written (record_written m0)) = 2"
proof -
  let ?start = "new_pipeline_metrics ''p'' ''r''"
  let ?m = "?start\<lparr>rows_written := 2, row_count := 1\<rparr>"
  note defs = idle_def written_add_def written_store_def new_pipeline_metrics_def zero_metrics_def Let_def i64_def
  have s1: "writer_step (idle ?start) \<lparr>shared = ?start\<lparr>rows_written := 1\<rparr>, pending = [1]\<rparr>"
    using writer_step.add [of "idle ?start"] by (simp add: defs)
  have s2: "writer_step \<lparr>shared = ?start\<lparr>rows_written := 1\<rparr>, pending = [1]\<rparr>
      \<lparr>shared = ?start\<lparr>rows_written := 2\<rparr>, pending = [1, 2]\<rparr>"
    using writer_step.add [of "\<lparr>shared = ?start\<lparr>rows_written := 1\<rparr>, pending = [1]\<rparr>"] by (simp add: defs)
  have s3: "writer_step \<lparr>shared = ?start\<lparr>rows_written := 2\<rparr>, pending = [1, 2]\<rparr>
      \<lparr>shared = ?start\<lparr>rows_written := 2, row_count := 2\<rparr>, pending = [1]\<rparr>"
    using writer_step.store [of 1 "\<lparr>shared = ?start\<lparr>rows_written := 2\<rparr>, pending = [1, 2]\<rparr>"] by (simp add: defs)
  have s4: "writer_step \<lparr>shared = ?start\<lparr>rows_written := 2, row_count := 2\<rparr>, pending = [1]\<rparr> (idle ?m)"
    using writer_step.store [of 0 "\<lparr>shared = ?start\<lparr>rows_written := 2, row_count := 2\<rparr>, pending = [1]\<rparr>"]
    by (simp add: defs)
  have "writer_step\<^sup>*\<^sup>* (idle ?start) (idle ?m)"
    by (rule rtranclp.rtrancl_into_rtrancl [where r = writer_step, OF _ s4], rule rtranclp.rtrancl_into_rtrancl [where r = writer_step, OF _ s3],
        rule rtranclp.rtrancl_into_rtrancl [where r = writer_step, OF _ s2], rule r_into_rtranclp, rule s1)
  then have "\<exists>m. writer_step\<^sup>*\<^sup>* (idle ?start) (idle m) \<and> rows_written m = 2 \<and> row_count m = 1"
    by (intro exI [of _ ?m]) simp
  then show ?thesis by (simp add: record_written_def defs)
qed

end
