(* ===== verification/Coders.thy ===== *)
theory Coders
  imports Wire Metrics "HOL-Library.Char_ord" "HOL-Library.List_Lexorder"
begin

text \<open>
  The Beam coders: the composite parts of \<^verbatim>\<open>internal/beam/core/coders_helpers.go\<close>, all of
  \<^verbatim>\<open>coders.go\<close>, and the \<^verbatim>\<open>MetricItem\<close> coder of \<^verbatim>\<open>metrics_combiner.go\<close>. Every encoder/decoder pair is an
  interpretation of the locale \<open>codec\<close> of theory Wire; \<open>wire_view\<close> and \<open>metrics_view\<close> say what a value is
  after a trip over the wire, and what the formats drop.
\<close>

section \<open>Null mask and field values (coders_helpers.go)\<close>

definition set_mask_bit :: "byte list \<Rightarrow> nat \<Rightarrow> byte list" where
  "set_mask_bit nmask i = nmask[i div 8 := nmask ! (i div 8) OR push_bit (i mod 8) 1]"

definition test_mask_bit :: "byte list \<Rightarrow> nat \<Rightarrow> bool" where
  "test_mask_bit nmask i \<longleftrightarrow> nmask ! (i div 8) AND push_bit (i mod 8) 1 \<noteq> 0"

fun null_mask_from :: "nat \<Rightarrow> field_value list \<Rightarrow> byte list \<Rightarrow> byte list" where
  "null_mask_from i [] nmask = nmask"
| "null_mask_from i (v # vs) nmask =
     null_mask_from (Suc i) vs (if is_null v then set_mask_bit nmask i else nmask)"

definition mask_len :: "nat \<Rightarrow> nat" where "mask_len n = (n + 7) div 8"

definition write_null_mask :: "field_value list \<Rightarrow> byte list" where
  "write_null_mask vs = null_mask_from 0 vs (replicate (mask_len (length vs)) 0)"

definition read_null_mask :: "nat \<Rightarrow> byte list reader" where
  "read_null_mask n = rd_map_error (Wrapped ''coders: nullMask'') (read_full (mask_len n))"

fun data_type_to_byte :: "data_type \<Rightarrow> byte" where
  "data_type_to_byte TypeInt64 = 1"
| "data_type_to_byte TypeFloat64 = 2"
| "data_type_to_byte TypeBool = 3"
| "data_type_to_byte TypeTimestamp = 4"
| "data_type_to_byte TypeBytes = 5"
| "data_type_to_byte TypeDate = 6"
| "data_type_to_byte TypeDecimal = 7"
| "data_type_to_byte TypeJSON = 8"
| "data_type_to_byte _ = 0"

definition byte_to_data_type :: "byte \<Rightarrow> data_type" where
  "byte_to_data_type b =
     (if b = 1 then TypeInt64 else if b = 2 then TypeFloat64 else if b = 3 then TypeBool
      else if b = 4 then TypeTimestamp else if b = 5 then TypeBytes else if b = 6 then TypeDate
      else if b = 7 then TypeDecimal else if b = 8 then TypeJSON else TypeString)"

text \<open>\<^verbatim>\<open>binary.BigEndian\<close> on 64 bits.\<close>

definition put_uint64 :: "u64 \<Rightarrow> byte list" where
  "put_uint64 w = map (\<lambda>k. ucast (drop_bit (8 * (7 - k)) w)) [0..<8]"

definition get_uint64 :: "byte list \<Rightarrow> u64" where
  "get_uint64 bs = foldl (\<lambda>w b. push_bit 8 w OR ucast b) 0 (take 8 bs)"

definition encode_field_value :: "field_value \<Rightarrow> byte list" where
  "encode_field_value fv = (case fv_type fv of
      TypeInt64 \<Rightarrow> write_varint (int64_val fv)
    | TypeFloat64 \<Rightarrow> put_uint64 (num_val fv)
    | TypeBool \<Rightarrow> [if bool_val fv then 1 else 0]
    | TypeTimestamp \<Rightarrow> write_varint (sint (num_val fv))
    | TypeBytes \<Rightarrow> write_bytes (bytes_val fv)
    | TypeDecimal \<Rightarrow> write_varint (int64_val fv) @ write_varint (scale fv)
    | _ \<Rightarrow> write_string (str_val fv))"

definition decode_field_value :: "field_value \<Rightarrow> data_type \<Rightarrow> field_value reader" where
  "decode_field_value fv0 dt = (let fv = fv0\<lparr>fv_type := dt\<rparr> in case dt of
      TypeInt64 \<Rightarrow> rd_bind read_varint (\<lambda>v. rd_return (fv\<lparr>num_val := word_of_int v\<rparr>))
    | TypeFloat64 \<Rightarrow> rd_bind (read_full 8) (\<lambda>b. rd_return (fv\<lparr>num_val := get_uint64 b\<rparr>))
    | TypeBool \<Rightarrow> rd_bind (read_full 1) (\<lambda>b. rd_return (fv\<lparr>num_val := (if hd b \<noteq> 0 then 1 else 0)\<rparr>))
    | TypeTimestamp \<Rightarrow> rd_bind read_varint (\<lambda>ns. rd_return (fv\<lparr>num_val := word_of_int ns\<rparr>))
    | TypeBytes \<Rightarrow> rd_bind read_bytes (\<lambda>b. rd_return (fv\<lparr>str_val := b\<rparr>))
    | TypeDecimal \<Rightarrow> rd_bind read_varint (\<lambda>m. rd_bind read_varint (\<lambda>s.
        rd_return (fv\<lparr>num_val := word_of_int m, scale := i32 s\<rparr>)))
    | _ \<Rightarrow> rd_bind read_string (\<lambda>s. rd_return (fv\<lparr>str_val := s\<rparr>)))"

definition write_field_values :: "field_value list \<Rightarrow> byte list" where
  "write_field_values vs =
     concat (map (\<lambda>fv. if is_null fv then [] else data_type_to_byte (fv_type fv) # encode_field_value fv) vs)"

fun read_field_values :: "byte list \<Rightarrow> nat \<Rightarrow> field_value list \<Rightarrow> field_value list reader" where
  "read_field_values nmask i [] = rd_return []"
| "read_field_values nmask i (v # vs) =
     (if test_mask_bit nmask i then
        rd_bind (read_field_values nmask (Suc i) vs) (\<lambda>ws. rd_return (v\<lparr>is_null := True\<rparr> # ws))
      else
        rd_bind (rd_map_error (WrappedAt ''coders: fieldType'' i) (read_full 1)) (\<lambda>t.
        rd_bind (rd_map_error (WrappedAt ''coders: field'' i) (decode_field_value v (byte_to_data_type (hd t)))) (\<lambda>w.
        rd_bind (read_field_values nmask (Suc i) vs) (\<lambda>ws. rd_return (w # ws)))))"

section \<open>Maps\<close>

text \<open>A decoding loop that stores \<open>n\<close> entries in a map.\<close>

fun read_entries :: "nat \<Rightarrow> (string \<times> 'v) reader \<Rightarrow> 'v gomap \<Rightarrow> 'v gomap reader" where
  "read_entries 0 r m = rd_return m"
| "read_entries (Suc n) r m = rd_bind r (\<lambda>(k, v). read_entries n r (gm_set m k v))"

definition write_audit_entry :: "string \<times> string \<Rightarrow> byte list" where
  "write_audit_entry = (\<lambda>(k, v). write_string k @ write_string v)"

definition read_audit_entry :: "(string \<times> string) reader" where
  "read_audit_entry = rd_bind read_string (\<lambda>k. rd_bind read_string (\<lambda>v. rd_return (k, v)))"

definition write_audit_fields :: "string gomap \<Rightarrow> byte list" where
  "write_audit_fields m = write_varint (int (length m)) @ concat (map write_audit_entry m)"

definition read_audit_fields :: "string gomap \<Rightarrow> string gomap reader" where
  "read_audit_fields m =
     rd_bind (rd_map_error (Wrapped ''coders: auditCount'') read_varint) (\<lambda>n. read_entries (nat n) read_audit_entry m)"

text \<open>The maps of the metrics are written in the order of their keys.\<close>

definition sorted_entries :: "'v gomap \<Rightarrow> 'v gomap" where
  "sorted_entries m = map (\<lambda>k. (k, the (map_of m k))) (sort (map fst m))"

definition write_int64_entry :: "string \<times> int \<Rightarrow> byte list" where
  "write_int64_entry = (\<lambda>(k, v). write_string k @ write_varint v)"

definition read_int64_entry :: "(string \<times> int) reader" where
  "read_int64_entry = rd_bind read_string (\<lambda>k. rd_bind read_varint (\<lambda>v. rd_return (k, v)))"

definition write_map_string_int64 :: "int gomap \<Rightarrow> byte list" where
  "write_map_string_int64 m = write_varint (int (length m)) @ concat (map write_int64_entry (sorted_entries m))"

definition read_map_string_int64 :: "int gomap reader" where
  "read_map_string_int64 = rd_bind read_varint (\<lambda>n. read_entries (nat n) read_int64_entry [])"

definition write_origin_entry :: "string \<times> origin_metric \<Rightarrow> byte list" where
  "write_origin_entry = (\<lambda>(k, v). write_string k @ write_varint (om_total_read v) @ write_varint (om_valid v) @
     write_varint (om_dlq v))"

definition read_origin_entry :: "(string \<times> origin_metric) reader" where
  "read_origin_entry = rd_bind read_string (\<lambda>k. rd_bind read_varint (\<lambda>total. rd_bind read_varint (\<lambda>valid.
     rd_bind read_varint (\<lambda>dlq. rd_return (k, \<lparr>om_total_read = total, om_valid = valid, om_dlq = dlq\<rparr>)))))"

definition write_origin_metrics :: "origin_metric gomap \<Rightarrow> byte list" where
  "write_origin_metrics m = write_varint (int (length m)) @ concat (map write_origin_entry (sorted_entries m))"

definition read_origin_metrics :: "origin_metric gomap reader" where
  "read_origin_metrics = rd_bind read_varint (\<lambda>n. read_entries (nat n) read_origin_entry [])"

section \<open>Records (coders.go)\<close>

definition default_max_record_fields :: int where "default_max_record_fields = 10000"

definition encode_generic_record :: "generic_record option \<Rightarrow> byte list" where
  "encode_generic_record rec = (case rec of
      None \<Rightarrow> write_varint (- 1)
    | Some r \<Rightarrow> write_string (schema_id r) @ write_varint (int (length (vals r))) @ write_null_mask (vals r) @
        write_field_values (vals r) @ write_audit_fields (audit_fields r))"

text \<open>What is unread after a reader that failed with \<^verbatim>\<open>ErrNilToken\<close>: it has consumed one varint.\<close>

definition after_varint :: "byte list \<Rightarrow> byte list" where
  "after_varint bs = (case read_varint bs of Inl _ \<Rightarrow> bs | Inr (_, rest) \<Rightarrow> rest)"

definition decode_generic_record :: "generic_record option reader" where
  "decode_generic_record bs =
     (case read_string bs of
        Inl e \<Rightarrow> if is_nil_token e then Inr (None, after_varint bs) else Inl (Wrapped ''coders: schemaID'' e)
      | Inr (sid, bs1) \<Rightarrow>
          rd_bind (rd_map_error (Wrapped ''coders: fieldCount'') read_varint) (\<lambda>n64.
            if n64 = -1 then rd_return None
            else if n64 < 0 \<or> n64 > default_max_record_fields then rd_fail (InvalidFieldCount n64)
            else let n = nat n64 in
              rd_bind (read_null_mask n) (\<lambda>nmask.
              let rec = new_generic_record sid n in
              rd_bind (read_field_values nmask 0 (vals rec)) (\<lambda>vs.
              rd_bind (read_audit_fields (audit_fields rec)) (\<lambda>a.
              rd_return (Some (rec\<lparr>vals := vs, audit_fields := a\<rparr>)))))) bs1)"

definition encode_dead_letter_record :: "dead_letter_record option \<Rightarrow> byte list" where
  "encode_dead_letter_record dlq = (case dlq of
      None \<Rightarrow> write_varint (- 1)
    | Some d \<Rightarrow> concat (map write_string [raw_payload d, error_message d, failed_column d, source_file d]) @
        write_varint (i64 (failed_at d)))"

definition decode_dead_letter_record :: "dead_letter_record option reader" where
  "decode_dead_letter_record bs =
     (case read_string bs of
        Inl e \<Rightarrow> if is_nil_token e then Inr (None, after_varint bs) else Inl e
      | Inr (payload, bs1) \<Rightarrow>
          rd_bind read_string (\<lambda>msg. rd_bind read_string (\<lambda>col. rd_bind read_string (\<lambda>src.
          rd_bind read_varint (\<lambda>ns. rd_return (Some \<lparr>raw_payload = payload, error_message = msg,
            failed_column = col, source_file = src, failed_at = ns\<rparr>))))) bs1)"

section \<open>Metrics (coders.go, metrics_combiner.go)\<close>

definition encode_pipeline_metrics :: "pipeline_metrics \<Rightarrow> byte list" where
  "encode_pipeline_metrics m =
     write_string (pipeline_id m) @ write_string (run_id m) @
     concat (map write_varint [total_records_read m, row_count m, rows_written m, dead_letter_count m,
       bytes_written m, files_written m, api_calls_made m, execution_duration_ms m]) @
     write_string (pm_checksum m) @ write_map_string_int64 (map_entries (column_null_counts m)) @
     write_map_string_int64 (map_entries (invalid_value_counts m)) @
     write_origin_metrics (map_entries (origin_metrics m))"

definition decode_pipeline_metrics :: "pipeline_metrics reader" where
  "decode_pipeline_metrics =
     rd_bind read_string (\<lambda>pid. rd_bind read_string (\<lambda>rid.
     rd_bind (read_many 8 read_varint) (\<lambda>vs.
     rd_bind read_string (\<lambda>checksum. rd_bind read_map_string_int64 (\<lambda>nulls.
     rd_bind read_map_string_int64 (\<lambda>invalids. rd_bind read_origin_metrics (\<lambda>origins.
     rd_return (zero_metrics\<lparr>pipeline_id := pid, run_id := rid, total_records_read := vs ! 0, row_count := vs ! 1,
       rows_written := vs ! 2, dead_letter_count := vs ! 3, bytes_written := vs ! 4, files_written := vs ! 5,
       api_calls_made := vs ! 6, execution_duration_ms := vs ! 7, pm_checksum := checksum,
       column_null_counts := Some nulls, invalid_value_counts := Some invalids, origin_metrics := Some origins,
       custom_metrics := Some []\<rparr>))))))))"

record metric_item =
  mi_origin :: string
  mi_is_dlq :: bool

definition encode_metric_item :: "metric_item \<Rightarrow> byte list" where
  "encode_metric_item v = (if mi_is_dlq v then 1 else 0) # write_string (mi_origin v)"

definition decode_metric_item :: "metric_item reader" where
  "decode_metric_item = rd_bind (read_full 1) (\<lambda>b bs.
     case read_string bs of
       Inl e \<Rightarrow> if is_nil_token e then Inr (\<lparr>mi_origin = [], mi_is_dlq = (hd b = 1)\<rparr>, after_varint bs) else Inl e
     | Inr (origin, rest) \<Rightarrow> Inr (\<lparr>mi_origin = origin, mi_is_dlq = (hd b = 1)\<rparr>, rest))"

section \<open>Beam coder adapters (coders.go)\<close>

text \<open>The value adapters dereference the decoded pointer: on the encoding of nil they panic.\<close>

datatype 'a adapter_result = AdapterPanic | AdapterError coder_error | AdapterOk 'a

definition run_reader :: "'a reader \<Rightarrow> byte list \<Rightarrow> 'a adapter_result" where
  "run_reader r bs = (case r bs of Inl e \<Rightarrow> AdapterError e | Inr (x, _) \<Rightarrow> AdapterOk x)"

definition deref :: "'a option adapter_result \<Rightarrow> 'a adapter_result" where
  "deref r = (case r of AdapterPanic \<Rightarrow> AdapterPanic | AdapterError e \<Rightarrow> AdapterError e
     | AdapterOk None \<Rightarrow> AdapterPanic | AdapterOk (Some x) \<Rightarrow> AdapterOk x)"

definition enc_generic_record :: "generic_record \<Rightarrow> byte list" where
  "enc_generic_record v = encode_generic_record (Some v)"

definition dec_generic_record :: "byte list \<Rightarrow> generic_record adapter_result" where
  "dec_generic_record data = deref (run_reader decode_generic_record data)"

definition enc_generic_record_ptr :: "generic_record option \<Rightarrow> byte list" where
  "enc_generic_record_ptr rec = encode_generic_record rec"

definition dec_generic_record_ptr :: "byte list \<Rightarrow> generic_record option adapter_result" where
  "dec_generic_record_ptr data = run_reader decode_generic_record data"

definition enc_dead_letter_record :: "dead_letter_record \<Rightarrow> byte list" where
  "enc_dead_letter_record v = encode_dead_letter_record (Some v)"

definition dec_dead_letter_record :: "byte list \<Rightarrow> dead_letter_record adapter_result" where
  "dec_dead_letter_record data = deref (run_reader decode_dead_letter_record data)"

definition enc_dead_letter_record_ptr :: "dead_letter_record option \<Rightarrow> byte list" where
  "enc_dead_letter_record_ptr v = encode_dead_letter_record v"

definition dec_dead_letter_record_ptr :: "byte list \<Rightarrow> dead_letter_record option adapter_result" where
  "dec_dead_letter_record_ptr data = run_reader decode_dead_letter_record data"

section \<open>Lemmas\<close>

lemma test_mask_bit_iff: "test_mask_bit bs i \<longleftrightarrow> bit (bs ! (i div 8)) (i mod 8)"
  by (simp only: test_mask_bit_def mask_test_iff)

lemma test_set_mask_bit:
  assumes "i div 8 < length bs" "j div 8 < length bs"
  shows "test_mask_bit (set_mask_bit bs i) j \<longleftrightarrow> i = j \<or> test_mask_bit bs j"
proof -
  have eq: "i = j" if "i div 8 = j div 8" "i mod 8 = j mod 8" using that by (metis div_mult_mod_eq)
  show ?thesis
  proof (cases "i div 8 = j div 8")
    case True
    have "bit (bs ! (j div 8) OR push_bit (i mod 8) 1) (j mod 8) \<longleftrightarrow> bit (bs ! (j div 8)) (j mod 8) \<or> i mod 8 = j mod 8"
      by (rule bit_or_push_one) simp_all
    then show ?thesis
      using True assms eq unfolding test_mask_bit_iff set_mask_bit_def by (simp only: nth_list_update_eq) blast
  next
    case False
    then show ?thesis unfolding test_mask_bit_iff set_mask_bit_def by auto
  qed
qed

lemma length_set_mask_bit [simp]: "length (set_mask_bit bs i) = length bs"
  by (simp add: set_mask_bit_def)

lemma length_null_mask_from [simp]: "length (null_mask_from i vs bs) = length bs"
  by (induction vs arbitrary: i bs) auto

lemma test_null_mask_from:
  assumes "i + length vs \<le> 8 * length bs" "j < 8 * length bs"
  shows "test_mask_bit (null_mask_from i vs bs) j \<longleftrightarrow>
     test_mask_bit bs j \<or> i \<le> j \<and> j < i + length vs \<and> is_null (vs ! (j - i))"
  using assms
proof (induction vs arbitrary: i bs)
  case (Cons v vs)
  have "i div 8 < length bs" "j div 8 < length bs" using Cons.prems by auto
  then have "test_mask_bit (if is_null v then set_mask_bit bs i else bs) j \<longleftrightarrow>
      test_mask_bit bs j \<or> is_null v \<and> i = j" by (auto simp: test_set_mask_bit)
  moreover have "j = i \<or> (vs ! (j - Suc i) = (v # vs) ! (j - i) \<and> j \<noteq> i) \<or> j < i"
    by (auto simp: nth_Cons')
  ultimately show ?case using Cons by (auto simp: le_Suc_eq)
qed auto

lemma test_write_null_mask:
  assumes "j < length vs" shows "test_mask_bit (write_null_mask vs) j \<longleftrightarrow> is_null (vs ! j)"
proof -
  have n: "length vs \<le> 8 * mask_len (length vs)" unfolding mask_len_def by linarith
  have "\<not> test_mask_bit (replicate (mask_len (length vs)) 0) j"
    using assms n by (simp add: test_mask_bit_def less_mult_imp_div_less mult.commute)
  then show ?thesis unfolding write_null_mask_def
    using test_null_mask_from [of 0 vs "replicate (mask_len (length vs)) 0" j] assms n by simp
qed

lemma read_write_null_mask:
  "read_null_mask (length vs) (write_null_mask vs @ rest) = Inr (write_null_mask vs, rest)"
proof -
  have "length (write_null_mask vs) = mask_len (length vs)" by (simp add: write_null_mask_def)
  then show ?thesis by (simp add: read_null_mask_def rd_map_error_def read_full_def)
qed

lemma push_drop_byte: "push_bit 8 (drop_bit (a + 8) w) OR ucast (ucast (drop_bit a w) :: byte) = (drop_bit a w :: u64)"
  by (rule bit_word_eqI) (auto simp: bit_simps not_less add.commute)

lemma get_put_uint64: "get_uint64 (put_uint64 w) = w"
proof -
  have ups: "[0..<8] = [0, 1, 2, 3, 4, 5, 6, 7]" by (simp add: upt_rec)
  have top: "(ucast (ucast (drop_bit 56 w) :: byte) :: u64) = drop_bit 56 w"
    by (rule bit_word_eqI) (auto simp: bit_simps dest: bit_imp_le_length)
  have step: "push_bit 8 (drop_bit b w) OR ucast (ucast (drop_bit a w) :: byte) = drop_bit a w" if "b = a + 8" for a b
    unfolding that by (rule push_drop_byte)
  show ?thesis
    unfolding put_uint64_def get_uint64_def ups
    by (simp add: top step [of 56 48] step [of 48 40] step [of 40 32] step [of 32 24] step [of 24 16] step [of 16 8]
        step [of 8 0, simplified])
qed

text \<open>A value after a trip over the wire: a null loses its type, the other values keep the parts their
  type uses.\<close>

definition wire_view :: "field_value \<Rightarrow> field_value" where
  "wire_view v = (if is_null v then zero_value\<lparr>is_null := True\<rparr> else
     let z = zero_value\<lparr>fv_type := fv_type v\<rparr> in case fv_type v of
      TypeInt64 \<Rightarrow> z\<lparr>num_val := num_val v\<rparr>
    | TypeFloat64 \<Rightarrow> z\<lparr>num_val := num_val v\<rparr>
    | TypeTimestamp \<Rightarrow> z\<lparr>num_val := num_val v\<rparr>
    | TypeBool \<Rightarrow> z\<lparr>num_val := (if num_val v = 1 then 1 else 0)\<rparr>
    | TypeDecimal \<Rightarrow> z\<lparr>num_val := num_val v, scale := scale v\<rparr>
    | TypeOther _ \<Rightarrow> z\<lparr>fv_type := TypeString, str_val := str_val v\<rparr>
    | _ \<Rightarrow> z\<lparr>str_val := str_val v\<rparr>)"

definition wire_value :: "field_value \<Rightarrow> bool" where
  "wire_value v \<longleftrightarrow> wire_string (str_val v) \<and> in_i32 (scale v)"

lemma in_i64_i32: "in_i32 x \<Longrightarrow> in_i64 x"
  by (simp add: in_i32_def in_i64_def)

lemma byte_to_data_type_to_byte:
  "byte_to_data_type (data_type_to_byte t) = (case t of TypeOther _ \<Rightarrow> TypeString | _ \<Rightarrow> t)"
  by (cases t) (simp_all add: byte_to_data_type_def)

lemma read_full_8_put: "read_full 8 (put_uint64 w @ rest) = Inr (put_uint64 w, rest)"
  by (simp add: read_full_def put_uint64_def)

lemma bind_read_byte: "rd_bind (read_full (Suc 0)) f (b # rest) = f [b] rest"
  by (simp add: rd_bind_def read_full_def)

lemma bind_read_uint64: "rd_bind (read_full 8) f (put_uint64 w @ rest) = f (put_uint64 w) rest"
  by (simp add: rd_bind_def read_full_8_put)

lemmas bind_wire = varint.bind_encode bytes.bind_encode string.bind_encode varint.map_error_encode
  bind_read_byte bind_read_uint64

lemma decode_encode_field_value:
  assumes "wire_value v" "\<not> is_null v"
  shows "decode_field_value zero_value (byte_to_data_type (data_type_to_byte (fv_type v))) (encode_field_value v @ rest) =
    Inr (wire_view v, rest)"
  unfolding byte_to_data_type_to_byte using assms
  by (cases "fv_type v")
    (auto simp: decode_field_value_def encode_field_value_def wire_view_def wire_value_def
      int64_val_def bytes_val_def bool_val_def zero_value_def Let_def bind_wire in_i64_i32
      rd_return_def i32_id get_put_uint64)


lemma read_write_field_values:
  assumes "list_all wire_value vs" "\<forall>j < length vs. test_mask_bit bs (i + j) \<longleftrightarrow> is_null (vs ! j)"
  shows "read_field_values bs i (replicate (length vs) zero_value) (write_field_values vs @ rest) =
    Inr (map wire_view vs, rest)"
  using assms
proof (induction vs arbitrary: i)
  case (Cons v vs)
  have "\<forall>j < length vs. test_mask_bit bs (Suc i + j) \<longleftrightarrow> is_null (vs ! j)" using Cons.prems(2) by fastforce
  then have IH: "read_field_values bs (Suc i) (replicate (length vs) zero_value) (write_field_values vs @ rest) =
      Inr (map wire_view vs, rest)" using Cons by simp
  have null: "test_mask_bit bs i \<longleftrightarrow> is_null v" using Cons.prems(2) by force
  show ?case
  proof (cases "is_null v")
    case True
    then show ?thesis using IH null by (simp add: write_field_values_def rd_bind_def rd_return_def wire_view_def)
  next
    case False
    then show ?thesis
      using IH null Cons.prems(1) decode_encode_field_value [of v "write_field_values vs @ rest"]
      by (simp add: write_field_values_def rd_bind_def rd_map_error_def rd_return_def read_full_def)
  qed
qed (simp add: write_field_values_def rd_return_def)

text \<open>Entries with distinct new keys, read into a map one after the other.\<close>

locale entry_codec = codec enc dec ok "\<lambda>e. e" for enc :: "string \<times> 'v \<Rightarrow> byte list" and dec ok
begin

lemma read_entries_encode:
  "list_all ok es \<Longrightarrow> read_entries (length es) dec m (concat (map enc es) @ rest) =
    Inr (foldl (\<lambda>r (k, v). gm_set r k v) m es, rest)"
proof (induction es arbitrary: m)
  case (Cons e es)
  then show ?case by (cases e) (simp add: bind_encode)
qed (simp add: rd_return_def)

lemma read_new_entries:
  "list_all ok es \<Longrightarrow> map_ok es \<Longrightarrow> read_entries (length es) dec [] (concat (map enc es) @ rest) = Inr (es, rest)"
  using foldl_gm_set_append [of "[]" es] by (simp add: read_entries_encode)

end

interpretation string_string: codec_pair write_string read_string wire_string "\<lambda>s. s" write_string read_string wire_string "\<lambda>s. s" ..

interpretation string_int64: codec_pair write_string read_string wire_string "\<lambda>s. s" write_varint read_varint in_i64 "\<lambda>v. v" ..

interpretation audit_entry: entry_codec write_audit_entry read_audit_entry "\<lambda>(k, v). wire_string k \<and> wire_string v"
  by unfold_locales (use string_string.pair.decode_encode in \<open>auto simp: write_audit_entry_def read_audit_entry_def\<close>)

interpretation int64_entry: entry_codec write_int64_entry read_int64_entry "\<lambda>(k, v). wire_string k \<and> in_i64 v"
  by unfold_locales (use string_int64.pair.decode_encode in \<open>auto simp: write_int64_entry_def read_int64_entry_def\<close>)

definition wire_origin :: "string \<times> origin_metric \<Rightarrow> bool" where
  "wire_origin e \<longleftrightarrow> wire_string (fst e) \<and> in_i64 (om_total_read (snd e)) \<and> in_i64 (om_valid (snd e)) \<and> in_i64 (om_dlq (snd e))"

interpretation origin_entry: entry_codec write_origin_entry read_origin_entry wire_origin
  by unfold_locales (auto simp: wire_origin_def write_origin_entry_def read_origin_entry_def bind_wire rd_return_def)

definition wire_audit :: "string gomap \<Rightarrow> bool" where
  "wire_audit m \<longleftrightarrow> map_ok m \<and> length m < 2 ^ 63 \<and> list_all (\<lambda>(k, v). wire_string k \<and> wire_string v) m"

lemma in_i64_nat: "n < 2 ^ 63 \<Longrightarrow> in_i64 (int n)"
  by (simp add: in_i64_def)

interpretation audit: codec write_audit_fields "read_audit_fields []" wire_audit "\<lambda>m. m"
  by unfold_locales
    (simp add: write_audit_fields_def read_audit_fields_def wire_audit_def bind_wire in_i64_nat
      audit_entry.read_new_entries)

definition wire_record :: "generic_record \<Rightarrow> bool" where
  "wire_record r \<longleftrightarrow> wire_string (schema_id r) \<and> length (vals r) \<le> 10000 \<and> list_all wire_value (vals r) \<and>
     wire_audit (audit_fields r)"

lemma decode_encode_nil: "decode_generic_record (encode_generic_record None @ rest) = Inr (None, rest)"
  "decode_dead_letter_record (encode_dead_letter_record None @ rest) = Inr (None, rest)"
proof -
  have "read_varint (write_varint (- 1) @ rest) = Inr (- 1, rest)" by (rule read_write_varint) (simp add: in_i64_def)
  then have "read_string (write_varint (- 1) @ rest) = Inl ErrNilToken" "after_varint (write_varint (- 1) @ rest) = rest"
    by (simp_all add: read_string_def read_bytes_def rd_bind_def rd_fail_def after_varint_def)
  then show "decode_generic_record (encode_generic_record None @ rest) = Inr (None, rest)"
    "decode_dead_letter_record (encode_dead_letter_record None @ rest) = Inr (None, rest)"
    by (simp_all add: decode_generic_record_def decode_dead_letter_record_def encode_generic_record_def
        encode_dead_letter_record_def)
qed

definition record_view :: "generic_record \<Rightarrow> generic_record" where
  "record_view r = r\<lparr>vals := map wire_view (vals r)\<rparr>"

lemma decode_encode_record:
  assumes "wire_record r"
  shows "decode_generic_record (encode_generic_record (Some r) @ rest) = Inr (Some (record_view r), rest)"
proof -
  let ?n = "length (vals r)"
  have n: "in_i64 (int ?n)" "int ?n \<le> default_max_record_fields"
    using assms by (auto simp: wire_record_def default_max_record_fields_def intro: in_i64I)
  have vs: "read_field_values (write_null_mask (vals r)) 0 (replicate ?n zero_value)
      (write_field_values (vals r) @ tail) = Inr (map wire_view (vals r), tail)" for tail
    using assms by (intro read_write_field_values) (simp_all add: wire_record_def test_write_null_mask)
  have mk: "rd_bind (read_null_mask ?n) f (write_null_mask (vals r) @ tail) = f (write_null_mask (vals r)) tail" for f tail
    by (simp add: rd_bind_def read_write_null_mask)
  show ?thesis
    using assms n
    by (simp add: decode_generic_record_def encode_generic_record_def string.decode_encode wire_record_def bind_wire
        mk new_generic_record_def rd_bind_def [of "read_field_values _ _ _"] vs audit.bind_encode rd_return_def record_view_def Let_def)
qed

interpretation grec: codec encode_generic_record decode_generic_record
  "\<lambda>r. case r of None \<Rightarrow> True | Some r \<Rightarrow> wire_record r" "map_option record_view"
  by unfold_locales
    (auto split: option.splits simp: decode_encode_record decode_encode_nil)


definition wire_dead_letter :: "dead_letter_record \<Rightarrow> bool" where
  "wire_dead_letter d \<longleftrightarrow> list_all wire_string [raw_payload d, error_message d, failed_column d, source_file d] \<and>
     in_i64 (failed_at d)"

interpretation dead_letter: codec encode_dead_letter_record decode_dead_letter_record
  "\<lambda>d. case d of None \<Rightarrow> True | Some d \<Rightarrow> wire_dead_letter d" "\<lambda>d. d"
proof
  fix d rest assume "case d of None \<Rightarrow> True | Some d \<Rightarrow> wire_dead_letter d"
  then show "decode_dead_letter_record (encode_dead_letter_record d @ rest) = Inr (d, rest)"
  proof (cases d)
    case (Some e)
    then show ?thesis using \<open>case d of None \<Rightarrow> True | Some d \<Rightarrow> wire_dead_letter d\<close>
      by (auto simp: decode_dead_letter_record_def encode_dead_letter_record_def wire_dead_letter_def
        string.decode_encode bind_wire i64_id rd_return_def)
  qed (simp add: decode_encode_nil)
qed

interpretation metric_item: codec encode_metric_item decode_metric_item "\<lambda>v. wire_string (mi_origin v)" "\<lambda>v. v"
  by unfold_locales
    (auto simp: encode_metric_item_def decode_metric_item_def bind_wire string.decode_encode)

lemma sorted_entries_props:
  assumes "map_ok m"
  shows "map_ok (sorted_entries m)" "length (sorted_entries m) = length m" "set (sorted_entries m) = set m"
    "map_of (sorted_entries m) = map_of m"
proof -
  have keys: "map fst (sorted_entries m) = sort (map fst m)" by (simp add: sorted_entries_def o_def)
  show ok: "map_ok (sorted_entries m)" using assms unfolding map_ok_def keys by simp
  show "length (sorted_entries m) = length m" by (simp add: sorted_entries_def)
  have "(k, v) \<in> set (sorted_entries m) \<longleftrightarrow> (k, v) \<in> set m" for k v
    using assms by (force simp: sorted_entries_def map_ok_def image_iff)
  then show eq: "set (sorted_entries m) = set m" by auto
  show "map_of (sorted_entries m) = map_of m"
    using assms ok eq unfolding map_ok_def by (simp add: map_of_inject_set)
qed

definition wire_map :: "('v \<Rightarrow> bool) \<Rightarrow> 'v gomap \<Rightarrow> bool" where
  "wire_map okv m \<longleftrightarrow> map_ok m \<and> length m < 2 ^ 63 \<and> list_all (\<lambda>(k, v). wire_string k \<and> okv v) m"

definition wire_origin_metric :: "origin_metric \<Rightarrow> bool" where
  "wire_origin_metric om \<longleftrightarrow> in_i64 (om_total_read om) \<and> in_i64 (om_valid om) \<and> in_i64 (om_dlq om)"

interpretation int64_map: codec write_map_string_int64 read_map_string_int64 "wire_map in_i64" sorted_entries
proof
  fix m rest assume m: "wire_map in_i64 m"
  note s = sorted_entries_props [of m]
  have "list_all (\<lambda>(k, v). wire_string k \<and> in_i64 v) (sorted_entries m)"
    using m s by (simp add: wire_map_def list_all_iff)
  then show "read_map_string_int64 (write_map_string_int64 m @ rest) = Inr (sorted_entries m, rest)"
    using m s int64_entry.read_new_entries [of "sorted_entries m" rest]
    by (simp add: wire_map_def read_map_string_int64_def write_map_string_int64_def bind_wire in_i64_nat)
qed

interpretation origin_map: codec write_origin_metrics read_origin_metrics "wire_map wire_origin_metric" sorted_entries
proof
  fix m rest assume m: "wire_map wire_origin_metric m"
  note s = sorted_entries_props [of m]
  have "list_all wire_origin (sorted_entries m)"
    using m s by (auto simp: wire_map_def list_all_iff wire_origin_def wire_origin_metric_def)
  then show "read_origin_metrics (write_origin_metrics m @ rest) = Inr (sorted_entries m, rest)"
    using m s origin_entry.read_new_entries [of "sorted_entries m" rest]
    by (simp add: wire_map_def read_origin_metrics_def write_origin_metrics_def bind_wire in_i64_nat)
qed

definition wire_metrics :: "pipeline_metrics \<Rightarrow> bool" where
  "wire_metrics m \<longleftrightarrow> list_all wire_string [pipeline_id m, run_id m, pm_checksum m] \<and>
     list_all in_i64 [total_records_read m, row_count m, rows_written m, dead_letter_count m,
       bytes_written m, files_written m, api_calls_made m, execution_duration_ms m] \<and>
     wire_map in_i64 (map_entries (column_null_counts m)) \<and> wire_map in_i64 (map_entries (invalid_value_counts m)) \<and>
     wire_map wire_origin_metric (map_entries (origin_metrics m))"

text \<open>The metrics after a trip over the wire: the rates, the watermark and the custom metrics are dropped,
  the maps keep their entries.\<close>

definition metrics_view :: "pipeline_metrics \<Rightarrow> pipeline_metrics" where
  "metrics_view m = m\<lparr>records_per_second := 0, throughput_mb_per_second := 0, pm_watermark := None,
     origin_metrics := Some (sorted_entries (map_entries (origin_metrics m))),
     column_null_counts := Some (sorted_entries (map_entries (column_null_counts m))),
     invalid_value_counts := Some (sorted_entries (map_entries (invalid_value_counts m))),
     custom_metrics := Some []\<rparr>"

interpretation metrics: codec encode_pipeline_metrics decode_pipeline_metrics wire_metrics metrics_view
proof
  fix m rest assume m: "wire_metrics m"
  let ?vs = "[total_records_read m, row_count m, rows_written m, dead_letter_count m,
       bytes_written m, files_written m, api_calls_made m, execution_duration_ms m]"
  have "read_many 8 read_varint (concat (map write_varint ?vs) @ tail) = Inr (?vs, tail)" for tail
    using varint.read_many_encode [of ?vs tail] m unfolding wire_metrics_def by (simp add: numeral_eq_Suc)
  then have vs: "rd_bind (read_many 8 read_varint) f (concat (map write_varint ?vs) @ tail) = f ?vs tail" for f tail
    by (simp only: rd_bind_def sum.case prod.case)
  have ok: "wire_string (pipeline_id m)" "wire_string (run_id m)" "wire_string (pm_checksum m)"
    "wire_map in_i64 (map_entries (column_null_counts m))" "wire_map in_i64 (map_entries (invalid_value_counts m))"
    "wire_map wire_origin_metric (map_entries (origin_metrics m))" using m by (simp_all add: wire_metrics_def)
  show "decode_pipeline_metrics (encode_pipeline_metrics m @ rest) = Inr (metrics_view m, rest)"
    unfolding encode_pipeline_metrics_def decode_pipeline_metrics_def append_assoc
    by (simp only: ok string.bind_encode vs int64_map.bind_encode origin_map.bind_encode)
      (simp add: rd_return_def metrics_view_def zero_metrics_def numeral_eq_Suc)
qed


section \<open>Properties\<close>

text \<open>C3. Decoding an encoded record gives the record back, whatever bytes follow it: the schema id, the
  number of values and the audit fields are kept, every value that is not null keeps its content, and a
  second trip changes nothing. A nil pointer comes back as nil.\<close>

theorem generic_record_roundtrip:
  assumes "case r of None \<Rightarrow> True | Some r \<Rightarrow> wire_record r"
  shows "decode_generic_record (encode_generic_record r @ rest) = Inr (map_option record_view r, rest) \<and>
    map_option record_view (map_option record_view r) = map_option record_view r"
proof -
  have "wire_view (wire_view v) = wire_view v" for v
    by (cases "fv_type v") (auto simp: wire_view_def zero_value_def)
  then have "map_option record_view (map_option record_view r) = map_option record_view r"
    by (cases r) (simp_all add: record_view_def o_def)
  then show ?thesis using grec.decode_encode [OF assms] by simp
qed

definition wire_example :: generic_record where
  "wire_example = \<lparr>schema_id = ''s'', vals = [zero_value\<lparr>fv_type := TypeInt64, num_val := - 3\<rparr>,
     zero_value\<lparr>fv_type := TypeBool, is_null := True\<rparr>, zero_value\<lparr>fv_type := TypeDecimal, num_val := 125, scale := 2\<rparr>],
     audit_fields = [(''_source_file'', ''a.csv'')]\<rparr>"

lemma wire_example_ok: "wire_record wire_example"
  by (simp add: wire_record_def wire_example_def wire_value_def wire_string_def wire_audit_def map_ok_def zero_value_def
      default_chunk_size_bytes_def in_i32_def)

theorem generic_record_roundtrip_witness:
  "decode_generic_record (encode_generic_record (Some wire_example)) =
     Inr (Some (wire_example\<lparr>vals := (vals wire_example)[1 := zero_value\<lparr>is_null := True\<rparr>]\<rparr>), [])"
  using generic_record_roundtrip [of "Some wire_example" "[]"] wire_example_ok
  by (simp add: record_view_def wire_example_def wire_view_def zero_value_def)

text \<open>Decoding an encoded dead letter gives exactly the dead letter back, nil included, for texts of at
  most 64 MiB and a time that fits 64 bits of nanoseconds, whatever bytes follow.\<close>

lemma dead_letter_roundtrip:
  assumes "case d of None \<Rightarrow> True | Some d \<Rightarrow> wire_dead_letter d"
  shows "decode_dead_letter_record (encode_dead_letter_record d @ rest) = Inr (d, rest)"
  using assms by (rule dead_letter.decode_encode)

text \<open>Decoding encoded metrics gives the identifiers, the eight counters, the checksum and the entries of
  the three counting maps back; the two rates, the watermark and the custom metrics are not on the wire and
  come back empty. This is the form in which the accumulators of the summary combiner travel.\<close>

lemma pipeline_metrics_roundtrip:
  assumes "wire_metrics m"
  shows "decode_pipeline_metrics (encode_pipeline_metrics m @ rest) = Inr (metrics_view m, rest) \<and>
    map_of (map_entries (origin_metrics (metrics_view m))) = map_of (map_entries (origin_metrics m)) \<and>
    map_of (map_entries (column_null_counts (metrics_view m))) = map_of (map_entries (column_null_counts m)) \<and>
    map_of (map_entries (invalid_value_counts (metrics_view m))) = map_of (map_entries (invalid_value_counts m))"
  using metrics.decode_encode [OF assms] assms
  by (auto simp: metrics_view_def wire_metrics_def wire_map_def sorted_entries_props(4))

text \<open>The encoders accept what the decoders refuse: a text of more than 64 MiB and a record of more than
  10000 values (within the range of \<^verbatim>\<open>int64\<close> lengths) are written, and reading them back is an error.\<close>

lemma encoder_exceeds_decoder:
  "(default_chunk_size_bytes < length s \<and> length s < 2 ^ 63 \<longrightarrow>
      read_string (write_string s @ rest) = Inl (InvalidByteLength (int (length s)))) \<and>
   (wire_string (schema_id r) \<and> 10000 < length (vals r) \<and> length (vals r) < 2 ^ 63 \<longrightarrow>
      decode_generic_record (encode_generic_record (Some r)) = Inl (InvalidFieldCount (int (length (vals r)))))"
proof (intro conjI impI; elim conjE)
  assume s: "default_chunk_size_bytes < length s" "length s < 2 ^ 63"
  have i: "in_i64 (int (length s))" using s(2) by (rule in_i64_nat)
  have "read_bytes (write_bytes s @ rest) = Inl (InvalidByteLength (int (length s)))"
    unfolding read_bytes_def write_bytes_def append_assoc varint.bind_encode [OF i] using s(1) by (simp add: rd_fail_def)
  then show "read_string (write_string s @ rest) = Inl (InvalidByteLength (int (length s)))"
    by (simp add: read_string_def write_string_def rd_bind_def)
next
  assume r: "wire_string (schema_id r)" "10000 < length (vals r)" "length (vals r) < 2 ^ 63"
  have "in_i64 (int (length (vals r)))" using r(3) by (rule in_i64_nat)
  with r(1,2) show "decode_generic_record (encode_generic_record (Some r)) = Inl (InvalidFieldCount (int (length (vals r))))"
    by (simp add: decode_generic_record_def encode_generic_record_def string.decode_encode bind_wire rd_fail_def
        default_max_record_fields_def)
qed

end
