(* ===== verification/Record_Batch.thy ===== *)
theory Record_Batch
  imports Records
begin

text \<open>
  The columnar batch of \<^verbatim>\<open>internal/domain/record_batch.go\<close>: a structure of arrays with null bitmaps and a
  validity mask. The abstract view of a batch is the list of its rows with their validity; the operations
  are shown to implement appending, invalidating, resetting and iterating on that list.
\<close>

unbundle bit_operations_syntax

section \<open>State\<close>

definition is_numeric_data_type :: "data_type \<Rightarrow> bool" where
  "is_numeric_data_type t \<longleftrightarrow> t \<in> {TypeInt64, TypeFloat64, TypeBool, TypeTimestamp, TypeDecimal}"

record record_batch =
  rb_schema :: schema
  capacity :: nat
  rb_row_count :: nat
  num_cols :: "u64 list list"
  str_cols :: "string list list"
  scale_cols :: "int list list"
  null_bitmaps :: "u64 list list"
  valid_mask :: "u64 list"
  audit_values :: "string gomap option list"

definition num_words :: "nat \<Rightarrow> nat" where "num_words n = (n + 63) div 64"

definition set_word_bit :: "u64 list \<Rightarrow> nat \<Rightarrow> u64 list" where
  "set_word_bit ws i = ws[i div 64 := ws ! (i div 64) OR push_bit (i mod 64) 1]"

definition clear_word_bit :: "u64 list \<Rightarrow> nat \<Rightarrow> u64 list" where
  "clear_word_bit ws i = ws[i div 64 := ws ! (i div 64) AND NOT (push_bit (i mod 64) 1)]"

definition test_word_bit :: "u64 list \<Rightarrow> nat \<Rightarrow> bool" where
  "test_word_bit ws i \<longleftrightarrow> ws ! (i div 64) AND push_bit (i mod 64) 1 \<noteq> 0"

section \<open>Operations\<close>

definition batch_capacity :: "int \<Rightarrow> nat" where
  "batch_capacity c0 = (let c = (if c0 = 0 then 5000 else c0) in nat (if c < 64 then 64 else c))"

definition new_record_batch :: "schema \<Rightarrow> int \<Rightarrow> record_batch" where
  "new_record_batch s c0 = (let cap = batch_capacity c0; w = num_words cap; n = length (sch_fields s) in
     \<lparr>rb_schema = s, capacity = cap, rb_row_count = 0, num_cols = replicate n [], str_cols = replicate n [],
      scale_cols = replicate n [], null_bitmaps = replicate n (replicate w 0), valid_mask = replicate w (- 1),
      audit_values = []\<rparr>)"

definition push_cell :: "'a list list \<Rightarrow> nat \<Rightarrow> 'a \<Rightarrow> 'a list list" where
  "push_cell cols i x = cols[i := cols ! i @ [x]]"

text \<open>The value a row stores in column \<open>i\<close>; \<^term>\<open>None\<close> is a null.\<close>

definition source_cell :: "generic_record option \<Rightarrow> nat \<Rightarrow> field_value option" where
  "source_cell rec i = (case rec of None \<Rightarrow> None
     | Some r \<Rightarrow> if i < length (vals r) \<and> \<not> is_null (vals r ! i) then Some (vals r ! i) else None)"

definition append_field :: "nat \<Rightarrow> generic_record option \<Rightarrow> nat \<Rightarrow> field \<Rightarrow> record_batch \<Rightarrow> record_batch" where
  "append_field idx rec i f b =
     (let val = source_cell rec i;
          b1 = (case val of None \<Rightarrow> b\<lparr>null_bitmaps := (null_bitmaps b)[i := set_word_bit (null_bitmaps b ! i) idx]\<rparr>
                | Some _ \<Rightarrow> b);
          num = (case val of None \<Rightarrow> 0 | Some v \<Rightarrow> num_val v);
          sc = (case val of None \<Rightarrow> 0 | Some v \<Rightarrow> scale v);
          str = (case val of None \<Rightarrow> [] | Some v \<Rightarrow> str_val v) in
      if is_numeric_data_type (field_type f) then
        let b2 = b1\<lparr>num_cols := push_cell (num_cols b1) i num\<rparr> in
        if field_type f = TypeDecimal then b2\<lparr>scale_cols := push_cell (scale_cols b2) i sc\<rparr> else b2
      else b1\<lparr>str_cols := push_cell (str_cols b1) i str\<rparr>)"

fun append_fields :: "nat \<Rightarrow> generic_record option \<Rightarrow> nat \<Rightarrow> field list \<Rightarrow> record_batch \<Rightarrow> record_batch" where
  "append_fields idx rec i [] b = b"
| "append_fields idx rec i (f # fs) b = append_fields idx rec (Suc i) fs (append_field idx rec i f b)"

datatype batch_error = CapacityExceeded nat

definition append_row :: "generic_record option \<Rightarrow> record_batch \<Rightarrow> batch_error + record_batch" where
  "append_row rec b =
     (if rb_row_count b \<ge> capacity b then Inl (CapacityExceeded (capacity b))
      else let b1 = append_fields (rb_row_count b) rec 0 (sch_fields (rb_schema b)) b in
        Inr (b1\<lparr>audit_values := audit_values b1 @ [map_option audit_fields rec], rb_row_count := rb_row_count b1 + 1\<rparr>))"

definition set_row_valid :: "int \<Rightarrow> bool \<Rightarrow> record_batch \<Rightarrow> record_batch" where
  "set_row_valid idx valid b =
     (if idx < 0 \<or> idx \<ge> int (rb_row_count b) then b
      else if valid then b\<lparr>valid_mask := set_word_bit (valid_mask b) (nat idx)\<rparr>
      else b\<lparr>valid_mask := clear_word_bit (valid_mask b) (nat idx)\<rparr>)"

definition is_row_valid :: "record_batch \<Rightarrow> int \<Rightarrow> bool" where
  "is_row_valid b idx \<longleftrightarrow> \<not> (idx < 0 \<or> idx \<ge> int (rb_row_count b)) \<and> test_word_bit (valid_mask b) (nat idx)"

definition valid_row_count :: "record_batch \<Rightarrow> nat" where
  "valid_row_count b = length (filter (\<lambda>i. is_row_valid b (int i)) [0..<rb_row_count b])"

fun reset_fields :: "nat \<Rightarrow> nat \<Rightarrow> field list \<Rightarrow> record_batch \<Rightarrow> record_batch" where
  "reset_fields w i [] b = b"
| "reset_fields w i (f # fs) b = reset_fields w (Suc i) fs
     (let b1 = b\<lparr>null_bitmaps := (null_bitmaps b)[i := replicate w 0 @ drop w (null_bitmaps b ! i)]\<rparr> in
      if is_numeric_data_type (field_type f) then
        let b2 = b1\<lparr>num_cols := (num_cols b1)[i := []]\<rparr> in
        if field_type f = TypeDecimal then b2\<lparr>scale_cols := (scale_cols b2)[i := []]\<rparr> else b2
      else b1\<lparr>str_cols := (str_cols b1)[i := []]\<rparr>)"

definition batch_reset :: "record_batch \<Rightarrow> record_batch" where
  "batch_reset b = (let w = num_words (capacity b);
       b1 = b\<lparr>rb_row_count := 0, valid_mask := replicate w (- 1) @ drop w (valid_mask b)\<rparr>
     in (reset_fields w 0 (sch_fields (rb_schema b)) b1)\<lparr>audit_values := []\<rparr>)"

text \<open>\<^verbatim>\<open>RecordBatchPool\<close> over \<^verbatim>\<open>sync.Pool\<close>, which returns any of the batches put back (\<open>pick\<close> tells which) or makes a new one.\<close>

record record_batch_pool =
  bp_schema :: schema
  bp_capacity :: int
  bp_idle :: "record_batch list"

definition new_record_batch_pool :: "schema \<Rightarrow> int \<Rightarrow> record_batch_pool" where
  "new_record_batch_pool s c = \<lparr>bp_schema = s, bp_capacity = c, bp_idle = []\<rparr>"

definition batch_pool_get :: "nat \<Rightarrow> record_batch_pool \<Rightarrow> record_batch \<times> record_batch_pool" where
  "batch_pool_get pick p =
     (if pick < length (bp_idle p)
      then (batch_reset (bp_idle p ! pick), p\<lparr>bp_idle := take pick (bp_idle p) @ drop (Suc pick) (bp_idle p)\<rparr>)
      else (batch_reset (new_record_batch (bp_schema p) (bp_capacity p)), p))"

definition batch_pool_put :: "record_batch option \<Rightarrow> record_batch_pool \<Rightarrow> record_batch_pool" where
  "batch_pool_put b p = (case b of None \<Rightarrow> p | Some x \<Rightarrow> p\<lparr>bp_idle := bp_idle p @ [x]\<rparr>)"

section \<open>Iterator\<close>

text \<open>\<^verbatim>\<open>Next\<close>: the index of the next valid row after \<open>curr\<close>, or \<^verbatim>\<open>rowCount\<close>.\<close>

function next_valid :: "record_batch \<Rightarrow> nat \<Rightarrow> nat" where
  "next_valid b i = (if i < rb_row_count b \<and> \<not> is_row_valid b (int i) then next_valid b (Suc i) else i)"
  by auto
termination by (relation "measure (\<lambda>(b, i). rb_row_count b - i)") auto

declare next_valid.simps [simp del]

definition read_cell :: "record_batch \<Rightarrow> nat \<Rightarrow> nat \<Rightarrow> field \<Rightarrow> field_value" where
  "read_cell b idx i f =
     (if test_word_bit (null_bitmaps b ! i) idx
      then \<lparr>fv_type = field_type f, is_null = True, scale = 0, num_val = 0, str_val = []\<rparr>
      else if is_numeric_data_type (field_type f)
      then \<lparr>fv_type = field_type f, is_null = False,
            scale = (if field_type f = TypeDecimal then scale_cols b ! i ! idx else 0),
            num_val = num_cols b ! i ! idx, str_val = []\<rparr>
      else \<lparr>fv_type = field_type f, is_null = False, scale = 0, num_val = 0, str_val = str_cols b ! i ! idx\<rparr>)"

fun read_cells :: "record_batch \<Rightarrow> nat \<Rightarrow> nat \<Rightarrow> field list \<Rightarrow> field_value list" where
  "read_cells b idx i [] = []"
| "read_cells b idx i (f # fs) = read_cell b idx i f # read_cells b idx (Suc i) fs"

definition iterator_record :: "record_batch \<Rightarrow> nat \<Rightarrow> field_value list \<times> string gomap option" where
  "iterator_record b idx = (read_cells b idx 0 (sch_fields (rb_schema b)),
     if idx < length (audit_values b) then audit_values b ! idx else None)"

text \<open>The loop \<^verbatim>\<open>for it.Next() { it.Record() }\<close> from row \<open>i\<close>.\<close>

function iterate_from :: "record_batch \<Rightarrow> nat \<Rightarrow> (field_value list \<times> string gomap option) list" where
  "iterate_from b i = (let j = next_valid b i in
     if j < rb_row_count b \<and> i \<le> j then iterator_record b j # iterate_from b (Suc j) else [])"
  by auto
termination by (relation "measure (\<lambda>(b, i). rb_row_count b - i)") (auto simp: Let_def)

declare iterate_from.simps [simp del]

definition iterate_batch :: "record_batch \<Rightarrow> (field_value list \<times> string gomap option) list" where
  "iterate_batch b = iterate_from b 0"

section \<open>Word bitmaps\<close>

lemma test_word_bit_iff: "test_word_bit ws i \<longleftrightarrow> bit (ws ! (i div 64)) (i mod 64)"
  by (simp only: test_word_bit_def mask_test_iff)

lemma same_word_bit: "(i :: nat) div 64 = j div 64 \<Longrightarrow> i mod 64 = j mod 64 \<Longrightarrow> i = j"
  by (metis div_mult_mod_eq)

lemma test_set_word_bit:
  assumes "i < 64 * length ws" "j < 64 * length ws"
  shows "test_word_bit (set_word_bit ws i) j \<longleftrightarrow> i = j \<or> test_word_bit ws j"
proof (cases "i div 64 = j div 64")
  case True
  have "bit (ws ! (j div 64) OR push_bit (i mod 64) 1) (j mod 64) \<longleftrightarrow> bit (ws ! (j div 64)) (j mod 64) \<or> i mod 64 = j mod 64"
    by (rule bit_or_push_one) simp_all
  moreover have "i mod 64 = j mod 64 \<longleftrightarrow> i = j" using True same_word_bit by blast
  moreover have "set_word_bit ws i ! (j div 64) = ws ! (j div 64) OR push_bit (i mod 64) 1"
    unfolding set_word_bit_def True using assms by (subst nth_list_update_eq) auto
  ultimately show ?thesis unfolding test_word_bit_iff by (simp only: disj_commute)
qed (auto simp: test_word_bit_iff set_word_bit_def)

lemma test_clear_word_bit:
  assumes "i < 64 * length ws" "j < 64 * length ws"
  shows "test_word_bit (clear_word_bit ws i) j \<longleftrightarrow> i \<noteq> j \<and> test_word_bit ws j"
proof (cases "i div 64 = j div 64")
  case True
  have "bit (ws ! (j div 64) AND NOT (push_bit (i mod 64) 1)) (j mod 64) \<longleftrightarrow>
      bit (ws ! (j div 64)) (j mod 64) \<and> i mod 64 \<noteq> j mod 64"
    by (rule bit_andnot_push_one) simp_all
  moreover have "i mod 64 = j mod 64 \<longleftrightarrow> i = j" using True same_word_bit by blast
  moreover have "clear_word_bit ws i ! (j div 64) = ws ! (j div 64) AND NOT (push_bit (i mod 64) 1)"
    unfolding clear_word_bit_def True using assms by (subst nth_list_update_eq) auto
  ultimately show ?thesis unfolding test_word_bit_iff by (simp only: conj_commute)
qed (auto simp: test_word_bit_iff clear_word_bit_def)

lemma length_set_word_bit [simp]: "length (set_word_bit ws i) = length ws" "length (clear_word_bit ws i) = length ws"
  by (simp_all add: set_word_bit_def clear_word_bit_def)

lemma test_replicate_word:
  assumes "k < 64 * w"
  shows "\<not> test_word_bit (replicate w 0) k" "test_word_bit (replicate w (- 1)) k"
proof -
  have "k div 64 < w" using assms by auto
  then show "\<not> test_word_bit (replicate w 0) k" "test_word_bit (replicate w (- 1)) k"
    by (simp_all add: test_word_bit_iff)
qed

lemma num_words_enough: "n \<le> 64 * num_words n"
  unfolding num_words_def by linarith

section \<open>Columns\<close>

type_synonym column = "u64 list \<times> string list \<times> int list \<times> u64 list"

definition col :: "record_batch \<Rightarrow> nat \<Rightarrow> column" where
  "col b j = (num_cols b ! j, str_cols b ! j, scale_cols b ! j, null_bitmaps b ! j)"

definition cell_num :: "field_value option \<Rightarrow> u64" where "cell_num v = (case v of None \<Rightarrow> 0 | Some v \<Rightarrow> num_val v)"
definition cell_scale :: "field_value option \<Rightarrow> int" where "cell_scale v = (case v of None \<Rightarrow> 0 | Some v \<Rightarrow> scale v)"
definition cell_str :: "field_value option \<Rightarrow> string" where "cell_str v = (case v of None \<Rightarrow> [] | Some v \<Rightarrow> str_val v)"

definition push_col :: "nat \<Rightarrow> field_value option \<Rightarrow> field \<Rightarrow> column \<Rightarrow> column" where
  "push_col idx v f c = (case c of (n, s, sc, nb) \<Rightarrow>
     (if is_numeric_data_type (field_type f) then n @ [cell_num v] else n,
      if is_numeric_data_type (field_type f) then s else s @ [cell_str v],
      if field_type f = TypeDecimal then sc @ [cell_scale v] else sc,
      if v = None then set_word_bit nb idx else nb))"

definition outer_ok :: "record_batch \<Rightarrow> bool" where
  "outer_ok b \<longleftrightarrow> (let n = length (sch_fields (rb_schema b)) in
     length (num_cols b) = n \<and> length (str_cols b) = n \<and> length (scale_cols b) = n \<and> length (null_bitmaps b) = n)"

definition frame :: "record_batch \<Rightarrow> record_batch \<Rightarrow> bool" where
  "frame b b' \<longleftrightarrow> rb_schema b' = rb_schema b \<and> capacity b' = capacity b \<and> rb_row_count b' = rb_row_count b \<and>
     valid_mask b' = valid_mask b \<and> audit_values b' = audit_values b \<and> outer_ok b'"

lemma append_field_effect:
  assumes "outer_ok b" "i < length (sch_fields (rb_schema b))"
  shows "frame b (append_field idx rec i f b)"
    "col (append_field idx rec i f b) j = (if j = i then push_col idx (source_cell rec i) f (col b i) else col b j)"
  using assms
  by (auto simp: append_field_def frame_def outer_ok_def col_def push_col_def push_cell_def cell_num_def cell_scale_def
      cell_str_def is_numeric_data_type_def Let_def split: option.splits)

lemma append_fields_effect:
  assumes "outer_ok b" "i + length fs \<le> length (sch_fields (rb_schema b))"
  shows "frame b (append_fields idx rec i fs b) \<and>
    col (append_fields idx rec i fs b) j =
      (if i \<le> j \<and> j < i + length fs then push_col idx (source_cell rec j) (fs ! (j - i)) (col b j) else col b j)"
  using assms
proof (induction fs arbitrary: i b)
  case Nil
  then show ?case by (auto simp: frame_def)
next
  case (Cons f fs)
  let ?b = "append_field idx rec i f b"
  note e = append_field_effect [OF Cons.prems(1), of i idx rec f]
  have f1: "frame b ?b" using e(1) Cons.prems(2) by simp
  then have IH: "frame ?b (append_fields idx rec (Suc i) fs ?b) \<and>
      col (append_fields idx rec (Suc i) fs ?b) j =
      (if Suc i \<le> j \<and> j < Suc i + length fs then push_col idx (source_cell rec j) (fs ! (j - Suc i)) (col ?b j) else col ?b j)"
    using Cons.prems(2) by (intro Cons.IH) (auto simp: frame_def)
  have "frame b (append_fields idx rec i (f # fs) b)" using f1 IH by (auto simp: frame_def)
  moreover have "(f # fs) ! (j - i) = (if j = i then f else fs ! (j - Suc i))" if "i \<le> j"
    using that by (auto simp: nth_Cons')
  ultimately show ?case using IH e(2) [of j] Cons.prems(2) by (auto simp: not_less_eq_eq)
qed

section \<open>The rows a batch represents\<close>

type_synonym batch_rows = "(generic_record option \<times> bool) list"

definition column_ok :: "nat \<Rightarrow> batch_rows \<Rightarrow> nat \<Rightarrow> field \<Rightarrow> column \<Rightarrow> bool" where
  "column_ok w rows i f c = (case c of (n, s, sc, nb) \<Rightarrow>
     n = (if is_numeric_data_type (field_type f) then map (\<lambda>r. cell_num (source_cell (fst r) i)) rows else []) \<and>
     s = (if is_numeric_data_type (field_type f) then [] else map (\<lambda>r. cell_str (source_cell (fst r) i)) rows) \<and>
     sc = (if field_type f = TypeDecimal then map (\<lambda>r. cell_scale (source_cell (fst r) i)) rows else []) \<and>
     length nb = w \<and>
     (\<forall>k < 64 * w. test_word_bit nb k \<longleftrightarrow> k < length rows \<and> source_cell (fst (rows ! k)) i = None))"

definition mask_ok :: "nat \<Rightarrow> batch_rows \<Rightarrow> u64 list \<Rightarrow> bool" where
  "mask_ok w rows ms \<longleftrightarrow> length ms = w \<and> (\<forall>k < 64 * w. test_word_bit ms k \<longleftrightarrow> (k < length rows \<longrightarrow> snd (rows ! k)))"

definition represents :: "record_batch \<Rightarrow> batch_rows \<Rightarrow> bool" where
  "represents b rows \<longleftrightarrow> rb_row_count b = length rows \<and> length rows \<le> capacity b \<and> outer_ok b \<and>
     (\<forall>i < length (sch_fields (rb_schema b)).
        column_ok (num_words (capacity b)) rows i (sch_fields (rb_schema b) ! i) (col b i)) \<and>
     mask_ok (num_words (capacity b)) rows (valid_mask b) \<and>
     audit_values b = map (\<lambda>r. map_option audit_fields (fst r)) rows"

lemma column_ok_push:
  assumes "column_ok w rows i f c" "length rows < 64 * w"
  shows "column_ok w (rows @ [(rec, v)]) i f (push_col (length rows) (source_cell rec i) f c)"
  using assms
  by (cases c) (auto simp: column_ok_def push_col_def test_set_word_bit nth_append less_Suc_eq)

lemma new_represents: "represents (new_record_batch s c) []"
  by (auto simp: represents_def new_record_batch_def outer_ok_def column_ok_def mask_ok_def col_def Let_def
      test_replicate_word)

lemma append_represents:
  assumes "represents b rows"
  shows "append_row rec b = (if length rows < capacity b then Inr (projr (append_row rec b)) else Inl (CapacityExceeded (capacity b)))"
    "length rows < capacity b \<Longrightarrow> represents (projr (append_row rec b)) (rows @ [(rec, True)])"
    "length rows < capacity b \<Longrightarrow> capacity (projr (append_row rec b)) = capacity b"
proof -
  have n: "rb_row_count b = length rows" "outer_ok b" using assms by (simp_all add: represents_def)
  show "append_row rec b = (if length rows < capacity b then Inr (projr (append_row rec b)) else Inl (CapacityExceeded (capacity b)))"
    using n by (simp add: append_row_def Let_def)
  assume lt: "length rows < capacity b"
  let ?fs = "sch_fields (rb_schema b)" and ?w = "num_words (capacity b)"
  let ?b1 = "append_fields (length rows) rec 0 ?fs b"
  let ?b2 = "?b1\<lparr>audit_values := audit_values ?b1 @ [map_option audit_fields rec], rb_row_count := rb_row_count ?b1 + 1\<rparr>"
  have b2: "projr (append_row rec b) = ?b2" using n lt by (simp add: append_row_def Let_def)
  have fr: "frame b ?b1" using append_fields_effect [OF n(2), of 0 ?fs] by simp
  then show "capacity (projr (append_row rec b)) = capacity b" unfolding b2 by (simp add: frame_def)
  have w: "length rows < 64 * ?w" using lt num_words_enough [of "capacity b"] by linarith
  have "col ?b1 j = push_col (length rows) (source_cell rec j) (?fs ! j) (col b j)" if "j < length ?fs" for j
    using append_fields_effect [OF n(2), of 0 ?fs "length rows" rec j] that by simp
  then have cols: "column_ok ?w (rows @ [(rec, True)]) j (?fs ! j) (col ?b1 j)" if "j < length ?fs" for j
    using column_ok_push [OF _ w] assms that by (simp add: represents_def)
  have "mask_ok ?w (rows @ [(rec, True)]) (valid_mask b)"
    using assms by (auto simp: represents_def mask_ok_def nth_append less_Suc_eq)
  then show "represents (projr (append_row rec b)) (rows @ [(rec, True)])"
    unfolding b2 using fr cols assms lt n
    by (auto simp: represents_def frame_def outer_ok_def col_def Let_def)
qed

lemma map_fst_update:
  "k < length rows \<Longrightarrow> map (\<lambda>r. g (fst r)) (rows[k := (fst (rows ! k), v)]) = map (\<lambda>r. g (fst r)) rows"
  by (rule nth_equalityI) (auto simp: nth_list_update)

lemma set_valid_represents:
  assumes "represents b rows"
  shows "represents (set_row_valid idx v b)
    (if 0 \<le> idx \<and> idx < int (length rows) then rows[nat idx := (fst (rows ! nat idx), v)] else rows)"
proof (cases "0 \<le> idx \<and> idx < int (length rows)")
  case False
  then show ?thesis using assms by (auto simp: set_row_valid_def represents_def)
next
  case True
  let ?k = "nat idx" and ?w = "num_words (capacity b)"
  let ?rows = "rows[?k := (fst (rows ! ?k), v)]"
  have k: "?k < length rows" "length rows \<le> 64 * ?w" using True assms num_words_enough [of "capacity b"] by (auto simp: represents_def)
  have nth: "fst (?rows ! m) = fst (rows ! m)" if "m < length rows" for m
    using that k by (cases "m = ?k") auto
  have cols: "column_ok ?w ?rows i f c = column_ok ?w rows i f c" for i f c
    by (cases c) (auto simp: column_ok_def nth map_fst_update [OF k(1), of "\<lambda>x. cell_num (source_cell x i)"]
        map_fst_update [OF k(1), of "\<lambda>x. cell_str (source_cell x i)"]
        map_fst_update [OF k(1), of "\<lambda>x. cell_scale (source_cell x i)"])
  have len: "length (valid_mask b) = ?w" using assms by (simp add: represents_def mask_ok_def)
  have "mask_ok ?w ?rows (if v then set_word_bit (valid_mask b) ?k else clear_word_bit (valid_mask b) ?k)"
    using assms k len by (auto simp: represents_def mask_ok_def test_set_word_bit test_clear_word_bit nth_list_update)
  then show ?thesis
    using True assms cols map_fst_update [OF k(1), of "map_option audit_fields"]
    by (auto simp: set_row_valid_def represents_def outer_ok_def col_def)
qed

definition batch_value :: "field \<Rightarrow> field_value option \<Rightarrow> field_value" where
  "batch_value f v = \<lparr>fv_type = field_type f, is_null = (v = None),
     scale = (if field_type f = TypeDecimal then cell_scale v else 0),
     num_val = (if is_numeric_data_type (field_type f) then cell_num v else 0),
     str_val = (if is_numeric_data_type (field_type f) then [] else cell_str v)\<rparr>"

text \<open>A row as the iterator shows it: every value typed by the schema, missing values null.\<close>

definition row_view :: "field list \<Rightarrow> generic_record option \<Rightarrow> field_value list \<times> string gomap option" where
  "row_view fs rec = (map (\<lambda>(i, f). batch_value f (source_cell rec i)) (List.enumerate 0 fs), map_option audit_fields rec)"

lemma read_cells_enumerate: "read_cells b idx i fs = map (\<lambda>(j, f). read_cell b idx j f) (List.enumerate i fs)"
  by (induction fs arbitrary: i) auto

lemma iterator_record_view:
  assumes "represents b rows" "k < length rows"
  shows "iterator_record b k = row_view (sch_fields (rb_schema b)) (fst (rows ! k))"
proof -
  let ?fs = "sch_fields (rb_schema b)"
  have w: "k < 64 * num_words (capacity b)"
    using assms num_words_enough [of "capacity b"] by (simp add: represents_def)
  have "read_cell b k i f = batch_value f (source_cell (fst (rows ! k)) i)" if "(i, f) \<in> set (List.enumerate 0 ?fs)" for i f
  proof -
    have i: "i < length ?fs" "f = ?fs ! i" using that by (auto simp: in_set_enumerate_eq)
    then have "column_ok (num_words (capacity b)) rows i f (col b i)" using assms(1) by (simp add: represents_def)
    then show ?thesis using assms(2) w
      by (auto simp: column_ok_def col_def read_cell_def batch_value_def cell_num_def cell_scale_def cell_str_def
          is_numeric_data_type_def split: if_splits option.splits)
  qed
  then show ?thesis using assms
    by (auto simp: iterator_record_def row_view_def read_cells_enumerate represents_def)
qed

lemma next_valid_ge: "i \<le> next_valid b i"
  by (induction b i rule: next_valid.induct) (subst next_valid.simps, auto)

lemma iterate_from_step:
  assumes "i < rb_row_count b"
  shows "iterate_from b i = (if is_row_valid b (int i) then [iterator_record b i] else []) @ iterate_from b (Suc i)"
proof (cases "is_row_valid b (int i)")
  case True
  then show ?thesis using assms by (simp add: iterate_from.simps [of b i] next_valid.simps [of b i])
next
  case False
  then have nv: "next_valid b i = next_valid b (Suc i)" using assms by (simp add: next_valid.simps [of b i])
  show ?thesis using False next_valid_ge [of "Suc i" b]
    by (simp add: iterate_from.simps [of b i] iterate_from.simps [of b "Suc i"] nv Let_def)
qed

lemma iterate_from_rows:
  assumes "represents b rows"
  shows "iterate_from b i = map (\<lambda>r. row_view (sch_fields (rb_schema b)) (fst r)) (filter snd (drop i rows))"
proof (induction "length rows - i" arbitrary: i)
  case 0
  then have "\<not> next_valid b i < rb_row_count b"
    using next_valid_ge [of i b] assms by (simp add: represents_def)
  then show ?case using 0 by (simp add: iterate_from.simps [of b i] Let_def)
next
  case (Suc n)
  then have i: "i < length rows" by simp
  have w: "i < 64 * num_words (capacity b)"
    using i assms num_words_enough [of "capacity b"] by (simp add: represents_def)
  have v: "is_row_valid b (int i) \<longleftrightarrow> snd (rows ! i)" using i assms w by (simp add: is_row_valid_def represents_def mask_ok_def)
  have d: "drop i rows = rows ! i # drop (Suc i) rows" using i by (simp add: Cons_nth_drop_Suc)
  have "iterate_from b (Suc i) = map (\<lambda>r. row_view (sch_fields (rb_schema b)) (fst r)) (filter snd (drop (Suc i) rows))"
    using Suc by (intro Suc.hyps) simp
  then show ?case
    using iterate_from_step [of i b] iterator_record_view [OF assms i] i assms v unfolding d by (simp add: represents_def)
qed

lemma valid_row_count_rows:
  assumes "represents b rows" shows "valid_row_count b = length (filter snd rows)"
proof -
  have v: "is_row_valid b (int i) \<longleftrightarrow> snd (rows ! i)" if "i \<in> set [0..<length rows]" for i
    using that assms num_words_enough [of "capacity b"] by (simp add: is_row_valid_def represents_def mask_ok_def)
  have "valid_row_count b = length (filter (\<lambda>i. is_row_valid b (int i)) [0..<length rows])"
    using assms by (simp add: valid_row_count_def represents_def)
  also have "\<dots> = length (filter (\<lambda>i. snd (rows ! i)) [0..<length rows])"
    by (rule arg_cong [of _ _ length], rule filter_cong [OF refl v])
  also have "\<dots> = length (map ((!) rows) (filter (snd \<circ> (!) rows) [0..<length rows]))" by (simp add: o_def)
  also have "\<dots> = length (filter snd (map ((!) rows) [0..<length rows]))" by (simp only: filter_map)
  finally show ?thesis by (simp only: map_nth)
qed

section \<open>Reset\<close>

definition reset_col :: "nat \<Rightarrow> field \<Rightarrow> column \<Rightarrow> column" where
  "reset_col w f c = (case c of (n, s, sc, nb) \<Rightarrow>
     (if is_numeric_data_type (field_type f) then [] else n, if is_numeric_data_type (field_type f) then s else [],
      if field_type f = TypeDecimal then [] else sc, replicate w 0 @ drop w nb))"

lemma reset_fields_effect:
  assumes "outer_ok b" "i + length fs \<le> length (sch_fields (rb_schema b))"
  shows "frame b (reset_fields w i fs b) \<and>
    col (reset_fields w i fs b) j =
      (if i \<le> j \<and> j < i + length fs then reset_col w (fs ! (j - i)) (col b j) else col b j)"
  using assms
proof (induction fs arbitrary: i b)
  case Nil
  then show ?case by (auto simp: frame_def)
next
  case (Cons f fs)
  define b1 where "b1 = (let b1 = b\<lparr>null_bitmaps := (null_bitmaps b)[i := replicate w 0 @ drop w (null_bitmaps b ! i)]\<rparr> in
      if is_numeric_data_type (field_type f) then
        let b2 = b1\<lparr>num_cols := (num_cols b1)[i := []]\<rparr> in
        if field_type f = TypeDecimal then b2\<lparr>scale_cols := (scale_cols b2)[i := []]\<rparr> else b2
      else b1\<lparr>str_cols := (str_cols b1)[i := []]\<rparr>)"
  have f1: "frame b b1" and c1: "col b1 m = (if m = i then reset_col w f (col b i) else col b m)" for m
    using Cons.prems by (auto simp: b1_def frame_def outer_ok_def col_def reset_col_def is_numeric_data_type_def Let_def)
  have IH: "frame b1 (reset_fields w (Suc i) fs b1) \<and>
      col (reset_fields w (Suc i) fs b1) j =
      (if Suc i \<le> j \<and> j < Suc i + length fs then reset_col w (fs ! (j - Suc i)) (col b1 j) else col b1 j)"
    using Cons.prems(2) f1 by (intro Cons.IH) (auto simp: frame_def)
  have eq: "reset_fields w i (f # fs) b = reset_fields w (Suc i) fs b1" by (simp add: b1_def)
  have "(f # fs) ! (j - i) = (if j = i then f else fs ! (j - Suc i))" if "i \<le> j"
    using that by (auto simp: nth_Cons')
  then show ?case unfolding eq using IH f1 c1 [of j] by (auto simp: frame_def not_less_eq_eq)
qed

lemma batch_capacity_ge: "batch_capacity c \<ge> 64"
  by (simp add: batch_capacity_def Let_def le_nat_iff)

lemma batch_capacity_id: "64 \<le> n \<Longrightarrow> batch_capacity (int n) = n"
  by (simp add: batch_capacity_def Let_def)

lemma reset_is_new:
  assumes "represents b rows" "64 \<le> capacity b"
  shows "batch_reset b = new_record_batch (rb_schema b) (int (capacity b))"
proof -
  let ?w = "num_words (capacity b)" and ?fs = "sch_fields (rb_schema b)"
  let ?b1 = "b\<lparr>rb_row_count := 0, valid_mask := replicate ?w (- 1) @ drop ?w (valid_mask b)\<rparr>"
  let ?b2 = "reset_fields ?w 0 ?fs ?b1"
  have ok: "outer_ok ?b1" using assms(1) by (simp add: represents_def outer_ok_def)
  have fr: "frame ?b1 ?b2" using reset_fields_effect [OF ok, of 0 ?fs] by simp
  have c: "col ?b2 j = ([], [], [], replicate ?w 0)" if "j < length ?fs" for j
  proof -
    have "col ?b2 j = reset_col ?w (?fs ! j) (col b j)"
      using reset_fields_effect [OF ok, of 0 ?fs ?w j] that by (simp add: col_def)
    moreover have "column_ok ?w rows j (?fs ! j) (col b j)" using assms(1) that by (simp add: represents_def)
    ultimately show ?thesis by (cases "col b j") (auto simp: column_ok_def reset_col_def)
  qed
  have lens: "length (num_cols ?b2) = length ?fs" "length (str_cols ?b2) = length ?fs"
    "length (scale_cols ?b2) = length ?fs" "length (null_bitmaps ?b2) = length ?fs"
    using fr by (simp_all add: frame_def outer_ok_def Let_def)
  have "num_cols ?b2 = replicate (length ?fs) []" "str_cols ?b2 = replicate (length ?fs) []"
    "scale_cols ?b2 = replicate (length ?fs) []" "null_bitmaps ?b2 = replicate (length ?fs) (replicate ?w 0)"
    using c lens by (auto intro!: nth_equalityI simp: col_def)
  moreover have "drop ?w (valid_mask b) = []" using assms(1) by (simp add: represents_def mask_ok_def)
  ultimately show ?thesis
    using fr batch_capacity_id [OF assms(2)]
    by (simp add: batch_reset_def new_record_batch_def frame_def Let_def)
qed

section \<open>Sequences of operations\<close>

datatype batch_op = AppendOp "generic_record option" | SetValidOp int bool | ResetOp

definition run_batch :: "record_batch \<Rightarrow> batch_op \<Rightarrow> record_batch" where
  "run_batch b op = (case op of
      AppendOp rec \<Rightarrow> (case append_row rec b of Inl _ \<Rightarrow> b | Inr b' \<Rightarrow> b')
    | SetValidOp i v \<Rightarrow> set_row_valid i v b
    | ResetOp \<Rightarrow> batch_reset b)"

definition run_rows :: "nat \<Rightarrow> batch_rows \<Rightarrow> batch_op \<Rightarrow> batch_rows" where
  "run_rows cap rows op = (case op of
      AppendOp rec \<Rightarrow> if length rows < cap then rows @ [(rec, True)] else rows
    | SetValidOp i v \<Rightarrow> if 0 \<le> i \<and> i < int (length rows) then rows[nat i := (fst (rows ! nat i), v)] else rows
    | ResetOp \<Rightarrow> [])"

definition batch_of :: "schema \<Rightarrow> nat \<Rightarrow> record_batch \<Rightarrow> batch_rows \<Rightarrow> bool" where
  "batch_of s cap b rows \<longleftrightarrow> represents b rows \<and> capacity b = cap \<and> rb_schema b = s"

lemma append_schema: "append_row rec b = Inr b' \<Longrightarrow> outer_ok b \<Longrightarrow> rb_schema b' = rb_schema b"
  using append_fields_effect [of b 0 "sch_fields (rb_schema b)"]
  by (auto simp: append_row_def frame_def Let_def split: if_splits)

lemma run_batch_refines:
  assumes "batch_of s cap b rows" "64 \<le> cap"
  shows "batch_of s cap (run_batch b op) (run_rows cap rows op)"
proof (cases op)
  case (AppendOp rec)
  have r: "represents b rows" "capacity b = cap" "rb_schema b = s" using assms(1) by (simp_all add: batch_of_def)
  note a = append_represents [OF r(1), of rec]
  show ?thesis
  proof (cases "length rows < cap")
    case True
    obtain b' where b': "append_row rec b = Inr b'" using a(1) True r(2) by metis
    then have "rb_schema b' = s" using append_schema [OF b'] r by (simp add: represents_def)
    then show ?thesis using a(2,3) True r b' AppendOp by (simp add: run_batch_def run_rows_def batch_of_def)
  next
    case False
    then show ?thesis using a(1) r AppendOp assms(1) by (simp add: run_batch_def run_rows_def)
  qed
next
  case (SetValidOp i v)
  have "capacity (set_row_valid i v b) = capacity b" "rb_schema (set_row_valid i v b) = rb_schema b"
    by (simp_all add: set_row_valid_def)
  then show ?thesis using set_valid_represents [of b rows i v] assms(1) SetValidOp
    by (simp add: run_batch_def run_rows_def batch_of_def)
next
  case ResetOp
  then show ?thesis
    using assms reset_is_new [of b rows] new_represents [of s "int cap"] batch_capacity_id [OF assms(2)]
    by (simp add: run_batch_def run_rows_def batch_of_def new_record_batch_def Let_def)
qed

lemma new_batch_of: "batch_of s (batch_capacity c) (new_record_batch s c) []"
  using new_represents by (simp add: batch_of_def new_record_batch_def Let_def)

interpretation batch_sim: simulation "batch_of s (batch_capacity c)" run_batch "run_rows (batch_capacity c)" for s c
  by unfold_locales (rule run_batch_refines [OF _ batch_capacity_ge])

section \<open>Properties\<close>

text \<open>C25. Every sequence of appends, validity updates and resets on a new batch implements the same operations
  on a list of rows: iterating the batch yields, in order, exactly the rows still marked valid, each value
  with the type of its column and the content that type stores, missing and null values as nulls, and the
  row's audit fields. Appends beyond the capacity and indices out of range change nothing.\<close>

theorem batch_refines_rows:
  "let b = foldl run_batch (new_record_batch s c) ops;
       rows = foldl (run_rows (batch_capacity c)) [] ops in
   rb_row_count b = length rows \<and> length rows \<le> batch_capacity c \<and>
   valid_row_count b = length (filter snd rows) \<and>
   iterate_batch b = map (\<lambda>r. row_view (sch_fields s) (fst r)) (filter snd rows)"
proof -
  let ?b = "foldl run_batch (new_record_batch s c) ops"
  let ?rows = "foldl (run_rows (batch_capacity c)) [] ops"
  have "batch_of s (batch_capacity c) ?b ?rows"
    by (rule batch_sim.simulates [OF new_batch_of])
  then have r: "represents ?b ?rows" "capacity ?b = batch_capacity c" "rb_schema ?b = s"
    by (simp_all add: batch_of_def)
  show ?thesis
    using r iterate_from_rows [OF r(1), of 0] valid_row_count_rows [OF r(1)] by (simp add: iterate_batch_def represents_def Let_def)
qed

text \<open>\<^verbatim>\<open>Reset\<close> gives back a batch indistinguishable from a new one of the same schema and capacity,
  whatever was done before, so a batch from the pool never shows old rows, nulls or invalid marks.\<close>

lemma batch_reset_is_fresh:
  "batch_reset (foldl run_batch (new_record_batch s c) ops) = new_record_batch s (int (batch_capacity c))"
proof -
  have "batch_of s (batch_capacity c) (foldl run_batch (new_record_batch s c) ops)
      (foldl (run_rows (batch_capacity c)) [] ops)"
    by (rule batch_sim.simulates [OF new_batch_of])
  then show ?thesis using reset_is_new batch_capacity_ge by (auto simp: batch_of_def)
qed

text \<open>A pool into which only batches of its own schema and capacity are put, in whatever state, hands out new ones.\<close>

lemma pooled_batch_is_fresh:
  assumes "list_all (\<lambda>b. \<exists>rows. batch_of (bp_schema p) (batch_capacity (bp_capacity p)) b rows) (bp_idle p)"
  shows "fst (batch_pool_get pick p) = new_record_batch (bp_schema p) (int (batch_capacity (bp_capacity p)))"
proof (cases "pick < length (bp_idle p)")
  case True
  then obtain rows where "batch_of (bp_schema p) (batch_capacity (bp_capacity p)) (bp_idle p ! pick) rows"
    using assms by (auto simp: list_all_length)
  then show ?thesis using True reset_is_new batch_capacity_ge by (auto simp: batch_pool_get_def batch_of_def)
next
  case False
  then show ?thesis using batch_reset_is_fresh [of "bp_schema p" "bp_capacity p" "[]"] by (simp add: batch_pool_get_def)
qed

end
