(* ===== verification/Batch_Coder.thy ===== *)
theory Batch_Coder
  imports Record_Batch Wire
begin

text \<open>
  The coder of columnar batches, \<^verbatim>\<open>internal/beam/core/record_batch_coder.go\<close>: little-endian integers, the
  validity mask, the columns of the schema and the audit fields of each row. Decoding an encoded batch shows
  the same rows; the lengths of audit entries are written in 16 bits without a check.
\<close>

section \<open>Little-endian integers (encoding/binary)\<close>

fun put_le :: "nat \<Rightarrow> nat \<Rightarrow> byte list" where
  "put_le 0 x = []"
| "put_le (Suc n) x = of_nat (x mod 256) # put_le n (x div 256)"

fun get_le :: "byte list \<Rightarrow> nat" where
  "get_le [] = 0"
| "get_le (b # bs) = unat b + 256 * get_le bs"

definition read_le :: "nat \<Rightarrow> nat reader" where
  "read_le n = rd_bind (read_full n) (\<lambda>b. rd_return (get_le b))"

text \<open>Two integers of \<open>n\<close> bytes read with one \<^verbatim>\<open>io.ReadFull\<close>.\<close>

definition read_le_pair :: "nat \<Rightarrow> (nat \<times> nat) reader" where
  "read_le_pair n = rd_bind (read_full (2 * n)) (\<lambda>b. rd_return (get_le (take n b), get_le (drop n b)))"

definition put_word64 :: "u64 \<Rightarrow> byte list" where "put_word64 w = put_le 8 (unat w)"

definition read_word64 :: "u64 reader" where
  "read_word64 = rd_bind (read_le 8) (\<lambda>x. rd_return (of_nat x))"

definition put_scale :: "int \<Rightarrow> byte list" where "put_scale s = put_le 4 (nat (s mod 2 ^ 32))"

definition read_scale :: "int reader" where
  "read_scale = rd_bind (read_le 4) (\<lambda>x. rd_return (i32 (int x)))"

section \<open>RecordBatchEncoder\<close>

definition encode_str_cell :: "string \<Rightarrow> byte list" where
  "encode_str_cell s = put_le 4 (length s mod 2 ^ 32) @ map byte_of_char s"

definition encode_batch_column :: "record_batch \<Rightarrow> nat \<Rightarrow> nat \<Rightarrow> field \<Rightarrow> byte list" where
  "encode_batch_column b w i f =
     concat (map put_word64 (take w (null_bitmaps b ! i))) @
     (if is_numeric_data_type (field_type f) then
        concat (map put_word64 (num_cols b ! i)) @
        (if field_type f = TypeDecimal then concat (map put_scale (scale_cols b ! i)) else [])
      else concat (map encode_str_cell (str_cols b ! i)))"

fun encode_batch_columns :: "record_batch \<Rightarrow> nat \<Rightarrow> nat \<Rightarrow> field list \<Rightarrow> byte list" where
  "encode_batch_columns b w i [] = []"
| "encode_batch_columns b w i (f # fs) = encode_batch_column b w i f @ encode_batch_columns b w (Suc i) fs"

definition encode_batch_audit_entry :: "string \<times> string \<Rightarrow> byte list" where
  "encode_batch_audit_entry = (\<lambda>(k, v). put_le 2 (length k mod 2 ^ 16) @ put_le 2 (length v mod 2 ^ 16) @
     map byte_of_char k @ map byte_of_char v)"

definition encode_audit_row :: "string gomap option \<Rightarrow> byte list" where
  "encode_audit_row m = (let es = (case m of None \<Rightarrow> [] | Some es \<Rightarrow> es) in
     put_le 2 (length es mod 2 ^ 16) @ concat (map encode_batch_audit_entry es))"

definition audit_row :: "record_batch \<Rightarrow> nat \<Rightarrow> string gomap option" where
  "audit_row b row = (if row < length (audit_values b) then audit_values b ! row else None)"

definition encode_record_batch :: "record_batch \<Rightarrow> byte list" where
  "encode_record_batch b =
     put_le 4 (rb_row_count b mod 2 ^ 32) @ put_le 4 (length (sch_fields (rb_schema b)) mod 2 ^ 32) @
     concat (map put_word64 (take (num_words (rb_row_count b)) (valid_mask b))) @
     encode_batch_columns b (num_words (rb_row_count b)) 0 (sch_fields (rb_schema b)) @
     concat (map (\<lambda>row. encode_audit_row (audit_row b row)) [0..<rb_row_count b])"

section \<open>RecordBatchDecoder\<close>

datatype batch_decode_error = BatchIo coder_error | FieldCountMismatch nat nat

definition read_str_cell :: "string reader" where
  "read_str_cell = rd_bind (read_le 4) (\<lambda>n. if n = 0 then rd_return []
     else rd_bind (read_full n) (\<lambda>b. rd_return (map char_of_byte b)))"

definition decode_batch_column :: "nat \<Rightarrow> nat \<Rightarrow> field \<Rightarrow> (u64 list \<times> u64 list \<times> int list \<times> string list) reader" where
  "decode_batch_column rows w f =
     rd_bind (read_many w read_word64) (\<lambda>nulls.
       if is_numeric_data_type (field_type f) then
         rd_bind (read_many rows read_word64) (\<lambda>nums.
           if field_type f = TypeDecimal
           then rd_bind (read_many rows read_scale) (\<lambda>scales. rd_return (nulls, nums, scales, []))
           else rd_return (nulls, nums, [], []))
       else rd_bind (read_many rows read_str_cell) (\<lambda>strs. rd_return (nulls, [], [], strs)))"

fun decode_batch_columns :: "nat \<Rightarrow> nat \<Rightarrow> field list \<Rightarrow> (u64 list \<times> u64 list \<times> int list \<times> string list) list reader" where
  "decode_batch_columns rows w [] = rd_return []"
| "decode_batch_columns rows w (f # fs) =
     rd_bind (decode_batch_column rows w f) (\<lambda>c. rd_bind (decode_batch_columns rows w fs) (\<lambda>cs. rd_return (c # cs)))"

definition read_batch_audit_entry :: "(string \<times> string) reader" where
  "read_batch_audit_entry = rd_bind (read_le_pair 2) (\<lambda>(kl, vl).
     rd_bind (read_full kl) (\<lambda>k. rd_bind (read_full vl) (\<lambda>v. rd_return (map char_of_byte k, map char_of_byte v))))"

fun read_batch_entries :: "nat \<Rightarrow> string gomap \<Rightarrow> string gomap reader" where
  "read_batch_entries 0 m = rd_return m"
| "read_batch_entries (Suc n) m = rd_bind read_batch_audit_entry (\<lambda>(k, v). read_batch_entries n (gm_set m k v))"

definition read_audit_row :: "string gomap option reader" where
  "read_audit_row = rd_bind (read_le 2) (\<lambda>count. if count = 0 then rd_return None
     else rd_bind (read_batch_entries count []) (\<lambda>m. rd_return (Some m)))"

text \<open>The first words of a bitmap are replaced by those read.\<close>

definition overwrite :: "'a list \<Rightarrow> 'a list \<Rightarrow> 'a list" where
  "overwrite ws old = ws @ drop (length ws) old"

definition decode_record_batch :: "schema \<Rightarrow> byte list \<Rightarrow> batch_decode_error + record_batch \<times> byte list" where
  "decode_record_batch s bs =
     (case read_le_pair 4 bs of
        Inl e \<Rightarrow> Inl (BatchIo e)
      | Inr ((rows, n), bs1) \<Rightarrow>
          if n \<noteq> length (sch_fields s) then Inl (FieldCountMismatch (length (sch_fields s)) n)
          else let batch = new_record_batch s (int rows); w = num_words rows in
            (case rd_bind (read_many w read_word64) (\<lambda>ms. rd_bind (decode_batch_columns rows w (sch_fields s)) (\<lambda>cs.
                  rd_bind (read_many rows read_audit_row) (\<lambda>audits. rd_return (ms, cs, audits)))) bs1 of
               Inl e \<Rightarrow> Inl (BatchIo e)
             | Inr ((ms, cs, audits), rest) \<Rightarrow>
                 Inr (batch\<lparr>valid_mask := overwrite ms (valid_mask batch),
                        null_bitmaps := map2 (\<lambda>c old. overwrite (fst c) old) cs (null_bitmaps batch),
                        num_cols := map (\<lambda>c. fst (snd c)) cs, scale_cols := map (\<lambda>c. fst (snd (snd c))) cs,
                        str_cols := map (\<lambda>c. snd (snd (snd c))) cs,
                        audit_values := audits, rb_row_count := rows\<rparr>, rest)))"

section \<open>Lemmas\<close>

lemma length_put_le [simp]: "length (put_le n x) = n"
  by (induction n arbitrary: x) auto

lemma get_put_le: "get_le (put_le n x) = x mod 256 ^ n"
proof (induction n arbitrary: x)
  case (Suc n)
  have "get_le (put_le (Suc n) x) = x mod 256 + 256 * (x div 256 mod 256 ^ n)"
    using Suc by (simp add: unat_of_nat)
  also have "\<dots> = x mod (256 * 256 ^ n)" by (simp add: mod_mult2_eq)
  finally show ?case by simp
qed simp

lemma read_full_append: "length a = n \<Longrightarrow> read_full n (a @ bs) = Inr (a, bs)"
  by (simp add: read_full_def)

lemma bind_read_full: "length a = n \<Longrightarrow> rd_bind (read_full n) f (a @ bs) = f a bs"
  by (simp add: rd_bind_def read_full_append)

interpretation le: codec "put_le n" "read_le n" "\<lambda>x. x < 256 ^ n" "\<lambda>x. x" for n
  by unfold_locales (simp add: read_le_def bind_read_full get_put_le rd_return_def)

lemma read_le_pair_put:
  "read_le_pair n (put_le n x @ put_le n y @ bs) = Inr ((x mod 256 ^ n, y mod 256 ^ n), bs)"
proof -
  have "read_full (2 * n) (put_le n x @ put_le n y @ bs) = Inr (put_le n x @ put_le n y, bs)"
    using read_full_append [of "put_le n x @ put_le n y" "2 * n" bs] by simp
  then show ?thesis by (simp add: read_le_pair_def rd_bind_def get_put_le rd_return_def)
qed

interpretation word64: codec put_word64 read_word64 "\<lambda>_. True" "\<lambda>w. w"
proof
  fix w :: u64 and rest
  have "unat w < 2 ^ LENGTH(64)" by (rule unsigned_less)
  then show "read_word64 (put_word64 w @ rest) = Inr (w, rest)"
    by (simp add: read_word64_def put_word64_def le.bind_encode rd_return_def)
qed

interpretation scale: codec put_scale read_scale in_i32 "\<lambda>s. s"
proof
  fix s rest assume s: "in_i32 s"
  have lt: "nat (s mod 2 ^ 32) < 256 ^ 4" using pos_mod_bound [of "2 ^ 32" s] by (simp add: nat_less_iff)
  have "i32 (s mod 2 ^ 32) = i32 s" by (simp add: i32_def mod_add_left_eq)
  then have "i32 (int (nat (s mod 2 ^ 32))) = s" using s by (simp add: i32_id)
  then show "read_scale (put_scale s @ rest) = Inr (s, rest)"
    using lt by (simp add: read_scale_def put_scale_def le.bind_encode rd_return_def)
qed

interpretation str_cell: codec encode_str_cell read_str_cell "\<lambda>s. length s < 2 ^ 32" "\<lambda>s. s"
proof
  fix s :: string and rest assume "length s < 2 ^ 32"
  then have e: "rd_bind (read_le 4) f (put_le 4 (length s mod 2 ^ 32) @ bs) = f (length s) bs" for f :: "nat \<Rightarrow> 'x reader" and bs
    by (simp add: le.bind_encode)
  show "read_str_cell (encode_str_cell s @ rest) = Inr (s, rest)"
    unfolding read_str_cell_def encode_str_cell_def append_assoc e
    by (simp add: bind_read_full rd_return_def)
qed

text \<open>Maps whose entries fit the 16-bit lengths of the format.\<close>

definition audit_entry_ok :: "string \<times> string \<Rightarrow> bool" where
  "audit_entry_ok e \<longleftrightarrow> length (fst e) < 2 ^ 16 \<and> length (snd e) < 2 ^ 16"

definition audit_row_ok :: "string gomap option \<Rightarrow> bool" where
  "audit_row_ok m = (case m of None \<Rightarrow> True | Some es \<Rightarrow> map_ok es \<and> length es < 2 ^ 16 \<and> list_all audit_entry_ok es)"

definition audit_view :: "string gomap option \<Rightarrow> string gomap option" where
  "audit_view m = (if m = Some [] then None else m)"

interpretation batch_entry: codec encode_batch_audit_entry read_batch_audit_entry audit_entry_ok "\<lambda>e. e"
proof
  fix e rest assume ok: "audit_entry_ok e"
  obtain k v where e: "e = (k, v)" by fastforce
  have rp: "read_le_pair 2 (put_le 2 (length k mod 2 ^ 16) @ put_le 2 (length v mod 2 ^ 16) @ bs) =
      Inr ((length k, length v), bs)" for bs
    using ok e by (simp add: read_le_pair_put audit_entry_ok_def)
  show "read_batch_audit_entry (encode_batch_audit_entry e @ rest) = Inr (e, rest)"
    unfolding e read_batch_audit_entry_def encode_batch_audit_entry_def prod.case append_assoc
      rd_bind_def [of "read_le_pair 2"] rp
    by (simp add: bind_read_full rd_return_def)
qed

lemma read_batch_entries_encode:
  "list_all audit_entry_ok es \<Longrightarrow> read_batch_entries (length es) m (concat (map encode_batch_audit_entry es) @ rest) =
    Inr (foldl (\<lambda>r (k, v). gm_set r k v) m es, rest)"
proof (induction es arbitrary: m)
  case (Cons e es)
  then show ?case by (cases e) (simp add: batch_entry.bind_encode)
qed (simp add: rd_return_def)

interpretation audit_row: codec encode_audit_row read_audit_row audit_row_ok audit_view
proof
  fix m rest assume ok: "audit_row_ok m"
  show "read_audit_row (encode_audit_row m @ rest) = Inr (audit_view m, rest)"
  proof (cases "m = None \<or> m = Some []")
    case True
    then show ?thesis
      by (auto simp: encode_audit_row_def read_audit_row_def audit_view_def le.bind_encode rd_return_def)
  next
    case False
    then obtain es where m: "m = Some es" "es \<noteq> []" by auto
    have es: "map_ok es" "length es < 2 ^ 16" "list_all audit_entry_ok es" using ok m by (simp_all add: audit_row_ok_def)
    have e: "rd_bind (read_le 2) f (put_le 2 (length es mod 2 ^ 16) @ bs) = f (length es) bs" for f :: "nat \<Rightarrow> 'x reader" and bs
      using es(2) by (simp add: le.bind_encode)
    show ?thesis
      using m es(1) unfolding m(1) read_audit_row_def encode_audit_row_def Let_def option.case append_assoc e
      by (simp add: rd_bind_def read_batch_entries_encode [OF es(3)] foldl_gm_set_append [of "[]"] rd_return_def audit_view_def)
  qed
qed


section \<open>Round trip\<close>

lemma read_many_bind:
  assumes "codec enc dec ok view" "list_all ok xs" "length xs = n"
  shows "rd_bind (read_many n dec) f (concat (map enc xs) @ rest) = f (map view xs) rest"
  using codec.read_many_encode [OF assms(1,2), of rest] assms(3) by (simp add: rd_bind_def)

lemmas read_words = read_many_bind [OF word64.codec_axioms]
lemmas read_scales = read_many_bind [OF scale.codec_axioms]
lemmas read_strs = read_many_bind [OF str_cell.codec_axioms]

text \<open>A batch whose columns have one cell per row, within the limits of the format.\<close>

definition column_fits :: "nat \<Rightarrow> nat \<Rightarrow> field \<Rightarrow> column \<Rightarrow> bool" where
  "column_fits rows w f c = (case c of (n, s, sc, nb) \<Rightarrow> w \<le> length nb \<and>
     (if is_numeric_data_type (field_type f) then length n = rows \<and> s = [] else n = [] \<and> length s = rows) \<and>
     (if field_type f = TypeDecimal then length sc = rows else sc = []) \<and>
     list_all (\<lambda>x. length x < 2 ^ 32) s \<and> list_all in_i32 sc)"

definition decoded_column :: "nat \<Rightarrow> column \<Rightarrow> u64 list \<times> u64 list \<times> int list \<times> string list" where
  "decoded_column w c = (case c of (n, s, sc, nb) \<Rightarrow> (take w nb, n, sc, s))"

lemma decode_encode_column:
  assumes "column_fits rows w f (col b i)"
  shows "decode_batch_column rows w f (encode_batch_column b w i f @ rest) = Inr (decoded_column w (col b i), rest)"
proof -
  have c: "length (take w (null_bitmaps b ! i)) = w" "list_all (\<lambda>x. length x < 2 ^ 32) (str_cols b ! i)"
    "list_all in_i32 (scale_cols b ! i)"
    using assms by (auto simp: column_fits_def col_def)
  have t: "list_all (\<lambda>_. True) xs" for xs :: "u64 list" by (simp add: list_all_iff)
  consider (num) "is_numeric_data_type (field_type f)" "field_type f \<noteq> TypeDecimal"
    | (dec) "is_numeric_data_type (field_type f)" "field_type f = TypeDecimal"
    | (str) "\<not> is_numeric_data_type (field_type f)" by blast
  then show ?thesis
  proof cases
    case num
    then have l: "length (num_cols b ! i) = rows" "str_cols b ! i = []" "scale_cols b ! i = []"
      using assms by (auto simp: column_fits_def col_def)
    show ?thesis
      unfolding decode_batch_column_def encode_batch_column_def append_assoc read_words [OF t c(1)]
      using num l by (simp add: read_words [OF t] decoded_column_def col_def rd_return_def)
  next
    case dec
    then have l: "length (num_cols b ! i) = rows" "str_cols b ! i = []" "length (scale_cols b ! i) = rows"
      using assms by (auto simp: column_fits_def col_def)
    show ?thesis
      unfolding decode_batch_column_def encode_batch_column_def append_assoc read_words [OF t c(1)]
      using dec l by (simp add: read_words [OF t] read_scales [OF c(3)] decoded_column_def col_def rd_return_def)
  next
    case str
    then have l: "num_cols b ! i = []" "length (str_cols b ! i) = rows" "scale_cols b ! i = []"
      using assms by (auto simp: column_fits_def col_def is_numeric_data_type_def)
    show ?thesis
      unfolding decode_batch_column_def encode_batch_column_def append_assoc read_words [OF t c(1)]
      using str l by (simp add: read_strs [OF c(2)] decoded_column_def col_def rd_return_def)
  qed
qed

lemma decode_encode_columns:
  assumes "\<forall>j < length fs. column_fits rows w (fs ! j) (col b (i + j))"
  shows "decode_batch_columns rows w fs (encode_batch_columns b w i fs @ rest) =
    Inr (map (\<lambda>j. decoded_column w (col b (i + j))) [0..<length fs], rest)"
  using assms
proof (induction fs arbitrary: i)
  case (Cons f fs)
  have "\<forall>j < length fs. column_fits rows w (fs ! j) (col b (Suc i + j))" using Cons.prems by fastforce
  then have "decode_batch_columns rows w fs (encode_batch_columns b w (Suc i) fs @ rest) =
      Inr (map (\<lambda>j. decoded_column w (col b (Suc i + j))) [0..<length fs], rest)" by (rule Cons.IH)
  moreover have "column_fits rows w f (col b i)" using Cons.prems by force
  ultimately show ?case
    by (simp add: rd_bind_def decode_encode_column rd_return_def map_upt_Suc del: upt_Suc)
qed (simp add: rd_return_def)

definition batch_fits :: "record_batch \<Rightarrow> bool" where
  "batch_fits b \<longleftrightarrow> rb_row_count b < 2 ^ 32 \<and> length (sch_fields (rb_schema b)) < 2 ^ 32 \<and> outer_ok b \<and>
     num_words (rb_row_count b) \<le> length (valid_mask b) \<and> length (audit_values b) = rb_row_count b \<and>
     list_all audit_row_ok (audit_values b) \<and>
     (\<forall>j < length (sch_fields (rb_schema b)).
        column_fits (rb_row_count b) (num_words (rb_row_count b)) (sch_fields (rb_schema b) ! j) (col b j))"

definition decoded_batch :: "record_batch \<Rightarrow> record_batch" where
  "decoded_batch b = (let w = num_words (rb_row_count b); new = new_record_batch (rb_schema b) (int (rb_row_count b)) in
     new\<lparr>valid_mask := overwrite (take w (valid_mask b)) (valid_mask new),
       null_bitmaps := map2 (\<lambda>ws old. overwrite (take w ws) old) (null_bitmaps b) (null_bitmaps new),
       num_cols := num_cols b, scale_cols := scale_cols b, str_cols := str_cols b,
       audit_values := map audit_view (audit_values b), rb_row_count := rb_row_count b\<rparr>)"

lemma decode_encode_batch:
  assumes "batch_fits b"
  shows "decode_record_batch (rb_schema b) (encode_record_batch b @ rest) = Inr (decoded_batch b, rest)"
proof -
  let ?n = "rb_row_count b" and ?fs = "sch_fields (rb_schema b)" and ?w = "num_words (rb_row_count b)"
  let ?audits = "map (audit_row b) [0..<?n]"
  have a: "?audits = audit_values b" using assms
    by (intro nth_equalityI) (simp_all add: batch_fits_def audit_row_def)
  have enc_a: "concat (map (\<lambda>row. encode_audit_row (audit_row b row)) [0..<?n]) = concat (map encode_audit_row (audit_values b))"
    using a by (metis (no_types, lifting) map_map comp_apply map_eq_conv)
  have hdr: "read_le_pair 4 (put_le 4 (?n mod 2 ^ 32) @ put_le 4 (length ?fs mod 2 ^ 32) @ bs) = Inr ((?n, length ?fs), bs)" for bs
    using assms by (simp add: read_le_pair_put batch_fits_def)
  let ?cs = "map (\<lambda>j. decoded_column ?w (col b j)) [0..<length ?fs]"
  have cols: "rd_bind (decode_batch_columns ?n ?w ?fs) f (encode_batch_columns b ?w 0 ?fs @ bs) = f ?cs bs" for f bs
    using decode_encode_columns [of ?fs ?n ?w b 0 bs] assms by (simp add: rd_bind_def batch_fits_def)
  have m: "length (take ?w (valid_mask b)) = ?w" and au: "list_all audit_row_ok (audit_values b)" "length (audit_values b) = ?n"
    using assms by (auto simp: batch_fits_def)
  have t: "list_all (\<lambda>_. True) xs" for xs :: "u64 list" by (simp add: list_all_iff)
  have body: "rd_bind (read_many ?w read_word64) (\<lambda>ms. rd_bind (decode_batch_columns ?n ?w ?fs) (\<lambda>cs.
        rd_bind (read_many ?n read_audit_row) (\<lambda>audits. rd_return (ms, cs, audits))))
      (concat (map put_word64 (take ?w (valid_mask b))) @ encode_batch_columns b ?w 0 ?fs @
        concat (map encode_audit_row (audit_values b)) @ rest) =
      Inr ((take ?w (valid_mask b), ?cs, map audit_view (audit_values b)), rest)"
    unfolding read_words [OF t m] cols read_many_bind [OF audit_row.codec_axioms au] by (simp add: rd_return_def)
  have parts: "map (\<lambda>c. fst (snd c)) ?cs = num_cols b" "map (\<lambda>c. fst (snd (snd c))) ?cs = scale_cols b"
    "map (\<lambda>c. snd (snd (snd c))) ?cs = str_cols b" "map fst ?cs = map (take ?w) (null_bitmaps b)"
    using assms by (auto intro!: nth_equalityI simp: batch_fits_def outer_ok_def decoded_column_def col_def Let_def)
  have nulls: "map2 (\<lambda>c old. overwrite (fst c) old) ?cs olds = map2 (\<lambda>ws old. overwrite (take ?w ws) old) (null_bitmaps b) olds" for olds
  proof -
    have "map2 (\<lambda>c old. overwrite (fst c) old) ?cs olds = map2 overwrite (map fst ?cs) olds"
      by (simp add: map_zip_map)
    then show ?thesis unfolding parts(4) by (simp add: map_zip_map)
  qed
  show ?thesis
    unfolding decode_record_batch_def encode_record_batch_def append_assoc hdr enc_a
    using body parts nulls by (simp add: decoded_batch_def Let_def)
qed

text \<open>Reading back: the decoded batch shows the same rows.\<close>

lemma test_overwrite:
  assumes "k < n" "num_words n \<le> length ws"
  shows "test_word_bit (overwrite (take (num_words n) ws) old) k = test_word_bit ws k"
proof -
  have "k div 64 < num_words n" using assms(1) by (simp add: num_words_def)
  then show ?thesis using assms(2) by (simp add: test_word_bit_def overwrite_def nth_append)
qed

lemma decoded_batch_fields:
  "rb_schema (decoded_batch b) = rb_schema b" "rb_row_count (decoded_batch b) = rb_row_count b"
  "num_cols (decoded_batch b) = num_cols b" "scale_cols (decoded_batch b) = scale_cols b"
  "str_cols (decoded_batch b) = str_cols b" "audit_values (decoded_batch b) = map audit_view (audit_values b)"
  by (simp_all add: decoded_batch_def new_record_batch_def Let_def)

lemma decoded_valid:
  assumes "batch_fits b" "k < rb_row_count b"
  shows "is_row_valid (decoded_batch b) (int k) = is_row_valid b (int k)"
  using assms by (simp add: is_row_valid_def decoded_batch_fields)
    (simp add: decoded_batch_def Let_def test_overwrite batch_fits_def)

lemma decoded_record:
  assumes "batch_fits b" "k < rb_row_count b"
  shows "iterator_record (decoded_batch b) k = apsnd audit_view (iterator_record b k)"
proof -
  have nb: "test_word_bit (null_bitmaps (decoded_batch b) ! i) k = test_word_bit (null_bitmaps b ! i) k"
    if "i < length (sch_fields (rb_schema b))" for i
  proof -
    have "num_words (rb_row_count b) \<le> length (null_bitmaps b ! i)"
      using assms(1) that by (auto simp: batch_fits_def column_fits_def col_def)
    moreover have "null_bitmaps (decoded_batch b) ! i =
        overwrite (take (num_words (rb_row_count b)) (null_bitmaps b ! i)) (null_bitmaps (new_record_batch (rb_schema b) (int (rb_row_count b))) ! i)"
      using assms(1) that
      by (simp add: decoded_batch_def Let_def batch_fits_def outer_ok_def new_record_batch_def)
    ultimately show ?thesis using assms(2) by (simp add: test_overwrite)
  qed
  have "read_cell (decoded_batch b) k i f = read_cell b k i f" if "(i, f) \<in> set (List.enumerate 0 (sch_fields (rb_schema b)))" for i f
    using nb [of i] that by (auto simp: in_set_enumerate_eq read_cell_def decoded_batch_fields)
  then have "read_cells (decoded_batch b) k 0 (sch_fields (rb_schema b)) = read_cells b k 0 (sch_fields (rb_schema b))"
    by (auto simp: read_cells_enumerate)
  then show ?thesis using assms
    by (simp add: iterator_record_def decoded_batch_fields batch_fits_def)
qed

lemma iterate_from_end: "rb_row_count b \<le> i \<Longrightarrow> iterate_from b i = []"
  using next_valid_ge [of i b] by (simp add: iterate_from.simps [of b i] Let_def)

lemma iterate_decoded:
  assumes "batch_fits b"
  shows "iterate_from (decoded_batch b) i = map (apsnd audit_view) (iterate_from b i)"
proof (induction "rb_row_count b - i" arbitrary: i)
  case 0
  then show ?case by (simp add: iterate_from_end decoded_batch_fields)
next
  case (Suc n)
  then have i: "i < rb_row_count b" by simp
  have "iterate_from (decoded_batch b) (Suc i) = map (apsnd audit_view) (iterate_from b (Suc i))"
    using Suc by (intro Suc.hyps) simp
  then show ?case
    using i assms iterate_from_step [of i b] iterate_from_step [of i "decoded_batch b"]
    by (simp add: decoded_batch_fields decoded_valid decoded_record)
qed

text \<open>Rows within the limits of the format.\<close>

definition value_fits :: "field_value \<Rightarrow> bool" where
  "value_fits v \<longleftrightarrow> length (str_val v) < 2 ^ 32 \<and> in_i32 (scale v)"

definition row_fits :: "generic_record option \<Rightarrow> bool" where
  "row_fits rec = (case rec of None \<Rightarrow> True
     | Some r \<Rightarrow> list_all value_fits (vals r) \<and> audit_row_ok (Some (audit_fields r)))"

lemma source_cell_fits:
  assumes "row_fits rec" shows "length (cell_str (source_cell rec i)) < 2 ^ 32" "in_i32 (cell_scale (source_cell rec i))"
  using assms by (auto simp: row_fits_def source_cell_def cell_str_def cell_scale_def list_all_length value_fits_def in_i32_def
      split: option.splits)

lemma represents_fits:
  assumes "represents b rows" "\<forall>r \<in> set rows. row_fits (fst r)" "length rows < 2 ^ 32" "length (sch_fields (rb_schema b)) < 2 ^ 32"
  shows "batch_fits b"
proof -
  have w: "num_words (length rows) \<le> num_words (capacity b)"
    using assms(1) by (simp add: represents_def num_words_def div_le_mono)
  have "column_fits (length rows) (num_words (length rows)) (sch_fields (rb_schema b) ! j) (col b j)"
    if "j < length (sch_fields (rb_schema b))" for j
  proof -
    have "column_ok (num_words (capacity b)) rows j (sch_fields (rb_schema b) ! j) (col b j)"
      using assms(1) that by (simp add: represents_def)
    then show ?thesis using w assms(2) source_cell_fits
      by (cases "col b j") (auto simp: column_ok_def column_fits_def list_all_iff)
  qed
  moreover have "list_all audit_row_ok (audit_values b)"
    using assms(1,2) by (auto simp: represents_def list_all_iff row_fits_def audit_row_ok_def split: option.splits)
  ultimately show ?thesis using assms w by (simp add: represents_def batch_fits_def mask_ok_def)
qed

section \<open>Properties\<close>

text \<open>C26. Coding a batch: for every batch built from a new one by appends, validity updates and resets, whose
  texts, scales, audit maps, rows and fields fit the widths of the format, the decoder given the same schema
  reads back exactly the bytes of the encoder, leaves what follows untouched and yields a batch with the same
  number of rows that iterates over the same valid rows (an empty audit map reads back as nil).\<close>

theorem batch_coder_roundtrip:
  assumes "b = foldl run_batch (new_record_batch s c) ops"
    and "rows = foldl (run_rows (batch_capacity c)) [] ops"
    and "list_all (\<lambda>r. row_fits (fst r)) rows" "length rows < 2 ^ 32" "length (sch_fields s) < 2 ^ 32"
  shows "\<exists>b'. decode_record_batch s (encode_record_batch b @ rest) = Inr (b', rest) \<and>
    rb_schema b' = s \<and> rb_row_count b' = rb_row_count b \<and> valid_row_count b' = valid_row_count b \<and>
    iterate_batch b' = map (apsnd audit_view) (iterate_batch b)"
proof -
  have "batch_of s (batch_capacity c) b rows"
    unfolding assms(1,2) by (rule batch_sim.simulates [OF new_batch_of])
  then have r: "represents b rows" "rb_schema b = s" by (simp_all add: batch_of_def)
  have fits: "batch_fits b" using represents_fits [OF r(1)] assms(3-5) r(2) by (simp add: list_all_iff)
  have "valid_row_count (decoded_batch b) = valid_row_count b"
    unfolding valid_row_count_def decoded_batch_fields
    by (rule arg_cong [of _ _ length], rule filter_cong [OF refl]) (simp add: decoded_valid [OF fits])
  then show ?thesis
    using decode_encode_batch [OF fits, of rest] iterate_decoded [OF fits, of 0] r(2)
    by (auto simp: iterate_batch_def decoded_batch_fields)
qed

definition sample_batch_schema :: schema where
  "sample_batch_schema = \<lparr>sch_fields = [\<lparr>field_name = ''id'', field_type = TypeInt64, nullable = False, field_scale = 0, on_overflow = []\<rparr>,
     \<lparr>field_name = ''price'', field_type = TypeDecimal, nullable = True, field_scale = 2, on_overflow = []\<rparr>,
     \<lparr>field_name = ''name'', field_type = TypeString, nullable = True, field_scale = 0, on_overflow = []\<rparr>], name_idx = None\<rparr>"

definition sample_batch_row :: "string \<Rightarrow> generic_record" where
  "sample_batch_row s = \<lparr>schema_id = ''s'', vals = [\<lparr>fv_type = TypeInt64, is_null = False, scale = 0, num_val = 7, str_val = []\<rparr>,
     \<lparr>fv_type = TypeDecimal, is_null = False, scale = 2, num_val = 150, str_val = []\<rparr>,
     \<lparr>fv_type = TypeString, is_null = False, scale = 0, num_val = 0, str_val = s\<rparr>], audit_fields = [(''_origin_id'', ''a'')]\<rparr>"

definition sample_batch_ops :: "batch_op list" where
  "sample_batch_ops = [AppendOp (Some (sample_batch_row ''x'')), AppendOp None, AppendOp (Some (sample_batch_row ''yz'')), SetValidOp 0 False]"

theorem batch_coder_roundtrip_witness:
  "let b = foldl run_batch (new_record_batch sample_batch_schema 0) sample_batch_ops in
   \<exists>b'. decode_record_batch sample_batch_schema (encode_record_batch b @ [7]) = Inr (b', [7]) \<and>
    rb_schema b' = sample_batch_schema \<and> rb_row_count b' = rb_row_count b \<and> valid_row_count b' = valid_row_count b \<and>
    iterate_batch b' = map (apsnd audit_view) (iterate_batch b)"
  unfolding Let_def
  by (rule batch_coder_roundtrip [OF refl refl])
    (simp_all add: sample_batch_ops_def sample_batch_row_def sample_batch_schema_def run_rows_def batch_capacity_def
      row_fits_def value_fits_def in_i32_def audit_row_ok_def audit_entry_ok_def map_ok_def)

text \<open>The decoder refuses a batch whose header does not have the field count of the schema, before it reads
  anything else.\<close>

lemma batch_coder_field_mismatch:
  assumes "length (sch_fields (rb_schema b)) < 2 ^ 32" "length (sch_fields s) \<noteq> length (sch_fields (rb_schema b))"
  shows "decode_record_batch s (encode_record_batch b @ rest) =
    Inl (FieldCountMismatch (length (sch_fields s)) (length (sch_fields (rb_schema b))))"
  using assms by (simp add: decode_record_batch_def encode_record_batch_def read_le_pair_put)

text \<open>Audit values are limited by their 16-bit length without a check: a value of exactly 65536 bytes is
  written in full after a length of 0, so the reader takes it for empty and continues in the middle of its bytes.\<close>

lemma audit_value_truncated:
  assumes "length k < 2 ^ 16"
  shows "read_audit_row (encode_audit_row (Some [(k, replicate (2 ^ 16) c)]) @ rest) =
    Inr (Some [(k, [])], replicate (2 ^ 16) (byte_of_char c) @ rest)"
proof -
  define v where "v = replicate (2 ^ 16) c"
  have v: "length v = 2 ^ 16" by (simp add: v_def)
  have rp: "read_le_pair 2 (put_le 2 (length k mod 2 ^ 16) @ put_le 2 (length v mod 2 ^ 16) @ bs) = Inr ((length k, 0), bs)" for bs
    using assms v by (simp add: read_le_pair_put)
  have one: "rd_bind (read_le 2) f (put_le 2 (1 mod 2 ^ 16) @ bs) = f 1 bs" for f :: "nat \<Rightarrow> string gomap option reader" and bs
    by (simp add: le.bind_encode)
  have e: "read_batch_audit_entry (encode_batch_audit_entry (k, v) @ rest) = Inr ((k, []), map byte_of_char v @ rest)"
    unfolding read_batch_audit_entry_def encode_batch_audit_entry_def prod.case append_assoc rd_bind_def [of "read_le_pair 2"] rp
    by (simp add: bind_read_full rd_return_def rd_bind_def read_full_def)
  have "read_audit_row (encode_audit_row (Some [(k, v)]) @ rest) = Inr (Some [(k, [])], map byte_of_char v @ rest)"
    unfolding read_audit_row_def encode_audit_row_def Let_def option.case append_assoc list.size add_0 plus_nat.add_0 One_nat_def [symmetric] one
    by (simp add: rd_bind_def e rd_return_def gm_set_def)
  then show ?thesis by (simp add: v_def)
qed

end
