(* ===== verification/Go_Paths.thy ===== *)
theory Go_Paths
  imports Omni_Prelude
begin

text \<open>
  The part of the package \<^verbatim>\<open>path/filepath\<close> (on a Unix system) that the sources use, and the output file names of
  \<^verbatim>\<open>internal/domain/uri_builder.go\<close>.
\<close>

section \<open>path/filepath\<close>

abbreviation slash :: char where "slash \<equiv> CHR ''/''"

definition split_slash :: "string \<Rightarrow> string list" where
  "split_slash s = foldr (\<lambda>c acc. if c = slash then [] # acc else (case acc of [] \<Rightarrow> [[c]] | a # as \<Rightarrow> (c # a) # as)) s [[]]"

text \<open>One component of the path pushed on the components kept so far, the last one first.\<close>

definition clean_step :: "bool \<Rightarrow> string list \<Rightarrow> string \<Rightarrow> string list" where
  "clean_step rooted st c =
     (if c = [] \<or> c = ''.'' then st
      else if c = ''..'' then
        (case st of [] \<Rightarrow> if rooted then [] else [''..'']
         | d # ds \<Rightarrow> if d = ''..'' then ''..'' # st else ds)
      else c # st)"

definition path_clean :: "string \<Rightarrow> string" where
  "path_clean p = (let rooted = (p \<noteq> [] \<and> hd p = slash);
       comps = rev (foldl (clean_step rooted) [] (split_slash p));
       r = (if rooted then [slash] else []) @ join [slash] comps
     in if r = [] then ''.'' else r)"

definition last_component :: "string \<Rightarrow> string" where
  "last_component p = rev (takeWhile (\<lambda>c. c \<noteq> slash) (rev p))"

definition up_to_last_slash :: "string \<Rightarrow> string" where
  "up_to_last_slash p = rev (dropWhile (\<lambda>c. c \<noteq> slash) (rev p))"

definition path_dir :: "string \<Rightarrow> string" where
  "path_dir p = path_clean (up_to_last_slash p)"

definition path_base :: "string \<Rightarrow> string" where
  "path_base p = (if p = [] then ''.''
     else let q = trim_right_set {slash} p in if q = [] then [slash] else last_component q)"

definition path_ext :: "string \<Rightarrow> string" where
  "path_ext p = (let c = last_component p in
     if CHR ''.'' \<in> set c then CHR ''.'' # rev (takeWhile (\<lambda>x. x \<noteq> CHR ''.'') (rev c)) else [])"

definition path_join :: "string list \<Rightarrow> string" where
  "path_join ps = (let qs = filter (\<lambda>p. p \<noteq> []) ps in if qs = [] then [] else path_clean (join [slash] qs))"

section \<open>BuildOutputURI (uri_builder.go)\<close>

definition or_default :: "'a \<Rightarrow> 'a \<Rightarrow> 'a \<Rightarrow> 'a" where
  "or_default zero v fallback = (if v = zero then fallback else v)"

definition compression_ext :: "string \<Rightarrow> string" where
  "compression_ext c = (let l = to_lower c in
     if l = ''gzip'' then ''.gz'' else if l = ''zstd'' then ''.zst'' else if l = ''snappy'' then ''.snappy'' else [])"

definition encryption_ext :: "string \<Rightarrow> string" where
  "encryption_ext e = (let l = to_lower e in
     if l = ''pgp'' \<or> l = ''gpg'' then ''.pgp'' else if l = ''kms'' then ''.enc'' else [])"

text \<open>The random shard identifier and the clock are arguments.\<close>

definition build_output_uri :: "string \<Rightarrow> int \<Rightarrow> string \<Rightarrow> string \<Rightarrow> string \<Rightarrow> string \<Rightarrow> bool \<Rightarrow> string" where
  "build_output_uri uuid now base_uri ext compression encryption single_file =
     (let base = trim_right_set {slash} base_uri in
      if path_ext base \<noteq> [] then base
      else let lower = to_lower ext;
               e0 = (case lower of [] \<Rightarrow> [] | c # cs \<Rightarrow> if c = CHR ''.'' then cs else lower);
               full = or_default [] e0 ''parquet'' @ compression_ext compression @ encryption_ext encryption
      in if single_file then base @ ''/output.'' @ full
         else base @ ''/shard-'' @ take 8 uuid @ ''-'' @ format_int now @ ''.'' @ full)"

section \<open>Lemmas\<close>

lemma foldr_split_nonempty: "foldr (\<lambda>c acc. if c = slash then [] # acc else (case acc of [] \<Rightarrow> [[c]] | a # as \<Rightarrow> (c # a) # as)) s [[]] \<noteq> []"
  by (induction s) (auto split: list.splits)

lemma split_slash_Cons:
  "split_slash (c # s) = (if c = slash then [] # split_slash s else (c # hd (split_slash s)) # tl (split_slash s))"
  using foldr_split_nonempty [of s] by (cases "split_slash s") (auto simp: split_slash_def)

lemma split_slash_nonempty [simp]: "split_slash s \<noteq> []"
  using foldr_split_nonempty by (simp add: split_slash_def)

lemma split_slash_no_slash: "slash \<notin> set s \<Longrightarrow> split_slash s = [s]"
  by (induction s) (auto simp: split_slash_Cons, simp add: split_slash_def)

lemma split_slash_append: "split_slash (a @ slash # b) = split_slash a @ split_slash b"
  by (induction a) (auto simp: split_slash_Cons, simp add: split_slash_def)

lemma last_component_append: "slash \<notin> set n \<Longrightarrow> last_component (p @ slash # n) = n"
  by (auto simp: last_component_def takeWhile_append)

lemma last_component_id:
  assumes "slash \<notin> set n" shows "last_component n = n"
proof -
  have "takeWhile (\<lambda>c. c \<noteq> slash) (rev n) = rev n"
    by (rule takeWhile_eq_all_conv [THEN iffD2]) (use assms in auto)
  then show ?thesis by (simp only: last_component_def rev_rev_ident)
qed

lemma join_append: "xs \<noteq> [] \<Longrightarrow> join s (xs @ [x]) = join s xs @ s @ x"
  by (induction s xs rule: join.induct) auto

text \<open>The name a path is joined with is its last component.\<close>

lemma last_component_clean:
  assumes "slash \<notin> set n" "n \<notin> {[], ''.'', ''..''}"
  shows "last_component (path_clean (d @ slash # n)) = n"
proof -
  let ?r = "d = [] \<or> hd d = slash"
  obtain st where st: "foldl (clean_step ?r) [] (split_slash (d @ slash # n)) = n # st"
    using assms by (simp add: split_slash_append split_slash_no_slash clean_step_def)
  have rt: "(hd (d @ slash # n) = slash) = ?r" by (cases d) auto
  have "path_clean (d @ slash # n) = (if ?r then [slash] else []) @ join [slash] (rev st @ [n])"
    using assms st rt by (cases "rev st = []") (auto simp: path_clean_def Let_def join_append)
  then show ?thesis using assms last_component_append [of n "[]"] last_component_append [of n]
    by (cases "rev st = []") (auto simp: last_component_id join_append simp flip: append_assoc)
qed

lemma path_join_name:
  assumes "slash \<notin> set n" "n \<notin> {[], ''.'', ''..''}"
  shows "last_component (path_join [d, n]) = n"
proof (cases "d = []")
  case True
  then have "path_join [d, n] = n" using assms
    by (auto simp: path_join_def path_clean_def split_slash_no_slash clean_step_def Let_def)
      (metis hd_in_set)
  then show ?thesis using assms by (simp add: last_component_id)
next
  case False
  then show ?thesis using assms last_component_clean [of n d] by (simp add: path_join_def)
qed

end
