(* ===== verification/Validation.thy ===== *)
theory Validation
  imports Records
begin

text \<open>
  The ingestion stage: \<^verbatim>\<open>internal/beam/core/cast_and_validate.go\<close>, \<^verbatim>\<open>fused_enrich_and_validate.go\<close>,
  \<^verbatim>\<open>audit_enricher.go\<close> and the redaction of \<^verbatim>\<open>pkg/telemetry/sanitizer.go\<close>. One element is processed
  into the three output streams (valid, dead letter, audit) and the counter increments; the result is
  \<^term>\<open>None\<close> where Go would panic. The clock is an argument and is read once per element.

  Shown here: no element is lost or duplicated, what reaches the valid stream conforms to the schema,
  the fused stage equals enrichment followed by validation, and which parts of a dead letter are
  independent of the sensitive fields.
\<close>

section \<open>Sanitizer (pkg/telemetry/sanitizer.go)\<close>

definition default_sensitive_keywords :: "string list" where
  "default_sensitive_keywords =
     [''password'', ''secret'', ''token'', ''apikey'', ''api_key'', ''auth'', ''credential'', ''private_key'']"

definition is_sensitive_key :: "string \<Rightarrow> string list \<Rightarrow> bool" where
  "is_sensitive_key key custom = (let norm = to_lower (trim_space key) in
     list_ex (\<lambda>kw. contains norm kw) default_sensitive_keywords \<or>
     list_ex (\<lambda>c. norm = to_lower (trim_space c)) custom)"

definition redacted :: string where "redacted = ''[REDACTED]''"

definition sanitize_value :: "string \<Rightarrow> go_any \<Rightarrow> string list \<Rightarrow> go_any" where
  "sanitize_value key val custom = (if is_sensitive_key key custom then GoString redacted else val)"

text \<open>
  \<^verbatim>\<open>SanitizePayload\<close> replaces every leftmost match of a quoted key, a colon and a quoted value. Since
  neither the key nor the value may hold a quote, a match from a given position is unique:
  \<open>match_pair\<close> is the part after the key, \<open>key_end\<close> what follows the closing quote of the key.
  Letters are compared without case, as the flag \<^verbatim>\<open>(?i)\<close> asks (ASCII letters).
\<close>

definition quote_char :: char where "quote_char = CHR 0x22"

definition re_space :: "char \<Rightarrow> bool" where
  "re_space c \<longleftrightarrow> (of_char c :: nat) \<in> {9, 10, 12, 13, 32}"

definition match_pair :: "string \<Rightarrow> string option" where
  "match_pair s = (case dropWhile re_space s of
      c # s1 \<Rightarrow> if c \<noteq> CHR '':'' then None else
        (case dropWhile re_space s1 of
           q # s2 \<Rightarrow>
             if q \<noteq> quote_char then None
             else let v = takeWhile (\<lambda>c. c \<noteq> quote_char) s2; r = dropWhile (\<lambda>c. c \<noteq> quote_char) s2 in
               if v = [] \<or> r = [] then None else Some (tl r)
         | [] \<Rightarrow> None)
    | [] \<Rightarrow> None)"

definition json_secret_keywords :: "string list" where
  "json_secret_keywords =
     [''password'', ''secret'', ''token'', ''apikey'', ''api_key'', ''auth'', ''credential'', ''cpf'']"

definition match_json_secret :: "string \<Rightarrow> (string \<times> string) option" where
  "match_json_secret s = (case s of
      [] \<Rightarrow> None
    | c # s1 \<Rightarrow>
        if c \<noteq> quote_char then None
        else let key = takeWhile (\<lambda>c. c \<noteq> quote_char) s1; r = dropWhile (\<lambda>c. c \<noteq> quote_char) s1 in
          if r = [] \<or> \<not> list_ex (\<lambda>kw. contains (to_lower key) kw) json_secret_keywords then None
          else map_option (Pair key) (match_pair (tl r)))"

definition match_custom :: "string \<Rightarrow> string \<Rightarrow> (string \<times> string) option" where
  "match_custom custom s = (case s of
      [] \<Rightarrow> None
    | c # s1 \<Rightarrow>
        if c \<noteq> quote_char then None
        else let n = length custom; key = take n s1; r = drop n s1 in
          if to_lower key \<noteq> to_lower custom \<or> r = [] \<or> hd r \<noteq> quote_char then None
          else map_option (Pair key) (match_pair (tl r)))"

fun replace_all :: "(string \<Rightarrow> (string \<times> string) option) \<Rightarrow> string \<Rightarrow> string" where
  "replace_all matcher s = (case s of
      [] \<Rightarrow> []
    | c # s1 \<Rightarrow>
        (case matcher s of
           Some (key, rest) \<Rightarrow>
             if length rest < length s
             then [quote_char] @ key @ [quote_char] @ '':'' @ [quote_char] @ redacted @ [quote_char] @
               replace_all matcher rest
             else c # replace_all matcher s1
         | None \<Rightarrow> c # replace_all matcher s1))"

declare replace_all.simps [simp del]

definition sanitize_payload :: "string \<Rightarrow> string list \<Rightarrow> string" where
  "sanitize_payload payload custom =
     foldl (\<lambda>res c. if c = [] then res else replace_all (match_custom c) res)
       (replace_all match_json_secret payload) custom"

section \<open>Casting plans (cast_and_validate.go)\<close>

datatype plan_result = PlanPanic | PlanFail string string string | PlanOk generic_record

definition plan_ok :: "generic_record option \<Rightarrow> plan_result" where
  "plan_ok r = (case r of None \<Rightarrow> PlanPanic | Some r \<Rightarrow> PlanOk r)"

definition fail_null :: "go_env \<Rightarrow> field \<Rightarrow> plan_result" where
  "fail_null env f = PlanFail (field_name f)
     (field_validation_error env (field_name f) [] (field_type f) err_null_constraint) []"

definition fail_cast :: "go_env \<Rightarrow> field \<Rightarrow> string \<Rightarrow> coerce_error \<Rightarrow> plan_result" where
  "fail_cast env f str err = PlanFail (field_name f)
     (field_validation_error env (field_name f) str (field_type f)
        (err_type_cast_failed @ '': '' @ coerce_error_text env err)) str"

text \<open>The branch every plan takes on a null: an error for a required field, else a typed null.\<close>

definition null_branch :: "go_env \<Rightarrow> field \<Rightarrow> data_type \<Rightarrow> generic_record \<Rightarrow> nat \<Rightarrow> plan_result" where
  "null_branch env f t validated i =
     (if \<not> nullable f then fail_null env f else plan_ok (set_null validated i t))"

type_synonym field_casting_plan = "field_value option \<Rightarrow> generic_record \<Rightarrow> nat \<Rightarrow> field \<Rightarrow> plan_result"

definition int64_plan :: "go_env \<Rightarrow> field_casting_plan" where
  "int64_plan env raw validated i f = (case raw of
      None \<Rightarrow> null_branch env f TypeInt64 validated i
    | Some v \<Rightarrow>
        if is_null v then null_branch env f TypeInt64 validated i
        else if fv_type v = TypeInt64 then plan_ok (set_value validated i v)
        else if fv_type v = TypeFloat64 then plan_ok (set_int64 validated i (f64_to_i64 env (float64_val v)))
        else let str = fv_string env v in
          if str = [] then null_branch env f TypeInt64 validated i
          else (case coerce_int64_fast str of
              Inl e \<Rightarrow> fail_cast env f str e
            | Inr x \<Rightarrow> plan_ok (set_int64 validated i x)))"

definition decimal_plan :: "go_env \<Rightarrow> int \<Rightarrow> string \<Rightarrow> field_casting_plan" where
  "decimal_plan env sc overflow raw validated i f = (case raw of
      None \<Rightarrow> null_branch env f TypeDecimal validated i
    | Some v \<Rightarrow>
        if is_null v then null_branch env f TypeDecimal validated i
        else if fv_type v = TypeDecimal \<and> scale v = sc then plan_ok (set_value validated i v)
        else if fv_type v = TypeInt64 then plan_ok (set_decimal validated i (int64_val v) 0)
        else let str = fv_string env v in
          if str = [] then null_branch env f TypeDecimal validated i
          else (case coerce_decimal_fast str sc overflow of
              Inl e \<Rightarrow> fail_cast env f str e
            | Inr (m, s) \<Rightarrow> plan_ok (set_decimal validated i m s)))"

definition float64_plan :: "go_env \<Rightarrow> field_casting_plan" where
  "float64_plan env raw validated i f = (case raw of
      None \<Rightarrow> null_branch env f TypeFloat64 validated i
    | Some v \<Rightarrow>
        if is_null v then null_branch env f TypeFloat64 validated i
        else if fv_type v = TypeFloat64 then plan_ok (set_value validated i v)
        else if fv_type v = TypeInt64 then plan_ok (set_float64 validated i (f64_of_i64 env (int64_val v)))
        else let str = fv_string env v in
          if str = [] then null_branch env f TypeFloat64 validated i
          else (case coerce_float64_fast env str of
              Inl e \<Rightarrow> fail_cast env f str e
            | Inr x \<Rightarrow> plan_ok (set_float64 validated i x)))"

definition bool_plan :: "go_env \<Rightarrow> field_casting_plan" where
  "bool_plan env raw validated i f = (case raw of
      None \<Rightarrow> null_branch env f TypeBool validated i
    | Some v \<Rightarrow>
        if is_null v then null_branch env f TypeBool validated i
        else if fv_type v = TypeBool then plan_ok (set_value validated i v)
        else let str = fv_string env v in
          if str = [] then null_branch env f TypeBool validated i
          else (case coerce_bool_fast str of
              Inl e \<Rightarrow> fail_cast env f str e
            | Inr x \<Rightarrow> plan_ok (set_bool validated i x)))"

definition timestamp_plan :: "go_env \<Rightarrow> field_casting_plan" where
  "timestamp_plan env raw validated i f = (case raw of
      None \<Rightarrow> null_branch env f TypeTimestamp validated i
    | Some v \<Rightarrow>
        if is_null v then null_branch env f TypeTimestamp validated i
        else if fv_type v = TypeTimestamp then plan_ok (set_value validated i v)
        else let str = fv_string env v in
          if str = [] then null_branch env f TypeTimestamp validated i
          else (case coerce_timestamp_fast env str of
              Inl e \<Rightarrow> fail_cast env f str e
            | Inr t \<Rightarrow> plan_ok (set_timestamp validated i t)))"

definition bytes_plan :: "go_env \<Rightarrow> field_casting_plan" where
  "bytes_plan env raw validated i f = (case raw of
      None \<Rightarrow> null_branch env f TypeBytes validated i
    | Some v \<Rightarrow>
        if is_null v then null_branch env f TypeBytes validated i
        else plan_ok (set_bytes validated i (fv_string env v)))"

definition string_plan :: "go_env \<Rightarrow> field_casting_plan" where
  "string_plan env raw validated i f = (case raw of
      None \<Rightarrow> null_branch env f TypeString validated i
    | Some v \<Rightarrow>
        if is_null v then null_branch env f TypeString validated i
        else plan_ok (set_string validated i (fv_string env v)))"

definition compile_field_plan :: "go_env \<Rightarrow> field \<Rightarrow> field_casting_plan" where
  "compile_field_plan env fld = (case field_type fld of
      TypeInt64 \<Rightarrow> int64_plan env
    | TypeDecimal \<Rightarrow> decimal_plan env (field_scale fld) (on_overflow fld)
    | TypeFloat64 \<Rightarrow> float64_plan env
    | TypeBool \<Rightarrow> bool_plan env
    | TypeTimestamp \<Rightarrow> timestamp_plan env
    | TypeBytes \<Rightarrow> bytes_plan env
    | _ \<Rightarrow> string_plan env)"

section \<open>CastAndValidateFn\<close>

record quality_rule =
  rule_type :: string
  rule_column :: string
  rule_values :: "string list"
  rule_value :: int

record cast_and_validate_fn =
  cv_schema :: schema
  cv_rules :: "quality_rule list"
  cv_sensitive :: "string list"
  cv_plan :: "field_casting_plan list option"

text \<open>What processing one element emits: the three output streams in emission order, and the
  increments of the three Beam counters.\<close>

record outputs =
  out_valid :: "generic_record list"
  out_dlq :: "dead_letter_record list"
  out_audit :: "audit_record list"
  cnt_valid :: nat
  cnt_dlq :: nat
  cnt_audit :: nat

definition no_outputs :: outputs where
  "no_outputs = \<lparr>out_valid = [], out_dlq = [], out_audit = [], cnt_valid = 0, cnt_dlq = 0, cnt_audit = 0\<rparr>"

definition cv_setup :: "go_env \<Rightarrow> cast_and_validate_fn \<Rightarrow> cast_and_validate_fn" where
  "cv_setup env fn = (let s = schema_index (cv_schema fn) in
     fn\<lparr>cv_schema := s, cv_plan := Some (map (compile_field_plan env) (sch_fields s))\<rparr>)"

definition new_cast_and_validate_fn ::
  "go_env \<Rightarrow> schema \<Rightarrow> quality_rule list \<Rightarrow> string list \<Rightarrow> cast_and_validate_fn" where
  "new_cast_and_validate_fn env s rules sens =
     cv_setup env \<lparr>cv_schema = s, cv_rules = rules, cv_sensitive = sens, cv_plan = None\<rparr>"

text \<open>The payload of a dead letter: \<^verbatim>\<open>fmt.Sprintf("%v", vals)\<close> of the rendered values, those of
  sensitive columns replaced first, then \<^verbatim>\<open>SanitizePayload\<close> over the whole.\<close>

fun payload_values :: "go_env \<Rightarrow> field list \<Rightarrow> string list \<Rightarrow> nat \<Rightarrow> field_value list \<Rightarrow> string list" where
  "payload_values env fs sens idx [] = []"
| "payload_values env fs sens idx (v # vs) =
     (if idx < length fs \<and> is_sensitive_key (field_name (fs ! idx)) sens then redacted
      else fv_string env v) # payload_values env fs sens (Suc idx) vs"

definition dlq_payload :: "go_env \<Rightarrow> field list \<Rightarrow> string list \<Rightarrow> field_value list \<Rightarrow> string" where
  "dlq_payload env fs sens vs =
     sanitize_payload (''['' @ join '' '' (payload_values env fs sens 0 vs) @ '']'') sens"

definition fail_outputs ::
  "go_env \<Rightarrow> int \<Rightarrow> field list \<Rightarrow> string list \<Rightarrow> generic_record \<Rightarrow> string \<Rightarrow> string \<Rightarrow> string \<Rightarrow> outputs" where
  "fail_outputs env now fs sens rec col msg sample =
     no_outputs
       \<lparr>out_dlq := [\<lparr>raw_payload = dlq_payload env fs sens (vals rec), error_message = msg,
                     failed_column = col, source_file = gm_get (audit_fields rec) ''_source_file'',
                     failed_at = now\<rparr>],
        out_audit := [new_audit_record now ''type_cast_failure'' SeverityError col ''type_cast'' msg
                        (if is_sensitive_key col sens then redacted else sample)],
        cnt_dlq := 1, cnt_audit := 1\<rparr>"

fun run_plans ::
  "field_value list \<Rightarrow> nat \<Rightarrow> (field_casting_plan \<times> field) list \<Rightarrow> generic_record \<Rightarrow> plan_result" where
  "run_plans vs i [] validated = PlanOk validated"
| "run_plans vs i ((plan, f) # ps) validated =
     (case plan (if i < length vs then Some (vs ! i) else None) validated i f of
        PlanOk validated' \<Rightarrow> run_plans vs (Suc i) ps validated'
      | other \<Rightarrow> other)"

text \<open>The soft quality rules: one warning per rule and matching null column.\<close>

fun column_warnings ::
  "go_env \<Rightarrow> int \<Rightarrow> quality_rule \<Rightarrow> nat \<Rightarrow> field list \<Rightarrow> generic_record \<Rightarrow> audit_record list" where
  "column_warnings env now rule i [] validated = []"
| "column_warnings env now rule i (f # fs) validated =
     (if field_name f = rule_column rule \<and> i < length (vals validated) \<and> is_null (vals validated ! i)
      then [new_audit_record now ''quality_warning'' SeverityWarning (field_name f) (rule_type rule)
              (''soft quality warning: column '' @ go_quote env (field_name f) @ '' is null'') []]
      else []) @ column_warnings env now rule (Suc i) fs validated"

definition quality_warnings ::
  "go_env \<Rightarrow> int \<Rightarrow> quality_rule list \<Rightarrow> field list \<Rightarrow> generic_record \<Rightarrow> audit_record list" where
  "quality_warnings env now rules fs validated =
     concat (map (\<lambda>rule. if rule_type rule = ''not_null'' \<and> rule_column rule \<noteq> []
                         then column_warnings env now rule 0 fs validated else []) rules)"

definition setup_violation :: "int \<Rightarrow> string \<Rightarrow> string \<Rightarrow> outputs" where
  "setup_violation now dlq_msg audit_msg =
     no_outputs
       \<lparr>out_dlq := [\<lparr>raw_payload = [], error_message = dlq_msg, failed_column = ''_setup'',
                     source_file = [], failed_at = now\<rparr>],
        out_audit := [new_audit_record now ''lifecycle_violation'' SeverityError ''_setup''
                        ''beam_lifecycle'' audit_msg []]\<rparr>"

definition em_dash :: string where
  "em_dash = map char_of [226, 128, 148 :: nat]"

text \<open>The part of \<^verbatim>\<open>ProcessElement\<close> that the two DoFns share, for the record \<open>rec\<close> whose values are
  validated and whose audit fields are passed on.\<close>

definition validate_record ::
  "go_env \<Rightarrow> int \<Rightarrow> field list \<Rightarrow> quality_rule list \<Rightarrow> string list \<Rightarrow> field_casting_plan list \<Rightarrow>
   generic_record \<Rightarrow> outputs option" where
  "validate_record env now fs rules sens plans rec =
     (let validated = (new_generic_record (schema_id rec) (length fs))\<lparr>audit_fields := audit_fields rec\<rparr> in
      case run_plans (vals rec) 0 (zip plans fs) validated of
        PlanPanic \<Rightarrow> None
      | PlanFail col msg sample \<Rightarrow> Some (fail_outputs env now fs sens rec col msg sample)
      | PlanOk v \<Rightarrow>
          let ws = quality_warnings env now rules fs v in
          Some (no_outputs\<lparr>out_valid := [v], out_audit := ws, cnt_valid := 1, cnt_audit := length ws\<rparr>))"

definition cv_process_element :: "go_env \<Rightarrow> int \<Rightarrow> cast_and_validate_fn \<Rightarrow> generic_record \<Rightarrow> outputs option" where
  "cv_process_element env now fn rec =
     (case cv_plan fn of
        None \<Rightarrow> Some (setup_violation now
          (''CastAndValidateFn: plan not compiled '' @ em_dash @ '' Setup() must be called before ProcessElement()'')
          (''CastAndValidateFn.ProcessElement called without prior Setup '' @ em_dash @
            '' check beam.RegisterDoFn and beam.RegisterInit''))
      | Some plans \<Rightarrow> validate_record env now (sch_fields (cv_schema fn)) (cv_rules fn) (cv_sensitive fn) plans rec)"

section \<open>AuditEnricherFn (audit_enricher.go)\<close>

definition stamp_ingested :: "go_env \<Rightarrow> int \<Rightarrow> string gomap \<Rightarrow> string gomap" where
  "stamp_ingested env now m =
     (if gm_has m ''_ingested_at'' then m else gm_set m ''_ingested_at'' (time_format_rfc3339 env now))"

definition ae_process_element :: "go_env \<Rightarrow> int \<Rightarrow> generic_record option \<Rightarrow> generic_record list" where
  "ae_process_element env now rec = (case rec of
      None \<Rightarrow> []
    | Some r \<Rightarrow> [\<lparr>schema_id = schema_id r, vals = vals r,
                  audit_fields = stamp_ingested env now (audit_fields r)\<rparr>])"

section \<open>FusedEnrichAndValidateFn (fused_enrich_and_validate.go)\<close>

record fused_fn =
  fu_schema :: schema
  fu_rules :: "quality_rule list"
  fu_sensitive :: "string list"
  fu_job_id :: string
  fu_execution_id :: string
  fu_plan :: "field_casting_plan list option"

definition fu_setup :: "go_env \<Rightarrow> fused_fn \<Rightarrow> fused_fn" where
  "fu_setup env fn =
     (let s = schema_index (fu_schema fn);
          cv = cv_setup env \<lparr>cv_schema = s, cv_rules = fu_rules fn, cv_sensitive = fu_sensitive fn, cv_plan = None\<rparr>
      in fn\<lparr>fu_schema := s, fu_plan := cv_plan cv\<rparr>)"

definition new_fused_fn ::
  "go_env \<Rightarrow> schema \<Rightarrow> string \<Rightarrow> string \<Rightarrow> quality_rule list \<Rightarrow> string list \<Rightarrow> fused_fn" where
  "new_fused_fn env s job exec rules sens =
     fu_setup env \<lparr>fu_schema = s, fu_rules = rules, fu_sensitive = sens, fu_job_id = job,
                   fu_execution_id = exec, fu_plan = None\<rparr>"

definition fu_enrich :: "go_env \<Rightarrow> int \<Rightarrow> fused_fn \<Rightarrow> generic_record \<Rightarrow> generic_record" where
  "fu_enrich env now fn rec =
     (let a0 = stamp_ingested env now (audit_fields rec);
          a1 = (if fu_job_id fn \<noteq> [] then gm_set a0 ''_job_id'' (fu_job_id fn) else a0);
          a2 = (if fu_execution_id fn \<noteq> [] then gm_set a1 ''_execution_id'' (fu_execution_id fn) else a1)
      in \<lparr>schema_id = schema_id rec, vals = vals rec, audit_fields = a2\<rparr>)"

definition fu_process_element :: "go_env \<Rightarrow> int \<Rightarrow> fused_fn \<Rightarrow> generic_record option \<Rightarrow> outputs option" where
  "fu_process_element env now fn rec =
     (case rec of
        None \<Rightarrow> Some no_outputs
      | Some r \<Rightarrow>
          (case fu_plan fn of
             None \<Rightarrow> Some (setup_violation now
               (''FusedEnrichAndValidateFn: plan not compiled '' @ em_dash @
                 '' Setup() must be called before ProcessElement()'')
               ''FusedEnrichAndValidateFn.ProcessElement called without prior Setup'')
           | Some plans \<Rightarrow>
               validate_record env now (sch_fields (fu_schema fn)) (fu_rules fn) (fu_sensitive fn) plans
                 (fu_enrich env now fn r)))"

section \<open>Lemmas\<close>

definition plan_type :: "field \<Rightarrow> data_type" where
  "plan_type f = (if field_type f \<in> {TypeInt64, TypeDecimal, TypeFloat64, TypeBool, TypeTimestamp, TypeBytes}
     then field_type f else TypeString)"

definition conforms :: "field \<Rightarrow> field_value \<Rightarrow> bool" where
  "conforms f v \<longleftrightarrow> fv_type v = plan_type f \<and> (is_null v \<longrightarrow> nullable f)"

definition conforming :: "field list \<Rightarrow> field_value list \<Rightarrow> bool" where
  "conforming fs vs \<longleftrightarrow> length vs = length fs \<and> list_all2 conforms fs vs"

lemmas setter_defs = set_null_def set_string_def set_int64_def set_float64_def set_bool_def
  set_timestamp_def set_bytes_def set_decimal_def

lemmas plan_defs = int64_plan_def decimal_plan_def float64_plan_def bool_plan_def timestamp_plan_def
  bytes_plan_def string_plan_def

text \<open>How a plan may end on field \<open>f\<close>: the field's own error, or its value written at its position.\<close>

definition plan_step_ok :: "field \<Rightarrow> nat \<Rightarrow> generic_record \<Rightarrow> plan_result \<Rightarrow> bool" where
  "plan_step_ok f i validated res = (case res of
      PlanPanic \<Rightarrow> False
    | PlanFail col msg sample \<Rightarrow> col = field_name f
    | PlanOk v \<Rightarrow> \<exists>x. v = validated\<lparr>vals := (vals validated)[i := x]\<rparr> \<and> conforms f x)"

lemma plan_step_ok_Ok:
  "i < length (vals validated) \<Longrightarrow> conforms f x \<Longrightarrow> plan_step_ok f i validated (plan_ok (set_value validated i x))"
  by (auto simp: plan_step_ok_def plan_ok_def set_value_Some)

lemma plan_step_ok_fail [simp]:
  "plan_step_ok f i validated (fail_null env f)" "plan_step_ok f i validated (fail_cast env f str e)"
  by (simp_all add: plan_step_ok_def fail_null_def fail_cast_def)

lemma plan_step_ok_null:
  "i < length (vals validated) \<Longrightarrow> t = plan_type f \<Longrightarrow> plan_step_ok f i validated (null_branch env f t validated i)"
  by (auto simp: null_branch_def setter_defs conforms_def intro!: plan_step_ok_Ok)

lemma compile_field_plan_step:
  assumes "i < length (vals validated)"
  shows "plan_step_ok f i validated (compile_field_plan env f raw validated i f)"
  using assms
  by (cases "field_type f"; cases raw)
    (auto simp: compile_field_plan_def plan_defs setter_defs conforms_def plan_type_def Let_def zero_value_def
      split: sum.splits intro!: plan_step_ok_Ok plan_step_ok_null)

lemma run_plans_cases:
  assumes "i + length fs = length (vals validated)"
  shows "case run_plans vs i (zip (map (compile_field_plan env) fs) fs) validated of
      PlanPanic \<Rightarrow> False
    | PlanFail col msg sample \<Rightarrow> col \<in> field_name ` set fs
    | PlanOk v \<Rightarrow> \<exists>xs. v = validated\<lparr>vals := take i (vals validated) @ xs\<rparr> \<and> list_all2 conforms fs xs"
  using assms
proof (induction fs arbitrary: i validated)
  case Nil
  then show ?case by simp
next
  case (Cons f fs)
  let ?res = "compile_field_plan env f (if i < length vs then Some (vs ! i) else None) validated i f"
  have i: "i < length (vals validated)" using Cons.prems by simp
  have step: "plan_step_ok f i validated ?res" using i by (rule compile_field_plan_step)
  show ?case
  proof (cases ?res)
    case PlanPanic
    with step show ?thesis by (simp add: plan_step_ok_def)
  next
    case (PlanFail col msg sample)
    with step show ?thesis by (simp add: plan_step_ok_def)
  next
    case (PlanOk v)
    with step obtain x where v: "v = validated\<lparr>vals := (vals validated)[i := x]\<rparr>" and x: "conforms f x"
      by (auto simp: plan_step_ok_def)
    have len: "Suc i + length fs = length (vals v)" using Cons.prems by (simp add: v)
    have tk: "take (Suc i) (vals v) = take i (vals validated) @ [x]"
      using i by (simp add: v take_Suc_conv_app_nth take_update_cancel)
    show ?thesis
    proof (cases "run_plans vs (Suc i) (zip (map (compile_field_plan env) fs) fs) v")
      case PlanPanic
      then show ?thesis using Cons.IH [OF len] by simp
    next
      case (PlanFail col msg sample)
      then show ?thesis using Cons.IH [OF len] PlanOk by simp
    next
      case (PlanOk w)
      then obtain xs where w: "w = v\<lparr>vals := take (Suc i) (vals v) @ xs\<rparr>" and xs: "list_all2 conforms fs xs"
        using Cons.IH [OF len] by auto
      have "w = validated\<lparr>vals := take i (vals validated) @ (x # xs)\<rparr>"
        unfolding w tk by (simp add: v)
      moreover have "list_all2 conforms (f # fs) (x # xs)" using x xs by simp
      ultimately show ?thesis using PlanOk \<open>?res = plan_result.PlanOk v\<close> by auto
    qed
  qed
qed

text \<open>The two ways an element can leave the stage.\<close>

inductive stage_result :: "field list \<Rightarrow> generic_record \<Rightarrow> outputs \<Rightarrow> bool" for fs rec where
  routed_valid: "conforming fs (vals v) \<Longrightarrow> schema_id v = schema_id rec \<Longrightarrow>
    audit_fields v = audit_fields rec \<Longrightarrow> out_valid o' = [v] \<Longrightarrow> out_dlq o' = [] \<Longrightarrow>
    cnt_valid o' = 1 \<Longrightarrow> cnt_dlq o' = 0 \<Longrightarrow> cnt_audit o' = length (out_audit o') \<Longrightarrow>
    list_all (\<lambda>a. severity a = SeverityWarning) (out_audit o') \<Longrightarrow> stage_result fs rec o'"
| routed_dlq: "out_valid o' = [] \<Longrightarrow> out_dlq o' = [d] \<Longrightarrow> failed_column d \<in> field_name ` set fs \<Longrightarrow>
    source_file d = gm_get (audit_fields rec) ''_source_file'' \<Longrightarrow>
    cnt_valid o' = 0 \<Longrightarrow> cnt_dlq o' = 1 \<Longrightarrow> cnt_audit o' = length (out_audit o') \<Longrightarrow>
    out_audit o' = [a] \<Longrightarrow> severity a = SeverityError \<Longrightarrow> column_name a = failed_column d \<Longrightarrow>
    stage_result fs rec o'"

inductive_cases stage_resultE: "stage_result fs rec o'"

lemma column_warnings_severity:
  "list_all (\<lambda>a. severity a = SeverityWarning) (column_warnings env now rule i fs v)"
  by (induction fs arbitrary: i) (auto simp: new_audit_record_def)

lemma quality_warnings_severity:
  "list_all (\<lambda>a. severity a = SeverityWarning) (quality_warnings env now rules fs v)"
  using column_warnings_severity by (fastforce simp: quality_warnings_def list_all_iff)

lemma validate_record_stage:
  "\<exists>o'. validate_record env now fs rules sens (map (compile_field_plan env) fs) rec = Some o' \<and>
    stage_result fs rec o'"
proof -
  let ?v0 = "(new_generic_record (schema_id rec) (length fs))\<lparr>audit_fields := audit_fields rec\<rparr>"
  let ?run = "run_plans (vals rec) 0 (zip (map (compile_field_plan env) fs) fs) ?v0"
  have len: "0 + length fs = length (vals ?v0)" by (simp add: new_generic_record_def)
  note cs = run_plans_cases [OF len, of "vals rec" env]
  show ?thesis
  proof (cases ?run)
    case PlanPanic
    with cs show ?thesis by simp
  next
    case (PlanFail col msg sample)
    with cs have "stage_result fs rec (fail_outputs env now fs sens rec col msg sample)"
      by (intro stage_result.routed_dlq) (auto simp: fail_outputs_def no_outputs_def new_audit_record_def)
    with PlanFail show ?thesis by (simp add: validate_record_def)
  next
    case (PlanOk v)
    with cs obtain xs where v: "v = ?v0\<lparr>vals := xs\<rparr>" "list_all2 conforms fs xs" by auto
    let ?o = "no_outputs\<lparr>out_valid := [v], out_audit := quality_warnings env now rules fs v,
      cnt_valid := 1, cnt_audit := length (quality_warnings env now rules fs v)\<rparr>"
    have "stage_result fs rec ?o"
      by (rule stage_result.routed_valid [where v = v])
        (use v in \<open>auto simp: conforming_def no_outputs_def quality_warnings_severity
           new_generic_record_def dest: list_all2_lengthD\<close>)
    with PlanOk show ?thesis by (auto simp: validate_record_def Let_def)
  qed
qed

lemma sch_fields_index [simp]: "sch_fields (schema_index s) = sch_fields s"
  by (simp add: schema_index_def)

lemma cv_process_new:
  "cv_process_element env now (new_cast_and_validate_fn env s rules sens) rec =
     validate_record env now (sch_fields s) rules sens (map (compile_field_plan env) (sch_fields s)) rec"
  by (simp add: cv_process_element_def new_cast_and_validate_fn_def cv_setup_def Let_def)

lemma fu_process_new:
  "fu_process_element env now (new_fused_fn env s job exec rules sens) (Some r) =
     validate_record env now (sch_fields s) rules sens (map (compile_field_plan env) (sch_fields s))
       (fu_enrich env now (new_fused_fn env s job exec rules sens) r)"
  by (simp add: fu_process_element_def new_fused_fn_def fu_setup_def cv_setup_def Let_def)

text \<open>The audit entries that identify the run, as the two steps of the fused stage write them.\<close>

definition stamp_run :: "string \<Rightarrow> string \<Rightarrow> generic_record \<Rightarrow> generic_record" where
  "stamp_run job exec r =
     (let a1 = (if job \<noteq> [] then gm_set (audit_fields r) ''_job_id'' job else audit_fields r);
          a2 = (if exec \<noteq> [] then gm_set a1 ''_execution_id'' exec else a1)
      in r\<lparr>audit_fields := a2\<rparr>)"

text \<open>Two lists of raw values that differ at most in the sensitive columns.\<close>

definition same_public :: "field list \<Rightarrow> string list \<Rightarrow> field_value list \<Rightarrow> field_value list \<Rightarrow> bool" where
  "same_public fs sens vs vs' \<longleftrightarrow> length vs = length vs' \<and>
     list_all (\<lambda>i. vs ! i = vs' ! i \<or> i < length fs \<and> is_sensitive_key (field_name (fs ! i)) sens) [0..<length vs]"

lemma payload_values_nth:
  "i < length vs \<Longrightarrow> payload_values env fs sens k vs ! i =
     (if k + i < length fs \<and> is_sensitive_key (field_name (fs ! (k + i))) sens then redacted
      else fv_string env (vs ! i))"
  by (induction vs arbitrary: i k) (auto simp: nth_Cons split: nat.splits)

lemma length_payload_values [simp]: "length (payload_values env fs sens k vs) = length vs"
  by (induction vs arbitrary: k) auto

lemma dlq_payload_public:
  assumes "same_public fs sens vs vs'"
  shows "dlq_payload env fs sens vs = dlq_payload env fs sens vs'"
proof -
  have "payload_values env fs sens 0 vs = payload_values env fs sens 0 vs'"
  proof (rule nth_equalityI)
    fix i assume "i < length (payload_values env fs sens 0 vs)"
    then show "payload_values env fs sens 0 vs ! i = payload_values env fs sens 0 vs' ! i"
      using assms by (auto simp: same_public_def payload_values_nth list_all_iff Ball_def)
  qed (use assms in \<open>simp add: same_public_def\<close>)
  then show ?thesis by (simp add: dlq_payload_def)
qed

lemma validate_record_dlq:
  assumes "validate_record env now fs rules sens plans rec = Some o'" "out_dlq o' = [d]"
  obtains col msg sample where "o' = fail_outputs env now fs sens rec col msg sample"
    "run_plans (vals rec) 0 (zip plans fs)
       ((new_generic_record (schema_id rec) (length fs))\<lparr>audit_fields := audit_fields rec\<rparr>) = PlanFail col msg sample"
  using assms by (auto simp: validate_record_def no_outputs_def Let_def split: plan_result.splits)

section \<open>Properties\<close>

text \<open>C19. Every element of the validation stage is routed exactly once, and no element makes the stage
  panic: it leaves either as one valid record that conforms to the schema (one value per field, of the
  field's type, null only where the field allows it) and keeps the element's schema id and audit fields,
  with warnings only; or as one dead letter that names a column of the schema, with one error audit event
  for the same column. The counters agree with what is emitted.\<close>

theorem cv_element_routed_once:
  "\<exists>o'. cv_process_element env now (new_cast_and_validate_fn env s rules sens) rec = Some o' \<and>
    stage_result (sch_fields s) rec o'"
  unfolding cv_process_new by (rule validate_record_stage)


text \<open>C23. The payload stored with a dead letter does not depend on the sensitive columns: two elements that
  differ only in columns the sanitizer marks as sensitive, and are both dead-lettered, get the same
  RawPayload, and the audit sample of a sensitive column is the redaction mark.\<close>

theorem dead_letter_payload_hides_sensitive:
  assumes "cv_process_element env now (new_cast_and_validate_fn env s rules sens) rec = Some o1"
    and "cv_process_element env now (new_cast_and_validate_fn env s rules sens) rec' = Some o2"
    and "out_dlq o1 = [d1]" "out_dlq o2 = [d2]"
    and "same_public (sch_fields s) sens (vals rec) (vals rec')"
  shows "raw_payload d1 = raw_payload d2 \<and>
    list_all (\<lambda>a. is_sensitive_key (column_name a) sens \<longrightarrow> sample_value a = redacted) (out_audit o1)"
proof -
  obtain c1 m1 x1 where 1: "o1 = fail_outputs env now (sch_fields s) sens rec c1 m1 x1"
    using assms(1,3) unfolding cv_process_new by (rule validate_record_dlq)
  obtain c2 m2 x2 where 2: "o2 = fail_outputs env now (sch_fields s) sens rec' c2 m2 x2"
    using assms(2,4) unfolding cv_process_new by (rule validate_record_dlq)
  show ?thesis
    using dlq_payload_public [OF assms(5)] assms(3,4) 1 2
    by (auto simp: fail_outputs_def no_outputs_def new_audit_record_def)
qed

definition secret_schema :: schema where
  "secret_schema = \<lparr>sch_fields = [zero_field\<lparr>field_name := ''password'', field_type := TypeInt64\<rparr>], name_idx = None\<rparr>"

definition secret_record :: "string \<Rightarrow> generic_record" where
  "secret_record v = \<lparr>schema_id = ''s'', vals = [zero_value\<lparr>fv_type := TypeString, str_val := v\<rparr>], audit_fields = []\<rparr>"

lemma int64_cast_failure_outputs:
  assumes "sch_fields s = f # fs" "field_type f = TypeInt64" "vals rec = v # vs"
    and "\<not> is_null v" "fv_type v = TypeString" "str_val v \<noteq> []" "coerce_int64_fast (str_val v) = Inl e"
  shows "cv_process_element env now (new_cast_and_validate_fn env s rules sens) rec =
     Some (fail_outputs env now (f # fs) sens rec (field_name f)
       (field_validation_error env (field_name f) (str_val v) TypeInt64
          (err_type_cast_failed @ '': '' @ coerce_error_text env e)) (str_val v))"
  unfolding cv_process_new using assms
  by (simp add: validate_record_def compile_field_plan_def int64_plan_def fv_string_def fail_cast_def Let_def)

lemma secret_fails:
  "coerce_int64_fast ''x'' = Inl (CoerceNum ErrInvalidInt)" "coerce_int64_fast ''y'' = Inl (CoerceNum ErrInvalidInt)"
  by (simp_all add: coerce_int64_fast_def parse_int64_def trim_space_visible ascii_visible_def is_digit_def Let_def)

lemma secret_record_dlq:
  assumes "coerce_int64_fast v = Inl e" "v \<noteq> []"
  shows "cv_process_element env now (new_cast_and_validate_fn env secret_schema [] []) (secret_record v) =
     Some (fail_outputs env now (sch_fields secret_schema) [] (secret_record v) ''password''
       (field_validation_error env ''password'' v TypeInt64
          (err_type_cast_failed @ '': '' @ coerce_error_text env e)) v)"
  by (subst int64_cast_failure_outputs) (use assms in \<open>auto simp: secret_schema_def secret_record_def zero_field_def zero_value_def\<close>)

lemma password_sensitive: "is_sensitive_key ''password'' []"
  by code_simp

lemma secret_public: "same_public (sch_fields secret_schema) [] (vals (secret_record v)) (vals (secret_record w))"
  by (simp add: same_public_def password_sensitive secret_schema_def secret_record_def)

theorem dead_letter_payload_hides_sensitive_witness:
  "let run = (\<lambda>v. cv_process_element sample_env 0 (new_cast_and_validate_fn sample_env secret_schema [] []) (secret_record v));
       payload = (\<lambda>v. raw_payload (hd (out_dlq (the (run v)))))
   in payload ''x'' = payload ''y''"
  unfolding Let_def
  by (rule dead_letter_payload_hides_sensitive [THEN conjunct1,
        OF secret_record_dlq [OF secret_fails(1), of sample_env 0]
           secret_record_dlq [OF secret_fails(2), of sample_env 0]])
   (auto simp: secret_record_dlq secret_fails secret_public fail_outputs_def no_outputs_def)

text \<open>The redaction does not reach the error message: when a non-empty string cannot be cast in an
  integer column, whatever the column is called, the message of the dead letter and of the audit event
  holds the raw value, quoted. For a sensitive column the value that RawPayload and the audit sample hide
  is written beside them.\<close>

lemma dead_letter_message_holds_value:
  assumes "sch_fields s = f # fs" "field_type f = TypeInt64" "vals rec = v # vs"
    and "\<not> is_null v" "fv_type v = TypeString" "str_val v \<noteq> []" "coerce_int64_fast (str_val v) = Inl e"
  shows "\<exists>o' d a. cv_process_element env now (new_cast_and_validate_fn env s rules sens) rec = Some o' \<and>
    out_dlq o' = [d] \<and> out_audit o' = [a] \<and>
    contains (error_message d) (go_quote env (str_val v)) \<and> contains (message a) (go_quote env (str_val v))"
proof -
  have "contains (field_validation_error env (field_name f) (str_val v) TypeInt64 t) (go_quote env (str_val v))" for t
    unfolding field_validation_error_def contains_iff by (metis append.assoc)
  then show ?thesis
    unfolding int64_cast_failure_outputs [OF assms] by (simp add: fail_outputs_def no_outputs_def new_audit_record_def)
qed

end
