(* ===== verification/Watermark.thy ===== *)
theory Watermark
  imports Records
begin

text \<open>
  Incremental watermarks, \<^verbatim>\<open>internal/domain/watermark_value.go\<close> and \<^verbatim>\<open>watermark_config.go\<close>: typed boundary values,
  their order, their canonical text and the literal put into a query.
\<close>

section \<open>What the code uses of strconv, strings and time\<close>

text \<open>\<^verbatim>\<open>strconv.ParseInt(s, 10, 64)\<close>: an optional sign and decimal digits, within 64 bits.\<close>

definition strconv_parse_int :: "string \<Rightarrow> int option" where
  "strconv_parse_int s =
     (let neg = (s \<noteq> [] \<and> hd s = CHR ''-''); ds = (if s \<noteq> [] \<and> (hd s = CHR ''-'' \<or> hd s = CHR ''+'') then tl s else s);
          n = (if neg then - int (dec_val ds) else int (dec_val ds))
      in if ds \<noteq> [] \<and> list_all is_digit ds \<and> in_i64 n then Some n else None)"

text \<open>The order of \<^verbatim>\<open>float64\<close> values on their bit patterns: sign and magnitude, NaN unordered.\<close>

definition f64_magnitude :: "u64 \<Rightarrow> int" where
  "f64_magnitude b = uint b mod 2 ^ 63"

definition f64_key :: "u64 \<Rightarrow> int" where
  "f64_key b = (if uint b < 2 ^ 63 then f64_magnitude b else - f64_magnitude b)"

definition f64_is_nan :: "u64 \<Rightarrow> bool" where
  "f64_is_nan b \<longleftrightarrow> f64_magnitude b > 0x7FF0000000000000"

definition f64_is_inf :: "u64 \<Rightarrow> bool" where
  "f64_is_inf b \<longleftrightarrow> f64_magnitude b = 0x7FF0000000000000"

definition f64_less :: "u64 \<Rightarrow> u64 \<Rightarrow> bool" where
  "f64_less a b \<longleftrightarrow> \<not> f64_is_nan a \<and> \<not> f64_is_nan b \<and> f64_key a < f64_key b"

definition f64_is_zero :: "u64 \<Rightarrow> bool" where
  "f64_is_zero b \<longleftrightarrow> f64_magnitude b = 0"

text \<open>Strings are compared byte by byte.\<close>

fun string_less :: "string \<Rightarrow> string \<Rightarrow> bool" where
  "string_less _ [] = False"
| "string_less [] (_ # _) = True"
| "string_less (a # as) (b # bs) =
     (if char_code a < char_code b then True else if char_code b < char_code a then False else string_less as bs)"

text \<open>\<^verbatim>\<open>strings.ReplaceAll\<close> for a pattern that is not empty.\<close>

function replace_all :: "string \<Rightarrow> string \<Rightarrow> string \<Rightarrow> string" where
  "replace_all s p r =
     (if p = [] then s
      else case strip_prefix p s of
          Some rest \<Rightarrow> r @ replace_all rest p r
        | None \<Rightarrow> (case s of [] \<Rightarrow> [] | c # cs \<Rightarrow> c # replace_all cs p r))"
  by auto
termination
  by (relation "measure (\<lambda>(s, p, r). length s)") (auto simp: strip_prefix_Some)

declare replace_all.simps [simp del]

text \<open>
  A \<^verbatim>\<open>time.Time\<close> is its instant, in nanoseconds since the epoch, and the offset of its zone. Parsing and printing
  of floats and times are arguments; \<open>format_float\<close> is \<^verbatim>\<open>FormatFloat(f, 'f', -1, 64)\<close>, \<open>float_text\<close> the verb \<^verbatim>\<open>%v\<close>.
\<close>

type_synonym go_time = "int \<times> int"

definition time_nanosecond :: "go_time \<Rightarrow> int" where
  "time_nanosecond t = fst t mod 1000000000"

record wm_env =
  parse_float :: "string \<Rightarrow> u64 option"
  format_float :: "u64 \<Rightarrow> string"
  float_text :: "u64 \<Rightarrow> string"
  parse_time :: "string \<Rightarrow> string \<Rightarrow> go_time option"
  format_time :: "string \<Rightarrow> go_time \<Rightarrow> string"

section \<open>WatermarkValue (watermark_value.go)\<close>

text \<open>\<^verbatim>\<open>WatermarkType\<close> is a string type with five named constants; any other string is \<open>WmOther\<close>.\<close>

datatype watermark_type = WmInteger | WmFloat | WmTimestamp | WmDate | WmString | WmOther string

fun watermark_type_name :: "watermark_type \<Rightarrow> string" where
  "watermark_type_name WmInteger = ''integer''"
| "watermark_type_name WmFloat = ''float''"
| "watermark_type_name WmTimestamp = ''timestamp''"
| "watermark_type_name WmDate = ''date''"
| "watermark_type_name WmString = ''string''"
| "watermark_type_name (WmOther s) = s"

datatype watermark_error =
    UnsupportedWatermarkType string | WatermarkEmpty | InvalidInteger string | InvalidFloat string | FloatNotFinite string
  | InvalidTimestamp string | InvalidDate string | ColumnEmpty | ColumnInvalid string

fun watermark_type_validate :: "watermark_type \<Rightarrow> watermark_error option" where
  "watermark_type_validate (WmOther s) = Some (UnsupportedWatermarkType s)"
| "watermark_type_validate _ = None"

record watermark_value =
  wv_type :: watermark_type
  wv_int :: int
  wv_float :: u64
  wv_time :: go_time
  wv_str :: string

definition zero_watermark :: "watermark_type \<Rightarrow> watermark_value" where
  "zero_watermark t = \<lparr>wv_type = t, wv_int = 0, wv_float = 0, wv_time = (0, 0), wv_str = []\<rparr>"

definition rfc3339_nano :: string where "rfc3339_nano = ''2006-01-02T15:04:05.999999999Z07:00''"
definition rfc3339 :: string where "rfc3339 = ''2006-01-02T15:04:05Z07:00''"
definition date_layout :: string where "date_layout = ''2006-01-02''"

definition parse_watermark_value :: "wm_env \<Rightarrow> watermark_type \<Rightarrow> string \<Rightarrow> watermark_error + watermark_value" where
  "parse_watermark_value env t raw0 =
     (case watermark_type_validate t of
        Some e \<Rightarrow> Inl e
      | None \<Rightarrow> let raw = trim_space raw0 in
          if raw = [] then Inl WatermarkEmpty
          else case t of
            WmInteger \<Rightarrow> (case strconv_parse_int raw of
                None \<Rightarrow> Inl (InvalidInteger raw) | Some n \<Rightarrow> Inr (zero_watermark t\<lparr>wv_int := n\<rparr>))
          | WmFloat \<Rightarrow> (case parse_float env raw of
                None \<Rightarrow> Inl (InvalidFloat raw)
              | Some f \<Rightarrow> if f64_is_nan f \<or> f64_is_inf f then Inl (FloatNotFinite raw) else Inr (zero_watermark t\<lparr>wv_float := f\<rparr>))
          | WmTimestamp \<Rightarrow> (case parse_time env rfc3339_nano raw of
                Some tm \<Rightarrow> Inr (zero_watermark t\<lparr>wv_time := tm\<rparr>)
              | None \<Rightarrow> (case parse_time env rfc3339 raw of
                    Some tm \<Rightarrow> Inr (zero_watermark t\<lparr>wv_time := tm\<rparr>)
                  | None \<Rightarrow> Inl (InvalidTimestamp raw)))
          | WmDate \<Rightarrow> (case parse_time env date_layout raw of
                None \<Rightarrow> Inl (InvalidDate raw) | Some tm \<Rightarrow> Inr (zero_watermark t\<lparr>wv_time := tm\<rparr>))
          | WmString \<Rightarrow> Inr (zero_watermark t\<lparr>wv_str := raw\<rparr>)
          | WmOther s \<Rightarrow> Inl (UnsupportedWatermarkType s))"

definition three_way :: "bool \<Rightarrow> bool \<Rightarrow> int" where
  "three_way lt gt = (if lt then - 1 else if gt then 1 else 0)"

definition watermark_compare :: "watermark_value \<Rightarrow> watermark_value \<Rightarrow> int" where
  "watermark_compare v u = (case wv_type v of
      WmInteger \<Rightarrow> three_way (wv_int v < wv_int u) (wv_int v > wv_int u)
    | WmFloat \<Rightarrow> three_way (f64_less (wv_float v) (wv_float u)) (f64_less (wv_float u) (wv_float v))
    | WmTimestamp \<Rightarrow> three_way (fst (wv_time v) < fst (wv_time u)) (fst (wv_time v) > fst (wv_time u))
    | WmDate \<Rightarrow> three_way (fst (wv_time v) < fst (wv_time u)) (fst (wv_time v) > fst (wv_time u))
    | _ \<Rightarrow> three_way (string_less (wv_str v) (wv_str u)) (string_less (wv_str u) (wv_str v)))"

definition timestamp_text :: "wm_env \<Rightarrow> go_time \<Rightarrow> string" where
  "timestamp_text env t = (if time_nanosecond t \<noteq> 0 then format_time env ''2006-01-02T15:04:05.999999-07:00'' t
     else format_time env ''2006-01-02T15:04:05-07:00'' t)"

definition watermark_string :: "wm_env \<Rightarrow> watermark_value \<Rightarrow> string" where
  "watermark_string env v = (case wv_type v of
      WmInteger \<Rightarrow> format_int (wv_int v)
    | WmFloat \<Rightarrow> format_float env (wv_float v)
    | WmTimestamp \<Rightarrow> timestamp_text env (wv_time v)
    | WmDate \<Rightarrow> format_time env date_layout (wv_time v)
    | _ \<Rightarrow> wv_str v)"

abbreviation quote_mark :: char where "quote_mark \<equiv> CHR 0x27"

definition sql_literal :: "wm_env \<Rightarrow> watermark_value \<Rightarrow> string" where
  "sql_literal env v = (case wv_type v of
      WmInteger \<Rightarrow> format_int (wv_int v)
    | WmFloat \<Rightarrow> format_float env (wv_float v)
    | WmTimestamp \<Rightarrow> [quote_mark] @ watermark_string env v @ [quote_mark]
    | WmDate \<Rightarrow> [quote_mark] @ watermark_string env v @ [quote_mark]
    | _ \<Rightarrow> [quote_mark] @ replace_all (wv_str v) [quote_mark] [quote_mark, quote_mark] @ [quote_mark])"

section \<open>WatermarkConfig (watermark_config.go)\<close>

record watermark_config =
  wc_column :: string
  wc_type :: watermark_type
  wc_value :: "string option"

definition is_letter_or_underscore :: "char \<Rightarrow> bool" where
  "is_letter_or_underscore c \<longleftrightarrow> (let n = char_code c in (65 \<le> n \<and> n \<le> 90) \<or> (97 \<le> n \<and> n \<le> 122) \<or> n = 95)"

text \<open>The regular expression \<^verbatim>\<open>^[A-Za-z_][A-Za-z0-9_]*$\<close>.\<close>

definition valid_column_identifier :: "string \<Rightarrow> bool" where
  "valid_column_identifier s \<longleftrightarrow> s \<noteq> [] \<and> is_letter_or_underscore (hd s) \<and>
     list_all (\<lambda>c. is_letter_or_underscore c \<or> is_digit c) (tl s)"

definition watermark_validate :: "watermark_config \<Rightarrow> watermark_error option" where
  "watermark_validate w =
     (let col = trim_space (wc_column w) in
      if col = [] then Some ColumnEmpty
      else if \<not> valid_column_identifier col then Some (ColumnInvalid col)
      else watermark_type_validate (wc_type w))"

text \<open>\<^verbatim>\<open>Incoming\<close>: no value on a first execution.\<close>

definition watermark_incoming :: "wm_env \<Rightarrow> watermark_config \<Rightarrow> watermark_error + watermark_value option" where
  "watermark_incoming env w = (case wc_value w of
      None \<Rightarrow> Inr None
    | Some s \<Rightarrow> if trim_space s = [] then Inr None
        else (case parse_watermark_value env (wc_type w) s of Inl e \<Rightarrow> Inl e | Inr v \<Rightarrow> Inr (Some v)))"

section \<open>The order of watermarks\<close>

text \<open>What a parsed value is: of a supported type, and a number when a float.\<close>

definition watermark_ok :: "watermark_type \<Rightarrow> watermark_value \<Rightarrow> bool" where
  "watermark_ok t v \<longleftrightarrow> wv_type v = t \<and> watermark_type_validate t = None \<and> (t = WmFloat \<longrightarrow> \<not> f64_is_nan (wv_float v))"

lemma parse_watermark_ok: "parse_watermark_value env t raw = Inr v \<Longrightarrow> watermark_ok t v"
  by (cases t) (auto simp: parse_watermark_value_def watermark_ok_def zero_watermark_def Let_def split: if_splits option.splits)

lemma incoming_ok: "watermark_incoming env w = Inr (Some v) \<Longrightarrow> watermark_ok (wc_type w) v"
  by (auto simp: watermark_incoming_def parse_watermark_ok split: option.splits if_splits sum.splits)

lemma char_code_eq: "char_code a = char_code b \<longleftrightarrow> a = b"
  by (simp add: char_code_def)

lemma string_less_irrefl [simp]: "\<not> string_less s s"
  by (induction s) auto

lemma string_less_asym: "string_less a b \<Longrightarrow> \<not> string_less b a"
  by (induction a b rule: string_less.induct) (auto split: if_splits)

lemma string_less_total: "\<not> string_less a b \<Longrightarrow> \<not> string_less b a \<Longrightarrow> a = b"
proof (induction a b rule: string_less.induct)
  case (1 a) then show ?case by (cases a) auto
next
  case (3 a as b bs)
  then have "char_code a = char_code b" by (auto split: if_splits)
  with 3 show ?case by (auto simp: char_code_eq)
qed simp

lemma string_less_trans: "string_less a b \<Longrightarrow> string_less b c \<Longrightarrow> string_less a c"
proof (induction a b arbitrary: c rule: string_less.induct)
  case (2 b bs) then show ?case by (cases c) auto
next
  case (3 a as b bs)
  then show ?case by (cases c) (auto split: if_splits)
qed simp

text \<open>Two values of one type compare as their keys do; a value is not after another when \<^verbatim>\<open>Compare\<close> is not positive.\<close>

definition watermark_le :: "watermark_value \<Rightarrow> watermark_value \<Rightarrow> bool" where
  "watermark_le v u \<longleftrightarrow> watermark_compare v u \<le> 0"

lemma watermark_le_refl: "watermark_le v v"
  by (auto simp: watermark_le_def watermark_compare_def three_way_def f64_less_def split: watermark_type.splits)

lemma watermark_le_total:
  assumes "watermark_ok t v" "watermark_ok t u"
  shows "watermark_le v u \<or> watermark_le u v"
  using assms
  by (auto simp: watermark_le_def watermark_compare_def three_way_def f64_less_def watermark_ok_def
      dest: string_less_asym split: watermark_type.splits)

lemma three_way_le: "three_way a b \<le> 0 \<longleftrightarrow> a \<or> \<not> b"
  by (simp add: three_way_def)

lemma string_le_trans:
  assumes "string_less a b \<or> \<not> string_less b a" "string_less b c \<or> \<not> string_less c b"
  shows "string_less a c \<or> \<not> string_less c a"
  using assms string_less_total [of a b] string_less_total [of b c] string_less_trans [of a b c] string_less_asym [of a c] by auto

lemma watermark_le_trans:
  assumes "watermark_ok t v" "watermark_ok t u" "watermark_ok t x" "watermark_le v u" "watermark_le u x"
  shows "watermark_le v x"
proof (cases t)
  case WmString
  then show ?thesis using assms string_le_trans [of "wv_str v" "wv_str u" "wv_str x"]
    by (simp add: watermark_le_def watermark_compare_def watermark_ok_def three_way_le)
qed (use assms in \<open>auto simp: watermark_le_def watermark_compare_def watermark_ok_def three_way_le f64_less_def\<close>)

section \<open>Literals\<close>

text \<open>
  The string literal of SQL: after the opening quote, a doubled quote stands for one and a single one ends the
  literal. The scanner gives the string and what follows the literal.
\<close>

fun scan_string :: "string \<Rightarrow> (string \<times> string) option" where
  "scan_string [] = None"
| "scan_string [c] = (if c = quote_mark then Some ([], []) else None)"
| "scan_string (c # d # cs) =
     (if c = quote_mark then
        (if d = quote_mark then map_option (\<lambda>(s, r). (quote_mark # s, r)) (scan_string cs) else Some ([], d # cs))
      else map_option (\<lambda>(s, r). (c # s, r)) (scan_string (d # cs)))"

fun scan_literal :: "string \<Rightarrow> (string \<times> string) option" where
  "scan_literal [] = None"
| "scan_literal (c # cs) = (if c = quote_mark then scan_string cs else None)"

lemma replace_quote_Nil [simp]: "replace_all [] [q] r = []"
  by (subst replace_all.simps) simp

lemma replace_quote_Cons [simp]: "replace_all (c # cs) [q] r = (if c = q then r else [c]) @ replace_all cs [q] r"
  by (subst replace_all.simps) auto

lemma scan_string_Cons: "c \<noteq> quote_mark \<Longrightarrow> scan_string (c # cs) = map_option (\<lambda>(s, r). (c # s, r)) (scan_string cs)"
  by (cases cs) auto

lemma scan_escaped:
  assumes "rest = [] \<or> hd rest \<noteq> quote_mark"
  shows "scan_string (replace_all s [quote_mark] [quote_mark, quote_mark] @ quote_mark # rest) = Some (s, rest)"
proof (induction s)
  case Nil
  show ?case using assms by (cases rest) auto
next
  case (Cons c s)
  then show ?case by (cases "c = quote_mark") (simp_all add: scan_string_Cons)
qed

lemma scan_plain:
  assumes "quote_mark \<notin> set s" "rest = [] \<or> hd rest \<noteq> quote_mark"
  shows "scan_string (s @ quote_mark # rest) = Some (s, rest)"
  using assms(1)
proof (induction s)
  case Nil
  show ?case using assms(2) by (cases rest) auto
next
  case (Cons c s)
  then show ?case using scan_string_Cons [of c "s @ quote_mark # rest"] by auto
qed

text \<open>Integers and floats are written without a quote.\<close>

lemma format_int_no_quote: "quote_mark \<notin> set (format_int n)"
proof -
  have d: "quote_mark \<notin> set (format_uint k)" for k
    using format_uint_digits [of k] by (auto simp: is_digit_def)
  show ?thesis using d by (auto simp: format_int_def)
qed

lemma parse_watermark_string:
  "parse_watermark_value env WmString raw = Inr v \<Longrightarrow> wv_type v = WmString \<and> wv_str v = trim_space raw"
  by (auto simp: parse_watermark_value_def zero_watermark_def Let_def split: if_splits)

text \<open>The literal of a parsed watermark is one SQL token: an integer and a date or time that prints without a
  quote hold no quote inside, and a string watermark, whatever its bytes, is read back by a scanner of SQL string literals as
  exactly the trimmed text it was parsed from, the text after the literal untouched.\<close>

lemma sql_literal_reads_back:
  assumes "parse_watermark_value env t raw = Inr v" "rest = [] \<or> hd rest \<noteq> quote_mark"
    and "\<forall>layout tm. quote_mark \<notin> set (format_time env layout tm)"
  shows "(t = WmString \<longrightarrow> scan_literal (sql_literal env v @ rest) = Some (trim_space raw, rest)) \<and>
    (t = WmTimestamp \<or> t = WmDate \<longrightarrow> scan_literal (sql_literal env v @ rest) = Some (watermark_string env v, rest)) \<and>
    (t = WmInteger \<longrightarrow> quote_mark \<notin> set (sql_literal env v))"
proof -
  have t: "wv_type v = t" using parse_watermark_ok [OF assms(1)] by (simp add: watermark_ok_def)
  have q: "quote_mark \<notin> set (watermark_string env v)" if "t = WmTimestamp \<or> t = WmDate"
    using that t assms(3) by (cases "wv_time v") (auto simp: watermark_string_def timestamp_text_def split: if_splits)
  show ?thesis
  proof (intro conjI impI)
    assume "t = WmString"
    then show "scan_literal (sql_literal env v @ rest) = Some (trim_space raw, rest)"
      using assms(1,2) t parse_watermark_string [of env raw v] scan_escaped [of rest "wv_str v"] by (simp add: sql_literal_def)
  next
    assume d: "t = WmTimestamp \<or> t = WmDate"
    then show "scan_literal (sql_literal env v @ rest) = Some (watermark_string env v, rest)"
      using t scan_plain [OF q [OF d] assms(2)] by (auto simp: sql_literal_def)
  next
    assume "t = WmInteger"
    then show "quote_mark \<notin> set (sql_literal env v)" using t by (simp add: sql_literal_def format_int_no_quote)
  qed
qed

definition sample_wm_env :: wm_env where
  "sample_wm_env = \<lparr>parse_float = (\<lambda>s. None), format_float = (\<lambda>b. format_uint (unat b)),
     float_text = (\<lambda>b. format_uint (unat b)), parse_time = (\<lambda>l s. None),
     format_time = (\<lambda>l t. format_int (fst t))\<rparr>"

text \<open>
  MySQL in its default mode also reads a backslash as an escape. There the literal of a value that ends in a
  backslash has no end, and what follows it in the query is read as part of the string.
\<close>

fun scan_string_escapes :: "string \<Rightarrow> (string \<times> string) option" where
  "scan_string_escapes [] = None"
| "scan_string_escapes [c] = (if c = quote_mark then Some ([], []) else None)"
| "scan_string_escapes (c # d # cs) =
     (if c = CHR 0x5C then map_option (\<lambda>(s, r). (d # s, r)) (scan_string_escapes cs)
      else if c = quote_mark then
        (if d = quote_mark then map_option (\<lambda>(s, r). (quote_mark # s, r)) (scan_string_escapes cs) else Some ([], d # cs))
      else map_option (\<lambda>(s, r). (c # s, r)) (scan_string_escapes (d # cs)))"

lemma mysql_literal_unterminated:
  "sql_literal env (zero_watermark WmString\<lparr>wv_str := ''a'' @ [CHR 0x5C]\<rparr>) = [quote_mark, CHR ''a'', CHR 0x5C, quote_mark]"
  "scan_string_escapes [CHR ''a'', CHR 0x5C, quote_mark] = None"
  by (simp_all add: sql_literal_def zero_watermark_def)

end
