(* ===== verification/Config.thy ===== *)
theory Config
  imports Go_Paths Validation Watermark
begin

text \<open>
  The pipeline manifest, \<^verbatim>\<open>internal/domain/config.go\<close> and the \<^verbatim>\<open>config_*.go\<close> files beside it, with the checks of
  \<^verbatim>\<open>validator.go\<close> and the constants of \<^verbatim>\<open>defaults.go\<close>: the structures, their defaults and their validation. An
  error is its message; \<^verbatim>\<open>%q\<close> and the rendering of numbers by \<^verbatim>\<open>%v\<close> come from the environment.
\<close>

section \<open>Checks (validator.go)\<close>

definition check_non_negative :: "string \<Rightarrow> int \<Rightarrow> string option" where
  "check_non_negative name v = (if v < 0 then Some (name @ '' cannot be negative, got '' @ format_int v) else None)"

text \<open>The same check at type \<^verbatim>\<open>float64\<close>; a NaN is not less than zero.\<close>

definition check_non_negative_f64 :: "wm_env \<Rightarrow> string \<Rightarrow> u64 \<Rightarrow> string option" where
  "check_non_negative_f64 env name v = (if f64_less v 0 then Some (name @ '' cannot be negative, got '' @ float_text env v) else None)"

definition check_positive :: "string \<Rightarrow> int \<Rightarrow> string option" where
  "check_positive name v = (if v \<le> 0 then Some (name @ '' must be strictly positive, got '' @ format_int v) else None)"

definition check_not_empty :: "string \<Rightarrow> string \<Rightarrow> string option" where
  "check_not_empty name v = (if trim_space v = [] then Some (name @ '' is required'') else None)"

fun validate_all :: "string option list \<Rightarrow> string option" where
  "validate_all [] = None"
| "validate_all (e # es) = (case e of Some m \<Rightarrow> Some m | None \<Rightarrow> validate_all es)"

section \<open>Resilience and REST options (config_rest.go)\<close>

record resilience_config =
  rc_max_retries :: int
  rc_initial_backoff_ms :: int
  rc_max_backoff_ms :: int
  rc_backoff_multiplier :: u64
  rc_rate_limit_rps :: u64
  rc_timeout_ms :: int
  rc_breaker_fails :: int
  rc_breaker_timeout_ms :: int
  rc_half_open_limit :: int

text \<open>\<^verbatim>\<open>OrDefault\<close> at type \<^verbatim>\<open>float64\<close>: minus zero is the zero value too.\<close>

definition or_default_f64 :: "u64 \<Rightarrow> u64 \<Rightarrow> u64" where
  "or_default_f64 v fallback = (if f64_is_zero v then fallback else v)"

definition f64_two :: u64 where "f64_two = 0x4000000000000000"
definition f64_fifty :: u64 where "f64_fifty = 0x4049000000000000"

definition resilience_apply_defaults :: "resilience_config \<Rightarrow> resilience_config" where
  "resilience_apply_defaults r = \<lparr>
     rc_max_retries = or_default 0 (rc_max_retries r) 3,
     rc_initial_backoff_ms = or_default 0 (rc_initial_backoff_ms r) 500,
     rc_max_backoff_ms = or_default 0 (rc_max_backoff_ms r) 10000,
     rc_backoff_multiplier = or_default_f64 (rc_backoff_multiplier r) f64_two,
     rc_rate_limit_rps = or_default_f64 (rc_rate_limit_rps r) f64_fifty,
     rc_timeout_ms = or_default 0 (rc_timeout_ms r) 30000,
     rc_breaker_fails = or_default 0 (rc_breaker_fails r) 5,
     rc_breaker_timeout_ms = or_default 0 (rc_breaker_timeout_ms r) 10000,
     rc_half_open_limit = or_default 0 (rc_half_open_limit r) 1\<rparr>"

definition resilience_validate :: "wm_env \<Rightarrow> resilience_config \<Rightarrow> string option" where
  "resilience_validate env r = validate_all [
     check_non_negative ''max_retries'' (rc_max_retries r),
     check_non_negative ''initial_backoff_ms'' (rc_initial_backoff_ms r),
     check_non_negative ''max_backoff_ms'' (rc_max_backoff_ms r),
     check_non_negative_f64 env ''backoff_multiplier'' (rc_backoff_multiplier r),
     check_non_negative_f64 env ''rate_limit_rps'' (rc_rate_limit_rps r),
     check_non_negative ''timeout_ms'' (rc_timeout_ms r),
     check_non_negative ''circuit_breaker_fails'' (rc_breaker_fails r),
     check_non_negative ''circuit_breaker_timeout_ms'' (rc_breaker_timeout_ms r),
     check_non_negative ''half_open_limit'' (rc_half_open_limit r)]"

datatype pagination_type = PageNumber | OffsetLimit | CursorToken | LinkHeader | OtherPagination string

datatype auth_type = AuthBearer | AuthAPIKey | AuthBasic | AuthOAuth2ClientCred | AuthOther string

record api_auth_config =
  au_type :: auth_type
  au_token_ref :: string
  au_api_key_header :: string
  au_api_key_query :: string
  au_username_ref :: string
  au_password_ref :: string
  au_token_url :: string
  au_client_id_ref :: string
  au_client_secret_ref :: string
  au_scopes :: "string list"

record pagination_config =
  pg_type :: pagination_type
  pg_page_param :: string
  pg_size_param :: string
  pg_page_size :: int
  pg_initial_page :: int
  pg_total_pages_hint :: int
  pg_max_pages_limit :: int
  pg_cursor_param :: string
  pg_next_cursor_path :: string
  pg_total_count_path :: string
  pg_has_more_path :: string

definition pagination_apply_defaults :: "pagination_config \<Rightarrow> pagination_config" where
  "pagination_apply_defaults p = p\<lparr>
     pg_page_size := or_default 0 (pg_page_size p) 100,
     pg_max_pages_limit := or_default 0 (pg_max_pages_limit p) 10000,
     pg_page_param := or_default [] (pg_page_param p) (if pg_type p = OffsetLimit then ''offset'' else ''page''),
     pg_size_param := or_default [] (pg_size_param p) (if pg_type p = OffsetLimit then ''limit'' else ''size''),
     pg_initial_page := (if pg_initial_page p = 0 \<and> pg_type p = PageNumber then 1 else pg_initial_page p)\<rparr>"

record api_source_config =
  as_base_url :: string
  as_endpoint :: string
  as_http_method :: string
  as_headers :: "string gomap"
  as_query_params :: "string gomap"
  as_auth :: "api_auth_config option"
  as_pagination :: pagination_config
  as_retry :: resilience_config
  as_skip_tls_verify :: bool
  as_records_path :: string
  as_field_mapping :: "string gomap"
  as_schema :: schema
  as_watermark :: "watermark_config option"

definition watermark_is_offset :: "api_source_config \<Rightarrow> bool" where
  "watermark_is_offset cfg = (case as_watermark cfg of
      None \<Rightarrow> False
    | Some wm \<Rightarrow> if pg_type (as_pagination cfg) \<noteq> OffsetLimit then False
        else let col = to_lower (trim_space (wc_column wm)); param = to_lower (trim_space (pg_page_param (as_pagination cfg)))
             in col = ''offset'' \<or> (param \<noteq> [] \<and> col = param))"

definition api_source_apply_defaults :: "api_source_config \<Rightarrow> api_source_config" where
  "api_source_apply_defaults cfg = cfg\<lparr>
     as_http_method := or_default [] (as_http_method cfg) ''GET'',
     as_pagination := pagination_apply_defaults (as_pagination cfg),
     as_retry := resilience_apply_defaults (as_retry cfg)\<rparr>"

record api_endpoint_config =
  ae_base_url :: string
  ae_credential_ref :: string
  ae_auth_type :: auth_type
  ae_headers :: "string gomap"

record api_sink_options =
  ao_resource_path :: string
  ao_method :: string
  ao_batch_size :: int
  ao_body_envelope :: string
  ao_rate_limit_rps :: int
  ao_timeout_ms :: int
  ao_max_retries :: int

definition api_sink_apply_defaults :: "api_sink_options \<Rightarrow> api_sink_options" where
  "api_sink_apply_defaults o' = o'\<lparr>
     ao_method := or_default [] (ao_method o') ''POST'',
     ao_batch_size := or_default 0 (ao_batch_size o') 100,
     ao_rate_limit_rps := or_default 0 (ao_rate_limit_rps o') 50,
     ao_timeout_ms := or_default 0 (ao_timeout_ms o') 30000,
     ao_max_retries := or_default 0 (ao_max_retries o') 3\<rparr>"

section \<open>Databases (config_database.go)\<close>

record partition_config =
  pc_partition_column :: string
  pc_batch_size :: int
  pc_num_partitions :: int

record pool_config =
  pool_max_open :: int
  pool_max_idle :: int
  pool_lifetime :: int

definition partition_apply_defaults :: "partition_config \<Rightarrow> partition_config" where
  "partition_apply_defaults p = p\<lparr>pc_batch_size := or_default 0 (pc_batch_size p) 2500\<rparr>"

definition pool_apply_defaults :: "pool_config \<Rightarrow> pool_config" where
  "pool_apply_defaults p = \<lparr>pool_max_open = or_default 0 (pool_max_open p) 4,
     pool_max_idle = or_default 0 (pool_max_idle p) 2, pool_lifetime = or_default 0 (pool_lifetime p) 300\<rparr>"

record database_source_config =
  ds_driver :: string
  ds_connection_uri :: string
  ds_host :: string
  ds_port :: int
  ds_database :: string
  ds_username :: string
  ds_password_ref :: string
  ds_query :: string
  ds_table :: string
  ds_query_filter :: string
  ds_columns :: "string list"
  ds_flatten_nested :: bool
  ds_partition :: partition_config
  ds_pool :: pool_config
  ds_resilience :: resilience_config
  ds_schema :: schema
  ds_watermark :: "watermark_config option"

definition base_query :: "database_source_config \<Rightarrow> string" where
  "base_query cfg =
     (if trim_space (ds_query cfg) \<noteq> [] then trim_space (ds_query cfg)
      else let cols = (if ds_columns cfg \<noteq> [] then join '', '' (ds_columns cfg) else ''*'') in
        if trim_space (ds_query_filter cfg) \<noteq> []
        then ''SELECT '' @ cols @ '' FROM '' @ ds_table cfg @ '' WHERE '' @ ds_query_filter cfg
        else ''SELECT '' @ cols @ '' FROM '' @ ds_table cfg)"

definition placeholder :: string where "placeholder = '':watermark_value''"

datatype query_error = PlaceholderWithoutConfig | PlaceholderWithoutValue | QueryWatermark watermark_error

definition effective_query :: "wm_env \<Rightarrow> database_source_config \<Rightarrow> query_error + string" where
  "effective_query env cfg =
     (let base = base_query cfg; has_placeholder = contains base placeholder in
      case ds_watermark cfg of
        None \<Rightarrow> if has_placeholder then Inl PlaceholderWithoutConfig else Inr base
      | Some wm \<Rightarrow>
          (case watermark_validate wm of
             Some e \<Rightarrow> Inl (QueryWatermark e)
           | None \<Rightarrow>
               (case watermark_incoming env wm of
                  Inl e \<Rightarrow> Inl (QueryWatermark e)
                | Inr inc \<Rightarrow>
                    if has_placeholder
                    then (case inc of None \<Rightarrow> Inl PlaceholderWithoutValue
                          | Some v \<Rightarrow> Inr (replace_all base placeholder (sql_literal env v)))
                    else (case inc of None \<Rightarrow> Inr base
                          | Some v \<Rightarrow> Inr (''SELECT * FROM ('' @ base @ '') AS _wm WHERE '' @ wc_column wm @ '' > '' @ sql_literal env v)))))"

definition database_apply_defaults :: "database_source_config \<Rightarrow> database_source_config" where
  "database_apply_defaults cfg = cfg\<lparr>
     ds_partition := partition_apply_defaults (ds_partition cfg),
     ds_pool := pool_apply_defaults (ds_pool cfg),
     ds_resilience := resilience_apply_defaults (ds_resilience cfg)\<rparr>"

section \<open>File sources (config_source.go)\<close>

record source_config =
  so_type :: string
  so_path :: string
  so_paths :: "string list"
  so_format :: string
  so_delimiter :: string
  so_quote_char :: string
  so_multiline :: bool
  so_charset :: string
  so_compression :: string
  so_chunk_size_bytes :: int
  so_schema :: schema
  so_watermark :: "watermark_config option"

definition all_paths :: "source_config \<Rightarrow> string list" where
  "all_paths s = (let r = filter (\<lambda>p. p \<noteq> []) (map trim_space (so_paths s)) in
     if so_paths s \<noteq> [] \<and> r \<noteq> [] then r
     else if trim_space (so_path s) \<noteq> [] then [trim_space (so_path s)] else [])"

definition source_apply_defaults :: "source_config \<Rightarrow> source_config" where
  "source_apply_defaults s = s\<lparr>
     so_format := or_default [] (to_lower (trim_space (so_format s))) ''csv'',
     so_delimiter := or_default [] (so_delimiter s) '','',
     so_quote_char := or_default [] (so_quote_char s) [CHR 0x22],
     so_charset := or_default [] (to_lower (trim_space (so_charset s))) ''utf-8'',
     so_compression := or_default [] (to_lower (trim_space (so_compression s))) ''none'',
     so_chunk_size_bytes := or_default 0 (so_chunk_size_bytes s) (64 * 1024 * 1024),
     so_schema := schema_apply_defaults (so_schema s)\<rparr>"

section \<open>Destinations (config_destination.go)\<close>

record format_options =
  fo_delimiter :: string
  fo_include_header :: bool
  fo_charset :: string
  fo_line_terminator :: string
  fo_quote_all :: bool

definition format_apply_defaults :: "format_options \<Rightarrow> format_options" where
  "format_apply_defaults o' = o'\<lparr>
     fo_delimiter := or_default [] (fo_delimiter o') '','',
     fo_line_terminator := or_default [] (fo_line_terminator o') [CHR 0x0A],
     fo_charset := or_default [] (fo_charset o') ''utf-8''\<rparr>"

record encryption_config =
  en_type :: string
  en_public_key_ref :: string
  en_kms_key_ref :: string

definition encryption_apply_defaults :: "encryption_config \<Rightarrow> encryption_config" where
  "encryption_apply_defaults e = e\<lparr>en_type := or_default [] (to_lower (trim_space (en_type e))) ''none''\<rparr>"

definition encryption_validate :: "go_env \<Rightarrow> encryption_config \<Rightarrow> string option" where
  "encryption_validate env e =
     (if en_type e = ''none'' \<or> en_type e = [] then None
      else if en_type e = ''pgp'' then
        (if trim_space (en_public_key_ref e) = [] then Some ''encryption.public_key_ref is required for pgp encryption'' else None)
      else if en_type e = ''kms'' then
        (if trim_space (en_kms_key_ref e) = [] then Some ''encryption.kms_key_ref is required for kms encryption'' else None)
      else Some (''unsupported encryption type '' @ go_quote env (en_type e) @ '' (supported: none, pgp, kms)''))"

record bigquery_config =
  bc_project_id :: string
  bc_dataset_id :: string
  bc_table_id :: string
  bc_write_disposition :: string
  bc_batch_size :: int

text \<open>\<^verbatim>\<open>BigQuerySinkConfig.Validate\<close> also fills in defaults, up to the check that fails.\<close>

definition bigquery_validate :: "go_env \<Rightarrow> bigquery_config \<Rightarrow> bigquery_config \<times> string option" where
  "bigquery_validate env c =
     (if trim_space (bc_dataset_id c) = [] then (c, Some ''bigquery sink requires dataset_id'')
      else if trim_space (bc_table_id c) = [] then (c, Some ''bigquery sink requires table_id'')
      else let c1 = c\<lparr>bc_write_disposition := or_default [] (bc_write_disposition c) ''WRITE_APPEND''\<rparr> in
        if bc_write_disposition c1 \<notin> {''WRITE_APPEND'', ''WRITE_TRUNCATE'', ''WRITE_EMPTY''}
        then (c1, Some (''invalid write_disposition '' @ go_quote env (bc_write_disposition c1) @
               '' (must be WRITE_APPEND, WRITE_TRUNCATE, or WRITE_EMPTY)''))
        else (c1\<lparr>bc_batch_size := or_default 0 (bc_batch_size c1) 500\<rparr>, None))"

record destination_config =
  de_type :: string
  de_format :: string
  de_output_format :: string
  de_output_path :: string
  de_metrics_dir :: string
  de_compression :: string
  de_encryption :: encryption_config
  de_single_file :: bool
  de_include_audit :: bool
  de_format_options :: format_options
  de_endpoint :: api_endpoint_config
  de_api_options :: api_sink_options
  de_bigquery :: bigquery_config

definition destination_apply_defaults :: "destination_config \<Rightarrow> destination_config" where
  "destination_apply_defaults d =
     (let ty = or_default [] (to_lower (trim_space (de_type d))) ''file'';
          out = (if trim_space (de_output_format d) = [] \<and> trim_space (de_format d) \<noteq> [] then de_format d else de_output_format d)
      in d\<lparr>de_type := ty,
           de_output_format := or_default [] (to_lower (trim_space out)) ty,
           de_api_options := api_sink_apply_defaults (de_api_options d),
           de_format_options := format_apply_defaults (de_format_options d),
           de_encryption := encryption_apply_defaults (de_encryption d)\<rparr>)"

section \<open>Dead letters, quality, security, secrets (config_dlq.go)\<close>

record dlq_config =
  dl_enabled :: bool
  dl_quarantine_path :: string
  dl_max_error_percentage :: u64

record quality_config =
  qc_rules :: "quality_rule list"

record security_config =
  se_sensitive_fields :: "string list"

record secrets_config =
  sc_provider :: string
  sc_vault_url :: string
  sc_vault_token :: string
  sc_gcp_project_id :: string
  sc_host_override :: "string gomap"

section \<open>PipelineConfig (config.go)\<close>

record pipeline_config =
  pl_pipeline_id :: string
  pl_run_id :: string
  pl_pipeline_type :: string
  pl_runner :: string
  pl_secrets :: "secrets_config option"
  pl_schema :: "schema option"
  pl_source :: source_config
  pl_database :: "database_source_config option"
  pl_api :: "api_source_config option"
  pl_destination :: destination_config
  pl_dlq :: dlq_config
  pl_quality :: quality_config
  pl_security :: security_config

definition get_source_schema :: "pipeline_config \<Rightarrow> schema" where
  "get_source_schema c =
     (if (case pl_database c of Some d \<Rightarrow> sch_fields (ds_schema d) \<noteq> [] | None \<Rightarrow> False) then ds_schema (the (pl_database c))
      else if (case pl_api c of Some a \<Rightarrow> sch_fields (as_schema a) \<noteq> [] | None \<Rightarrow> False) then as_schema (the (pl_api c))
      else so_schema (pl_source c))"

definition get_schema :: "pipeline_config \<Rightarrow> schema" where
  "get_schema c = (case pl_schema c of
      Some s \<Rightarrow> if sch_fields s \<noteq> [] then s else get_source_schema c
    | None \<Rightarrow> get_source_schema c)"

definition is_gcs :: "string \<Rightarrow> bool" where
  "is_gcs p \<longleftrightarrow> has_prefix p ''gs://'' \<or> has_prefix p (''gs:'' @ [CHR 0x5C])"

definition requires_gcs :: "pipeline_config \<Rightarrow> bool" where
  "requires_gcs c \<longleftrightarrow> is_gcs (so_path (pl_source c)) \<or> list_ex is_gcs (so_paths (pl_source c)) \<or>
     is_gcs (de_output_path (pl_destination c)) \<or> is_gcs (dl_quarantine_path (pl_dlq c))"

definition dir_of :: "string \<Rightarrow> string" where
  "dir_of p = (let out = trim_space p in if path_ext out \<noteq> [] then path_dir out else out)"

definition get_metrics_output_dir :: "pipeline_config \<Rightarrow> string" where
  "get_metrics_output_dir c =
     (if trim_space (de_metrics_dir (pl_destination c)) \<noteq> [] then trim_space (de_metrics_dir (pl_destination c))
      else if trim_space (de_output_path (pl_destination c)) \<noteq> [] then dir_of (de_output_path (pl_destination c))
      else if trim_space (dl_quarantine_path (pl_dlq c)) \<noteq> [] then dir_of (dl_quarantine_path (pl_dlq c))
      else ''.'')"

text \<open>
  \<^verbatim>\<open>ApplyDefaults\<close>. When the top-level schema is copied into the source, the two share one slice of fields, so the
  defaults written into the fields of the source are seen in the top-level schema as well.
\<close>

definition schema_is_copied :: "pipeline_config \<Rightarrow> bool" where
  "schema_is_copied c = (case pl_schema c of Some s \<Rightarrow> sch_fields s \<noteq> [] \<and> sch_fields (so_schema (pl_source c)) = [] | None \<Rightarrow> False)"

definition copy_schema :: "pipeline_config \<Rightarrow> pipeline_config" where
  "copy_schema c = (case pl_schema c of
      Some s \<Rightarrow> if schema_is_copied c then c\<lparr>pl_source := (pl_source c)\<lparr>so_schema := s\<rparr>, pl_schema := Some (schema_apply_defaults s)\<rparr> else c
    | None \<Rightarrow> c)"

definition quarantine_default :: "destination_config \<Rightarrow> dlq_config \<Rightarrow> dlq_config" where
  "quarantine_default d q = (if dl_quarantine_path q = [] \<and> de_output_path d \<noteq> []
     then q\<lparr>dl_quarantine_path := path_join [path_dir (de_output_path d), ''quarantine'']\<rparr> else q)"

definition config_apply_defaults :: "pipeline_config \<Rightarrow> pipeline_config" where
  "config_apply_defaults c0 =
     (let c = copy_schema (c0\<lparr>pl_runner := or_default [] (pl_runner c0) ''direct''\<rparr>) in
      c\<lparr>pl_source := source_apply_defaults (pl_source c),
        pl_database := map_option database_apply_defaults (pl_database c),
        pl_api := map_option api_source_apply_defaults (pl_api c),
        pl_destination := destination_apply_defaults (pl_destination c),
        pl_dlq := quarantine_default (destination_apply_defaults (pl_destination c)) (pl_dlq c)\<rparr>)"

datatype config_error = ConfigError string | ConfigWatermark watermark_error

definition validate_source_config :: "pipeline_config \<Rightarrow> string option" where
  "validate_source_config c =
     (case check_non_negative ''source.chunk_size_bytes'' (so_chunk_size_bytes (pl_source c)) of
        Some e \<Rightarrow> Some e
      | None \<Rightarrow>
          if pl_database c = None \<and> pl_api c = None \<and> so_type (pl_source c) \<noteq> ''database'' \<and> so_type (pl_source c) \<noteq> ''api''
          then (if all_paths (pl_source c) = [] then Some ''source.path or source.paths is required for file pipelines''
                else if sch_fields (so_schema (pl_source c)) = [] then Some ''source.schema must define at least one field''
                else None)
          else None)"

definition validate_database_config :: "pipeline_config \<Rightarrow> string option" where
  "validate_database_config c = (case pl_database c of
      None \<Rightarrow> None
    | Some d \<Rightarrow>
        (case validate_all [
            check_non_negative ''database_source.partition_config.batch_size'' (pc_batch_size (ds_partition d)),
            check_non_negative ''database_source.pool_config.max_open_conns'' (pool_max_open (ds_pool d)),
            check_non_negative ''database_source.pool_config.max_idle_conns'' (pool_max_idle (ds_pool d)),
            check_not_empty ''database_source.driver'' (ds_driver d)] of
           Some e \<Rightarrow> Some e
         | None \<Rightarrow>
             if trim_space (ds_connection_uri d) = [] \<and> trim_space (ds_host d) = []
             then Some ''database_source connection_uri or host is required''
             else if trim_space (ds_query d) = [] \<and> trim_space (ds_table d) = []
             then Some ''database_source table or query is required''
             else if sch_fields (ds_schema d) = [] then Some ''database_source.schema must define at least one field''
             else None))"

definition validate_api_config :: "wm_env \<Rightarrow> pipeline_config \<Rightarrow> string option" where
  "validate_api_config env c = (case pl_api c of
      None \<Rightarrow> None
    | Some a \<Rightarrow>
        (case validate_all [
            check_non_negative ''api_source.pagination.page_size'' (pg_page_size (as_pagination a)),
            check_non_negative ''api_source.pagination.max_pages_limit'' (pg_max_pages_limit (as_pagination a)),
            resilience_validate env (as_retry a),
            check_not_empty ''api_source.base_url'' (as_base_url a),
            check_not_empty ''api_source.endpoint'' (as_endpoint a)] of
           Some e \<Rightarrow> Some e
         | None \<Rightarrow> if sch_fields (as_schema a) = [] then Some ''api_source.schema must define at least one field'' else None))"

definition validate_destination_config :: "go_env \<Rightarrow> destination_config \<Rightarrow> destination_config \<times> string option" where
  "validate_destination_config env d =
     (if de_type d \<noteq> ''rest_api'' \<and> de_type d \<noteq> ''bigquery'' \<and> trim_space (de_output_path d) = []
      then (d, Some ''destination.output_path is required'')
      else case (if de_type d = ''rest_api'' then validate_all [
               check_not_empty ''destination.endpoint.base_url'' (ae_base_url (de_endpoint d)),
               check_non_negative ''destination.api_options.batch_size'' (ao_batch_size (de_api_options d))] else None) of
        Some e \<Rightarrow> (d, Some e)
      | None \<Rightarrow>
          (case (if de_type d = ''bigquery'' then bigquery_validate env (de_bigquery d) else (de_bigquery d, None)) of
             (b, Some e) \<Rightarrow> (d\<lparr>de_bigquery := b\<rparr>, Some (''destination.bigquery_options: '' @ e))
           | (b, None) \<Rightarrow>
               (d\<lparr>de_bigquery := b\<rparr>, map_option (\<lambda>e. ''destination.encryption: '' @ e) (encryption_validate env (de_encryption d)))))"

fun check_watermark_type_compatibility :: "watermark_type \<Rightarrow> data_type \<Rightarrow> string option" where
  "check_watermark_type_compatibility WmInteger ft =
     (if ft \<noteq> TypeInt64 then Some (''watermark type integer requires schema int64, got '' @ data_type_name ft) else None)"
| "check_watermark_type_compatibility WmFloat ft =
     (if ft \<noteq> TypeFloat64 then Some (''watermark type float requires schema float64, got '' @ data_type_name ft) else None)"
| "check_watermark_type_compatibility WmTimestamp ft =
     (if ft \<noteq> TypeTimestamp then Some (''watermark type timestamp requires schema timestamp, got '' @ data_type_name ft) else None)"
| "check_watermark_type_compatibility WmDate ft =
     (if ft \<noteq> TypeTimestamp then Some (''watermark type date requires schema timestamp, got '' @ data_type_name ft) else None)"
| "check_watermark_type_compatibility WmString ft =
     (if ft \<noteq> TypeString then Some (''watermark type string requires schema string, got '' @ data_type_name ft) else None)"
| "check_watermark_type_compatibility (WmOther s) ft = None"

text \<open>The watermark of the manifest, from the database source first, and whether it counts records.\<close>

definition active_watermark :: "pipeline_config \<Rightarrow> (watermark_config \<times> bool) option" where
  "active_watermark c = (case map_option ds_watermark (pl_database c) of
      Some (Some w) \<Rightarrow> Some (w, False)
    | _ \<Rightarrow> (case pl_api c of None \<Rightarrow> None | Some a \<Rightarrow> map_option (\<lambda>w. (w, watermark_is_offset a)) (as_watermark a)))"

definition validate_watermark :: "go_env \<Rightarrow> wm_env \<Rightarrow> pipeline_config \<Rightarrow> config_error option" where
  "validate_watermark env wenv c =
     (if so_watermark (pl_source c) \<noteq> None \<and> pl_database c = None \<and> pl_api c = None
      then Some (ConfigError ''watermark is not supported for file sources'')
      else case active_watermark c of
        None \<Rightarrow> None
      | Some (wm, is_offset) \<Rightarrow>
          (case watermark_validate wm of
             Some e \<Rightarrow> Some (ConfigWatermark e)
           | None \<Rightarrow>
               (case watermark_incoming wenv wm of
                  Inl e \<Rightarrow> Some (ConfigWatermark e)
                | Inr _ \<Rightarrow>
                    let d = pl_destination c; fmt = to_lower (trim_space (de_output_format d)) in
                    if fmt \<noteq> ''parquet'' then
                      Some (ConfigError (''incremental watermark requires destination output_format to be parquet, got '' @ go_quote env fmt))
                    else if en_type (de_encryption d) \<noteq> [] \<and> to_lower (en_type (de_encryption d)) \<noteq> ''none'' then
                      Some (ConfigError (''incremental watermark is not supported with destination encryption '' @ go_quote env (en_type (de_encryption d))))
                    else if de_type d = ''rest_api'' \<or> de_type d = ''bigquery'' then
                      Some (ConfigError (''incremental watermark is not supported for destination type '' @ go_quote env (de_type d)))
                    else if is_gcs (de_output_path d) then
                      Some (ConfigError ''incremental watermark is currently not supported for gcs destinations'')
                    else if is_offset \<or> sch_fields (get_schema c) = [] then None
                    else (case find_field 0 (wc_column wm) (sch_fields (get_schema c)) of
                        None \<Rightarrow> Some (ConfigError (''watermark column '' @ go_quote env (wc_column wm) @ '' not found in schema''))
                      | Some (f, _) \<Rightarrow> map_option
                          (\<lambda>e. ConfigError (''watermark column '' @ go_quote env (wc_column wm) @ '' type incompatible: '' @ e))
                          (check_watermark_type_compatibility (wc_type wm) (field_type f))))))"

definition config_validate :: "go_env \<Rightarrow> wm_env \<Rightarrow> pipeline_config \<Rightarrow> pipeline_config \<times> config_error option" where
  "config_validate env wenv c =
     (case validate_all [check_not_empty ''pipeline_id'' (pl_pipeline_id c), check_not_empty ''run_id'' (pl_run_id c)] of
        Some e \<Rightarrow> (c, Some (ConfigError e))
      | None \<Rightarrow> (case validate_source_config c of
          Some e \<Rightarrow> (c, Some (ConfigError e))
        | None \<Rightarrow> (case validate_database_config c of
            Some e \<Rightarrow> (c, Some (ConfigError e))
          | None \<Rightarrow> (case validate_api_config wenv c of
              Some e \<Rightarrow> (c, Some (ConfigError e))
            | None \<Rightarrow> (case validate_destination_config env (pl_destination c) of
                (d, Some e) \<Rightarrow> (c\<lparr>pl_destination := d\<rparr>, Some (ConfigError e))
              | (d, None) \<Rightarrow> let c1 = c\<lparr>pl_destination := d\<rparr> in (c1, validate_watermark env wenv c1))))))"

definition normalize_and_validate :: "go_env \<Rightarrow> wm_env \<Rightarrow> pipeline_config \<Rightarrow> pipeline_config \<times> config_error option" where
  "normalize_and_validate env wenv c = config_validate env wenv (config_apply_defaults c)"

text \<open>\<^verbatim>\<open>ParsePipelineConfig\<close>, with \<^verbatim>\<open>json.Unmarshal\<close> as an argument; its two error prefixes are the two \<^term>\<open>Inl\<close> sides.\<close>

definition parse_pipeline_config ::
  "go_env \<Rightarrow> wm_env \<Rightarrow> (string \<Rightarrow> string + pipeline_config) \<Rightarrow> string \<Rightarrow> (string + config_error) + pipeline_config" where
  "parse_pipeline_config env wenv unmarshal bytes =
     (case unmarshal bytes of
        Inl e \<Rightarrow> Inl (Inl (''invalid config json: '' @ e))
      | Inr cfg \<Rightarrow> (case normalize_and_validate env wenv cfg of
          (c, Some e) \<Rightarrow> Inl (Inr e) | (c, None) \<Rightarrow> Inr c))"

section \<open>Defaults are idempotent\<close>

lemma or_default_idem [simp]: "or_default z (or_default z v d) d = or_default z v d"
  by (simp add: or_default_def)

lemma or_default_f64_idem [simp]:
  "\<not> f64_is_zero d \<Longrightarrow> or_default_f64 (or_default_f64 v d) d = or_default_f64 v d"
  by (simp add: or_default_f64_def)

lemma lower_char_neutral:
  assumes "char_code c < 65 \<or> 122 < char_code c"
  shows "lower_char x = c \<longleftrightarrow> x = c"
  using assms by (cases "65 \<le> (of_char x :: nat) \<and> (of_char x :: nat) \<le> 90")
    (auto simp: lower_char_def char_code_def)

lemma strip_prefix_lower:
  assumes "\<forall>c \<in> set p. char_code c < 65 \<or> 122 < char_code c"
  shows "strip_prefix p (map lower_char s) = map_option (map lower_char) (strip_prefix p s)"
  using assms
proof (induction p s rule: strip_prefix.induct)
  case (3 a as b bs)
  then show ?case using lower_char_neutral [of a b] by auto
qed auto

lemma first_strip_lower:
  assumes "\<forall>p \<in> set ps. \<forall>c \<in> set p. char_code c < 65 \<or> 122 < char_code c"
  shows "first_strip ps (map lower_char s) = map_option (map lower_char) (first_strip ps s)"
  using assms by (induction ps) (auto simp: strip_prefix_lower split: option.splits)

lemma trim_left_lower:
  assumes "\<forall>p \<in> set ps. \<forall>c \<in> set p. char_code c < 65 \<or> 122 < char_code c"
  shows "trim_left_seqs ps (map lower_char s) = map lower_char (trim_left_seqs ps s)"
  using assms
proof (induction ps s rule: trim_left_seqs.induct)
  case (1 ps s)
  show ?case
  proof (cases "first_strip ps s")
    case None
    then show ?thesis using first_strip_lower [OF 1(2), of s] by (simp add: trim_left_seqs.simps [of ps])
  next
    case (Some r)
    then show ?thesis using first_strip_lower [OF 1(2), of s] 1(1) [OF Some] 1(2)
      by (simp add: trim_left_seqs.simps [of ps s] trim_left_seqs.simps [of ps "map lower_char s"])
  qed
qed

lemma space_seqs_neutral: "\<forall>p \<in> set space_seqs. \<forall>c \<in> set p. char_code c < 65 \<or> 122 < char_code c"
  by (simp add: space_seqs_def char_code_def)

lemma trim_space_lower: "trim_space (to_lower s) = to_lower (trim_space s)"
proof -
  have r: "\<forall>p \<in> set (map rev space_seqs). \<forall>c \<in> set p. char_code c < 65 \<or> 122 < char_code c"
    using space_seqs_neutral by auto
  show ?thesis
    by (simp only: trim_space_def trim_right_seqs_def to_lower_def trim_left_lower [OF space_seqs_neutral]
        rev_map trim_left_lower [OF r])
qed

lemma lower_char_idem [simp]: "lower_char (lower_char c) = lower_char c"
  by (simp add: lower_char_def)

lemma normal_text_idem [simp]: "to_lower (trim_space (to_lower (trim_space s))) = to_lower (trim_space s)"
  by (simp add: trim_space_lower) (simp add: to_lower_def)

lemma or_default_normal:
  assumes "to_lower (trim_space d) = d"
  shows "to_lower (trim_space (or_default [] (to_lower (trim_space s)) d)) = or_default [] (to_lower (trim_space s)) d"
  using assms by (simp add: or_default_def)

lemma schema_defaults_idem [simp]: "schema_apply_defaults (schema_apply_defaults s) = schema_apply_defaults s"
  by (simp add: schema_apply_defaults_def)

lemma schema_defaults_empty [simp]: "sch_fields (schema_apply_defaults s) = [] \<longleftrightarrow> sch_fields s = []"
  by (simp add: schema_apply_defaults_def)

lemma default_texts_normal:
  "to_lower (trim_space ''csv'') = ''csv''" "to_lower (trim_space ''utf-8'') = ''utf-8''"
  "to_lower (trim_space ''none'') = ''none''" "to_lower (trim_space ''file'') = ''file''"
  by (simp_all add: trim_space_visible ascii_visible_def to_lower_def lower_char_def)

lemma source_defaults_idem [simp]: "source_apply_defaults (source_apply_defaults s) = source_apply_defaults s"
  by (simp add: source_apply_defaults_def or_default_normal default_texts_normal)

lemma f64_defaults_nonzero: "\<not> f64_is_zero f64_two" "\<not> f64_is_zero f64_fifty"
  by (simp_all add: f64_is_zero_def f64_magnitude_def f64_two_def f64_fifty_def)

lemma resilience_defaults_idem [simp]: "resilience_apply_defaults (resilience_apply_defaults r) = resilience_apply_defaults r"
  by (simp add: resilience_apply_defaults_def f64_defaults_nonzero)

lemma pagination_defaults_idem [simp]: "pagination_apply_defaults (pagination_apply_defaults p) = pagination_apply_defaults p"
  by (simp add: pagination_apply_defaults_def or_default_def)

lemma api_source_defaults_idem [simp]: "api_source_apply_defaults (api_source_apply_defaults a) = api_source_apply_defaults a"
  by (simp add: api_source_apply_defaults_def)

lemma database_defaults_idem [simp]: "database_apply_defaults (database_apply_defaults d) = database_apply_defaults d"
  by (simp add: database_apply_defaults_def partition_apply_defaults_def pool_apply_defaults_def)

lemma sink_defaults_idem [simp]:
  "api_sink_apply_defaults (api_sink_apply_defaults a) = api_sink_apply_defaults a"
  "format_apply_defaults (format_apply_defaults f) = format_apply_defaults f"
  "encryption_apply_defaults (encryption_apply_defaults e) = encryption_apply_defaults e"
  by (simp_all add: api_sink_apply_defaults_def format_apply_defaults_def encryption_apply_defaults_def
      or_default_normal default_texts_normal)

lemma destination_type_normal:
  "to_lower (trim_space (de_type (destination_apply_defaults d))) = de_type (destination_apply_defaults d)"
  "de_type (destination_apply_defaults d) \<noteq> []"
  by (simp_all add: destination_apply_defaults_def Let_def or_default_normal default_texts_normal, simp add: or_default_def)

lemma destination_format_normal:
  "to_lower (trim_space (de_output_format (destination_apply_defaults d))) = de_output_format (destination_apply_defaults d)"
  "de_output_format (destination_apply_defaults d) \<noteq> []"
  by (simp_all add: destination_apply_defaults_def Let_def or_default_def default_texts_normal)

lemma destination_defaults_idem [simp]: "destination_apply_defaults (destination_apply_defaults d) = destination_apply_defaults d"
proof -
  let ?e = "destination_apply_defaults d"
  have t: "trim_space (de_output_format ?e) \<noteq> []"
    using destination_format_normal [of d] by (metis to_lower_def list.map_disc_iff)
  have parts: "de_api_options ?e = api_sink_apply_defaults (de_api_options d)"
    "de_format_options ?e = format_apply_defaults (de_format_options d)"
    "de_encryption ?e = encryption_apply_defaults (de_encryption d)"
    by (simp_all add: destination_apply_defaults_def Let_def)
  have "destination_apply_defaults ?e = ?e\<lparr>de_type := de_type ?e, de_output_format := de_output_format ?e,
      de_api_options := de_api_options ?e, de_format_options := de_format_options ?e, de_encryption := de_encryption ?e\<rparr>"
    by (subst destination_apply_defaults_def) (simp add: Let_def t destination_type_normal destination_format_normal or_default_def parts)
  then show ?thesis by simp
qed

lemma path_join_nonempty: "p \<noteq> [] \<Longrightarrow> path_join (p # ps) \<noteq> []"
  by (simp add: path_join_def path_clean_def Let_def)

lemma path_dir_nonempty: "path_dir p \<noteq> []"
  by (simp add: path_dir_def path_clean_def Let_def)

lemma quarantine_default_idem [simp]: "quarantine_default d (quarantine_default d q) = quarantine_default d q"
  by (simp add: quarantine_default_def path_join_nonempty path_dir_nonempty)

lemma copied_once: "copy_schema (config_apply_defaults c) = config_apply_defaults c"
  by (auto simp: config_apply_defaults_def copy_schema_def schema_is_copied_def source_apply_defaults_def Let_def split: option.splits)

lemma runner_default [simp]: "or_default [] (pl_runner (config_apply_defaults c)) ''direct'' = pl_runner (config_apply_defaults c)"
  by (simp add: config_apply_defaults_def Let_def copy_schema_def or_default_def split: option.splits)

lemma config_defaults_parts:
  "source_apply_defaults (pl_source (config_apply_defaults c)) = pl_source (config_apply_defaults c)"
  "map_option database_apply_defaults (pl_database (config_apply_defaults c)) = pl_database (config_apply_defaults c)"
  "map_option api_source_apply_defaults (pl_api (config_apply_defaults c)) = pl_api (config_apply_defaults c)"
  "destination_apply_defaults (pl_destination (config_apply_defaults c)) = pl_destination (config_apply_defaults c)"
  "quarantine_default (pl_destination (config_apply_defaults c)) (pl_dlq (config_apply_defaults c)) = pl_dlq (config_apply_defaults c)"
  by (simp_all add: config_apply_defaults_def Let_def option.map_comp comp_def)

text \<open>Everything the defaults would fill in is there.\<close>

definition defaulted :: "pipeline_config \<Rightarrow> bool" where
  "defaulted c \<longleftrightarrow> config_apply_defaults c = c"

lemma defaultedI:
  assumes "or_default [] (pl_runner c) ''direct'' = pl_runner c" "copy_schema c = c"
    "source_apply_defaults (pl_source c) = pl_source c" "map_option database_apply_defaults (pl_database c) = pl_database c"
    "map_option api_source_apply_defaults (pl_api c) = pl_api c" "destination_apply_defaults (pl_destination c) = pl_destination c"
    "quarantine_default (pl_destination c) (pl_dlq c) = pl_dlq c"
  shows "defaulted c"
proof -
  have "c\<lparr>pl_runner := or_default [] (pl_runner c) ''direct''\<rparr> = c" using assms(1) by simp
  then show ?thesis using assms(2-) by (simp add: defaulted_def config_apply_defaults_def Let_def)
qed

lemma defaults_defaulted: "defaulted (config_apply_defaults c)"
  by (rule defaultedI) (simp_all add: config_defaults_parts copied_once)

lemma copy_schema_destination: "copy_schema (c\<lparr>pl_destination := d\<rparr>) = (copy_schema c)\<lparr>pl_destination := d\<rparr>"
  by (simp add: copy_schema_def schema_is_copied_def split: option.splits)

lemma destination_defaults_bigquery:
  "destination_apply_defaults (d\<lparr>de_bigquery := b\<rparr>) = (destination_apply_defaults d)\<lparr>de_bigquery := b\<rparr>"
  by (simp add: destination_apply_defaults_def Let_def)

lemma quarantine_default_bigquery: "quarantine_default (d\<lparr>de_bigquery := b\<rparr>) q = quarantine_default d q"
  by (simp add: quarantine_default_def)

lemma defaulted_bigquery:
  assumes "defaulted c"
  shows "defaulted (c\<lparr>pl_destination := (pl_destination c)\<lparr>de_bigquery := b\<rparr>\<rparr>)"
proof -
  have c: "config_apply_defaults c = c" using assms by (simp add: defaulted_def)
  show ?thesis
    using runner_default [of c] copied_once [of c] config_defaults_parts [of c]
    by (intro defaultedI) (simp_all add: c copy_schema_destination destination_defaults_bigquery quarantine_default_bigquery)
qed

section \<open>Validation\<close>

lemma validate_all_None [simp]: "validate_all es = None \<longleftrightarrow> (\<forall>e \<in> set es. e = None)"
  by (induction es) (auto split: option.splits)

lemma bigquery_validate_ok:
  assumes "bigquery_validate env b = (b', None)"
  shows "bigquery_validate env b' = (b', None)"
  using assms by (auto simp: bigquery_validate_def Let_def or_default_def split: if_splits)

lemma validate_destination_ok:
  assumes "validate_destination_config env d = (d', None)"
  shows "\<exists>b. d' = d\<lparr>de_bigquery := b\<rparr> \<and> validate_destination_config env d' = (d', None)"
proof -
  obtain b e where b: "(if de_type d = ''bigquery'' then bigquery_validate env (de_bigquery d) else (de_bigquery d, None)) = (b, e)"
    by (meson surj_pair)
  have d': "d' = d\<lparr>de_bigquery := b\<rparr>" and e: "e = None"
    using assms b by (auto simp: validate_destination_config_def split: if_splits option.splits prod.splits)
  have b': "(if de_type d = ''bigquery'' then bigquery_validate env b else (b, None)) = (b, None)"
    using b e bigquery_validate_ok by (auto split: if_splits)
  have "validate_destination_config env d' = (d', None)"
    using assms b b' e unfolding d' validate_destination_config_def
    by (simp split: if_splits option.splits)
  then show ?thesis using d' by blast
qed

lemma config_validate_accepts:
  "config_validate env wenv c = (c', None) \<longleftrightarrow>
     trim_space (pl_pipeline_id c) \<noteq> [] \<and> trim_space (pl_run_id c) \<noteq> [] \<and> validate_source_config c = None \<and>
     validate_database_config c = None \<and> validate_api_config wenv c = None \<and>
     validate_destination_config env (pl_destination c) = (pl_destination c', None) \<and>
     c' = c\<lparr>pl_destination := pl_destination c'\<rparr> \<and> validate_watermark env wenv c' = None"
proof -
  have ids: "validate_all [check_not_empty ''pipeline_id'' (pl_pipeline_id c), check_not_empty ''run_id'' (pl_run_id c)] = None
      \<longleftrightarrow> trim_space (pl_pipeline_id c) \<noteq> [] \<and> trim_space (pl_run_id c) \<noteq> []"
    by (simp add: check_not_empty_def)
  obtain d e where d: "validate_destination_config env (pl_destination c) = (d, e)" by (meson surj_pair)
  have swap: "c\<lparr>pl_destination := d\<rparr> = c' \<longleftrightarrow> d = pl_destination c' \<and> c' = c\<lparr>pl_destination := pl_destination c'\<rparr>"
    by auto
  let ?i = "validate_all [check_not_empty ''pipeline_id'' (pl_pipeline_id c), check_not_empty ''run_id'' (pl_run_id c)]"
  have "config_validate env wenv c = (c', None) \<longleftrightarrow> ?i = None \<and> validate_source_config c = None \<and>
     validate_database_config c = None \<and> validate_api_config wenv c = None \<and> e = None \<and> c\<lparr>pl_destination := d\<rparr> = c' \<and>
     validate_watermark env wenv c' = None"
    unfolding config_validate_def d
    by (cases ?i; cases "validate_source_config c"; cases "validate_database_config c"; cases "validate_api_config wenv c"; cases e)
      (simp_all only: option.case prod.case prod.inject Let_def option.distinct simp_thms, blast)
  then show ?thesis unfolding swap ids d by blast
qed

lemma destination_keeps:
  "pl_source (c\<lparr>pl_destination := d\<rparr>) = pl_source c" "pl_database (c\<lparr>pl_destination := d\<rparr>) = pl_database c"
  "pl_api (c\<lparr>pl_destination := d\<rparr>) = pl_api c"
  by simp_all

lemma validate_parts_destination [simp]:
  "validate_source_config (c\<lparr>pl_destination := d\<rparr>) = validate_source_config c"
  "validate_database_config (c\<lparr>pl_destination := d\<rparr>) = validate_database_config c"
  "validate_api_config wenv (c\<lparr>pl_destination := d\<rparr>) = validate_api_config wenv c"
  by (simp_all only: validate_source_config_def validate_database_config_def validate_api_config_def destination_keeps)

lemma config_validate_ok:
  assumes "config_validate env wenv c = (c', None)"
  shows "\<exists>b. c' = c\<lparr>pl_destination := (pl_destination c)\<lparr>de_bigquery := b\<rparr>\<rparr>"
    "config_validate env wenv c' = (c', None)"
proof -
  note a = assms [unfolded config_validate_accepts]
  obtain b where b: "pl_destination c' = (pl_destination c)\<lparr>de_bigquery := b\<rparr>"
    and dd: "validate_destination_config env (pl_destination c') = (pl_destination c', None)"
    using validate_destination_ok a by blast
  have c': "c' = c\<lparr>pl_destination := pl_destination c'\<rparr>" using a by blast
  show "\<exists>b. c' = c\<lparr>pl_destination := (pl_destination c)\<lparr>de_bigquery := b\<rparr>\<rparr>" using c' b by metis
  have "pl_pipeline_id c' = pl_pipeline_id c" "pl_run_id c' = pl_run_id c"
    "validate_source_config c' = validate_source_config c" "validate_database_config c' = validate_database_config c"
    "validate_api_config wenv c' = validate_api_config wenv c"
    by (subst c', simp)+
  then show "config_validate env wenv c' = (c', None)" using a dd unfolding config_validate_accepts by simp
qed

section \<open>What acceptance guarantees\<close>

lemma or_default_nonneg_positive: "0 \<le> or_default 0 v d \<Longrightarrow> 0 < d \<Longrightarrow> 0 < or_default 0 v (d :: int)"
  by (simp add: or_default_def split: if_splits)

lemma check_non_negative_None [simp]: "check_non_negative n v = None \<longleftrightarrow> 0 \<le> v"
  by (auto simp: check_non_negative_def)

lemma check_not_empty_None [simp]: "check_not_empty n v = None \<longleftrightarrow> trim_space v \<noteq> []"
  by (auto simp: check_not_empty_def)

lemma defaults_select:
  "pg_page_size (pagination_apply_defaults p) = or_default 0 (pg_page_size p) 100"
  "pg_max_pages_limit (pagination_apply_defaults p) = or_default 0 (pg_max_pages_limit p) 10000"
  "rc_max_retries (resilience_apply_defaults r) = or_default 0 (rc_max_retries r) 3"
  "rc_breaker_fails (resilience_apply_defaults r) = or_default 0 (rc_breaker_fails r) 5"
  "pc_batch_size (ds_partition (database_apply_defaults d)) = or_default 0 (pc_batch_size (ds_partition d)) 2500"
  "pool_max_open (ds_pool (database_apply_defaults d)) = or_default 0 (pool_max_open (ds_pool d)) 4"
  "pool_max_idle (ds_pool (database_apply_defaults d)) = or_default 0 (pool_max_idle (ds_pool d)) 2"
  by (simp_all add: pagination_apply_defaults_def resilience_apply_defaults_def database_apply_defaults_def
      partition_apply_defaults_def pool_apply_defaults_def)

lemma all_paths_trimmed: "p \<in> set (all_paths s) \<Longrightarrow> p \<noteq> [] \<and> trim_space p = p"
  by (auto simp: all_paths_def Let_def split: if_splits)

lemma source_accepted:
  assumes "validate_source_config c = None" "source_apply_defaults (pl_source c) = pl_source c"
  shows "0 < so_chunk_size_bytes (pl_source c)"
    "pl_database c = None \<Longrightarrow> pl_api c = None \<Longrightarrow> so_type (pl_source c) \<noteq> ''database'' \<Longrightarrow> so_type (pl_source c) \<noteq> ''api'' \<Longrightarrow>
     all_paths (pl_source c) \<noteq> [] \<and> sch_fields (so_schema (pl_source c)) \<noteq> []"
proof -
  have "so_chunk_size_bytes (pl_source c) = or_default 0 (so_chunk_size_bytes (pl_source c)) (64 * 1024 * 1024)"
    using arg_cong [OF assms(2), of so_chunk_size_bytes] by (simp add: source_apply_defaults_def)
  moreover have "0 \<le> so_chunk_size_bytes (pl_source c)"
    using assms(1) by (auto simp: validate_source_config_def split: option.splits)
  ultimately show "0 < so_chunk_size_bytes (pl_source c)"
    using or_default_nonneg_positive [of "so_chunk_size_bytes (pl_source c)" "64 * 1024 * 1024"] by simp
  show "all_paths (pl_source c) \<noteq> [] \<and> sch_fields (so_schema (pl_source c)) \<noteq> []"
    if "pl_database c = None" "pl_api c = None" "so_type (pl_source c) \<noteq> ''database''" "so_type (pl_source c) \<noteq> ''api''"
    using assms(1) that by (auto simp: validate_source_config_def split: option.splits if_splits)
qed

lemma database_accepted:
  assumes "validate_database_config c = None" "map_option database_apply_defaults (pl_database c) = pl_database c" "pl_database c = Some d"
  shows "0 < pc_batch_size (ds_partition d) \<and> 0 < pool_max_open (ds_pool d) \<and> 0 < pool_max_idle (ds_pool d) \<and>
    (trim_space (ds_query d) \<noteq> [] \<or> trim_space (ds_table d) \<noteq> []) \<and> sch_fields (ds_schema d) \<noteq> []"
proof -
  have d: "database_apply_defaults d = d" using assms(2,3) by simp
  have dd: "pc_batch_size (ds_partition d) = or_default 0 (pc_batch_size (ds_partition d)) 2500"
    "pool_max_open (ds_pool d) = or_default 0 (pool_max_open (ds_pool d)) 4"
    "pool_max_idle (ds_pool d) = or_default 0 (pool_max_idle (ds_pool d)) 2"
    by (metis d defaults_select)+
  have v: "0 \<le> pc_batch_size (ds_partition d)" "0 \<le> pool_max_open (ds_pool d)" "0 \<le> pool_max_idle (ds_pool d)"
    and rest: "trim_space (ds_query d) \<noteq> [] \<or> trim_space (ds_table d) \<noteq> []" "sch_fields (ds_schema d) \<noteq> []"
    using assms(1,3) by (auto simp: validate_database_config_def split: option.splits if_splits)
  show ?thesis using v rest dd or_default_nonneg_positive by (metis zero_less_numeral)
qed

lemma api_accepted:
  assumes "validate_api_config wenv c = None" "map_option api_source_apply_defaults (pl_api c) = pl_api c" "pl_api c = Some a"
  shows "0 < pg_page_size (as_pagination a) \<and> 0 < pg_max_pages_limit (as_pagination a) \<and> 0 < rc_max_retries (as_retry a) \<and>
    0 < rc_breaker_fails (as_retry a) \<and> trim_space (as_base_url a) \<noteq> [] \<and> sch_fields (as_schema a) \<noteq> []"
proof -
  have a: "api_source_apply_defaults a = a" using assms(2,3) by simp
  have "pagination_apply_defaults (as_pagination a) = as_pagination a" "resilience_apply_defaults (as_retry a) = as_retry a"
    using arg_cong [OF a, of as_pagination] arg_cong [OF a, of as_retry] by (simp_all add: api_source_apply_defaults_def)
  then have dd: "pg_page_size (as_pagination a) = or_default 0 (pg_page_size (as_pagination a)) 100"
    "pg_max_pages_limit (as_pagination a) = or_default 0 (pg_max_pages_limit (as_pagination a)) 10000"
    "rc_max_retries (as_retry a) = or_default 0 (rc_max_retries (as_retry a)) 3"
    "rc_breaker_fails (as_retry a) = or_default 0 (rc_breaker_fails (as_retry a)) 5"
    by (metis defaults_select)+
  have r: "0 \<le> rc_max_retries (as_retry a)" "0 \<le> rc_breaker_fails (as_retry a)" if "resilience_validate wenv (as_retry a) = None"
    using that by (simp_all add: resilience_validate_def del: validate_all.simps)
  have v: "0 \<le> pg_page_size (as_pagination a)" "0 \<le> pg_max_pages_limit (as_pagination a)"
    "resilience_validate wenv (as_retry a) = None" "trim_space (as_base_url a) \<noteq> []" "sch_fields (as_schema a) \<noteq> []"
    using assms(1,3) by (auto simp: validate_api_config_def split: option.splits if_splits)
  show ?thesis using v r dd or_default_nonneg_positive by (metis zero_less_numeral)
qed

text \<open>A watermark is only accepted with a local, unencrypted Parquet output whose schema has the column at its type.\<close>

lemma watermark_accepted:
  assumes "validate_watermark env wenv c = None" "active_watermark c = Some (wm, off)"
  shows "watermark_validate wm = None" "\<exists>inc. watermark_incoming wenv wm = Inr inc"
    "to_lower (trim_space (de_output_format (pl_destination c))) = ''parquet''"
    "\<not> is_gcs (de_output_path (pl_destination c))"
    "off \<or> sch_fields (get_schema c) = [] \<or> (\<exists>f i. find_field 0 (wc_column wm) (sch_fields (get_schema c)) = Some (f, i) \<and>
       check_watermark_type_compatibility (wc_type wm) (field_type f) = None)"
proof -
  have no: "\<not> (so_watermark (pl_source c) \<noteq> None \<and> pl_database c = None \<and> pl_api c = None)"
  proof
    assume "so_watermark (pl_source c) \<noteq> None \<and> pl_database c = None \<and> pl_api c = None"
    then have "validate_watermark env wenv c = Some (ConfigError ''watermark is not supported for file sources'')"
      unfolding validate_watermark_def by (rule if_P)
    with assms(1) show False by simp
  qed
  note v = assms(1) [unfolded validate_watermark_def if_not_P [OF no] assms(2) option.case prod.case]
  show w: "watermark_validate wm = None" using v by (cases "watermark_validate wm") simp_all
  show i: "\<exists>inc. watermark_incoming wenv wm = Inr inc" using v w by (cases "watermark_incoming wenv wm") simp_all
  obtain inc where "watermark_incoming wenv wm = Inr inc" using i by blast
  note v2 = v [unfolded w this option.case sum.case Let_def]
  show "to_lower (trim_space (de_output_format (pl_destination c))) = ''parquet''" using v2 by (simp split: if_splits)
  show "\<not> is_gcs (de_output_path (pl_destination c))" using v2 by (simp split: if_splits)
  show "off \<or> sch_fields (get_schema c) = [] \<or> (\<exists>f i. find_field 0 (wc_column wm) (sch_fields (get_schema c)) = Some (f, i) \<and>
       check_watermark_type_compatibility (wc_type wm) (field_type f) = None)"
    using v2 by (auto split: if_splits option.splits prod.splits)
qed

text \<open>A manifest that is accepted is in normal form: applying the defaults and validating it again accepts it and
  changes nothing (\<^verbatim>\<open>NormalizeAndValidate\<close> may run on the submitter and again on a worker).\<close>

lemma accepted_config_is_normal:
  assumes "normalize_and_validate env wenv c = (c', None)"
  shows "normalize_and_validate env wenv c' = (c', None)"
proof -
  have v: "config_validate env wenv (config_apply_defaults c) = (c', None)"
    using assms by (simp add: normalize_and_validate_def)
  have "defaulted c'" using config_validate_ok(1) [OF v] defaulted_bigquery [OF defaults_defaulted] by auto
  then show ?thesis using config_validate_ok(2) [OF v] by (simp add: normalize_and_validate_def defaulted_def)
qed

text \<open>C22. What acceptance guarantees: identifiers that are not blank; a chunk size, partition size, page size, page
  limit, retry count and connection limits that are strictly positive; for a file pipeline at least one path, all of them trimmed, and a
  schema; for a database a table or a query; and with a watermark a column name and a value that parse, a Parquet output that is not on
  GCS, and, unless it counts records, a schema whose first column of that name has the type of the watermark.\<close>

theorem accepted_config_sound:
  assumes "normalize_and_validate env wenv c = (c', None)"
  shows "trim_space (pl_pipeline_id c') \<noteq> [] \<and> trim_space (pl_run_id c') \<noteq> [] \<and> 0 < so_chunk_size_bytes (pl_source c') \<and>
    (pl_database c' = None \<and> pl_api c' = None \<and> so_type (pl_source c') \<notin> {''database'', ''api''} \<longrightarrow>
       all_paths (pl_source c') \<noteq> [] \<and> (\<forall>p \<in> set (all_paths (pl_source c')). p \<noteq> [] \<and> trim_space p = p) \<and>
       sch_fields (so_schema (pl_source c')) \<noteq> []) \<and>
    (\<forall>d. pl_database c' = Some d \<longrightarrow> 0 < pc_batch_size (ds_partition d) \<and> 0 < pool_max_open (ds_pool d) \<and>
       0 < pool_max_idle (ds_pool d) \<and> (trim_space (ds_query d) \<noteq> [] \<or> trim_space (ds_table d) \<noteq> []) \<and> sch_fields (ds_schema d) \<noteq> []) \<and>
    (\<forall>a. pl_api c' = Some a \<longrightarrow> 0 < pg_page_size (as_pagination a) \<and> 0 < pg_max_pages_limit (as_pagination a) \<and>
       0 < rc_max_retries (as_retry a) \<and> 0 < rc_breaker_fails (as_retry a) \<and> trim_space (as_base_url a) \<noteq> [] \<and> sch_fields (as_schema a) \<noteq> []) \<and>
    (\<forall>wm off. active_watermark c' = Some (wm, off) \<longrightarrow>
       valid_column_identifier (trim_space (wc_column wm)) \<and> (\<exists>inc. watermark_incoming wenv wm = Inr inc) \<and>
       de_output_format (pl_destination c') = ''parquet'' \<and> \<not> is_gcs (de_output_path (pl_destination c')) \<and>
       (off \<or> sch_fields (get_schema c') = [] \<or> (\<exists>f i. find_field 0 (wc_column wm) (sch_fields (get_schema c')) = Some (f, i) \<and>
          check_watermark_type_compatibility (wc_type wm) (field_type f) = None)))"
proof -
  have v0: "config_validate env wenv (config_apply_defaults c) = (c', None)"
    using assms by (simp add: normalize_and_validate_def)
  have df: "config_apply_defaults c' = c'"
    using config_validate_ok(1) [OF v0] defaulted_bigquery [OF defaults_defaulted] by (auto simp: defaulted_def)
  note v = config_validate_ok(2) [OF v0, unfolded config_validate_accepts]
  note parts = config_defaults_parts [of c', unfolded df]
  have fmt: "to_lower (trim_space (de_output_format (pl_destination c'))) = de_output_format (pl_destination c')"
    using destination_format_normal(1) [of "pl_destination c'"] parts(4) by simp
  have col: "valid_column_identifier (trim_space (wc_column wm))" if "watermark_validate wm = None" for wm
    using that by (auto simp: watermark_validate_def Let_def split: if_splits)
  have wm: "valid_column_identifier (trim_space (wc_column wm)) \<and> (\<exists>inc. watermark_incoming wenv wm = Inr inc) \<and>
       de_output_format (pl_destination c') = ''parquet'' \<and> \<not> is_gcs (de_output_path (pl_destination c')) \<and>
       (off \<or> sch_fields (get_schema c') = [] \<or> (\<exists>f i. find_field 0 (wc_column wm) (sch_fields (get_schema c')) = Some (f, i) \<and>
          check_watermark_type_compatibility (wc_type wm) (field_type f) = None))"
    if "active_watermark c' = Some (wm, off)" for wm off
  proof -
    have w: "validate_watermark env wenv c' = None" using v by blast
    note a = watermark_accepted [OF w that]
    show ?thesis using col [OF a(1)] a(2,3,4,5) fmt by simp
  qed
  have src: "validate_source_config c' = None" and db: "validate_database_config c' = None" and api: "validate_api_config wenv c' = None"
    and ids: "trim_space (pl_pipeline_id c') \<noteq> []" "trim_space (pl_run_id c') \<noteq> []"
    using v by blast+
  show ?thesis
    using ids source_accepted [OF src parts(1)] all_paths_trimmed [of _ "pl_source c'"]
      database_accepted [OF db parts(2)] api_accepted [OF api parts(3)] wm
    by (intro conjI allI impI ballI) (blast | simp)+
qed

section \<open>An example\<close>

text \<open>The zero values a manifest leaves where it says nothing, and a database pipeline with a watermark.\<close>

definition zero_resilience :: resilience_config where
  "zero_resilience = \<lparr>rc_max_retries = 0, rc_initial_backoff_ms = 0, rc_max_backoff_ms = 0, rc_backoff_multiplier = 0,
     rc_rate_limit_rps = 0, rc_timeout_ms = 0, rc_breaker_fails = 0, rc_breaker_timeout_ms = 0, rc_half_open_limit = 0\<rparr>"

definition zero_source :: source_config where
  "zero_source = \<lparr>so_type = [], so_path = [], so_paths = [], so_format = [], so_delimiter = [], so_quote_char = [],
     so_multiline = False, so_charset = [], so_compression = [], so_chunk_size_bytes = 0,
     so_schema = \<lparr>sch_fields = [], name_idx = None\<rparr>, so_watermark = None\<rparr>"

definition zero_destination :: destination_config where
  "zero_destination = \<lparr>de_type = [], de_format = [], de_output_format = [], de_output_path = [], de_metrics_dir = [],
     de_compression = [], de_encryption = \<lparr>en_type = [], en_public_key_ref = [], en_kms_key_ref = []\<rparr>, de_single_file = False,
     de_include_audit = False,
     de_format_options = \<lparr>fo_delimiter = [], fo_include_header = False, fo_charset = [], fo_line_terminator = [], fo_quote_all = False\<rparr>,
     de_endpoint = \<lparr>ae_base_url = [], ae_credential_ref = [], ae_auth_type = AuthOther [], ae_headers = []\<rparr>,
     de_api_options = \<lparr>ao_resource_path = [], ao_method = [], ao_batch_size = 0, ao_body_envelope = [], ao_rate_limit_rps = 0,
       ao_timeout_ms = 0, ao_max_retries = 0\<rparr>,
     de_bigquery = \<lparr>bc_project_id = [], bc_dataset_id = [], bc_table_id = [], bc_write_disposition = [], bc_batch_size = 0\<rparr>\<rparr>"

definition id_schema :: schema where
  "id_schema = \<lparr>sch_fields = [zero_field\<lparr>field_name := ''id'', field_type := TypeInt64\<rparr>], name_idx = None\<rparr>"

definition sample_database :: database_source_config where
  "sample_database = \<lparr>ds_driver = ''postgres'', ds_connection_uri = [], ds_host = ''db'', ds_port = 0, ds_database = [],
     ds_username = [], ds_password_ref = [], ds_query = [], ds_table = ''t'', ds_query_filter = [], ds_columns = [],
     ds_flatten_nested = False, ds_partition = \<lparr>pc_partition_column = [], pc_batch_size = 0, pc_num_partitions = 0\<rparr>,
     ds_pool = \<lparr>pool_max_open = 0, pool_max_idle = 0, pool_lifetime = 0\<rparr>, ds_resilience = zero_resilience, ds_schema = id_schema,
     ds_watermark = Some \<lparr>wc_column = ''id'', wc_type = WmInteger, wc_value = None\<rparr>\<rparr>"

definition sample_config :: pipeline_config where
  "sample_config = \<lparr>pl_pipeline_id = ''p'', pl_run_id = ''r'', pl_pipeline_type = [], pl_runner = [], pl_secrets = None,
     pl_schema = None, pl_source = zero_source, pl_database = Some sample_database, pl_api = None,
     pl_destination = zero_destination\<lparr>de_output_format := ''parquet'', de_output_path := ''out''\<rparr>,
     pl_dlq = \<lparr>dl_enabled = False, dl_quarantine_path = ''q'', dl_max_error_percentage = 0\<rparr>,
     pl_quality = \<lparr>qc_rules = []\<rparr>, pl_security = \<lparr>se_sensitive_fields = []\<rparr>\<rparr>"

lemma trim_visible_texts:
  "trim_space ''p'' = ''p''" "trim_space ''r'' = ''r''" "trim_space ''postgres'' = ''postgres''" "trim_space ''db'' = ''db''"
  "trim_space ''t'' = ''t''" "trim_space ''id'' = ''id''" "trim_space ''out'' = ''out''"
  "to_lower (trim_space ''parquet'') = ''parquet''" "to_lower ''none'' = ''none''" "to_lower [] = []"
  by (simp_all add: trim_space_visible ascii_visible_def to_lower_def lower_char_def)

lemma sample_config_accepted:
  "normalize_and_validate env wenv sample_config = (config_apply_defaults sample_config, None)"
proof -
  let ?c = "config_apply_defaults sample_config"
  let ?wm = "\<lparr>wc_column = ''id'', wc_type = WmInteger, wc_value = None\<rparr>"
  have parts: "pl_pipeline_id ?c = ''p''" "pl_run_id ?c = ''r''" "pl_api ?c = None" "pl_database ?c = Some (database_apply_defaults sample_database)"
    "pl_source ?c = source_apply_defaults zero_source" "pl_schema ?c = None"
    "pl_destination ?c = destination_apply_defaults (zero_destination\<lparr>de_output_format := ''parquet'', de_output_path := ''out''\<rparr>)"
    by (simp_all add: config_apply_defaults_def copy_schema_def sample_config_def Let_def)
  have dest: "de_type (pl_destination ?c) = ''file''" "de_output_path (pl_destination ?c) = ''out''"
    "en_type (de_encryption (pl_destination ?c)) = ''none''" "de_output_format (pl_destination ?c) = ''parquet''"
    by (simp_all add: parts zero_destination_def destination_apply_defaults_def encryption_apply_defaults_def Let_def or_default_def
        trim_visible_texts)
  have src: "validate_source_config ?c = None"
    by (simp add: validate_source_config_def parts source_apply_defaults_def zero_source_def or_default_def check_non_negative_def)
  have db: "validate_database_config ?c = None"
    by (simp add: validate_database_config_def parts database_apply_defaults_def sample_database_def partition_apply_defaults_def
        pool_apply_defaults_def or_default_def trim_visible_texts id_schema_def check_non_negative_def check_not_empty_def)
  have api: "validate_api_config wenv ?c = None" by (simp add: validate_api_config_def parts)
  have de: "validate_destination_config env (pl_destination ?c) = (pl_destination ?c, None)"
    by (simp add: validate_destination_config_def dest trim_visible_texts encryption_validate_def)
  have aw: "active_watermark ?c = Some (?wm, False)"
    by (simp add: active_watermark_def parts database_apply_defaults_def sample_database_def)
  have sch: "get_schema ?c = id_schema"
    by (simp add: get_schema_def get_source_schema_def parts database_apply_defaults_def sample_database_def id_schema_def)
  have ok: "watermark_validate ?wm = None" "watermark_incoming wenv ?wm = Inr None"
    by (simp_all add: watermark_validate_def trim_visible_texts valid_column_identifier_def is_letter_or_underscore_def char_code_def
        watermark_incoming_def)
  have gcs: "\<not> is_gcs ''out''" by (simp add: is_gcs_def has_prefix_def)
  have ff: "find_field 0 ''id'' (sch_fields id_schema) = Some (zero_field\<lparr>field_name := ''id'', field_type := TypeInt64\<rparr>, 0)"
    by (simp add: id_schema_def)
  have wm: "validate_watermark env wenv ?c = None"
    by (simp add: validate_watermark_def aw ok dest sch gcs ff trim_visible_texts parts(3,4) Let_def)
  show ?thesis
    unfolding normalize_and_validate_def config_validate_accepts
    using src db api de wm by (simp add: parts trim_visible_texts)
qed

theorem accepted_config_sound_witness:
  "0 < so_chunk_size_bytes (pl_source (config_apply_defaults sample_config)) \<and>
   de_output_format (pl_destination (config_apply_defaults sample_config)) = ''parquet''"
proof -
  note s = accepted_config_sound [OF sample_config_accepted [of sample_env sample_wm_env]]
  have "active_watermark (config_apply_defaults sample_config) = Some (\<lparr>wc_column = ''id'', wc_type = WmInteger, wc_value = None\<rparr>, False)"
    by (simp add: active_watermark_def config_apply_defaults_def copy_schema_def sample_config_def Let_def
        database_apply_defaults_def sample_database_def)
  with s show ?thesis by blast
qed

end
