(* ===== verification/Resilience.thy ===== *)
theory Resilience
  imports Omni_Prelude
begin

text \<open>
  Package \<^verbatim>\<open>pkg/resilience\<close>: the circuit breaker, the adaptive batch sizer, retries with backoff and the
  drain manager. \<^verbatim>\<open>Execute\<close> holds the breaker's mutex before and after the wrapped call but not during
  it: concurrent callers are a step relation over these two critical sections, with the clock advancing.
\<close>

section \<open>Circuit breaker (circuit_breaker.go)\<close>

datatype breaker_state = StateClosed | StateHalfOpen | StateOpen

record breaker_settings =
  st_name :: string
  st_max_failures :: u32
  st_timeout :: int
  st_half_open_limit :: u32

record circuit_breaker =
  cb_name :: string
  max_failures :: u32
  half_open_limit :: u32
  cb_timeout :: int
  cb_state :: breaker_state
  failures :: u32
  successes :: u32
  last_state_chg :: int

datatype breaker_error = NegativeTimeout string int

definition new_circuit_breaker :: "int \<Rightarrow> breaker_settings \<Rightarrow> breaker_error + circuit_breaker" where
  "new_circuit_breaker now st =
     (if st_timeout st < 0 then Inl (NegativeTimeout (st_name st) (st_timeout st))
      else Inr \<lparr>cb_name = st_name st,
        max_failures = (if st_max_failures st = 0 then 1 else st_max_failures st),
        half_open_limit = (if st_half_open_limit st = 0 then 1 else st_half_open_limit st),
        cb_timeout = (if st_timeout st = 0 then 1000000000 else st_timeout st),
        cb_state = StateClosed, failures = 0, successes = 0, last_state_chg = now\<rparr>)"

definition check_state_transition :: "int \<Rightarrow> circuit_breaker \<Rightarrow> circuit_breaker" where
  "check_state_transition now cb =
     (if cb_state cb = StateOpen \<and> now - last_state_chg cb > cb_timeout cb
      then cb\<lparr>cb_state := StateHalfOpen, failures := 0, successes := 0, last_state_chg := now\<rparr>
      else cb)"

definition breaker_query :: "int \<Rightarrow> circuit_breaker \<Rightarrow> circuit_breaker \<times> breaker_state" where
  "breaker_query now cb = (let cb1 = check_state_transition now cb in (cb1, cb_state cb1))"

text \<open>The two critical sections of \<^verbatim>\<open>Execute\<close>: the first decides whether the call is made, the second
  records its outcome.\<close>

definition execute_enter :: "int \<Rightarrow> circuit_breaker \<Rightarrow> circuit_breaker \<times> bool" where
  "execute_enter now cb = (let cb1 = check_state_transition now cb in (cb1, cb_state cb1 \<noteq> StateOpen))"

definition execute_leave :: "int \<Rightarrow> bool \<Rightarrow> circuit_breaker \<Rightarrow> circuit_breaker" where
  "execute_leave now failed cb =
     (if failed then
        let cb1 = cb\<lparr>failures := failures cb + 1\<rparr> in
        if cb_state cb1 = StateHalfOpen \<or> failures cb1 \<ge> max_failures cb1
        then cb1\<lparr>cb_state := StateOpen, last_state_chg := now\<rparr> else cb1
      else if cb_state cb = StateHalfOpen then
        let cb1 = cb\<lparr>successes := successes cb + 1\<rparr> in
        if successes cb1 \<ge> half_open_limit cb1
        then cb1\<lparr>cb_state := StateClosed, failures := 0, successes := 0, last_state_chg := now\<rparr> else cb1
      else cb)"

text \<open>\<^verbatim>\<open>Execute\<close> by one caller: \<open>outcome\<close> is the error of the wrapped function, if any; the second result tells
  whether the function was called.\<close>

datatype 'e execute_result = ErrCircuitOpen | FnReturned "'e option"

definition execute :: "int \<Rightarrow> int \<Rightarrow> 'e option \<Rightarrow> circuit_breaker \<Rightarrow> circuit_breaker \<times> 'e execute_result" where
  "execute now1 now2 outcome cb = (case execute_enter now1 cb of (cb1, ok) \<Rightarrow>
     if \<not> ok then (cb1, ErrCircuitOpen) else (execute_leave now2 (outcome \<noteq> None) cb1, FnReturned outcome))"

record breaker_system =
  breaker :: circuit_breaker
  in_flight :: nat
  clock :: int

inductive breaker_step :: "breaker_system \<Rightarrow> breaker_system \<Rightarrow> bool" where
  tick: "clock s \<le> now \<Longrightarrow> breaker_step s (s\<lparr>clock := now\<rparr>)"
| query: "breaker_step s (s\<lparr>breaker := fst (breaker_query (clock s) (breaker s))\<rparr>)"
| enter: "execute_enter (clock s) (breaker s) = (cb, ok) \<Longrightarrow>
    breaker_step s (s\<lparr>breaker := cb, in_flight := (if ok then Suc (in_flight s) else in_flight s)\<rparr>)"
| leave: "in_flight s > 0 \<Longrightarrow>
    breaker_step s (s\<lparr>breaker := execute_leave (clock s) failed (breaker s), in_flight := in_flight s - 1\<rparr>)"

inductive_cases breaker_stepE: "breaker_step s s'"

section \<open>Adaptive batch sizer (adaptive_batch.go)\<close>

record adaptive_batch_sizer =
  min_size :: int
  max_size :: int
  current_size :: int
  fast_threshold :: int
  slow_threshold :: int

definition new_adaptive_batch_sizer :: "int \<Rightarrow> int \<Rightarrow> adaptive_batch_sizer" where
  "new_adaptive_batch_sizer mn0 mx0 =
     (let mn = (if mn0 \<le> 0 then 500 else mn0); mx = (if mx0 < mn then i64 (mn * 10) else mx0) in
      \<lparr>min_size = mn, max_size = mx, current_size = mn, fast_threshold = 200000000, slow_threshold = 1500000000\<rparr>)"

definition record_flush :: "nat \<Rightarrow> int \<Rightarrow> adaptive_batch_sizer \<Rightarrow> adaptive_batch_sizer" where
  "record_flush heap_in_use latency s =
     (if heap_in_use > 1024 * 1024 * 1024 then s\<lparr>current_size := min_size s\<rparr>
      else if latency < fast_threshold s then
        s\<lparr>current_size := min (max_size s) (i64 (current_size s + max (current_size s div 5) 50))\<rparr>
      else if latency > slow_threshold s then
        s\<lparr>current_size := max (min_size s) (i64 (current_size s - max (current_size s div 3) 50))\<rparr>
      else s)"

section \<open>Retry (backoff.go)\<close>

text \<open>
  The parameters of one run: for each attempt the error of the context before it, the error of the
  operation, whether the context ends the wait that follows, and the delay \<^verbatim>\<open>FullJitter\<close> computes, whose
  floating-point cap is given by its sign and its integer part and whose random number by \<open>rnd\<close>.
\<close>

record backoff_config =
  bo_initial :: int
  bo_max :: int
  bo_multiplier_negative :: bool
  bo_max_retries :: int

definition backoff_validate :: "backoff_config \<Rightarrow> bool" where
  "backoff_validate b \<longleftrightarrow> \<not> (bo_initial b < 0 \<or> bo_max b < 0 \<or> bo_multiplier_negative b \<or> bo_max_retries b < 0)"

text \<open>\<^verbatim>\<open>crypto/rand.Int\<close> panics when its bound is not positive: \<^term>\<open>None\<close>.\<close>

definition full_jitter :: "backoff_config \<Rightarrow> bool \<Rightarrow> int \<Rightarrow> int \<Rightarrow> int option" where
  "full_jitter cfg cap_positive cap_int rnd =
     (if \<not> backoff_validate cfg \<or> bo_initial cfg \<le> 0 then Some 0
      else if \<not> cap_positive then Some 0
      else if cap_int \<le> 0 then None
      else Some (rnd mod cap_int))"

record 'e retry_env =
  ctx_err :: "int \<Rightarrow> 'e option"
  op_result :: "int \<Rightarrow> 'e option"
  wait_err :: "int \<Rightarrow> 'e option"
  jitter :: "int \<Rightarrow> int option"

datatype 'e retry_result = RetryPanic | InvalidBackoff | RetryReturned "'e option"

function retry_loop :: "'e retry_env \<Rightarrow> int \<Rightarrow> int \<Rightarrow> 'e option \<Rightarrow> 'e retry_result \<times> int list" where
  "retry_loop env max_retries attempt last_err =
     (if attempt > max_retries then (RetryReturned last_err, [])
      else case ctx_err env attempt of
          Some e \<Rightarrow> (RetryReturned (Some e), [])
        | None \<Rightarrow>
            (case op_result env attempt of
               None \<Rightarrow> (RetryReturned None, [attempt])
             | Some e \<Rightarrow>
                 if attempt < max_retries then
                   (case jitter env attempt of
                      None \<Rightarrow> (RetryPanic, [attempt])
                    | Some _ \<Rightarrow>
                        (case wait_err env attempt of
                           Some c \<Rightarrow> (RetryReturned (Some c), [attempt])
                         | None \<Rightarrow> apsnd (Cons attempt) (retry_loop env max_retries (attempt + 1) (Some e))))
                 else apsnd (Cons attempt) (retry_loop env max_retries (attempt + 1) (Some e))))"
  by auto
termination by (relation "measure (\<lambda>(env, n, a, e). nat (n + 1 - a))") auto

declare retry_loop.simps [simp del]

definition retry :: "backoff_config \<Rightarrow> 'e retry_env \<Rightarrow> 'e retry_result \<times> int list" where
  "retry cfg env =
     (if \<not> backoff_validate cfg then (InvalidBackoff, []) else retry_loop env (bo_max_retries cfg) 0 None)"

section \<open>Drain manager (shutdown.go)\<close>

record drain_manager =
  drain_timeout :: int
  drain_handlers :: "string list"

definition new_drain_manager :: "int \<Rightarrow> string + drain_manager" where
  "new_drain_manager timeout =
     (if timeout \<le> 0 then Inl ''drain timeout must be positive'' else Inr \<lparr>drain_timeout = timeout, drain_handlers = []\<rparr>)"

definition drain_register :: "string \<Rightarrow> drain_manager \<Rightarrow> drain_manager" where
  "drain_register name dm = dm\<lparr>drain_handlers := drain_handlers dm @ [name]\<rparr>"

text \<open>\<^verbatim>\<open>Drain\<close>: the handlers that were called, and the error it returns; \<open>outcome\<close> is a handler's error.\<close>

fun drain_run :: "(string \<Rightarrow> 'e option) \<Rightarrow> string list \<Rightarrow> string list \<times> (string \<times> 'e) option" where
  "drain_run outcome [] = ([], None)"
| "drain_run outcome (h # hs) =
     (case outcome h of Some e \<Rightarrow> ([h], Some (h, e)) | None \<Rightarrow> apfst (Cons h) (drain_run outcome hs))"

definition drain :: "(string \<Rightarrow> 'e option) \<Rightarrow> drain_manager \<Rightarrow> string list \<times> (string \<times> 'e) option" where
  "drain outcome dm = drain_run outcome (drain_handlers dm)"

section \<open>Lemmas\<close>

definition breaker_inv :: "circuit_breaker \<Rightarrow> bool" where
  "breaker_inv cb \<longleftrightarrow> 0 < max_failures cb \<and> 0 < half_open_limit cb \<and> 0 \<le> cb_timeout cb \<and>
     (cb_state cb = StateClosed \<longrightarrow> failures cb < max_failures cb) \<and>
     (cb_state cb = StateHalfOpen \<longrightarrow> failures cb = 0 \<and> successes cb < half_open_limit cb)"

lemma check_state_transition_inv: "breaker_inv cb \<Longrightarrow> breaker_inv (check_state_transition now cb)"
  by (auto simp: breaker_inv_def check_state_transition_def)

lemma execute_leave_inv: "breaker_inv cb \<Longrightarrow> breaker_inv (execute_leave now failed cb)"
  by (auto simp: breaker_inv_def execute_leave_def Let_def not_le)

lemma new_circuit_breaker_inv: "new_circuit_breaker now st = Inr cb \<Longrightarrow> breaker_inv cb"
  by (auto simp: new_circuit_breaker_def breaker_inv_def word_gt_0 split: if_splits)

interpretation breaker: transition_invariant breaker_step "\<lambda>s. breaker_inv (breaker s)"
proof
  fix s s' assume "breaker_step s s'" "breaker_inv (breaker s)"
  then show "breaker_inv (breaker s')"
    by (cases rule: breaker_step.cases)
      (auto simp: breaker_query_def execute_enter_def Let_def check_state_transition_inv execute_leave_inv)
qed

lemma breaker_open_stays:
  assumes "breaker_inv cb" "cb_state cb = StateOpen" "last_state_chg cb = now"
  shows "fst (execute now now oc cb) = cb"
proof -
  have "check_state_transition now cb = cb"
    using assms unfolding check_state_transition_def by (simp add: breaker_inv_def)
  then show ?thesis using assms(2) by (simp add: execute_def execute_enter_def)
qed

lemma breaker_closed_step:
  assumes "breaker_inv cb" "cb_state cb = StateClosed"
  shows "breaker_inv (fst (execute now now oc cb))"
    "max_failures (fst (execute now now oc cb)) = max_failures cb"
    "oc = None \<Longrightarrow> fst (execute now now oc cb) = cb"
    "oc \<noteq> None \<Longrightarrow> unat (failures cb) + 1 < unat (max_failures cb) \<Longrightarrow>
       cb_state (fst (execute now now oc cb)) = StateClosed \<and> unat (failures (fst (execute now now oc cb))) = unat (failures cb) + 1"
    "oc \<noteq> None \<Longrightarrow> unat (failures cb) + 1 \<ge> unat (max_failures cb) \<Longrightarrow>
       cb_state (fst (execute now now oc cb)) = StateOpen \<and> last_state_chg (fst (execute now now oc cb)) = now"
proof -
  have ex: "fst (execute now now oc cb) = execute_leave now (oc \<noteq> None) cb"
    using assms(2) by (simp add: execute_def execute_enter_def check_state_transition_def)
  have lt: "unat (failures cb) < unat (max_failures cb)"
    using assms by (simp add: breaker_inv_def word_less_nat_alt)
  then have nw: "unat (failures cb + 1) = unat (failures cb) + 1"
  proof -
    have "unat (max_failures cb) < 2 ^ LENGTH(32)" by (rule unsigned_less)
    then show ?thesis using lt by (simp add: unat_word_ariths)
  qed
  show "breaker_inv (fst (execute now now oc cb))" unfolding ex using assms(1) by (rule execute_leave_inv)
  show "max_failures (fst (execute now now oc cb)) = max_failures cb"
    unfolding ex by (simp add: execute_leave_def Let_def)
  show "oc = None \<Longrightarrow> fst (execute now now oc cb) = cb" unfolding ex using assms(2) by (simp add: execute_leave_def)
  show "cb_state (fst (execute now now oc cb)) = StateClosed \<and> unat (failures (fst (execute now now oc cb))) = unat (failures cb) + 1"
    if "oc \<noteq> None" "unat (failures cb) + 1 < unat (max_failures cb)"
    using that assms(2) nw unfolding ex by (simp add: execute_leave_def Let_def word_le_nat_alt)
  show "cb_state (fst (execute now now oc cb)) = StateOpen \<and> last_state_chg (fst (execute now now oc cb)) = now"
    if "oc \<noteq> None" "unat (failures cb) + 1 \<ge> unat (max_failures cb)"
    using that assms(2) nw unfolding ex by (simp add: execute_leave_def Let_def word_le_nat_alt)
qed

definition run_outcomes :: "int \<Rightarrow> 'e option list \<Rightarrow> circuit_breaker \<Rightarrow> circuit_breaker" where
  "run_outcomes now ocs cb = foldl (\<lambda>cb oc. fst (execute now now oc cb)) cb ocs"

lemma run_outcomes_open:
  "breaker_inv cb \<Longrightarrow> cb_state cb = StateOpen \<Longrightarrow> last_state_chg cb = now \<Longrightarrow> run_outcomes now ocs cb = cb"
  by (induction ocs) (simp_all add: run_outcomes_def breaker_open_stays)

lemma run_outcomes_closed:
  assumes "breaker_inv cb" "cb_state cb = StateClosed"
  shows "cb_state (run_outcomes now ocs cb) = StateOpen \<longleftrightarrow>
    unat (failures cb) + length (filter (\<lambda>oc. oc \<noteq> None) ocs) \<ge> unat (max_failures cb)"
  using assms
proof (induction ocs arbitrary: cb)
  case Nil
  then have "unat (failures cb) < unat (max_failures cb)" by (simp add: breaker_inv_def word_less_nat_alt)
  with Nil show ?case by (simp add: run_outcomes_def)
next
  case (Cons oc ocs)
  note st = breaker_closed_step [OF Cons.prems, where now = now and oc = oc]
  have run: "run_outcomes now (oc # ocs) cb = run_outcomes now ocs (fst (execute now now oc cb))"
    by (simp add: run_outcomes_def)
  show ?case
  proof (cases "oc = None")
    case True
    then show ?thesis using Cons.IH [OF Cons.prems] st(3) unfolding run by simp
  next
    case failed: False
    show ?thesis
    proof (cases "unat (failures cb) + 1 < unat (max_failures cb)")
      case True
      then show ?thesis using Cons.IH [OF st(1)] st(2,4) failed unfolding run by simp
    next
      case False
      then have o: "cb_state (fst (execute now now oc cb)) = StateOpen" "last_state_chg (fst (execute now now oc cb)) = now"
        using st(5) failed by simp_all
      show ?thesis unfolding run run_outcomes_open [OF st(1) o] using o False failed by simp
    qed
  qed
qed

definition sizer_inv :: "adaptive_batch_sizer \<Rightarrow> bool" where
  "sizer_inv s \<longleftrightarrow> 0 < min_size s \<and> min_size s \<le> current_size s \<and> current_size s \<le> max_size s \<and> max_size s \<le> 2 ^ 62"

lemma record_flush_inv: assumes "sizer_inv s" shows "sizer_inv (record_flush h l s)"
proof -
  let ?c = "current_size s"
  let ?up = "max (?c div 5) 50" and ?down = "max (?c div 3) 50"
  have pos: "0 < ?c" "?c \<le> 4611686018427387904" using assms by (auto simp: sizer_inv_def)
  have "0 \<le> x div 5" "x div 5 \<le> x" "0 \<le> x div 3" "x div 3 \<le> x" if "0 < x" for x :: int using that by presburger+
  from this [OF pos(1)] have d: "0 \<le> ?up" "?up \<le> ?c + 50" "0 \<le> ?down" "?down \<le> ?c + 50" by simp_all
  have up: "i64 (?c + ?up) = ?c + ?up" by (rule i64_id, rule in_i64I) (use pos d in linarith)+
  have down: "i64 (?c - ?down) = ?c - ?down" by (rule i64_id, rule in_i64I) (use pos d in linarith)+
  show ?thesis
    unfolding record_flush_def up down using assms d(1,3)
    by (simp add: sizer_inv_def min_def max_def [of "min_size s"])
qed

text \<open>The attempts of a run: consecutive from the first, at most \<open>n + 1\<close>, each but the last a failure.\<close>

definition attempts_ok :: "'e retry_env \<Rightarrow> int \<Rightarrow> int \<Rightarrow> int list \<Rightarrow> bool" where
  "attempts_ok env n a as \<longleftrightarrow> as = map (\<lambda>i. a + int i) [0..<length as] \<and> (as \<noteq> [] \<longrightarrow> last as \<le> n) \<and>
     list_all (\<lambda>i. op_result env i \<noteq> None) (butlast as)"

lemma attempts_ok_Nil [simp]: "attempts_ok env n a []"
  by (simp add: attempts_ok_def)

lemma attempts_ok_single: "a \<le> n \<Longrightarrow> attempts_ok env n a [a]"
  by (simp add: attempts_ok_def)

lemma attempts_ok_Cons:
  assumes "attempts_ok env n (a + 1) as" "op_result env a \<noteq> None" "a \<le> n"
  shows "attempts_ok env n a (a # as)"
proof -
  have "map (\<lambda>i. a + int i) [0..<length (a # as)] = a # map (\<lambda>i. a + 1 + int i) [0..<length as]"
    by (simp add: map_upt_Suc add.assoc del: upt_Suc)
  then show ?thesis using assms by (simp add: attempts_ok_def)
qed

lemma retry_loop_facts:
  "attempts_ok env n a (snd (retry_loop env n a e)) \<and>
   (fst (retry_loop env n a e) = RetryReturned None \<longleftrightarrow> snd (retry_loop env n a e) = [] \<and> a > n \<and> e = None \<or>
      snd (retry_loop env n a e) \<noteq> [] \<and> op_result env (last (snd (retry_loop env n a e))) = None)"
proof (induction env n a e rule: retry_loop.induct)
  case (1 env n a e)
  show ?case
  proof (cases "a > n \<or> ctx_err env a \<noteq> None \<or> op_result env a = None")
    case True
    then show ?thesis by (auto simp: retry_loop.simps [of env n a] attempts_ok_single split: option.splits)
  next
    case False
    then obtain x where x: "op_result env a = Some x" and c: "ctx_err env a = None" and a: "\<not> a > n" by auto
    let ?rec = "retry_loop env n (a + 1) (Some x)"
    have stop: ?thesis if "retry_loop env n a e = (r, [a])" "r \<noteq> RetryReturned None" for r
      using that a x by (simp add: attempts_ok_single)
    have go: ?thesis if l: "retry_loop env n a e = apsnd (Cons a) ?rec" and IH: "attempts_ok env n (a + 1) (snd ?rec) \<and>
       (fst ?rec = RetryReturned None \<longleftrightarrow> snd ?rec = [] \<and> a + 1 > n \<and> Some x = None \<or>
        snd ?rec \<noteq> [] \<and> op_result env (last (snd ?rec)) = None)"
      using IH x a attempts_ok_Cons [of env n a "snd ?rec"] unfolding l by (cases ?rec) auto
    show ?thesis
    proof (cases "a < n")
      case lt: True
      show ?thesis
      proof (cases "jitter env a = None \<or> wait_err env a \<noteq> None")
        case True
        then show ?thesis using stop x c a lt
          by (auto simp: retry_loop.simps [of env n a] split: option.splits)
      next
        case False
        then obtain j where j: "jitter env a = Some j" "wait_err env a = None" by auto
        then have "retry_loop env n a e = apsnd (Cons a) ?rec" using x c a lt by (simp add: retry_loop.simps [of env n a])
        then show ?thesis using "1.IH"(1) [OF a c x lt j] by (rule go)
      qed
    next
      case False
      have "retry_loop env n a e = apsnd (Cons a) ?rec" using x c a False by (subst retry_loop.simps) simp
      then show ?thesis using "1.IH"(2) [OF a c x False] by (rule go)
    qed
  qed
qed

lemma attempts_ok_length: "attempts_ok env n a as \<Longrightarrow> as = [] \<or> a + int (length as) \<le> n + 1"
proof (cases as rule: rev_cases)
  case (snoc bs b)
  assume "attempts_ok env n a as"
  moreover from this have "b = a + int (length bs)" using snoc by (simp add: attempts_ok_def)
  ultimately show ?thesis using snoc by (simp add: attempts_ok_def)
qed simp

lemma drain_run_prefix:
  "fst (drain_run oc hs) = takeWhile (\<lambda>h. oc h = None) hs @ take 1 (dropWhile (\<lambda>h. oc h = None) hs) \<and>
   (snd (drain_run oc hs) = None \<longleftrightarrow> list_all (\<lambda>h. oc h = None) hs)"
  by (induction hs) (auto split: option.splits)


section \<open>Properties\<close>

text \<open>C39. In every state that concurrent callers can reach from a new breaker, the breaker is consistent
  (fewer failures than the limit while closed; no failure and fewer successes than the limit while half
  open), and a call is refused exactly while the breaker is open and its timeout has not elapsed.\<close>

theorem breaker_reachable:
  assumes "new_circuit_breaker now st = Inr cb"
    and "breaker_step\<^sup>*\<^sup>* \<lparr>breaker = cb, in_flight = 0, clock = now\<rparr> s"
  shows "breaker_inv (breaker s) \<and>
    (\<not> snd (execute_enter t (breaker s)) \<longleftrightarrow>
       cb_state (breaker s) = StateOpen \<and> t - last_state_chg (breaker s) \<le> cb_timeout (breaker s))"
proof -
  have "breaker_inv (breaker s)"
    using breaker.reachable_keeps [OF assms(2)] new_circuit_breaker_inv [OF assms(1)] by simp
  then show ?thesis by (auto simp: execute_enter_def check_state_transition_def Let_def)
qed

definition two_failures :: breaker_settings where
  "two_failures = \<lparr>st_name = ''db'', st_max_failures = 2, st_timeout = 0, st_half_open_limit = 0\<rparr>"

definition two_failures_breaker :: circuit_breaker where
  "two_failures_breaker = \<lparr>cb_name = ''db'', max_failures = 2, half_open_limit = 1, cb_timeout = 1000000000,
     cb_state = StateClosed, failures = 0, successes = 0, last_state_chg = 0\<rparr>"

lemma two_failures_new: "new_circuit_breaker 0 two_failures = Inr two_failures_breaker"
  by (simp add: new_circuit_breaker_def two_failures_def two_failures_breaker_def)

theorem breaker_reachable_witness:
  "let s = \<lparr>breaker = execute_leave 0 True (two_failures_breaker\<lparr>failures := 1\<rparr>), in_flight = 0, clock = 0\<rparr>
   in breaker_step\<^sup>*\<^sup>* \<lparr>breaker = two_failures_breaker, in_flight = 0, clock = 0\<rparr> s \<and> \<not> snd (execute_enter 1000000000 (breaker s))"
proof -
  let ?b = "two_failures_breaker"
  let ?s = "\<lparr>breaker = execute_leave 0 True (?b\<lparr>failures := 1\<rparr>), in_flight = 0, clock = 0\<rparr>"
  have two: "\<not> (2 :: u32) \<le> 1" by (simp add: word_le_nat_alt)
  note defs = two_failures_breaker_def execute_enter_def check_state_transition_def execute_leave_def Let_def two
  have s1: "breaker_step \<lparr>breaker = ?b, in_flight = 0, clock = 0\<rparr> \<lparr>breaker = ?b, in_flight = 1, clock = 0\<rparr>"
    using breaker_step.enter [of "\<lparr>breaker = ?b, in_flight = 0, clock = 0\<rparr>" ?b True] by (simp add: defs)
  have s2: "breaker_step \<lparr>breaker = ?b, in_flight = 1, clock = 0\<rparr> \<lparr>breaker = ?b, in_flight = 2, clock = 0\<rparr>"
    using breaker_step.enter [of "\<lparr>breaker = ?b, in_flight = 1, clock = 0\<rparr>" ?b True] by (simp add: defs numeral_2_eq_2)
  have s3: "breaker_step \<lparr>breaker = ?b, in_flight = 2, clock = 0\<rparr> \<lparr>breaker = ?b\<lparr>failures := 1\<rparr>, in_flight = 1, clock = 0\<rparr>"
    using breaker_step.leave [of "\<lparr>breaker = ?b, in_flight = 2, clock = 0\<rparr>" True] by (simp add: defs)
  have s4: "breaker_step \<lparr>breaker = ?b\<lparr>failures := 1\<rparr>, in_flight = 1, clock = 0\<rparr> ?s"
    using breaker_step.leave [of "\<lparr>breaker = ?b\<lparr>failures := 1\<rparr>, in_flight = 1, clock = 0\<rparr>" True] by simp
  have reach: "breaker_step\<^sup>*\<^sup>* \<lparr>breaker = ?b, in_flight = 0, clock = 0\<rparr> ?s"
    by (rule rtranclp.rtrancl_into_rtrancl [where r = breaker_step, OF _ s4],
        rule rtranclp.rtrancl_into_rtrancl [where r = breaker_step, OF _ s3],
        rule rtranclp.rtrancl_into_rtrancl [where r = breaker_step, OF _ s2], rule r_into_rtranclp, rule s1)
  show ?thesis using breaker_reachable [OF two_failures_new reach, of 1000000000] reach
    by (simp add: Let_def) (simp add: defs)
qed

text \<open>A breaker counts failures, not consecutive failures: after any sequence of calls from one caller at
  one instant, a new breaker is open exactly when the number of failed calls among them has reached the
  limit, however many successful calls were made in between.\<close>

lemma breaker_opens_on_total_failures:
  assumes "new_circuit_breaker now st = Inr cb"
  shows "cb_state (run_outcomes now ocs cb) = StateOpen \<longleftrightarrow>
    length (filter (\<lambda>oc. oc \<noteq> None) ocs) \<ge> unat (max_failures cb)"
proof -
  have "cb_state cb = StateClosed" "failures cb = 0"
    using assms by (auto simp: new_circuit_breaker_def split: if_splits)
  then show ?thesis using run_outcomes_closed [OF new_circuit_breaker_inv [OF assms], of now ocs] by simp
qed

text \<open>The adaptive batch size stays between its bounds after any sequence of flushes, whatever their
  latencies and the heap in use, for bounds up to \<open>2 ^ 58\<close> (where the arithmetic cannot wrap).\<close>

lemma batch_size_bounded:
  assumes "mn \<le> 2 ^ 58" "mx \<le> 2 ^ 58"
  shows "sizer_inv (foldl (\<lambda>s (h, l). record_flush h l s) (new_adaptive_batch_sizer mn mx) fs)"
proof -
  have "sizer_inv (new_adaptive_batch_sizer mn mx)"
  proof -
    have "i64 (mn * 10) = mn * 10" if "0 < mn" using that assms by (intro i64_id in_i64I) auto
    then show ?thesis using assms by (auto simp: new_adaptive_batch_sizer_def sizer_inv_def Let_def i64_def)
  qed
  then have "sizer_inv s \<Longrightarrow> sizer_inv (foldl (\<lambda>s (h, l). record_flush h l s) s fs)" for s
    by (induction fs arbitrary: s) (auto simp: record_flush_inv)
  then show ?thesis using \<open>sizer_inv (new_adaptive_batch_sizer mn mx)\<close> by blast
qed

text \<open>\<^verbatim>\<open>Retry\<close> calls the operation at most \<^verbatim>\<open>MaxRetries\<close> + 1 times, at consecutive attempts from 0, stops at
  the first success, and returns nil only after a successful call; invalid settings make no call.\<close>

lemma retry_bounded:
  "case retry cfg env of (res, as) \<Rightarrow>
     attempts_ok env (bo_max_retries cfg) 0 as \<and> (int (length as) \<le> max 0 (bo_max_retries cfg + 1)) \<and>
     (res = RetryReturned None \<longleftrightarrow> as \<noteq> [] \<and> op_result env (last as) = None)"
proof -
  obtain res as where r: "retry_loop env (bo_max_retries cfg) 0 None = (res, as)" by fastforce
  note f = retry_loop_facts [of env "bo_max_retries cfg" 0 None, unfolded r, simplified]
  show ?thesis
  proof (cases "backoff_validate cfg")
    case True
    then have n: "0 \<le> bo_max_retries cfg" by (simp add: backoff_validate_def)
    then have "int (length as) \<le> bo_max_retries cfg + 1" using f attempts_ok_length by fastforce
    then show ?thesis using True f r n by (auto simp: retry_def)
  qed (simp add: retry_def)
qed

text \<open>\<^verbatim>\<open>Drain\<close> calls the handlers in the order of their registration up to and including the first that
  fails, and reports an error exactly when one fails; the handlers registered after it are not called.\<close>

lemma drain_stops_at_first_error:
  "let dm = foldl (\<lambda>dm n. drain_register n dm) \<lparr>drain_timeout = t, drain_handlers = []\<rparr> names in
   fst (drain oc dm) = takeWhile (\<lambda>h. oc h = None) names @ take 1 (dropWhile (\<lambda>h. oc h = None) names) \<and>
   (snd (drain oc dm) = None \<longleftrightarrow> list_all (\<lambda>h. oc h = None) names)"
proof -
  have "drain_handlers (foldl (\<lambda>dm n. drain_register n dm) dm names) = drain_handlers dm @ names" for dm
    by (induction names arbitrary: dm) (simp_all add: drain_register_def)
  then show ?thesis using drain_run_prefix [of oc names] by (simp add: drain_def Let_def)
qed

end
