(* ===== verification/BigQuery.thy ===== *)
theory BigQuery
  imports Config Resilience
begin

text \<open>
  Writing to BigQuery: the DoFn of \<^verbatim>\<open>internal/beam/bigquery/sink_dofn.go\<close> over the port of \<^verbatim>\<open>internal/ports/bigquery.go\<close>, and the adapter of
  \<^verbatim>\<open>internal/adapters/bigquery/client.go\<close> with \<^verbatim>\<open>serializer.go\<close>. The adapter holds its streams in memory; a bundle through both is
  shown to commit one stream with exactly the records that can be serialized, and to emit a dead letter for each of the others.
\<close>

section \<open>BigQuerySinkDoFn (sink_dofn.go)\<close>

text \<open>The writer port: opening a stream, appending records to it at an offset, committing it.\<close>

record ('a, 'r, 'f) bigquery_writer =
  bq_open :: "'a \<Rightarrow> 'a \<times> (string + string)"
  bq_append :: "'a \<Rightarrow> string \<Rightarrow> int \<Rightarrow> 'r list \<Rightarrow> 'a \<times> 'f list \<times> string option"
  bq_commit :: "'a \<Rightarrow> string \<Rightarrow> 'a \<times> string option"

record ('a, 'r, 'f) bigquery_sink =
  bq_batch_size :: int
  bq_writer :: "('a, 'r, 'f) bigquery_writer option"
  bq_sizer :: "adaptive_batch_sizer option"
  bq_stream :: string
  bq_buffer :: "'r list"
  bq_row_count :: int

definition bq_min_batch :: "('a, 'r, 'f) bigquery_sink \<Rightarrow> int" where
  "bq_min_batch d = or_default 0 (bq_batch_size d) 500"

definition bq_setup :: "(string + ('a, 'r, 'f) bigquery_writer) option \<Rightarrow> ('a, 'r, 'f) bigquery_sink \<Rightarrow> ('a, 'r, 'f) bigquery_sink \<times> string option" where
  "bq_setup provider d =
     (let d1 = (case bq_sizer d of Some _ \<Rightarrow> d
         | None \<Rightarrow> d\<lparr>bq_sizer := Some (new_adaptive_batch_sizer (bq_min_batch d) (i64 (bq_min_batch d * 10)))\<rparr>) in
      case (bq_writer d1, provider) of
        (None, Some (Inl e)) \<Rightarrow> (d1, Some (''BigQuerySinkDoFn.Setup: failed acquiring writer: '' @ e))
      | (None, Some (Inr wr)) \<Rightarrow> (d1\<lparr>bq_writer := Some wr\<rparr>, None)
      | _ \<Rightarrow> (d1, None))"

text \<open>\<^verbatim>\<open>StartBundle\<close> allocates the buffer with the batch size as its capacity: a negative one is a panic, \<^term>\<open>None\<close>.\<close>

definition bq_start_bundle :: "('a, 'r, 'f) bigquery_sink \<Rightarrow> ('a, 'r, 'f) bigquery_sink option" where
  "bq_start_bundle d = (if bq_min_batch d < 0 then None else Some (d\<lparr>bq_buffer := [], bq_stream := [], bq_row_count := 0\<rparr>))"

text \<open>\<^verbatim>\<open>flushBuffer\<close>, with the heap in use and the latency the sizer measures as a function \<open>meas\<close> of the rows seen, and
  the verb \<^verbatim>\<open>%q\<close> as \<open>qt\<close>; it also gives the dead
  letters emitted. A writer that is set stays set, so the commit of \<^verbatim>\<open>FinishBundle\<close> always has one.\<close>

definition bq_flush_buffer ::
  "(string \<Rightarrow> string) \<Rightarrow> (int \<Rightarrow> nat \<times> int) \<Rightarrow> 'a \<Rightarrow> ('a, 'r, 'f) bigquery_sink \<Rightarrow> 'a \<times> ('a, 'r, 'f) bigquery_sink \<times> 'f list \<times> string option" where
  "bq_flush_buffer qt meas w d =
     (if bq_buffer d = [] then (w, d, [], None)
      else case bq_writer d of
        None \<Rightarrow> (w, d, [], Some ''bigquery: writer not initialized (call Setup first)'')
      | Some wr \<Rightarrow>
          (case (if bq_stream d = [] then bq_open wr w else (w, Inr (bq_stream d))) of
             (w1, Inl e) \<Rightarrow> (w1, d, [], Some (''bigquery: OpenStream failed: '' @ e))
           | (w1, Inr name) \<Rightarrow>
               (case bq_append wr w1 name 0 (bq_buffer d) of (w2, dlqs, err) \<Rightarrow>
                  let d1 = d\<lparr>bq_stream := name, bq_sizer := map_option (case_prod record_flush (meas (bq_row_count d))) (bq_sizer d)\<rparr> in
                  case err of
                    Some e \<Rightarrow> (w2, d1, [], Some (''bigquery: AppendRecords to stream '' @ qt name @ '' failed: '' @ e))
                  | None \<Rightarrow> (w2, d1\<lparr>bq_buffer := []\<rparr>, dlqs, None))))"

definition bq_target_batch :: "('a, 'r, 'f) bigquery_sink \<Rightarrow> int" where
  "bq_target_batch d = (case bq_sizer d of None \<Rightarrow> bq_min_batch d | Some s \<Rightarrow> current_size s)"

definition bq_process_element ::
  "(string \<Rightarrow> string) \<Rightarrow> (int \<Rightarrow> nat \<times> int) \<Rightarrow> 'a \<times> 'f list \<Rightarrow> ('a, 'r, 'f) bigquery_sink \<Rightarrow> 'r \<Rightarrow> ('a \<times> 'f list) \<times> ('a, 'r, 'f) bigquery_sink \<times> string option" where
  "bq_process_element qt meas w d rec =
     (let d1 = d\<lparr>bq_buffer := bq_buffer d @ [rec], bq_row_count := i64 (bq_row_count d + 1)\<rparr> in
      if int (length (bq_buffer d1)) \<ge> bq_target_batch d1
      then (case bq_flush_buffer qt meas (fst w) d1 of (w', d', dlqs, e) \<Rightarrow> ((w', snd w @ dlqs), d', e))
      else (w, d1, None))"

definition bq_finish_bundle ::
  "(string \<Rightarrow> string) \<Rightarrow> (int \<Rightarrow> nat \<times> int) \<Rightarrow> 'a \<times> 'f list \<Rightarrow> ('a, 'r, 'f) bigquery_sink \<Rightarrow> ('a \<times> 'f list) \<times> ('a, 'r, 'f) bigquery_sink \<times> string option" where
  "bq_finish_bundle qt meas w d =
     (case bq_flush_buffer qt meas (fst w) d of
        (w1, d1, dlqs, Some e) \<Rightarrow> ((w1, snd w @ dlqs), d1, Some e)
      | (w1, d1, dlqs, None) \<Rightarrow>
          (case bq_writer d1 of
             Some wr \<Rightarrow> if bq_stream d1 \<noteq> [] \<and> bq_row_count d1 > 0
               then (case bq_commit wr w1 (bq_stream d1) of
                   (w2, Some e) \<Rightarrow> ((w2, snd w @ dlqs), d1, Some (''bigquery: CommitStream '' @ qt (bq_stream d1) @ '' failed: '' @ e))
                 | (w2, None) \<Rightarrow> ((w2, snd w @ dlqs), d1, None))
               else ((w1, snd w @ dlqs), d1, None)
           | None \<Rightarrow> ((w1, snd w @ dlqs), d1, None)))"

section \<open>The adapter (client.go, serializer.go)\<close>

text \<open>\<open>WriteJSON\<close> of a value; the quoting of strings and the encoding of bytes by \<^verbatim>\<open>encoding/json\<close> are arguments.\<close>

record json_env =
  json_quote :: "string \<Rightarrow> string"
  json_bytes :: "string \<Rightarrow> string"

definition write_json :: "go_env \<Rightarrow> json_env \<Rightarrow> field_value \<Rightarrow> string" where
  "write_json env je f = (if is_null f then ''null'' else case fv_type f of
      TypeString \<Rightarrow> json_quote je (str_val f)
    | TypeInt64 \<Rightarrow> format_int (int64_val f)
    | TypeFloat64 \<Rightarrow> f64_format env (float64_val f)
    | TypeBool \<Rightarrow> format_bool (bool_val f)
    | TypeTimestamp \<Rightarrow> [CHR 0x22] @ time_format_rfc3339 env (time_val f) @ [CHR 0x22]
    | TypeBytes \<Rightarrow> json_bytes je (str_val f)
    | TypeDecimal \<Rightarrow> format_decimal (int64_val f) (scale f)
    | _ \<Rightarrow> json_quote je (str_val f))"

fun serialize_fields :: "go_env \<Rightarrow> json_env \<Rightarrow> generic_record \<Rightarrow> nat \<Rightarrow> bool \<Rightarrow> field list \<Rightarrow> string + string" where
  "serialize_fields env je r i is_start [] = Inr []"
| "serialize_fields env je r i is_start (f # fs) =
     (case rec_get r (int i) of
        None \<Rightarrow> if nullable f then serialize_fields env je r (Suc i) is_start fs
          else Inl (''non-nullable field '' @ go_quote env (field_name f) @ '' is null'')
      | Some v \<Rightarrow>
          if is_null v then (if nullable f then serialize_fields env je r (Suc i) is_start fs
            else Inl (''non-nullable field '' @ go_quote env (field_name f) @ '' is null''))
          else (case serialize_fields env je r (Suc i) False fs of
              Inl e \<Rightarrow> Inl e
            | Inr s \<Rightarrow> Inr ((if is_start then [] else '','') @ json_quote je (field_name f) @ '':'' @ write_json env je v @ s)))"

definition serialize_record :: "go_env \<Rightarrow> json_env \<Rightarrow> generic_record \<Rightarrow> schema option \<Rightarrow> string + string" where
  "serialize_record env je r s = (case s of
      None \<Rightarrow> Inl ''record and schema are required''
    | Some s \<Rightarrow> (case serialize_fields env je r 0 True (sch_fields s) of Inl e \<Rightarrow> Inl e | Inr b \<Rightarrow> Inr (''{'' @ b @ ''}'')))"

record write_adapter =
  open_streams :: "int gomap"
  committed_streams :: "bool gomap"

definition new_storage_write_adapter :: write_adapter where
  "new_storage_write_adapter = \<lparr>open_streams = [], committed_streams = []\<rparr>"

definition stream_prefix :: "bigquery_config \<Rightarrow> string" where
  "stream_prefix c = ''projects/'' @ bc_project_id c @ ''/datasets/'' @ bc_dataset_id c @ ''/tables/'' @ bc_table_id c @ ''/streams/''"

definition open_stream :: "bigquery_config \<Rightarrow> write_adapter \<Rightarrow> write_adapter \<times> (string + string)" where
  "open_stream c a = (let name = stream_prefix c @ ''_pending_'' @ format_int (int (length (open_streams a)) + 1) in
     (a\<lparr>open_streams := gm_set (open_streams a) name 0\<rparr>, Inr name))"

text \<open>The dead letter of a record; \<open>text\<close> renders its values with \<^verbatim>\<open>%v\<close>.\<close>

definition row_letter :: "(field_value list \<Rightarrow> string) \<Rightarrow> generic_record \<Rightarrow> string \<Rightarrow> dead_letter_record" where
  "row_letter txt r e = \<lparr>raw_payload = txt (vals r), error_message = ''bigquery: row serialization failed: '' @ e, failed_column = [],
     source_file = gm_get (audit_fields r) ''_source_file'', failed_at = 0\<rparr>"

fun append_loop ::
  "go_env \<Rightarrow> json_env \<Rightarrow> (field_value list \<Rightarrow> string) \<Rightarrow> schema option \<Rightarrow> generic_record list \<Rightarrow> int \<times> dead_letter_record list \<Rightarrow> int \<times> dead_letter_record list" where
  "append_loop env je txt s [] acc = acc"
| "append_loop env je txt s (r # rs) (n, ds) = (case serialize_record env je r s of
      Inl e \<Rightarrow> append_loop env je txt s rs (n, ds @ [row_letter txt r e])
    | Inr _ \<Rightarrow> append_loop env je txt s rs (n + 1, ds))"

definition append_records ::
  "go_env \<Rightarrow> json_env \<Rightarrow> (field_value list \<Rightarrow> string) \<Rightarrow> schema option \<Rightarrow> write_adapter \<Rightarrow> string \<Rightarrow> int \<Rightarrow> generic_record list \<Rightarrow>
   write_adapter \<times> int \<times> dead_letter_record list \<times> string option" where
  "append_records env je txt s a name offset recs = (case map_of (open_streams a) name of
      None \<Rightarrow> (a, 0, [], Some (''stream '' @ go_quote env name @ '' not found''))
    | Some old \<Rightarrow> (case append_loop env je txt s recs (0, []) of (n, dlqs) \<Rightarrow>
        let new_offset = i64 (old + n) in (a\<lparr>open_streams := gm_set (open_streams a) name new_offset\<rparr>, new_offset, dlqs, None)))"

definition commit_stream :: "go_env \<Rightarrow> write_adapter \<Rightarrow> string \<Rightarrow> write_adapter \<times> string option" where
  "commit_stream env a name = (if map_of (open_streams a) name = None then (a, Some (''stream '' @ go_quote env name @ '' not found for commit''))
     else (a\<lparr>committed_streams := gm_set (committed_streams a) name True\<rparr>, None))"

text \<open>The adapter behind the port.\<close>

definition adapter_writer ::
  "go_env \<Rightarrow> json_env \<Rightarrow> (field_value list \<Rightarrow> string) \<Rightarrow> schema option \<Rightarrow> bigquery_config \<Rightarrow> (write_adapter, generic_record, dead_letter_record) bigquery_writer" where
  "adapter_writer env je txt s c = \<lparr>bq_open = open_stream c,
     bq_append = (\<lambda>a name off recs. case append_records env je txt s a name off recs of (a', n, ds, e) \<Rightarrow> (a', ds, e)),
     bq_commit = commit_stream env\<rparr>"

section \<open>A bundle through the adapter\<close>

text \<open>Which records can be serialized, and the letters of those that cannot.\<close>

definition writable :: "go_env \<Rightarrow> json_env \<Rightarrow> schema option \<Rightarrow> generic_record \<Rightarrow> bool" where
  "writable env je s r = (case serialize_record env je r s of Inl _ \<Rightarrow> False | Inr _ \<Rightarrow> True)"

definition letters_of :: "go_env \<Rightarrow> json_env \<Rightarrow> (field_value list \<Rightarrow> string) \<Rightarrow> schema option \<Rightarrow> generic_record list \<Rightarrow> dead_letter_record list" where
  "letters_of env je txt s rs = map (\<lambda>r. row_letter txt r (projl (serialize_record env je r s))) (filter (\<lambda>r. \<not> writable env je s r) rs)"

lemma append_loop_result:
  "append_loop env je txt s rs (n, ds) = (n + int (length (filter (writable env je s) rs)), ds @ letters_of env je txt s rs)"
  by (induction rs arbitrary: n ds) (auto simp: writable_def letters_of_def split: sum.splits)

lemma letters_of_append: "letters_of env je txt s (xs @ ys) = letters_of env je txt s xs @ letters_of env je txt s ys"
  by (simp add: letters_of_def)

lemma gm_set_overwrite: "gm_set (gm_set m k v) k v' = gm_set m k v'"
  unfolding gm_set_def by (induction m) auto

text \<open>The state of a bundle after the records \<open>ps\<close> have been flushed and \<open>ys\<close> are waiting: no stream before the first flush; after it,
  one stream, whose count is that of the records flushed that could be serialized.\<close>

definition bundle_stream :: "bigquery_config \<Rightarrow> write_adapter \<Rightarrow> string" where
  "bundle_stream c a = stream_prefix c @ ''_pending_'' @ format_int (int (length (open_streams a)) + 1)"

definition bundle_state ::
  "go_env \<Rightarrow> json_env \<Rightarrow> (field_value list \<Rightarrow> string) \<Rightarrow> schema option \<Rightarrow> bigquery_config \<Rightarrow> write_adapter \<Rightarrow>
   generic_record list \<Rightarrow> generic_record list \<Rightarrow> write_adapter \<times> dead_letter_record list \<Rightarrow> (write_adapter, generic_record, dead_letter_record) bigquery_sink \<Rightarrow> bool" where
  "bundle_state env je txt s c a0 ps ys w d \<longleftrightarrow>
     bq_writer d = Some (adapter_writer env je txt s c) \<and> bq_buffer d = ys \<and> bq_row_count d = int (length ps + length ys) \<and>
     snd w = letters_of env je txt s ps \<and> committed_streams (fst w) = committed_streams a0 \<and>
     (if ps = [] then bq_stream d = [] \<and> open_streams (fst w) = open_streams a0
      else bq_stream d = bundle_stream c a0 \<and>
        open_streams (fst w) = gm_set (open_streams a0) (bundle_stream c a0) (int (length (filter (writable env je s) ps))))"

lemma bundle_stream_nonempty [simp]: "bundle_stream c a \<noteq> []"
  by (simp add: bundle_stream_def stream_prefix_def)

lemma append_stage:
  assumes "map_of (open_streams a) name = Some (int (length (filter (writable env je s) ps)))" "int (length ps + length ys) < 2 ^ 63"
  shows "bq_append (adapter_writer env je txt s c) a name 0 ys =
    (a\<lparr>open_streams := gm_set (open_streams a) name (int (length (filter (writable env je s) (ps @ ys))))\<rparr>, letters_of env je txt s ys, None)"
proof -
  have "int (length (filter (writable env je s) (ps @ ys))) < 2 ^ 63"
    using assms(2) length_filter_le [of "writable env je s" "ps @ ys"] by simp
  then have "i64 (int (length (filter (writable env je s) (ps @ ys)))) = int (length (filter (writable env je s) (ps @ ys)))"
    by (intro i64_id in_i64I) auto
  then show ?thesis using assms(1) by (simp add: adapter_writer_def append_records_def append_loop_result Let_def)
qed

lemma flush_bundle:
  assumes "bundle_state env je txt s c a0 ps ys w d" "int (length ps + length ys) < 2 ^ 63"
  shows "\<exists>a' d' ls. bq_flush_buffer qt meas (fst w) d = (a', d', ls, None) \<and> bundle_state env je txt s c a0 (ps @ ys) [] (a', snd w @ ls) d'"
proof (cases "ys = []")
  case True
  then have "bq_flush_buffer qt meas (fst w) d = (fst w, d, [], None)" using assms(1) by (simp add: bq_flush_buffer_def bundle_state_def)
  then show ?thesis using True assms(1) by (intro exI [of _ "fst w"] exI [of _ d] exI [of _ "[]"]) simp
next
  case False
  let ?wr = "adapter_writer env je txt s c" and ?name = "bundle_stream c a0"
  have d: "bq_writer d = Some ?wr" "bq_buffer d = ys" using assms(1) by (simp_all add: bundle_state_def)
  define opn where "opn = (if bq_stream d = [] then bq_open ?wr (fst w) else (fst w, Inr (bq_stream d)))"
  define a1 where "a1 = fst opn"
  have opened: "opn = (a1, Inr ?name)" "committed_streams a1 = committed_streams a0"
    "open_streams a1 = gm_set (open_streams a0) ?name (int (length (filter (writable env je s) ps)))"
    using assms(1) by (cases "ps = []"; simp add: a1_def opn_def bundle_state_def adapter_writer_def open_stream_def bundle_stream_def Let_def)+
  have m: "map_of (open_streams a1) ?name = Some (int (length (filter (writable env je s) ps)))" by (simp add: opened(3) map_of_gm_set)
  let ?n = "int (length (filter (writable env je s) (ps @ ys)))"
  let ?d = "d\<lparr>bq_stream := ?name, bq_sizer := map_option (case_prod record_flush (meas (bq_row_count d))) (bq_sizer d), bq_buffer := []\<rparr>"
  have "bq_flush_buffer qt meas (fst w) d =
      (a1\<lparr>open_streams := gm_set (open_streams a1) ?name ?n\<rparr>, ?d, letters_of env je txt s ys, None)"
    using False d opened(1) append_stage [OF m assms(2)] opn_def
    by (simp add: bq_flush_buffer_def Let_def)
  moreover have "bundle_state env je txt s c a0 (ps @ ys) [] (a1\<lparr>open_streams := gm_set (open_streams a1) ?name ?n\<rparr>, snd w @ letters_of env je txt s ys) ?d"
    using assms(1) False opened(2,3) by (simp add: bundle_state_def letters_of_append gm_set_overwrite)
  ultimately show ?thesis by blast
qed

fun bq_process_all ::
  "(string \<Rightarrow> string) \<Rightarrow> (int \<Rightarrow> nat \<times> int) \<Rightarrow> 'a \<times> 'f list \<Rightarrow> ('a, 'r, 'f) bigquery_sink \<Rightarrow> 'r list \<Rightarrow> ('a \<times> 'f list) \<times> ('a, 'r, 'f) bigquery_sink \<times> string option" where
  "bq_process_all qt meas w d [] = bq_finish_bundle qt meas w d"
| "bq_process_all qt meas w d (r # rs) = (case bq_process_element qt meas w d r of
      (w', d', Some e) \<Rightarrow> (w', d', Some e) | (w', d', None) \<Rightarrow> bq_process_all qt meas w' d' rs)"

lemma process_bundle:
  assumes "bundle_state env je txt s c a0 ps ys w d" "int (length ps + length ys) < 2 ^ 63 - 1"
  shows "\<exists>w' d' ps' ys'. bq_process_element qt meas w d r = (w', d', None) \<and> ps' @ ys' = ps @ ys @ [r] \<and>
    bundle_state env je txt s c a0 ps' ys' w' d'"
proof -
  let ?d = "d\<lparr>bq_buffer := bq_buffer d @ [r], bq_row_count := i64 (bq_row_count d + 1)\<rparr>"
  have "i64 (int (length ps + length ys) + 1) = int (length ps + length ys) + 1"
    using assms(2) by (intro i64_id in_i64I) simp_all
  then have st: "bundle_state env je txt s c a0 ps (ys @ [r]) w ?d"
    using assms(1) by (simp add: bundle_state_def)
  have len: "int (length ps + length (ys @ [r])) < 2 ^ 63" using assms(2) by simp
  show ?thesis
  proof (cases "int (length (bq_buffer ?d)) \<ge> bq_target_batch ?d")
    case True
    obtain a' d' ls where f: "bq_flush_buffer qt meas (fst w) ?d = (a', d', ls, None)"
      "bundle_state env je txt s c a0 (ps @ ys @ [r]) [] (a', snd w @ ls) d'"
      using flush_bundle [OF st len, of qt meas] by auto
    have "bq_process_element qt meas w d r = ((a', snd w @ ls), d', None)" using True f(1) by (simp add: bq_process_element_def Let_def)
    then show ?thesis using f(2) by (intro exI [of _ "(a', snd w @ ls)"] exI [of _ d'] exI [of _ "ps @ ys @ [r]"] exI [of _ "[]"]) simp
  next
    case False
    then have "bq_process_element qt meas w d r = (w, ?d, None)" by (simp add: bq_process_element_def Let_def)
    then show ?thesis using st by (intro exI [of _ w] exI [of _ ?d] exI [of _ ps] exI [of _ "ys @ [r]"]) simp
  qed
qed

lemma process_all_bundle:
  assumes "bundle_state env je txt s c a0 ps ys w d" "int (length ps + length ys + length rs) < 2 ^ 63"
  shows "\<exists>w' d' a'. bq_process_all qt meas w d rs = (w', d', None) \<and>
    bundle_state env je txt s c a0 (ps @ ys @ rs) [] (a', snd w') d' \<and>
    fst w' = (if ps @ ys @ rs = [] then a' else a'\<lparr>committed_streams := gm_set (committed_streams a') (bundle_stream c a0) True\<rparr>)"
  using assms
proof (induction rs arbitrary: ps ys w d)
  case Nil
  have len: "int (length ps + length ys) < 2 ^ 63" using Nil.prems(2) by simp
  obtain a' d' ls where f: "bq_flush_buffer qt meas (fst w) d = (a', d', ls, None)"
    and st: "bundle_state env je txt s c a0 (ps @ ys) [] (a', snd w @ ls) d'"
    using flush_bundle [OF Nil.prems(1) len, of qt meas] by blast
  show ?case
  proof (cases "ps @ ys = []")
    case True
    then show ?thesis using f st by (simp add: bq_finish_bundle_def bundle_state_def)
  next
    case False
    let ?a = "a'\<lparr>committed_streams := gm_set (committed_streams a') (bundle_stream c a0) True\<rparr>"
    have "commit_stream env a' (bundle_stream c a0) = (?a, None)"
      using st False by (simp add: bundle_state_def commit_stream_def map_of_gm_set del: append_is_Nil_conv)
    moreover have "0 < int (length ps) + int (length ys)" using False by (cases ps; cases ys) simp_all
    ultimately have "bq_finish_bundle qt meas w d = ((?a, snd w @ ls), d', None)"
      using f st False by (simp add: bq_finish_bundle_def bundle_state_def adapter_writer_def del: append_is_Nil_conv)
    then show ?thesis using st False by (intro exI [of _ "(?a, snd w @ ls)"] exI [of _ d'] exI [of _ a']) auto
  qed
next
  case (Cons r rs)
  have len: "int (length ps + length ys) < 2 ^ 63 - 1" using Cons.prems(2) by simp
  obtain w1 d1 ps' ys' where p: "bq_process_element qt meas w d r = (w1, d1, None)" "ps' @ ys' = ps @ ys @ [r]"
    "bundle_state env je txt s c a0 ps' ys' w1 d1"
    using process_bundle [OF Cons.prems(1) len, of qt meas r] by blast
  have "length ps' + length ys' = length ps + length ys + 1" using arg_cong [OF p(2), of length] by simp
  then have "int (length ps' + length ys' + length rs) < 2 ^ 63" using Cons.prems(2) by simp
  note ih = Cons.IH [OF p(3) this]
  have all: "ps' @ ys' @ rs = ps @ ys @ r # rs" using p(2) by simp
  have step: "bq_process_all qt meas w d (r # rs) = bq_process_all qt meas w1 d1 rs" using p(1) by simp
  show ?case using ih unfolding step all .
qed

text \<open>Stream names are new: the number at the end is larger than that of every stream opened before.\<close>

definition adapter_ok :: "write_adapter \<Rightarrow> bool" where
  "adapter_ok a \<longleftrightarrow> (\<forall>i < length (open_streams a). \<exists>p. fst (open_streams a ! i) = p @ ''_pending_'' @ format_int (int i + 1))"

lemma pending_number: "dec_val (rev (takeWhile is_digit (rev (p @ ''_pending_'' @ format_int (int i + 1))))) = Suc i"
proof -
  have f: "format_int (int i + 1) = format_uint (Suc i)" by (simp add: format_int_def nat_add_distrib)
  have u: "\<not> is_digit CHR ''_''" by (simp add: is_digit_def)
  have "takeWhile is_digit (rev (format_uint (Suc i)) @ CHR ''_'' # x) = rev (format_uint (Suc i))" for x
    using format_uint_digits [of "Suc i"] u by (simp add: takeWhile_append2 takeWhile_append)
  then show ?thesis by (simp add: f)
qed

lemma pending_injective:
  assumes "p @ ''_pending_'' @ format_int (int i + 1) = p' @ ''_pending_'' @ format_int (int j + 1)"
  shows "i = j"
  using trans [OF sym [OF pending_number [of p i, unfolded assms]] pending_number [of p' j]] by simp

lemma bundle_stream_new: "adapter_ok a \<Longrightarrow> map_of (open_streams a) (bundle_stream c a) = None"
proof (rule ccontr)
  assume ok: "adapter_ok a" and "map_of (open_streams a) (bundle_stream c a) \<noteq> None"
  then obtain v where "(bundle_stream c a, v) \<in> set (open_streams a)" using map_of_SomeD by fast
  then obtain i where i: "i < length (open_streams a)" "fst (open_streams a ! i) = bundle_stream c a"
    by (metis fst_conv in_set_conv_nth)
  then obtain p where "p @ ''_pending_'' @ format_int (int i + 1) = bundle_stream c a" using ok by (auto simp: adapter_ok_def)
  then have "i = length (open_streams a)" unfolding bundle_stream_def by (rule pending_injective)
  with i(1) show False by simp
qed

lemma adapter_ok_bundle:
  assumes "adapter_ok a" "open_streams a' = gm_set (open_streams a) (bundle_stream c a) n"
  shows "adapter_ok a'"
proof -
  have "bundle_stream c a \<notin> fst ` set (open_streams a)" using bundle_stream_new [OF assms(1)] by (simp add: map_of_eq_None_iff)
  then have o': "open_streams a' = open_streams a @ [(bundle_stream c a, n)]" using assms(2) by (simp add: gm_set_new)
  then show ?thesis using assms(1) unfolding adapter_ok_def o' bundle_stream_def
    by (auto simp: nth_append less_Suc_eq)
qed

text \<open>C32. A bundle of the BigQuery sink over the storage-write adapter always ends without an error and commits exactly one new stream, whose
  row count is the number of the bundle's records that can be serialized; each of the others gives one dead letter, in order. No other
  stream changes, and the names of the adapter's streams stay distinct.\<close>

theorem bigquery_bundle_commits:
  assumes "bq_start_bundle d0 = Some d" "bq_writer d0 = Some (adapter_writer env je txt s c)" "adapter_ok a"
    and "recs \<noteq> []" "length recs < 2 ^ 63"
  shows "\<exists>a' d' name. bq_process_all qt meas (a, []) d recs = ((a', letters_of env je txt s recs), d', None) \<and>
    map_of (open_streams a) name = None \<and>
    open_streams a' = open_streams a @ [(name, int (length (filter (writable env je s) recs)))] \<and>
    committed_streams a' = gm_set (committed_streams a) name True \<and> adapter_ok a' \<and>
    length (letters_of env je txt s recs) + length (filter (writable env je s) recs) = length recs"
proof -
  have st: "bundle_state env je txt s c a [] [] (a, []) d"
    using assms(1,2) by (auto simp: bq_start_bundle_def bundle_state_def letters_of_def split: if_splits)
  have len: "int (length ([] :: generic_record list) + length ([] :: generic_record list) + length recs) < 2 ^ 63" using assms(5) by simp
  obtain w' d' a1 where p: "bq_process_all qt meas (a, []) d recs = (w', d', None)"
    and b: "bundle_state env je txt s c a recs [] (a1, snd w') d'"
    and w: "fst w' = a1\<lparr>committed_streams := gm_set (committed_streams a1) (bundle_stream c a) True\<rparr>"
    using process_all_bundle [OF st len, of qt meas] assms(4) by auto
  let ?name = "bundle_stream c a" and ?n = "int (length (filter (writable env je s) recs))"
  have ol: "open_streams (fst w') = gm_set (open_streams a) ?name ?n" "snd w' = letters_of env je txt s recs"
    "committed_streams (fst w') = gm_set (committed_streams a) ?name True"
    using b w assms(4) by (simp_all add: bundle_state_def)
  have new: "map_of (open_streams a) ?name = None" by (rule bundle_stream_new [OF assms(3)])
  then have "open_streams (fst w') = open_streams a @ [(?name, ?n)]" using ol(1) by (simp add: gm_set_new map_of_eq_None_iff)
  moreover have "length (letters_of env je txt s recs) + length (filter (writable env je s) recs) = length recs"
    using sum_length_filter_compl [of "writable env je s" recs] by (simp add: letters_of_def)
  moreover have "bq_process_all qt meas (a, []) d recs = ((fst w', letters_of env je txt s recs), d', None)" using p ol(2) by (cases w') simp
  ultimately show ?thesis using new ol(3) adapter_ok_bundle [OF assms(3) ol(1)] by blast
qed

section \<open>An example\<close>

definition sample_bq_config :: bigquery_config where
  "sample_bq_config = \<lparr>bc_project_id = ''p'', bc_dataset_id = ''d'', bc_table_id = ''t'', bc_write_disposition = [], bc_batch_size = 0\<rparr>"

definition sample_bq_sink :: "(write_adapter, generic_record, dead_letter_record) bigquery_sink" where
  "sample_bq_sink = \<lparr>bq_batch_size = 0, bq_writer = Some (adapter_writer sample_env \<lparr>json_quote = (\<lambda>s. s), json_bytes = (\<lambda>s. s)\<rparr> (\<lambda>v. []) (Some id_schema) sample_bq_config),
     bq_sizer = None, bq_stream = [], bq_buffer = [], bq_row_count = 0\<rparr>"

theorem bigquery_bundle_commits_witness:
  "\<exists>a' d' name. bq_process_all (\<lambda>s. s) (\<lambda>n. (0, 0)) (new_storage_write_adapter, []) sample_bq_sink [new_generic_record [] 1] = (a', d', None) \<and>
     committed_streams (fst a') = gm_set [] name True"
proof -
  have st: "bq_start_bundle sample_bq_sink = Some sample_bq_sink"
    by (simp add: bq_start_bundle_def bq_min_batch_def or_default_def sample_bq_sink_def)
  have wr: "bq_writer sample_bq_sink = Some (adapter_writer sample_env \<lparr>json_quote = (\<lambda>s. s), json_bytes = (\<lambda>s. s)\<rparr> (\<lambda>v. []) (Some id_schema) sample_bq_config)"
    by (simp add: sample_bq_sink_def)
  have ok: "adapter_ok new_storage_write_adapter" by (simp add: adapter_ok_def new_storage_write_adapter_def)
  have ne: "[new_generic_record [] 1] \<noteq> []" "length [new_generic_record [] 1] < 2 ^ 63" by simp_all
  have "committed_streams new_storage_write_adapter = []" by (simp add: new_storage_write_adapter_def)
  then show ?thesis using bigquery_bundle_commits [OF st wr ok ne, of "\<lambda>s. s" "\<lambda>n. (0, 0)"] by auto
qed

text \<open>A negative batch size passes the validation of the manifest, which only fills in a zero one, and every bundle then panics in
  \<^verbatim>\<open>StartBundle\<close>.\<close>

lemma negative_batch_size_panics:
  assumes "bigquery_validate env c = (c', None)" "bc_batch_size c < 0" "bq_batch_size d = bc_batch_size c'"
  shows "bq_start_bundle d = None"
proof -
  have "bc_batch_size c' = bc_batch_size c"
    using assms(1,2) by (auto simp: bigquery_validate_def Let_def or_default_def split: if_splits)
  then show ?thesis using assms(2,3) by (simp add: bq_start_bundle_def bq_min_batch_def or_default_def)
qed

end
