(* ===== verification/Csv.thy ===== *)
theory Csv
  imports Records
begin

text \<open>
  What the program uses of the package \<^verbatim>\<open>encoding/csv\<close>: the writer with its default settings, and the reader with
  \<^verbatim>\<open>LazyQuotes\<close>, \<^verbatim>\<open>TrimLeadingSpace\<close> and \<^verbatim>\<open>FieldsPerRecord = -1\<close>, the settings of
  \<^verbatim>\<open>internal/adapters/streams/parsers/csv_parser.go\<close>. The reader is given the bytes its source delivers before the end of
  file. The lemmas show that the reader takes back the rows the writer writes, if the delimiter is visible, and that it
  drops the empty columns if the delimiter is white space.
\<close>

abbreviation quote :: char where "quote \<equiv> CHR 0x22"
abbreviation line_feed :: char where "line_feed \<equiv> CHR 0x0A"
abbreviation carriage :: char where "carriage \<equiv> CHR 0x0D"

section \<open>The delimiter\<close>

text \<open>The code takes the first byte of the configured delimiter as a rune; a rune from 128 up is two bytes of the text.\<close>

definition delim_bytes :: "char \<Rightarrow> string" where
  "delim_bytes d = (let n = of_char d :: nat in if n < 128 then [d] else [char_of (192 + n div 64), char_of (128 + n mod 64)])"

definition valid_delim :: "char \<Rightarrow> bool" where
  "valid_delim d \<longleftrightarrow> d \<noteq> CHR 0x00 \<and> d \<noteq> quote \<and> d \<noteq> carriage \<and> d \<noteq> line_feed"

fun split_first :: "string \<Rightarrow> string \<Rightarrow> (string \<times> string) option" where
  "split_first sep [] = (if sep = [] then Some ([], []) else None)"
| "split_first sep (c # s) = (case strip_prefix sep (c # s) of
      Some r \<Rightarrow> Some ([], r)
    | None \<Rightarrow> (case split_first sep s of None \<Rightarrow> None | Some (a, r) \<Rightarrow> Some (c # a, r)))"

section \<open>Writer\<close>

definition field_needs_quotes :: "char \<Rightarrow> string \<Rightarrow> bool" where
  "field_needs_quotes d f \<longleftrightarrow> f \<noteq> [] \<and>
     (f = [CHR 0x5C, CHR ''.''] \<or> contains f (delim_bytes d) \<or> quote \<in> set f \<or> carriage \<in> set f \<or> line_feed \<in> set f \<or>
      first_strip space_seqs f \<noteq> None)"

definition escape_quotes :: "string \<Rightarrow> string" where
  "escape_quotes f = concat (map (\<lambda>c. if c = quote then [quote, quote] else [c]) f)"

definition csv_field :: "char \<Rightarrow> string \<Rightarrow> string" where
  "csv_field d f = (if field_needs_quotes d f then quote # escape_quotes f @ [quote] else f)"

definition csv_write :: "char \<Rightarrow> string list \<Rightarrow> string + string" where
  "csv_write d row = (if valid_delim d then Inr (join (delim_bytes d) (map (csv_field d) row) @ [line_feed]) else Inl ''csv: invalid field or comment delimiter'')"

section \<open>Reader\<close>

text \<open>A line with its line end, which is normalised to a single newline; the last line of the input may have none.\<close>

definition drop_carriage :: "string \<Rightarrow> string" where
  "drop_carriage s = (if s \<noteq> [] \<and> last s = carriage then butlast s else s)"

definition csv_line :: "string \<Rightarrow> string \<times> string" where
  "csv_line s = (let body = takeWhile (\<lambda>c. c \<noteq> line_feed) s in
     case dropWhile (\<lambda>c. c \<noteq> line_feed) s of [] \<Rightarrow> (drop_carriage body, []) | _ # rest \<Rightarrow> (drop_carriage body @ [line_feed], rest))"

definition strip_newline :: "string \<Rightarrow> string" where
  "strip_newline s = (if s \<noteq> [] \<and> last s = line_feed then butlast s else s)"

lemma drop_carriage_length: "length (drop_carriage s) \<le> length s"
  by (simp add: drop_carriage_def)

lemma csv_line_parts:
  "length (takeWhile (\<lambda>c. c \<noteq> line_feed) s) + length (dropWhile (\<lambda>c. c \<noteq> line_feed) s) = length s"
  by (metis length_append takeWhile_dropWhile_id)

lemma csv_line_length: "length (fst (csv_line s)) + length (snd (csv_line s)) \<le> length s"
  using csv_line_parts [of s] drop_carriage_length [of "takeWhile (\<lambda>c. c \<noteq> line_feed) s"]
  by (cases "dropWhile (\<lambda>c. c \<noteq> line_feed) s") (simp_all add: csv_line_def Let_def del: dropWhile_eq_Nil_conv)

lemma csv_line_less: "s \<noteq> [] \<Longrightarrow> length (snd (csv_line s)) < length s"
  using csv_line_parts [of s]
  by (cases "dropWhile (\<lambda>c. c \<noteq> line_feed) s") (simp_all add: csv_line_def Let_def del: dropWhile_eq_Nil_conv)

lemma split_first_Some: "split_first sep s = Some (a, r) \<Longrightarrow> s = a @ sep @ r"
  by (induction sep s arbitrary: a r rule: split_first.induct) (auto split: option.splits if_splits simp: strip_prefix_Some)

lemma delim_bytes_length: "0 < length (delim_bytes d)"
  by (simp add: delim_bytes_def Let_def)

lemma trim_left_length: "length (trim_left_seqs ps s) \<le> length s"
  using trim_left_seqs_suffix [of s ps] by (metis le_add2 length_append)

lemma trim_left_tl_length: "trim_left_seqs ps line \<noteq> [] \<Longrightarrow> length (tl (trim_left_seqs ps line)) < length line"
proof -
  assume "trim_left_seqs ps line \<noteq> []"
  then have "length (tl (trim_left_seqs ps line)) < length (trim_left_seqs ps line)" by simp
  then show ?thesis using trim_left_length [of ps line] by linarith
qed

lemma csv_quoted_rest: "split_first [quote] line = Some (a, l) \<Longrightarrow> length l < length line"
  using split_first_Some [of "[quote]" line a l] by simp

lemma csv_delim_rest: "split_first (delim_bytes d) l = Some (a, r) \<Longrightarrow> length r < length l"
  using split_first_Some [of "delim_bytes d" l a r] delim_bytes_length [of d] by auto

lemma csv_strip_rest: "strip_prefix (delim_bytes d) l = Some r \<Longrightarrow> length r < length l"
  using strip_prefix_Some [of "delim_bytes d" l r] delim_bytes_length [of d] by auto

function csv_fields :: "char \<Rightarrow> string \<Rightarrow> string \<Rightarrow> string list \<times> string"
  and csv_quoted :: "char \<Rightarrow> string \<Rightarrow> string \<Rightarrow> string \<Rightarrow> string list \<times> string" where
  "csv_fields d line rest =
     (let l = trim_left_seqs space_seqs line in
      if l \<noteq> [] \<and> hd l = quote then csv_quoted d [] (tl l) rest
      else (case split_first (delim_bytes d) l of
          None \<Rightarrow> ([strip_newline l], rest)
        | Some (f, l') \<Rightarrow> (case csv_fields d l' rest of (fs, r) \<Rightarrow> (f # fs, r))))"
| "csv_quoted d acc line rest =
     (case split_first [quote] line of
        None \<Rightarrow> if line \<noteq> [] then (case csv_line rest of (l', r') \<Rightarrow> csv_quoted d (acc @ line) l' r') else ([acc], rest)
      | Some (a, l) \<Rightarrow>
          if l \<noteq> [] \<and> hd l = quote then csv_quoted d (acc @ a @ [quote]) (tl l) rest
          else (case strip_prefix (delim_bytes d) l of
              Some l' \<Rightarrow> (case csv_fields d l' rest of (fs, r) \<Rightarrow> ((acc @ a) # fs, r))
            | None \<Rightarrow> if l = [] \<or> l = [line_feed] then ([acc @ a], rest) else csv_quoted d (acc @ a @ [quote]) l rest))"
  by pat_completeness auto
termination
proof (relation "measure (\<lambda>x. case x of Inl (d, line, rest) \<Rightarrow> length line + length rest | Inr (d, acc, line, rest) \<Rightarrow> length line + length rest)",
    goal_cases)
  case 1
  show ?case by simp
next
  case (2 d line rest x)
  then show ?case using trim_left_tl_length [of space_seqs line] by simp
next
  case (3 d line rest x xa a b)
  then show ?case using csv_delim_rest [of d x a b] trim_left_length [of space_seqs line] by simp
next
  case (4 d acc line rest x l)
  then have "csv_line rest = (x, l)" "0 < length line" by simp_all
  then show ?case using csv_line_length [of rest] by (auto simp del: length_greater_0_conv)
next
  case (5 d acc line rest x a b)
  then have "length b < length line" "length (tl b) < length b" using csv_quoted_rest [of line a b] by auto
  then show ?case by simp
next
  case (6 d acc line rest x a b)
  then show ?case using csv_quoted_rest [of line a b] by auto
next
  case (7 d acc line rest x a b xa)
  then have "length b < length line" "length xa < length b" using csv_quoted_rest [of line a b] csv_strip_rest by auto
  then show ?case by simp
qed

declare csv_fields.simps [simp del] csv_quoted.simps [simp del]


text \<open>\<^verbatim>\<open>Read\<close> skips empty lines; \<^term>\<open>None\<close> is the end of file.\<close>

function csv_read :: "char \<Rightarrow> string \<Rightarrow> (string list \<times> string) option" where
  "csv_read d s = (if s = [] then None
     else (case csv_line s of (line, rest) \<Rightarrow> if line = [] \<or> line = [line_feed] then csv_read d rest else Some (csv_fields d line rest)))"
  by pat_completeness auto
termination
proof (relation "measure (\<lambda>(d, s). length s)", goal_cases)
  case (2 d s line rest)
  then have "snd (csv_line s) = rest" by (metis snd_conv)
  then show ?case using 2 csv_line_less [of s] by simp
qed simp

declare csv_read.simps [simp del]

lemma csv_rest_length:
  "length (snd (csv_fields d line rest)) \<le> length rest" "length (snd (csv_quoted d acc line rest)) \<le> length rest"
proof (induction d line rest and d acc line rest rule: csv_fields_csv_quoted.induct)
  case (1 d line rest)
  then show ?case
    by (cases "split_first (delim_bytes d) (trim_left_seqs space_seqs line)")
      (auto simp: csv_fields.simps [of d line rest] Let_def split: prod.splits)
next
  case (2 d acc line rest)
  show ?case
  proof (cases "split_first [quote] line")
    case None
    have "length (snd (csv_line rest)) \<le> length rest" using csv_line_length [of rest] by linarith
    then show ?thesis using None 2(1) [OF None, of "fst (csv_line rest)" "snd (csv_line rest)"]
      by (auto simp: csv_quoted.simps [of d acc line rest] split: prod.splits)
  next
    case (Some al)
    obtain a l where al: "al = (a, l)" by fastforce
    note IH = 2(2-4) [OF Some al [symmetric]]
    consider "l \<noteq> [] \<and> hd l = quote" | l' where "\<not> (l \<noteq> [] \<and> hd l = quote)" "strip_prefix (delim_bytes d) l = Some l'"
      | "\<not> (l \<noteq> [] \<and> hd l = quote)" "strip_prefix (delim_bytes d) l = None" by fastforce
    then show ?thesis
    proof cases
      case 1
      then show ?thesis using IH(1) Some al by (simp add: csv_quoted.simps [of d acc line rest])
    next
      case (2 l')
      then show ?thesis using IH(3) [OF 2(1,2)] Some al by (cases "csv_fields d l' rest") (auto simp: csv_quoted.simps [of d acc line rest])
    next
      case 3
      then show ?thesis using IH(2) [OF 3(1,2)] Some al by (auto simp: csv_quoted.simps [of d acc line rest])
    qed
  qed
qed

lemma csv_read_length: "csv_read d s = Some (row, rest) \<Longrightarrow> length rest < length s"
proof (induction d s rule: csv_read.induct)
  case (1 d s)
  obtain l r where l: "csv_line s = (l, r)" by fastforce
  have s: "s \<noteq> []" using "1.prems" by (auto simp: csv_read.simps [of d s])
  have "length r < length s" using csv_line_less [OF s] l by simp
  then show ?case using 1 l s csv_rest_length(1) [of d l r]
    by (auto simp: csv_read.simps [of d s] split: if_splits)
qed

text \<open>All the rows of a text.\<close>

function csv_rows :: "char \<Rightarrow> string \<Rightarrow> string list list" where
  "csv_rows d s = (case csv_read d s of None \<Rightarrow> [] | Some (row, rest) \<Rightarrow> row # csv_rows d rest)"
  by pat_completeness auto
termination
  by (relation "measure (\<lambda>(d, s). length s)") (auto dest: csv_read_length)

declare csv_rows.simps [simp del]

section \<open>Reading what was written\<close>

text \<open>A text \<open>p\<close> of a row without carriage returns, and the line end after it.\<close>

definition line_end :: "string \<Rightarrow> bool" where
  "line_end t \<longleftrightarrow> t = [line_feed] \<or> t = [carriage, line_feed]"

lemma csv_line_newline: "csv_line (line_feed # s) = ([line_feed], s)"
  by (simp add: csv_line_def drop_carriage_def)

lemma csv_line_end: "line_end t \<Longrightarrow> csv_line (t @ s) = ([line_feed], s)"
  by (auto simp: line_end_def csv_line_def drop_carriage_def)

lemma csv_line_Cons:
  assumes "c \<noteq> line_feed" "c \<noteq> carriage"
  shows "csv_line (c # s) = (c # fst (csv_line s), snd (csv_line s))"
proof -
  have "drop_carriage (c # x) = c # drop_carriage x" for x using assms(2) by (auto simp: drop_carriage_def)
  then show ?thesis using assms(1)
    by (cases "dropWhile (\<lambda>c. c \<noteq> line_feed) s") (simp_all add: csv_line_def Let_def del: dropWhile_eq_Nil_conv)
qed

lemma csv_line_append:
  "line_feed \<notin> set p \<Longrightarrow> carriage \<notin> set p \<Longrightarrow> csv_line (p @ s) = (p @ fst (csv_line s), snd (csv_line s))"
  by (induction p) (auto simp: csv_line_Cons)

lemma csv_line_nonempty: "line_end t \<Longrightarrow> carriage \<notin> set p \<Longrightarrow> fst (csv_line (p @ t @ s)) \<noteq> []"
proof (cases p)
  case (Cons c p')
  assume "line_end t" "carriage \<notin> set p"
  then show ?thesis using Cons by (cases "c = line_feed") (auto simp: csv_line_newline csv_line_Cons)
qed (simp add: csv_line_end)

text \<open>The reader inside quotes: an ordinary character, and a line that ends there.\<close>

lemma csv_quoted_char: "c \<noteq> quote \<Longrightarrow> l \<noteq> [] \<Longrightarrow> csv_quoted d acc (c # l) r = csv_quoted d (acc @ [c]) l r"
  by (cases "split_first [quote] l") (auto simp: csv_quoted.simps [of d _ _ r] split: prod.splits option.split)

lemma csv_quoted_newline: "csv_quoted d acc [line_feed] r = csv_quoted d (acc @ [line_feed]) (fst (csv_line r)) (snd (csv_line r))"
  by (simp add: csv_quoted.simps [of d acc "[line_feed]" r] split: prod.split)

lemma csv_quoted_double: "csv_quoted d acc (quote # quote # l) r = csv_quoted d (acc @ [quote]) l r"
  by (simp add: csv_quoted.simps [of d acc "quote # quote # l" r])

text \<open>A quoted field up to its closing quote.\<close>

lemma csv_quoted_field:
  assumes "line_end t" "carriage \<notin> set f" "carriage \<notin> set q"
  shows "csv_quoted d acc (fst (csv_line (escape_quotes f @ quote # q @ t @ s))) (snd (csv_line (escape_quotes f @ quote # q @ t @ s))) =
    csv_quoted d (acc @ f) (quote # fst (csv_line (q @ t @ s))) (snd (csv_line (q @ t @ s)))"
  using assms(2)
proof (induction f arbitrary: acc)
  case Nil
  then show ?case by (simp add: escape_quotes_def csv_line_Cons)
next
  case (Cons c f)
  let ?x = "escape_quotes f @ quote # q @ t @ s"
  have ne: "fst (csv_line ?x) \<noteq> []"
    using csv_line_nonempty [OF assms(1), of "escape_quotes f @ quote # q" s] Cons.prems assms(3) by (auto simp: escape_quotes_def)
  have e: "escape_quotes (c # f) = (if c = quote then [quote, quote] else [c]) @ escape_quotes f" by (simp add: escape_quotes_def)
  consider "c = quote" | "c = line_feed" | "c \<noteq> quote" "c \<noteq> line_feed" "c \<noteq> carriage" using Cons.prems by auto
  then show ?case
  proof cases
    case 1
    then show ?thesis using Cons.IH [of "acc @ [c]"] Cons.prems e by (simp add: csv_line_Cons csv_quoted_double)
  next
    case 2
    then show ?thesis using Cons.IH [of "acc @ [c]"] Cons.prems e by (simp add: csv_line_newline csv_quoted_newline)
  next
    case 3
    then show ?thesis using Cons.IH [of "acc @ [c]"] Cons.prems ne e by (simp add: csv_line_Cons csv_quoted_char)
  qed
qed

text \<open>The delimiters for which the reader takes back what was written: visible ones.\<close>

definition plain_delim :: "char \<Rightarrow> bool" where
  "plain_delim d \<longleftrightarrow> ascii_visible d \<and> d \<noteq> quote"

lemma plain_delim_bytes: "plain_delim d \<Longrightarrow> delim_bytes d = [d]"
  by (auto simp: plain_delim_def ascii_visible_def delim_bytes_def Let_def)

lemma plain_delim_not: "plain_delim d \<Longrightarrow> d \<noteq> quote \<and> d \<noteq> line_feed \<and> d \<noteq> carriage"
  by (auto simp: plain_delim_def ascii_visible_def)

lemma plain_delim_valid: "plain_delim d \<Longrightarrow> valid_delim d"
  by (auto simp: plain_delim_def ascii_visible_def valid_delim_def)

lemma space_seqs_tails: "p \<in> set space_seqs \<Longrightarrow> c \<in> set (tl p) \<Longrightarrow> 128 \<le> (of_char c :: nat)"
proof -
  have "\<forall>p \<in> set space_seqs. \<forall>c \<in> set (tl p). 128 \<le> (of_char c :: nat)" by (simp add: space_seqs_def)
  then show "p \<in> set space_seqs \<Longrightarrow> c \<in> set (tl p) \<Longrightarrow> ?thesis" by blast
qed

lemma first_strip_append:
  assumes "first_strip space_seqs f = None" "f \<noteq> []" "(of_char c :: nat) < 128"
  shows "first_strip space_seqs (f @ c # x) = None"
proof -
  have "\<not> has_prefix (f @ c # x) p" if p: "p \<in> set space_seqs" for p
  proof
    assume "has_prefix (f @ c # x) p"
    then obtain r where r: "f @ c # x = p @ r" by (auto simp: has_prefix_iff)
    have np: "\<not> has_prefix f p" using assms(1) p by (auto simp: first_strip_None)
    then obtain u where u: "p = f @ u" "u \<noteq> []" using r by (auto simp: append_eq_append_conv2 has_prefix_iff)
    then have "c \<in> set (tl p)" using r assms(2) by (cases f; cases u) auto
    then show False using space_seqs_tails [OF p] assms(3) by fastforce
  qed
  then show ?thesis by (simp add: first_strip_None)
qed

lemma split_first_none: "c \<notin> set s \<Longrightarrow> split_first [c] s = None"
  by (induction s) auto

lemma split_first_at: "c \<notin> set a \<Longrightarrow> split_first [c] (a @ c # r) = Some (a, r)"
  by (induction a) auto

lemma contains_char: "contains f [c] \<longleftrightarrow> c \<in> set f"
  by (metis append_Cons append_Nil contains_iff in_set_conv_decomp)

text \<open>A field that is written as it is.\<close>

lemma csv_fields_bare:
  assumes "plain_delim d" "\<not> field_needs_quotes d f" "l = d # l' \<or> l = [line_feed]"
  shows "csv_fields d (f @ l) r =
    (if l = [line_feed] then ([f], r) else case csv_fields d (tl l) r of (fs, r') \<Rightarrow> (f # fs, r'))"
proof -
  note d = plain_delim_bytes [OF assms(1)] plain_delim_not [OF assms(1)]
  have f: "d \<notin> set f" "quote \<notin> set f" "f \<noteq> [] \<Longrightarrow> first_strip space_seqs f = None"
    using assms(2) d(1) by (auto simp: field_needs_quotes_def contains_char)
  have last: "strip_newline (f @ [line_feed]) = f" by (simp add: strip_newline_def)
  show ?thesis
  proof (cases "f = []")
    case True
    have "trim_left_seqs space_seqs [line_feed] = []" by code_simp
    moreover have "trim_left_seqs space_seqs (d # x) = d # x" for x
      using assms(1) space_seqs_not_visible space_seqs_nonempty by (intro trim_left_visible) (auto simp: plain_delim_def)
    ultimately show ?thesis using True assms(3) d
      by (auto simp: csv_fields.simps [of d "d # l'" r] csv_fields.simps [of d "[line_feed]" r] strip_newline_def)
  next
    case False
    have "trim_left_seqs space_seqs (f @ l) = f @ l"
      using assms(1,3) first_strip_append [OF f(3) False]
      by (intro trim_left_seqs_id) (auto simp: False plain_delim_def ascii_visible_def)
    moreover have "hd f \<noteq> quote" using f(2) False by (cases f) auto
    ultimately show ?thesis using False assms(3) d f(1) last
      by (auto simp: csv_fields.simps [of d "f @ l" r] split_first_none split_first_at)
  qed
qed

text \<open>A quoted field, after its closing quote.\<close>

lemma csv_quoted_closed:
  assumes "plain_delim d" "l = d # l' \<or> l = [line_feed]"
  shows "csv_quoted d acc (quote # l) r =
    (if l = [line_feed] then ([acc], r) else case csv_fields d (tl l) r of (fs, r') \<Rightarrow> (acc # fs, r'))"
  using assms(2) plain_delim_bytes [OF assms(1)] plain_delim_not [OF assms(1)] by (auto simp: csv_quoted.simps [of d acc "quote # l" r])

lemma csv_fields_opens: "csv_fields d (quote # l) r = csv_quoted d [] l r"
proof -
  have "trim_left_seqs space_seqs (quote # l) = quote # l"
    using space_seqs_not_visible space_seqs_nonempty by (intro trim_left_visible) (auto simp: ascii_visible_def)
  then show ?thesis by (simp add: csv_fields.simps [of d "quote # l" r])
qed

text \<open>One written field and what follows it in the row.\<close>

lemma csv_fields_step:
  assumes "plain_delim d" "carriage \<notin> set f" "line_end t" "q = [] \<or> (\<exists>p. q = d # p)" "carriage \<notin> set q"
  shows "csv_fields d (fst (csv_line (csv_field d f @ q @ t @ s))) (snd (csv_line (csv_field d f @ q @ t @ s))) =
    (if q = [] then ([f], s)
     else case csv_fields d (fst (csv_line (tl q @ t @ s))) (snd (csv_line (tl q @ t @ s))) of (fs, r) \<Rightarrow> (f # fs, r))"
proof -
  note d = plain_delim_not [OF assms(1)]
  have q: "csv_line (q @ t @ s) = (if q = [] then ([line_feed], s) else (d # fst (csv_line (tl q @ t @ s)), snd (csv_line (tl q @ t @ s))))"
    using assms(3,4) d by (auto simp: csv_line_end csv_line_Cons)
  show ?thesis
  proof (cases "field_needs_quotes d f")
    case False
    then have "line_feed \<notin> set f" by (auto simp: field_needs_quotes_def)
    then have "csv_line (f @ q @ t @ s) = (f @ fst (csv_line (q @ t @ s)), snd (csv_line (q @ t @ s)))"
      using assms(2) by (simp add: csv_line_append)
    then show ?thesis using False d csv_fields_bare [OF assms(1) False] by (auto simp: csv_field_def q)
  next
    case True
    have "csv_line (csv_field d f @ q @ t @ s) = (quote # fst (csv_line (escape_quotes f @ quote # q @ t @ s)), snd (csv_line (escape_quotes f @ quote # q @ t @ s)))"
      using True by (simp add: csv_field_def csv_line_Cons)
    then show ?thesis using csv_quoted_field [OF assms(3,2,5), of d "[]" s] csv_quoted_closed [OF assms(1)] d
      by (auto simp: csv_fields_opens q)
  qed
qed

lemma csv_fields_row:
  assumes "plain_delim d" "line_end t" "row \<noteq> []" "\<forall>f \<in> set row. carriage \<notin> set f"
  shows "csv_fields d (fst (csv_line (join [d] (map (csv_field d) row) @ t @ s))) (snd (csv_line (join [d] (map (csv_field d) row) @ t @ s))) = (row, s)"
  using assms(3,4)
proof (induction row rule: list_nonempty_induct)
  case (single f)
  then show ?case using csv_fields_step [OF assms(1) _ assms(2), of f "[]" s] by simp
next
  case (cons f fs)
  have cr: "carriage \<notin> set (csv_field d g)" if "carriage \<notin> set g" for g
    using that by (auto simp: csv_field_def escape_quotes_def)
  have "carriage \<notin> set (join [d] (map (csv_field d) fs))"
    using cons.prems plain_delim_not [OF assms(1)] cr by (induction fs rule: induct_list012) auto
  moreover have "join [d] (map (csv_field d) (f # fs)) = csv_field d f @ d # join [d] (map (csv_field d) fs)"
    using cons.hyps by (cases fs) auto
  ultimately show ?case
    using csv_fields_step [OF assms(1) _ assms(2), of f "d # join [d] (map (csv_field d) fs)" s] cons plain_delim_not [OF assms(1)] by auto
qed

text \<open>A row that the reader can see: one without carriage returns that is not a single empty field, whose line would be
  empty.\<close>

definition row_ok :: "string list \<Rightarrow> bool" where
  "row_ok row \<longleftrightarrow> row \<noteq> [] \<and> row \<noteq> [[]] \<and> (\<forall>f \<in> set row. carriage \<notin> set f)"

lemma csv_field_empty: "csv_field d f = [] \<longleftrightarrow> f = []"
  by (auto simp: csv_field_def field_needs_quotes_def)

lemma csv_row_text:
  assumes "plain_delim d" "row_ok row"
  shows "\<exists>c p. join [d] (map (csv_field d) row) = c # p \<and> c \<noteq> line_feed \<and> c \<noteq> carriage"
proof (cases row)
  case (Cons f fs)
  note d = plain_delim_not [OF assms(1)]
  have nf: "\<exists>c p. csv_field d f = c # p \<and> c \<noteq> line_feed \<and> c \<noteq> carriage" if "f \<noteq> []"
    using that by (cases f) (auto simp: csv_field_def field_needs_quotes_def)
  have "f \<noteq> [] \<or> fs \<noteq> []" using assms(2) Cons by (auto simp: row_ok_def)
  then show ?thesis using nf d Cons csv_field_empty [of d f] by (cases fs) fastforce+
qed (use assms in \<open>simp add: row_ok_def\<close>)

lemma csv_read_row:
  assumes "plain_delim d" "line_end t" "row_ok row"
  shows "csv_read d (join [d] (map (csv_field d) row) @ t @ s) = Some (row, s)"
proof -
  let ?p = "join [d] (map (csv_field d) row)"
  obtain c p where p: "?p = c # p" "c \<noteq> line_feed" "c \<noteq> carriage" using csv_row_text [OF assms(1,3)] by blast
  have "fst (csv_line (?p @ t @ s)) = c # fst (csv_line (p @ t @ s))" using p by (simp add: csv_line_Cons)
  then show ?thesis using csv_fields_row [OF assms(1,2), of row s] assms(3) p
    by (auto simp: csv_read.simps [of d "c # p @ t @ s"] row_ok_def split: prod.splits)
qed

lemma csv_rows_written:
  assumes "plain_delim d" "line_end t" "\<forall>row \<in> set rows. row_ok row"
  shows "csv_rows d (concat (map (\<lambda>row. join [d] (map (csv_field d) row) @ t) rows)) = rows"
  using assms(3)
proof (induction rows)
  case Nil
  then show ?case by (simp add: csv_rows.simps csv_read.simps)
next
  case (Cons row rows)
  then show ?case using csv_read_row [OF assms(1,2), of row] by (simp add: csv_rows.simps [of d "join [d] (map (csv_field d) row) @ _"])
qed

section \<open>A delimiter that is white space\<close>

text \<open>The reader skips the leading white space of a field also when the delimiter is white space: of an empty column
  between two tabs nothing is left, and the columns after it move to the left.\<close>

definition bare_text :: "string \<Rightarrow> bool" where
  "bare_text f \<longleftrightarrow> f \<noteq> [] \<and> list_all ascii_visible f \<and> quote \<notin> set f"

lemma tab_bytes: "delim_bytes (CHR 0x09) = [CHR 0x09]"
  by (simp add: delim_bytes_def)

lemma bare_trim: "bare_text f \<Longrightarrow> trim_left_seqs space_seqs (f @ x) = f @ x"
  using space_seqs_not_visible space_seqs_nonempty by (cases f) (auto simp: bare_text_def intro!: trim_left_visible)

lemma tab_trim: "bare_text f \<Longrightarrow> trim_left_seqs space_seqs (CHR 0x09 # f @ x) = f @ x"
proof -
  assume "bare_text f"
  have "space_seqs = [CHR 0x09] # tl space_seqs" by code_simp
  then have "first_strip space_seqs (CHR 0x09 # f @ x) = Some (f @ x)" by (metis first_strip.simps(2) option.simps(5) strip_prefix.simps(1,3))
  then show ?thesis using bare_trim [OF \<open>bare_text f\<close>, of x] by (simp add: trim_left_seqs.simps [of space_seqs "CHR 0x09 # f @ x"])
qed

lemma bare_fields:
  assumes "bare_text f" "l = CHR 0x09 # l' \<or> l = [line_feed]" "trim_left_seqs space_seqs line = f @ l"
  shows "csv_fields (CHR 0x09) line r = (if l = [line_feed] then ([f], r) else case csv_fields (CHR 0x09) (tl l) r of (fs, r') \<Rightarrow> (f # fs, r'))"
proof -
  have "CHR 0x09 \<notin> set f" using assms(1) by (auto simp: bare_text_def list_all_iff ascii_visible_def)
  moreover have "hd (f @ l) \<noteq> quote" "f \<noteq> []" using assms(1) by (cases f; auto simp: bare_text_def)+
  moreover have "strip_newline (f @ [line_feed]) = f" by (simp add: strip_newline_def)
  ultimately show ?thesis using assms(2,3)
    by (auto simp: csv_fields.simps [of _ line r] tab_bytes split_first_none split_first_at)
qed

lemma tab_row_shifts:
  assumes "bare_text a" "bare_text b"
  shows "csv_read (CHR 0x09) (a @ [CHR 0x09, CHR 0x09] @ b @ [line_feed]) = Some ([a, b], [])"
proof -
  have nl: "line_feed \<notin> set f" "carriage \<notin> set f" if "bare_text f" for f
    using that by (auto simp: bare_text_def list_all_iff ascii_visible_def)
  let ?l = "a @ [CHR 0x09, CHR 0x09] @ b @ [line_feed]"
  have "csv_line ?l = (?l, [])" using nl assms by (simp add: csv_line_append csv_line_Cons csv_line_newline)
  moreover have "?l \<noteq> [line_feed]" "?l \<noteq> []" using assms(1) by (auto simp: bare_text_def)
  moreover have "csv_fields (CHR 0x09) (CHR 0x09 # b @ [line_feed]) [] = ([b], [])"
    using bare_fields [OF assms(2), of "[line_feed]" _ "CHR 0x09 # b @ [line_feed]"] tab_trim [OF assms(2)] by simp
  moreover have "csv_fields (CHR 0x09) ?l [] = ([a, b], [])"
    using bare_fields [OF assms(1), of "[CHR 0x09, CHR 0x09] @ b @ [line_feed]" "CHR 0x09 # b @ [line_feed]" ?l] bare_trim [OF assms(1)] calculation(4) by simp
  ultimately show ?thesis by (simp add: csv_read.simps [of _ "a @ CHR 0x09 # CHR 0x09 # b @ [line_feed]"])
qed

end
