(* ===== verification/Storage.thy ===== *)
theory Storage
  imports Go_Paths
begin

text \<open>
  Storage as the sinks see it, \<^verbatim>\<open>internal/ports/storage.go\<close>: the operations of a \<^verbatim>\<open>StorageWriter\<close> and of the
  writers it opens, as functions on a world. The locale \<open>staged_storage\<close> holds the laws the sinks rely on; it is
  interpreted here on \<^verbatim>\<open>internal/adapters/storage/local_storage.go\<close>, a file system in which any operation may
  fail, and in \<open>Cloud_Storage\<close> on object storage and on the resolver that routes between the two.
\<close>

section \<open>The interface (ports/storage.go)\<close>

text \<open>A writer is known by the URI of its temporary file. \<^verbatim>\<open>Write\<close> gives the number of bytes taken.\<close>

record 'w storage =
  st_create :: "'w \<Rightarrow> string \<Rightarrow> 'w \<times> (string + string)"
  st_write :: "'w \<Rightarrow> string \<Rightarrow> string \<Rightarrow> 'w \<times> nat \<times> string option"
  st_close :: "'w \<Rightarrow> string \<Rightarrow> 'w \<times> string option"
  st_commit :: "'w \<Rightarrow> string \<Rightarrow> string \<Rightarrow> 'w \<times> string option"
  st_abort :: "'w \<Rightarrow> string \<Rightarrow> 'w \<times> string option"

text \<open>The laws, over the files of the world: \<open>target\<close> are the names the sinks may publish, \<open>temp f\<close> the temporary names
  given out for \<open>f\<close>, \<open>settled\<close> says that no writer of a temporary file is open any more, and \<open>atomic\<close> whether a commit
  that returns an error has changed nothing. A failed operation leaves every file but the temporary one alone, save
  that a commit that is not atomic may have published the whole file when it fails.\<close>

locale staged_storage =
  fixes S :: "'w storage" and view :: "'w \<Rightarrow> string \<Rightarrow> string option" and target :: "string \<Rightarrow> bool"
    and temp :: "string \<Rightarrow> string \<Rightarrow> bool" and settled :: "'w \<Rightarrow> string \<Rightarrow> bool" and atomic :: bool
  assumes temp_name: "temp f t \<Longrightarrow> t \<noteq> f \<and> t \<noteq> []"
    and create_ok: "target f \<Longrightarrow> st_create S w f = (w', Inr t) \<Longrightarrow> temp f t \<and> view w' = (view w)(t \<mapsto> [])"
    and create_fails: "target f \<Longrightarrow> st_create S w f = (w', Inl e) \<Longrightarrow> view w' = view w"
    and write_ok: "temp f t \<Longrightarrow> view w t = Some c \<Longrightarrow> st_write S w t b = (w', n, None) \<Longrightarrow> n = length b \<and> view w' = (view w)(t \<mapsto> c @ b)"
    and write_fails: "temp f t \<Longrightarrow> view w t = Some c \<Longrightarrow> st_write S w t b = (w', n, Some e) \<Longrightarrow> view w' = (view w)(t \<mapsto> c @ take n b)"
    and close_ok: "temp f t \<Longrightarrow> st_close S w t = (w', None) \<Longrightarrow> view w' = view w \<and> settled w' t"
    and close_others: "temp f t \<Longrightarrow> p \<noteq> t \<Longrightarrow> view (fst (st_close S w t)) p = view w p"
    and commit_ok: "temp f t \<Longrightarrow> settled w t \<Longrightarrow> view w t = Some c \<Longrightarrow> st_commit S w t f = (w', None) \<Longrightarrow>
      view w' = (view w)(f \<mapsto> c, t := None)"
    and commit_fails: "temp f t \<Longrightarrow> settled w t \<Longrightarrow> view w t = Some c \<Longrightarrow> st_commit S w t f = (w', Some e) \<Longrightarrow>
      (\<forall>p. p \<noteq> t \<longrightarrow> p \<noteq> f \<longrightarrow> view w' p = view w p) \<and> (view w' f = view w f \<or> \<not> atomic \<and> view w' f = Some c)"
    and abort_others: "temp f t \<Longrightarrow> p \<noteq> t \<Longrightarrow> view (fst (st_abort S w t)) p = view w p"

section \<open>Local files (local_storage.go)\<close>

text \<open>The files with their contents, and a count of the operations made: the fault at operation \<open>n\<close> says whether
  it fails, and how many bytes a failing write has taken. Directories are not represented.\<close>

record local_fs =
  files :: "string \<rightharpoonup> string"
  steps :: nat

record local_env =
  fault :: "nat \<Rightarrow> nat option"
  fresh_uuid :: "nat \<Rightarrow> 128 word"

text \<open>The text form of a UUID: 8-4-4-4-12 hexadecimal digits.\<close>

definition hex_digit :: "nat \<Rightarrow> char" where
  "hex_digit d = (if d < 10 then char_of (48 + d) else char_of (87 + d))"

definition hex_digits :: "nat \<Rightarrow> nat \<Rightarrow> string" where
  "hex_digits n x = map (\<lambda>i. hex_digit (x div 16 ^ (n - 1 - i) mod 16)) [0..<n]"

definition uuid_string :: "128 word \<Rightarrow> string" where
  "uuid_string u = (let h = hex_digits 32 (unat u) in
     take 8 h @ ''-'' @ take 4 (drop 8 h) @ ''-'' @ take 4 (drop 12 h) @ ''-'' @ take 4 (drop 16 h) @ ''-'' @ drop 20 h)"

definition local_temp_uri :: "128 word \<Rightarrow> string \<Rightarrow> string" where
  "local_temp_uri u final_uri = path_join [path_dir final_uri, ''.temp-'' @ uuid_string u @ ''-'' @ path_base final_uri]"

definition local_create_temp :: "local_env \<Rightarrow> local_fs \<Rightarrow> string \<Rightarrow> local_fs \<times> (string + string)" where
  "local_create_temp E w final_uri = (let w1 = w\<lparr>steps := Suc (steps w)\<rparr>; t = local_temp_uri (fresh_uuid E (steps w)) final_uri in
     case fault E (steps w) of
       Some _ \<Rightarrow> (w1, Inl (''failed to create temp file '' @ t))
     | None \<Rightarrow> (w1\<lparr>files := (files w)(t \<mapsto> [])\<rparr>, Inr t))"

text \<open>\<^verbatim>\<open>os.File.Write\<close> on the file the handle was opened for.\<close>

definition local_write :: "local_env \<Rightarrow> local_fs \<Rightarrow> string \<Rightarrow> string \<Rightarrow> local_fs \<times> nat \<times> string option" where
  "local_write E w t b = (let w1 = w\<lparr>steps := Suc (steps w)\<rparr>;
       n = (case fault E (steps w) of None \<Rightarrow> length b | Some k \<Rightarrow> min k (length b));
       err = (case fault E (steps w) of None \<Rightarrow> None | Some _ \<Rightarrow> Some (''write '' @ t)) in
     (w1\<lparr>files := (files w)(t := map_option (\<lambda>c. c @ take n b) (files w t))\<rparr>, n, err))"

definition local_close :: "local_env \<Rightarrow> local_fs \<Rightarrow> string \<Rightarrow> local_fs \<times> string option" where
  "local_close E w t = (w\<lparr>steps := Suc (steps w)\<rparr>,
     case fault E (steps w) of None \<Rightarrow> None | Some _ \<Rightarrow> Some (''close '' @ t))"

definition local_commit_temp :: "local_env \<Rightarrow> local_fs \<Rightarrow> string \<Rightarrow> string \<Rightarrow> local_fs \<times> string option" where
  "local_commit_temp E w t final_uri = (let w1 = w\<lparr>steps := Suc (steps w)\<rparr>;
       err = Some (''failed to rename temp file '' @ t @ '' to '' @ final_uri) in
     case (fault E (steps w), files w t) of
       (None, Some c) \<Rightarrow> (w1\<lparr>files := (if t = final_uri then files w else (files w)(final_uri \<mapsto> c, t := None))\<rparr>, None)
     | _ \<Rightarrow> (w1, err))"

definition local_abort_temp :: "local_env \<Rightarrow> local_fs \<Rightarrow> string \<Rightarrow> local_fs \<times> string option" where
  "local_abort_temp E w t = (let w1 = w\<lparr>steps := Suc (steps w)\<rparr> in
     case fault E (steps w) of
       Some _ \<Rightarrow> (w1, Some (''failed to remove temp file '' @ t))
     | None \<Rightarrow> (w1\<lparr>files := (files w)(t := None)\<rparr>, None))"

definition local_size :: "local_env \<Rightarrow> local_fs \<Rightarrow> string \<Rightarrow> local_fs \<times> (string + int)" where
  "local_size E w uri = (w\<lparr>steps := Suc (steps w)\<rparr>,
     case (fault E (steps w), files w (path_clean uri)) of
       (None, Some c) \<Rightarrow> Inr (int (length c)) | _ \<Rightarrow> Inl (''failed stating local file '' @ uri))"

text \<open>\<^verbatim>\<open>List\<close>: \<open>glob\<close> is \<^verbatim>\<open>filepath.Glob\<close>; a pattern that matches nothing may still be the name of a file.\<close>

definition local_list :: "local_env \<Rightarrow> (string \<Rightarrow> string + string list) \<Rightarrow> local_fs \<Rightarrow> string \<Rightarrow> local_fs \<times> (string + string list)" where
  "local_list E glob w p = (case glob p of
      Inl e \<Rightarrow> (w, Inl (''failed to glob files with pattern '' @ p @ '': '' @ e))
    | Inr ms \<Rightarrow>
        if ms \<noteq> [] then (w, Inr ms)
        else (w\<lparr>steps := Suc (steps w)\<rparr>, Inr (if fault E (steps w) = None \<and> files w (path_clean p) \<noteq> None then [p] else [])))"

definition local_open :: "local_env \<Rightarrow> local_fs \<Rightarrow> string \<Rightarrow> local_fs \<times> (string + string)" where
  "local_open E w uri = (w\<lparr>steps := Suc (steps w)\<rparr>,
     case (fault E (steps w), files w uri) of (None, Some c) \<Rightarrow> Inr c | _ \<Rightarrow> Inl (''open '' @ uri))"

definition local_storage :: "local_env \<Rightarrow> local_fs storage" where
  "local_storage E = \<lparr>st_create = local_create_temp E, st_write = local_write E, st_close = local_close E,
     st_commit = local_commit_temp E, st_abort = local_abort_temp E\<rparr>"

definition file_name :: "string \<Rightarrow> bool" where
  "file_name f \<longleftrightarrow> path_base f \<noteq> [slash]"

section \<open>Lemmas\<close>

lemma hex_digit_not_slash: "d < 16 \<Longrightarrow> hex_digit d \<noteq> slash"
proof
  assume "d < 16" "hex_digit d = slash"
  then have "(of_char (hex_digit d) :: nat) = 47" by simp
  with \<open>d < 16\<close> show False by (simp add: hex_digit_def split: if_splits)
qed

lemma uuid_no_slash: "slash \<notin> set (uuid_string u)"
proof -
  have h: "slash \<notin> set (hex_digits n x)" for n x using hex_digit_not_slash [of "_ mod 16"] by (force simp: hex_digits_def)
  then show ?thesis using set_take_subset set_drop_subset by (fastforce simp: uuid_string_def Let_def dest: in_set_takeD in_set_dropD)
qed

lemma last_component_no_slash: "slash \<notin> set (last_component p)"
  unfolding last_component_def by (metis (mono_tags, lifting) set_rev set_takeWhileD)

lemma path_base_component:
  assumes "path_base f \<noteq> [slash]"
  shows "slash \<notin> set (path_base f)" "last_component f = [] \<or> last_component f = path_base f"
proof -
  have "f = [] \<or> last f = slash \<or> trim_right_set {slash} f = f"
    by (cases f rule: rev_cases) (simp_all add: trim_right_set_def)
  moreover have "last f = slash \<Longrightarrow> f \<noteq> [] \<Longrightarrow> last_component f = []"
    by (cases f rule: rev_cases) (simp_all add: last_component_def)
  ultimately show "last_component f = [] \<or> last_component f = path_base f"
    by (auto simp: path_base_def Let_def last_component_def)
  show "slash \<notin> set (path_base f)"
    using assms last_component_no_slash by (auto simp: path_base_def Let_def split: if_splits)
qed

lemma local_temp_uri_distinct:
  assumes "file_name f" shows "local_temp_uri u f \<noteq> f \<and> local_temp_uri u f \<noteq> []"
proof -
  let ?n = "''.temp-'' @ uuid_string u @ ''-'' @ path_base f"
  have b: "path_base f \<noteq> [slash]" using assms by (simp add: file_name_def)
  have "slash \<notin> set ?n" using path_base_component(1) [OF b] uuid_no_slash by simp
  then have l: "last_component (local_temp_uri u f) = ?n"
    unfolding local_temp_uri_def by (rule path_join_name) simp
  moreover have "last_component f = [] \<or> last_component f = path_base f" by (rule path_base_component(2) [OF b])
  moreover have "?n \<noteq> path_base f" 
  proof
    assume "?n = path_base f"
    then have "length ?n = length (path_base f)" by (rule arg_cong)
    then show False by simp
  qed
  ultimately show ?thesis by (auto simp: last_component_def)
qed

interpretation local: staged_storage "local_storage E" files file_name "\<lambda>f t. t \<noteq> f \<and> t \<noteq> []" "\<lambda>_ _. True" True for E
proof
  fix f w w' t assume "file_name f" "st_create (local_storage E) w f = (w', Inr t)"
  then show "(t \<noteq> f \<and> t \<noteq> []) \<and> files w' = (files w)(t \<mapsto> [])"
    using local_temp_uri_distinct
    by (auto simp: local_storage_def local_create_temp_def Let_def split: option.splits)
qed (auto simp: local_storage_def local_create_temp_def local_write_def local_close_def local_commit_temp_def local_abort_temp_def
    Let_def split: option.splits)

end
