(* ===== verification/Sinks.thy ===== *)
theory Sinks
  imports Storage
begin

text \<open>
  The sinks that write one file per bundle: the stager of \<^verbatim>\<open>internal/beam/core/stager.go\<close>, the JSON-lines sinks
  of \<^verbatim>\<open>dlq_sink.go\<close> and \<^verbatim>\<open>audit_sink.go\<close>, and the sink of \<^verbatim>\<open>metrics_sink.go\<close>. Every
  operation takes the world of the storage and returns it. The lemmas are proved for any storage with the laws
  of \<open>staged_storage\<close>, and the properties for local files: a bundle publishes its file whole or not at all.
\<close>

section \<open>BundleFileStager (stager.go)\<close>

record 'w stager =
  sg_output_dir :: string
  sg_format :: string
  sg_compression :: string
  sg_encryption :: string
  sg_single_file :: bool
  sg_storage :: "'w storage option"
  sg_temp_uri :: string
  sg_final_uri :: string
  sg_writer :: "string option"
  sg_record_count :: int

type_synonym 'w factory = "(string \<Rightarrow> 'w storage) option"

definition new_bundle_file_stager ::
  "'w storage option \<Rightarrow> string \<Rightarrow> string \<Rightarrow> string \<Rightarrow> string \<Rightarrow> bool \<Rightarrow> 'w stager" where
  "new_bundle_file_stager st dir fmt compr enc single =
     \<lparr>sg_output_dir = trim_right_set {slash} dir, sg_format = to_lower fmt, sg_compression = to_lower compr,
      sg_encryption = to_lower enc, sg_single_file = single, sg_storage = st, sg_temp_uri = [], sg_final_uri = [],
      sg_writer = None, sg_record_count = 0\<rparr>"

definition stager_setup :: "'w factory \<Rightarrow> 'w stager \<Rightarrow> 'w stager" where
  "stager_setup fac s = (case (sg_storage s, fac) of
      (None, Some f) \<Rightarrow> s\<lparr>sg_storage := Some (f (sg_output_dir s))\<rparr> | _ \<Rightarrow> s)"

definition stager_start_bundle :: "'w stager \<Rightarrow> 'w stager" where
  "stager_start_bundle s = s\<lparr>sg_record_count := 0, sg_writer := None, sg_temp_uri := [], sg_final_uri := []\<rparr>"

text \<open>The shard identifier and the clock \<^verbatim>\<open>BuildOutputURI\<close> reads are the argument \<open>un\<close>.\<close>

definition stager_uri :: "string \<times> int \<Rightarrow> 'w stager \<Rightarrow> string" where
  "stager_uri un s = build_output_uri (fst un) (snd un) (sg_output_dir s) (sg_format s) (sg_compression s) (sg_encryption s) (sg_single_file s)"

definition ensure_open :: "'w factory \<Rightarrow> string \<times> int \<Rightarrow> 'w \<Rightarrow> 'w stager \<Rightarrow> 'w \<times> 'w stager \<times> (string + string)" where
  "ensure_open fac un w s = (case sg_writer s of
      Some h \<Rightarrow> (w, s, Inr h)
    | None \<Rightarrow> let s1 = stager_setup fac s in
        (case sg_storage s1 of
           None \<Rightarrow> (w, s1, Inl ''storage writer is not initialized'')
         | Some st \<Rightarrow> let s2 = s1\<lparr>sg_final_uri := stager_uri un s1\<rparr> in
             (case st_create st w (sg_final_uri s2) of
                (w', Inl e) \<Rightarrow> (w', s2, Inl (''failed creating temp staging file: '' @ e))
              | (w', Inr t) \<Rightarrow> (w', s2\<lparr>sg_temp_uri := t, sg_writer := Some t\<rparr>, Inr t))))"

definition increment_record :: "'w stager \<Rightarrow> 'w stager" where
  "increment_record s = s\<lparr>sg_record_count := i64 (sg_record_count s + 1)\<rparr>"

text \<open>Closing the writer; it was opened by the storage of the stager.\<close>

definition close_writer :: "'w \<Rightarrow> 'w stager \<Rightarrow> 'w \<times> string option" where
  "close_writer w s = (case (sg_storage s, sg_writer s) of
      (Some st, Some h) \<Rightarrow> st_close st w h | _ \<Rightarrow> (w, None))"

definition stager_abort :: "'w \<Rightarrow> 'w stager \<Rightarrow> 'w \<times> 'w stager \<times> string option" where
  "stager_abort w s = (let (w1, s1) = (if sg_writer s \<noteq> None then (fst (close_writer w s), s\<lparr>sg_writer := None\<rparr>) else (w, s)) in
     case sg_storage s1 of
       None \<Rightarrow> (w1, s1, None)
     | Some st \<Rightarrow> if sg_temp_uri s1 \<noteq> [] then (case st_abort st w1 (sg_temp_uri s1) of (w2, e) \<Rightarrow> (w2, s1, e)) else (w1, s1, None))"

definition abort_quietly :: "'w \<Rightarrow> 'w stager \<Rightarrow> 'w \<times> 'w stager" where
  "abort_quietly w s = (case stager_abort w s of (w', s', _) \<Rightarrow> (w', s'))"

text \<open>\<^verbatim>\<open>CommitOrAbort\<close>; \<open>closer\<close> is the wrapper to close first, if there is one.\<close>

definition commit_or_abort ::
  "('w \<Rightarrow> 'w \<times> string option) option \<Rightarrow> 'w \<Rightarrow> 'w stager \<Rightarrow> 'w \<times> 'w stager \<times> string option" where
  "commit_or_abort closer w s =
     (case (sg_writer s, sg_storage s) of
        (Some h, Some st) \<Rightarrow>
          (case (case closer of None \<Rightarrow> (w, None) | Some f \<Rightarrow> f w) of
             (w1, Some e) \<Rightarrow> (case abort_quietly w1 s of (w2, s2) \<Rightarrow> (w2, s2, Some (''failed closing staging wrapper: '' @ e)))
           | (w1, None) \<Rightarrow>
               (case st_close st w1 h of
                  (w2, Some e) \<Rightarrow> (case abort_quietly w2 s of (w3, s3) \<Rightarrow> (w3, s3, Some (''failed closing staging writer: '' @ e)))
                | (w2, None) \<Rightarrow> let s2 = s\<lparr>sg_writer := None\<rparr> in
                    if sg_record_count s = 0
                    then (case st_abort st w2 (sg_temp_uri s) of (w3, e) \<Rightarrow> (w3, s2, e))
                    else (case st_commit st w2 (sg_temp_uri s) (sg_final_uri s) of
                            (w3, None) \<Rightarrow> (w3, s2, None)
                          | (w3, Some e) \<Rightarrow> (fst (st_abort st w3 (sg_temp_uri s)), s2, Some (''failed committing staging file: '' @ e)))))
      | _ \<Rightarrow> (w, s, None))"

definition stager_drain :: "'w \<Rightarrow> 'w stager \<Rightarrow> 'w \<times> 'w stager \<times> string option" where
  "stager_drain w s = commit_or_abort None w s"

section \<open>JSON-lines sinks (dlq_sink.go, audit_sink.go)\<close>

text \<open>Both DoFns hold a directory and a stager, and differ in their messages. \<open>marshal\<close> is \<^verbatim>\<open>json.Marshal\<close>.\<close>

record 'w jsonl_sink =
  js_dir :: string
  js_stager :: "'w stager option"

definition jsonl_stager :: "'w jsonl_sink \<Rightarrow> 'w stager" where
  "jsonl_stager d = (case js_stager d of Some s \<Rightarrow> s
     | None \<Rightarrow> new_bundle_file_stager None (js_dir d) ''jsonl'' ''none'' ''none'' False)"

definition new_jsonl_sink :: "'w storage option \<Rightarrow> string \<Rightarrow> 'w jsonl_sink" where
  "new_jsonl_sink st dir = \<lparr>js_dir = trim_right_set {slash} dir,
     js_stager = Some (new_bundle_file_stager st dir ''jsonl'' ''none'' ''none'' False)\<rparr>"

definition jsonl_setup :: "'w factory \<Rightarrow> 'w jsonl_sink \<Rightarrow> 'w jsonl_sink" where
  "jsonl_setup fac d = d\<lparr>js_stager := Some (stager_setup fac (jsonl_stager d))\<rparr>"

definition jsonl_start_bundle :: "'w jsonl_sink \<Rightarrow> 'w jsonl_sink" where
  "jsonl_start_bundle d = d\<lparr>js_stager := Some (stager_start_bundle (jsonl_stager d))\<rparr>"

definition jsonl_process_element ::
  "string \<Rightarrow> string \<Rightarrow> ('r \<Rightarrow> string + string) \<Rightarrow> 'w factory \<Rightarrow> string \<times> int \<Rightarrow> 'w \<Rightarrow> 'w jsonl_sink \<Rightarrow> 'r \<Rightarrow>
   'w \<times> 'w jsonl_sink \<times> string option" where
  "jsonl_process_element marshal_msg write_msg marshal fac un w d rec =
     (case ensure_open fac un w (jsonl_stager d) of
        (w1, s1, Inl e) \<Rightarrow> (w1, d\<lparr>js_stager := Some s1\<rparr>, Some e)
      | (w1, s1, Inr h) \<Rightarrow>
          (case marshal rec of
             Inl e \<Rightarrow> (case abort_quietly w1 s1 of (w2, s2) \<Rightarrow> (w2, d\<lparr>js_stager := Some s2\<rparr>, Some (marshal_msg @ e)))
           | Inr line \<Rightarrow>
               (case sg_storage s1 of
                  None \<Rightarrow> (w1, d\<lparr>js_stager := Some s1\<rparr>, None)
                | Some st \<Rightarrow> (case st_write st w1 h (line @ [CHR 0x0A]) of
                    (w2, _, Some e) \<Rightarrow> (case abort_quietly w2 s1 of (w3, s3) \<Rightarrow> (w3, d\<lparr>js_stager := Some s3\<rparr>, Some (write_msg @ e)))
                  | (w2, _, None) \<Rightarrow> (w2, d\<lparr>js_stager := Some (increment_record s1)\<rparr>, None)))))"

definition jsonl_finish_bundle :: "'w \<Rightarrow> 'w jsonl_sink \<Rightarrow> 'w \<times> 'w jsonl_sink \<times> string option" where
  "jsonl_finish_bundle w d = (case js_stager d of None \<Rightarrow> (w, d, None)
     | Some s \<Rightarrow> (case commit_or_abort None w s of (w', s', e) \<Rightarrow> (w', d\<lparr>js_stager := Some s'\<rparr>, e)))"

definition dlq_process_element ::
  "('r \<Rightarrow> string + string) \<Rightarrow> 'w factory \<Rightarrow> string \<times> int \<Rightarrow> 'w \<Rightarrow> 'w jsonl_sink \<Rightarrow> 'r \<Rightarrow> 'w \<times> 'w jsonl_sink \<times> string option" where
  "dlq_process_element = jsonl_process_element ''failed marshaling DLQ record: '' ''failed writing DLQ record: ''"

definition audit_process_element ::
  "('r \<Rightarrow> string + string) \<Rightarrow> 'w factory \<Rightarrow> string \<times> int \<Rightarrow> 'w \<Rightarrow> 'w jsonl_sink \<Rightarrow> 'r \<Rightarrow> 'w \<times> 'w jsonl_sink \<times> string option" where
  "audit_process_element = jsonl_process_element ''audit sink: failed marshaling record: '' ''audit sink: failed writing record: ''"

section \<open>Bundles\<close>

text \<open>A runner starts a bundle, processes its elements until one fails, and finishes it if none has.\<close>

fun process_all :: "('w \<Rightarrow> 'd \<Rightarrow> 'r \<Rightarrow> 'w \<times> 'd \<times> string option) \<Rightarrow> 'w \<Rightarrow> 'd \<Rightarrow> 'r list \<Rightarrow> 'w \<times> 'd \<times> string option" where
  "process_all f w d [] = (w, d, None)"
| "process_all f w d (r # rs) = (case f w d r of (w', d', Some e) \<Rightarrow> (w', d', Some e) | (w', d', None) \<Rightarrow> process_all f w' d' rs)"

definition run_bundle ::
  "('d \<Rightarrow> 'd) \<Rightarrow> ('w \<Rightarrow> 'd \<Rightarrow> 'r \<Rightarrow> 'w \<times> 'd \<times> string option) \<Rightarrow> ('w \<Rightarrow> 'd \<Rightarrow> 'w \<times> 'd \<times> string option) \<Rightarrow>
   'w \<Rightarrow> 'd \<Rightarrow> 'r list \<Rightarrow> 'w \<times> 'd \<times> string option" where
  "run_bundle start process finish w d rs =
     (case process_all process w (start d) rs of (w', d', Some e) \<Rightarrow> (w', d', Some e) | (w', d', None) \<Rightarrow> finish w' d')"

section \<open>MetricsSinkDoFn (metrics_sink.go)\<close>

definition metrics_uri :: "string \<Rightarrow> string" where
  "metrics_uri dir = (let d = trim_right_set {slash, CHR 0x5C} dir;
       d' = (if path_ext d \<noteq> [] then path_dir d else d) in d' @ ''/pipeline_metrics.json'')"

definition metrics_process_element ::
  "('m \<Rightarrow> string + string) \<Rightarrow> 'w storage option \<Rightarrow> 'w factory \<Rightarrow> string \<Rightarrow> 'w \<Rightarrow> 'm \<Rightarrow> 'w \<times> string option" where
  "metrics_process_element marshal st0 fac dir w m =
     (case (case st0 of Some s \<Rightarrow> Some s | None \<Rightarrow> map_option (\<lambda>f. f dir) fac) of
        None \<Rightarrow> (w, Some ''MetricsSinkDoFn: storage not initialized'')
      | Some st \<Rightarrow>
          (case marshal m of
             Inl e \<Rightarrow> (w, Some (''MetricsSinkDoFn: marshal: '' @ e))
           | Inr data \<Rightarrow>
               (case st_create st w (metrics_uri dir) of
                  (w1, Inl e) \<Rightarrow> (w1, Some (''MetricsSinkDoFn: CreateTemp: '' @ e))
                | (w1, Inr t) \<Rightarrow>
                    (case st_write st w1 t data of
                       (w2, _, Some e) \<Rightarrow> (fst (st_abort st w2 t), Some (''MetricsSinkDoFn: write: '' @ e))
                     | (w2, _, None) \<Rightarrow>
                         (case st_close st w2 t of
                            (w3, Some e) \<Rightarrow> (fst (st_abort st w3 t), Some (''MetricsSinkDoFn: close writer: '' @ e))
                          | (w3, None) \<Rightarrow>
                              (case st_commit st w3 t (metrics_uri dir) of
                                 (w4, Some e) \<Rightarrow> (w4, Some (''MetricsSinkDoFn: CommitTemp: '' @ e))
                               | (w4, None) \<Rightarrow> (w4, None)))))))"

section \<open>A bundle over any storage\<close>

text \<open>The state of a bundle: nothing opened yet, or a temporary file with the bytes written so far, every other file
  as it was at the start.\<close>

definition untouched :: "('w \<Rightarrow> string \<Rightarrow> string option) \<Rightarrow> 'w \<Rightarrow> string \<Rightarrow> 'w \<Rightarrow> bool" where
  "untouched view w0 fin w \<longleftrightarrow> (\<exists>t. t \<noteq> fin \<and> (\<forall>p. p \<noteq> t \<longrightarrow> view w p = view w0 p))"

definition staged ::
  "'w storage \<Rightarrow> ('w \<Rightarrow> string \<Rightarrow> string option) \<Rightarrow> (string \<Rightarrow> string \<Rightarrow> bool) \<Rightarrow> 'w \<Rightarrow> string \<Rightarrow> string \<Rightarrow> 'w \<Rightarrow> 'w stager \<Rightarrow> bool" where
  "staged S view temp w0 fin c w s \<longleftrightarrow> sg_storage s = Some S \<and> sg_final_uri s = fin \<and> temp fin (sg_temp_uri s) \<and>
     sg_writer s = Some (sg_temp_uri s) \<and> view w (sg_temp_uri s) = Some c \<and>
     (\<forall>p. p \<noteq> sg_temp_uri s \<longrightarrow> view w p = view w0 p)"

definition published :: "('w \<Rightarrow> string \<Rightarrow> string option) \<Rightarrow> 'w \<Rightarrow> string \<Rightarrow> string \<Rightarrow> 'w \<Rightarrow> bool" where
  "published view w0 fin c w \<longleftrightarrow> (\<exists>t. t \<noteq> fin \<and> view w = (view w0)(fin \<mapsto> c, t := None))"

text \<open>What an error may leave behind. Where commits are atomic, nothing but a temporary file; where they are not, the
  final file may hold the whole content.\<close>

definition failed_bundle ::
  "bool \<Rightarrow> ('w \<Rightarrow> string \<Rightarrow> string option) \<Rightarrow> 'w \<Rightarrow> string \<Rightarrow> string \<Rightarrow> 'w \<Rightarrow> bool" where
  "failed_bundle atomic view w0 fin c w \<longleftrightarrow> untouched view w0 fin w \<or>
     \<not> atomic \<and> (\<exists>t. t \<noteq> fin \<and> (\<forall>p. p \<noteq> t \<longrightarrow> view w p = ((view w0)(fin \<mapsto> c)) p))"

lemma untouched_refl: "untouched view w0 fin w0"
proof -
  have "CHR ''x'' # fin \<noteq> fin" by simp
  then show ?thesis unfolding untouched_def by blast
qed

lemma failed_untouched: "untouched view w0 fin w \<Longrightarrow> failed_bundle atomic view w0 fin c w"
  by (simp add: failed_bundle_def)

lemma failed_atomic [simp]: "failed_bundle True view w0 fin c w = untouched view w0 fin w"
  by (simp add: failed_bundle_def)

lemma staged_increment [simp]: "staged S view temp w0 fin c w (increment_record s) = staged S view temp w0 fin c w s"
  by (simp add: staged_def increment_record_def)

context staged_storage
begin

lemma abort_quietly_untouched:
  assumes "staged S view temp w0 fin c w s"
  shows "untouched view w0 fin (fst (abort_quietly w s))"
proof -
  let ?t = "sg_temp_uri s"
  have t: "temp fin ?t" "?t \<noteq> fin" "?t \<noteq> []" using assms temp_name by (auto simp: staged_def)
  let ?w = "fst (st_close S w (sg_temp_uri s))"
  have "fst (abort_quietly w s) = fst (st_abort S ?w (sg_temp_uri s))"
    using assms t by (simp add: abort_quietly_def stager_abort_def close_writer_def staged_def split: prod.splits)
  then show ?thesis using assms t abort_others [OF t(1)] close_others [OF t(1)] by (auto simp: untouched_def staged_def)
qed

lemma ensure_open_new:
  assumes "sg_writer s = None" "sg_storage s = Some S" "target (stager_uri un s)"
  shows "case ensure_open fac un w s of
     (w', s', Inl e) \<Rightarrow> untouched view w (stager_uri un s) w'
   | (w', s', Inr h) \<Rightarrow> staged S view temp w (stager_uri un s) [] w' s' \<and> h = sg_temp_uri s' \<and> sg_record_count s' = sg_record_count s"
proof -
  have st: "stager_setup fac s = s" using assms(2) by (simp add: stager_setup_def)
  obtain w' r where c: "st_create S w (stager_uri un s) = (w', r)" by fastforce
  show ?thesis
  proof (cases r)
    case (Inl e)
    then show ?thesis using c assms st create_fails [OF assms(3), of w w'] untouched_refl [of view w "stager_uri un s"]
      by (auto simp: ensure_open_def Let_def untouched_def)
  next
    case (Inr t)
    then show ?thesis using c assms st create_ok [OF assms(3), of w w' t]
      by (auto simp: ensure_open_def Let_def staged_def)
  qed
qed

lemma ensure_open_staged: "staged S view temp w0 fin c w s \<Longrightarrow> ensure_open fac un w s = (w, s, Inr (sg_temp_uri s))"
  by (simp add: ensure_open_def staged_def)

lemma write_staged:
  assumes "staged S view temp w0 fin c w s" "st_write S w (sg_temp_uri s) b = (w', n, e)"
  shows "staged S view temp w0 fin (c @ take n b) w' s" "e = None \<Longrightarrow> n = length b"
  using assms write_ok [of fin "sg_temp_uri s" w c b w' n] write_fails [of fin "sg_temp_uri s" w c b w' n]
  by (cases e; auto simp: staged_def)+

lemma abort_staged:
  assumes "temp fin t" "\<And>p. p \<noteq> t \<Longrightarrow> view w p = view w0 p"
  shows "untouched view w0 fin (fst (st_abort S w t))"
  using assms abort_others [OF assms(1)] temp_name [OF assms(1)] by (auto simp: untouched_def)

lemma closed_abort:
  assumes "staged S view temp w0 fin c w s" "st_close S w (sg_temp_uri s) = (w1, e)"
  shows "untouched view w0 fin (fst (abort_quietly w1 s))"
proof -
  let ?t = "sg_temp_uri s"
  have t: "temp fin ?t" "?t \<noteq> []" using assms temp_name by (auto simp: staged_def)
  have "fst (abort_quietly w1 s) = fst (st_abort S (fst (st_close S w1 ?t)) ?t)"
    using assms t by (simp add: abort_quietly_def stager_abort_def close_writer_def staged_def split: prod.splits)
  moreover have "view w1 p = view w0 p" if "p \<noteq> ?t" for p
    using close_others [OF t(1) that, of w] assms that by (simp add: staged_def)
  ultimately show ?thesis using close_others [OF t(1)] by (simp add: abort_staged [OF t(1)])
qed

text \<open>A commit that fails and the abort after it.\<close>

lemma commit_failed:
  assumes "temp fin t" "settled w t" "view w t = Some c" "st_commit S w t fin = (w', Some e)" "\<And>p. p \<noteq> t \<Longrightarrow> view w p = view w0 p"
    and "\<And>p. p \<noteq> t \<Longrightarrow> view w'' p = view w' p"
  shows "failed_bundle atomic view w0 fin c w''"
proof -
  have t: "t \<noteq> fin" using temp_name [OF assms(1)] by simp
  note cf = commit_fails [OF assms(1-4)]
  show ?thesis
  proof (cases "view w' fin = view w fin")
    case True
    then have "view w'' p = view w0 p" if "p \<noteq> t" for p using cf assms(5,6) that t by (cases "p = fin") auto
    then show ?thesis using t by (auto simp: failed_bundle_def untouched_def)
  next
    case False
    then have "view w'' p = ((view w0)(fin \<mapsto> c)) p" if "p \<noteq> t" for p using cf assms(5,6) that t by (cases "p = fin") auto
    then show ?thesis using t cf False by (auto simp: failed_bundle_def)
  qed
qed

lemma commit_staged:
  assumes "staged S view temp w0 fin c w s" "sg_record_count s \<noteq> 0"
    and closer: "closer = None \<and> c' = c \<or> (\<exists>f. closer = Some f \<and> staged S view temp w0 fin c' (fst (f w)) s)"
  shows "case commit_or_abort closer w s of
     (w', s', None) \<Rightarrow> published view w0 fin c' w'
   | (w', s', Some e) \<Rightarrow> if closer = None \<or> snd (the closer w) = None then failed_bundle atomic view w0 fin c' w' else untouched view w0 fin w'"
proof -
  let ?t = "sg_temp_uri s"
  obtain w1 e1 where cl: "(case closer of None \<Rightarrow> (w, None) | Some f \<Rightarrow> f w) = (w1, e1)" by fastforce
  have w1: "staged S view temp w0 fin c' w1 s" using cl closer assms(1) by (auto split: option.splits)
  have h: "sg_writer s = Some ?t" "sg_storage s = Some S" "sg_final_uri s = fin" "temp fin ?t" using assms(1) by (simp_all add: staged_def)
  have t: "?t \<noteq> fin" using temp_name [OF h(4)] by simp
  obtain w2 e2 where c2: "st_close S w1 ?t = (w2, e2)" by fastforce
  obtain w3 e3 where c3: "st_commit S w2 ?t fin = (w3, e3)" by fastforce
  have e1: "e1 = None \<longleftrightarrow> closer = None \<or> snd (the closer w) = None" using cl by (auto split: option.splits)
  have w2: "view w2 = view w1" "settled w2 ?t" if "e2 = None" using close_ok [OF h(4), of w1 w2] c2 that by simp_all
  have ok: "published view w0 fin c' w3" if "e2 = None" "e3 = None"
    using w1 c3 that t commit_ok [OF h(4) w2(2) [OF that(1)], of c' w3] w2(1) [OF that(1)]
    by (auto simp: published_def staged_def fun_eq_iff intro!: exI [of _ ?t])
  have fail: "failed_bundle atomic view w0 fin c' (fst (st_abort S w3 ?t))" if "e2 = None" "e3 = Some e" for e
    using w1 c3 that w2(1) [OF that(1)] abort_others [OF h(4)]
    by (intro commit_failed [OF h(4) w2(2) [OF that(1)], of c' w3 e]) (auto simp: staged_def)
  show ?thesis
    using abort_quietly_untouched [OF w1] closed_abort [OF w1 c2] ok fail cl c2 c3 h assms(2) e1
    by (cases e1; cases e2; cases e3) (auto simp: commit_or_abort_def Let_def failed_untouched split: prod.splits)
qed

end

text \<open>The bytes of a JSON-lines file.\<close>

definition jsonl_content :: "('r \<Rightarrow> string + string) \<Rightarrow> 'r list \<Rightarrow> string" where
  "jsonl_content marshal rs = concat (map (\<lambda>r. projr (marshal r) @ [CHR 0x0A]) rs)"

lemma i64_count: "0 \<le> n \<Longrightarrow> n < 2 ^ 63 - 1 \<Longrightarrow> i64 (n + 1) = n + 1"
  by (intro i64_id in_i64I) auto

text \<open>What a bundle may end in: an error, every file but a temporary one untouched, or the whole file published.\<close>

definition all_or_nothing ::
  "bool \<Rightarrow> ('w \<Rightarrow> string \<Rightarrow> string option) \<Rightarrow> 'w \<Rightarrow> string \<Rightarrow> string \<Rightarrow> bool \<Rightarrow> 'w \<Rightarrow> string option \<Rightarrow> bool" where
  "all_or_nothing atomic view w0 fin c none w e = (case e of
      None \<Rightarrow> if none then view w = view w0 else published view w0 fin c w
    | Some _ \<Rightarrow> failed_bundle atomic view w0 fin c w)"

context staged_storage
begin

lemma jsonl_process_staged:
  assumes "staged S view temp w0 fin c w s" "js_stager d = Some s"
  shows "case jsonl_process_element mm wm marshal fac un w d r of
     (w', d', Some e) \<Rightarrow> untouched view w0 fin w'
   | (w', d', None) \<Rightarrow> js_stager d' = Some (increment_record s) \<and>
       staged S view temp w0 fin (c @ projr (marshal r) @ [CHR 0x0A]) w' s"
proof -
  have js: "jsonl_stager d = s" "sg_storage s = Some S" using assms by (simp_all add: jsonl_stager_def staged_def)
  show ?thesis
  proof (cases "marshal r")
    case (Inl e)
    then show ?thesis using js ensure_open_staged [OF assms(1)] abort_quietly_untouched [OF assms(1)]
      by (auto simp: jsonl_process_element_def split: prod.splits)
  next
    case (Inr line)
    obtain w2 n e where wr: "st_write S w (sg_temp_uri s) (line @ [CHR 0x0A]) = (w2, n, e)" using prod_cases3 by blast
    note ws = write_staged [OF assms(1) wr]
    show ?thesis using js ensure_open_staged [OF assms(1)] ws abort_quietly_untouched [OF ws(1)] wr Inr
      by (cases e) (auto simp: jsonl_process_element_def split: prod.splits)
  qed
qed

lemma jsonl_process_all_staged:
  assumes "staged S view temp w0 fin c w s" "js_stager d = Some s" "0 \<le> sg_record_count s" "sg_record_count s + int (length rs) < 2 ^ 63"
  shows "case process_all (jsonl_process_element mm wm marshal fac un) w d rs of
     (w', d', Some e) \<Rightarrow> untouched view w0 fin w'
   | (w', d', None) \<Rightarrow> \<exists>s'. js_stager d' = Some s' \<and> staged S view temp w0 fin (c @ jsonl_content marshal rs) w' s' \<and>
       sg_record_count s' = sg_record_count s + int (length rs)"
  using assms
proof (induction rs arbitrary: w d s c)
  case (Cons r rs)
  note step = jsonl_process_staged [OF Cons.prems(1,2), where mm = mm and wm = wm and marshal = marshal and fac = fac and un = un and r = r]
  obtain w' d' e where p: "jsonl_process_element mm wm marshal fac un w d r = (w', d', e)" using prod_cases3 by blast
  show ?case
  proof (cases e)
    case None
    have cnt: "sg_record_count (increment_record s) = sg_record_count s + 1"
      using Cons.prems(3,4) i64_count by (simp add: increment_record_def)
    have "case process_all (jsonl_process_element mm wm marshal fac un) w' d' rs of
       (w', d', Some e) \<Rightarrow> untouched view w0 fin w'
     | (w', d', None) \<Rightarrow> \<exists>s'. js_stager d' = Some s' \<and>
         staged S view temp w0 fin ((c @ projr (marshal r) @ [CHR 0x0A]) @ jsonl_content marshal rs) w' s' \<and>
         sg_record_count s' = sg_record_count (increment_record s) + int (length rs)"
      using step p None Cons.prems(3,4) cnt by (intro Cons.IH) auto
    then show ?thesis using p None cnt by (auto simp: jsonl_content_def split: prod.splits option.splits)
  qed (use step p in auto)
qed (auto simp: jsonl_content_def)

lemma jsonl_bundle:
  assumes s: "js_stager d = Some s" "sg_storage s = Some S" and fin: "target (stager_uri un s)" and len: "int (length rs) < 2 ^ 63"
  shows "case run_bundle jsonl_start_bundle (jsonl_process_element mm wm marshal fac un) jsonl_finish_bundle w d rs of
    (w', d', e) \<Rightarrow> all_or_nothing atomic view w (stager_uri un s) (jsonl_content marshal rs) (rs = []) w' e"
proof (cases rs)
  case Nil
  then show ?thesis using s
    by (simp add: run_bundle_def jsonl_finish_bundle_def jsonl_start_bundle_def jsonl_stager_def stager_start_bundle_def
        commit_or_abort_def all_or_nothing_def)
next
  case (Cons r rs')
  define s0 where "s0 = stager_start_bundle s"
  define d0 where "d0 = jsonl_start_bundle d"
  have d0: "js_stager d0 = Some s0" "jsonl_stager d0 = s0" using s by (simp_all add: d0_def s0_def jsonl_start_bundle_def jsonl_stager_def)
  have s0: "sg_writer s0 = None" "sg_storage s0 = Some S" "stager_uri un s0 = stager_uri un s" "sg_record_count s0 = 0"
    using s by (simp_all add: s0_def stager_start_bundle_def stager_uri_def)
  let ?f = "jsonl_process_element mm wm marshal fac un" and ?u = "stager_uri un s"
  note eo = ensure_open_new [of s0 un, where fac = fac and w = w, unfolded s0, OF refl refl fin]
  obtain w1 s1 r1 where o1: "ensure_open fac un w s0 = (w1, s1, r1)" using prod_cases3 by blast
  show ?thesis
  proof (cases r1)
    case (Inl e)
    then have "?f w d0 r = (w1, d0\<lparr>js_stager := Some s1\<rparr>, Some e)" using o1 d0 by (simp add: jsonl_process_element_def)
    then show ?thesis using eo o1 Inl Cons by (simp add: run_bundle_def d0_def all_or_nothing_def failed_untouched)
  next
    case (Inr h)
    have st1: "staged S view temp w ?u [] w1 s1" "sg_record_count s1 = 0" "h = sg_temp_uri s1" using eo o1 Inr by auto
    have "ensure_open fac un w1 s1 = (w1, s1, Inr h)" using ensure_open_staged [OF st1(1)] st1(3) by simp
    then have same: "?f w d0 r = ?f w1 (d0\<lparr>js_stager := Some s1\<rparr>) r"
      using o1 Inr d0 by (simp add: jsonl_process_element_def jsonl_stager_def split: prod.splits sum.splits option.splits)
    have pa: "process_all ?f w d0 rs = process_all ?f w1 (d0\<lparr>js_stager := Some s1\<rparr>) rs" unfolding Cons using same by simp
    note all = jsonl_process_all_staged [OF st1(1), where d = "d0\<lparr>js_stager := Some s1\<rparr>" and rs = rs and mm = mm and wm = wm and marshal = marshal and fac = fac and un = un, folded pa]
    obtain w2 d2 e2 where p: "process_all ?f w d0 rs = (w2, d2, e2)" using prod_cases3 by blast
    show ?thesis
    proof (cases e2)
      case None
      then obtain s2 where s2: "js_stager d2 = Some s2" "staged S view temp w ?u (jsonl_content marshal rs) w2 s2"
        "sg_record_count s2 = int (length rs)" using all p st1 len by auto
      have "case commit_or_abort None w2 s2 of (w', s', None) \<Rightarrow> published view w ?u (jsonl_content marshal rs) w'
          | (w', s', Some e) \<Rightarrow> failed_bundle atomic view w ?u (jsonl_content marshal rs) w'"
        using s2(3) commit_staged [OF s2(2), of None "jsonl_content marshal rs"] unfolding Cons by simp
      then show ?thesis using p None s2(1) Cons
        by (auto simp: run_bundle_def d0_def [symmetric] jsonl_finish_bundle_def all_or_nothing_def split: prod.splits option.splits)
    next
      case (Some e)
      then show ?thesis using all p st1 len by (simp add: run_bundle_def d0_def [symmetric] all_or_nothing_def failed_untouched)
    qed
  qed
qed

end

context staged_storage
begin

lemma metrics_sink:
  assumes "target (metrics_uri dir)"
  shows "case metrics_process_element marshal (Some S) fac dir w m of
    (w', e) \<Rightarrow> all_or_nothing atomic view w (metrics_uri dir) (projr (marshal m)) False w' e"
proof -
  let ?u = "metrics_uri dir"
  obtain w1 r where cr: "st_create S w ?u = (w1, r)" by fastforce
  show ?thesis
  proof (cases "marshal m")
    case (Inl e)
    then show ?thesis by (simp add: metrics_process_element_def all_or_nothing_def failed_untouched untouched_refl)
  next
    case data: (Inr data)
    show ?thesis
    proof (cases r)
      case (Inl e)
      then show ?thesis using data cr create_fails [OF assms, of w w1] untouched_refl [of view w ?u]
        by (simp add: metrics_process_element_def all_or_nothing_def failed_untouched untouched_def)
    next
      case (Inr t)
      have t: "temp ?u t" "t \<noteq> ?u" "view w1 = (view w)(t \<mapsto> [])" using create_ok [OF assms, of w w1 t] temp_name cr Inr by auto
      obtain w2 n e2 where wr: "st_write S w1 t data = (w2, n, e2)" using prod_cases3 by blast
      have v2: "view w2 = (view w)(t \<mapsto> take n data)" "e2 = None \<Longrightarrow> n = length data"
        using write_ok [OF t(1), of w1 "[]" data w2 n] write_fails [OF t(1), of w1 "[]" data w2 n] wr t by (cases e2; simp)+
      obtain w3 e3 where c3: "st_close S w2 t = (w3, e3)" by fastforce
      have v3: "view w3 = view w2" "settled w3 t" if "e3 = None" using close_ok [OF t(1), of w2 w3] c3 that by simp_all
      obtain w4 e4 where c4: "st_commit S w3 t ?u = (w4, e4)" by fastforce
      have others: "view w2 p = view w p" "view w3 p = view w p" if "p \<noteq> t" for p
        using close_others [OF t(1) that, of w2] c3 v2(1) that by simp_all
      have a: "untouched view w ?u (fst (st_abort S w2 t))" "untouched view w ?u (fst (st_abort S w3 t))"
        using abort_staged [OF t(1)] others by blast+
      have c: "published view w ?u data w4" if "e3 = None" "e4 = None" "n = length data"
        using commit_ok [OF t(1) v3(2) [OF that(1)], of data w4] c4 v3(1) [OF that(1)] v2(1) t(2) that
        by (auto simp: published_def fun_eq_iff intro!: exI [of _ t])
      have f: "failed_bundle atomic view w ?u data w4" if "e3 = None" "e4 = Some e" "n = length data" for e
        using c4 v3(1) [OF that(1)] v2(1) others that by (intro commit_failed [OF t(1) v3(2) [OF that(1)], of data w4 e]) auto
      show ?thesis using data cr Inr wr c3 c4 a c f v2(2)
        by (cases e2; cases e3; cases e4) (auto simp: metrics_process_element_def all_or_nothing_def failed_untouched)
    qed
  qed
qed

end

text \<open>The metrics file, too, is published whole or not at all.\<close>

lemma metrics_sink_all_or_nothing:
  "file_name (metrics_uri dir) \<Longrightarrow> case metrics_process_element marshal (Some (local_storage E)) fac dir w m of
    (w', e) \<Rightarrow> all_or_nothing True files w (metrics_uri dir) (projr (marshal m)) False w' e"
  by (rule local.metrics_sink)

end
