(* ===== verification/Stream_Sink.thy ===== *)
theory Stream_Sink
  imports Sinks
begin

text \<open>
  The file sink: the writer layers of \<^verbatim>\<open>pkg/ioutils/stream_pipeline.go\<close> and the DoFn of
  \<^verbatim>\<open>internal/beam/streams/stream_file_sink.go\<close>. The compressor, the encryptor and the formatter are arguments. The
  properties of the sinks are here: every bundle publishes its whole file or changes nothing, and does publish
  it when nothing fails.
\<close>

section \<open>Writer layers (pkg/ioutils/stream_pipeline.go, hash_writer.go)\<close>

text \<open>A compressor or encryptor is a stream transformer: what it passes on when it is given bytes, and what it adds
  when it is closed. It does not fail itself; the writer below it may.\<close>

record 'l stream_layer =
  ly_state :: 'l
  ly_write :: "'l \<Rightarrow> string \<Rightarrow> 'l \<times> string"
  ly_close :: "'l \<Rightarrow> string"

text \<open>\<^verbatim>\<open>DecoratedStreamWriter\<close> over the hash writer; \<open>dw_raw\<close> are the bytes the hash writer has passed on, whose
  number it counts and whose digest it computes.\<close>

record 'l decorated_writer =
  dw_comp :: "'l stream_layer option"
  dw_enc :: "'l stream_layer option"
  dw_raw :: string

definition layer_push :: "'l stream_layer option \<Rightarrow> string \<Rightarrow> 'l stream_layer option \<times> string" where
  "layer_push l p = (if p = [] then (l, []) else case l of
      None \<Rightarrow> (None, p)
    | Some y \<Rightarrow> (case ly_write y (ly_state y) p of (st, out) \<Rightarrow> (Some (y\<lparr>ly_state := st\<rparr>), out)))"

definition layer_end :: "'l stream_layer option \<Rightarrow> string" where
  "layer_end l = (case l of None \<Rightarrow> [] | Some y \<Rightarrow> ly_close y (ly_state y))"

definition hash_write :: "'w storage \<Rightarrow> string \<Rightarrow> 'w \<Rightarrow> string \<Rightarrow> string \<Rightarrow> 'w \<times> string \<times> string option" where
  "hash_write st h w raw b = (if b = [] then (w, raw, None)
     else case st_write st w h b of (w', n, e) \<Rightarrow> (w', raw @ take n b, e))"

definition dw_write :: "'w storage \<Rightarrow> string \<Rightarrow> 'w \<Rightarrow> 'l decorated_writer \<Rightarrow> string \<Rightarrow> 'w \<times> 'l decorated_writer \<times> string option" where
  "dw_write st h w d p =
     (case layer_push (dw_comp d) p of (c', b1) \<Rightarrow>
      case layer_push (dw_enc d) b1 of (e', b2) \<Rightarrow>
      case hash_write st h w (dw_raw d) b2 of (w', raw', err) \<Rightarrow>
        (w', d\<lparr>dw_comp := c', dw_enc := e', dw_raw := raw'\<rparr>, err))"

text \<open>\<^verbatim>\<open>CloserChain\<close>: the compressor first, then the encryptor; both are attempted, the first error is returned.\<close>

definition dw_close :: "'w storage \<Rightarrow> string \<Rightarrow> 'w \<Rightarrow> 'l decorated_writer \<Rightarrow> 'w \<times> 'l decorated_writer \<times> string option" where
  "dw_close st h w d =
     (case layer_push (dw_enc d) (layer_end (dw_comp d)) of (e', b1) \<Rightarrow>
      case hash_write st h w (dw_raw d) b1 of (w1, raw1, err1) \<Rightarrow>
      case hash_write st h w1 raw1 (layer_end e') of (w2, raw2, err2) \<Rightarrow>
        (w2, d\<lparr>dw_enc := e', dw_raw := raw2\<rparr>, case err1 of Some e \<Rightarrow> Some e | None \<Rightarrow> err2))"

definition hex_sum :: "(string \<Rightarrow> string) \<Rightarrow> 'l decorated_writer \<Rightarrow> string" where
  "hex_sum sha256_hex d = sha256_hex (dw_raw d)"

definition bytes_written :: "'l decorated_writer \<Rightarrow> int" where
  "bytes_written d = int (length (dw_raw d))"

definition build_decorated_stream_writer ::
  "'w storage \<Rightarrow> string \<Rightarrow> 'w \<Rightarrow> string \<Rightarrow> string \<Rightarrow> (string + 'l stream_layer) option \<Rightarrow>
   (string \<Rightarrow> string + 'l stream_layer option) option \<Rightarrow> 'w \<times> (string + 'l decorated_writer)" where
  "build_decorated_stream_writer st h w compression enc_type enc_fn comp_fn =
     (case (if enc_type \<noteq> [] \<and> enc_type \<noteq> ''none'' then
              (case enc_fn of None \<Rightarrow> Inl (''stream encryptor not configured for encryption type '' @ enc_type)
               | Some (Inl e) \<Rightarrow> Inl (''failed initializing stream encryption: '' @ e) | Some (Inr l) \<Rightarrow> Inr (Some l))
            else Inr None) of
        Inl e \<Rightarrow> (w, Inl e)
      | Inr enc \<Rightarrow>
          (case (case comp_fn of Some f \<Rightarrow> if compression \<noteq> [] \<and> compression \<noteq> ''none'' then f compression else Inr None | None \<Rightarrow> Inr None) of
             Inl e \<Rightarrow> (fst (hash_write st h w [] (layer_end enc)), Inl (''failed initializing stream compression: '' @ e))
           | Inr cl \<Rightarrow> (w, Inr \<lparr>dw_comp = cl, dw_enc = enc, dw_raw = []\<rparr>)))"

section \<open>StreamFileSinkDoFn (stream_file_sink.go)\<close>

text \<open>A formatter, with the schema of the sink applied: the header and the text of a record.\<close>

record 'r formatter =
  fm_header :: "string + string"
  fm_record :: "'r \<Rightarrow> string + string"

record ('w, 'l, 'r) stream_sink =
  ss_output_dir :: string
  ss_format :: string
  ss_compression :: string
  ss_enc_type :: string
  ss_single_file :: bool
  ss_stager :: "'w stager option"
  ss_formatter :: "'r formatter option"
  ss_stream :: "'l decorated_writer option"

text \<open>The providers registered on a worker.\<close>

record ('w, 'l, 'r) sink_env =
  storage_factory :: "'w factory"
  formatter_provider :: "'r formatter option"
  compressor_provider :: "(string \<Rightarrow> string + 'l stream_layer option) option"
  encryptor_provider :: "(string + 'l stream_layer) option"

definition stream_new_stager :: "('w, 'l, 'r) stream_sink \<Rightarrow> 'w stager" where
  "stream_new_stager d = (case ss_stager d of Some s \<Rightarrow> s
     | None \<Rightarrow> new_bundle_file_stager None (ss_output_dir d) (ss_format d) (ss_compression d) (ss_enc_type d) (ss_single_file d))"

definition stream_setup :: "('w, 'l, 'r) sink_env \<Rightarrow> ('w, 'l, 'r) stream_sink \<Rightarrow> ('w, 'l, 'r) stream_sink" where
  "stream_setup env d = d\<lparr>ss_stager := Some (stager_setup (storage_factory env) (stream_new_stager d))\<rparr>"

definition stream_start_bundle :: "('w, 'l, 'r) sink_env \<Rightarrow> ('w, 'l, 'r) stream_sink \<Rightarrow> ('w, 'l, 'r) stream_sink" where
  "stream_start_bundle env d = d\<lparr>ss_stager := Some (stager_start_bundle (stream_new_stager d)),
     ss_formatter := (case ss_formatter d of None \<Rightarrow> formatter_provider env | Some f \<Rightarrow> Some f), ss_stream := None\<rparr>"

text \<open>\<^verbatim>\<open>fn.abort\<close>, whose error the callers drop.\<close>

definition stream_abort :: "'w \<Rightarrow> ('w, 'l, 'r) stream_sink \<Rightarrow> 'w \<times> ('w, 'l, 'r) stream_sink" where
  "stream_abort w d = (case ss_stager d of
      None \<Rightarrow> (w, d\<lparr>ss_stream := None\<rparr>)
    | Some s \<Rightarrow>
        (case (case (ss_stream d, sg_storage s, sg_writer s) of
                 (Some sw, Some st, Some h) \<Rightarrow> fst (dw_close st h w sw) | _ \<Rightarrow> w) of
           w1 \<Rightarrow> (case abort_quietly w1 s of (w2, s2) \<Rightarrow> (w2, d\<lparr>ss_stream := None, ss_stager := Some s2\<rparr>))))"

definition stream_encryptor :: "('w, 'l, 'r) sink_env \<Rightarrow> string \<Rightarrow> (string + 'l stream_layer) option" where
  "stream_encryptor env ty = (if ty \<noteq> [] \<and> ty \<noteq> ''none'' then
     Some (case encryptor_provider env of Some r \<Rightarrow> r
       | None \<Rightarrow> Inl (''stream encryptor provider not initialized for encryption type '' @ ty)) else None)"

text \<open>Writing through the stream of an open sink.\<close>

definition stream_write :: "'w \<Rightarrow> ('w, 'l, 'r) stream_sink \<Rightarrow> string \<Rightarrow> 'w \<times> ('w, 'l, 'r) stream_sink \<times> string option" where
  "stream_write w d p = (case (ss_stream d, ss_stager d) of
      (Some sw, Some s) \<Rightarrow> (case (sg_storage s, sg_writer s) of
          (Some st, Some h) \<Rightarrow> (case dw_write st h w sw p of (w', sw', e) \<Rightarrow> (w', d\<lparr>ss_stream := Some sw'\<rparr>, e))
        | _ \<Rightarrow> (w, d, None))
    | _ \<Rightarrow> (w, d, None))"

definition lazy_open ::
  "('w, 'l, 'r) sink_env \<Rightarrow> string \<times> int \<Rightarrow> 'w \<Rightarrow> ('w, 'l, 'r) stream_sink \<Rightarrow> 'w \<times> ('w, 'l, 'r) stream_sink \<times> string option" where
  "lazy_open env un w d =
     (if ss_stream d \<noteq> None then (w, d, None)
      else case ensure_open (storage_factory env) un w (stream_new_stager d) of
        (w1, s1, Inl e) \<Rightarrow> (w1, d\<lparr>ss_stager := Some s1\<rparr>, Some e)
      | (w1, s1, Inr h) \<Rightarrow>
          (case build_decorated_stream_writer (the (sg_storage s1)) h w1 (ss_compression d) (ss_enc_type d)
                  (stream_encryptor env (ss_enc_type d)) (compressor_provider env) of
             (w2, Inl e) \<Rightarrow> (case abort_quietly w2 s1 of (w3, s3) \<Rightarrow> (w3, d\<lparr>ss_stager := Some s3\<rparr>, Some e))
           | (w2, Inr sw) \<Rightarrow> let d2 = d\<lparr>ss_stager := Some s1, ss_stream := Some sw\<rparr> in
               (case ss_formatter d of
                  None \<Rightarrow> (w2, d2, None)
                | Some f \<Rightarrow>
                    (case fm_header f of
                       Inl e \<Rightarrow> (case stream_abort w2 d2 of (w3, d3) \<Rightarrow> (w3, d3, Some (''failed formatting header: '' @ e)))
                     | Inr hdr \<Rightarrow> if hdr = [] then (w2, d2, None)
                         else (case stream_write w2 d2 hdr of
                             (w3, d3, None) \<Rightarrow> (w3, d3, None)
                           | (w3, d3, Some e) \<Rightarrow> (case stream_abort w3 d3 of (w4, d4) \<Rightarrow> (w4, d4, Some (''failed writing header: '' @ e))))))))"

definition stream_process_element ::
  "('w, 'l, 'r) sink_env \<Rightarrow> string \<times> int \<Rightarrow> 'w \<Rightarrow> ('w, 'l, 'r) stream_sink \<Rightarrow> 'r \<Rightarrow> 'w \<times> ('w, 'l, 'r) stream_sink \<times> string option" where
  "stream_process_element env un w d rec =
     (case lazy_open env un w d of
        (w1, d1, Some e) \<Rightarrow> (w1, d1, Some e)
      | (w1, d1, None) \<Rightarrow>
          (case ss_formatter d1 of
             None \<Rightarrow> (w1, d1, Some ''record formatter is not initialized'')
           | Some f \<Rightarrow>
               (case fm_record f rec of
                  Inl e \<Rightarrow> (case stream_abort w1 d1 of (w2, d2) \<Rightarrow> (w2, d2, Some (''failed formatting record: '' @ e)))
                | Inr row \<Rightarrow>
                    (case (if row = [] then (w1, d1, None) else stream_write w1 d1 row) of
                       (w2, d2, Some e) \<Rightarrow> (case stream_abort w2 d2 of (w3, d3) \<Rightarrow> (w3, d3, Some (''failed writing record: '' @ e)))
                     | (w2, d2, None) \<Rightarrow> (w2, d2\<lparr>ss_stager := map_option increment_record (ss_stager d2)\<rparr>, None)))))"

definition stream_finish_bundle :: "'w \<Rightarrow> ('w, 'l, 'r) stream_sink \<Rightarrow> 'w \<times> ('w, 'l, 'r) stream_sink \<times> string option" where
  "stream_finish_bundle w d = (case ss_stager d of
      None \<Rightarrow> (w, d, None)
    | Some s \<Rightarrow> if sg_record_count s = 0 then (w, d, None)
        else let closer = (case (ss_stream d, sg_storage s, sg_writer s) of
                 (Some sw, Some st, Some h) \<Rightarrow> Some (\<lambda>w. case dw_close st h w sw of (w', _, e) \<Rightarrow> (w', e)) | _ \<Rightarrow> None) in
          (case commit_or_abort closer w s of (w', s', e) \<Rightarrow> (w', d\<lparr>ss_stager := Some s'\<rparr>, e)))"

section \<open>What the layers write\<close>

definition layers_step ::
  "'l stream_layer option \<times> 'l stream_layer option \<times> string \<Rightarrow> string \<Rightarrow> 'l stream_layer option \<times> 'l stream_layer option \<times> string" where
  "layers_step q p = (case q of (c, e, out) \<Rightarrow> case layer_push c p of (c', b1) \<Rightarrow> case layer_push e b1 of (e', b2) \<Rightarrow> (c', e', out @ b2))"

definition layered_bytes :: "'l stream_layer option \<Rightarrow> 'l stream_layer option \<Rightarrow> string list \<Rightarrow> string" where
  "layered_bytes c e chunks = (case foldl layers_step (c, e, []) chunks of (c', e', out) \<Rightarrow>
     case layer_push e' (layer_end c') of (e'', b) \<Rightarrow> out @ b @ layer_end e'')"

definition dw_state :: "'l decorated_writer \<Rightarrow> 'l stream_layer option \<times> 'l stream_layer option \<times> string" where
  "dw_state d = (dw_comp d, dw_enc d, dw_raw d)"

lemma layers_plain: "foldl layers_step (None, None, out) chunks = (None, None, out @ concat chunks)"
  by (induction chunks arbitrary: out) (auto simp: layers_step_def layer_push_def)

lemma layered_bytes_plain: "layered_bytes None None chunks = concat chunks"
  by (simp add: layered_bytes_def layers_plain layer_push_def layer_end_def)

text \<open>The state of an open sink: the chunks written so far have gone through the layers into the temporary file.\<close>

definition streaming ::
  "'w storage \<Rightarrow> ('w \<Rightarrow> string \<Rightarrow> string option) \<Rightarrow> (string \<Rightarrow> string \<Rightarrow> bool) \<Rightarrow> 'w \<Rightarrow> string \<Rightarrow> 'l stream_layer option \<Rightarrow> 'l stream_layer option \<Rightarrow>
   string list \<Rightarrow> 'w \<Rightarrow> ('w, 'l, 'r) stream_sink \<Rightarrow> bool" where
  "streaming S view temp w0 fin c0 e0 chunks w d \<longleftrightarrow> (\<exists>s sw. ss_stager d = Some s \<and> ss_stream d = Some sw \<and>
     staged S view temp w0 fin (dw_raw sw) w s \<and> dw_state sw = foldl layers_step (c0, e0, []) chunks)"

definition sink_count :: "('w, 'l, 'r) stream_sink \<Rightarrow> int" where
  "sink_count d = (case ss_stager d of None \<Rightarrow> 0 | Some s \<Rightarrow> sg_record_count s)"

context staged_storage
begin

lemma hash_write_staged:
  assumes "staged S view temp w0 fin raw w s" "hash_write S (sg_temp_uri s) w raw b = (w', raw', e)"
  shows "staged S view temp w0 fin raw' w' s" "e = None \<Longrightarrow> raw' = raw @ b"
  using assms write_staged [OF assms(1), of b] by (auto simp: hash_write_def split: if_splits prod.splits)

lemma dw_write_staged:
  assumes "staged S view temp w0 fin (dw_raw d) w s" "dw_write S (sg_temp_uri s) w d p = (w', d', e)"
  shows "staged S view temp w0 fin (dw_raw d') w' s" "e = None \<Longrightarrow> dw_state d' = layers_step (dw_state d) p"
  using assms(2) hash_write_staged [OF assms(1)]
  by (auto simp: dw_write_def dw_state_def layers_step_def split: prod.splits)

lemma dw_close_staged:
  assumes "staged S view temp w0 fin (dw_raw d) w s" "dw_close S (sg_temp_uri s) w d = (w', d', e)"
  shows "staged S view temp w0 fin (dw_raw d') w' s"
    "e = None \<Longrightarrow> dw_state d = foldl layers_step (c0, e0, []) chunks \<Longrightarrow> dw_raw d' = layered_bytes c0 e0 chunks"
proof -
  obtain e1 b1 where p: "layer_push (dw_enc d) (layer_end (dw_comp d)) = (e1, b1)" by fastforce
  obtain w1 raw1 err1 where h1: "hash_write S (sg_temp_uri s) w (dw_raw d) b1 = (w1, raw1, err1)" using prod_cases3 by blast
  obtain w2 raw2 err2 where h2: "hash_write S (sg_temp_uri s) w1 raw1 (layer_end e1) = (w2, raw2, err2)" using prod_cases3 by blast
  note st1 = hash_write_staged [OF assms(1) h1]
  note st2 = hash_write_staged [OF st1(1) h2]
  have r: "w' = w2" "dw_raw d' = raw2" "e = (case err1 of Some e \<Rightarrow> Some e | None \<Rightarrow> err2)"
    using assms(2) by (auto simp: dw_close_def p h1 h2)
  show "staged S view temp w0 fin (dw_raw d') w' s" using st2(1) r by simp
  show "dw_raw d' = layered_bytes c0 e0 chunks" if "e = None" "dw_state d = foldl layers_step (c0, e0, []) chunks"
    using st1(2) st2(2) r(2,3) p that(1) that(2) [symmetric] by (auto simp: layered_bytes_def dw_state_def split: option.splits)
qed

lemma stream_abort_untouched:
  assumes "ss_stager d = Some s" "ss_stream d = Some sw" "staged S view temp w0 fin (dw_raw sw) w s"
  shows "untouched view w0 fin (fst (stream_abort w d))"
proof -
  obtain w1 sw1 e where c: "dw_close S (sg_temp_uri s) w sw = (w1, sw1, e)" using prod_cases3 by blast
  have "staged S view temp w0 fin (dw_raw sw1) w1 s" by (rule dw_close_staged(1) [OF assms(3) c])
  from abort_quietly_untouched [OF this] show ?thesis
    using assms c by (auto simp: stream_abort_def staged_def split: prod.splits)
qed

lemma stream_write_streaming:
  assumes "streaming S view temp w0 fin c0 e0 chunks w d"
  shows "case stream_write w d p of
     (w', d', None) \<Rightarrow> streaming S view temp w0 fin c0 e0 (chunks @ [p]) w' d' \<and> ss_formatter d' = ss_formatter d \<and> sink_count d' = sink_count d
   | (w', d', Some e) \<Rightarrow> untouched view w0 fin (fst (stream_abort w' d'))"
proof -
  obtain s sw where s: "ss_stager d = Some s" "ss_stream d = Some sw" "staged S view temp w0 fin (dw_raw sw) w s"
    "dw_state sw = foldl layers_step (c0, e0, []) chunks" using assms by (auto simp: streaming_def)
  obtain w' sw' e where c: "dw_write S (sg_temp_uri s) w sw p = (w', sw', e)" using prod_cases3 by blast
  note st = dw_write_staged [OF s(3) c]
  have eq: "stream_write w d p = (w', d\<lparr>ss_stream := Some sw'\<rparr>, e)"
    using s(1,2,3) c by (simp add: stream_write_def staged_def)
  show ?thesis
  proof (cases e)
    case None
    then show ?thesis using st s by (auto simp: eq streaming_def sink_count_def)
  next
    case (Some e')
    then show ?thesis using stream_abort_untouched [of "d\<lparr>ss_stream := Some sw'\<rparr>" s sw'] st(1) s(1) by (simp add: eq)
  qed
qed

lemma stream_process_streaming:
  assumes "streaming S view temp w0 fin c0 e0 chunks w d" "ss_formatter d = Some f"
  shows "case stream_process_element env un w d r of
     (w', d', None) \<Rightarrow> streaming S view temp w0 fin c0 e0 (chunks @ filter (\<lambda>c. c \<noteq> []) [projr (fm_record f r)]) w' d' \<and>
        ss_formatter d' = Some f \<and> sink_count d' = i64 (sink_count d + 1)
   | (w', d', Some e) \<Rightarrow> untouched view w0 fin w'"
proof -
  have lo: "lazy_open env un w d = (w, d, None)" using assms(1) by (auto simp: lazy_open_def streaming_def)
  have ab: "untouched view w0 fin (fst (stream_abort w d))"
    using assms(1) stream_abort_untouched by (auto simp: streaming_def)
  have inc: "streaming S view temp w0 fin c0 e0 cs w' d' \<Longrightarrow>
      streaming S view temp w0 fin c0 e0 cs w' (d'\<lparr>ss_stager := map_option increment_record (ss_stager d')\<rparr>) \<and>
      sink_count (d'\<lparr>ss_stager := map_option increment_record (ss_stager d')\<rparr>) = i64 (sink_count d' + 1)" for cs w' d'
    by (auto simp: streaming_def sink_count_def increment_record_def staged_def)
  show ?thesis
  proof (cases "fm_record f r")
    case (Inl e)
    then show ?thesis using lo ab assms(2) by (auto simp: stream_process_element_def split: prod.splits)
  next
    case (Inr row)
    show ?thesis
    proof (cases "row = []")
      case True
      then show ?thesis using lo assms Inr inc [OF assms(1)] by (simp add: stream_process_element_def)
    next
      case False
      obtain w2 d2 e2 where wr: "stream_write w d row = (w2, d2, e2)" using prod_cases3 by blast
      show ?thesis using stream_write_streaming [OF assms(1), of row] lo assms(2) Inr False wr inc
        by (cases e2) (auto simp: stream_process_element_def split: prod.splits)
    qed
  qed
qed

end

text \<open>The bytes of a file: the header and the texts of the records through the layers the sink was given.\<close>

definition stream_chunks :: "'r formatter \<Rightarrow> 'r list \<Rightarrow> string list" where
  "stream_chunks f rs = filter (\<lambda>c. c \<noteq> []) (projr (fm_header f) # map (\<lambda>r. projr (fm_record f r)) rs)"

definition sink_encryptor :: "('w, 'l, 'r) sink_env \<Rightarrow> string \<Rightarrow> 'l stream_layer option" where
  "sink_encryptor env ty = (case stream_encryptor env ty of Some (Inr l) \<Rightarrow> Some l | _ \<Rightarrow> None)"

definition sink_compressor :: "('w, 'l, 'r) sink_env \<Rightarrow> string \<Rightarrow> 'l stream_layer option" where
  "sink_compressor env cn = (case compressor_provider env of
     Some f \<Rightarrow> if cn \<noteq> [] \<and> cn \<noteq> ''none'' then (case f cn of Inr l \<Rightarrow> l | Inl _ \<Rightarrow> None) else None | None \<Rightarrow> None)"

definition stream_content :: "('w, 'l, 'r) sink_env \<Rightarrow> ('w, 'l, 'r) stream_sink \<Rightarrow> 'r formatter \<Rightarrow> 'r list \<Rightarrow> string" where
  "stream_content env d f rs = layered_bytes (sink_compressor env (ss_compression d)) (sink_encryptor env (ss_enc_type d)) (stream_chunks f rs)"

context staged_storage
begin

lemma build_decorated:
  assumes "staged S view temp w0 fin [] w s"
  shows "case build_decorated_stream_writer S (sg_temp_uri s) w cn ty (stream_encryptor env ty) (compressor_provider env) of
     (w', Inl e) \<Rightarrow> \<exists>c. staged S view temp w0 fin c w' s
   | (w', Inr sw) \<Rightarrow> w' = w \<and> sw = \<lparr>dw_comp = sink_compressor env cn, dw_enc = sink_encryptor env ty, dw_raw = []\<rparr>"
proof -
  have "\<exists>c. staged S view temp w0 fin c (fst (hash_write S (sg_temp_uri s) w [] b)) s" for b
    using hash_write_staged(1) [OF assms, of b] by (metis prod.collapse)
  then show ?thesis using assms
    by (auto simp: build_decorated_stream_writer_def sink_compressor_def sink_encryptor_def stream_encryptor_def
        split: option.splits sum.splits if_splits)
qed

lemma lazy_open_new:
  assumes s: "ss_stager d = Some s" "ss_stream d = None" "ss_formatter d = Some f" "sg_writer s = None" "sg_storage s = Some S"
    and fin: "target (stager_uri un s)"
  shows "case lazy_open env un w d of
     (w', d', None) \<Rightarrow> streaming S view temp w (stager_uri un s) (sink_compressor env (ss_compression d)) (sink_encryptor env (ss_enc_type d))
          (filter (\<lambda>c. c \<noteq> []) [projr (fm_header f)]) w' d' \<and> ss_formatter d' = Some f \<and> sink_count d' = sg_record_count s
   | (w', d', Some e) \<Rightarrow> untouched view w (stager_uri un s) w'"
proof -
  let ?u = "stager_uri un s" and ?c = "sink_compressor env (ss_compression d)" and ?e = "sink_encryptor env (ss_enc_type d)"
  note eo = ensure_open_new [OF s(4,5) fin, where fac = "storage_factory env" and w = w]
  obtain w1 s1 r1 where o1: "ensure_open (storage_factory env) un w s = (w1, s1, r1)" using prod_cases3 by blast
  have ns: "stream_new_stager d = s" using s(1) by (simp add: stream_new_stager_def)
  show ?thesis
  proof (cases r1)
    case (Inl e)
    then show ?thesis using eo o1 ns s(2) by (simp add: lazy_open_def)
  next
    case (Inr h)
    then have st1: "staged S view temp w ?u [] w1 s1" "h = sg_temp_uri s1" "sg_record_count s1 = sg_record_count s" using eo o1 by auto
    have S1: "sg_storage s1 = Some S" using st1(1) by (simp add: staged_def)
    note bd = build_decorated [OF st1(1), where cn = "ss_compression d" and ty = "ss_enc_type d" and env = env]
    obtain w2 r2 where b2: "build_decorated_stream_writer S h w1 (ss_compression d) (ss_enc_type d) (stream_encryptor env (ss_enc_type d))
        (compressor_provider env) = (w2, r2)" by fastforce
    show ?thesis
    proof (cases r2)
      case (Inl e)
      then obtain c where "staged S view temp w ?u c w2 s1" using bd b2 st1(2) by auto
      from abort_quietly_untouched [OF this] show ?thesis using o1 Inr ns s(2) S1 b2 Inl
        by (auto simp: lazy_open_def split: prod.splits)
    next
      case r2: (Inr sw)
      let ?d2 = "d\<lparr>ss_stager := Some s1, ss_stream := Some sw\<rparr>"
      have sw: "w2 = w1" "sw = \<lparr>dw_comp = ?c, dw_enc = ?e, dw_raw = []\<rparr>" using bd b2 st1(2) r2 by auto
      have str: "streaming S view temp w ?u ?c ?e [] w2 ?d2"
        using st1(1) sw by (auto simp: streaming_def dw_state_def)
      have cnt: "sink_count ?d2 = sg_record_count s" using st1(3) by (simp add: sink_count_def)
      have ab: "untouched view w ?u (fst (stream_abort w2 ?d2))"
        using stream_abort_untouched [of ?d2 s1 sw] st1(1) sw by simp
      obtain w3 d3 e3 where wr: "stream_write w2 ?d2 (projr (fm_header f)) = (w3, d3, e3)" using prod_cases3 by blast
      show ?thesis
        using o1 Inr ns s(2,3) S1 b2 r2 str cnt ab wr stream_write_streaming [OF str, of "projr (fm_header f)"]
        by (cases "fm_header f"; cases e3) (auto simp: lazy_open_def Let_def split: prod.splits)
    qed
  qed
qed

lemma stream_process_all:
  assumes "streaming S view temp w0 fin c0 e0 chunks w d" "ss_formatter d = Some f" "0 \<le> sink_count d" "sink_count d + int (length rs) < 2 ^ 63"
  shows "case process_all (stream_process_element env un) w d rs of
     (w', d', Some e) \<Rightarrow> untouched view w0 fin w'
   | (w', d', None) \<Rightarrow> streaming S view temp w0 fin c0 e0 (chunks @ filter (\<lambda>c. c \<noteq> []) (map (\<lambda>r. projr (fm_record f r)) rs)) w' d' \<and>
       sink_count d' = sink_count d + int (length rs)"
  using assms
proof (induction rs arbitrary: w d chunks)
  case (Cons r rs)
  note step = stream_process_streaming [OF Cons.prems(1,2), where env = env and un = un and r = r]
  obtain w' d' e where p: "stream_process_element env un w d r = (w', d', e)" using prod_cases3 by blast
  show ?case
  proof (cases e)
    case None
    have cnt: "sink_count d' = sink_count d + 1" using step p None Cons.prems(3,4) i64_count by simp
    have str: "streaming S view temp w0 fin c0 e0 (chunks @ filter (\<lambda>c. c \<noteq> []) [projr (fm_record f r)]) w' d'" "ss_formatter d' = Some f"
      using step p None by auto
    from Cons.IH [OF str] cnt Cons.prems(3,4) show ?thesis using p None
      by (auto split: prod.splits option.splits)
  qed (use step p in auto)
qed auto

lemma stream_finish:
  assumes "streaming S view temp w0 fin c0 e0 chunks w d" "sink_count d \<noteq> 0"
  shows "case stream_finish_bundle w d of
     (w', d', None) \<Rightarrow> published view w0 fin (layered_bytes c0 e0 chunks) w'
   | (w', d', Some e) \<Rightarrow> failed_bundle atomic view w0 fin (layered_bytes c0 e0 chunks) w'"
proof -
  obtain s sw where s: "ss_stager d = Some s" "ss_stream d = Some sw" "staged S view temp w0 fin (dw_raw sw) w s"
    "dw_state sw = foldl layers_step (c0, e0, []) chunks" using assms(1) by (auto simp: streaming_def)
  let ?cl = "\<lambda>w. case dw_close S (sg_temp_uri s) w sw of (w', _, e) \<Rightarrow> (w', e)"
  obtain w1 sw1 e1 where c: "dw_close S (sg_temp_uri s) w sw = (w1, sw1, e1)" using prod_cases3 by blast
  note st = dw_close_staged [OF s(3) c]
  have n: "sg_record_count s \<noteq> 0" using assms(2) s(1) by (simp add: sink_count_def)
  have r: "stream_finish_bundle w d = (case commit_or_abort (Some ?cl) w s of (w', s', e) \<Rightarrow> (w', d\<lparr>ss_stager := Some s'\<rparr>, e))"
    using s(1,2,3) n by (simp add: stream_finish_bundle_def staged_def Let_def)
  have "case commit_or_abort (Some ?cl) w s of
     (w', s', None) \<Rightarrow> published view w0 fin (dw_raw sw1) w'
   | (w', s', Some e) \<Rightarrow> if e1 = None then failed_bundle atomic view w0 fin (dw_raw sw1) w' else untouched view w0 fin w'"
    using st(1) c commit_staged [OF s(3) n, of "Some ?cl" "dw_raw sw1"] by (simp add: s(3))
  moreover have "e1 \<noteq> None \<Longrightarrow> snd (snd (commit_or_abort (Some ?cl) w s)) \<noteq> None"
    using s(3) c by (auto simp: commit_or_abort_def staged_def split: prod.splits)
  ultimately show ?thesis using st(2) [OF _ s(4)] unfolding r by (cases e1) (auto simp: failed_untouched split: prod.splits option.splits)
qed

lemma stream_bundle:
  assumes s: "ss_stager d = Some s" "sg_storage s = Some S" "ss_formatter d = Some f"
    and fin: "target (stager_uri un s)" and len: "int (length rs) < 2 ^ 63"
  shows "case run_bundle (stream_start_bundle env) (stream_process_element env un) stream_finish_bundle w d rs of
    (w', d', e) \<Rightarrow> all_or_nothing atomic view w (stager_uri un s) (stream_content env d f rs) (rs = []) w' e"
proof (cases rs)
  case Nil
  then show ?thesis using s
    by (simp add: run_bundle_def stream_finish_bundle_def stream_start_bundle_def stream_new_stager_def stager_start_bundle_def
        all_or_nothing_def)
next
  case (Cons r rs')
  define s0 where "s0 = stager_start_bundle s"
  define d0 where "d0 = stream_start_bundle env d"
  have d0: "ss_stager d0 = Some s0" "ss_stream d0 = None" "ss_formatter d0 = Some f" "ss_compression d0 = ss_compression d"
    "ss_enc_type d0 = ss_enc_type d"
    using s by (simp_all add: d0_def s0_def stream_start_bundle_def stream_new_stager_def)
  have s0: "sg_writer s0 = None" "sg_storage s0 = Some S" "stager_uri un s0 = stager_uri un s" "sg_record_count s0 = 0"
    using s by (simp_all add: s0_def stager_start_bundle_def stager_uri_def)
  let ?f = "stream_process_element env un" and ?u = "stager_uri un s"
  note lo = lazy_open_new [OF d0(1-3) s0(1,2), where un = un and env = env and w = w, unfolded s0(3,4) d0(4,5), OF fin]
  obtain w1 d1 e1 where o1: "lazy_open env un w d0 = (w1, d1, e1)" using prod_cases3 by blast
  show ?thesis
  proof (cases e1)
    case (Some e)
    then have "?f w d0 r = (w1, d1, Some e)" using o1 by (simp add: stream_process_element_def)
    then show ?thesis using lo o1 Some Cons by (simp add: run_bundle_def d0_def [symmetric] all_or_nothing_def failed_untouched)
  next
    case None
    have st1: "streaming S view temp w ?u (sink_compressor env (ss_compression d)) (sink_encryptor env (ss_enc_type d))
        (filter (\<lambda>c. c \<noteq> []) [projr (fm_header f)]) w1 d1" "ss_formatter d1 = Some f" "sink_count d1 = 0"
      using lo o1 None by auto
    have "lazy_open env un w1 d1 = (w1, d1, None)" using st1(1) by (auto simp: lazy_open_def streaming_def)
    then have "?f w d0 r = ?f w1 d1 r" using o1 None by (simp add: stream_process_element_def)
    then have pa: "process_all ?f w d0 rs = process_all ?f w1 d1 rs" unfolding Cons by simp
    note all = stream_process_all [OF st1(1,2), where env = env and un = un and rs = rs, folded pa]
    obtain w2 d2 e2 where p: "process_all ?f w d0 rs = (w2, d2, e2)" using prod_cases3 by blast
    show ?thesis
    proof (cases e2)
      case e2: None
      have st2: "streaming S view temp w ?u (sink_compressor env (ss_compression d)) (sink_encryptor env (ss_enc_type d))
          (stream_chunks f rs) w2 d2" "sink_count d2 = int (length rs)"
        using all p e2 st1(3) len by (auto simp: stream_chunks_def)
      have "sink_count d2 \<noteq> 0" using st2(2) Cons by simp
      from stream_finish [OF st2(1) this] show ?thesis using p e2 Cons
        by (auto simp: run_bundle_def d0_def [symmetric] all_or_nothing_def stream_content_def split: prod.splits option.splits)
    next
      case (Some e)
      then show ?thesis using all p st1 len by (simp add: run_bundle_def d0_def [symmetric] all_or_nothing_def failed_untouched)
    qed
  qed
qed

end

section \<open>Storage that does not fail\<close>

locale reliable_storage = staged_storage +
  assumes create_total: "\<exists>w' t. st_create S w f = (w', Inr t)"
    and write_total: "snd (snd (st_write S w t b)) = None"
    and close_total: "snd (st_close S w t) = None"
    and commit_total: "temp f t \<Longrightarrow> view w t \<noteq> None \<Longrightarrow> snd (st_commit S w t f) = None"
begin

lemma hash_write_total: "\<exists>w' raw'. hash_write S h w raw b = (w', raw', None)"
  using write_total [of w h b] by (cases "st_write S w h b") (auto simp: hash_write_def)

lemma dw_write_total: "\<exists>w' d'. dw_write S h w d p = (w', d', None)"
proof -
  obtain c' b1 where 1: "layer_push (dw_comp d) p = (c', b1)" by fastforce
  obtain e' b2 where 2: "layer_push (dw_enc d) b1 = (e', b2)" by fastforce
  show ?thesis using hash_write_total [of h w "dw_raw d" b2] by (auto simp: dw_write_def 1 2)
qed

lemma dw_close_total: "\<exists>w' d'. dw_close S h w d = (w', d', None)"
proof -
  obtain e' b1 where 1: "layer_push (dw_enc d) (layer_end (dw_comp d)) = (e', b1)" by fastforce
  obtain w1 raw1 where 2: "hash_write S h w (dw_raw d) b1 = (w1, raw1, None)" using hash_write_total by blast
  show ?thesis using hash_write_total [of h w1 raw1 "layer_end e'"] by (auto simp: dw_close_def 1 2)
qed

lemma stream_write_total:
  assumes "streaming S view temp w0 fin c0 e0 chunks w d" shows "\<exists>w' d'. stream_write w d p = (w', d', None)"
proof -
  obtain s sw where s: "ss_stager d = Some s" "ss_stream d = Some sw" "sg_storage s = Some S" "sg_writer s = Some (sg_temp_uri s)"
    using assms by (auto simp: streaming_def staged_def)
  show ?thesis using dw_write_total [of "sg_temp_uri s" w sw p] s by (auto simp: stream_write_def)
qed

lemma stream_process_total:
  assumes "streaming S view temp w0 fin c0 e0 chunks w d" "ss_formatter d = Some f" "\<not> isl (fm_record f r)"
  shows "\<exists>w' d'. stream_process_element env un w d r = (w', d', None)"
proof -
  have lo: "lazy_open env un w d = (w, d, None)" using assms(1) by (auto simp: lazy_open_def streaming_def)
  obtain row where row: "fm_record f r = Inr row" using assms(3) by (cases "fm_record f r") auto
  show ?thesis using stream_write_total [OF assms(1), of row] lo row assms(2) by (auto simp: stream_process_element_def)
qed

lemma stream_process_all_total:
  assumes "streaming S view temp w0 fin c0 e0 chunks w d" "ss_formatter d = Some f" "list_all (\<lambda>r. \<not> isl (fm_record f r)) rs"
  shows "\<exists>w' d'. process_all (stream_process_element env un) w d rs = (w', d', None)"
  using assms
proof (induction rs arbitrary: w d chunks)
  case (Cons r rs)
  obtain w' d' where p: "stream_process_element env un w d r = (w', d', None)"
    using stream_process_total [OF Cons.prems(1,2), of r env un] Cons.prems(3) by auto
  have "streaming S view temp w0 fin c0 e0 (chunks @ filter (\<lambda>c. c \<noteq> []) [projr (fm_record f r)]) w' d'" "ss_formatter d' = Some f"
    using stream_process_streaming [OF Cons.prems(1,2), where env = env and un = un and r = r] p by auto
  then show ?case using Cons.IH Cons.prems(3) p by simp
qed simp

lemma commit_total_staged:
  assumes "staged S view temp w0 fin c w s" "sg_record_count s \<noteq> 0"
    and "staged S view temp w0 fin c' (fst (f w)) s" "snd (f w) = None"
  shows "snd (snd (commit_or_abort (Some f) w s)) = None"
proof -
  obtain w1 where w1: "f w = (w1, None)" using assms(4) by (metis prod.collapse)
  obtain w2 where c2: "st_close S w1 (sg_temp_uri s) = (w2, None)" using close_total by (metis prod.collapse)
  have "view w2 (sg_temp_uri s) \<noteq> None" using assms(3) w1 c2 close_ok [of fin "sg_temp_uri s" w1 w2] by (simp add: staged_def)
  then obtain w3 where "st_commit S w2 (sg_temp_uri s) fin = (w3, None)"
    using commit_total [of fin "sg_temp_uri s" w2] assms(1) by (cases "st_commit S w2 (sg_temp_uri s) fin") (auto simp: staged_def)
  then show ?thesis using assms(1,2) w1 c2 by (simp add: commit_or_abort_def staged_def Let_def)
qed

lemma stream_bundle_total:
  assumes s: "ss_stager d = Some s" "sg_storage s = Some S" "ss_formatter d = Some f"
    and fin: "target (stager_uri un s)" and len: "int (length rs) < 2 ^ 63" and ne: "rs \<noteq> []"
    and f: "\<not> isl (fm_header f)" "list_all (\<lambda>r. \<not> isl (fm_record f r)) rs"
    and layers: "ss_compression d \<in> {[], ''none''}" "ss_enc_type d \<in> {[], ''none''}"
  shows "case run_bundle (stream_start_bundle env) (stream_process_element env un) stream_finish_bundle w d rs of
    (w', d', e) \<Rightarrow> e = None \<and> published view w (stager_uri un s) (concat (stream_chunks f rs)) w'"
proof -
  define s0 where "s0 = stager_start_bundle s"
  define d0 where "d0 = stream_start_bundle env d"
  have d0: "ss_stager d0 = Some s0" "ss_stream d0 = None" "ss_formatter d0 = Some f" "ss_compression d0 = ss_compression d"
    "ss_enc_type d0 = ss_enc_type d"
    using s by (simp_all add: d0_def s0_def stream_start_bundle_def stream_new_stager_def)
  have s0: "sg_writer s0 = None" "sg_storage s0 = Some S" "stager_uri un s0 = stager_uri un s" "sg_record_count s0 = 0"
    using s by (simp_all add: s0_def stager_start_bundle_def stager_uri_def)
  let ?f = "stream_process_element env un" and ?u = "stager_uri un s"
  have lay: "sink_compressor env (ss_compression d) = None" "sink_encryptor env (ss_enc_type d) = None"
    using layers by (auto simp: sink_compressor_def sink_encryptor_def stream_encryptor_def split: option.splits)
  note lo = lazy_open_new [OF d0(1-3) s0(1,2), where un = un and env = env and w = w, unfolded s0(3,4) d0(4,5) lay, OF fin]
  have "\<exists>w' d'. lazy_open env un w d0 = (w', d', None)"
  proof -
    obtain w1 t where cr: "st_create S w ?u = (w1, Inr t)" using create_total by blast
    let ?s1 = "s0\<lparr>sg_final_uri := ?u, sg_temp_uri := t, sg_writer := Some t\<rparr>"
    have eo: "ensure_open (storage_factory env) un w s0 = (w1, ?s1, Inr t)"
      using cr s0(1-3) by (simp add: ensure_open_def stager_setup_def)
    have "staged S view temp w ?u [] w1 ?s1"
      using ensure_open_new [OF s0(1,2), where un = un and fac = "storage_factory env" and w = w, unfolded s0(3), OF fin] eo by simp
    let ?sw = "\<lparr>dw_comp = None, dw_enc = None, dw_raw = []\<rparr>"
    let ?d2 = "d0\<lparr>ss_stager := Some ?s1, ss_stream := Some ?sw\<rparr>"
    have bd: "build_decorated_stream_writer S t w1 (ss_compression d) (ss_enc_type d) (stream_encryptor env (ss_enc_type d)) (compressor_provider env) = (w1, Inr ?sw)"
      using layers by (auto simp: build_decorated_stream_writer_def split: option.splits)
    have st: "streaming S view temp w ?u None None [] w1 ?d2"
      using \<open>staged S view temp w ?u [] w1 ?s1\<close> by (auto simp: streaming_def dw_state_def)
    obtain hdr where hdr: "fm_header f = Inr hdr" using f(1) by (cases "fm_header f") auto
    have ns: "stream_new_stager d0 = s0" using d0(1) by (simp add: stream_new_stager_def)
    show ?thesis using stream_write_total [OF st, of hdr] eo bd hdr d0 s0(2) ns by (auto simp: lazy_open_def Let_def)
  qed
  then obtain w1 d1 where o1: "lazy_open env un w d0 = (w1, d1, None)" by blast
  have st1: "streaming S view temp w ?u None None (filter (\<lambda>c. c \<noteq> []) [projr (fm_header f)]) w1 d1" "ss_formatter d1 = Some f" "sink_count d1 = 0"
    using lo o1 by auto
  obtain r rs' where rs: "rs = r # rs'" using ne by (cases rs) auto
  have "lazy_open env un w1 d1 = (w1, d1, None)" using st1(1) by (auto simp: lazy_open_def streaming_def)
  then have pa: "process_all ?f w d0 rs = process_all ?f w1 d1 rs" unfolding rs using o1 by (simp add: stream_process_element_def)
  obtain w2 d2 where p: "process_all ?f w d0 rs = (w2, d2, None)"
    using stream_process_all_total [OF st1(1,2) f(2)] pa by metis
  have st2: "streaming S view temp w ?u None None (stream_chunks f rs) w2 d2" "sink_count d2 = int (length rs)"
    using stream_process_all [OF st1(1,2), where env = env and un = un and rs = rs, folded pa] p st1(3) len by (auto simp: stream_chunks_def)
  obtain s2 sw where s2: "ss_stager d2 = Some s2" "ss_stream d2 = Some sw" "staged S view temp w ?u (dw_raw sw) w2 s2"
    using st2(1) by (auto simp: streaming_def)
  obtain w3 sw3 where c: "dw_close S (sg_temp_uri s2) w2 sw = (w3, sw3, None)" using dw_close_total by blast
  let ?cl = "\<lambda>w. case dw_close S (sg_temp_uri s2) w sw of (w', _, e) \<Rightarrow> (w', e)"
  have n: "sg_record_count s2 \<noteq> 0" using st2(2) s2(1) ne by (simp add: sink_count_def)
  have "snd (snd (commit_or_abort (Some ?cl) w2 s2)) = None"
    using dw_close_staged(1) [OF s2(3) c] c by (intro commit_total_staged [OF s2(3) n]) simp_all
  then have "snd (snd (stream_finish_bundle w2 d2)) = None"
    using s2 n by (auto simp: stream_finish_bundle_def staged_def Let_def split: prod.splits)
  then show ?thesis using stream_finish [OF st2(1)] st2(2) p ne
    by (auto simp: run_bundle_def d0_def [symmetric] layered_bytes_plain split: prod.splits)
qed

end

definition no_faults :: "(nat \<Rightarrow> 128 word) \<Rightarrow> local_env" where
  "no_faults u = \<lparr>fault = (\<lambda>_. None), fresh_uuid = u\<rparr>"

interpretation reliable: reliable_storage "local_storage (no_faults u)" files file_name "\<lambda>f t. t \<noteq> f \<and> t \<noteq> []" "\<lambda>_ _. True" True for u
  by unfold_locales
    (auto simp: local_storage_def no_faults_def local_create_temp_def local_write_def local_close_def local_commit_temp_def Let_def)

section \<open>Properties\<close>

text \<open>C14. The file sink on local storage, whatever operations of the file system fail: a bundle that ends with an
  error has changed no file but its temporary one; a bundle that ends well has published, in one step, a file
  with the header and all the records of the bundle, passed through the compression and encryption layers, and
  changed no other file; an empty bundle changes nothing.\<close>

theorem stream_sink_all_or_nothing:
  assumes "ss_stager d = Some s" "sg_storage s = Some (local_storage E)" "ss_formatter d = Some f"
    and "file_name (stager_uri un s)" "int (length rs) < 2 ^ 63"
  shows "case run_bundle (stream_start_bundle env) (stream_process_element env un) stream_finish_bundle w d rs of
    (w', d', e) \<Rightarrow> all_or_nothing True files w (stager_uri un s) (stream_content env d f rs) (rs = []) w' e"
  using assms by (rule local.stream_bundle)

text \<open>A sink for examples.\<close>

definition sample_formatter :: "nat formatter" where
  "sample_formatter = \<lparr>fm_header = Inr ''id'', fm_record = (\<lambda>n. if n = 9 then Inl ''nine'' else Inr (format_uint n @ [CHR 0x0A]))\<rparr>"

definition sample_stager :: "local_env \<Rightarrow> local_fs stager" where
  "sample_stager E = new_bundle_file_stager (Some (local_storage E)) ''/out/'' ''csv'' ''none'' [] True"

definition sample_sink :: "local_env \<Rightarrow> (local_fs, unit, nat) stream_sink" where
  "sample_sink E = \<lparr>ss_output_dir = ''/out'', ss_format = ''csv'', ss_compression = ''none'', ss_enc_type = [], ss_single_file = True,
     ss_stager = Some (sample_stager E), ss_formatter = Some sample_formatter, ss_stream = None\<rparr>"

definition sample_sink_env :: "(local_fs, unit, nat) sink_env" where
  "sample_sink_env = \<lparr>storage_factory = None, formatter_provider = None, compressor_provider = None, encryptor_provider = None\<rparr>"

lemma sample_sink_parts:
  "ss_stager (sample_sink E) = Some (sample_stager E)" "sg_storage (sample_stager E) = Some (local_storage E)"
  "ss_formatter (sample_sink E) = Some sample_formatter" "ss_compression (sample_sink E) = ''none''" "ss_enc_type (sample_sink E) = []"
  "stager_uri un (sample_stager E) = ''/out/output.csv''" "file_name ''/out/output.csv''"
  by (simp_all add: sample_sink_def sample_stager_def stager_uri_def new_bundle_file_stager_def build_output_uri_def trim_right_set_def path_ext_def
      last_component_def to_lower_def lower_char_def or_default_def compression_ext_def encryption_ext_def file_name_def path_base_def)

theorem stream_sink_all_or_nothing_witness:
  "case run_bundle (stream_start_bundle sample_sink_env) (stream_process_element sample_sink_env (''u'', 0)) stream_finish_bundle
      \<lparr>files = Map.empty, steps = 0\<rparr> (sample_sink \<lparr>fault = (\<lambda>n. if n = 3 then Some 1 else None), fresh_uuid = (\<lambda>_. 0)\<rparr>) [1, 2] of
    (w', d', e) \<Rightarrow> all_or_nothing True files \<lparr>files = Map.empty, steps = 0\<rparr> ''/out/output.csv''
      (stream_content sample_sink_env (sample_sink \<lparr>fault = (\<lambda>n. if n = 3 then Some 1 else None), fresh_uuid = (\<lambda>_. 0)\<rparr>) sample_formatter [1, 2]) False w' e"
  using stream_sink_all_or_nothing [OF sample_sink_parts(1-3), of "(''u'', 0)", unfolded sample_sink_parts(6), OF sample_sink_parts(7), of "[1, 2]"]
  by simp

text \<open>C40. When no operation of the file system fails and the formatter accepts every record, a bundle with at least
  one record does end with its file published: the header and the records, in order, when the sink has no
  compression and no encryption.\<close>

theorem stream_sink_publishes:
  assumes "ss_stager d = Some s" "sg_storage s = Some (local_storage (no_faults u))" "ss_formatter d = Some f"
    and "file_name (stager_uri un s)" "int (length rs) < 2 ^ 63" "rs \<noteq> []"
    and "\<not> isl (fm_header f)" "list_all (\<lambda>r. \<not> isl (fm_record f r)) rs"
    and "ss_compression d \<in> {[], ''none''}" "ss_enc_type d \<in> {[], ''none''}"
  shows "case run_bundle (stream_start_bundle env) (stream_process_element env un) stream_finish_bundle w d rs of
    (w', d', e) \<Rightarrow> e = None \<and> published files w (stager_uri un s) (concat (stream_chunks f rs)) w'"
  using assms by (rule reliable.stream_bundle_total)

theorem stream_sink_publishes_witness:
  "case run_bundle (stream_start_bundle sample_sink_env) (stream_process_element sample_sink_env (''u'', 0)) stream_finish_bundle
      \<lparr>files = Map.empty, steps = 0\<rparr> (sample_sink (no_faults (\<lambda>_. 0))) [1, 2] of
    (w', d', e) \<Rightarrow> e = None \<and> published files \<lparr>files = Map.empty, steps = 0\<rparr> ''/out/output.csv'' (concat (stream_chunks sample_formatter [1, 2])) w'"
  using stream_sink_publishes [OF sample_sink_parts(1-3), of "(''u'', 0)", unfolded sample_sink_parts(6), OF sample_sink_parts(7), of "[1, 2]"]
  by (simp add: sample_sink_parts sample_formatter_def)

text \<open>The dead-letter and audit sinks on local storage have the same guarantee: one line per record, all of them in
  one published file, or no file changed but the temporary one.\<close>

lemma jsonl_sinks_all_or_nothing:
  assumes "js_stager d = Some s" "sg_storage s = Some (local_storage E)" "file_name (stager_uri un s)" "int (length rs) < 2 ^ 63"
    and "process = dlq_process_element \<or> process = audit_process_element"
  shows "case run_bundle jsonl_start_bundle (process marshal fac un) jsonl_finish_bundle w d rs of
    (w', d', e) \<Rightarrow> all_or_nothing True files w (stager_uri un s) (jsonl_content marshal rs) (rs = []) w' e"
  using assms(5)
proof
  assume "process = dlq_process_element"
  then show ?thesis unfolding dlq_process_element_def using local.jsonl_bundle [OF assms(1-4)] by simp
next
  assume "process = audit_process_element"
  then show ?thesis unfolding audit_process_element_def using local.jsonl_bundle [OF assms(1-4)] by simp
qed

end
