(* ===== verification/Http_Client.thy ===== *)
theory Http_Client
  imports Config Resilience
begin

text \<open>
  The HTTP client of the REST connectors, \<^verbatim>\<open>internal/adapters/paged_api/source/client.go\<close>: headers and credentials, the
  circuit breaker around each request, and the retry loop. The network is an oracle: what the \<open>n\<close>-th event gives is an argument, and
  the world is the log of the requests sent with the number of events so far. The rate limiter is one of the oracles.
\<close>

section \<open>Requests and the network\<close>

text \<open>\<open>rq_body\<close> is what is left to read of the body: a request sent twice has its body read once.\<close>

record http_request =
  rq_method :: string
  rq_url :: string
  rq_headers :: "string gomap"
  rq_body :: string

record http_response =
  rs_status :: int
  rs_headers :: "string gomap"
  rs_body :: string
  rs_body_err :: "string option"

record http_env =
  answer :: "nat \<Rightarrow> string + http_response"
  body_read :: "nat \<Rightarrow> nat"
  clock_at :: "nat \<Rightarrow> int"
  limiter_err :: "nat \<Rightarrow> string option"
  sleep_err :: "nat \<Rightarrow> int \<Rightarrow> string option"
  jitter_delay :: "nat \<Rightarrow> int \<Rightarrow> int"
  base64 :: "string \<Rightarrow> string"
  set_query :: "string \<Rightarrow> string \<Rightarrow> string \<Rightarrow> string"
  trace_carrier :: "string gomap"

record http_world =
  sent :: "http_request list"
  events :: nat

definition send :: "http_env \<Rightarrow> http_world \<Rightarrow> http_request \<Rightarrow> http_world \<times> http_request \<times> (string + http_response)" where
  "send env w rq = (\<lparr>sent = sent w @ [rq], events = Suc (events w)\<rparr>,
     rq\<lparr>rq_body := drop (body_read env (events w)) (rq_body rq)\<rparr>, answer env (events w))"

definition tick :: "http_world \<Rightarrow> http_world" where
  "tick w = w\<lparr>events := Suc (events w)\<rparr>"

section \<open>Headers\<close>

text \<open>\<^verbatim>\<open>Header.Get\<close> and \<^verbatim>\<open>Header.Set\<close> use the canonical form of the key: upper case at the start and after each
  hyphen, lower case elsewhere, when the key is a token; any other key is left as it is.\<close>

definition upper_char :: "char \<Rightarrow> char" where
  "upper_char c = (if 97 \<le> char_code c \<and> char_code c \<le> 122 then char_of (char_code c - 32) else c)"

definition is_token_char :: "char \<Rightarrow> bool" where
  "is_token_char c \<longleftrightarrow> is_digit c \<or> (65 \<le> char_code c \<and> char_code c \<le> 90) \<or> (97 \<le> char_code c \<and> char_code c \<le> 122) \<or>
     c \<in> set ''!#$%&*+-.^_|~'' \<or> char_code c = 39 \<or> char_code c = 96"

fun canonical_from :: "bool \<Rightarrow> string \<Rightarrow> string" where
  "canonical_from up [] = []"
| "canonical_from up (c # cs) = (if up then upper_char c else lower_char c) # canonical_from (c = CHR ''-'') cs"

definition canonical_key :: "string \<Rightarrow> string" where
  "canonical_key k = (if list_all is_token_char k then canonical_from True k else k)"

definition header_get :: "string gomap \<Rightarrow> string \<Rightarrow> string" where
  "header_get h k = gm_get h (canonical_key k)"

definition header_set :: "string gomap \<Rightarrow> string \<Rightarrow> string \<Rightarrow> string gomap" where
  "header_set h k v = gm_set h (canonical_key k) v"

section \<open>HTTPClient\<close>

record http_client =
  hc_cfg :: api_source_config
  hc_secrets :: "string gomap"
  hc_cb :: "circuit_breaker option"

definition u32_of_int :: "int \<Rightarrow> u32" where "u32_of_int n = word_of_int n"

definition new_http_client :: "int \<Rightarrow> api_source_config \<Rightarrow> string gomap \<Rightarrow> http_client" where
  "new_http_client now cfg0 secrets =
     (let cfg = api_source_apply_defaults cfg0 in
      \<lparr>hc_cfg = cfg, hc_secrets = secrets,
       hc_cb = (case new_circuit_breaker now \<lparr>st_name = ''http-client-cb'', st_max_failures = u32_of_int (rc_breaker_fails (as_retry cfg)),
           st_timeout = i64 (rc_breaker_timeout_ms (as_retry cfg) * 1000000), st_half_open_limit = 0\<rparr> of
         Inl e \<Rightarrow> None | Inr cb \<Rightarrow> Some cb)\<rparr>)"

definition is_transient_status :: "int \<Rightarrow> bool" where
  "is_transient_status code \<longleftrightarrow> code = 429 \<or> (500 \<le> code \<and> code \<le> 599)"

text \<open>\<^verbatim>\<open>parseRetryAfter\<close>, in nanoseconds.\<close>

definition parse_retry_after :: "string \<Rightarrow> int" where
  "parse_retry_after h = (case strconv_parse_int h of Some s \<Rightarrow> if s > 0 then i64 (s * 1000000000) else 0 | None \<Rightarrow> 0)"

definition resolve_secret :: "http_client \<Rightarrow> string \<Rightarrow> string" where
  "resolve_secret c ref = (if ref = [] then [] else case map_of (hc_secrets c) ref of Some v \<Rightarrow> v | None \<Rightarrow> ref)"

definition inject_auth :: "http_env \<Rightarrow> http_client \<Rightarrow> http_request \<Rightarrow> http_request" where
  "inject_auth env c rq = (case as_auth (hc_cfg c) of
      None \<Rightarrow> rq
    | Some a \<Rightarrow> (case au_type a of
          AuthBearer \<Rightarrow> (let token = resolve_secret c (au_token_ref a) in
            if token \<noteq> [] then rq\<lparr>rq_headers := header_set (rq_headers rq) ''Authorization'' (''Bearer '' @ token)\<rparr> else rq)
        | AuthAPIKey \<Rightarrow> (let v = resolve_secret c (au_token_ref a) in
            if au_api_key_header a \<noteq> [] then rq\<lparr>rq_headers := header_set (rq_headers rq) (au_api_key_header a) v\<rparr>
            else if au_api_key_query a \<noteq> [] then rq\<lparr>rq_url := set_query env (rq_url rq) (au_api_key_query a) v\<rparr> else rq)
        | AuthBasic \<Rightarrow> rq\<lparr>rq_headers := header_set (rq_headers rq) ''Authorization''
            (''Basic '' @ base64 env (resolve_secret c (au_username_ref a) @ '':'' @ resolve_secret c (au_password_ref a)))\<rparr>
        | _ \<Rightarrow> rq))"

definition set_if_absent :: "string gomap \<Rightarrow> string \<times> string \<Rightarrow> string gomap" where
  "set_if_absent h kv = (if header_get h (fst kv) = [] then header_set h (fst kv) (snd kv) else h)"

definition prepare_request :: "http_env \<Rightarrow> http_client \<Rightarrow> http_request \<Rightarrow> http_request" where
  "prepare_request env c rq =
     (let h1 = foldl set_if_absent (rq_headers rq) (trace_carrier env);
          h2 = set_if_absent (set_if_absent h1 (''User-Agent'', ''OmniBeam/1.0'')) (''Accept'', ''application/json'');
          h3 = foldl (\<lambda>h (k, v). header_set h k v) h2 (as_headers (hc_cfg c))
      in inject_auth env c (rq\<lparr>rq_headers := h3\<rparr>))"

text \<open>\<^verbatim>\<open>sendWithCircuitBreaker\<close>: the response, if one came, and the error.\<close>

definition attempt_error :: "string + http_response \<Rightarrow> string option" where
  "attempt_error r = (case r of Inl e \<Rightarrow> Some e
     | Inr rs \<Rightarrow> if is_transient_status (rs_status rs) then Some (''transient http status: '' @ format_int (rs_status rs)) else None)"

definition response_of :: "string + http_response \<Rightarrow> http_response option" where
  "response_of r = (case r of Inl _ \<Rightarrow> None | Inr rs \<Rightarrow> Some rs)"

definition circuit_open_text :: string where "circuit_open_text = ''circuit breaker is open''"

definition send_with_circuit_breaker ::
  "http_env \<Rightarrow> http_client \<Rightarrow> http_world \<Rightarrow> http_request \<Rightarrow> http_world \<times> http_client \<times> http_request \<times> http_response option \<times> string option" where
  "send_with_circuit_breaker env c w rq = (case hc_cb c of
      None \<Rightarrow> (case send env w rq of (w', rq', r) \<Rightarrow> (w', c, rq', response_of r, attempt_error r))
    | Some cb \<Rightarrow> (case execute_enter (clock_at env (events w)) cb of (cb1, ok) \<Rightarrow>
        if \<not> ok then (w, c\<lparr>hc_cb := Some cb1\<rparr>, rq, None, Some circuit_open_text)
        else (case send env w rq of (w', rq', r) \<Rightarrow>
          (w', c\<lparr>hc_cb := Some (execute_leave (clock_at env (events w')) (attempt_error r \<noteq> None) cb1)\<rparr>, rq', response_of r, attempt_error r))))"

definition calculate_sleep :: "http_env \<Rightarrow> http_world \<Rightarrow> int \<Rightarrow> http_response option \<Rightarrow> int" where
  "calculate_sleep env w attempt resp =
     (let d = (case resp of Some rs \<Rightarrow> parse_retry_after (header_get (rs_headers rs) ''Retry-After'') | None \<Rightarrow> 0)
      in if d > 0 then d else jitter_delay env (events w) attempt)"

text \<open>The loop of \<^verbatim>\<open>Do\<close>. The result carries the world, the client with its breaker, and the response or the error.\<close>

definition retries_exhausted :: "int \<Rightarrow> string option \<Rightarrow> string" where
  "retries_exhausted n last_err = ''request failed after '' @ format_int n @ '' retries: '' @ (case last_err of Some e \<Rightarrow> e | None \<Rightarrow> ''%!w(<nil>)'')"

function do_loop ::
  "http_env \<Rightarrow> http_client \<Rightarrow> http_world \<Rightarrow> http_request \<Rightarrow> int \<Rightarrow> int \<Rightarrow> string option \<Rightarrow> http_world \<times> http_client \<times> (string + http_response)" where
  "do_loop env c w rq max_retries attempt last_err =
     (if attempt > max_retries then (w, c, Inl (retries_exhausted max_retries last_err))
      else case limiter_err env (events w) of
        Some e \<Rightarrow> (tick w, c, Inl (''rate limiter wait cancelled: '' @ e))
      | None \<Rightarrow>
          (case send_with_circuit_breaker env c (tick w) rq of (w1, c1, rq1, resp, err) \<Rightarrow>
             case (resp, err) of
               (Some rs, None) \<Rightarrow> (w1, c1, Inr rs)
             | _ \<Rightarrow>
                 if attempt < max_retries
                 then (case sleep_err env (events w1) (calculate_sleep env w1 attempt resp) of
                     Some e \<Rightarrow> (tick w1, c1, Inl e)
                   | None \<Rightarrow> do_loop env c1 (tick w1) rq1 max_retries (attempt + 1) err)
                 else do_loop env c1 w1 rq1 max_retries (attempt + 1) err))"
  by auto
termination by (relation "measure (\<lambda>(env, c, w, rq, n, a, e). nat (n + 1 - a))") auto

declare do_loop.simps [simp del]

definition http_do :: "http_env \<Rightarrow> http_client \<Rightarrow> http_world \<Rightarrow> http_request \<Rightarrow> http_world \<times> http_client \<times> (string + http_response)" where
  "http_do env c w rq =
     (case hc_cb c of
        None \<Rightarrow> do_loop env c w (prepare_request env c rq) (rc_max_retries (as_retry (hc_cfg c))) 0 None
      | Some cb \<Rightarrow> (case breaker_query (clock_at env (events w)) cb of (cb1, st) \<Rightarrow>
          let c1 = c\<lparr>hc_cb := Some cb1\<rparr> in
          if st = StateOpen then (w, c1, Inl circuit_open_text)
          else do_loop env c1 w (prepare_request env c1 rq) (rc_max_retries (as_retry (hc_cfg c))) 0 None))"

section \<open>The retry loop\<close>

lemma response_clean: "response_of r = Some rs \<Longrightarrow> attempt_error r = None \<Longrightarrow> \<not> is_transient_status (rs_status rs)"
  by (auto simp: response_of_def attempt_error_def split: sum.splits if_splits)

text \<open>What one attempt does to the log: nothing when the breaker is open, else one more request.\<close>

lemma send_with_circuit_breaker_log:
  assumes "send_with_circuit_breaker env c w rq = (w1, c1, rq1, resp, err)"
  shows "(sent w1 = sent w \<and> resp = None \<and> err \<noteq> None \<and> rq1 = rq) \<or>
    (sent w1 = sent w @ [rq] \<and> rq1 = rq\<lparr>rq_body := drop (body_read env (events w)) (rq_body rq)\<rparr> \<and>
     (\<exists>r. answer env (events w) = r \<and> resp = response_of r \<and> err = attempt_error r))"
  using assms by (auto simp: send_with_circuit_breaker_def send_def split: option.splits prod.splits if_splits)

lemma sent_tick [simp]: "sent (tick w) = sent w"
  by (simp add: tick_def)

text \<open>The request of every attempt is the prepared one with a suffix of its body.\<close>

definition same_request :: "http_request \<Rightarrow> http_request \<Rightarrow> bool" where
  "same_request rq rq' \<longleftrightarrow> (\<exists>n. rq' = rq\<lparr>rq_body := drop n (rq_body rq)\<rparr>)"

lemma same_request_refl: "same_request rq rq"
  unfolding same_request_def by (rule exI [of _ 0]) simp

lemma same_request_trans: "same_request a b \<Longrightarrow> same_request b c \<Longrightarrow> same_request a c"
  by (auto simp: same_request_def)

text \<open>One attempt: what it sends, and what its response and its error say.\<close>

lemma attempt_sent:
  assumes "send_with_circuit_breaker env c (tick w) rq = (w1, c1, rq1, resp, err)"
  shows "\<exists>q1. sent w1 = sent w @ q1 \<and> length q1 \<le> 1 \<and> (\<forall>q \<in> set q1. same_request rq q) \<and> same_request rq rq1 \<and>
    (\<forall>rs. resp = Some rs \<longrightarrow> q1 \<noteq> [] \<and> (err = None \<longrightarrow> \<not> is_transient_status (rs_status rs)) \<and> (\<exists>k. answer env k = Inr rs))"
  using send_with_circuit_breaker_log [OF assms]
proof
  assume "sent w1 = sent (tick w) \<and> resp = None \<and> err \<noteq> None \<and> rq1 = rq"
  then show ?thesis by (intro exI [of _ "[]"]) (simp add: same_request_refl)
next
  assume h: "sent w1 = sent (tick w) @ [rq] \<and> rq1 = rq\<lparr>rq_body := drop (body_read env (events (tick w))) (rq_body rq)\<rparr> \<and>
    (\<exists>r. answer env (events (tick w)) = r \<and> resp = response_of r \<and> err = attempt_error r)"
  then have sr: "same_request rq rq1" unfolding same_request_def by blast
  have "\<not> is_transient_status (rs_status rs)" if "resp = Some rs" "err = None" for rs
    using h that response_clean [of _ rs] by auto
  moreover have "\<exists>k. answer env k = Inr rs" if "resp = Some rs" for rs
    using h that by (auto simp: response_of_def split: sum.splits)
  ultimately show ?thesis using h sr by (intro exI [of _ "[rq]"]) (simp add: same_request_refl)
qed

text \<open>What the attempts from number \<open>a\<close> on send and return.\<close>

definition attempts_send :: "http_env \<Rightarrow> http_request \<Rightarrow> int \<Rightarrow> int \<Rightarrow> http_world \<Rightarrow> http_world \<Rightarrow> string + http_response \<Rightarrow> bool" where
  "attempts_send env rq n a w w' r \<longleftrightarrow> (\<exists>qs. sent w' = sent w @ qs \<and> (a \<le> n \<longrightarrow> int (length qs) \<le> n - a + 1) \<and> (a > n \<longrightarrow> qs = []) \<and>
    (\<forall>q \<in> set qs. same_request rq q) \<and> (\<forall>rs. r = Inr rs \<longrightarrow> \<not> is_transient_status (rs_status rs) \<and> qs \<noteq> [] \<and> (\<exists>k. answer env k = Inr rs)))"

lemma last_attempt:
  assumes "send_with_circuit_breaker env c (tick w) rq = (w1, c1, rq1, resp, err)" "a \<le> n" "sent w' = sent w1"
    and "\<forall>rs. r = Inr rs \<longrightarrow> resp = Some rs \<and> err = None"
  shows "attempts_send env rq n a w w' r"
  using attempt_sent [OF assms(1)] assms(2-4) unfolding attempts_send_def by fastforce

lemma next_attempt:
  assumes "send_with_circuit_breaker env c (tick w) rq = (w1, c1, rq1, resp, err)" "a \<le> n" "sent w2 = sent w1"
    and "attempts_send env rq1 n (a + 1) w2 w' r"
  shows "attempts_send env rq n a w w' r"
proof -
  obtain q1 where q1: "sent w1 = sent w @ q1" "length q1 \<le> 1" "\<forall>q \<in> set q1. same_request rq q" "same_request rq rq1"
    using attempt_sent [OF assms(1)] by metis
  obtain qs where qs: "sent w' = sent w2 @ qs" "a + 1 \<le> n \<longrightarrow> int (length qs) \<le> n - (a + 1) + 1" "a + 1 > n \<longrightarrow> qs = []" "\<forall>q \<in> set qs. same_request rq1 q"
    "\<forall>rs. r = Inr rs \<longrightarrow> \<not> is_transient_status (rs_status rs) \<and> qs \<noteq> [] \<and> (\<exists>k. answer env k = Inr rs)"
    using assms(4) by (auto simp: attempts_send_def)
  have "int (length (q1 @ qs)) \<le> n - a + 1" using q1(2) qs(2,3) assms(2) by (cases "a + 1 \<le> n") auto
  moreover have "\<forall>q \<in> set (q1 @ qs). same_request rq q" using q1(3,4) qs(4) same_request_trans by auto
  ultimately show ?thesis unfolding attempts_send_def using q1(1) qs(1,5) assms(2,3) by (intro exI [of _ "q1 @ qs"]) auto
qed

lemma do_loop_facts:
  assumes "do_loop env c w rq n a le = (w', c', r)"
  shows "attempts_send env rq n a w w' r"
  using assms
proof (induction "nat (n + 1 - a)" arbitrary: c w rq a le rule: less_induct)
  case less
  show ?case
  proof (cases "a > n \<or> limiter_err env (events w) \<noteq> None")
    case True
    then show ?thesis using less.prems by (subst (asm) do_loop.simps) (auto simp: attempts_send_def split: if_splits)
  next
    case False
    then have a: "a \<le> n" "\<not> a > n" "limiter_err env (events w) = None" by simp_all
    obtain w1 c1 rq1 resp err where s: "send_with_circuit_breaker env c (tick w) rq = (w1, c1, rq1, resp, err)"
      using prod_cases5 by blast
    note eq = less.prems [unfolded do_loop.simps [of env c w rq n a le] if_not_P [OF a(2)] a(3) option.case s prod.case]
    note last = last_attempt [OF s a(1)]
    have next_one: ?thesis if st: "do_loop env c1 w2 rq1 n (a + 1) err = (w', c', r)" and w2: "sent w2 = sent w1" for w2
      using less.hyps [OF _ st] a(1) by (intro next_attempt [OF s a(1) w2]) simp
    show ?thesis
    proof (cases "\<exists>rs. resp = Some rs \<and> err = None")
      case True
      then show ?thesis using eq by (intro last) auto
    next
      case False
      then have "(if a < n
          then (case sleep_err env (events w1) (calculate_sleep env w1 a resp) of
              Some e \<Rightarrow> (tick w1, c1, Inl e) | None \<Rightarrow> do_loop env c1 (tick w1) rq1 n (a + 1) err)
          else do_loop env c1 w1 rq1 n (a + 1) err) = (w', c', r)"
        using eq by (cases resp; cases err) simp_all
      then show ?thesis using last next_one [of "tick w1"] next_one [of w1]
        by (auto split: if_splits option.splits)
    qed
  qed
qed

lemma prepare_request_breaker [simp]: "prepare_request env (c\<lparr>hc_cb := b\<rparr>) rq = prepare_request env c rq"
proof -
  have r: "resolve_secret (c\<lparr>hc_cb := b\<rparr>) = resolve_secret c" by (intro ext) (simp add: resolve_secret_def)
  have k: "hc_cfg (c\<lparr>hc_cb := b\<rparr>) = hc_cfg c" by simp
  have "inject_auth env (c\<lparr>hc_cb := b\<rparr>) = inject_auth env c"
    by (intro ext) (simp only: inject_auth_def r k)
  then show ?thesis by (simp add: prepare_request_def)
qed

lemma prepare_request_body [simp]: "rq_body (prepare_request env c rq) = rq_body rq"
  by (simp add: prepare_request_def inject_auth_def Let_def split: option.splits auth_type.splits)


section \<open>An example\<close>

text \<open>A service that answers 503 and then 200, a client with three retries, and a request with a body.\<close>

definition sample_api :: api_source_config where
  "sample_api = \<lparr>as_base_url = ''http://h'', as_endpoint = ''/e'', as_http_method = [], as_headers = [], as_query_params = [], as_auth = None,
     as_pagination = \<lparr>pg_type = OffsetLimit, pg_page_param = [], pg_size_param = [], pg_page_size = 10, pg_initial_page = 0,
       pg_total_pages_hint = 0, pg_max_pages_limit = 0, pg_cursor_param = [], pg_next_cursor_path = [], pg_total_count_path = [],
       pg_has_more_path = []\<rparr>,
     as_retry = zero_resilience, as_skip_tls_verify = False, as_records_path = [], as_field_mapping = [], as_schema = id_schema,
     as_watermark = None\<rparr>"

definition flaky :: http_env where
  "flaky = \<lparr>answer = (\<lambda>n. Inr \<lparr>rs_status = (if n < 2 then 503 else 200), rs_headers = [], rs_body = [], rs_body_err = None\<rparr>), body_read = (\<lambda>n. 100),
     clock_at = (\<lambda>n. 0), limiter_err = (\<lambda>n. None), sleep_err = (\<lambda>n d. None), jitter_delay = (\<lambda>n a. 0), base64 = (\<lambda>s. s),
     set_query = (\<lambda>u k v. u), trace_carrier = []\<rparr>"

definition sample_request :: http_request where
  "sample_request = \<lparr>rq_method = ''POST'', rq_url = ''http://h/e'', rq_headers = [], rq_body = ''[1]''\<rparr>"

lemma sample_client_parts:
  "hc_cb (new_http_client 0 sample_api []) = Some \<lparr>cb_name = ''http-client-cb'', max_failures = 5, half_open_limit = 1,
     cb_timeout = 10000000000, cb_state = StateClosed, failures = 0, successes = 0, last_state_chg = 0\<rparr>"
  "rc_max_retries (as_retry (hc_cfg (new_http_client 0 sample_api []))) = 3"
  by (simp_all add: new_http_client_def Let_def api_source_apply_defaults_def resilience_apply_defaults_def sample_api_def
      zero_resilience_def or_default_def new_circuit_breaker_def u32_of_int_def i64_def signed_take_bit_eq_take_bit_shift)

text \<open>The second attempt sends the request with an empty body: the retry loop of \<^verbatim>\<open>Do\<close> does not rewind it.\<close>

lemma retried_request_has_no_body:
  "map rq_body (sent (fst (http_do flaky (new_http_client 0 sample_api []) \<lparr>sent = [], events = 0\<rparr> sample_request))) = [''[1]'', []]"
proof -
  let ?c = "new_http_client 0 sample_api []" and ?w = "\<lparr>sent = [], events = 0\<rparr>"
  have five: "\<not> (5 :: u32) \<le> 1" by (simp add: word_le_nat_alt)
  show ?thesis
    by (simp add: five http_do_def sample_client_parts breaker_query_def check_state_transition_def Let_def
        do_loop.simps [where attempt = 0] do_loop.simps [where attempt = 1] send_with_circuit_breaker_def execute_enter_def
        execute_leave_def send_def tick_def flaky_def attempt_error_def response_of_def is_transient_status_def
        calculate_sleep_def sample_request_def)
qed


text \<open>A service that accepts every request.\<close>

definition healthy :: http_env where
  "healthy = flaky\<lparr>answer := (\<lambda>n. Inr \<lparr>rs_status = 200, rs_headers = [], rs_body = [], rs_body_err = None\<rparr>)\<rparr>"

lemma healthy_do:
  "hc_cb c = None \<Longrightarrow> rc_max_retries (as_retry (hc_cfg c)) \<ge> 0 \<Longrightarrow>
   snd (snd (http_do healthy c w rq)) = Inr \<lparr>rs_status = 200, rs_headers = [], rs_body = [], rs_body_err = None\<rparr>"
  by (simp add: http_do_def do_loop.simps [where attempt = 0] healthy_def flaky_def send_with_circuit_breaker_def send_def
      response_of_def attempt_error_def is_transient_status_def)

end
