(* ===== verification/Trackers.thy ===== *)
theory Trackers
  imports Omni_Prelude
begin

text \<open>
  The restriction trackers of the splittable DoFns: \<^verbatim>\<open>internal/beam/streams/byte_offset_tracker.go\<close>,
  \<^verbatim>\<open>internal/beam/paged_api/page_tracker.go\<close> and \<^verbatim>\<open>internal/beam/partitions/partition_tracker.go\<close>. The
  three structs have the same fields and the record below is their state; the mutex makes every method one
  atomic step, so an execution with concurrent callers is a sequence of claims and splits in some order.

  The locale \<open>restriction_tracker\<close> states what Beam relies on. It is interpreted on each of the three
  trackers, and gives for every sequence of claims and splits: claims increase and stay in range, and what
  was split off and what is kept are contiguous and disjoint.
\<close>

section \<open>State\<close>

datatype claim_position = PosInt int | PosInt64 int | PosOther string

record range_tracker =
  rest_start :: int
  rest_end :: int
  claimed :: int
  stopped :: bool
  tr_err :: "string option"

type_synonym range = "int \<times> int"

text \<open>A \<^verbatim>\<open>float64\<close> fraction through what the trackers do with it: the test \<^verbatim>\<open>0.0 < fraction < 1.0\<close> and
  \<^verbatim>\<open>int64(math.Round(float64(n) * fraction))\<close>. Nothing is assumed about the latter.\<close>

record fraction =
  in_unit :: bool
  round_of :: "int \<Rightarrow> int"

definition tracker_of :: "range \<Rightarrow> range_tracker" where
  "tracker_of r = \<lparr>rest_start = fst r, rest_end = snd r, claimed = i64 (fst r - 1), stopped = False, tr_err = None\<rparr>"

section \<open>ByteOffsetTracker (byte_offset_tracker.go)\<close>

definition new_byte_offset_tracker :: "range \<Rightarrow> range_tracker" where
  "new_byte_offset_tracker r = tracker_of r"

definition bo_claim_offset :: "range_tracker \<Rightarrow> int \<Rightarrow> range_tracker \<times> bool" where
  "bo_claim_offset t pos =
     (if stopped t then (t, False)
      else if pos < rest_start t \<or> pos \<ge> rest_end t \<or> pos \<le> claimed t then (t\<lparr>stopped := True\<rparr>, False)
      else (t\<lparr>claimed := pos\<rparr>, True))"

definition bo_try_claim :: "range_tracker \<Rightarrow> claim_position \<Rightarrow> range_tracker \<times> bool" where
  "bo_try_claim t raw = (case raw of
      PosInt64 p \<Rightarrow> bo_claim_offset t p
    | PosInt p \<Rightarrow> bo_claim_offset t p
    | PosOther ty \<Rightarrow> (t\<lparr>tr_err := Some (''unsupported claim position type '' @ ty), stopped := True\<rparr>, False))"

definition bo_try_split :: "range_tracker \<Rightarrow> fraction \<Rightarrow> range_tracker \<times> (range \<times> range) option" where
  "bo_try_split t fr =
     (if stopped t \<or> \<not> in_unit fr then (t, None)
      else let current = (if claimed t < rest_start t then rest_start t else claimed t);
               remaining = i64 (rest_end t - current) in
        if remaining < 2 then (t, None)
        else let sp = i64 (current + round_of fr remaining) in
          if sp \<le> current \<or> sp \<ge> rest_end t then (t, None)
          else (t\<lparr>rest_end := sp\<rparr>, Some ((rest_start t, sp), (sp, rest_end t))))"

definition bo_get_restriction :: "range_tracker \<Rightarrow> range" where
  "bo_get_restriction t = (rest_start t, rest_end t)"

definition bo_get_progress :: "range_tracker \<Rightarrow> int \<times> int" where
  "bo_get_progress t = (i64 (claimed t - rest_start t + 1),
     let remaining = i64 (rest_end t - claimed t - 1) in if remaining < 0 then 0 else remaining)"

definition bo_mark_done :: "range_tracker \<Rightarrow> range_tracker" where
  "bo_mark_done t = t\<lparr>stopped := True\<rparr>"

definition bo_is_done :: "range_tracker \<Rightarrow> bool" where
  "bo_is_done t \<longleftrightarrow> stopped t \<or> claimed t \<ge> i64 (rest_end t - 1)"

section \<open>PageRangeTracker (page_tracker.go)\<close>

definition new_page_range_tracker :: "range \<Rightarrow> range_tracker" where
  "new_page_range_tracker r = tracker_of r"

definition pg_try_claim :: "range_tracker \<Rightarrow> claim_position \<Rightarrow> range_tracker \<times> bool" where
  "pg_try_claim t raw =
     (if stopped t then (t, False)
      else case (case raw of PosInt p \<Rightarrow> Some p | PosInt64 p \<Rightarrow> Some p | PosOther _ \<Rightarrow> None) of
          None \<Rightarrow> (t\<lparr>tr_err := Some (''unsupported claim page index type ''), stopped := True\<rparr>, False)
        | Some index \<Rightarrow>
            if index < rest_start t \<or> index \<ge> rest_end t \<or> index \<le> claimed t then (t\<lparr>stopped := True\<rparr>, False)
            else (t\<lparr>claimed := index\<rparr>, True))"

definition pg_try_split :: "range_tracker \<Rightarrow> fraction \<Rightarrow> range_tracker \<times> (range \<times> range) option" where
  "pg_try_split t fr =
     (if stopped t \<or> \<not> in_unit fr then (t, None)
      else let remaining = i64 (rest_end t - claimed t - 1);
               sp = i64 (claimed t + 1 + round_of fr remaining) in
        if sp \<le> i64 (claimed t + 1) \<or> sp \<ge> rest_end t then (t, None)
        else (t\<lparr>rest_end := sp\<rparr>, Some ((rest_start t, sp), (sp, rest_end t))))"

definition pg_get_restriction :: "range_tracker \<Rightarrow> range" where
  "pg_get_restriction t = (rest_start t, rest_end t)"

definition pg_get_progress :: "range_tracker \<Rightarrow> int \<times> int" where
  "pg_get_progress t = (i64 (claimed t - rest_start t + 1),
     let remaining = i64 (rest_end t - claimed t - 1) in if remaining < 0 then 0 else remaining)"

definition pg_mark_done :: "range_tracker \<Rightarrow> range_tracker" where
  "pg_mark_done t = t\<lparr>stopped := True\<rparr>"

definition pg_is_done :: "range_tracker \<Rightarrow> bool" where
  "pg_is_done t \<longleftrightarrow> stopped t \<or> claimed t \<ge> i64 (rest_end t - 1)"

section \<open>PartitionRangeTracker (partition_tracker.go)\<close>

definition new_partition_range_tracker :: "range \<Rightarrow> range_tracker" where
  "new_partition_range_tracker r = tracker_of r"

definition pt_try_claim :: "range_tracker \<Rightarrow> claim_position \<Rightarrow> range_tracker \<times> bool" where
  "pt_try_claim t raw =
     (if stopped t then (t, False)
      else case (case raw of PosInt p \<Rightarrow> Some p | PosInt64 p \<Rightarrow> Some p | PosOther _ \<Rightarrow> None) of
          None \<Rightarrow> (t\<lparr>tr_err := Some (''unsupported claim slice index type ''), stopped := True\<rparr>, False)
        | Some index \<Rightarrow>
            if index < rest_start t \<or> index \<ge> rest_end t \<or> index \<le> claimed t then (t\<lparr>stopped := True\<rparr>, False)
            else (t\<lparr>claimed := index\<rparr>, True))"

definition pt_try_split :: "range_tracker \<Rightarrow> fraction \<Rightarrow> range_tracker \<times> (range \<times> range) option" where
  "pt_try_split t fr =
     (if stopped t \<or> \<not> in_unit fr then (t, None)
      else let remaining = i64 (rest_end t - claimed t - 1);
               sp = i64 (claimed t + 1 + round_of fr remaining) in
        if sp \<le> i64 (claimed t + 1) \<or> sp \<ge> rest_end t then (t, None)
        else (t\<lparr>rest_end := sp\<rparr>, Some ((rest_start t, sp), (sp, rest_end t))))"

definition pt_get_restriction :: "range_tracker \<Rightarrow> range" where
  "pt_get_restriction t = (rest_start t, rest_end t)"

definition pt_get_progress :: "range_tracker \<Rightarrow> int \<times> int" where
  "pt_get_progress t = (i64 (claimed t - rest_start t + 1),
     let remaining = i64 (rest_end t - claimed t - 1) in if remaining < 0 then 0 else remaining)"

definition pt_mark_done :: "range_tracker \<Rightarrow> range_tracker" where
  "pt_mark_done t = t\<lparr>stopped := True\<rparr>"

definition pt_is_done :: "range_tracker \<Rightarrow> bool" where
  "pt_is_done t \<longleftrightarrow> stopped t \<or> claimed t \<ge> i64 (rest_end t - 1)"

section \<open>Executions of a tracker\<close>

datatype tracker_event = Claim claim_position | Split fraction

text \<open>The state, the positions claimed and the residual ranges handed out, oldest first.\<close>

fun run_tracker :: "('s \<Rightarrow> claim_position \<Rightarrow> 's \<times> bool) \<Rightarrow> ('s \<Rightarrow> fraction \<Rightarrow> 's \<times> (range \<times> range) option) \<Rightarrow>
   tracker_event list \<Rightarrow> 's \<Rightarrow> 's \<times> claim_position list \<times> range list" where
  "run_tracker claim split [] s = (s, [], [])"
| "run_tracker claim split (Claim p # es) s =
     (let (s1, ok) = claim s p; (s2, cs, rs) = run_tracker claim split es s1
      in (s2, if ok then p # cs else cs, rs))"
| "run_tracker claim split (Split f # es) s =
     (let (s1, res) = split s f; (s2, cs, rs) = run_tracker claim split es s1
      in (s2, cs, case res of None \<Rightarrow> rs | Some (_, r) \<Rightarrow> r # rs))"

fun position :: "claim_position \<Rightarrow> int" where
  "position (PosInt p) = p"
| "position (PosInt64 p) = p"
| "position (PosOther _) = 0"

text \<open>Residual ranges, newest last, that fill the space from the current end \<open>e\<close> up to \<open>hi\<close>.\<close>

fun residual_chain :: "int \<Rightarrow> range list \<Rightarrow> int \<Rightarrow> bool" where
  "residual_chain hi [] e \<longleftrightarrow> e = hi"
| "residual_chain hi ((a, b) # rs) e \<longleftrightarrow> b = hi \<and> a < b \<and> residual_chain a rs e"

locale restriction_tracker =
  fixes start :: "range \<Rightarrow> 's" and claim :: "'s \<Rightarrow> claim_position \<Rightarrow> 's \<times> bool"
    and split :: "'s \<Rightarrow> fraction \<Rightarrow> 's \<times> (range \<times> range) option"
    and restriction :: "'s \<Rightarrow> range" and cursor :: "'s \<Rightarrow> int" and valid :: "range \<Rightarrow> bool" and inv :: "'s \<Rightarrow> bool"
  assumes start_ok: "valid r \<Longrightarrow> inv (start r) \<and> restriction (start r) = r \<and> cursor (start r) < fst r \<and> fst r \<le> snd r"
    and claim_ok: "inv s \<Longrightarrow> claim s pos = (s', True) \<Longrightarrow> inv s' \<and> restriction s' = restriction s \<and>
      cursor s' = position pos \<and> cursor s < position pos \<and> fst (restriction s) \<le> position pos \<and>
      position pos < snd (restriction s)"
    and claim_refused: "inv s \<Longrightarrow> claim s pos = (s', False) \<Longrightarrow>
      inv s' \<and> restriction s' = restriction s \<and> cursor s' = cursor s"
    and split_ok: "inv s \<Longrightarrow> split s f = (s', Some (p, q)) \<Longrightarrow> inv s' \<and> cursor s' = cursor s \<and> restriction s' = p \<and>
      fst p = fst (restriction s) \<and> snd p = fst q \<and> snd q = snd (restriction s) \<and> cursor s < snd p \<and> snd p < snd q"
    and split_refused: "inv s \<Longrightarrow> split s f = (s', None) \<Longrightarrow>
      inv s' \<and> restriction s' = restriction s \<and> cursor s' = cursor s"
begin

lemma run_tracker_facts:
  assumes "inv s" "run_tracker claim split es s = (s', cs, rs)" "restriction s = (lo, hi)" "cursor s < hi"
  shows "fst (restriction s') = lo \<and> sorted_wrt (<) (cursor s # map position cs) \<and>
    list_all (\<lambda>c. lo \<le> position c) cs \<and> cursor s' = last (cursor s # map position cs) \<and>
    residual_chain hi rs (snd (restriction s')) \<and> cursor s' < snd (restriction s')"
  using assms
proof (induction es arbitrary: s cs rs hi)
  case Nil
  then show ?case by simp
next
  case (Cons e es)
  show ?case
  proof (cases e)
    case (Claim c)
    obtain s1 ok where c: "claim s c = (s1, ok)" by fastforce
    obtain cs1 where r: "run_tracker claim split es s1 = (s', cs1, rs)" and cs: "cs = (if ok then c # cs1 else cs1)"
      using Cons.prems(2) Claim c by (auto split: prod.splits)
    show ?thesis
    proof (cases ok)
      case True
      then have s1: "inv s1" "restriction s1 = (lo, hi)" "cursor s1 = position c" "cursor s < position c"
        "lo \<le> position c" "position c < hi" using claim_ok [OF Cons.prems(1), of c s1] Cons.prems(3) c by simp_all
      then show ?thesis using Cons.IH [OF s1(1) r s1(2)] cs True by auto
    next
      case False
      then have s1: "inv s1" "restriction s1 = (lo, hi)" "cursor s1 = cursor s"
        using claim_refused Cons.prems c by auto
      then show ?thesis using Cons.IH [OF s1(1) r s1(2)] Cons.prems(4) cs False by auto
    qed
  next
    case (Split f)
    obtain s1 res where c: "split s f = (s1, res)" by fastforce
    obtain rs1 where r: "run_tracker claim split es s1 = (s', cs, rs1)"
      and rs: "rs = (case res of None \<Rightarrow> rs1 | Some (_, q) \<Rightarrow> q # rs1)"
      using Cons.prems(2) Split c by (auto split: prod.splits option.splits)
    show ?thesis
    proof (cases res)
      case None
      then have s1: "inv s1" "restriction s1 = (lo, hi)" "cursor s1 = cursor s"
        using split_refused Cons.prems c by auto
      then show ?thesis using Cons.IH [OF s1(1) r s1(2)] Cons.prems(4) rs None by simp
    next
      case (Some pq)
      obtain p m b where pq: "pq = (p, (m, b))" by (metis prod.exhaust)
      have s1: "inv s1" "restriction s1 = (lo, m)" "cursor s1 = cursor s" "b = hi" "cursor s < m" "m < hi"
        using split_ok [OF Cons.prems(1), of f s1 p "(m, b)"] c Some pq Cons.prems(3)
        by (auto simp: prod_eq_iff)
      then show ?thesis using Cons.IH [OF s1(1) r s1(2)] rs Some pq by simp
    qed
  qed
qed

end

text \<open>The restrictions the sources create: a range of non-negative 64-bit numbers.\<close>

definition valid_range :: "range \<Rightarrow> bool" where
  "valid_range r \<longleftrightarrow> 0 \<le> fst r \<and> fst r \<le> snd r \<and> snd r < 2 ^ 63"

definition tracker_inv :: "range_tracker \<Rightarrow> bool" where
  "tracker_inv t \<longleftrightarrow> 0 \<le> rest_start t \<and> rest_start t \<le> rest_end t \<and> rest_end t < 2 ^ 63 \<and>
     rest_start t - 1 \<le> claimed t \<and> claimed t < rest_end t"

lemma tracker_arith:
  assumes "tracker_inv t"
  shows "i64 (claimed t + 1) = claimed t + 1" "i64 (rest_end t - 1) = rest_end t - 1"
    "i64 (rest_end t - claimed t - 1) = rest_end t - claimed t - 1"
  using assms by (auto simp: tracker_inv_def intro!: i64_id in_i64I)

lemma tracker_of_start:
  assumes "valid_range r"
  shows "tracker_inv (tracker_of r) \<and> (rest_start (tracker_of r), rest_end (tracker_of r)) = r \<and>
    claimed (tracker_of r) < fst r \<and> fst r \<le> snd r"
proof -
  have "i64 (fst r - 1) = fst r - 1" using assms by (intro i64_id in_i64I) (auto simp: valid_range_def)
  then show ?thesis using assms by (auto simp: tracker_of_def tracker_inv_def valid_range_def)
qed

lemmas tracker_op_defs = bo_claim_offset_def bo_try_claim_def bo_try_split_def bo_get_restriction_def
  pg_try_claim_def pg_try_split_def pg_get_restriction_def pt_try_claim_def pt_try_split_def
  pt_get_restriction_def

interpretation bo: restriction_tracker new_byte_offset_tracker bo_try_claim bo_try_split bo_get_restriction claimed
  valid_range tracker_inv
proof (unfold_locales, goal_cases)
  case (1 r)
  then show ?case using tracker_of_start by (simp add: new_byte_offset_tracker_def bo_get_restriction_def)
qed (auto simp: tracker_op_defs tracker_inv_def Let_def tracker_arith split: if_splits claim_position.splits)

interpretation pg: restriction_tracker new_page_range_tracker pg_try_claim pg_try_split pg_get_restriction claimed
  valid_range tracker_inv
proof (unfold_locales, goal_cases)
  case (1 r)
  then show ?case using tracker_of_start by (simp add: new_page_range_tracker_def pg_get_restriction_def)
qed (auto simp: tracker_op_defs tracker_inv_def Let_def tracker_arith split: if_splits claim_position.splits)

interpretation pt: restriction_tracker new_partition_range_tracker pt_try_claim pt_try_split pt_get_restriction claimed
  valid_range tracker_inv
proof (unfold_locales, goal_cases)
  case (1 r)
  then show ?case using tracker_of_start by (simp add: new_partition_range_tracker_def pt_get_restriction_def)
qed (auto simp: tracker_op_defs tracker_inv_def Let_def tracker_arith split: if_splits claim_position.splits)

section \<open>SyncToNextRecordBoundary (byte_offset_tracker.go)\<close>

definition newline :: char where "newline = CHR 0x0A"

definition backslash :: char where "backslash = CHR 0x5C"

text \<open>The loop at index \<open>i\<close> with the bytes from there on and the byte before them; it returns the offset.\<close>

fun sync_scan :: "char \<Rightarrow> int \<Rightarrow> int \<Rightarrow> char option \<Rightarrow> bool \<Rightarrow> string \<Rightarrow> int" where
  "sync_scan q start i prev inq [] = i"
| "sync_scan q start i prev inq (b # bs) =
     (if b = q then
        if inq \<and> bs \<noteq> [] \<and> hd bs = q then sync_scan q start (i + 2) (Some (hd bs)) inq (tl bs)
        else if prev = Some backslash then sync_scan q start (i + 1) (Some b) inq bs
        else sync_scan q start (i + 1) (Some b) (\<not> inq) bs
      else if b = newline \<and> \<not> inq \<and> i + 1 \<ge> start then i + 1
      else sync_scan q start (i + 1) (Some b) inq bs)"

definition sync_to_next_record_boundary :: "string \<Rightarrow> int \<Rightarrow> char \<Rightarrow> bool option \<Rightarrow> int" where
  "sync_to_next_record_boundary data start q0 multiline =
     (if start \<le> 0 \<or> start \<ge> int (length data) then start
      else if multiline = Some False then
        let rest = drop (nat start) data; pre = takeWhile (\<lambda>b. b \<noteq> newline) rest in
        if length pre = length rest then int (length data) else start + int (length pre) + 1
      else sync_scan (if q0 = CHR 0x00 then CHR 0x22 else q0) start 0 None False data)"

definition sync_to_next_newline :: "string \<Rightarrow> int \<Rightarrow> int" where
  "sync_to_next_newline data start = sync_to_next_record_boundary data start (CHR 0x22) (Some False)"

lemma sync_scan_skip:
  assumes "q \<notin> set data" "q \<noteq> newline" "i + int (length data) < start"
  shows "sync_scan q start i prev False (data @ rest) =
    sync_scan q start (i + int (length data)) (if data = [] then prev else Some (last data)) False rest"
  using assms by (induction data arbitrary: i prev) (auto simp: algebra_simps)

lemma sync_scan_find:
  assumes "q \<notin> set data" "q \<noteq> newline" "start \<le> i + 1"
  shows "sync_scan q start i prev False data =
    (let pre = takeWhile (\<lambda>b. b \<noteq> newline) data in
     if length pre = length data then i + int (length data) else i + int (length pre) + 1)"
  using assms by (induction data arbitrary: i prev) (auto simp: Let_def algebra_simps)

section \<open>Properties\<close>

text \<open>What an execution from the restriction \<open>r\<close> must satisfy: the claims increase strictly, start inside
  the restriction and stay below what the tracker still holds, and the residuals handed out fill exactly
  the space from there to the end of \<open>r\<close>.\<close>

definition sound_run :: "range \<Rightarrow> range_tracker \<times> claim_position list \<times> range list \<Rightarrow> bool" where
  "sound_run r res = (case res of (t, cs, rs) \<Rightarrow>
     rest_start t = fst r \<and> sorted_wrt (<) (map position cs) \<and>
     list_all (\<lambda>c. fst r \<le> position c \<and> position c < rest_end t) cs \<and> residual_chain (snd r) rs (rest_end t))"

lemma sorted_last_bound: "sorted_wrt (<) (x # xs) \<Longrightarrow> last (x # xs) < (h :: int) \<Longrightarrow> list_all (\<lambda>y. y < h) xs"
proof (induction xs arbitrary: x)
  case (Cons a xs)
  have "a < h"
  proof (cases "xs = []")
    case False
    then have "a < last xs" using Cons.prems(1) last_in_set [of xs] by (metis sorted_wrt.simps(2))
    then show ?thesis using Cons.prems(2) False by simp
  qed (use Cons.prems in simp)
  moreover have "list_all (\<lambda>y. y < h) xs" using Cons.IH [of a] Cons.prems by simp
  ultimately show ?case by simp
qed simp

lemma sound_runI:
  assumes "rest_start t = fst r" "sorted_wrt (<) (c0 # map position cs)" "list_all (\<lambda>c. fst r \<le> position c) cs"
    "last (c0 # map position cs) < rest_end t" "residual_chain (snd r) rs (rest_end t)"
  shows "sound_run r (t, cs, rs)"
  using assms sorted_last_bound [OF assms(2,4)] by (auto simp: sound_run_def list_all_iff)

lemma run_sound:
  assumes "valid_range r"
  shows "sound_run r (run_tracker bo_try_claim bo_try_split es (new_byte_offset_tracker r))"
    "sound_run r (run_tracker pg_try_claim pg_try_split es (new_page_range_tracker r))"
    "sound_run r (run_tracker pt_try_claim pt_try_split es (new_partition_range_tracker r))"
proof -
  obtain lo hi where r: "r = (lo, hi)" by fastforce
  obtain t cs rs where a: "run_tracker bo_try_claim bo_try_split es (new_byte_offset_tracker r) = (t, cs, rs)"
    by (metis prod.exhaust)
  have "sound_run r (t, cs, rs)"
    using bo.run_tracker_facts [OF _ a, of lo hi] bo.start_ok [OF assms] r
    by (intro sound_runI [of _ _ "claimed (new_byte_offset_tracker r)"]) (auto simp: bo_get_restriction_def)
  then show "sound_run r (run_tracker bo_try_claim bo_try_split es (new_byte_offset_tracker r))" using a by simp
  obtain t cs rs where a: "run_tracker pg_try_claim pg_try_split es (new_page_range_tracker r) = (t, cs, rs)"
    by (metis prod.exhaust)
  have "sound_run r (t, cs, rs)"
    using pg.run_tracker_facts [OF _ a, of lo hi] pg.start_ok [OF assms] r
    by (intro sound_runI [of _ _ "claimed (new_page_range_tracker r)"]) (auto simp: pg_get_restriction_def)
  then show "sound_run r (run_tracker pg_try_claim pg_try_split es (new_page_range_tracker r))" using a by simp
  obtain t cs rs where a: "run_tracker pt_try_claim pt_try_split es (new_partition_range_tracker r) = (t, cs, rs)"
    by (metis prod.exhaust)
  have "sound_run r (t, cs, rs)"
    using pt.run_tracker_facts [OF _ a, of lo hi] pt.start_ok [OF assms] r
    by (intro sound_runI [of _ _ "claimed (new_partition_range_tracker r)"]) (auto simp: pt_get_restriction_def)
  then show "sound_run r (run_tracker pt_try_claim pt_try_split es (new_partition_range_tracker r))" using a by simp
qed

text \<open>C4. For every interleaving of claims and splits, from any caller and with any fractions, each of the
  three trackers is sound: claimed positions increase strictly and lie in what the tracker still holds, and
  the residual ranges it handed out are contiguous and fill exactly the rest of the restriction. So no
  position is processed twice and none is dropped by splitting.\<close>

theorem trackers_sound:
  assumes "valid_range r"
  shows "sound_run r (run_tracker bo_try_claim bo_try_split es (new_byte_offset_tracker r)) \<and>
    sound_run r (run_tracker pg_try_claim pg_try_split es (new_page_range_tracker r)) \<and>
    sound_run r (run_tracker pt_try_claim pt_try_split es (new_partition_range_tracker r))"
  using run_sound [OF assms] by blast

theorem trackers_sound_witness:
  "let half = \<lparr>in_unit = True, round_of = (\<lambda>n. n div 2)\<rparr>;
       res = run_tracker bo_try_claim bo_try_split [Claim (PosInt64 0), Split half, Claim (PosInt64 3), Claim (PosInt64 60)]
         (new_byte_offset_tracker (0, 100))
   in fst (snd res) = [PosInt64 0, PosInt64 3] \<and> snd (snd res) = [(50, 100)] \<and> sound_run (0, 100) res"
proof -
  let ?half = "\<lparr>in_unit = True, round_of = (\<lambda>n. n div 2)\<rparr>"
  have "valid_range (0, 100)" by (simp add: valid_range_def)
  from trackers_sound [OF this, of "[Claim (PosInt64 0), Split ?half, Claim (PosInt64 3), Claim (PosInt64 60)]"]
  show ?thesis
    by (simp add: Let_def) (simp add: new_byte_offset_tracker_def tracker_of_def bo_try_claim_def bo_claim_offset_def
        bo_try_split_def i64_def Let_def)
qed

text \<open>Where the data holds no quote character, the two modes of \<^verbatim>\<open>SyncToNextRecordBoundary\<close> look for
  different boundaries: from an offset inside the data the line mode finds what the quote-aware mode finds
  from the next offset. So a record that starts exactly at the offset is found by the quote-aware mode and
  skipped by the line mode.\<close>

lemma sync_modes_differ_by_one:
  assumes "0 < start" "start < int (length data)" "q \<notin> set data" "q \<noteq> newline" "q \<noteq> CHR 0x00"
  shows "sync_to_next_record_boundary data start q (Some False) =
    sync_to_next_record_boundary data (start + 1) q (Some True)"
proof (cases "start + 1 < int (length data)")
  case False
  then have start: "nat start = length data - 1" "data \<noteq> []" using assms by auto
  then have "drop (nat start) data = [last data]" by (simp add: last_conv_nth flip: Cons_nth_drop_Suc)
  then show ?thesis using False assms by (simp add: sync_to_next_record_boundary_def Let_def)
next
  case True
  define k where "k = nat start"
  have data: "data = take k data @ drop k data" "length (take k data) = k" "int k = start"
    using assms by (simp_all add: k_def)
  have q: "q \<notin> set (take k data)" "q \<notin> set (drop k data)"
    using assms(3) by (meson in_set_takeD in_set_dropD)+
  have "sync_scan q (start + 1) 0 None False (take k data @ drop k data) =
      sync_scan q (start + 1) start (if take k data = [] then None else Some (last (take k data))) False (drop k data)"
    using sync_scan_skip [OF q(1) assms(4), of 0 "start + 1" None "drop k data"] data(2,3) by simp
  also have "\<dots> = (let pre = takeWhile (\<lambda>b. b \<noteq> newline) (drop k data) in
      if length pre = length (drop k data) then start + int (length (drop k data)) else start + int (length pre) + 1)"
    by (rule sync_scan_find [OF q(2) assms(4)]) simp
  finally show ?thesis
    using True assms data by (auto simp: sync_to_next_record_boundary_def k_def Let_def)
qed

end
