(* ===== verification/Partitions.thy ===== *)
theory Partitions
  imports Trackers "HOL-Library.Multiset" "HOL-Library.Signed_Division"
begin

text \<open>
  Partitioned reading of databases and paged services: the slices of
  \<^verbatim>\<open>internal/adapters/partitions/sql/range_slicer.go\<close> and \<^verbatim>\<open>internal/adapters/partitions/mongo/partitioner.go\<close>,
  the filters of \<^verbatim>\<open>mongo_source.go\<close>, and the two splittable DoFns that read one slice each,
  \<^verbatim>\<open>internal/beam/partitions/partition_query_sdf.go\<close> and \<^verbatim>\<open>internal/beam/paged_api/paged_api_sdf.go\<close>.

  The database is not part of the program: what a query text selects is the argument \<open>sel\<close>, with the SQL
  meaning of the three query shapes as the hypothesis \<open>sql_semantics\<close>. The locale \<open>slice_source\<close> states what
  the pipeline needs from a slice reader, and is interpreted on both DoFns.
\<close>

section \<open>Slices (ports/partition.go, range_slicer.go)\<close>

text \<open>A bound is an \<^verbatim>\<open>any\<close>: \<^term>\<open>None\<close> is nil.\<close>

record 'k partition_slice =
  slice_index :: int
  lower_bound :: "'k option"
  upper_bound :: "'k option"
  is_first :: bool
  is_last :: bool

record 'k raw_bucket =
  bucket_id :: int
  bk_lower :: "'k option"
  bk_upper :: "'k option"

definition full_slice :: "'k partition_slice" where
  "full_slice = \<lparr>slice_index = 0, lower_bound = None, upper_bound = None, is_first = True, is_last = True\<rparr>"

definition build_universal_bounds_query :: "string \<Rightarrow> string \<Rightarrow> int \<Rightarrow> string" where
  "build_universal_bounds_query base col batch =
     ''SELECT bucket_id, MIN('' @ col @ '') AS lower_bound, MAX('' @ col @
     '') AS upper_bound, COUNT(*) AS row_count FROM (SELECT '' @ col @ '', CEIL(ROW_NUMBER() OVER (ORDER BY '' @ col @
     '') / '' @ format_int batch @ ''.0) AS bucket_id FROM ('' @ trim_space base @
     '') AS _user_subq) AS _ranked GROUP BY bucket_id ORDER BY bucket_id''"

definition sub_query :: "string \<Rightarrow> string" where
  "sub_query base = ''SELECT * FROM ('' @ trim_space base @ '') AS _user_subq''"

definition placeholders :: "bool \<Rightarrow> string \<times> string" where
  "placeholders dollar = (if \<not> dollar then (''?'', ''?'') else (''$1'', ''$2''))"

definition build_worker_slice_query ::
  "string \<Rightarrow> string \<Rightarrow> 'k partition_slice \<Rightarrow> bool \<Rightarrow> string \<times> 'k option list" where
  "build_worker_slice_query base col s dollar =
     (if is_first s \<and> is_last s \<or> lower_bound s = None \<and> upper_bound s = None then (sub_query base, [])
      else let (p1, p2) = placeholders dollar in
        if is_last s
        then (sub_query base @ '' WHERE '' @ col @ '' >= '' @ p1 @ '' ORDER BY '' @ col, [lower_bound s])
        else (sub_query base @ '' WHERE '' @ col @ '' >= '' @ p1 @ '' AND '' @ col @ '' < '' @ p2 @ '' ORDER BY '' @ col,
              [lower_bound s, upper_bound s]))"

fun slices_from :: "int \<Rightarrow> 'k raw_bucket list \<Rightarrow> 'k partition_slice list" where
  "slices_from i [] = []"
| "slices_from i [b] =
     [\<lparr>slice_index = i, lower_bound = bk_lower b, upper_bound = bk_upper b, is_first = (i = 0), is_last = True\<rparr>]"
| "slices_from i (b # b' # bs) =
     \<lparr>slice_index = i, lower_bound = bk_lower b, upper_bound = bk_lower b', is_first = (i = 0), is_last = False\<rparr> #
     slices_from (i + 1) (b' # bs)"

definition construct_contiguous_slices :: "'k raw_bucket list \<Rightarrow> 'k partition_slice list" where
  "construct_contiguous_slices bs = (if bs = [] then [full_slice] else slices_from 0 bs)"

section \<open>Object id ranges (partitioner.go, mongo_source.go)\<close>

text \<open>An \<^verbatim>\<open>ObjectID\<close> is twelve bytes, ordered as the big-endian number they form; its first four bytes are the
  creation time in seconds. The hexadecimal text of an id stands for the id.\<close>

type_synonym object_id = "96 word"

definition oid_seconds :: "object_id \<Rightarrow> int" where
  "oid_seconds x = uint (drop_bit 64 x)"

definition build_single_slice :: "object_id \<Rightarrow> object_id \<Rightarrow> object_id partition_slice list" where
  "build_single_slice lo hi =
     [\<lparr>slice_index = 0, lower_bound = Some lo, upper_bound = Some hi, is_first = True, is_last = True\<rparr>]"

definition calculate_step :: "int \<Rightarrow> int \<Rightarrow> int \<Rightarrow> int" where
  "calculate_step min_sec max_sec n = (let step = i64 (i64 (max_sec - min_sec) sdiv n) in if step < 1 then 1 else step)"

definition calculate_next_bound :: "int \<Rightarrow> int \<Rightarrow> int \<Rightarrow> bool \<Rightarrow> object_id \<Rightarrow> object_id" where
  "calculate_next_bound min_sec sec_step idx final hi =
     (if final then hi
      else push_bit 64 (word_of_int (i64 (min_sec + i64 (i64 (idx + 1) * sec_step)) mod 2 ^ 32)))"

text \<open>The loop of \<^verbatim>\<open>generateSlices\<close> from index \<open>i\<close>; \<open>m\<close> iterations are left.\<close>

fun slices_loop :: "object_id \<Rightarrow> int \<Rightarrow> int \<Rightarrow> int \<Rightarrow> nat \<Rightarrow> int \<Rightarrow> object_id \<Rightarrow> object_id partition_slice list" where
  "slices_loop hi min_sec step n 0 i cur = []"
| "slices_loop hi min_sec step n (Suc m) i cur =
     (let final = (i = n - 1); nb = calculate_next_bound min_sec step i final hi in
      \<lparr>slice_index = i, lower_bound = Some cur, upper_bound = Some nb, is_first = (i = 0), is_last = final\<rparr> #
      slices_loop hi min_sec step n m (i + 1) nb)"

definition generate_slices :: "object_id \<Rightarrow> object_id \<Rightarrow> int \<Rightarrow> int \<Rightarrow> int \<Rightarrow> object_id partition_slice list" where
  "generate_slices lo hi min_sec step n = slices_loop hi min_sec step n (nat n) 0 lo"

definition build_object_id_ranges :: "object_id \<Rightarrow> object_id \<Rightarrow> int \<Rightarrow> object_id partition_slice list" where
  "build_object_id_ranges lo hi n =
     (if n \<le> 1 then build_single_slice lo hi
      else let min_sec = oid_seconds lo; max_sec = oid_seconds hi in
        if max_sec \<le> min_sec then build_single_slice lo hi
        else generate_slices lo hi min_sec (calculate_step min_sec max_sec n) n)"

text \<open>\<^verbatim>\<open>CalculatePartitions\<close>: the table and database names, whether the client is connected, and the least and
  greatest id found.\<close>

datatype mongo_error = CollectionEmpty | DatabaseEmpty | NotConnected

definition calculate_partitions ::
  "string \<Rightarrow> string \<Rightarrow> int \<Rightarrow> bool \<Rightarrow> (object_id \<times> object_id) option \<Rightarrow> mongo_error + object_id partition_slice list" where
  "calculate_partitions table db n connected min_max =
     (if table = [] then Inl CollectionEmpty
      else if db = [] then Inl DatabaseEmpty
      else if n \<le> 1 then Inr [full_slice]
      else if \<not> connected then Inl NotConnected
      else case min_max of None \<Rightarrow> Inr [full_slice] | Some (lo, hi) \<Rightarrow> Inr (build_object_id_ranges lo hi n))"

datatype id_condition = IdLte object_id | IdGte object_id | IdLt object_id

definition apply_slice_bounds :: "object_id partition_slice \<Rightarrow> id_condition list" where
  "apply_slice_bounds s =
     (case (lower_bound s, upper_bound s) of
        (Some low, Some up) \<Rightarrow>
          if is_first s then [IdLte up] else if is_last s then [IdGte low] else [IdGte low, IdLt up]
      | _ \<Rightarrow> [])"

fun id_condition_holds :: "object_id \<Rightarrow> id_condition \<Rightarrow> bool" where
  "id_condition_holds x (IdLte u) = (x \<le> u)"
| "id_condition_holds x (IdGte l) = (l \<le> x)"
| "id_condition_holds x (IdLt u) = (x < u)"

definition filter_matches :: "id_condition list \<Rightarrow> object_id \<Rightarrow> bool" where
  "filter_matches cs x = list_all (id_condition_holds x) cs"

section \<open>The DoFns (partition_query_sdf.go, paged_api_sdf.go)\<close>

text \<open>A reader takes a slice to an error, or to what it sends on its two channels until it closes them. The
  channels have been closed, so the loops over them end.\<close>

type_synonym ('s, 'r, 'e) slice_reader = "'s \<Rightarrow> 'e + 'r option list \<times> 'e option list"

datatype 'e source_error = ReaderNotInitialized | FailedReading 'e | ErrorInSlice 'e

definition sdf_initial_restriction :: range where "sdf_initial_restriction = (0, 1)"

definition sdf_split_restriction :: "range \<Rightarrow> range list" where "sdf_split_restriction r = [r]"

fun first_error :: "'e option list \<Rightarrow> 'e option" where
  "first_error [] = None"
| "first_error (None # es) = first_error es"
| "first_error (Some e # es) = Some e"

definition read_slice_with :: "('s, 'r, 'e) slice_reader option \<Rightarrow> 's \<Rightarrow> 'r list \<times> 'e source_error option" where
  "read_slice_with rd s = (case rd of
      None \<Rightarrow> ([], Some ReaderNotInitialized)
    | Some f \<Rightarrow> (case f s of
        Inl e \<Rightarrow> ([], Some (FailedReading e))
      | Inr (recs, errs) \<Rightarrow> (map the (filter (\<lambda>r. r \<noteq> None) recs), map_option ErrorInSlice (first_error errs))))"

definition partition_process_element ::
  "('s, 'r, 'e) slice_reader option \<Rightarrow> range_tracker \<Rightarrow> 's \<Rightarrow> range_tracker \<times> 'r list \<times> 'e source_error option" where
  "partition_process_element rd t s =
     (case pt_try_claim t (PosInt 0) of (t', ok) \<Rightarrow> if \<not> ok then (t', [], None) else (t', read_slice_with rd s))"

definition paged_process_element ::
  "('s, 'r, 'e) slice_reader option \<Rightarrow> range_tracker \<Rightarrow> 's \<Rightarrow> range_tracker \<times> 'r list \<times> 'e source_error option" where
  "paged_process_element rd t s =
     (case pg_try_claim t (PosInt 0) of (t', ok) \<Rightarrow> if \<not> ok then (t', [], None) else (t', read_slice_with rd s))"

section \<open>Reading all slices\<close>

text \<open>What a slice source promises: on the restriction of a new element it makes one call of the reader and
  emits what the reader sent; after that the restriction is done, and no split of it is possible.\<close>

locale slice_source =
  fixes start :: "range \<Rightarrow> range_tracker"
    and try_split :: "range_tracker \<Rightarrow> fraction \<Rightarrow> range_tracker \<times> (range \<times> range) option"
    and is_done :: "range_tracker \<Rightarrow> bool"
    and process :: "('s, 'r, 'e) slice_reader option \<Rightarrow> range_tracker \<Rightarrow> 's \<Rightarrow> range_tracker \<times> 'r list \<times> 'e source_error option"
  assumes process_start: "snd (process rd (start (0, 1)) s) = read_slice_with rd s"
    and process_done: "is_done (fst (process rd (start (0, 1)) s))"
    and no_split: "try_split (start (0, 1)) fr = (start (0, 1), None)"
    and process_again: "fst (snd (process rd (fst (process rd' (start (0, 1)) s')) s)) = []"
begin

lemma read_all_filter:
  assumes "\<And>s. rd s = Inr (map Some (filter (P s) rows), [])"
  shows "concat (map (\<lambda>s. fst (snd (process (Some rd) (start (0, 1)) s))) ss) = concat (map (\<lambda>s. filter (P s) rows) ss)"
proof -
  have "fst (snd (process (Some rd) (start (0, 1)) s)) = filter (P s) rows" for s
    unfolding process_start by (simp add: read_slice_with_def assms comp_def)
  then show ?thesis by simp
qed

end

lemma pt_claim_zero:
  "pt_try_claim (new_partition_range_tracker (0, 1)) (PosInt 0) = ((new_partition_range_tracker (0, 1))\<lparr>claimed := 0\<rparr>, True)"
  by (simp add: pt_try_claim_def new_partition_range_tracker_def tracker_of_def i64_def)

lemma pg_claim_zero:
  "pg_try_claim (new_page_range_tracker (0, 1)) (PosInt 0) = ((new_page_range_tracker (0, 1))\<lparr>claimed := 0\<rparr>, True)"
  by (simp add: pg_try_claim_def new_page_range_tracker_def tracker_of_def i64_def)

interpretation partition_source: slice_source new_partition_range_tracker pt_try_split pt_is_done partition_process_element
  by unfold_locales
    (auto simp: partition_process_element_def pt_claim_zero pt_is_done_def pt_try_split_def new_partition_range_tracker_def
      tracker_of_def i64_def Let_def pt_try_claim_def)

interpretation paged_source: slice_source new_page_range_tracker pg_try_split pg_is_done paged_process_element
  by unfold_locales
    (auto simp: paged_process_element_def pg_claim_zero pg_is_done_def pg_try_split_def new_page_range_tracker_def
      tracker_of_def i64_def Let_def pg_try_claim_def)

section \<open>Rows over slices\<close>

lemma mset_concat_filter_Cons:
  "mset (concat (map (\<lambda>s. filter (P s) (r # rows)) ss)) =
    replicate_mset (length (filter (\<lambda>s. P s r) ss)) r + mset (concat (map (\<lambda>s. filter (P s) rows) ss))"
  by (induction ss) auto

lemma mset_read_once:
  assumes "\<And>r. r \<in> set rows \<Longrightarrow> length (filter (\<lambda>s. P s r) ss) = (if Q r then 1 else 0)"
  shows "mset (concat (map (\<lambda>s. filter (P s) rows) ss)) = mset (filter Q rows)"
  using assms
proof (induction rows)
  case Nil
  then show ?case by (induction ss) auto
next
  case (Cons r rows)
  then show ?case unfolding mset_concat_filter_Cons by simp
qed

text \<open>The SQL meaning of the three query shapes. A comparison with NULL is not true.\<close>

fun sql_ge :: "'k :: linorder option \<Rightarrow> 'k option \<Rightarrow> bool" where
  "sql_ge (Some k) (Some a) = (a \<le> k)"
| "sql_ge _ _ = False"

fun sql_lt :: "'k :: linorder option \<Rightarrow> 'k option \<Rightarrow> bool" where
  "sql_lt (Some k) (Some a) = (k < a)"
| "sql_lt _ _ = False"

definition sql_semantics ::
  "(string \<Rightarrow> 'k :: linorder option list \<Rightarrow> 'k option \<Rightarrow> bool) \<Rightarrow> string \<Rightarrow> string \<Rightarrow> bool \<Rightarrow> bool" where
  "sql_semantics sel base col dollar \<longleftrightarrow> (let (p1, p2) = placeholders dollar in
     (\<forall>key. sel (sub_query base) [] key) \<and>
     (\<forall>a key. sel (sub_query base @ '' WHERE '' @ col @ '' >= '' @ p1 @ '' ORDER BY '' @ col) [a] key = sql_ge key a) \<and>
     (\<forall>a b key. sel (sub_query base @ '' WHERE '' @ col @ '' >= '' @ p1 @ '' AND '' @ col @ '' < '' @ p2 @
        '' ORDER BY '' @ col) [a, b] key = (sql_ge key a \<and> sql_lt key b)))"

definition slice_selects ::
  "(string \<Rightarrow> 'k option list \<Rightarrow> 'k option \<Rightarrow> bool) \<Rightarrow> string \<Rightarrow> string \<Rightarrow> bool \<Rightarrow> 'k partition_slice \<Rightarrow> 'k option \<Rightarrow> bool" where
  "slice_selects sel base col dollar s key =
     (case build_worker_slice_query base col s dollar of (q, args) \<Rightarrow> sel q args key)"

lemma slice_selects_full:
  assumes "sql_semantics sel base col dollar" "is_first s \<and> is_last s \<or> lower_bound s = None \<and> upper_bound s = None"
  shows "slice_selects sel base col dollar s key"
  using assms by (auto simp: slice_selects_def build_worker_slice_query_def sql_semantics_def split: prod.splits)

lemma slice_selects_range:
  assumes "sql_semantics sel base col dollar" "\<not> (is_first s \<and> is_last s)" "lower_bound s = Some l"
  shows "slice_selects sel base col dollar s key \<longleftrightarrow> sql_ge key (Some l) \<and> (is_last s \<or> sql_lt key (upper_bound s))"
  using assms by (auto simp: slice_selects_def build_worker_slice_query_def sql_semantics_def Let_def split: prod.splits)

lemma slices_from_count:
  assumes "sql_semantics sel base col dollar" "bs \<noteq> []" "\<forall>b \<in> set bs. bk_lower b \<noteq> None"
    "sorted (map (\<lambda>b. the (bk_lower b)) bs)" "0 \<le> i" "i = 0 \<longrightarrow> 1 < length bs"
  shows "length (filter (\<lambda>s. slice_selects sel base col dollar s key) (slices_from i bs)) =
    (if sql_ge key (bk_lower (hd bs)) then 1 else 0)"
  using assms(2-)
proof (induction i bs rule: slices_from.induct)
  case (2 i b)
  then show ?case using slice_selects_range [OF assms(1)] by auto
next
  case (3 i b b' bs)
  obtain l l' where l: "bk_lower b = Some l" "bk_lower b' = Some l'" "l \<le> l'" using 3(3,4) by auto
  have IH: "length (filter (\<lambda>s. slice_selects sel base col dollar s key) (slices_from (i + 1) (b' # bs))) =
      (if sql_ge key (bk_lower b') then 1 else 0)"
    using 3 by auto
  have "slice_selects sel base col dollar
      \<lparr>slice_index = i, lower_bound = bk_lower b, upper_bound = bk_lower b', is_first = (i = 0), is_last = False\<rparr> key \<longleftrightarrow>
      sql_ge key (Some l) \<and> sql_lt key (Some l')"
    using slice_selects_range [OF assms(1)] l by simp
  then show ?case using IH l by (cases key) auto
qed simp

lemma contiguous_slices_count:
  assumes "sql_semantics sel base col dollar" "bs \<noteq> []" "\<forall>b \<in> set bs. bk_lower b \<noteq> None"
    "sorted (map (\<lambda>b. the (bk_lower b)) bs)"
  shows "length (filter (\<lambda>s. slice_selects sel base col dollar s key) (construct_contiguous_slices bs)) =
    (if length bs = 1 \<or> sql_ge key (bk_lower (hd bs)) then 1 else 0)"
proof (cases "length bs = 1")
  case True
  then obtain b where "bs = [b]" by (auto simp: length_Suc_conv)
  then show ?thesis using slice_selects_full [OF assms(1)] by (simp add: construct_contiguous_slices_def)
next
  case False
  then show ?thesis using slices_from_count [OF assms, of 0] assms(2)
    by (cases bs) (auto simp: construct_contiguous_slices_def Suc_lessI)
qed

section \<open>Object ids\<close>

lemma uint_boundary:
  assumes "0 \<le> a" "a < 2 ^ 32"
  shows "uint (push_bit 64 (word_of_int a) :: object_id) = a * 2 ^ 64"
proof -
  have "uint (word_of_int a :: object_id) = a" using assms by (simp add: uint_word_of_int)
  then show ?thesis using assms by (simp add: push_bit_eq_mult uint_word_arith_bintrs take_bit_eq_mod)
qed

text \<open>The boundary between the slices \<open>i - 1\<close> and \<open>i\<close>.\<close>

definition oid_bound :: "int \<Rightarrow> int \<Rightarrow> int \<Rightarrow> object_id" where
  "oid_bound min_sec step i = push_bit 64 (word_of_int (min_sec + i * step))"

lemma next_bound_eq:
  assumes "0 \<le> min_sec" "0 \<le> step" "0 \<le> i" "min_sec + (i + 1) * step < 2 ^ 32" "i < 2 ^ 31"
  shows "calculate_next_bound min_sec step i False hi = oid_bound min_sec step (i + 1)"
proof -
  have p: "0 \<le> (i + 1) * step" using assms by simp
  have "i64 (i + 1) = i + 1" using assms by (intro i64_id in_i64I) auto
  moreover have "i64 ((i + 1) * step) = (i + 1) * step" using assms(1,4) p by (intro i64_id in_i64I) auto
  moreover have "i64 (min_sec + (i + 1) * step) = min_sec + (i + 1) * step" using assms(1,4) p by (intro i64_id in_i64I) auto
  ultimately show ?thesis using assms(1,4) p by (simp add: calculate_next_bound_def oid_bound_def del: distrib_right_numeral)
qed

lemma oid_bound_mono:
  assumes "0 \<le> min_sec" "0 \<le> step" "0 \<le> i" "i \<le> j" "min_sec + j * step < 2 ^ 32"
  shows "oid_bound min_sec step i \<le> oid_bound min_sec step j"
proof -
  have "i * step \<le> j * step" "0 \<le> i * step" using assms by (auto intro: mult_right_mono)
  then have "0 \<le> min_sec + i * step" "min_sec + i * step \<le> min_sec + j * step" "min_sec + i * step < 2 ^ 32"
    using assms by linarith+
  then show ?thesis using assms(5) unfolding oid_bound_def word_le_def by (simp add: uint_boundary del: wi_hom_syms of_int_add of_int_mult)
qed

lemma slices_loop_count:
  assumes "0 \<le> min_sec" "0 \<le> step" "min_sec + (n - 1) * step < 2 ^ 32" "n < 2 ^ 31"
    and "1 \<le> i" "i + int m = n" "0 < m"
  shows "length (filter (\<lambda>s. filter_matches (apply_slice_bounds s) x)
      (slices_loop hi min_sec step n m i (oid_bound min_sec step i))) = (if oid_bound min_sec step i \<le> x then 1 else 0)"
  using assms(5-)
proof (induction m arbitrary: i)
  case (Suc m)
  show ?case
  proof (cases "m = 0")
    case True
    then show ?thesis using Suc.prems by (simp add: apply_slice_bounds_def filter_matches_def Let_def)
  next
    case False
    have "(i + 1) * step \<le> (n - 1) * step" using False Suc.prems assms(2) by (intro mult_right_mono) auto
    then have lt: "min_sec + (i + 1) * step < 2 ^ 32" using assms(3) by linarith
    have nb: "calculate_next_bound min_sec step i False hi = oid_bound min_sec step (i + 1)"
      using Suc.prems assms lt by (intro next_bound_eq) auto
    have le: "oid_bound min_sec step i \<le> oid_bound min_sec step (i + 1)"
      using Suc.prems assms lt by (intro oid_bound_mono) auto
    have "length (filter (\<lambda>s. filter_matches (apply_slice_bounds s) x)
      (slices_loop hi min_sec step n m (i + 1) (oid_bound min_sec step (i + 1)))) = (if oid_bound min_sec step (i + 1) \<le> x then 1 else 0)"
      using False Suc.prems by (intro Suc.IH) auto
    then show ?thesis using Suc.prems False nb le
      by (auto simp: apply_slice_bounds_def filter_matches_def Let_def)
  qed
qed simp

lemma calculate_step_bounds:
  assumes "0 \<le> lo" "lo < hi" "hi < 2 ^ 32" "2 \<le> n"
  shows "1 \<le> calculate_step lo hi n" "lo + n \<le> 2 ^ 32 \<Longrightarrow> lo + (n - 1) * calculate_step lo hi n < 2 ^ 32"
proof -
  let ?q = "(hi - lo) div n"
  have d: "i64 (hi - lo) = hi - lo" using assms by (intro i64_id in_i64I) auto
  have q: "0 \<le> ?q" "?q * n \<le> hi - lo" using assms
    by (auto simp: pos_imp_zdiv_nonneg_iff minus_mod_eq_div_mult [symmetric])
  have "?q \<le> hi - lo" using q assms(4) mult_left_mono [of 1 n ?q] by linarith
  then have "i64 ?q = ?q" using q assms by (intro i64_id in_i64I) auto
  then have s: "calculate_step lo hi n = (if ?q < 1 then 1 else ?q)"
    using assms d by (simp add: calculate_step_def signed_divide_int_def Let_def)
  then show "1 \<le> calculate_step lo hi n" by simp
  have "(n - 1) * ?q \<le> ?q * n" using q(1) assms(4) by (simp add: algebra_simps)
  then show "lo + (n - 1) * calculate_step lo hi n < 2 ^ 32" if "lo + n \<le> 2 ^ 32"
    using that q assms s by (auto simp: )
qed

lemma object_id_ranges_count:
  assumes "oid_seconds lo < oid_seconds hi" "2 \<le> n" "n < 2 ^ 31" "oid_seconds lo + n \<le> 2 ^ 32"
  shows "length (filter (\<lambda>s. filter_matches (apply_slice_bounds s) x) (build_object_id_ranges lo hi n)) =
    (if x = the (upper_bound (hd (build_object_id_ranges lo hi n))) then 2 else 1)"
proof -
  let ?a = "oid_seconds lo" let ?st = "calculate_step ?a (oid_seconds hi) n"
  have r: "0 \<le> oid_seconds y" "oid_seconds y < 2 ^ 32" for y
  proof -
    show "0 \<le> oid_seconds y" by (simp add: oid_seconds_def)
    have "uint y < 2 ^ 96" using uint_lt2p [of y] by simp
    then show "oid_seconds y < 2 ^ 32" by (simp add: oid_seconds_def drop_bit_eq_div uint_div_distrib)
  qed
  have st: "1 \<le> ?st" "?a + (n - 1) * ?st < 2 ^ 32" using calculate_step_bounds [OF r(1) assms(1) r(2) assms(2)] assms(4) by auto
  obtain m where m: "nat n = Suc (Suc m)" using assms(2) by (intro that [of "nat (n - 2)"]) linarith
  have "1 * ?st \<le> (n - 1) * ?st" using st(1) assms(2) by (intro mult_right_mono) auto
  then have "?a + ?st < 2 ^ 32" using st(2) by linarith
  then have nb: "calculate_next_bound ?a ?st 0 False hi = oid_bound ?a ?st 1"
    using next_bound_eq [of ?a ?st 0 hi] r(1) st by simp
  have b: "build_object_id_ranges lo hi n =
      \<lparr>slice_index = 0, lower_bound = Some lo, upper_bound = Some (oid_bound ?a ?st 1), is_first = True, is_last = False\<rparr> #
      slices_loop hi ?a ?st n (Suc m) 1 (oid_bound ?a ?st 1)"
    using assms(1,2) nb by (simp add: build_object_id_ranges_def generate_slices_def m Let_def)
  have "length (filter (\<lambda>s. filter_matches (apply_slice_bounds s) x) (slices_loop hi ?a ?st n (Suc m) 1 (oid_bound ?a ?st 1))) =
      (if oid_bound ?a ?st 1 \<le> x then 1 else 0)"
    using r st assms m by (intro slices_loop_count) auto
  then show ?thesis unfolding b
    by (auto simp: apply_slice_bounds_def filter_matches_def simp del: slices_loop.simps)
qed

section \<open>Properties\<close>

text \<open>Reading a table slice by slice: the slices built from buckets with non-null, ascending lower bounds, read
  by the partition DoFn with the queries of \<^verbatim>\<open>BuildWorkerSliceQuery\<close> on a database that gives these queries their
  SQL meaning, yield every row whose key is at least the first lower bound exactly once, also when equal keys
  straddle two buckets. With two or more buckets the rows with a NULL key or a key below the first bound are
  read by no slice.\<close>

lemma sql_slices_read_once:
  fixes key :: "'r \<Rightarrow> 'k :: linorder option"
  assumes "sql_semantics sel base col dollar"
    and "bs \<noteq> []" "\<forall>b \<in> set bs. bk_lower b \<noteq> None" "sorted (map (\<lambda>b. the (bk_lower b)) bs)"
    and "reader = (\<lambda>s. Inr (map Some (filter (\<lambda>r. slice_selects sel base col dollar s (key r)) rows), []))"
  shows "mset (concat (map (\<lambda>s. fst (snd (partition_process_element (Some reader) (new_partition_range_tracker sdf_initial_restriction) s)))
      (construct_contiguous_slices bs))) =
    mset (filter (\<lambda>r. length bs = 1 \<or> sql_ge (key r) (bk_lower (hd bs))) rows)"
  unfolding sdf_initial_restriction_def
    partition_source.read_all_filter [of reader "\<lambda>s r. slice_selects sel base col dollar s (key r)" rows, unfolded assms(5), OF refl]
    assms(5)
  by (rule mset_read_once, rule contiguous_slices_count [OF assms(1-4)])

definition sample_sel :: "string \<Rightarrow> nat option list \<Rightarrow> nat option \<Rightarrow> bool" where
  "sample_sel q args k = (case args of [] \<Rightarrow> True | [a] \<Rightarrow> sql_ge k a | a # b # _ \<Rightarrow> sql_ge k a \<and> sql_lt k b)"

definition sample_buckets :: "nat raw_bucket list" where
  "sample_buckets = [\<lparr>bucket_id = 1, bk_lower = Some 1, bk_upper = Some 4\<rparr>, \<lparr>bucket_id = 2, bk_lower = Some 4, bk_upper = Some 4\<rparr>,
     \<lparr>bucket_id = 3, bk_lower = Some 4, bk_upper = Some 9\<rparr>]"

lemma sample_sel_semantics: "sql_semantics sample_sel base col dollar"
  by (auto simp: sql_semantics_def sample_sel_def Let_def split: prod.splits)

end
