(* ===== verification/Rest_Source.thy ===== *)
theory Rest_Source
  imports Http_Client Coercion Partitions
begin

text \<open>
  Reading a REST service, \<^verbatim>\<open>internal/adapters/paged_api/source/rest_reader.go\<close> with \<^verbatim>\<open>pkg/jsonutils/extractor.go\<close>: the list of
  pages, the URL of a page, and the records of a response. Parsing of JSON and URLs and the arithmetic of \<^verbatim>\<open>float64\<close> are arguments.
\<close>

section \<open>JSON (extractor.go)\<close>

datatype json = JNull | JBool bool | JNumber u64 | JString string | JArray "json list" | JObject "(string \<times> json) list"

record rest_env =
  unmarshal :: "string \<Rightarrow> string + json"
  json_text :: "json \<Rightarrow> string"
  parse_url :: "string \<Rightarrow> string + (string \<times> string list) list"
  render_url :: "string \<Rightarrow> (string \<times> string list) list \<Rightarrow> string"
  new_request_err :: "string \<Rightarrow> string \<Rightarrow> string option"
  float_of_int :: "int \<Rightarrow> u64"
  float_sub :: "u64 \<Rightarrow> u64 \<Rightarrow> u64"
  ceil_div :: "u64 \<Rightarrow> u64 \<Rightarrow> int"
  float_parse :: "string \<Rightarrow> u64 option"

text \<open>\<^verbatim>\<open>strings.Split\<close> at a single character.\<close>

definition split_char :: "char \<Rightarrow> string \<Rightarrow> string list" where
  "split_char x s = foldr (\<lambda>c acc. if c = x then [] # acc else (case acc of [] \<Rightarrow> [[c]] | a # as \<Rightarrow> (c # a) # as)) s [[]]"

fun get_nested_value :: "json \<Rightarrow> string list \<Rightarrow> string + json" where
  "get_nested_value current [] = Inr current"
| "get_nested_value current (head # tail) = (case current of
      JNull \<Rightarrow> Inr JNull
    | JObject m \<Rightarrow> (case map_of m head of None \<Rightarrow> Inr JNull | Some child \<Rightarrow> get_nested_value child tail)
    | JArray _ \<Rightarrow> Inl (''cannot index slice with key '' @ head)
    | _ \<Rightarrow> Inl (''value at '' @ head @ '' is neither map nor slice''))"

definition extract_path :: "rest_env \<Rightarrow> string \<Rightarrow> string \<Rightarrow> string + json" where
  "extract_path env body dot_path =
     (if trim_space dot_path = [] \<or> dot_path = ''$'' then unmarshal env body
      else case unmarshal env body of
          Inl e \<Rightarrow> Inl (''failed to parse json body: '' @ e)
        | Inr root \<Rightarrow> get_nested_value root (split_char CHR ''.'' dot_path))"

definition lookup_path :: "string gomap \<Rightarrow> field \<Rightarrow> string" where
  "lookup_path mapping f = (case map_of mapping (field_name f) of Some p \<Rightarrow> if p \<noteq> [] then p else field_name f | None \<Rightarrow> field_name f)"

definition field_json :: "string gomap \<Rightarrow> (string \<times> json) list \<Rightarrow> field \<Rightarrow> json" where
  "field_json mapping item f =
     (let p = lookup_path mapping f in
      if contains p ''.'' then (case get_nested_value (JObject item) (split_char CHR ''.'' p) of Inr v \<Rightarrow> v | Inl _ \<Rightarrow> JNull)
      else (case map_of item p of Some v \<Rightarrow> v | None \<Rightarrow> JNull))"

text \<open>Filling in one record, field by field; \<^term>\<open>None\<close> is a write past the end of the values.\<close>

fun fill_fields :: "rest_env \<Rightarrow> string gomap \<Rightarrow> (string \<times> json) list \<Rightarrow> nat \<Rightarrow> field list \<Rightarrow> generic_record \<Rightarrow> generic_record option" where
  "fill_fields env mapping item i [] r = Some r"
| "fill_fields env mapping item i (f # fs) r =
     (case field_json mapping item f of
        JNull \<Rightarrow> (case set_null r i (field_type f) of None \<Rightarrow> None | Some r' \<Rightarrow> fill_fields env mapping item (Suc i) fs r')
      | v \<Rightarrow> (case set_string r i (json_text env v) of None \<Rightarrow> None | Some r' \<Rightarrow> fill_fields env mapping item (Suc i) fs r'))"

fun records_of :: "rest_env \<Rightarrow> string gomap \<Rightarrow> schema \<Rightarrow> string \<Rightarrow> json list \<Rightarrow> generic_record list option" where
  "records_of env mapping s sid [] = Some []"
| "records_of env mapping s sid (item # items) = (case item of
      JObject m \<Rightarrow> (case fill_fields env mapping m 0 (sch_fields s) (new_generic_record sid (length (sch_fields s))) of
          None \<Rightarrow> None
        | Some r \<Rightarrow> map_option (Cons r) (records_of env mapping s sid items))
    | _ \<Rightarrow> records_of env mapping s sid items)"

definition extract_records ::
  "rest_env \<Rightarrow> string \<Rightarrow> string \<Rightarrow> string gomap \<Rightarrow> schema \<Rightarrow> string \<Rightarrow> string + generic_record list option" where
  "extract_records env body records_path mapping s sid =
     (case extract_path env body records_path of
        Inl e \<Rightarrow> Inl (''error navigating records_path '' @ records_path @ '': '' @ e)
      | Inr JNull \<Rightarrow> Inr (Some [])
      | Inr (JArray items) \<Rightarrow> Inr (records_of env mapping s sid items)
      | Inr _ \<Rightarrow> Inl (''records_path '' @ records_path @ '' did not resolve to a JSON array''))"

section \<open>Pages (rest_reader.go)\<close>

record page_slice =
  ps_index :: int
  ps_size :: int
  ps_cursor :: string

record rest_reader =
  rr_client :: http_client
  rr_cfg :: api_source_config

definition new_rest_reader :: "int \<Rightarrow> api_source_config \<Rightarrow> string gomap \<Rightarrow> rest_reader" where
  "new_rest_reader now cfg secrets = \<lparr>rr_client = new_http_client now cfg secrets, rr_cfg = cfg\<rparr>"

definition slices_at :: "(int \<Rightarrow> int) \<Rightarrow> int \<Rightarrow> int \<Rightarrow> page_slice list" where
  "slices_at f sz n = map (\<lambda>i. \<lparr>ps_index = f (int i), ps_size = sz, ps_cursor = []\<rparr>) [0 ..< nat n]"

definition initial_page_of :: "pagination_config \<Rightarrow> int" where
  "initial_page_of p = (if pg_initial_page p = 0 \<and> pg_type p = PageNumber then 1 else pg_initial_page p)"

definition start_offset_of :: "api_source_config \<Rightarrow> int" where
  "start_offset_of cfg = (if pg_type (as_pagination cfg) = OffsetLimit \<and> watermark_is_offset cfg
     then (case as_watermark cfg of
         Some wm \<Rightarrow> (case wc_value wm of
             Some v \<Rightarrow> (case strconv_parse_int (trim_space v) of Some n \<Rightarrow> if n > 0 then n else 0 | None \<Rightarrow> 0)
           | None \<Rightarrow> 0)
       | None \<Rightarrow> 0)
     else 0)"

text \<open>The request that asks for the total, and its answer as a number; anything that goes wrong is as if there were no total.\<close>

definition probe_request :: "api_source_config \<Rightarrow> http_request" where
  "probe_request cfg = (let p = as_pagination cfg in
     \<lparr>rq_method = ''GET'',
      rq_url = as_base_url cfg @ as_endpoint cfg @ ''?'' @ or_default [] (pg_page_param p) ''page'' @ ''='' @ format_int (initial_page_of p) @
        ''&'' @ or_default [] (pg_size_param p) ''size'' @ ''=1'',
      rq_headers = [], rq_body = []\<rparr>)"

definition total_of :: "rest_env \<Rightarrow> json \<Rightarrow> u64" where
  "total_of env v = (case v of JNumber f \<Rightarrow> f | JString s \<Rightarrow> (case float_parse env s of Some f \<Rightarrow> f | None \<Rightarrow> 0) | _ \<Rightarrow> 0)"

definition probe_total ::
  "http_env \<Rightarrow> rest_env \<Rightarrow> http_world \<Rightarrow> rest_reader \<Rightarrow> api_source_config \<Rightarrow> http_world \<times> rest_reader \<times> u64 option" where
  "probe_total henv env w r cfg =
     (if pg_total_count_path (as_pagination cfg) = [] \<or> new_request_err env ''GET'' (rq_url (probe_request cfg)) \<noteq> None then (w, r, None)
      else case http_do henv (rr_client r) w (probe_request cfg) of
          (w', c', Inl e) \<Rightarrow> (w', r\<lparr>rr_client := c'\<rparr>, None)
        | (w', c', Inr rs) \<Rightarrow> (w', r\<lparr>rr_client := c'\<rparr>,
            (case extract_path env (rs_body rs) (pg_total_count_path (as_pagination cfg)) of
               Inl e \<Rightarrow> None | Inr JNull \<Rightarrow> None | Inr v \<Rightarrow> Some (total_of env v))))"

definition pages_for_total :: "rest_env \<Rightarrow> api_source_config \<Rightarrow> u64 \<Rightarrow> page_slice list" where
  "pages_for_total env cfg total_count =
     (let p = as_pagination cfg; start = start_offset_of cfg; sz = pg_page_size p in
      if pg_type p = OffsetLimit \<and> start > 0 then
        (if \<not> f64_less (float_of_int env start) total_count
         then [\<lparr>ps_index = start, ps_size = sz, ps_cursor = []\<rparr>]
         else slices_at (\<lambda>i. i64 (start + i * sz)) sz
                (ceil_div env (float_sub env total_count (float_of_int env start)) (float_of_int env sz)))
      else slices_at (\<lambda>i. if pg_type p = OffsetLimit then i64 (i * sz) else i64 (i + initial_page_of p)) sz
             (ceil_div env total_count (float_of_int env sz)))"

definition estimate_pages ::
  "http_env \<Rightarrow> rest_env \<Rightarrow> http_world \<Rightarrow> rest_reader \<Rightarrow> api_source_config option \<Rightarrow> http_world \<times> rest_reader \<times> page_slice list" where
  "estimate_pages henv env w r api_cfg =
     (let cfg = (case api_cfg of Some c \<Rightarrow> c | None \<Rightarrow> rr_cfg r); p = as_pagination cfg; sz = pg_page_size p in
      if pg_type p = PageNumber \<or> pg_type p = OffsetLimit then
        (let start = start_offset_of cfg; hint = pg_total_pages_hint p in
         if hint > 0 then
           (w, r, slices_at (\<lambda>i. if pg_type p = OffsetLimit then i64 (start + i * sz) else i64 (i + initial_page_of p)) sz hint)
         else case probe_total henv env w r cfg of (w', r', tot) \<Rightarrow>
           let fallback = [\<lparr>ps_index = (if pg_type p = OffsetLimit \<and> start > 0 then start else initial_page_of p),
             ps_size = sz, ps_cursor = []\<rparr>] in
           (case tot of
              Some t \<Rightarrow> if f64_less 0 t \<and> sz > 0 then (w', r', pages_for_total env cfg t) else (w', r', fallback)
            | None \<Rightarrow> (w', r', fallback)))
      else (w, r, [\<lparr>ps_index = 0, ps_size = sz, ps_cursor = []\<rparr>]))"

definition query_set :: "(string \<times> string list) list \<Rightarrow> string \<Rightarrow> string \<Rightarrow> (string \<times> string list) list" where
  "query_set q k v = AList.update k [v] q"

definition page_query :: "api_source_config \<Rightarrow> page_slice \<Rightarrow> (string \<times> string list) list \<Rightarrow> (string \<times> string list) list" where
  "page_query cfg page q = (let p = as_pagination cfg in
     case pg_type p of
       PageNumber \<Rightarrow> (let q1 = query_set q (or_default [] (pg_page_param p) ''page'') (format_int (ps_index page)) in
         if ps_size page > 0 then query_set q1 (or_default [] (pg_size_param p) ''page_size'') (format_int (ps_size page)) else q1)
     | OffsetLimit \<Rightarrow> (let q1 = query_set q (or_default [] (pg_page_param p) ''offset'') (format_int (ps_index page)) in
         if ps_size page > 0 then query_set q1 (or_default [] (pg_size_param p) ''limit'') (format_int (ps_size page)) else q1)
     | CursorToken \<Rightarrow> (let q1 = (if ps_cursor page \<noteq> [] then query_set q (or_default [] (pg_cursor_param p) ''cursor'') (ps_cursor page) else q) in
         if ps_size page > 0 \<and> pg_size_param p \<noteq> [] then query_set q1 (pg_size_param p) (format_int (ps_size page)) else q1)
     | _ \<Rightarrow> q)"

definition watermark_query :: "api_source_config \<Rightarrow> (string \<times> string list) list \<Rightarrow> (string \<times> string list) list" where
  "watermark_query cfg q = (case as_watermark cfg of
      Some wm \<Rightarrow> (case wc_value wm of
          Some v \<Rightarrow> if trim_space v \<noteq> [] \<and> \<not> watermark_is_offset cfg then query_set q (wc_column wm) (trim_space v) else q
        | None \<Rightarrow> q)
    | None \<Rightarrow> q)"

definition build_request_url :: "rest_env \<Rightarrow> api_source_config \<Rightarrow> page_slice \<Rightarrow> string + string" where
  "build_request_url env cfg page =
     (let base = as_base_url cfg @ as_endpoint cfg in
      case parse_url env base of
        Inl e \<Rightarrow> Inl e
      | Inr q0 \<Rightarrow> Inr (render_url env base
          (page_query cfg page (watermark_query cfg (foldl (\<lambda>q (k, v). query_set q k v) q0 (as_query_params cfg))))))"

definition page_records :: "rest_env \<Rightarrow> api_source_config \<Rightarrow> http_response \<Rightarrow> (generic_record list \<times> string option) option" where
  "page_records env cfg rs =
     (if rs_status rs < 200 \<or> rs_status rs \<ge> 300
      then Some ([], Some (''api returned status '' @ format_int (rs_status rs) @ '': '' @ rs_body rs))
      else case rs_body_err rs of
          Some e \<Rightarrow> Some ([], Some (''failed to read response body: '' @ e))
        | None \<Rightarrow> (case extract_records env (rs_body rs) (as_records_path cfg) (as_field_mapping cfg) (as_schema cfg) ''api_source'' of
              Inl e \<Rightarrow> Some ([], Some (''failed to extract records: '' @ e))
            | Inr None \<Rightarrow> None
            | Inr (Some recs) \<Rightarrow> Some (recs, None)))"

text \<open>\<^verbatim>\<open>ReadPage\<close>: what its goroutine sends on the two channels before it closes them, when the context is not cancelled
  meanwhile. The outer \<^term>\<open>None\<close> is a panic of the goroutine.\<close>

definition read_page ::
  "http_env \<Rightarrow> rest_env \<Rightarrow> http_world \<Rightarrow> rest_reader \<Rightarrow> api_source_config option \<Rightarrow> page_slice \<Rightarrow>
   http_world \<times> rest_reader \<times> (generic_record list \<times> string option) option" where
  "read_page henv env w r api_cfg page =
     (let cfg = (case api_cfg of Some c \<Rightarrow> c | None \<Rightarrow> rr_cfg r) in
      case build_request_url env cfg page of
        Inl e \<Rightarrow> (w, r, Some ([], Some (''failed to build request url: '' @ e)))
      | Inr url \<Rightarrow>
          let rq = \<lparr>rq_method = or_default [] (as_http_method cfg) ''GET'', rq_url = url, rq_headers = [], rq_body = []\<rparr> in
          (case new_request_err env (rq_method rq) url of
             Some e \<Rightarrow> (w, r, Some ([], Some (''failed to create http request: '' @ e)))
           | None \<Rightarrow>
               (case http_do henv (rr_client r) w rq of (w', c', res) \<Rightarrow>
                  (w', r\<lparr>rr_client := c'\<rparr>, (case res of Inl e \<Rightarrow> Some ([], Some (''http request error: '' @ e)) | Inr rs \<Rightarrow> page_records env cfg rs)))))"

section \<open>Records\<close>

text \<open>Every value of a record is a null of its field's type or a string.\<close>

definition value_shape :: "field \<Rightarrow> field_value \<Rightarrow> bool" where
  "value_shape f v \<longleftrightarrow> (if is_null v then fv_type v = field_type f else fv_type v = TypeString)"

definition record_shape :: "schema \<Rightarrow> string \<Rightarrow> generic_record \<Rightarrow> bool" where
  "record_shape s sid r \<longleftrightarrow> schema_id r = sid \<and> list_all2 value_shape (sch_fields s) (vals r)"

text \<open>The value a field gets.\<close>

definition json_value :: "rest_env \<Rightarrow> field \<Rightarrow> json \<Rightarrow> field_value" where
  "json_value env f v = (if v = JNull then zero_value\<lparr>fv_type := field_type f, is_null := True\<rparr>
     else zero_value\<lparr>fv_type := TypeString, str_val := json_text env v\<rparr>)"

lemma fill_step:
  assumes "i < length (vals r)"
  shows "fill_fields env mapping item i (f # fs) r =
    fill_fields env mapping item (Suc i) fs (r\<lparr>vals := (vals r)[i := json_value env f (field_json mapping item f)]\<rparr>)"
  using assms by (cases "field_json mapping item f") (simp_all add: json_value_def set_null_def set_string_def set_value_def)

lemma fill_fields_total:
  assumes "i + length fs = length (vals r)"
  shows "fill_fields env mapping item i fs r =
    Some (r\<lparr>vals := take i (vals r) @ map (\<lambda>f. json_value env f (field_json mapping item f)) fs\<rparr>)"
  using assms
proof (induction fs arbitrary: i r)
  case (Cons f fs)
  let ?v = "json_value env f (field_json mapping item f)" and ?r = "r\<lparr>vals := (vals r)[i := json_value env f (field_json mapping item f)]\<rparr>"
  have i: "i < length (vals r)" using Cons.prems by simp
  have "fill_fields env mapping item (Suc i) fs ?r =
      Some (?r\<lparr>vals := take (Suc i) (vals ?r) @ map (\<lambda>f. json_value env f (field_json mapping item f)) fs\<rparr>)"
    by (rule Cons.IH) (use Cons.prems in simp)
  moreover have "take (Suc i) ((vals r)[i := ?v]) = take i (vals r) @ [?v]"
    using i by (simp add: take_Suc_conv_app_nth)
  ultimately show ?case using fill_step [OF i, of env mapping item f fs] by simp
qed simp

definition json_record :: "rest_env \<Rightarrow> string gomap \<Rightarrow> schema \<Rightarrow> string \<Rightarrow> (string \<times> json) list \<Rightarrow> generic_record" where
  "json_record env mapping s sid m = \<lparr>schema_id = sid, vals = map (\<lambda>f. json_value env f (field_json mapping m f)) (sch_fields s), audit_fields = []\<rparr>"

fun objects_of :: "json list \<Rightarrow> (string \<times> json) list list" where
  "objects_of [] = []"
| "objects_of (JObject m # js) = m # objects_of js"
| "objects_of (_ # js) = objects_of js"

lemma records_of_total: "records_of env mapping s sid items = Some (map (json_record env mapping s sid) (objects_of items))"
proof (induction items)
  case (Cons j js)
  have "fill_fields env mapping m 0 (sch_fields s) (new_generic_record sid (length (sch_fields s))) = Some (json_record env mapping s sid m)" for m
    by (subst fill_fields_total) (simp_all add: new_generic_record_def json_record_def)
  then show ?case using Cons by (cases j) simp_all
qed simp

lemma json_record_shape: "record_shape s sid (json_record env mapping s sid m)"
  by (auto simp: record_shape_def json_record_def list_all2_conv_all_nth value_shape_def json_value_def zero_value_def)

text \<open>The outcome of a page: no panic; an error and no record; or the records of the response.\<close>

definition page_outcome :: "rest_env \<Rightarrow> api_source_config \<Rightarrow> http_response \<Rightarrow> (generic_record list \<times> string option) option \<Rightarrow> bool" where
  "page_outcome env cfg rs out \<longleftrightarrow> (case out of
      None \<Rightarrow> False
    | Some (recs, Some e) \<Rightarrow> recs = []
    | Some (recs, None) \<Rightarrow> 200 \<le> rs_status rs \<and> rs_status rs < 300 \<and>
        (\<exists>objs. recs = map (json_record env (as_field_mapping cfg) (as_schema cfg) ''api_source'') objs \<and>
          (extract_path env (rs_body rs) (as_records_path cfg) = Inr JNull \<and> objs = [] \<or>
           (\<exists>items. extract_path env (rs_body rs) (as_records_path cfg) = Inr (JArray items) \<and> objs = objects_of items))))"

lemma page_records_outcome: "page_outcome env cfg rs (page_records env cfg rs)"
  by (auto simp: page_outcome_def page_records_def extract_records_def records_of_total split: option.splits sum.splits json.splits)

lemma page_outcome_error: "page_outcome env cfg rs (Some ([], Some e))"
  by (simp add: page_outcome_def)

lemma page_outcome_shape:
  "page_outcome env cfg rs (Some (recs, None)) \<Longrightarrow> x \<in> set recs \<Longrightarrow> record_shape (as_schema cfg) ''api_source'' x"
  by (auto simp: page_outcome_def json_record_shape)

text \<open>Reading a page never writes outside a record: the reader ends with an error and no record, or, after a response with a 2xx
  status, without an error and with one record per JSON object at the records path of the body, in order, each with as many values as the
  schema has fields, every value the text of the JSON value the field's path leads to, or a null of the field's type.\<close>

lemma read_page_typed:
  "\<exists>rs out. snd (snd (read_page henv env w r cfg page)) = Some out \<and>
     (let c = (case cfg of Some c \<Rightarrow> c | None \<Rightarrow> rr_cfg r) in
      page_outcome env c rs (Some out) \<and>
      (case snd out of
         Some e \<Rightarrow> fst out = []
       | None \<Rightarrow> list_all (record_shape (as_schema c) ''api_source'') (fst out) \<and>
           (\<exists>rq. snd (snd (http_do henv (rr_client r) w rq)) = Inr rs \<and> build_request_url env c page = Inr (rq_url rq))))"
proof -
  let ?c = "case cfg of Some c \<Rightarrow> c | None \<Rightarrow> rr_cfg r"
  have fail: ?thesis if "snd (snd (read_page henv env w r cfg page)) = Some ([], Some e)" for e
    using that page_outcome_error [of env ?c _ e] by (intro exI [of _ "undefined :: http_response"] exI [of _ "([], Some e)"]) (simp add: Let_def)
  show ?thesis
  proof (cases "build_request_url env ?c page")
    case (Inl e)
    then show ?thesis by (intro fail) (simp add: read_page_def Let_def)
  next
    case (Inr url)
    let ?rq = "\<lparr>rq_method = or_default [] (as_http_method ?c) ''GET'', rq_url = url, rq_headers = [], rq_body = []\<rparr>"
    show ?thesis
    proof (cases "new_request_err env (or_default [] (as_http_method ?c) ''GET'') url")
      case (Some e)
      then show ?thesis using Inr by (intro fail) (simp add: read_page_def Let_def)
    next
      case None
      obtain w' c' res where d: "http_do henv (rr_client r) w ?rq = (w', c', res)" using prod_cases3 by blast
      show ?thesis
      proof (cases res)
        case (Inl e)
        then show ?thesis using Inr None d by (intro fail) (simp add: read_page_def Let_def)
      next
        case rs: (Inr rs)
        have eq: "snd (snd (read_page henv env w r cfg page)) = page_records env ?c rs"
          using Inr None d rs by (simp add: read_page_def Let_def)
        obtain recs e where out: "page_records env ?c rs = Some (recs, e)"
          using page_records_outcome [of env ?c rs] by (cases "page_records env ?c rs") (auto simp: page_outcome_def)
        have "page_outcome env ?c rs (Some (recs, e))" using page_records_outcome [of env ?c rs] out by simp
        moreover have "snd (snd (http_do henv (rr_client r) w ?rq)) = Inr rs" using d rs by simp
        moreover have "recs = []" if "e = Some m" for m using calculation(1) that by (simp add: page_outcome_def)
        ultimately show ?thesis using eq out Inr page_outcome_shape [of env ?c rs recs]
          by (intro exI [of _ rs] exI [of _ "(recs, e)"]) (auto simp: Let_def list_all_iff intro!: exI [of _ ?rq] split: option.splits)
      qed
    qed
  qed
qed

section \<open>The list of pages\<close>

text \<open>The first record a page asks for, by offset or by page number.\<close>

definition page_first :: "api_source_config \<Rightarrow> page_slice \<Rightarrow> int" where
  "page_first cfg s = (if pg_type (as_pagination cfg) = OffsetLimit then ps_index s
     else (ps_index s - initial_page_of (as_pagination cfg)) * ps_size s)"

definition asks_for :: "api_source_config \<Rightarrow> int \<Rightarrow> page_slice \<Rightarrow> bool" where
  "asks_for cfg k s \<longleftrightarrow> page_first cfg s \<le> k \<and> k < page_first cfg s + ps_size s"

lemma windows_once:
  assumes "0 < sz"
  shows "length (filter (\<lambda>i. a + int i * sz \<le> k \<and> k < a + int i * sz + sz) [0 ..< n]) =
    (if a \<le> k \<and> k < a + int n * sz then 1 else 0)"
proof (induction n)
  case (Suc n)
  have "k < a + int (Suc n) * sz \<longleftrightarrow> k < a + int n * sz + sz" by (simp add: algebra_simps)
  moreover have "a \<le> k" if "a + int n * sz \<le> k"
    using that mult_nonneg_nonneg [of "int n" sz] assms by linarith
  ultimately show ?case using Suc assms by (auto simp: algebra_simps)
next
  case 0
  then show ?case by auto
qed

lemma slices_at_once:
  assumes "0 < sz" "\<And>i. i < nat n \<Longrightarrow> page_first cfg \<lparr>ps_index = f (int i), ps_size = sz, ps_cursor = []\<rparr> = a + int i * sz"
  shows "length (filter (asks_for cfg k) (slices_at f sz n)) = (if a \<le> k \<and> k < a + int (nat n) * sz then 1 else 0)"
proof -
  have "length (filter (asks_for cfg k) (slices_at f sz n)) =
      length (filter (\<lambda>i. a + int i * sz \<le> k \<and> k < a + int i * sz + sz) [0 ..< nat n])"
    using assms(2) by (auto simp: slices_at_def filter_map comp_def asks_for_def intro!: arg_cong [of _ _ length] filter_cong)
  then show ?thesis using windows_once [OF assms(1)] by simp
qed

text \<open>The total stands for the number \<open>n\<close> of records, and the quotient of the float division is exact.\<close>

definition exact_total :: "rest_env \<Rightarrow> api_source_config \<Rightarrow> u64 \<Rightarrow> int \<Rightarrow> bool" where
  "exact_total env cfg t n \<longleftrightarrow> (let start = start_offset_of cfg; sz = pg_page_size (as_pagination cfg);
       q = ceil_div env (if start > 0 then float_sub env t (float_of_int env start) else t) (float_of_int env sz) in
     f64_less 0 t \<and> f64_less (float_of_int env start) t = (start < n) \<and>
     (start < n \<longrightarrow> 0 < q \<and> (q - 1) * sz < n - start \<and> n - start \<le> q * sz \<and> start + q * sz < 2 ^ 63))"

lemma start_offset_facts: "0 \<le> start_offset_of cfg" "pg_type (as_pagination cfg) \<noteq> OffsetLimit \<Longrightarrow> start_offset_of cfg = 0"
  by (simp_all add: start_offset_of_def split: option.splits)

text \<open>The index of the \<open>i\<close>-th page, and the number of pages: the quotient in floating point.\<close>

definition page_index :: "api_source_config \<Rightarrow> int \<Rightarrow> int" where
  "page_index cfg i = (let p = as_pagination cfg in
     if pg_type p = OffsetLimit then i64 (start_offset_of cfg + i * pg_page_size p) else i64 (i + initial_page_of p))"

definition page_quotient :: "rest_env \<Rightarrow> api_source_config \<Rightarrow> u64 \<Rightarrow> int" where
  "page_quotient env cfg t = (let start = start_offset_of cfg in
     ceil_div env (if start > 0 then float_sub env t (float_of_int env start) else t) (float_of_int env (pg_page_size (as_pagination cfg))))"

lemma pages_for_total_slices:
  assumes "f64_less (float_of_int env (start_offset_of cfg)) t"
  shows "pages_for_total env cfg t = slices_at (page_index cfg) (pg_page_size (as_pagination cfg)) (page_quotient env cfg t)"
proof (cases "start_offset_of cfg > 0")
  case True
  then have "pg_type (as_pagination cfg) = OffsetLimit" using start_offset_facts(2) [of cfg] by fastforce
  then show ?thesis using True assms by (simp add: pages_for_total_def page_quotient_def page_index_def [abs_def] Let_def)
next
  case False
  then have "start_offset_of cfg = 0" using start_offset_facts(1) [of cfg] by simp
  then show ?thesis by (simp add: pages_for_total_def page_quotient_def page_index_def [abs_def] Let_def cong: if_cong)
qed

lemma page_first_at:
  assumes "0 < pg_page_size (as_pagination cfg)" "0 \<le> initial_page_of (as_pagination cfg)" "initial_page_of (as_pagination cfg) < 2 ^ 31" "n < 2 ^ 31"
    and "(q - 1) * pg_page_size (as_pagination cfg) < n - start_offset_of cfg" "0 \<le> i" "i < q"
  shows "page_first cfg \<lparr>ps_index = page_index cfg i, ps_size = pg_page_size (as_pagination cfg), ps_cursor = []\<rparr> =
      start_offset_of cfg + i * pg_page_size (as_pagination cfg)"
    "start_offset_of cfg + i * pg_page_size (as_pagination cfg) < n"
proof -
  let ?p = "as_pagination cfg" and ?start = "start_offset_of cfg" and ?sz = "pg_page_size (as_pagination cfg)"
  have m: "i * ?sz \<le> (q - 1) * ?sz" "q - 1 \<le> (q - 1) * ?sz" "0 \<le> i * ?sz"
    using assms(1,6,7) mult_right_mono [of i "q - 1" ?sz] mult_left_mono [of 1 ?sz "q - 1"] by simp_all
  then show "?start + i * ?sz < n" using assms(5) by linarith
  have nums: "n < 2147483648" "initial_page_of ?p < 2147483648" using assms(3,4) by simp_all
  have "in_i64 (?start + i * ?sz)" using m assms(5) nums start_offset_facts(1) [of cfg] by (intro in_i64I) linarith+
  moreover have "in_i64 (i + initial_page_of ?p)" using m assms(2,5-7) nums start_offset_facts(1) [of cfg] by (intro in_i64I) linarith+
  ultimately show "page_first cfg \<lparr>ps_index = page_index cfg i, ps_size = ?sz, ps_cursor = []\<rparr> = ?start + i * ?sz"
    using start_offset_facts(2) [of cfg] by (simp add: page_first_def page_index_def i64_id Let_def)
qed


text \<open>A service of 25 records read by offset, ten at a time; small integers stand for the floats.\<close>

definition sample_rest_env :: rest_env where
  "sample_rest_env = \<lparr>unmarshal = (\<lambda>s. Inr (JObject [(''total'', JNumber 25)])), json_text = (\<lambda>j. []), parse_url = (\<lambda>u. Inr []),
     render_url = (\<lambda>u q. u), new_request_err = (\<lambda>m u. None), float_of_int = word_of_int, float_sub = (\<lambda>a b. a - b),
     ceil_div = (\<lambda>a b. (uint a + uint b - 1) div uint b), float_parse = (\<lambda>s. None)\<rparr>"

definition counted_api :: api_source_config where
  "counted_api = sample_api\<lparr>as_pagination := (as_pagination sample_api)\<lparr>pg_total_count_path := ''total''\<rparr>\<rparr>"

definition sample_reader :: rest_reader where
  "sample_reader = \<lparr>rr_client = (new_http_client 0 sample_api [])\<lparr>hc_cb := None\<rparr>, rr_cfg = counted_api\<rparr>"


section \<open>What is lost\<close>

text \<open>
  Cursor and link pagination: the list of pages is one page without a cursor, and nothing reads the cursor or the link of a response,
  so only the first page of such a service is read. And a JSON number of a million or more is written by the verb \<^verbatim>\<open>%v\<close> with an
  exponent, which the integer parser of the validation stage refuses.
\<close>

lemma cursor_sources_read_one_page:
  "pg_type (as_pagination cfg) = CursorToken \<or> pg_type (as_pagination cfg) = LinkHeader \<Longrightarrow>
   estimate_pages henv env w r (Some cfg) = (w, r, [\<lparr>ps_index = 0, ps_size = pg_page_size (as_pagination cfg), ps_cursor = []\<rparr>])"
  by (auto simp: estimate_pages_def Let_def)

lemma exponent_text_is_no_integer: "parse_int64 ''1.234567e+06'' = Inl ErrInvalidInt"
  by code_simp

end
