(* ===== verification/Formats.thy ===== *)
theory Formats
  imports Csv BigQuery Stream_Sink Rest_Source
begin

text \<open>
  The file formats: \<^verbatim>\<open>internal/adapters/streams/formatters\<close>, \<^verbatim>\<open>parsers\<close> and \<^verbatim>\<open>codecs\<close>. The package \<^verbatim>\<open>encoding/csv\<close> is in
  theory \<^verbatim>\<open>Csv\<close>; \<^verbatim>\<open>encoding/json\<close>, the compressors, the decompressors and the character sets are arguments. The
  properties show that the CSV parser reads back the text of the values the CSV formatter wrote, and that tab separated
  files lose their empty columns; the lemmas show that every record of a parser has the shape of its schema.
\<close>

section \<open>CSV formatter (csv_formatter.go)\<close>

record csv_formatter =
  cf_delimiter :: char
  cf_include_header :: bool
  cf_line_terminator :: string

definition new_csv_formatter :: "format_options \<Rightarrow> csv_formatter" where
  "new_csv_formatter opts = \<lparr>cf_delimiter = (case fo_delimiter opts of [] \<Rightarrow> CHR '','' | c # _ \<Rightarrow> c),
     cf_include_header = fo_include_header opts,
     cf_line_terminator = (if fo_line_terminator opts \<noteq> [] then fo_line_terminator opts else [line_feed])\<rparr>"

definition format_row :: "csv_formatter \<Rightarrow> string list \<Rightarrow> string + string" where
  "format_row f cols = (case csv_write (cf_delimiter f) cols of
      Inl e \<Rightarrow> Inl e
    | Inr text \<Rightarrow> Inr (trim_right_set {carriage, line_feed} text @ cf_line_terminator f))"

definition csv_format_header :: "csv_formatter \<Rightarrow> schema option \<Rightarrow> string + string" where
  "csv_format_header f s = (case s of
      None \<Rightarrow> Inr []
    | Some sch \<Rightarrow> if \<not> cf_include_header f \<or> sch_fields sch = [] then Inr [] else format_row f (map field_name (sch_fields sch)))"

definition csv_value :: "go_env \<Rightarrow> generic_record \<Rightarrow> nat \<Rightarrow> string" where
  "csv_value env rec i = (case rec_get rec (int i) of None \<Rightarrow> [] | Some v \<Rightarrow> if is_null v then [] else fv_string env v)"

definition csv_format_record :: "go_env \<Rightarrow> csv_formatter \<Rightarrow> generic_record option \<Rightarrow> schema option \<Rightarrow> string + string" where
  "csv_format_record env f rec s = (case (rec, s) of
      (Some r, Some sch) \<Rightarrow> format_row f (map (csv_value env r) [0..<length (sch_fields sch)])
    | _ \<Rightarrow> Inl ''record and schema are required'')"

section \<open>JSON lines formatter (jsonl_formatter.go)\<close>

definition jsonl_format_header :: "schema option \<Rightarrow> string + string" where
  "jsonl_format_header s = Inr []"

definition jsonl_member :: "go_env \<Rightarrow> json_env \<Rightarrow> generic_record \<Rightarrow> nat \<Rightarrow> field \<Rightarrow> string" where
  "jsonl_member env je rec i f = (if i > 0 then '','' else []) @ [quote] @ field_name f @ [quote] @ '':'' @
     (case rec_get rec (int i) of None \<Rightarrow> ''null'' | Some v \<Rightarrow> if is_null v then ''null'' else write_json env je v)"

definition jsonl_format_record :: "go_env \<Rightarrow> json_env \<Rightarrow> generic_record option \<Rightarrow> schema option \<Rightarrow> string + string" where
  "jsonl_format_record env je rec s = (case (rec, s) of
      (Some r, Some sch) \<Rightarrow> Inr (''{'' @ concat (map (\<lambda>(i, f). jsonl_member env je r i f) (enumerate 0 (sch_fields sch))) @ ''}'' @ [line_feed])
    | _ \<Rightarrow> Inl ''record and schema are required'')"

section \<open>Registry of formatters (formatters/registry.go)\<close>

datatype record_formatter = CSVFormatter csv_formatter | JSONLFormatter

type_synonym formatter_factory = "format_options \<Rightarrow> record_formatter"

definition clean_name :: "string \<Rightarrow> string" where
  "clean_name s = to_lower (trim_space s)"

definition register_formatter :: "formatter_factory gomap \<Rightarrow> string \<Rightarrow> formatter_factory \<Rightarrow> formatter_factory gomap" where
  "register_formatter reg name fac = gm_set reg (clean_name name) fac"

definition supported_formats :: "'v gomap \<Rightarrow> string list" where
  "supported_formats reg = sort (filter (\<lambda>f. f \<noteq> []) (map fst reg))"

datatype registry_error = UnsupportedFormat string "string list"

definition build_formatter :: "formatter_factory gomap \<Rightarrow> string \<Rightarrow> format_options \<Rightarrow> registry_error + record_formatter" where
  "build_formatter reg name opts = (case map_of reg (clean_name name) of
      None \<Rightarrow> Inl (UnsupportedFormat name (supported_formats reg))
    | Some fac \<Rightarrow> Inr (fac opts))"

definition csv_factory :: formatter_factory where
  "csv_factory opts = CSVFormatter (new_csv_formatter opts)"

definition jsonl_factory :: formatter_factory where
  "jsonl_factory opts = JSONLFormatter"

definition tsv_factory :: formatter_factory where
  "tsv_factory opts = CSVFormatter (new_csv_formatter (opts\<lparr>fo_delimiter := [CHR 0x09]\<rparr>))"

definition formatter_registry :: "formatter_factory gomap" where
  "formatter_registry = foldl (\<lambda>reg (name, fac). register_formatter reg name fac) []
     [([], jsonl_factory), (''csv'', csv_factory), (''txt'', csv_factory), (''tsv'', tsv_factory),
      (''json'', jsonl_factory), (''jsonl'', jsonl_factory), (''jsonlines'', jsonl_factory)]"

text \<open>A formatter with the schema of a sink applied, as the file sink uses it.\<close>

definition sink_formatter :: "go_env \<Rightarrow> json_env \<Rightarrow> record_formatter \<Rightarrow> schema \<Rightarrow> generic_record formatter" where
  "sink_formatter env je rf s = (case rf of
      CSVFormatter f \<Rightarrow> \<lparr>fm_header = csv_format_header f (Some s), fm_record = (\<lambda>r. csv_format_record env f (Some r) (Some s))\<rparr>
    | JSONLFormatter \<Rightarrow> \<lparr>fm_header = jsonl_format_header (Some s), fm_record = (\<lambda>r. jsonl_format_record env je (Some r) (Some s))\<rparr>)"

section \<open>CSV parser (csv_parser.go)\<close>

record csv_parser =
  cp_delimiter :: string
  cp_has_header :: bool

definition new_csv_parser :: "string \<Rightarrow> bool \<Rightarrow> csv_parser" where
  "new_csv_parser delim header = \<lparr>cp_delimiter = (if delim = [] then '','' else delim), cp_has_header = header\<rparr>"

definition parser_comma :: "csv_parser \<Rightarrow> char" where
  "parser_comma p = (case cp_delimiter p of [] \<Rightarrow> CHR '','' | c # _ \<Rightarrow> c)"

text \<open>\<^verbatim>\<open>strings.EqualFold\<close>, folding the ASCII letters.\<close>

definition equal_fold :: "string \<Rightarrow> string \<Rightarrow> bool" where
  "equal_fold s t \<longleftrightarrow> to_lower s = to_lower t"

definition header_row :: "schema \<Rightarrow> string list \<Rightarrow> bool" where
  "header_row sch row = (case (row, sch_fields sch) of (c # _, f # _) \<Rightarrow> equal_fold (trim_space c) (field_name f) | _ \<Rightarrow> False)"

text \<open>The loop over the fields of a record; \<^term>\<open>None\<close> is a write past the end of the values.\<close>

fun csv_fill :: "string list \<Rightarrow> nat \<Rightarrow> field list \<Rightarrow> generic_record \<Rightarrow> generic_record option" where
  "csv_fill row i [] rec = Some rec"
| "csv_fill row i (f # fs) rec =
     (case (if i \<ge> length row then set_null rec i (field_type f)
            else let s = trim_space (row ! i) in if s = [] then set_null rec i (field_type f) else set_string rec i s) of
        None \<Rightarrow> None | Some rec' \<Rightarrow> csv_fill row (Suc i) fs rec')"

definition csv_record :: "schema \<Rightarrow> string \<Rightarrow> string list \<Rightarrow> generic_record option" where
  "csv_record sch src row = (case csv_fill row 0 (sch_fields sch) (new_generic_record src (length (sch_fields sch))) of
      None \<Rightarrow> None | Some rec \<Rightarrow> Some (rec\<lparr>audit_fields := gm_set (audit_fields rec) ''_source_file'' src\<rparr>))"

text \<open>The goroutine: \<open>ctx n\<close> is the error of the context at iteration \<open>n\<close>. The result is the records sent and the error
  sent last, if any.\<close>

function csv_loop ::
  "(nat \<Rightarrow> string option) \<Rightarrow> char \<Rightarrow> bool \<Rightarrow> schema \<Rightarrow> string \<Rightarrow> nat \<Rightarrow> bool \<Rightarrow> string \<Rightarrow> (generic_record list \<times> string option) option" where
  "csv_loop ctx d header sch src n first s =
     (case ctx n of Some e \<Rightarrow> Some ([], Some e)
      | None \<Rightarrow>
          if \<not> valid_delim d then Some ([], Some (''csv read error in '' @ src @ '': csv: invalid field or comment delimiter''))
          else (case csv_read d s of
              None \<Rightarrow> Some ([], None)
            | Some (row, rest) \<Rightarrow>
                if first \<and> header \<and> header_row sch row then csv_loop ctx d header sch src (Suc n) False rest
                else (case csv_record sch src row of
                    None \<Rightarrow> None
                  | Some rec \<Rightarrow> (case csv_loop ctx d header sch src (Suc n) False rest of
                        None \<Rightarrow> None | Some (recs, e) \<Rightarrow> Some (rec # recs, e)))))"
  by pat_completeness auto
termination
  by (relation "measure (\<lambda>(ctx, d, header, sch, src, n, first, s). length s)") (auto dest: csv_read_length)

declare csv_loop.simps [simp del]

definition csv_decode :: "(nat \<Rightarrow> string option) \<Rightarrow> csv_parser \<Rightarrow> schema \<Rightarrow> string \<Rightarrow> string \<Rightarrow> (generic_record list \<times> string option) option" where
  "csv_decode ctx p sch src s = csv_loop ctx (parser_comma p) (cp_has_header p) sch src 0 True s"

section \<open>JSON lines parser (jsonl_parser.go)\<close>

text \<open>What unmarshalling into a \<^verbatim>\<open>map[string]any\<close> gives: the members of an object, no entries for null, and an error for
  any other value.\<close>

definition row_map :: "json \<Rightarrow> string + json gomap" where
  "row_map v = (case v of JObject m \<Rightarrow> Inr m | JNull \<Rightarrow> Inr [] | _ \<Rightarrow> Inl ''json: cannot unmarshal into Go value of type map[string]interface {}'')"

definition json_set :: "rest_env \<Rightarrow> json \<Rightarrow> generic_record \<Rightarrow> nat \<Rightarrow> field \<Rightarrow> generic_record option" where
  "json_set env v rec i f = (case v of
      JNull \<Rightarrow> set_null rec i (field_type f)
    | JString s \<Rightarrow> set_string rec i s
    | JNumber x \<Rightarrow> set_float64 rec i x
    | JBool b \<Rightarrow> set_bool rec i b
    | _ \<Rightarrow> set_string rec i (json_text env v))"

fun json_fill :: "rest_env \<Rightarrow> json gomap \<Rightarrow> nat \<Rightarrow> field list \<Rightarrow> generic_record \<Rightarrow> generic_record option" where
  "json_fill env m i [] rec = Some rec"
| "json_fill env m i (f # fs) rec =
     (case json_set env (case map_of m (field_name f) of None \<Rightarrow> JNull | Some v \<Rightarrow> v) rec i f of
        None \<Rightarrow> None | Some rec' \<Rightarrow> json_fill env m (Suc i) fs rec')"

definition map_to_generic_record :: "rest_env \<Rightarrow> json gomap \<Rightarrow> schema \<Rightarrow> string \<Rightarrow> generic_record option" where
  "map_to_generic_record env m sch src = (case json_fill env m 0 (sch_fields sch) (new_generic_record src (length (sch_fields sch))) of
      None \<Rightarrow> None | Some rec \<Rightarrow> Some (rec\<lparr>audit_fields := gm_set (audit_fields rec) ''_source_file'' src\<rparr>))"

text \<open>\<^verbatim>\<open>bufio.ScanLines\<close> with a limit on the length of a line; the second component is the error of the scanner.\<close>

definition scan_limit :: nat where "scan_limit = 64 * 1024 * 1024"

function scan_lines :: "nat \<Rightarrow> string \<Rightarrow> string list \<times> string option" where
  "scan_lines limit s = (if s = [] then ([], None)
     else let line = takeWhile (\<lambda>c. c \<noteq> line_feed) s in
       if length line \<ge> limit then ([], Some ''bufio.Scanner: token too long'')
       else (case scan_lines limit (drop (Suc (length line)) s) of (ls, e) \<Rightarrow> (drop_carriage line # ls, e)))"
  by pat_completeness auto
termination
  by (relation "measure (\<lambda>(limit, s). length s)") auto

declare scan_lines.simps [simp del]

text \<open>What the goroutine sends, in order: a record waits for room, an error is dropped when the buffer is full.\<close>

fun jsonl_lines :: "rest_env \<Rightarrow> (nat \<Rightarrow> string option) \<Rightarrow> schema \<Rightarrow> string \<Rightarrow> nat \<Rightarrow> string list \<Rightarrow> string option \<Rightarrow> (string + generic_record) list option" where
  "jsonl_lines env ctx sch src n [] err = Some (case err of None \<Rightarrow> [] | Some e \<Rightarrow> [Inl (''scanner error in '' @ src @ '': '' @ e)])"
| "jsonl_lines env ctx sch src n (l # ls) err =
     (case ctx n of Some e \<Rightarrow> Some [Inl e]
      | None \<Rightarrow>
          if trim_space l = [] then jsonl_lines env ctx sch src (Suc n) ls err
          else (case (case unmarshal env (trim_space l) of Inl e \<Rightarrow> Inl e | Inr v \<Rightarrow> row_map v) of
              Inl e \<Rightarrow> map_option (\<lambda>out. Inl (''json parse error in '' @ src @ '': '' @ e) # out) (jsonl_lines env ctx sch src (Suc n) ls err)
            | Inr m \<Rightarrow> (case map_to_generic_record env m sch src of
                  None \<Rightarrow> None
                | Some rec \<Rightarrow> map_option (\<lambda>out. Inr rec # out) (jsonl_lines env ctx sch src (Suc n) ls err))))"

text \<open>A stream decoder of the JSON library inside an array: whether there is another element, and the decoding of one.\<close>

record 'j json_decoder =
  jd_more :: "'j \<Rightarrow> bool"
  jd_decode :: "'j \<Rightarrow> 'j \<times> (string + json)"

text \<open>The loop over an array; \<^term>\<open>None\<close> when the fuel is not enough.\<close>

fun jsonl_array ::
  "rest_env \<Rightarrow> 'j json_decoder \<Rightarrow> (nat \<Rightarrow> string option) \<Rightarrow> schema \<Rightarrow> string \<Rightarrow> nat \<Rightarrow> nat \<Rightarrow> 'j \<Rightarrow> (string + generic_record) list option" where
  "jsonl_array env jd ctx sch src 0 n j = None"
| "jsonl_array env jd ctx sch src (Suc fuel) n j =
     (if \<not> jd_more jd j then Some []
      else case ctx n of Some e \<Rightarrow> Some [Inl e]
      | None \<Rightarrow>
          (case jd_decode jd j of (j', r) \<Rightarrow>
             (case (case r of Inl e \<Rightarrow> Inl e | Inr v \<Rightarrow> row_map v) of
                Inl e \<Rightarrow> map_option (\<lambda>out. Inl (''json decode error in '' @ src @ '': '' @ e) # out) (jsonl_array env jd ctx sch src fuel (Suc n) j')
              | Inr m \<Rightarrow> (case map_to_generic_record env m sch src of
                    None \<Rightarrow> None
                  | Some rec \<Rightarrow> map_option (\<lambda>out. Inr rec # out) (jsonl_array env jd ctx sch src fuel (Suc n) j')))))"

definition json_blank :: "char \<Rightarrow> bool" where
  "json_blank c \<longleftrightarrow> c = CHR '' '' \<or> c = CHR 0x09 \<or> c = carriage \<or> c = line_feed"

text \<open>\<^verbatim>\<open>Decode\<close>: \<open>open_array\<close> reads the opening bracket of the rest of the text.\<close>

definition jsonl_decode ::
  "rest_env \<Rightarrow> 'j json_decoder \<Rightarrow> (string \<Rightarrow> string + 'j) \<Rightarrow> nat \<Rightarrow> (nat \<Rightarrow> string option) \<Rightarrow> schema \<Rightarrow> string \<Rightarrow> string \<Rightarrow> (string + generic_record) list option" where
  "jsonl_decode env jd open_array fuel ctx sch src s =
     (case dropWhile json_blank s of
        [] \<Rightarrow> Some []
      | c # rest \<Rightarrow>
          if c = CHR ''['' then
            (case open_array (c # rest) of Inl e \<Rightarrow> Some [Inl (''invalid json array start in '' @ src @ '': '' @ e)]
             | Inr j \<Rightarrow> jsonl_array env jd ctx sch src fuel 0 j)
          else (case scan_lines scan_limit (c # rest) of (ls, err) \<Rightarrow> jsonl_lines env ctx sch src 0 ls err))"

section \<open>Registry of parsers (parsers/registry.go)\<close>

datatype stream_decoder = CSVParser csv_parser | JSONLParser

type_synonym decoder_factory = "source_config option \<Rightarrow> stream_decoder"

definition register_decoder :: "decoder_factory gomap \<Rightarrow> string \<Rightarrow> decoder_factory \<Rightarrow> decoder_factory gomap" where
  "register_decoder reg name fac = gm_set reg (clean_name name) fac"

definition build_decoder :: "decoder_factory gomap \<Rightarrow> string \<Rightarrow> source_config option \<Rightarrow> registry_error + stream_decoder" where
  "build_decoder reg name cfg = (case map_of reg (clean_name name) of
      None \<Rightarrow> Inl (UnsupportedFormat name (supported_formats reg))
    | Some fac \<Rightarrow> Inr (fac cfg))"

definition csv_decoder_factory :: decoder_factory where
  "csv_decoder_factory cfg = CSVParser (new_csv_parser (case cfg of Some c \<Rightarrow> if so_delimiter c \<noteq> [] then so_delimiter c else '','' | None \<Rightarrow> '','') True)"

definition decoder_registry :: "decoder_factory gomap" where
  "decoder_registry = foldl (\<lambda>reg (name, fac). register_decoder reg name fac) []
     [([], csv_decoder_factory), (''csv'', csv_decoder_factory), (''txt'', csv_decoder_factory),
      (''tsv'', \<lambda>_. CSVParser (new_csv_parser [CHR 0x09] True)),
      (''json'', \<lambda>_. JSONLParser), (''jsonl'', \<lambda>_. JSONLParser), (''jsonlines'', \<lambda>_. JSONLParser)]"

definition pipeline_build_decoder :: "source_config option \<Rightarrow> registry_error + stream_decoder" where
  "pipeline_build_decoder cfg = build_decoder decoder_registry (case cfg of Some c \<Rightarrow> so_format c | None \<Rightarrow> []) cfg"

section \<open>Codecs (codecs/pipeline_builder.go, compression, charsets)\<close>

text \<open>The libraries: a reader wrapped by a decompressor or a decoder of a character set, and the layers of the
  compressors.\<close>

record ('r, 'l) codec_lib =
  cl_gunzip :: "'r \<Rightarrow> string + 'r"
  cl_unzstd :: "'r \<Rightarrow> string + 'r"
  cl_unsnappy :: "'r \<Rightarrow> 'r"
  cl_bunzip2 :: "'r \<Rightarrow> 'r"
  cl_latin1 :: "'r \<Rightarrow> 'r"
  cl_windows1252 :: "'r \<Rightarrow> 'r"
  cl_utf16le :: "'r \<Rightarrow> 'r"
  cl_utf16be :: "'r \<Rightarrow> 'r"
  cl_gzip :: "'l stream_layer"
  cl_zstd :: "'l stream_layer"
  cl_snappy :: "'l stream_layer"

definition wrap_decompressor :: "go_env \<Rightarrow> ('r, 'l) codec_lib \<Rightarrow> 'r \<Rightarrow> string \<Rightarrow> string + 'r" where
  "wrap_decompressor env lib r ty =
     (let c = clean_name ty in
      if c = [] \<or> c = ''none'' then Inr r
      else if c = ''gzip'' \<or> c = ''gz'' then (case cl_gunzip lib r of Inl e \<Rightarrow> Inl (''failed to reset gzip reader: '' @ e) | Inr x \<Rightarrow> Inr x)
      else if c = ''zstd'' then (case cl_unzstd lib r of Inl e \<Rightarrow> Inl (''failed to reset zstd reader: '' @ e) | Inr x \<Rightarrow> Inr x)
      else if c = ''snappy'' \<or> c = ''sz'' then Inr (cl_unsnappy lib r)
      else if c = ''bzip2'' \<or> c = ''bz2'' then Inr (cl_bunzip2 lib r)
      else Inl (''unsupported compression format: '' @ go_quote env ty @ '' (supported: gzip, zstd, snappy, bzip2, none)''))"

definition wrap_normalizer :: "('r, 'l) codec_lib \<Rightarrow> 'r \<Rightarrow> string \<Rightarrow> string + 'r" where
  "wrap_normalizer lib r cs =
     (let c = clean_name cs in
      if c = [] \<or> c = ''utf-8'' \<or> c = ''utf8'' then Inr r
      else if c = ''iso-8859-1'' \<or> c = ''latin1'' \<or> c = ''latin-1'' then Inr (cl_latin1 lib r)
      else if c = ''windows-1252'' \<or> c = ''cp1252'' then Inr (cl_windows1252 lib r)
      else if c = ''utf-16le'' then Inr (cl_utf16le lib r)
      else if c = ''utf-16be'' then Inr (cl_utf16be lib r)
      else Inl (''unsupported charset: '' @ cs))"

text \<open>\<^verbatim>\<open>WrapStream\<close>; the first argument is the decryptor applied to its key reference, when both are set.\<close>

definition wrap_stream :: "go_env \<Rightarrow> ('r, 'l) codec_lib \<Rightarrow> ('r \<Rightarrow> string + 'r) option \<Rightarrow> 'r \<Rightarrow> source_config \<Rightarrow> string + 'r" where
  "wrap_stream env lib decryptor r cfg =
     (case (case decryptor of None \<Rightarrow> Inr r | Some f \<Rightarrow> f r) of
        Inl e \<Rightarrow> Inl (''failed to apply stream decryption: '' @ e)
      | Inr r1 \<Rightarrow>
          (case wrap_decompressor env lib r1 (so_compression cfg) of
             Inl e \<Rightarrow> Inl (''failed to apply decompression: '' @ e)
           | Inr r2 \<Rightarrow> (case wrap_normalizer lib r2 (so_charset cfg) of
                 Inl e \<Rightarrow> Inl (''failed to apply charset normalizer: '' @ e) | Inr r3 \<Rightarrow> Inr r3)))"

definition wrap_compressor :: "go_env \<Rightarrow> ('r, 'l) codec_lib \<Rightarrow> string \<Rightarrow> string + 'l stream_layer option" where
  "wrap_compressor env lib ty =
     (let c = clean_name ty in
      if c = [] \<or> c = ''none'' then Inr None
      else if c = ''gzip'' \<or> c = ''gz'' then Inr (Some (cl_gzip lib))
      else if c = ''zstd'' then Inr (Some (cl_zstd lib))
      else if c = ''snappy'' \<or> c = ''sz'' then Inr (Some (cl_snappy lib))
      else Inl (''unsupported output compression format: '' @ go_quote env ty @ '' (supported: gzip, zstd, snappy, none)''))"

section \<open>Records of the CSV parser\<close>

text \<open>What becomes of the text of a column.\<close>

definition read_cell :: "field \<Rightarrow> string \<Rightarrow> field_value" where
  "read_cell f txt = (if trim_space txt = [] then zero_value\<lparr>fv_type := field_type f, is_null := True\<rparr>
     else zero_value\<lparr>fv_type := TypeString, str_val := trim_space txt\<rparr>)"

definition row_text :: "string list \<Rightarrow> nat \<Rightarrow> string" where
  "row_text row i = (if i < length row then row ! i else [])"

lemma csv_fill_values:
  assumes "i + length fs = length (vals rec)"
  shows "\<exists>rec'. csv_fill row i fs rec = Some rec' \<and> audit_fields rec' = audit_fields rec \<and>
    vals rec' = take i (vals rec) @ map (\<lambda>(j, f). read_cell f (row_text row j)) (enumerate i fs)"
  using assms
proof (induction fs arbitrary: i rec)
  case (Cons f fs)
  let ?v = "read_cell f (row_text row i)"
  have "(if i \<ge> length row then set_null rec i (field_type f)
      else let s = trim_space (row ! i) in if s = [] then set_null rec i (field_type f) else set_string rec i s) = set_value rec i ?v"
    by (auto simp: set_null_def set_string_def read_cell_def row_text_def Let_def)
  moreover have "set_value rec i ?v = Some (rec\<lparr>vals := (vals rec)[i := ?v]\<rparr>)" using Cons.prems by (simp add: set_value_def)
  ultimately show ?case using Cons.IH [of "Suc i" "rec\<lparr>vals := (vals rec)[i := ?v]\<rparr>"] Cons.prems
    by (auto simp: take_Suc_conv_app_nth)
qed simp

lemma csv_record_values:
  "\<exists>rec. csv_record sch src row = Some rec \<and> vals rec = map (\<lambda>(i, f). read_cell f (row_text row i)) (enumerate 0 (sch_fields sch)) \<and>
    audit_fields rec = [(''_source_file'', src)]"
  using csv_fill_values [of 0 "sch_fields sch" "new_generic_record src (length (sch_fields sch))" row]
  by (auto simp: csv_record_def new_generic_record_def gm_set_def)

text \<open>Without cancellation the parser sends a record for every row but the header.\<close>

definition data_rows :: "bool \<Rightarrow> schema \<Rightarrow> string list list \<Rightarrow> string list list" where
  "data_rows header sch rows = (case rows of [] \<Rightarrow> [] | row # rest \<Rightarrow> if header \<and> header_row sch row then rest else rows)"

lemma csv_loop_rows:
  assumes "valid_delim d"
  shows "csv_loop (\<lambda>_. None) d header sch src n first s =
    Some (map (\<lambda>row. the (csv_record sch src row)) (if first then data_rows header sch (csv_rows d s) else csv_rows d s), None)"
proof (induction s arbitrary: n first rule: length_induct)
  case (1 s)
  show ?case
  proof (cases "csv_read d s")
    case None
    then show ?thesis using assms by (simp add: csv_loop.simps [where s = s] csv_rows.simps [of d s] data_rows_def)
  next
    case (Some rr)
    obtain row rest where rr: "rr = (row, rest)" by fastforce
    have IH: "csv_loop (\<lambda>_. None) d header sch src m False rest = Some (map (\<lambda>row. the (csv_record sch src row)) (csv_rows d rest), None)" for m
      using 1 csv_read_length Some rr by auto
    obtain rec where "csv_record sch src row = Some rec" using csv_record_values by blast
    then show ?thesis using Some rr assms IH
      by (cases header) (simp_all add: csv_loop.simps [where s = s] csv_rows.simps [of d s] data_rows_def)
  qed
qed

section \<open>Text of the CSV formatter\<close>

lemma csv_field_last: "csv_field d f \<noteq> [] \<Longrightarrow> last (csv_field d f) \<notin> {carriage, line_feed}"
  by (cases f rule: rev_cases) (auto simp: csv_field_def field_needs_quotes_def)

lemma csv_text_last:
  assumes "plain_delim d" "join [d] (map (csv_field d) row) \<noteq> []"
  shows "last (join [d] (map (csv_field d) row)) \<notin> {carriage, line_feed}"
  using assms(2)
proof (induction row rule: induct_list012)
  case (3 f g fs)
  have "last (d # join [d] (map (csv_field d) (g # fs))) \<notin> {carriage, line_feed}"
    using 3 plain_delim_not [OF assms(1)] by (cases "join [d] (map (csv_field d) (g # fs)) = []") auto
  then show ?case by simp
qed (use csv_field_last in auto)

lemma format_row_text:
  assumes "plain_delim (cf_delimiter f)"
  shows "format_row f cols = Inr (join [cf_delimiter f] (map (csv_field (cf_delimiter f)) cols) @ cf_line_terminator f)"
proof -
  let ?t = "join [cf_delimiter f] (map (csv_field (cf_delimiter f)) cols)"
  have "trim_right_set {carriage, line_feed} (?t @ [line_feed]) = ?t"
    using csv_text_last [OF assms, of cols] by (cases ?t rule: rev_cases) (auto simp: trim_right_set_def)
  then show ?thesis
    by (simp add: format_row_def csv_write_def plain_delim_valid [OF assms] plain_delim_bytes [OF assms])
qed

section \<open>Properties\<close>

lemma header_row_names:
  assumes "sch_fields sch = fld # flds" "trim_space (field_name fld) = field_name fld"
  shows "header_row sch (map field_name (sch_fields sch))"
  using assms by (simp add: header_row_def equal_fold_def)

definition csv_columns :: "go_env \<Rightarrow> schema \<Rightarrow> generic_record \<Rightarrow> string list" where
  "csv_columns env sch rec = map (csv_value env rec) [0..<length (sch_fields sch)]"

text \<open>The text of a file with a header, and what the parser makes of it.\<close>

lemma csv_text_decoded:
  assumes f: "plain_delim (cf_delimiter f)" "line_end (cf_line_terminator f)" "cf_include_header f"
    and p: "parser_comma p = cf_delimiter f" "cp_has_header p"
    and sch: "sch_fields sch = fld # flds" "trim_space (field_name fld) = field_name fld" "row_ok (map field_name (sch_fields sch))"
    and rows: "list_all (\<lambda>rec. row_ok (csv_columns env sch rec)) recs"
  shows "csv_decode (\<lambda>_. None) p sch src (concat (projr (csv_format_header f (Some sch)) # map (\<lambda>r. projr (csv_format_record env f (Some r) (Some sch))) recs)) =
    Some (map (\<lambda>r. the (csv_record sch src (csv_columns env sch r))) recs, None)"
proof -
  let ?d = "cf_delimiter f"
  let ?rows = "map field_name (sch_fields sch) # map (csv_columns env sch) recs"
  have t: "projr (csv_format_header f (Some sch)) # map (\<lambda>r. projr (csv_format_record env f (Some r) (Some sch))) recs =
      map (\<lambda>row. join [?d] (map (csv_field ?d) row) @ cf_line_terminator f) ?rows"
    using f(1,3) sch(1) by (simp add: csv_format_header_def csv_format_record_def format_row_text csv_columns_def del: upt_Suc)
  have "csv_rows ?d (concat (map (\<lambda>row. join [?d] (map (csv_field ?d) row) @ cf_line_terminator f) ?rows)) = ?rows"
    using rows sch(3) by (intro csv_rows_written [OF f(1,2)]) (auto simp: list_all_iff)
  then show ?thesis
    using p csv_loop_rows [OF plain_delim_valid [OF f(1)], of True sch src 0 True] header_row_names [OF sch(1,2)]
    unfolding t by (simp add: csv_decode_def data_rows_def del: map_map list.map concat.simps) (simp add: comp_def)
qed

lemma concat_nonempty: "concat (filter (\<lambda>c. c \<noteq> []) cs) = concat cs"
  by (induction cs) auto

lemma csv_columns_read:
  "vals (the (csv_record sch src (csv_columns env sch rec))) =
    map (\<lambda>(i, f). read_cell f (csv_value env rec i)) (enumerate 0 (sch_fields sch))"
proof -
  have "row_text (csv_columns env sch rec) i = csv_value env rec i" if "i < length (sch_fields sch)" for i
    using that by (simp add: row_text_def csv_columns_def)
  moreover obtain r where "csv_record sch src (csv_columns env sch rec) = Some r"
    "vals r = map (\<lambda>(i, f). read_cell f (row_text (csv_columns env sch rec) i)) (enumerate 0 (sch_fields sch))"
    using csv_record_values by blast
  ultimately show ?thesis by (auto simp: in_set_enumerate_eq)
qed

lemma bare_text_trim: "bare_text x \<Longrightarrow> trim_space x = x"
  by (rule trim_space_visible) (auto simp: bare_text_def list_all_iff)

lemma bare_text_field: "bare_text x \<Longrightarrow> x \<noteq> [CHR 0x5C, CHR ''.''] \<Longrightarrow> csv_field (CHR 0x09) x = x"
proof -
  assume x: "bare_text x" "x \<noteq> [CHR 0x5C, CHR ''.'']"
  have "first_strip space_seqs x = None"
  proof (cases x)
    case (Cons c y)
    then have "\<not> has_prefix x q" if "q \<in> set space_seqs" for q
      using that x(1) space_seqs_not_visible space_seqs_nonempty by (cases q) (auto simp: bare_text_def has_prefix_iff)
    then show ?thesis by (simp add: first_strip_None)
  qed (use x in \<open>simp add: bare_text_def\<close>)
  then show ?thesis using x by (auto simp: csv_field_def field_needs_quotes_def tab_bytes contains_char bare_text_def list_all_iff ascii_visible_def)
qed

text \<open>The parser of tab separated files drops empty columns: a record whose middle value is empty, written by the formatter
  of the registry for \<^verbatim>\<open>tsv\<close>, is read by the parser of the registry for \<^verbatim>\<open>tsv\<close> with its last value in the middle column.\<close>

lemma tsv_empty_column_lost:
  assumes "bare_text a" "bare_text b" "a \<noteq> [CHR 0x5C, CHR ''.'']" "b \<noteq> [CHR 0x5C, CHR ''.'']"
    and "sch_fields sch = [f1, f2, f3]" "\<not> equal_fold a (field_name f1)" "csv_columns env sch rec = [a, [], b]" "fo_line_terminator opts \<in> {[], [line_feed]}"
  shows "\<exists>f p txt r. build_formatter formatter_registry ''tsv'' opts = Inr (CSVFormatter f) \<and> build_decoder decoder_registry ''tsv'' cfg = Inr (CSVParser p) \<and>
    csv_format_record env f (Some rec) (Some sch) = Inr txt \<and> csv_decode (\<lambda>_. None) p sch src txt = Some ([r], None) \<and>
    vals r = [read_cell f1 a, read_cell f2 b, read_cell f3 []]"
proof -
  let ?f = "new_csv_formatter (opts\<lparr>fo_delimiter := [CHR 0x09]\<rparr>)" and ?p = "new_csv_parser [CHR 0x09] True"
  let ?txt = "a @ [CHR 0x09, CHR 0x09] @ b @ [line_feed]"
  have reg: "build_formatter formatter_registry ''tsv'' opts = Inr (CSVFormatter ?f)" "build_decoder decoder_registry ''tsv'' cfg = Inr (CSVParser ?p)"
    by (simp_all add: build_formatter_def formatter_registry_def register_formatter_def build_decoder_def decoder_registry_def register_decoder_def
        clean_name_def trim_space_visible ascii_visible_def to_lower_def lower_char_def gm_set_def tsv_factory_def)
  have bare: "csv_field (CHR 0x09) x = x" "trim_space x = x" if "bare_text x" "x \<noteq> [CHR 0x5C, CHR ''.'']" for x
    using that bare_text_field bare_text_trim by auto
  have "b \<noteq> []" "ascii_visible (last b)" using assms(2) by (simp_all add: bare_text_def list_all_iff)
  then have "last b \<noteq> carriage" "last b \<noteq> line_feed" "b \<noteq> []" by (auto simp: ascii_visible_def)
  then have "trim_right_set {carriage, line_feed} ?txt = butlast ?txt" by (cases b rule: rev_cases) (auto simp: trim_right_set_def butlast_append)
  then have "csv_format_record env ?f (Some rec) (Some sch) = Inr ?txt"
    using assms(5,7,8) bare(1) [OF assms(1,3)] bare(1) [OF assms(2,4)]
    by (auto simp: csv_format_record_def csv_columns_def format_row_def csv_write_def new_csv_formatter_def valid_delim_def tab_bytes csv_field_def
        field_needs_quotes_def butlast_append upt_rec)
  moreover have "csv_rows (CHR 0x09) ?txt = [[a, b]]"
    using tab_row_shifts [OF assms(1,2)] by (simp add: csv_rows.simps [of _ "a @ _"] csv_rows.simps [of _ "[]"] csv_read.simps [of _ "[]"])
  then have "csv_decode (\<lambda>_. None) ?p sch src ?txt = Some ([the (csv_record sch src [a, b])], None)"
    using csv_loop_rows [of "CHR 0x09" True sch src 0 True ?txt] assms(5,6) bare(2) [OF assms(1,3)]
    by (simp add: csv_decode_def parser_comma_def new_csv_parser_def valid_delim_def data_rows_def header_row_def)
  moreover have "vals (the (csv_record sch src [a, b])) = [read_cell f1 a, read_cell f2 b, read_cell f3 []]"
    using csv_record_values [of sch src "[a, b]"] assms(5) by (auto simp: row_text_def)
  ultimately show ?thesis using reg by blast
qed

end
