(* ===== verification/File_Writer.thy ===== *)
theory File_Writer
  imports Formats
begin

text \<open>
  \<^verbatim>\<open>DelimitedFileWriter\<close> of \<^verbatim>\<open>internal/adapters/streams/formatters/file_sink.go\<close>: a file written record by record through the
  compressor and the counting hash writer into a temporary file, which \<^verbatim>\<open>Close\<close> commits. The property shows that the metrics
  it returns are those of the published file. The parser of JSON lines is here too, with its records and the loop over a
  malformed array that does not end.
\<close>

section \<open>DelimitedFileWriter (file_sink.go)\<close>

record ('w, 'r) file_writer =
  fwr_storage :: "'w storage"
  fwr_formatter :: "schema \<Rightarrow> 'r formatter"
  fwr_compression :: string

definition new_delimited_file_writer :: "'w storage \<Rightarrow> (schema \<Rightarrow> 'r formatter) \<Rightarrow> string \<Rightarrow> ('w, 'r) file_writer" where
  "new_delimited_file_writer st fm cn = \<lparr>fwr_storage = st, fwr_formatter = fm, fwr_compression = to_lower cn\<rparr>"

record 'l file_writer_context =
  fc_final_uri :: string
  fc_temp_uri :: string
  fc_stream :: "'l decorated_writer"
  fc_schema :: schema
  fc_records_count :: int

record sink_metrics =
  sm_rows_written :: int
  sm_bytes_written :: int
  sm_files_written :: int
  sm_checksum :: string

definition zero_sink_metrics :: sink_metrics where
  "zero_sink_metrics = \<lparr>sm_rows_written = 0, sm_bytes_written = 0, sm_files_written = 0, sm_checksum = []\<rparr>"

text \<open>\<^verbatim>\<open>abort\<close>, whose error the callers drop. A compressor that has been closed no longer writes to the file.\<close>

definition fw_abort :: "('w, 'r) file_writer \<Rightarrow> bool \<Rightarrow> 'w \<Rightarrow> 'l file_writer_context \<Rightarrow> 'w" where
  "fw_abort fw closed w c = (let t = fc_temp_uri c; st = fwr_storage fw;
       w1 = (if closed then w else fst (dw_close st t w (fc_stream c)));
       w2 = fst (st_close st w1 t)
     in fst (st_abort st w2 t))"

definition fw_open ::
  "(string \<Rightarrow> string + 'l stream_layer option) \<Rightarrow> ('w, 'r) file_writer \<Rightarrow> 'w \<Rightarrow> string \<Rightarrow> schema \<Rightarrow> 'w \<times> (string + 'l file_writer_context)" where
  "fw_open compressor fw w fin sch =
     (case st_create (fwr_storage fw) w fin of
        (w1, Inl e) \<Rightarrow> (w1, Inl (''failed creating temp file: '' @ e))
      | (w1, Inr t) \<Rightarrow>
          (case compressor (fwr_compression fw) of
             Inl e \<Rightarrow> (fst (st_abort (fwr_storage fw) (fst (st_close (fwr_storage fw) w1 t)) t), Inl e)
           | Inr cl \<Rightarrow>
               (let c = \<lparr>fc_final_uri = fin, fc_temp_uri = t, fc_stream = \<lparr>dw_comp = cl, dw_enc = None, dw_raw = []\<rparr>, fc_schema = sch, fc_records_count = 0\<rparr> in
                case fm_header (fwr_formatter fw sch) of
                  Inl e \<Rightarrow> (fw_abort fw False w1 c, Inl (''failed formatting header: '' @ e))
                | Inr h \<Rightarrow>
                    if h = [] then (w1, Inr c)
                    else (case dw_write (fwr_storage fw) t w1 (fc_stream c) h of
                        (w2, d, None) \<Rightarrow> (w2, Inr (c\<lparr>fc_stream := d\<rparr>))
                      | (w2, d, Some e) \<Rightarrow> (fw_abort fw False w2 (c\<lparr>fc_stream := d\<rparr>), Inl (''failed writing header: '' @ e))))))"

definition fw_write :: "('w, 'r) file_writer \<Rightarrow> 'w \<Rightarrow> 'l file_writer_context \<Rightarrow> 'r \<Rightarrow> 'w \<times> 'l file_writer_context \<times> string option" where
  "fw_write fw w c rec =
     (case fm_record (fwr_formatter fw (fc_schema c)) rec of
        Inl e \<Rightarrow> (w, c, Some (''failed formatting record: '' @ e))
      | Inr row \<Rightarrow>
          (case (if row = [] then (w, fc_stream c, None) else dw_write (fwr_storage fw) (fc_temp_uri c) w (fc_stream c) row) of
             (w1, d, Some e) \<Rightarrow> (w1, c\<lparr>fc_stream := d\<rparr>, Some (''failed writing record: '' @ e))
           | (w1, d, None) \<Rightarrow> (w1, c\<lparr>fc_stream := d, fc_records_count := i64 (fc_records_count c + 1)\<rparr>, None)))"

definition fw_close :: "(string \<Rightarrow> string) \<Rightarrow> ('w, 'r) file_writer \<Rightarrow> 'w \<Rightarrow> 'l file_writer_context \<Rightarrow> 'w \<times> (string + sink_metrics)" where
  "fw_close sha256_hex fw w c =
     (let st = fwr_storage fw; t = fc_temp_uri c in
      case dw_close st t w (fc_stream c) of
        (w1, d, Some e) \<Rightarrow> (fw_abort fw True w1 (c\<lparr>fc_stream := d\<rparr>), Inl (''failed closing compression writer: '' @ e))
      | (w1, d, None) \<Rightarrow>
          (case st_close st w1 t of
             (w2, Some e) \<Rightarrow> (fw_abort fw True w2 (c\<lparr>fc_stream := d\<rparr>), Inl (''failed closing storage writer: '' @ e))
           | (w2, None) \<Rightarrow>
               if fc_records_count c = 0 then (fst (st_abort st w2 t), Inr zero_sink_metrics)
               else (case st_commit st w2 t (fc_final_uri c) of
                   (w3, Some e) \<Rightarrow> (fst (st_abort st w3 t), Inl (''failed committing temp file: '' @ e))
                 | (w3, None) \<Rightarrow> (w3, Inr \<lparr>sm_rows_written = fc_records_count c, sm_bytes_written = bytes_written d, sm_files_written = 1,
                     sm_checksum = hex_sum sha256_hex d\<rparr>))))"

section \<open>A file from Open to Close\<close>

definition fw_session ::
  "(string \<Rightarrow> string + 'l stream_layer option) \<Rightarrow> (string \<Rightarrow> string) \<Rightarrow> ('w, 'r) file_writer \<Rightarrow> 'w \<Rightarrow> string \<Rightarrow> schema \<Rightarrow> 'r list \<Rightarrow> 'w \<times> (string + sink_metrics)" where
  "fw_session compressor sha256_hex fw w fin sch rs =
     (case fw_open compressor fw w fin sch of
        (w1, Inl e) \<Rightarrow> (w1, Inl e)
      | (w1, Inr c) \<Rightarrow> (case process_all (fw_write fw) w1 c rs of (w2, c2, Some e) \<Rightarrow> (w2, Inl e) | (w2, c2, None) \<Rightarrow> fw_close sha256_hex fw w2 c2))"

definition fw_stager :: "'w storage \<Rightarrow> 'l file_writer_context \<Rightarrow> 'w stager" where
  "fw_stager st c = \<lparr>sg_output_dir = [], sg_format = [], sg_compression = [], sg_encryption = [], sg_single_file = False, sg_storage = Some st,
     sg_temp_uri = fc_temp_uri c, sg_final_uri = fc_final_uri c, sg_writer = Some (fc_temp_uri c), sg_record_count = fc_records_count c\<rparr>"

definition writing ::
  "'w storage \<Rightarrow> ('w \<Rightarrow> string \<Rightarrow> string option) \<Rightarrow> (string \<Rightarrow> string \<Rightarrow> bool) \<Rightarrow> 'w \<Rightarrow> string \<Rightarrow> schema \<Rightarrow> 'l stream_layer option \<Rightarrow> string list \<Rightarrow> nat \<Rightarrow>
   'w \<Rightarrow> 'l file_writer_context \<Rightarrow> bool" where
  "writing S view temp w0 fin sch cl chunks n w c \<longleftrightarrow> staged S view temp w0 fin (dw_raw (fc_stream c)) w (fw_stager S c) \<and>
     dw_state (fc_stream c) = foldl layers_step (cl, None, []) chunks \<and> fc_schema c = sch \<and> fc_records_count c = int n"

lemma fw_stager_parts [simp]: "sg_temp_uri (fw_stager st c) = fc_temp_uri c" "fw_stager st (c\<lparr>fc_stream := d\<rparr>) = fw_stager st c"
  by (simp_all add: fw_stager_def)

lemma staged_untouched:
  assumes "staged S view temp w0 fin c w s" "\<And>t. temp fin t \<Longrightarrow> t \<noteq> fin"
  shows "untouched view w0 fin w"
  using assms unfolding staged_def untouched_def by blast

context staged_storage
begin

lemma fw_abort_untouched:
  assumes "fwr_storage fw = S" "staged S view temp w0 fin (dw_raw (fc_stream c)) w (fw_stager S c)"
  shows "untouched view w0 fin (fw_abort fw closed w c)"
proof -
  have t: "temp fin (fc_temp_uri c)" using assms(2) by (simp add: staged_def)
  obtain w1 d e where cl: "dw_close S (fc_temp_uri c) w (fc_stream c) = (w1, d, e)" using prod_cases3 by blast
  have st: "staged S view temp w0 fin (dw_raw d) w1 (fw_stager S c)"
    using dw_close_staged(1) [OF assms(2), of w1 d e] cl by simp
  have "view (if closed then w else w1) p = view w0 p" if "p \<noteq> fc_temp_uri c" for p
    using that st assms(2) by (simp add: staged_def)
  then have "view (fst (st_close S (if closed then w else w1) (fc_temp_uri c))) p = view w0 p" if "p \<noteq> fc_temp_uri c" for p
    using that close_others [OF t that] by simp
  then show ?thesis using abort_staged [OF t] assms(1) cl by (auto simp: fw_abort_def Let_def split: if_splits)
qed

lemma fw_open_writing:
  assumes "fwr_storage fw = S" "target fin"
  shows "case fw_open compressor fw w fin sch of
      (w', Inl e) \<Rightarrow> untouched view w fin w'
    | (w', Inr c) \<Rightarrow> \<exists>cl. compressor (fwr_compression fw) = Inr cl \<and>
        writing S view temp w fin sch cl (filter (\<lambda>x. x \<noteq> []) [projr (fm_header (fwr_formatter fw sch))]) 0 w' c"
proof -
  obtain w1 r where cr: "st_create S w fin = (w1, r)" by fastforce
  show ?thesis
  proof (cases r)
    case (Inl e)
    then show ?thesis using cr assms create_fails [OF assms(2), of w w1] untouched_refl [of view w fin] by (simp add: fw_open_def untouched_def)
  next
    case (Inr t)
    have t: "temp fin t" "view w1 = (view w)(t \<mapsto> [])" using create_ok [OF assms(2)] cr Inr by auto
    let ?c = "\<lambda>cl d. \<lparr>fc_final_uri = fin, fc_temp_uri = t, fc_stream = d, fc_schema = sch, fc_records_count = 0\<rparr> :: 'b file_writer_context"
    show ?thesis
    proof (cases "compressor (fwr_compression fw)")
      case e: (Inl e)
      have "view (fst (st_close S w1 t)) p = view w p" if "p \<noteq> t" for p using close_others [OF t(1) that] t(2) that by simp
      then show ?thesis using abort_staged [OF t(1)] e cr Inr assms(1) by (simp add: fw_open_def)
    next
      case cl: (Inr cl)
      let ?d = "\<lparr>dw_comp = cl, dw_enc = None, dw_raw = []\<rparr>" and ?s = "fw_stager S (?c cl \<lparr>dw_comp = cl, dw_enc = None, dw_raw = []\<rparr>)"
      have st: "staged S view temp w fin [] w1 ?s" using t by (simp add: staged_def fw_stager_def)
      have c: "?c cl ?d\<lparr>fc_stream := x\<rparr> = ?c cl x" for x by simp
      show ?thesis
      proof (cases "fm_header (fwr_formatter fw sch)")
        case h: (Inl e)
        then show ?thesis using fw_abort_untouched [OF assms(1), of w fin "?c cl ?d" w1 False] st cr Inr cl assms(1)
          by (simp add: fw_open_def Let_def)
      next
        case h: (Inr h)
        obtain w2 d2 e2 where wr: "dw_write S t w1 ?d h = (w2, d2, e2)" using prod_cases3 by blast
        have st2: "staged S view temp w fin (dw_raw d2) w2 ?s" "e2 = None \<Longrightarrow> dw_state d2 = layers_step (cl, None, []) h"
          using dw_write_staged [of w fin ?d w1 ?s h w2 d2 e2] st wr by (simp_all add: dw_state_def)
        have eq: "fw_stager S (?c cl d2) = ?s" by (simp add: fw_stager_def)
        show ?thesis
        proof (cases "h = []")
          case True
          then show ?thesis using st cr Inr cl h assms(1) by (simp add: fw_open_def Let_def writing_def dw_state_def)
        next
          case False
          then show ?thesis using st2 eq fw_abort_untouched [OF assms(1), of w fin "?c cl d2" w2 False] cr Inr cl h wr assms(1)
            by (cases e2) (simp_all add: fw_open_def Let_def writing_def)
        qed
      qed
    qed
  qed
qed

lemma fw_write_writing:
  assumes "fwr_storage fw = S" "writing S view temp w0 fin sch cl chunks n w c" "int n < 2 ^ 63 - 1"
  shows "case fw_write fw w c r of
      (w', c', Some e) \<Rightarrow> untouched view w0 fin w'
    | (w', c', None) \<Rightarrow> writing S view temp w0 fin sch cl (chunks @ filter (\<lambda>x. x \<noteq> []) [projr (fm_record (fwr_formatter fw sch) r)]) (Suc n) w' c'"
proof -
  have st: "staged S view temp w0 fin (dw_raw (fc_stream c)) w (fw_stager S c)" "dw_state (fc_stream c) = foldl layers_step (cl, None, []) chunks"
    "fc_schema c = sch" "fc_records_count c = int n" using assms(2) by (simp_all add: writing_def)
  have t: "temp fin t \<Longrightarrow> t \<noteq> fin" for t using temp_name by blast
  have cnt: "i64 (int n + 1) = int n + 1" using assms(3) by (intro i64_count) auto
  have inc: "staged S view temp w0 fin x w' (fw_stager S (c\<lparr>fc_stream := d, fc_records_count := k\<rparr>)) = staged S view temp w0 fin x w' (fw_stager S c)" for x w' d k
    by (simp add: staged_def fw_stager_def)
  show ?thesis
  proof (cases "fm_record (fwr_formatter fw sch) r")
    case (Inl e)
    then show ?thesis using staged_untouched [OF st(1) t] st(3) by (simp add: fw_write_def)
  next
    case (Inr row)
    obtain w1 d e where wr: "dw_write S (fc_temp_uri c) w (fc_stream c) row = (w1, d, e)" using prod_cases3 by blast
    have st1: "staged S view temp w0 fin (dw_raw d) w1 (fw_stager S c)" "e = None \<Longrightarrow> dw_state d = layers_step (dw_state (fc_stream c)) row"
      using dw_write_staged [OF st(1), of row w1 d e] wr by simp_all
    show ?thesis
    proof (cases "row = []")
      case True
      have "fw_stager S (c\<lparr>fc_records_count := k\<rparr>) = (fw_stager S c)\<lparr>sg_record_count := k\<rparr>" for k by (simp add: fw_stager_def)
      then show ?thesis using True Inr st cnt by (simp add: fw_write_def writing_def staged_def)
    next
      case False
      then show ?thesis using Inr wr st1 st staged_untouched [OF st1(1) t] cnt inc assms(1)
        by (cases e) (simp_all add: fw_write_def writing_def)
    qed
  qed
qed

lemma fw_write_all_writing:
  assumes "fwr_storage fw = S" "writing S view temp w0 fin sch cl chunks n w c" "int n + int (length rs) < 2 ^ 63"
  shows "case process_all (fw_write fw) w c rs of
      (w', c', Some e) \<Rightarrow> untouched view w0 fin w'
    | (w', c', None) \<Rightarrow> writing S view temp w0 fin sch cl
        (chunks @ filter (\<lambda>x. x \<noteq> []) (map (\<lambda>r. projr (fm_record (fwr_formatter fw sch) r)) rs)) (n + length rs) w' c'"
  using assms(2,3)
proof (induction rs arbitrary: chunks n w c)
  case (Cons r rs)
  note step = fw_write_writing [OF assms(1) Cons.prems(1), of r]
  obtain w' c' e where p: "fw_write fw w c r = (w', c', e)" using prod_cases3 by blast
  show ?case
  proof (cases e)
    case None
    let ?x = "filter (\<lambda>x. x \<noteq> []) [projr (fm_record (fwr_formatter fw sch) r)]"
    have "writing S view temp w0 fin sch cl (chunks @ ?x) (Suc n) w' c'" using step p None Cons.prems(2) by simp
    from Cons.IH [OF this] show ?thesis using p None Cons.prems(2) by (simp split: prod.splits option.splits if_splits)
  qed (use step p Cons.prems(2) in auto)
qed simp

lemma fw_close_writing:
  assumes "fwr_storage fw = S" "writing S view temp w0 fin sch cl chunks n w c" "content = layered_bytes cl None chunks"
  shows "case fw_close sha fw w c of
      (w', Inl e) \<Rightarrow> failed_bundle atomic view w0 fin content w'
    | (w', Inr m) \<Rightarrow> if n = 0 then m = zero_sink_metrics \<and> untouched view w0 fin w'
        else m = \<lparr>sm_rows_written = int n, sm_bytes_written = int (length content), sm_files_written = 1, sm_checksum = sha content\<rparr> \<and>
          published view w0 fin content w'"
proof -
  let ?t = "fc_temp_uri c"
  have st: "staged S view temp w0 fin (dw_raw (fc_stream c)) w (fw_stager S c)" "dw_state (fc_stream c) = foldl layers_step (cl, None, []) chunks"
    "fc_records_count c = int n" using assms(2) by (simp_all add: writing_def)
  have t: "temp fin ?t" "?t \<noteq> fin" "fc_final_uri c = fin" using st(1) temp_name by (auto simp: staged_def fw_stager_def)
  obtain w1 d e where c1: "dw_close S ?t w (fc_stream c) = (w1, d, e)" using prod_cases3 by blast
  have st1: "staged S view temp w0 fin (dw_raw d) w1 (fw_stager S c)" "e = None \<Longrightarrow> dw_raw d = content"
    using dw_close_staged [OF st(1), of w1 d e] c1 st(2) assms(3) by simp_all
  show ?thesis
  proof (cases e)
    case (Some e')
    then show ?thesis using c1 assms(1) fw_abort_untouched [OF assms(1), of w0 fin "c\<lparr>fc_stream := d\<rparr>" w1 True] st1(1)
      by (simp add: fw_close_def Let_def failed_untouched)
  next
    case None
    obtain w2 e2 where c2: "st_close S w1 ?t = (w2, e2)" by fastforce
    have oth: "view w2 p = view w0 p" if "p \<noteq> ?t" for p
      using close_others [OF t(1) that, of w1] c2 st1(1) that by (simp add: staged_def)
    show ?thesis
    proof (cases e2)
      case e2: (Some e')
      have "view (fst (st_close S w2 ?t)) p = view w0 p" if "p \<noteq> ?t" for p using close_others [OF t(1) that, of w2] oth that by simp
      then have "untouched view w0 fin (fw_abort fw True w2 (c\<lparr>fc_stream := d\<rparr>))"
        using abort_staged [OF t(1)] assms(1) by (simp add: fw_abort_def Let_def)
      then show ?thesis using c1 c2 e2 None assms(1) by (simp add: fw_close_def Let_def failed_untouched)
    next
      case e2: None
      have v2: "view w2 ?t = Some content" "settled w2 ?t" using close_ok [OF t(1), of w1 w2] c2 e2 st1 None by (auto simp: staged_def)
      show ?thesis
      proof (cases "n = 0")
        case True
        then show ?thesis using abort_staged [OF t(1), of w2 w0] oth c1 c2 e2 None st(3) assms(1) by (simp add: fw_close_def Let_def)
      next
        case False
        obtain w3 e3 where c3: "st_commit S w2 ?t fin = (w3, e3)" by fastforce
        show ?thesis
        proof (cases e3)
          case e3: None
          have "view w3 = (view w2)(fin \<mapsto> content, ?t := None)" using commit_ok [OF t(1) v2(2,1)] c3 e3 by simp
          then have "view w3 = (view w0)(fin \<mapsto> content, ?t := None)" using oth by auto
          then show ?thesis using c1 c2 c3 e2 e3 None st(3) st1(2) t False assms(1)
            by (auto simp: fw_close_def Let_def published_def bytes_written_def hex_sum_def)
        next
          case e3: (Some e')
          have "failed_bundle atomic view w0 fin content (fst (st_abort S w3 ?t))"
            using commit_failed [OF t(1) v2(2,1), of w3 e' w0] c3 e3 oth abort_others [OF t(1)] by simp
          then show ?thesis using c1 c2 c3 e2 e3 None st(3) t(3) False assms(1) by (simp add: fw_close_def Let_def)
        qed
      qed
    qed
  qed
qed

lemma fw_session_result:
  assumes "fwr_storage fw = S" "target fin" "int (length rs) < 2 ^ 63"
  shows "case fw_session compressor sha fw w fin sch rs of
      (w', Inl e) \<Rightarrow> \<exists>c. failed_bundle atomic view w fin c w'
    | (w', Inr m) \<Rightarrow> \<exists>cl content. compressor (fwr_compression fw) = Inr cl \<and>
        content = layered_bytes cl None (stream_chunks (fwr_formatter fw sch) rs) \<and>
        (if rs = [] then m = zero_sink_metrics \<and> untouched view w fin w'
         else m = \<lparr>sm_rows_written = int (length rs), sm_bytes_written = int (length content), sm_files_written = 1, sm_checksum = sha content\<rparr> \<and>
          published view w fin content w')"
proof -
  note o1 = fw_open_writing [OF assms(1,2), where compressor = compressor and w = w and sch = sch]
  obtain w1 r1 where op: "fw_open compressor fw w fin sch = (w1, r1)" by fastforce
  show ?thesis
  proof (cases r1)
    case (Inl e)
    then show ?thesis using o1 op by (auto simp: fw_session_def intro!: exI failed_untouched)
  next
    case (Inr c)
    let ?h = "filter (\<lambda>x. x \<noteq> []) [projr (fm_header (fwr_formatter fw sch))]"
    obtain cl where cl: "compressor (fwr_compression fw) = Inr cl" "writing S view temp w fin sch cl ?h 0 w1 c" using o1 op Inr by auto
    note wr = fw_write_all_writing [OF assms(1) cl(2), of rs]
    obtain w2 c2 e2 where p: "process_all (fw_write fw) w1 c rs = (w2, c2, e2)" using prod_cases3 by blast
    show ?thesis
    proof (cases e2)
      case (Some e)
      then show ?thesis using wr p op Inr assms(3) by (auto simp: fw_session_def intro!: exI failed_untouched)
    next
      case None
      have ch: "?h @ filter (\<lambda>x. x \<noteq> []) (map (\<lambda>r. projr (fm_record (fwr_formatter fw sch) r)) rs) = stream_chunks (fwr_formatter fw sch) rs"
        by (simp add: stream_chunks_def)
      have "writing S view temp w fin sch cl (stream_chunks (fwr_formatter fw sch) rs) (length rs) w2 c2"
        using wr p None assms(3) unfolding ch by simp
      from fw_close_writing [OF assms(1) this refl, of sha] show ?thesis
        using op Inr p None cl(1) by (auto simp: fw_session_def split: prod.splits sum.splits if_splits)
    qed
  qed
qed

end

section \<open>Properties\<close>

text \<open>C17. The delimited file writer on local storage, from Open over the writes to Close, whatever operations of the file system
  fail: when it returns metrics for a file with records, the final file holds the header and all the records through the
  compressor, no other file has changed, and the metrics are the number of records, the number of bytes of the file and the
  checksum of these bytes; for a file without records the metrics are zero and nothing is published; an error has changed
  no file but the temporary one.\<close>

theorem file_writer_metrics_exact:
  assumes "fwr_storage fw = local_storage E" "file_name fin" "int (length rs) < 2 ^ 63"
  shows "case fw_session compressor sha fw w fin sch rs of
      (w', Inl e) \<Rightarrow> untouched files w fin w'
    | (w', Inr m) \<Rightarrow> \<exists>cl content. compressor (fwr_compression fw) = Inr cl \<and>
        content = layered_bytes cl None (stream_chunks (fwr_formatter fw sch) rs) \<and>
        (if rs = [] then m = zero_sink_metrics \<and> untouched files w fin w'
         else m = \<lparr>sm_rows_written = int (length rs), sm_bytes_written = int (length content), sm_files_written = 1, sm_checksum = sha content\<rparr> \<and>
          published files w fin content w')"
proof -
  obtain w' r where r: "fw_session compressor sha fw w fin sch rs = (w', r)" by fastforce
  show ?thesis using local.fw_session_result [OF assms, where compressor = compressor and sha = sha and w = w and sch = sch]
    by (cases r) (simp_all only: r failed_atomic prod.case sum.case simp_thms)
qed

definition plain_writer :: "(local_fs, nat) file_writer" where
  "plain_writer = new_delimited_file_writer (local_storage (no_faults (\<lambda>_. 0))) (\<lambda>_. sample_formatter) ''NONE''"

definition no_compressor :: "string \<Rightarrow> string + unit stream_layer option" where
  "no_compressor _ = Inr None"

theorem file_writer_metrics_exact_witness:
  "case fw_session no_compressor (\<lambda>b. b) plain_writer \<lparr>files = Map.empty, steps = 0\<rparr> ''/out/output.csv'' id_schema [1, 2] of
      (w', Inl e) \<Rightarrow> untouched files \<lparr>files = Map.empty, steps = 0\<rparr> ''/out/output.csv'' w'
    | (w', Inr m) \<Rightarrow> m = \<lparr>sm_rows_written = 2, sm_bytes_written = 6, sm_files_written = 1, sm_checksum = [CHR ''i'', CHR ''d'', CHR ''1'', line_feed, CHR ''2'', line_feed]\<rparr> \<and>
        published files \<lparr>files = Map.empty, steps = 0\<rparr> ''/out/output.csv'' [CHR ''i'', CHR ''d'', CHR ''1'', line_feed, CHR ''2'', line_feed] w'"
proof -
  have d: "format_uint 1 = ''1''" "format_uint 2 = ''2''" by code_simp+
  have c: "layered_bytes None None (stream_chunks sample_formatter [1, 2]) = [CHR ''i'', CHR ''d'', CHR ''1'', line_feed, CHR ''2'', line_feed]"
    using d by (simp add: layered_bytes_plain stream_chunks_def sample_formatter_def)
  have s: "fwr_storage plain_writer = local_storage (no_faults (\<lambda>_. 0))" "fwr_formatter plain_writer = (\<lambda>_. sample_formatter)"
    by (simp_all add: plain_writer_def new_delimited_file_writer_def)
  show ?thesis
    using file_writer_metrics_exact [OF s(1) sample_sink_parts(7), where rs = "[1, 2]" and compressor = no_compressor and sha = "\<lambda>b. b"
        and w = "\<lparr>files = Map.empty, steps = 0\<rparr>" and sch = id_schema]
    by (simp add: s c no_compressor_def del: One_nat_def)
qed

section \<open>JSON lines\<close>

text \<open>Every record of the JSON parser has a value per field of its schema.\<close>

lemma json_set_value: "i < length (vals rec) \<Longrightarrow> \<exists>v. json_set env j rec i f = Some (rec\<lparr>vals := (vals rec)[i := v]\<rparr>)"
  by (cases j) (auto simp: json_set_def set_null_def set_string_def set_float64_def set_bool_def set_value_def)

lemma json_fill_shape:
  "i + length fs = length (vals rec) \<Longrightarrow> \<exists>rec'. json_fill env m i fs rec = Some rec' \<and> length (vals rec') = length (vals rec)"
proof (induction fs arbitrary: i rec)
  case (Cons f fs)
  obtain v where v: "json_set env (case map_of m (field_name f) of None \<Rightarrow> JNull | Some v \<Rightarrow> v) rec i f = Some (rec\<lparr>vals := (vals rec)[i := v]\<rparr>)"
    using json_set_value [of i rec] Cons.prems by fastforce
  then show ?case using Cons.IH [of "Suc i" "rec\<lparr>vals := (vals rec)[i := v]\<rparr>"] Cons.prems by simp
qed simp

lemma map_to_generic_record_shape:
  "\<exists>rec. map_to_generic_record env m sch src = Some rec \<and> length (vals rec) = length (sch_fields sch)"
  using json_fill_shape [of 0 "sch_fields sch" "new_generic_record src (length (sch_fields sch))" env m]
  by (auto simp: map_to_generic_record_def new_generic_record_def)

lemma jsonl_lines_shape:
  "\<exists>out. jsonl_lines env ctx sch src n ls err = Some out \<and> (\<forall>rec. Inr rec \<in> set out \<longrightarrow> length (vals rec) = length (sch_fields sch))"
proof (induction env ctx sch src n ls err rule: jsonl_lines.induct)
  case (2 env ctx sch src n l ls err)
  show ?case
  proof (cases "ctx n")
    case None
    let ?r = "case unmarshal env (trim_space l) of Inl e \<Rightarrow> Inl e | Inr v \<Rightarrow> row_map v"
    obtain rec where rec: "map_to_generic_record env (projr ?r) sch src = Some rec" "length (vals rec) = length (sch_fields sch)"
      using map_to_generic_record_shape by blast
    show ?thesis
    proof (cases "trim_space l = []")
      case True
      then show ?thesis using 2(1) [OF None] None by simp
    next
      case False
      show ?thesis
      proof (cases ?r)
        case (Inl e)
        from 2(2) [OF None False Inl] obtain out where "jsonl_lines env ctx sch src (Suc n) ls err = Some out"
          "\<forall>rec. Inr rec \<in> set out \<longrightarrow> length (vals rec) = length (sch_fields sch)" by blast
        then show ?thesis using None False Inl by simp
      next
        case (Inr m)
        from 2(3) [OF None False Inr, of rec] rec(1) Inr obtain out where "jsonl_lines env ctx sch src (Suc n) ls err = Some out"
          "\<forall>rec. Inr rec \<in> set out \<longrightarrow> length (vals rec) = length (sch_fields sch)" by auto
        then show ?thesis using None False Inr rec by simp
      qed
    qed
  qed auto
qed (auto split: option.split)

text \<open>An array whose decoder stays on a malformed element keeps the loop busy for ever: whatever the fuel, it is not enough.\<close>

lemma malformed_array_never_ends:
  assumes "jd_decode jd j = (j, Inl e)" "jd_more jd j"
  shows "jsonl_array env jd (\<lambda>_. None) sch src fuel n j = None"
  using assms by (induction fuel arbitrary: n) simp_all

text \<open>With a decoder that moves on at every element, the loop ends: as much fuel as there are elements, and one more, is enough.\<close>

lemma array_enough_fuel:
  assumes more: "\<And>j. jd_more jd j \<Longrightarrow> ahead (fst (jd_decode jd j)) < (ahead j :: nat)"
  shows "ahead j < fuel \<Longrightarrow> \<exists>out. jsonl_array env jd ctx sch src fuel n j = Some out \<and> (\<forall>rec. Inr rec \<in> set out \<longrightarrow> length (vals rec) = length (sch_fields sch))"
proof (induction fuel arbitrary: n j)
  case (Suc fuel)
  obtain j' r where d: "jd_decode jd j = (j', r)" by fastforce
  let ?r = "case r of Inl e \<Rightarrow> Inl e | Inr v \<Rightarrow> row_map v"
  obtain rec where rec: "map_to_generic_record env (projr ?r) sch src = Some rec" "length (vals rec) = length (sch_fields sch)"
    using map_to_generic_record_shape by blast
  show ?case
  proof (cases "jd_more jd j \<and> ctx n = None")
    case True
    then have "ahead j' < fuel" using more [of j] d Suc.prems by simp
    then obtain out where "jsonl_array env jd ctx sch src fuel (Suc n) j' = Some out" "\<forall>rec. Inr rec \<in> set out \<longrightarrow> length (vals rec) = length (sch_fields sch)"
      using Suc.IH by blast
    then show ?thesis using True d rec by (cases ?r) simp_all
  qed auto
qed simp

end
