(* ===== verification/Parquet.thy ===== *)
theory Parquet
  imports Stream_Sink Config
begin

text \<open>
  Parquet output: \<^verbatim>\<open>internal/beam/streams/parquet_schema.go\<close> and \<^verbatim>\<open>parquet_sink.go\<close>. The library \<^verbatim>\<open>parquet-go\<close> is an
  argument: the order in which a schema lays out its columns, and the bytes its writer produces. The direct encoder of
  rows is shown to agree with the row mapper, and the sink to publish whole files.
\<close>

section \<open>BuildParquetSchema (parquet_schema.go)\<close>

datatype parquet_leaf = PInt64 | PDouble | PBoolean | PByteArray | PDecimal int int | PString

record parquet_node =
  pn_leaf :: parquet_leaf
  pn_optional :: bool

definition parquet_node_for :: "field \<Rightarrow> parquet_node" where
  "parquet_node_for f = \<lparr>pn_leaf = (case field_type f of
      TypeInt64 \<Rightarrow> PInt64 | TypeFloat64 \<Rightarrow> PDouble | TypeBool \<Rightarrow> PBoolean | TypeTimestamp \<Rightarrow> PInt64
    | TypeBytes \<Rightarrow> PByteArray | TypeDecimal \<Rightarrow> PDecimal 18 (field_scale f) | _ \<Rightarrow> PString), pn_optional = nullable f\<rparr>"

definition build_parquet_schema :: "schema \<Rightarrow> bool \<Rightarrow> parquet_node gomap" where
  "build_parquet_schema s with_source =
     (let fields = foldl (\<lambda>m f. gm_set m (field_name f) (parquet_node_for f)) [] (sch_fields s);
          fields1 = gm_set fields ''_ingested_at'' \<lparr>pn_leaf = PString, pn_optional = False\<rparr>
      in if with_source then gm_set fields1 ''_source_file'' \<lparr>pn_leaf = PString, pn_optional = False\<rparr> else fields1)"

text \<open>The layout the library gives a schema: its columns, in order. Looking up a column yields its index and its
  maximal definition level.\<close>

type_synonym layout = "parquet_node gomap \<Rightarrow> string list"

fun index_of :: "string \<Rightarrow> string list \<Rightarrow> nat option" where
  "index_of n [] = None"
| "index_of n (c # cs) = (if c = n then Some 0 else map_option Suc (index_of n cs))"

definition schema_lookup :: "layout \<Rightarrow> parquet_node gomap \<Rightarrow> string \<Rightarrow> (nat \<times> nat) option" where
  "schema_lookup lay m n = (case (index_of n (lay m), map_of m n) of
      (Some i, Some node) \<Rightarrow> Some (i, if pn_optional node then 1 else 0) | _ \<Rightarrow> None)"

section \<open>Row mapping\<close>

datatype parquet_data = DNull | DInt64 int | DDouble u64 | DBool bool | DBytes string

text \<open>What a field contributes: the switch both compilers share. \<^verbatim>\<open>UnixMicro\<close> rounds down.\<close>

definition column_data :: "field \<Rightarrow> field_value \<Rightarrow> parquet_data" where
  "column_data f v = (case field_type f of
      TypeInt64 \<Rightarrow> DInt64 (int64_val v) | TypeDecimal \<Rightarrow> DInt64 (int64_val v) | TypeFloat64 \<Rightarrow> DDouble (float64_val v)
    | TypeBool \<Rightarrow> DBool (bool_val v) | TypeTimestamp \<Rightarrow> DInt64 (time_val v div 1000) | TypeBytes \<Rightarrow> DBytes (bytes_val v)
    | _ \<Rightarrow> DBytes (string_val v))"

definition audit_or :: "generic_record \<Rightarrow> string \<Rightarrow> string \<Rightarrow> string" where
  "audit_or rec k fallback = (if gm_get (audit_fields rec) k \<noteq> [] then gm_get (audit_fields rec) k else fallback)"

fun extract_columns :: "field_value list \<Rightarrow> field list \<Rightarrow> parquet_data gomap \<Rightarrow> parquet_data gomap" where
  "extract_columns (v # vs) (f # fs) m = extract_columns vs fs (if is_null v then m else gm_set m (field_name f) (column_data f v))"
| "extract_columns _ _ m = m"

text \<open>\<open>now\<close> is the formatted time, for a record that has not been stamped.\<close>

definition row_mapper :: "schema \<Rightarrow> bool \<Rightarrow> string \<Rightarrow> generic_record \<Rightarrow> parquet_data gomap" where
  "row_mapper s with_source now rec =
     (let m1 = gm_set (extract_columns (vals rec) (sch_fields s) []) ''_ingested_at'' (DBytes (audit_or rec ''_ingested_at'' now))
      in if with_source then gm_set m1 ''_source_file'' (DBytes (audit_or rec ''_source_file'' ''unknown'')) else m1)"

section \<open>Direct encoding\<close>

text \<open>A \<^verbatim>\<open>parquet.Value\<close> with its definition level and column; \<^term>\<open>None\<close> in a row is the zero value.\<close>

record parquet_value =
  pv_data :: parquet_data
  pv_def :: nat
  pv_col :: nat

type_synonym row_buffer = "parquet_value option list"

definition encode_cell :: "nat \<times> nat \<Rightarrow> field \<Rightarrow> field_value \<Rightarrow> parquet_value" where
  "encode_cell col f v = (case col of (i, d) \<Rightarrow>
     if is_null v then \<lparr>pv_data = DNull, pv_def = 0, pv_col = i\<rparr> else \<lparr>pv_data = column_data f v, pv_def = d, pv_col = i\<rparr>)"

fun encode_columns :: "(string \<Rightarrow> (nat \<times> nat) option) \<Rightarrow> field_value list \<Rightarrow> field list \<Rightarrow> row_buffer \<Rightarrow> row_buffer" where
  "encode_columns look (v # vs) (f # fs) dest = encode_columns look vs fs
     (case look (field_name f) of None \<Rightarrow> dest | Some col \<Rightarrow> dest[fst col := Some (encode_cell col f v)])"
| "encode_columns look _ _ dest = dest"

definition put_text :: "(nat \<times> nat) option \<Rightarrow> string \<Rightarrow> row_buffer \<Rightarrow> row_buffer" where
  "put_text col s dest = (case col of None \<Rightarrow> dest | Some (i, d) \<Rightarrow> dest[i := Some \<lparr>pv_data = DBytes s, pv_def = d, pv_col = i\<rparr>])"

definition num_cols :: "layout \<Rightarrow> schema \<Rightarrow> bool \<Rightarrow> nat" where
  "num_cols lay s with_source = length (lay (build_parquet_schema s with_source))"

definition direct_row_encoder :: "layout \<Rightarrow> schema \<Rightarrow> bool \<Rightarrow> string \<Rightarrow> generic_record \<Rightarrow> row_buffer \<Rightarrow> row_buffer" where
  "direct_row_encoder lay s with_source now rec dest0 =
     (let n = num_cols lay s with_source; look = schema_lookup lay (build_parquet_schema s with_source);
          dest = (if length dest0 < n then replicate n None else take n dest0);
          dest1 = encode_columns look (vals rec) (sch_fields s) dest;
          dest2 = put_text (look ''_ingested_at'') (audit_or rec ''_ingested_at'' now) dest1
      in put_text (look ''_source_file'') (audit_or rec ''_source_file'' ''unknown'') dest2)"

section \<open>ParquetSinkDoFn (parquet_sink.go)\<close>

text \<open>The library's writer: a new one for a schema, the bytes a row makes it write, and the bytes of its closing.\<close>

record 'p parquet_lib =
  pl_layout :: layout
  pl_new :: "parquet_node gomap \<Rightarrow> 'p"
  pl_row :: "'p \<Rightarrow> row_buffer \<Rightarrow> string + 'p \<times> string"
  pl_close :: "'p \<Rightarrow> string + string"

record ('w, 'p) parquet_sink =
  ps_output_dir :: string
  ps_compression :: string
  ps_encryption :: string
  ps_source_file :: bool
  ps_schema :: schema
  ps_stager :: "'w stager option"
  ps_writer :: "'p option"
  ps_compiled :: bool
  ps_row_buffer :: row_buffer

definition new_parquet_sink :: "'w storage option \<Rightarrow> string \<Rightarrow> string \<Rightarrow> string \<Rightarrow> schema \<Rightarrow> ('w, 'p) parquet_sink" where
  "new_parquet_sink st dir compr enc s = \<lparr>ps_output_dir = trim_right_set {slash} dir, ps_compression = compr, ps_encryption = enc,
     ps_source_file = True, ps_schema = s, ps_stager = Some (new_bundle_file_stager st dir ''parquet'' compr enc False),
     ps_writer = None, ps_compiled = False, ps_row_buffer = []\<rparr>"

definition parquet_stager :: "('w, 'p) parquet_sink \<Rightarrow> 'w stager" where
  "parquet_stager d = (case ps_stager d of Some s \<Rightarrow> s
     | None \<Rightarrow> new_bundle_file_stager None (ps_output_dir d) ''parquet'' (ps_compression d) (ps_encryption d) False)"

definition parquet_compile :: "'p parquet_lib \<Rightarrow> ('w, 'p) parquet_sink \<Rightarrow> ('w, 'p) parquet_sink" where
  "parquet_compile lib d = d\<lparr>ps_compiled := True, ps_row_buffer := replicate (num_cols (pl_layout lib) (ps_schema d) (ps_source_file d)) None\<rparr>"

definition parquet_setup :: "'p parquet_lib \<Rightarrow> 'w factory \<Rightarrow> ('w, 'p) parquet_sink \<Rightarrow> ('w, 'p) parquet_sink" where
  "parquet_setup lib fac d = (parquet_compile lib d)\<lparr>ps_stager := Some (stager_setup fac (parquet_stager d))\<rparr>"

text \<open>\<^verbatim>\<open>StartBundle\<close> replaces a row buffer that is too short; the encoder would do the same.\<close>

definition parquet_start_bundle :: "'p parquet_lib \<Rightarrow> ('w, 'p) parquet_sink \<Rightarrow> ('w, 'p) parquet_sink" where
  "parquet_start_bundle lib d = d\<lparr>ps_stager := Some (stager_start_bundle (parquet_stager d)), ps_writer := None,
     ps_row_buffer := (let n = num_cols (pl_layout lib) (ps_schema d) (ps_source_file d) in
       if ps_compiled d \<and> length (ps_row_buffer d) < n then replicate n None else ps_row_buffer d)\<rparr>"

definition parquet_lazy_open ::
  "'p parquet_lib \<Rightarrow> 'w factory \<Rightarrow> string \<times> int \<Rightarrow> 'w \<Rightarrow> ('w, 'p) parquet_sink \<Rightarrow> 'w \<times> ('w, 'p) parquet_sink \<times> string option" where
  "parquet_lazy_open lib fac un w d = (case ps_writer d of
      Some _ \<Rightarrow> (w, d, None)
    | None \<Rightarrow> (case ensure_open fac un w (parquet_stager d) of
        (w1, s1, Inl e) \<Rightarrow> (w1, d\<lparr>ps_stager := Some s1\<rparr>, Some e)
      | (w1, s1, Inr h) \<Rightarrow>
          (w1, d\<lparr>ps_stager := Some s1, ps_writer := Some (pl_new lib (build_parquet_schema (ps_schema d) (ps_source_file d)))\<rparr>, None)))"

text \<open>Writing bytes through the stager's writer.\<close>

definition stager_write :: "'w \<Rightarrow> 'w stager \<Rightarrow> string \<Rightarrow> 'w \<times> string option" where
  "stager_write w s b = (case (sg_storage s, sg_writer s) of
      (Some st, Some h) \<Rightarrow> if b = [] then (w, None) else (case st_write st w h b of (w', _, e) \<Rightarrow> (w', e))
    | _ \<Rightarrow> (w, None))"

text \<open>The row shares the sink's buffer when the buffer is long enough.\<close>

definition kept_buffer :: "nat \<Rightarrow> row_buffer \<Rightarrow> row_buffer \<Rightarrow> row_buffer" where
  "kept_buffer n row buf = (if length buf < n then buf else row @ drop (length row) buf)"

definition parquet_process_element ::
  "'p parquet_lib \<Rightarrow> 'w factory \<Rightarrow> string \<times> int \<Rightarrow> string \<Rightarrow> 'w \<Rightarrow> ('w, 'p) parquet_sink \<Rightarrow> generic_record \<Rightarrow> 'w \<times> ('w, 'p) parquet_sink \<times> string option" where
  "parquet_process_element lib fac un now w d rec =
     (case parquet_lazy_open lib fac un w d of
        (w1, d1, Some e) \<Rightarrow> (w1, d1, Some e)
      | (w1, d1, None) \<Rightarrow>
          (let d2 = (if ps_compiled d1 then d1 else parquet_compile lib d1);
               row = direct_row_encoder (pl_layout lib) (ps_schema d2) (ps_source_file d2) now rec (ps_row_buffer d2);
               d3 = d2\<lparr>ps_row_buffer := kept_buffer (num_cols (pl_layout lib) (ps_schema d2) (ps_source_file d2)) row (ps_row_buffer d2)\<rparr> in
           case (ps_writer d3, ps_stager d3) of
             (Some p, Some s) \<Rightarrow>
               (let (w2, p2, err) = (case pl_row lib p row of
                       Inl e \<Rightarrow> (w1, p, Some e)
                     | Inr (p', b) \<Rightarrow> (case stager_write w1 s b of (w', e) \<Rightarrow> (w', p', e))) in
                case err of
                  Some e \<Rightarrow> (case abort_quietly w2 s of (w3, s3) \<Rightarrow> (w3, d3\<lparr>ps_stager := Some s3, ps_writer := Some p2\<rparr>, Some (''parquet write row failed: '' @ e)))
                | None \<Rightarrow> (w2, d3\<lparr>ps_stager := Some (increment_record s), ps_writer := Some p2\<rparr>, None))
           | _ \<Rightarrow> (w1, d3, None)))"

definition parquet_closer :: "'p parquet_lib \<Rightarrow> 'p \<Rightarrow> 'w stager \<Rightarrow> 'w \<Rightarrow> 'w \<times> string option" where
  "parquet_closer lib p s w = (case pl_close lib p of Inl e \<Rightarrow> (w, Some e) | Inr b \<Rightarrow> stager_write w s b)"

definition parquet_finish_bundle :: "'p parquet_lib \<Rightarrow> 'w \<Rightarrow> ('w, 'p) parquet_sink \<Rightarrow> 'w \<times> ('w, 'p) parquet_sink \<times> string option" where
  "parquet_finish_bundle lib w d = (case ps_stager d of
      None \<Rightarrow> (w, d, None)
    | Some s \<Rightarrow>
        if sg_record_count s = 0 then (w, d, None)
        else (case commit_or_abort (map_option (\<lambda>p. parquet_closer lib p s) (ps_writer d)) w s of
            (w', s', e) \<Rightarrow> (w', d\<lparr>ps_stager := Some s'\<rparr>, e)))"

section \<open>The direct encoder agrees with the row mapper\<close>

text \<open>A layout has every column of the schema once.\<close>

definition layout_ok :: "layout \<Rightarrow> bool" where
  "layout_ok lay \<longleftrightarrow> (\<forall>m. map_ok m \<longrightarrow> distinct (lay m) \<and> set (lay m) = fst ` set m)"

lemma index_of_nth: "distinct cs \<Longrightarrow> i < length cs \<Longrightarrow> index_of (cs ! i) cs = Some i"
  by (induction cs arbitrary: i) (auto simp: nth_Cons split: nat.split)

lemma index_of_Some: "index_of n cs = Some i \<Longrightarrow> i < length cs \<and> cs ! i = n"
  by (induction cs arbitrary: i) (auto split: if_splits)

lemma map_ok_foldl_set: "map_ok m \<Longrightarrow> map_ok (foldl (\<lambda>m f. gm_set m (key f) (val f)) m fs)"
  by (induction fs arbitrary: m) auto

lemma keys_foldl_set: "fst ` set (foldl (\<lambda>m f. gm_set m (key f) (val f)) m fs) = fst ` set m \<union> key ` set fs"
  by (induction fs arbitrary: m) (auto simp: gm_set_def dom_update)

lemma build_parquet_schema_ok: "map_ok (build_parquet_schema s ws)"
  unfolding build_parquet_schema_def Let_def by (cases ws) (auto intro!: map_ok_gm_set map_ok_foldl_set)

lemma gm_set_keys: "fst ` set (gm_set m k v) = insert k (fst ` set m)"
  by (simp add: gm_set_def dom_update)

lemma build_parquet_schema_keys:
  "fst ` set (build_parquet_schema s ws) = field_name ` set (sch_fields s) \<union> {''_ingested_at''} \<union> (if ws then {''_source_file''} else {})"
  unfolding build_parquet_schema_def Let_def by (cases ws) (auto simp: gm_set_keys keys_foldl_set)

text \<open>The field and the value of a column.\<close>

fun named_cell :: "string \<Rightarrow> field list \<Rightarrow> field_value list \<Rightarrow> (field \<times> field_value) option" where
  "named_cell n (f # fs) (v # vs) = (if field_name f = n then Some (f, v) else named_cell n fs vs)"
| "named_cell n _ _ = None"

lemma named_cell_None: "n \<notin> field_name ` set fs \<Longrightarrow> named_cell n fs vs = None"
  by (induction n fs vs rule: named_cell.induct) auto

lemma named_cell_Some: "n \<in> field_name ` set fs \<Longrightarrow> length fs = length vs \<Longrightarrow> named_cell n fs vs \<noteq> None"
  by (induction n fs vs rule: named_cell.induct) auto

lemma extract_columns_lookup:
  assumes "length fs = length vs" "distinct (map field_name fs)"
  shows "map_of (extract_columns vs fs m) n =
     (case named_cell n fs vs of Some (f, v) \<Rightarrow> if is_null v then map_of m n else Some (column_data f v) | None \<Rightarrow> map_of m n)"
  using assms
proof (induction fs vs arbitrary: m rule: list_induct2)
  case (Cons f fs v vs)
  then have none: "named_cell (field_name f) fs vs = None" by (simp add: named_cell_None)
  have IH: "map_of (extract_columns vs fs m) n =
     (case named_cell n fs vs of Some (f, v) \<Rightarrow> if is_null v then map_of m n else Some (column_data f v) | None \<Rightarrow> map_of m n)" for m
    using Cons by simp
  show ?case using none by (cases "field_name f = n") (auto simp: IH map_of_gm_set split: option.split)
qed simp

definition lookup_inj :: "(string \<Rightarrow> (nat \<times> nat) option) \<Rightarrow> bool" where
  "lookup_inj look \<longleftrightarrow> (\<forall>n n' i d d'. look n = Some (i, d) \<longrightarrow> look n' = Some (i, d') \<longrightarrow> n = n')"

lemma lookup_injD: "lookup_inj look \<Longrightarrow> look n = Some (i, d) \<Longrightarrow> look n' = Some (j, d') \<Longrightarrow> n' \<noteq> n \<Longrightarrow> j \<noteq> i"
  unfolding lookup_inj_def by blast

lemma encode_columns_length [simp]: "length (encode_columns look vs fs dest) = length dest"
  by (induction look vs fs dest rule: encode_columns.induct) (auto split: option.splits)

lemma encode_columns_lookup:
  assumes "lookup_inj look" "look n = Some (i, d)" "i < length dest" "length fs = length vs" "distinct (map field_name fs)"
  shows "encode_columns look vs fs dest ! i =
     (case named_cell n fs vs of Some (f, v) \<Rightarrow> Some (encode_cell (i, d) f v) | None \<Rightarrow> dest ! i)"
  using assms(4,5,3)
proof (induction fs vs arbitrary: dest rule: list_induct2)
  case (Cons f fs v vs)
  then have none: "named_cell (field_name f) fs vs = None" by (simp add: named_cell_None)
  let ?dest = "case look (field_name f) of None \<Rightarrow> dest | Some col \<Rightarrow> dest[fst col := Some (encode_cell col f v)]"
  have IH: "encode_columns look vs fs ?dest ! i = (case named_cell n fs vs of Some (f, v) \<Rightarrow> Some (encode_cell (i, d) f v) | None \<Rightarrow> ?dest ! i)"
    using Cons by (intro Cons.IH) (auto split: option.splits)
  show ?case
  proof (cases "field_name f = n")
    case True
    then show ?thesis using IH none assms(2) Cons.prems(2) by simp
  next
    case False
    then have "?dest ! i = dest ! i" using lookup_injD [OF assms(1,2), of "field_name f"] by (cases "look (field_name f)") auto
    then show ?thesis using IH False by (cases "named_cell n fs vs") simp_all
  qed
qed simp

lemma schema_lookup_inj: "lookup_inj (schema_lookup lay m)"
proof -
  have "index_of n (lay m) = Some i" if "schema_lookup lay m n = Some (i, d)" for n i d
    using that by (auto simp: schema_lookup_def split: option.splits)
  then show ?thesis unfolding lookup_inj_def by (metis index_of_Some)
qed

lemma schema_lookup_column:
  assumes "layout_ok lay" "map_ok m" "i < length (lay m)"
  shows "\<exists>node. map_of m (lay m ! i) = Some node \<and> schema_lookup lay m (lay m ! i) = Some (i, if pn_optional node then 1 else 0)"
proof -
  have l: "distinct (lay m)" "set (lay m) = fst ` set m" using assms(1,2) unfolding layout_ok_def by blast+
  have "lay m ! i \<in> fst ` set m" using assms(3) l(2) nth_mem by blast
  then obtain node where "map_of m (lay m ! i) = Some node" by (meson map_of_eq_None_iff option.exhaust)
  then show ?thesis using index_of_nth [OF l(1) assms(3)] by (simp add: schema_lookup_def)
qed

lemma put_text_nth:
  assumes "lookup_inj look" "look n = Some (i, d)" "i < length dest"
  shows "put_text (look n') txt dest ! i = (if n' = n then Some \<lparr>pv_data = DBytes txt, pv_def = d, pv_col = i\<rparr> else dest ! i)"
  using assms lookup_injD [OF assms(1,2), of n'] by (cases "look n'") (auto simp: put_text_def)

lemma put_text_length [simp]: "length (put_text col txt dest) = length dest"
  by (auto simp: put_text_def split: option.splits)

text \<open>What a column of the encoded row holds.\<close>

lemma encoded_column:
  assumes "layout_ok lay" "distinct (map field_name (sch_fields s))" "length (sch_fields s) = length (vals rec)"
    and "''_ingested_at'' \<notin> field_name ` set (sch_fields s)" "''_source_file'' \<notin> field_name ` set (sch_fields s)"
    and "cols = lay (build_parquet_schema s ws)" "i < length cols"
  shows "\<exists>v. direct_row_encoder lay s ws now rec buffer ! i = Some v \<and> pv_col v = i \<and>
    pv_data v = (case map_of (row_mapper s ws now rec) (cols ! i) of Some x \<Rightarrow> x | None \<Rightarrow> DNull) \<and>
    (\<exists>node. map_of (build_parquet_schema s ws) (cols ! i) = Some node \<and>
      pv_def v = (if map_of (row_mapper s ws now rec) (cols ! i) \<noteq> None \<and> pn_optional node then 1 else 0))"
proof -
  let ?m = "build_parquet_schema s ws" and ?n = "cols ! i"
  let ?look = "schema_lookup lay ?m"
  obtain node where node: "map_of ?m ?n = Some node" "?look ?n = Some (i, if pn_optional node then 1 else 0)"
    using schema_lookup_column [OF assms(1) build_parquet_schema_ok] assms(6,7) by blast
  define dest where "dest = (if length buffer < num_cols lay s ws then replicate (num_cols lay s ws) None else take (num_cols lay s ws) buffer)"
  have len: "i < length dest" using assms(6,7) by (auto simp: dest_def num_cols_def)
  have enc: "direct_row_encoder lay s ws now rec buffer =
      put_text (?look ''_source_file'') (audit_or rec ''_source_file'' ''unknown'')
        (put_text (?look ''_ingested_at'') (audit_or rec ''_ingested_at'' now) (encode_columns ?look (vals rec) (sch_fields s) dest))"
    by (simp add: direct_row_encoder_def dest_def Let_def)
  have key: "?n \<in> fst ` set ?m" using node(1) by (metis map_of_eq_None_iff option.distinct(1))
  note pt = put_text_nth [OF schema_lookup_inj node(2)]
  have cell: "encode_columns ?look (vals rec) (sch_fields s) dest ! i =
      (case named_cell ?n (sch_fields s) (vals rec) of Some (f, v) \<Rightarrow> Some (encode_cell (i, if pn_optional node then 1 else 0) f v) | None \<Rightarrow> dest ! i)"
    by (rule encode_columns_lookup [OF schema_lookup_inj node(2) len assms(3,2)])
  have ex: "map_of (extract_columns (vals rec) (sch_fields s) []) ?n =
      (case named_cell ?n (sch_fields s) (vals rec) of Some (f, v) \<Rightarrow> if is_null v then None else Some (column_data f v) | None \<Rightarrow> None)"
    by (simp add: extract_columns_lookup [OF assms(3,2)] split: option.split)
  consider (ing) "?n = ''_ingested_at''" | (src) "?n = ''_source_file''" "ws" | (fld) "?n \<in> field_name ` set (sch_fields s)"
    using key unfolding build_parquet_schema_keys by (auto split: if_splits)
  then show ?thesis
  proof cases
    case ing
    have "map_of (row_mapper s ws now rec) ?n = Some (DBytes (audit_or rec ''_ingested_at'' now))"
      using ing by (simp add: row_mapper_def Let_def map_of_gm_set)
    then show ?thesis using ing node(1) len unfolding enc by (simp add: pt)
  next
    case src
    have "map_of (row_mapper s ws now rec) ?n = Some (DBytes (audit_or rec ''_source_file'' ''unknown''))"
      using src by (simp add: row_mapper_def Let_def map_of_gm_set)
    then show ?thesis using src(1) node(1) len unfolding enc by (simp add: pt)
  next
    case fld
    then have ne: "?n \<noteq> ''_ingested_at''" "?n \<noteq> ''_source_file''" using assms(4,5) by metis+
    obtain f v where fv: "named_cell ?n (sch_fields s) (vals rec) = Some (f, v)" using named_cell_Some [OF fld assms(3)] by auto
    have "map_of (row_mapper s ws now rec) ?n = (if is_null v then None else Some (column_data f v))"
      using ne ex fv by (simp add: row_mapper_def Let_def map_of_gm_set)
    moreover have "direct_row_encoder lay s ws now rec buffer ! i = Some (encode_cell (i, if pn_optional node then 1 else 0) f v)"
      using ne cell fv len unfolding enc by (simp add: pt)
    ultimately show ?thesis using node(1) by (simp add: encode_cell_def)
  qed
qed

text \<open>The row the library makes of a row map.\<close>

definition mapped_row :: "layout \<Rightarrow> schema \<Rightarrow> bool \<Rightarrow> string \<Rightarrow> generic_record \<Rightarrow> row_buffer" where
  "mapped_row lay s ws now rec = (let m = build_parquet_schema s ws; cols = lay m in
     map (\<lambda>i. Some (case map_of (row_mapper s ws now rec) (cols ! i) of
         None \<Rightarrow> \<lparr>pv_data = DNull, pv_def = 0, pv_col = i\<rparr>
       | Some x \<Rightarrow> \<lparr>pv_data = x, pv_def = (case map_of m (cols ! i) of Some node \<Rightarrow> if pn_optional node then 1 else 0 | None \<Rightarrow> 0), pv_col = i\<rparr>))
       [0..<length cols])"

text \<open>The records the encoder is meant for: a value per field, and field names that are distinct and none of the audit
  columns.\<close>

definition full_record :: "schema \<Rightarrow> generic_record \<Rightarrow> bool" where
  "full_record s rec \<longleftrightarrow> length (sch_fields s) = length (vals rec)"

definition plain_schema :: "schema \<Rightarrow> bool" where
  "plain_schema s \<longleftrightarrow> distinct (map field_name (sch_fields s)) \<and>
     ''_ingested_at'' \<notin> field_name ` set (sch_fields s) \<and> ''_source_file'' \<notin> field_name ` set (sch_fields s)"

lemma direct_row_encoder_length: "length (direct_row_encoder lay s ws now rec buffer) = num_cols lay s ws"
  by (simp add: direct_row_encoder_def Let_def)

lemma encoder_is_mapper:
  assumes "layout_ok lay" "plain_schema s" "full_record s rec"
  shows "direct_row_encoder lay s ws now rec buffer = mapped_row lay s ws now rec"
proof (rule nth_equalityI)
  show len: "length (direct_row_encoder lay s ws now rec buffer) = length (mapped_row lay s ws now rec)"
    by (simp add: direct_row_encoder_length mapped_row_def num_cols_def Let_def)
  fix i assume "i < length (direct_row_encoder lay s ws now rec buffer)"
  then have i: "i < length (lay (build_parquet_schema s ws))" by (simp add: direct_row_encoder_length num_cols_def)
  note col = encoded_column [OF assms(1), of s rec, OF _ _ _ _ refl i, where now = now and buffer = buffer]
  show "direct_row_encoder lay s ws now rec buffer ! i = mapped_row lay s ws now rec ! i"
    using col assms(2,3) i by (auto simp: plain_schema_def full_record_def mapped_row_def Let_def split: option.splits)
qed


lemma entry_order_layout: "layout_ok (map fst)"
  by (simp add: layout_ok_def map_ok_def)

definition id_record :: "u64 \<Rightarrow> generic_record" where
  "id_record n = \<lparr>schema_id = [], vals = [zero_value\<lparr>fv_type := TypeInt64, num_val := n\<rparr>], audit_fields = []\<rparr>"

lemma id_schema_plain: "plain_schema id_schema" "full_record id_schema (id_record n)"
  by (simp_all add: plain_schema_def full_record_def id_schema_def id_record_def)


text \<open>The columns of the fields a record has no value for keep what the buffer held: the row written before.\<close>

lemma missing_values_keep_previous_row:
  assumes "lookup_inj look" "look n = Some (i, d)" "named_cell n fs vs = None"
  shows "encode_columns look vs fs dest ! i = dest ! i"
  using assms(3)
proof (induction vs arbitrary: fs dest)
  case (Cons v vs)
  show ?case
  proof (cases fs)
    case f: (Cons f fs')
    then have "field_name f \<noteq> n" "named_cell n fs' vs = None" using Cons.prems by (auto split: if_splits)
    then show ?thesis using Cons.IH [of fs'] lookup_injD [OF assms(1,2), of "field_name f"] f by (cases "look (field_name f)") auto
  qed simp
qed simp

section \<open>The sink\<close>

text \<open>The records of a bundle through the encoder and the writer: the writer's state, the row buffer, and the bytes.\<close>

definition parquet_step :: "'p parquet_lib \<Rightarrow> schema \<Rightarrow> bool \<Rightarrow> string \<Rightarrow> 'p \<times> row_buffer \<times> string \<Rightarrow> generic_record \<Rightarrow> 'p \<times> row_buffer \<times> string" where
  "parquet_step lib s ws now q rec = (case q of (p, buf, out) \<Rightarrow>
     let row = direct_row_encoder (pl_layout lib) s ws now rec buf in
     (case pl_row lib p row of Inl _ \<Rightarrow> (p, buf, out) | Inr (p', b) \<Rightarrow> (p', kept_buffer (num_cols (pl_layout lib) s ws) row buf, out @ b)))"

definition streaming_rows ::
  "'w storage \<Rightarrow> ('w \<Rightarrow> string \<Rightarrow> string option) \<Rightarrow> (string \<Rightarrow> string \<Rightarrow> bool) \<Rightarrow> 'w \<Rightarrow> string \<Rightarrow> schema \<Rightarrow> bool \<Rightarrow> 'p \<times> row_buffer \<times> string \<Rightarrow>
   'w \<Rightarrow> ('w, 'p) parquet_sink \<Rightarrow> bool" where
  "streaming_rows S view temp w0 fin sch ws q w d \<longleftrightarrow> (case q of (p, buf, out) \<Rightarrow> ps_compiled d \<and> ps_schema d = sch \<and> ps_source_file d = ws \<and>
     ps_writer d = Some p \<and> ps_row_buffer d = buf \<and> (\<exists>s. ps_stager d = Some s \<and> staged S view temp w0 fin out w s))"

definition parquet_count :: "('w, 'p) parquet_sink \<Rightarrow> int" where
  "parquet_count d = (case ps_stager d of None \<Rightarrow> 0 | Some s \<Rightarrow> sg_record_count s)"

context staged_storage
begin

lemma stager_write_staged:
  assumes "staged S view temp w0 fin c w s"
  shows "case stager_write w s b of (w', e) \<Rightarrow> (\<exists>c'. staged S view temp w0 fin c' w' s) \<and> (e = None \<longrightarrow> staged S view temp w0 fin (c @ b) w' s)"
proof (cases "b = []")
  case False
  obtain w' n e where wr: "st_write S w (sg_temp_uri s) b = (w', n, e)" using prod_cases3 by blast
  have "stager_write w s b = (w', e)" using assms wr False by (simp add: stager_write_def staged_def)
  then show ?thesis using write_staged [OF assms wr] by auto
qed (use assms in \<open>auto simp: stager_write_def staged_def\<close>)

lemma parquet_process_staged:
  assumes "streaming_rows S view temp w0 fin sch ws q w d"
  shows "case parquet_process_element lib fac un now w d r of
     (w', d', None) \<Rightarrow> streaming_rows S view temp w0 fin sch ws (parquet_step lib sch ws now q r) w' d' \<and> parquet_count d' = i64 (parquet_count d + 1)
   | (w', d', Some e) \<Rightarrow> untouched view w0 fin w'"
proof -
  obtain p buf out where q: "q = (p, buf, out)" by (rule prod_cases3)
  obtain s where s: "ps_compiled d" "ps_schema d = sch" "ps_source_file d = ws" "ps_writer d = Some p" "ps_row_buffer d = buf"
    "ps_stager d = Some s" "staged S view temp w0 fin out w s" using assms by (auto simp: streaming_rows_def q)
  let ?row = "direct_row_encoder (pl_layout lib) sch ws now r buf"
  have lo: "parquet_lazy_open lib fac un w d = (w, d, None)" using s(4) by (simp add: parquet_lazy_open_def)
  show ?thesis
  proof (cases "pl_row lib p ?row")
    case (Inl e)
    then show ?thesis using s lo abort_quietly_untouched [OF s(7)]
      by (auto simp: parquet_process_element_def Let_def split: prod.splits)
  next
    case (Inr pb)
    obtain p' b where pb: "pb = (p', b)" by fastforce
    obtain w2 e2 where wr: "stager_write w s b = (w2, e2)" by fastforce
    have st: "\<exists>c'. staged S view temp w0 fin c' w2 s" "e2 = None \<Longrightarrow> staged S view temp w0 fin (out @ b) w2 s"
      using stager_write_staged [OF s(7), of b] wr by auto
    have ab: "untouched view w0 fin (fst (abort_quietly w2 s))" using st(1) abort_quietly_untouched by blast
    show ?thesis using s lo Inr pb wr st(2) ab
      by (cases e2) (auto simp: parquet_process_element_def Let_def q streaming_rows_def parquet_step_def parquet_count_def increment_record_def staged_def
          split: prod.splits)
  qed
qed

lemma parquet_process_all_staged:
  assumes "streaming_rows S view temp w0 fin sch ws q w d" "0 \<le> parquet_count d" "parquet_count d + int (length rs) < 2 ^ 63"
  shows "case process_all (parquet_process_element lib fac un now) w d rs of
     (w', d', None) \<Rightarrow> streaming_rows S view temp w0 fin sch ws (foldl (parquet_step lib sch ws now) q rs) w' d' \<and>
        parquet_count d' = parquet_count d + int (length rs)
   | (w', d', Some e) \<Rightarrow> untouched view w0 fin w'"
  using assms
proof (induction rs arbitrary: q w d)
  case (Cons r rs)
  note step = parquet_process_staged [OF Cons.prems(1), where lib = lib and fac = fac and un = un and now = now and r = r]
  obtain w' d' e where p: "parquet_process_element lib fac un now w d r = (w', d', e)" using prod_cases3 by blast
  show ?case
  proof (cases e)
    case None
    have c: "parquet_count d' = parquet_count d + 1" using step p None Cons.prems(2,3) i64_count [of "parquet_count d"] by simp
    show ?thesis using Cons.IH [of "parquet_step lib sch ws now q r" w' d'] step p None Cons.prems(2,3) c
      by (auto split: prod.splits option.splits)
  qed (use step p in auto)
qed simp

lemma parquet_finish_staged:
  assumes "streaming_rows S view temp w0 fin sch ws (p, buf, out) w d" "parquet_count d \<noteq> 0"
  shows "case parquet_finish_bundle lib w d of (w', d', e) \<Rightarrow>
    all_or_nothing atomic view w0 fin (out @ projr (pl_close lib p)) False w' e"
proof -
  obtain s where s: "ps_writer d = Some p" "ps_stager d = Some s" "staged S view temp w0 fin out w s" "sg_record_count s \<noteq> 0"
    using assms by (auto simp: streaming_rows_def parquet_count_def)
  let ?cl = "parquet_closer lib p s"
  obtain w1 e1 where cl: "?cl w = (w1, e1)" by fastforce
  have "(\<exists>c'. staged S view temp w0 fin c' w1 s) \<and> (e1 = None \<longrightarrow> staged S view temp w0 fin (out @ projr (pl_close lib p)) w1 s)"
    using cl s(3) stager_write_staged [OF s(3), of "projr (pl_close lib p)"] by (auto simp: parquet_closer_def split: sum.splits)
  then obtain c' where c': "staged S view temp w0 fin c' w1 s" "e1 = None \<Longrightarrow> c' = out @ projr (pl_close lib p)"
    by (cases e1) auto
  have "case commit_or_abort (Some ?cl) w s of
     (w', s', None) \<Rightarrow> published view w0 fin c' w'
   | (w', s', Some e) \<Rightarrow> if e1 = None then failed_bundle atomic view w0 fin c' w' else untouched view w0 fin w'"
    using commit_staged [OF s(3,4), of "Some ?cl" c'] c'(1) cl by simp
  moreover have "e1 \<noteq> None \<Longrightarrow> snd (snd (commit_or_abort (Some ?cl) w s)) \<noteq> None"
    using cl s(3) by (auto simp: commit_or_abort_def staged_def split: prod.splits)
  ultimately show ?thesis using s c'(2)
    by (cases "commit_or_abort (Some ?cl) w s")
      (auto simp: parquet_finish_bundle_def all_or_nothing_def failed_untouched split: option.splits if_splits)
qed

lemma parquet_lazy_open_new:
  assumes "ps_writer d = None" "ps_stager d = Some s" "sg_writer s = None" "sg_storage s = Some S" "target (stager_uri un s)" "ps_compiled d"
  shows "case parquet_lazy_open lib fac un w d of
     (w', d', Some e) \<Rightarrow> untouched view w (stager_uri un s) w'
   | (w', d', None) \<Rightarrow> streaming_rows S view temp w (stager_uri un s) (ps_schema d) (ps_source_file d)
        (pl_new lib (build_parquet_schema (ps_schema d) (ps_source_file d)), ps_row_buffer d, []) w' d' \<and> parquet_count d' = sg_record_count s"
  using ensure_open_new [OF assms(3-5), where fac = fac and w = w] assms
  by (auto simp: parquet_lazy_open_def parquet_stager_def streaming_rows_def parquet_count_def split: prod.splits sum.splits)


lemma parquet_rows_bundle:
  assumes "ps_stager d = Some s" "sg_storage s = Some S" "target (stager_uri un s)" "ps_compiled d" "int (length rs) < 2 ^ 63"
  shows "case run_bundle (parquet_start_bundle lib) (parquet_process_element lib fac un now) (parquet_finish_bundle lib) w d rs of (w', d', e) \<Rightarrow>
    all_or_nothing atomic view w (stager_uri un s)
      (case foldl (parquet_step lib (ps_schema d) (ps_source_file d) now)
          (pl_new lib (build_parquet_schema (ps_schema d) (ps_source_file d)), ps_row_buffer (parquet_start_bundle lib d), []) rs of
        (p, buf, out) \<Rightarrow> out @ projr (pl_close lib p)) (rs = []) w' e"
proof (cases rs)
  case Nil
  then show ?thesis using assms(1)
    by (simp add: run_bundle_def parquet_finish_bundle_def parquet_start_bundle_def parquet_stager_def stager_start_bundle_def all_or_nothing_def)
next
  case (Cons r rs')
  define s0 where "s0 = stager_start_bundle s"
  define d0 where "d0 = parquet_start_bundle lib d"
  have d0: "ps_writer d0 = None" "ps_stager d0 = Some s0" "ps_compiled d0" "ps_schema d0 = ps_schema d" "ps_source_file d0 = ps_source_file d"
    using assms by (simp_all add: d0_def s0_def parquet_start_bundle_def parquet_stager_def Let_def)
  have s0: "sg_writer s0 = None" "sg_storage s0 = Some S" "stager_uri un s0 = stager_uri un s" "sg_record_count s0 = 0"
    using assms(2) by (simp_all add: s0_def stager_start_bundle_def stager_uri_def)
  let ?f = "parquet_process_element lib fac un now" and ?u = "stager_uri un s"
  let ?q = "(pl_new lib (build_parquet_schema (ps_schema d) (ps_source_file d)), ps_row_buffer d0, [])"
  note lo = parquet_lazy_open_new [OF d0(1,2) s0(1,2), where un = un and lib = lib and fac = fac and w = w, unfolded s0(3,4) d0(4,5), OF assms(3) d0(3)]
  obtain w1 d1 e1 where o1: "parquet_lazy_open lib fac un w d0 = (w1, d1, e1)" using prod_cases3 by blast
  show ?thesis
  proof (cases e1)
    case (Some e)
    then have "?f w d0 r = (w1, d1, Some e)" using o1 by (simp add: parquet_process_element_def)
    then show ?thesis using lo o1 Some Cons by (simp add: run_bundle_def d0_def all_or_nothing_def failed_untouched)
  next
    case None
    have st1: "streaming_rows S view temp w ?u (ps_schema d) (ps_source_file d) ?q w1 d1" "parquet_count d1 = 0" using lo o1 None by auto
    have "parquet_lazy_open lib fac un w1 d1 = (w1, d1, None)" using st1(1) by (simp add: parquet_lazy_open_def streaming_rows_def)
    then have "?f w d0 r = ?f w1 d1 r" using o1 None by (simp add: parquet_process_element_def)
    then have pa: "process_all ?f w d0 rs = process_all ?f w1 d1 rs" unfolding Cons by simp
    note pall = parquet_process_all_staged [OF st1(1), where lib = lib and fac = fac and un = un and now = now and rs = rs, folded pa, unfolded st1(2)]
    obtain w2 d2 e2 where p: "process_all ?f w d0 rs = (w2, d2, e2)" using prod_cases3 by blast
    obtain p buf out where q: "foldl (parquet_step lib (ps_schema d) (ps_source_file d) now) ?q rs = (p, buf, out)" by (rule prod_cases3)
    show ?thesis
    proof (cases e2)
      case None
      then have "streaming_rows S view temp w ?u (ps_schema d) (ps_source_file d) (p, buf, out) w2 d2" "parquet_count d2 \<noteq> 0"
        using pall p q assms(5) Cons by auto
      from parquet_finish_staged [OF this, of lib] show ?thesis using p q None Cons by (auto simp: run_bundle_def d0_def [symmetric] split: prod.splits)
    qed (use pall p assms(5) in \<open>auto simp: run_bundle_def d0_def [symmetric] all_or_nothing_def failed_untouched\<close>)
  qed
qed

end

text \<open>The file of a bundle: the rows of the records' maps through the library's writer.\<close>

definition parquet_file :: "'p parquet_lib \<Rightarrow> schema \<Rightarrow> bool \<Rightarrow> string \<Rightarrow> generic_record list \<Rightarrow> string" where
  "parquet_file lib s ws now rs =
     (case foldl (\<lambda>(p, out) rec. case pl_row lib p (mapped_row (pl_layout lib) s ws now rec) of Inl _ \<Rightarrow> (p, out) | Inr (p', b) \<Rightarrow> (p', out @ b))
         (pl_new lib (build_parquet_schema s ws), []) rs of (p, out) \<Rightarrow> out @ projr (pl_close lib p))"

lemma parquet_file_rows:
  assumes "layout_ok (pl_layout lib)" "plain_schema s" "list_all (full_record s) rs"
  shows "(case foldl (parquet_step lib s ws now) (pl_new lib (build_parquet_schema s ws), buf, []) rs of (p, buf, out) \<Rightarrow> out @ projr (pl_close lib p)) =
    parquet_file lib s ws now rs"
proof -
  let ?g = "\<lambda>(p, out) rec. case pl_row lib p (mapped_row (pl_layout lib) s ws now rec) of Inl _ \<Rightarrow> (p, out) | Inr (p', b) \<Rightarrow> (p', out @ b)"
  have "(case foldl (parquet_step lib s ws now) (p, buf, out) rs of (p, buf, out) \<Rightarrow> (p, out)) = foldl ?g (p, out) rs" for p buf out
    using assms(3)
  proof (induction rs arbitrary: p buf out)
    case (Cons r rs)
    then show ?case using encoder_is_mapper [OF assms(1,2), of r ws now buf] by (auto simp: parquet_step_def Let_def split: sum.split)
  qed simp
  from this [of "pl_new lib (build_parquet_schema s ws)" buf "[]"] show ?thesis
    by (auto simp: parquet_file_def split: prod.splits)
qed

text \<open>C15. The Parquet sink on local storage, whatever operations of the file system and of the library fail: a bundle that
  ends with an error has changed no file but its temporary one; a bundle that ends well has published in one step the
  library's file of the row maps of all its records, in order, the footer included, and changed no other file; an
  empty bundle changes nothing. The compression and the encryption of the sink are in the name of the file only.\<close>

theorem parquet_sink_all_or_nothing:
  assumes "layout_ok (pl_layout lib)" "plain_schema (ps_schema d)" "list_all (full_record (ps_schema d)) rs" "int (length rs) < 2 ^ 63"
    and "ps_compiled d" "ps_stager d = Some s" "sg_storage s = Some (local_storage E)" "file_name (stager_uri un s)"
  shows "case run_bundle (parquet_start_bundle lib) (parquet_process_element lib fac un now) (parquet_finish_bundle lib) w d rs of (w', d', e) \<Rightarrow>
    all_or_nothing True files w (stager_uri un s) (parquet_file lib (ps_schema d) (ps_source_file d) now rs) (rs = []) w' e"
  using local.parquet_rows_bundle [OF assms(6-8,5,4), where lib = lib and fac = fac and now = now and w = w]
  by (simp only: parquet_file_rows [OF assms(1-3)])

text \<open>A library whose rows are counted, for an example.\<close>

definition counting_lib :: "nat parquet_lib" where
  "counting_lib = \<lparr>pl_layout = map fst, pl_new = (\<lambda>_. 0), pl_row = (\<lambda>n row. Inr (n + 1, if n = 0 then ''PAR1'' else [])),
     pl_close = (\<lambda>n. Inr (format_uint n @ ''PAR1''))\<rparr>"

definition pgp_sink :: "local_env \<Rightarrow> (local_fs, nat) parquet_sink" where
  "pgp_sink E = parquet_setup counting_lib None (new_parquet_sink (Some (local_storage E)) ''/out'' [] ''pgp'' id_schema)"

lemma pgp_sink_parts:
  "ps_stager (pgp_sink E) = Some (new_bundle_file_stager (Some (local_storage E)) ''/out'' ''parquet'' [] ''pgp'' False)"
  "ps_compiled (pgp_sink E)" "ps_schema (pgp_sink E) = id_schema" "ps_source_file (pgp_sink E)"
  by (simp_all add: pgp_sink_def parquet_setup_def parquet_compile_def new_parquet_sink_def parquet_stager_def stager_setup_def new_bundle_file_stager_def)

lemma sample_digits: "format_uint 0 = ''0''" "format_uint 2 = ''2''"
  by code_simp+

lemma pgp_sink_uri:
  "stager_uri (''u'', 0) (new_bundle_file_stager st ''/out'' ''parquet'' [] ''pgp'' False) = ''/out/shard-u-0.parquet.pgp''"
  "file_name ''/out/shard-u-0.parquet.pgp''"
  by (simp_all add: stager_uri_def new_bundle_file_stager_def build_output_uri_def trim_right_set_def path_ext_def
      last_component_def to_lower_def lower_char_def or_default_def compression_ext_def encryption_ext_def file_name_def path_base_def
      format_int_def sample_digits)

theorem parquet_sink_all_or_nothing_witness:
  "case run_bundle (parquet_start_bundle counting_lib) (parquet_process_element counting_lib None (''u'', 0) ''now'') (parquet_finish_bundle counting_lib)
      \<lparr>files = Map.empty, steps = 0\<rparr> (pgp_sink (no_faults (\<lambda>_. 0))) [id_record 1, id_record 2] of (w', d', e) \<Rightarrow>
    all_or_nothing True files \<lparr>files = Map.empty, steps = 0\<rparr> ''/out/shard-u-0.parquet.pgp'' ''PAR12PAR1'' False w' e"
proof -
  have lay: "layout_ok (pl_layout counting_lib)" by (simp add: counting_lib_def entry_order_layout)
  have st: "sg_storage (new_bundle_file_stager st dir ext co en sf) = st" for st :: "local_fs storage option" and dir ext co en sf
    by (simp add: new_bundle_file_stager_def)
  have c: "parquet_file counting_lib id_schema True ''now'' [id_record 1, id_record 2] = ''PAR12PAR1''"
    using sample_digits(2) by (simp add: parquet_file_def counting_lib_def numeral_2_eq_2)
  show ?thesis
    using parquet_sink_all_or_nothing [OF lay, where d = "pgp_sink (no_faults (\<lambda>_. 0))" and rs = "[id_record 1, id_record 2]" and un = "(''u'', 0)" and fac = None
        and s = "new_bundle_file_stager (Some (local_storage (no_faults (\<lambda>_. 0)))) ''/out'' ''parquet'' [] ''pgp'' False" and E = "no_faults (\<lambda>_. 0)"
        and now = "''now''" and w = "\<lparr>files = Map.empty, steps = 0\<rparr>"] id_schema_plain pgp_sink_uri(2)
    by (simp add: pgp_sink_parts c st pgp_sink_uri(1))
qed

end
