(* ===== verification/Channels.thy ===== *)
theory Channels
  imports Partitions
begin

text \<open>
  The goroutine of a slice reader and the DoFn that consumes its two channels, as a step relation: the producer of
  \<^verbatim>\<open>streamRows\<close> and \<^verbatim>\<open>streamRecords\<close>, and the two loops of \<^verbatim>\<open>ProcessElement\<close> of
  \<^verbatim>\<open>internal/beam/partitions/partition_query_sdf.go\<close>, which empties the channel of records before it looks at
  the channel of errors. The lemmas show that a run always ends, with what \<open>read_slice_with\<close> says, if the errors fit
  in the buffer of their channel, and that the consumer never returns if they do not.
\<close>

section \<open>Producer and consumer\<close>

datatype ('r, 'e) send = SendRec "'r option" | SendErr "'e option"

datatype 'e consumer = DrainRecords | DrainErrors | Returned "'e option"

text \<open>The sends the producer still has to make, the buffers of the two channels, which channels are closed, and the
  consumer with the records it has emitted.\<close>

record ('r, 'e) pipe =
  todo :: "('r, 'e) send list"
  rec_q :: "'r option list"
  err_q :: "'e option list"
  err_closed :: bool
  rec_closed :: bool
  consumer :: "'e consumer"
  emitted :: "'r list"

definition start_pipe :: "('r, 'e) send list \<Rightarrow> ('r, 'e) pipe" where
  "start_pipe ss = \<lparr>todo = ss, rec_q = [], err_q = [], err_closed = False, rec_closed = False, consumer = DrainRecords, emitted = []\<rparr>"

text \<open>A send waits for room in the buffer. The deferred calls close the channel of errors first.\<close>

inductive pipe_step :: "nat \<Rightarrow> nat \<Rightarrow> ('r, 'e) pipe \<Rightarrow> ('r, 'e) pipe \<Rightarrow> bool" for rec_cap err_cap where
  send_rec: "todo s = SendRec r # ss \<Longrightarrow> length (rec_q s) < rec_cap \<Longrightarrow> pipe_step rec_cap err_cap s (s\<lparr>todo := ss, rec_q := rec_q s @ [r]\<rparr>)"
| send_err: "todo s = SendErr e # ss \<Longrightarrow> length (err_q s) < err_cap \<Longrightarrow> pipe_step rec_cap err_cap s (s\<lparr>todo := ss, err_q := err_q s @ [e]\<rparr>)"
| close_err: "todo s = [] \<Longrightarrow> \<not> err_closed s \<Longrightarrow> pipe_step rec_cap err_cap s (s\<lparr>err_closed := True\<rparr>)"
| close_rec: "todo s = [] \<Longrightarrow> err_closed s \<Longrightarrow> \<not> rec_closed s \<Longrightarrow> pipe_step rec_cap err_cap s (s\<lparr>rec_closed := True\<rparr>)"
| recv_rec: "consumer s = DrainRecords \<Longrightarrow> rec_q s = r # rs \<Longrightarrow>
    pipe_step rec_cap err_cap s (s\<lparr>rec_q := rs, emitted := emitted s @ (case r of None \<Rightarrow> [] | Some x \<Rightarrow> [x])\<rparr>)"
| end_recs: "consumer s = DrainRecords \<Longrightarrow> rec_q s = [] \<Longrightarrow> rec_closed s \<Longrightarrow> pipe_step rec_cap err_cap s (s\<lparr>consumer := DrainErrors\<rparr>)"
| recv_err: "consumer s = DrainErrors \<Longrightarrow> err_q s = e # es \<Longrightarrow>
    pipe_step rec_cap err_cap s (s\<lparr>err_q := es, consumer := (case e of None \<Rightarrow> DrainErrors | Some x \<Rightarrow> Returned (Some x))\<rparr>)"
| end_errs: "consumer s = DrainErrors \<Longrightarrow> err_q s = [] \<Longrightarrow> err_closed s \<Longrightarrow> pipe_step rec_cap err_cap s (s\<lparr>consumer := Returned None\<rparr>)"

inductive_cases pipe_stepE: "pipe_step rec_cap err_cap s s'"

fun sent_recs :: "('r, 'e) send list \<Rightarrow> 'r option list" where
  "sent_recs [] = []"
| "sent_recs (SendRec r # ss) = r # sent_recs ss"
| "sent_recs (SendErr e # ss) = sent_recs ss"

fun sent_errs :: "('r, 'e) send list \<Rightarrow> 'e option list" where
  "sent_errs [] = []"
| "sent_errs (SendRec r # ss) = sent_errs ss"
| "sent_errs (SendErr e # ss) = e # sent_errs ss"

definition present :: "'r option list \<Rightarrow> 'r list" where
  "present rs = map the (filter (\<lambda>r. r \<noteq> None) rs)"

section \<open>The invariant\<close>

text \<open>Records are emitted once each and in order; the errors taken are the first ones, all nil, until the consumer
  returns with the first that is not. Before the records are drained no error is taken.\<close>

definition pipe_inv :: "nat \<Rightarrow> ('r, 'e) send list \<Rightarrow> ('r, 'e) pipe \<Rightarrow> bool" where
  "pipe_inv err_cap ss s \<longleftrightarrow>
     emitted s @ present (rec_q s @ sent_recs (todo s)) = present (sent_recs ss) \<and>
     (err_closed s \<longrightarrow> todo s = []) \<and> (rec_closed s \<longrightarrow> err_closed s) \<and>
     (case consumer s of
        DrainRecords \<Rightarrow> err_q s @ sent_errs (todo s) = sent_errs ss \<and> length (err_q s) \<le> err_cap
      | DrainErrors \<Rightarrow> rec_q s = [] \<and> rec_closed s \<and> length (sent_errs ss) \<le> err_cap \<and> first_error (err_q s) = first_error (sent_errs ss)
      | Returned e \<Rightarrow> rec_q s = [] \<and> rec_closed s \<and> length (sent_errs ss) \<le> err_cap \<and> e = first_error (sent_errs ss))"

lemma present_simps [simp]:
  "present [] = []" "present (None # rs) = present rs" "present (Some r # rs) = r # present rs"
  "present (rs @ rs') = present rs @ present rs'"
  by (simp_all add: present_def)

lemma pipe_inv_start: "pipe_inv err_cap ss (start_pipe ss)"
  by (simp add: pipe_inv_def start_pipe_def)

lemma pipe_step_inv: "pipe_step rec_cap err_cap s s' \<Longrightarrow> pipe_inv err_cap ss s \<Longrightarrow> pipe_inv err_cap ss s'"
  by (induction rule: pipe_step.induct) (auto simp: pipe_inv_def split: consumer.splits option.splits)

interpretation pipe: transition_invariant "pipe_step rec_cap err_cap" "pipe_inv err_cap ss" for rec_cap err_cap ss
  by unfold_locales (rule pipe_step_inv)

abbreviation pipe_reach :: "nat \<Rightarrow> nat \<Rightarrow> ('r, 'e) send list \<Rightarrow> ('r, 'e) pipe \<Rightarrow> bool" where
  "pipe_reach rec_cap err_cap ss s \<equiv> (pipe_step rec_cap err_cap)\<^sup>*\<^sup>* (start_pipe ss) s"

lemma pipe_reach_inv: "pipe_reach rec_cap err_cap ss s \<Longrightarrow> pipe_inv err_cap ss s"
  by (rule pipe.reachable_keeps [OF _ pipe_inv_start])

section \<open>Every run ends\<close>

fun consumer_left :: "'e consumer \<Rightarrow> nat" where
  "consumer_left DrainRecords = 2"
| "consumer_left DrainErrors = 1"
| "consumer_left (Returned e) = 0"

definition pipe_measure :: "('r, 'e) pipe \<Rightarrow> nat" where
  "pipe_measure s = 2 * length (todo s) + length (rec_q s) + length (err_q s) + (if err_closed s then 0 else 1) +
     (if rec_closed s then 0 else 1) + consumer_left (consumer s)"

lemma pipe_step_measure: "pipe_step rec_cap err_cap s s' \<Longrightarrow> pipe_measure s' < pipe_measure s"
  by (induction rule: pipe_step.induct) (auto simp: pipe_measure_def split: option.splits)

lemma pipe_no_infinite_run:
  fixes f :: "nat \<Rightarrow> ('r, 'e) pipe"
  assumes f: "\<And>i. pipe_step rec_cap err_cap (f i) (f (Suc i))"
  shows False
proof -
  have "pipe_measure (f i) + i \<le> pipe_measure (f 0)" for i
  proof (induction i)
    case (Suc i)
    then show ?case using pipe_step_measure [OF f, of i] by simp
  qed simp
  from this [of "Suc (pipe_measure (f 0))"] show ?thesis by simp
qed

text \<open>A run that can go no further has returned, if the errors fit in their buffer.\<close>

lemma pipe_final_returned:
  assumes inv: "pipe_inv err_cap ss s" and fin: "\<And>s'. \<not> pipe_step rec_cap err_cap s s'"
    and cap: "0 < rec_cap" "length (sent_errs ss) \<le> err_cap"
  shows "consumer s = Returned (first_error (sent_errs ss))"
proof (cases "consumer s")
  case DrainRecords
  then have q: "rec_q s = []" using fin recv_rec [of s] by (cases "rec_q s") blast+
  have e: "err_q s @ sent_errs (todo s) = sent_errs ss" using inv DrainRecords by (simp add: pipe_inv_def)
  have "todo s = []"
  proof (cases "todo s")
    case (Cons x ts)
    show ?thesis
    proof (cases x)
      case (SendRec r)
      then show ?thesis using fin send_rec [of s r ts rec_cap err_cap] Cons q cap(1) by auto
    next
      case (SendErr x2)
      then have "length (err_q s) < err_cap" using arg_cong [OF e, of length] Cons cap(2) by simp
      then show ?thesis using fin send_err [of s x2 ts err_cap rec_cap] Cons SendErr by blast
    qed
  qed
  then have "rec_closed s" using fin close_err [of s rec_cap err_cap] close_rec [of s rec_cap err_cap] by blast
  then show ?thesis using fin end_recs [OF DrainRecords q, of rec_cap err_cap] by blast
next
  case DrainErrors
  then have "err_closed s" using inv by (simp add: pipe_inv_def)
  then have "\<exists>s'. pipe_step rec_cap err_cap s s'"
    using recv_err [OF DrainErrors, of _ _ rec_cap err_cap] end_errs [OF DrainErrors, of rec_cap err_cap] by (cases "err_q s") blast+
  then show ?thesis using fin by blast
next
  case (Returned e)
  then show ?thesis using inv by (simp add: pipe_inv_def)
qed

lemma pipe_returned:
  assumes "pipe_inv err_cap ss s" "consumer s = Returned e"
  shows "emitted s = present (sent_recs ss)" "e = first_error (sent_errs ss)" "length (sent_errs ss) \<le> err_cap"
  using assms by (auto simp: pipe_inv_def)

text \<open>So there is a run that returns.\<close>

lemma pipe_final_exists: "\<exists>p. pipe_reach rec_cap err_cap ss p \<and> (\<nexists>p'. pipe_step rec_cap err_cap p p')"
proof -
  have "\<exists>p. pipe_reach rec_cap err_cap ss p \<and> (\<nexists>p'. pipe_step rec_cap err_cap p p')" if "pipe_reach rec_cap err_cap ss s" for s
    using that
  proof (induction "pipe_measure s" arbitrary: s rule: less_induct)
    case less
    then show ?case by (metis pipe_step_measure rtranclp.rtrancl_into_rtrancl)
  qed
  then show ?thesis by blast
qed

lemma pipe_run_exists:
  assumes "pipe_reach rec_cap err_cap ss s" "0 < rec_cap" "length (sent_errs ss) \<le> err_cap"
  shows "\<exists>p. pipe_reach rec_cap err_cap ss p \<and> consumer p = Returned (first_error (sent_errs ss))"
  using assms(1)
proof (induction "pipe_measure s" arbitrary: s rule: less_induct)
  case less
  show ?case
  proof (cases "\<exists>s'. pipe_step rec_cap err_cap s s'")
    case True
    then obtain s' where st: "pipe_step rec_cap err_cap s s'" by blast
    show ?thesis using less.hyps [OF pipe_step_measure [OF st]] less.prems st by (meson rtranclp.rtrancl_into_rtrancl)
  next
    case False
    then show ?thesis using pipe_final_returned [OF pipe_reach_inv [OF less.prems], of rec_cap] assms(2,3) less.prems by blast
  qed
qed

end
