(* ===== verification/SQL_Source.thy ===== *)
theory SQL_Source
  imports Channels Config Resilience
begin

text \<open>
  The reader of relational databases, \<^verbatim>\<open>internal/adapters/partitions/sql/\<close>: \<^verbatim>\<open>type_mapper.go\<close>,
  \<^verbatim>\<open>generic_sql_source.go\<close>, \<^verbatim>\<open>connection_pool.go\<close>, \<^verbatim>\<open>factory.go\<close> and \<^verbatim>\<open>init.go\<close>. The driver behind \<^verbatim>\<open>database/sql\<close> is an
  argument. The slice reader is run together with the DoFn that consumes it, as the step relation of theory Channels.
\<close>

section \<open>ScanTargetHolder (type_mapper.go)\<close>

text \<open>The destinations of a scan; \<^term>\<open>None\<close> is an invalid \<^verbatim>\<open>sql.Null\<close> value or a nil slice.\<close>

datatype scan_target =
    NullInt64 "int option" | NullFloat64 "u64 option" | NullBool "bool option" | NullTime "int option"
  | RawBytes "string option" | NullString "string option"

definition scan_target_for :: "data_type \<Rightarrow> scan_target" where
  "scan_target_for t = (case t of
      TypeInt64 \<Rightarrow> NullInt64 None | TypeFloat64 \<Rightarrow> NullFloat64 None | TypeBool \<Rightarrow> NullBool None
    | TypeTimestamp \<Rightarrow> NullTime None | TypeBytes \<Rightarrow> RawBytes None | _ \<Rightarrow> NullString None)"

definition new_scan_target_holder :: "schema \<Rightarrow> scan_target list" where
  "new_scan_target_holder s = map (\<lambda>f. scan_target_for (field_type f)) (sch_fields s)"

text \<open>The type switch of \<^verbatim>\<open>mapColumn\<close>; a failed type assertion panics: \<^term>\<open>None\<close>.\<close>

definition map_column :: "scan_target \<Rightarrow> nat \<Rightarrow> field \<Rightarrow> generic_record \<Rightarrow> generic_record option" where
  "map_column target i f rec = (case field_type f of
      TypeInt64 \<Rightarrow> (case target of NullInt64 None \<Rightarrow> set_null rec i TypeInt64 | NullInt64 (Some v) \<Rightarrow> set_int64 rec i v | _ \<Rightarrow> None)
    | TypeFloat64 \<Rightarrow> (case target of NullFloat64 None \<Rightarrow> set_null rec i TypeFloat64 | NullFloat64 (Some v) \<Rightarrow> set_float64 rec i v | _ \<Rightarrow> None)
    | TypeBool \<Rightarrow> (case target of NullBool None \<Rightarrow> set_null rec i TypeBool | NullBool (Some v) \<Rightarrow> set_bool rec i v | _ \<Rightarrow> None)
    | TypeTimestamp \<Rightarrow> (case target of NullTime None \<Rightarrow> set_null rec i TypeTimestamp | NullTime (Some v) \<Rightarrow> set_timestamp rec i v | _ \<Rightarrow> None)
    | TypeBytes \<Rightarrow> (case target of RawBytes None \<Rightarrow> set_null rec i TypeBytes | RawBytes (Some v) \<Rightarrow> set_bytes rec i v | _ \<Rightarrow> None)
    | _ \<Rightarrow> (case target of NullString None \<Rightarrow> set_null rec i TypeString | NullString (Some v) \<Rightarrow> set_string rec i v | _ \<Rightarrow> None))"

fun map_columns :: "scan_target list \<Rightarrow> nat \<Rightarrow> field list \<Rightarrow> generic_record \<Rightarrow> generic_record option" where
  "map_columns ts i [] rec = Some rec"
| "map_columns [] i (f # fs) rec = None"
| "map_columns (t # ts) i (f # fs) rec = (case map_column t i f rec of None \<Rightarrow> None | Some rec' \<Rightarrow> map_columns ts (Suc i) fs rec')"

definition extract_record :: "go_env \<Rightarrow> int \<Rightarrow> schema \<Rightarrow> scan_target list \<Rightarrow> generic_record option" where
  "extract_record env now s ts =
     map_option (\<lambda>rec. rec\<lparr>audit_fields := gm_set (audit_fields rec) ''_ingested_at'' (time_format_rfc3339 env now)\<rparr>)
       (map_columns ts 0 (sch_fields s) (new_generic_record ''sql-schema'' (length (sch_fields s))))"

section \<open>GenericSQLSource (generic_sql_source.go)\<close>

text \<open>The driver: a query yields an error or its rows, with the error that ends their iteration, if any. Scanning a row
  into the targets of a holder fills them all, or fails; scanning a row of the bounds query gives a bucket.\<close>

record ('k, 'row) sql_driver =
  run_query :: "string \<Rightarrow> 'k option list \<Rightarrow> string + 'row list \<times> string option"
  scan_bucket :: "'row \<Rightarrow> string + 'k raw_bucket"
  scan_cells :: "'row \<Rightarrow> scan_target list \<Rightarrow> string + scan_target list"

record ('k, 'row) sql_source =
  sq_db :: "('k, 'row) sql_driver option"
  sq_dollar :: bool
  sq_cb :: "circuit_breaker option"

datatype sql_error =
    SqlCircuitOpen | DbNotInitialized | DriverError string | ResolvingQuery query_error | BoundsQueryFailed sql_error
  | ScanningBounds string | BoundsIteration string | SliceQueryFailed sql_error | ScanError string | RowsIteration string | InvalidConfig string

definition new_generic_sql_source :: "int \<Rightarrow> ('k, 'row) sql_driver option \<Rightarrow> bool \<Rightarrow> ('k, 'row) sql_source" where
  "new_generic_sql_source now db dollar = \<lparr>sq_db = db, sq_dollar = dollar,
     sq_cb = (case new_circuit_breaker now \<lparr>st_name = ''sql-source-cb'', st_max_failures = 5, st_timeout = 10000 * 1000000, st_half_open_limit = 0\<rparr> of
        Inl _ \<Rightarrow> None | Inr cb \<Rightarrow> Some cb)\<rparr>"

definition with_circuit_breaker :: "('k, 'row) sql_source \<Rightarrow> circuit_breaker option \<Rightarrow> ('k, 'row) sql_source" where
  "with_circuit_breaker s cb = s\<lparr>sq_cb := cb\<rparr>"

text \<open>The times are those at which the breaker reads the clock.\<close>

definition query_with_circuit_breaker ::
  "int \<Rightarrow> int \<Rightarrow> ('k, 'row) sql_source \<Rightarrow> string \<Rightarrow> 'k option list \<Rightarrow> ('k, 'row) sql_source \<times> (sql_error + 'row list \<times> string option)" where
  "query_with_circuit_breaker t1 t2 s q args = (case sq_db s of
      None \<Rightarrow> (s, Inl DbNotInitialized)
    | Some d \<Rightarrow> (case sq_cb s of
        None \<Rightarrow> (s, case run_query d q args of Inl e \<Rightarrow> Inl (DriverError e) | Inr rows \<Rightarrow> Inr rows)
      | Some cb \<Rightarrow>
          (case execute t1 t2 (case run_query d q args of Inl e \<Rightarrow> Some e | Inr _ \<Rightarrow> None) cb of
             (cb', ErrCircuitOpen) \<Rightarrow> (s\<lparr>sq_cb := Some cb'\<rparr>, Inl SqlCircuitOpen)
           | (cb', FnReturned _) \<Rightarrow>
               (s\<lparr>sq_cb := Some cb'\<rparr>, case run_query d q args of Inl e \<Rightarrow> Inl (DriverError e) | Inr rows \<Rightarrow> Inr rows))))"

text \<open>The test of \<^verbatim>\<open>State\<close> at the head of both operations, which may also move the breaker.\<close>

definition breaker_is_open :: "int \<Rightarrow> ('k, 'row) sql_source \<Rightarrow> ('k, 'row) sql_source \<times> bool" where
  "breaker_is_open t s = (case sq_cb s of
      None \<Rightarrow> (s, False)
    | Some cb \<Rightarrow> (case breaker_query t cb of (cb', st) \<Rightarrow> (s\<lparr>sq_cb := Some cb'\<rparr>, st = StateOpen)))"

fun scan_raw_buckets :: "('row \<Rightarrow> string + 'k raw_bucket) \<Rightarrow> 'row list \<Rightarrow> string option \<Rightarrow> sql_error + 'k raw_bucket list" where
  "scan_raw_buckets sc [] err = (case err of None \<Rightarrow> Inr [] | Some e \<Rightarrow> Inl (BoundsIteration e))"
| "scan_raw_buckets sc (r # rs) err = (case sc r of
      Inl e \<Rightarrow> Inl (ScanningBounds e)
    | Inr b \<Rightarrow> (case scan_raw_buckets sc rs err of Inl e \<Rightarrow> Inl e | Inr bs \<Rightarrow> Inr (b # bs)))"

definition calculate_slices ::
  "wm_env \<Rightarrow> int \<Rightarrow> int \<Rightarrow> int \<Rightarrow> ('k, 'row) sql_source \<Rightarrow> database_source_config \<Rightarrow>
   ('k, 'row) sql_source \<times> (sql_error + 'k partition_slice list)" where
  "calculate_slices env t0 t1 t2 s cfg =
     (case breaker_is_open t0 s of (s1, is_open) \<Rightarrow>
        if is_open then (s1, Inl SqlCircuitOpen)
        else let col = trim_space (pc_partition_column (ds_partition cfg)) in
          if col = [] then (s1, Inr [full_slice])
          else (case effective_query env cfg of
              Inl e \<Rightarrow> (s1, Inl (ResolvingQuery e))
            | Inr q \<Rightarrow>
                (case query_with_circuit_breaker t1 t2 s1 (build_universal_bounds_query q col (pc_batch_size (ds_partition cfg))) [] of
                   (s2, Inl e) \<Rightarrow> (s2, Inl (BoundsQueryFailed e))
                 | (s2, Inr (rows, err)) \<Rightarrow>
                     (case sq_db s2 of
                        None \<Rightarrow> (s2, Inl DbNotInitialized)
                      | Some d \<Rightarrow> (case scan_raw_buckets (scan_bucket d) rows err of
                          Inl e \<Rightarrow> (s2, Inl e)
                        | Inr bs \<Rightarrow> (s2, Inr (construct_contiguous_slices bs)))))))"

text \<open>The goroutine: what \<^verbatim>\<open>streamRows\<close> sends on its two channels; \<open>clk n\<close> is the time read for the \<open>n\<close>-th row. A
  panic in it is \<^term>\<open>None\<close>.\<close>

fun stream_rows ::
  "go_env \<Rightarrow> (nat \<Rightarrow> int) \<Rightarrow> ('row \<Rightarrow> scan_target list \<Rightarrow> string + scan_target list) \<Rightarrow> schema \<Rightarrow> nat \<Rightarrow> 'row list \<Rightarrow> string option \<Rightarrow>
   (generic_record, sql_error) send list option" where
  "stream_rows env clk sc sch n [] err = Some (case err of None \<Rightarrow> [] | Some e \<Rightarrow> [SendErr (Some (RowsIteration e))])"
| "stream_rows env clk sc sch n (r # rs) err =
     (case sc r (new_scan_target_holder sch) of
        Inl e \<Rightarrow> map_option (\<lambda>ss. SendErr (Some (ScanError e)) # ss) (stream_rows env clk sc sch (Suc n) rs err)
      | Inr ts \<Rightarrow> (case extract_record env (clk n) sch ts of
          None \<Rightarrow> None
        | Some rec \<Rightarrow> map_option (\<lambda>ss. SendRec (Some rec) # ss) (stream_rows env clk sc sch (Suc n) rs err)))"

definition read_slice ::
  "go_env \<Rightarrow> wm_env \<Rightarrow> (nat \<Rightarrow> int) \<Rightarrow> int \<Rightarrow> int \<Rightarrow> int \<Rightarrow> ('k, 'row) sql_source \<Rightarrow> database_source_config \<Rightarrow> 'k partition_slice \<Rightarrow>
   ('k, 'row) sql_source \<times> (sql_error + (generic_record, sql_error) send list option)" where
  "read_slice genv env clk t0 t1 t2 s cfg sl =
     (case breaker_is_open t0 s of (s1, is_open) \<Rightarrow>
        if is_open then (s1, Inl SqlCircuitOpen)
        else let col = trim_space (pc_partition_column (ds_partition cfg)) in
          (case effective_query env cfg of
             Inl e \<Rightarrow> (s1, Inl (ResolvingQuery e))
           | Inr q \<Rightarrow>
               (case build_worker_slice_query q col sl (sq_dollar s1) of (query, args) \<Rightarrow>
                  (case query_with_circuit_breaker t1 t2 s1 query args of
                     (s2, Inl e) \<Rightarrow> (s2, Inl (SliceQueryFailed e))
                   | (s2, Inr (rows, err)) \<Rightarrow>
                       (case sq_db s2 of
                          None \<Rightarrow> (s2, Inl DbNotInitialized)
                        | Some d \<Rightarrow> (s2, Inr (stream_rows genv clk (scan_cells d) (ds_schema cfg) 0 rows err)))))))"

text \<open>The two operations of \<^verbatim>\<open>PartitionedReader\<close>: the configuration they are given is of type \<^verbatim>\<open>any\<close>, and of another dynamic type it is
  known by that type's name only.\<close>

datatype reader_config = DatabaseConfig database_source_config | OtherConfig string

definition invalid_config :: "string \<Rightarrow> string" where
  "invalid_config t = ''invalid config type '' @ t @ '' for SQL partitioned reader, expected *domain.DatabaseSourceConfig''"

definition sql_calculate_partitions ::
  "wm_env \<Rightarrow> int \<Rightarrow> int \<Rightarrow> int \<Rightarrow> ('k, 'row) sql_source \<Rightarrow> reader_config \<Rightarrow> ('k, 'row) sql_source \<times> (sql_error + 'k partition_slice list)" where
  "sql_calculate_partitions env t0 t1 t2 s src = (case src of
      OtherConfig t \<Rightarrow> (s, Inl (InvalidConfig (invalid_config t)))
    | DatabaseConfig cfg \<Rightarrow> calculate_slices env t0 t1 t2 s cfg)"

definition sql_read_partition ::
  "go_env \<Rightarrow> wm_env \<Rightarrow> (nat \<Rightarrow> int) \<Rightarrow> int \<Rightarrow> int \<Rightarrow> int \<Rightarrow> ('k, 'row) sql_source \<Rightarrow> reader_config \<Rightarrow> 'k partition_slice \<Rightarrow>
   ('k, 'row) sql_source \<times> (sql_error + (generic_record, sql_error) send list option)" where
  "sql_read_partition genv env clk t0 t1 t2 s src sl = (case src of
      OtherConfig t \<Rightarrow> (s, Inl (InvalidConfig (invalid_config t)))
    | DatabaseConfig cfg \<Rightarrow> read_slice genv env clk t0 t1 t2 s cfg sl)"

text \<open>The buffers of the two channels.\<close>

definition sql_rec_cap :: nat where "sql_rec_cap = 100"
definition sql_err_cap :: nat where "sql_err_cap = 100"

section \<open>Scanned values have the type of their column\<close>

fun same_kind :: "scan_target \<Rightarrow> scan_target \<Rightarrow> bool" where
  "same_kind (NullInt64 _) (NullInt64 _) = True"
| "same_kind (NullFloat64 _) (NullFloat64 _) = True"
| "same_kind (NullBool _) (NullBool _) = True"
| "same_kind (NullTime _) (NullTime _) = True"
| "same_kind (RawBytes _) (RawBytes _) = True"
| "same_kind (NullString _) (NullString _) = True"
| "same_kind _ _ = False"

text \<open>A scan writes through the pointers it is given: it cannot change what kind of value they point to.\<close>

definition typed_scan :: "('row \<Rightarrow> scan_target list \<Rightarrow> string + scan_target list) \<Rightarrow> bool" where
  "typed_scan sc \<longleftrightarrow> (\<forall>r ts ts'. sc r ts = Inr ts' \<longrightarrow> list_all2 same_kind ts ts')"

definition column_type :: "data_type \<Rightarrow> data_type" where
  "column_type t = (case t of TypeInt64 \<Rightarrow> TypeInt64 | TypeFloat64 \<Rightarrow> TypeFloat64 | TypeBool \<Rightarrow> TypeBool
     | TypeTimestamp \<Rightarrow> TypeTimestamp | TypeBytes \<Rightarrow> TypeBytes | _ \<Rightarrow> TypeString)"

definition column_value :: "scan_target \<Rightarrow> data_type \<Rightarrow> field_value" where
  "column_value t ty = (case t of
      NullInt64 (Some v) \<Rightarrow> zero_value\<lparr>fv_type := TypeInt64, num_val := word_of_int v\<rparr>
    | NullFloat64 (Some v) \<Rightarrow> zero_value\<lparr>fv_type := TypeFloat64, num_val := v\<rparr>
    | NullBool (Some v) \<Rightarrow> zero_value\<lparr>fv_type := TypeBool, num_val := (if v then 1 else 0)\<rparr>
    | NullTime (Some v) \<Rightarrow> zero_value\<lparr>fv_type := TypeTimestamp, num_val := word_of_int v\<rparr>
    | RawBytes (Some v) \<Rightarrow> zero_value\<lparr>fv_type := TypeBytes, str_val := v\<rparr>
    | NullString (Some v) \<Rightarrow> zero_value\<lparr>fv_type := TypeString, str_val := v\<rparr>
    | _ \<Rightarrow> zero_value\<lparr>fv_type := column_type ty, is_null := True\<rparr>)"

lemma map_column_value:
  assumes "same_kind (scan_target_for (field_type f)) t"
  shows "map_column t i f rec = set_value rec i (column_value t (field_type f))"
  using assms
  by (cases "field_type f"; cases t)
    (auto simp: map_column_def scan_target_for_def column_value_def column_type_def set_null_def set_int64_def set_float64_def set_bool_def
      set_timestamp_def set_bytes_def set_string_def split: option.splits)

lemma column_value_type:
  "same_kind (scan_target_for ty) t \<Longrightarrow> fv_type (column_value t ty) = column_type ty"
  by (cases ty; cases t) (auto simp: scan_target_for_def column_value_def column_type_def split: option.splits)

lemma map_columns_value:
  "list_all2 (\<lambda>f t. same_kind (scan_target_for (field_type f)) t) fs ts \<Longrightarrow> i + length fs = length (vals rec) \<Longrightarrow>
   map_columns ts i fs rec = Some (rec\<lparr>vals := take i (vals rec) @ map2 (\<lambda>f t. column_value t (field_type f)) fs ts\<rparr>)"
proof (induction fs ts arbitrary: i rec rule: list_all2_induct)
  case (Cons f fs t ts)
  have i: "i < length (vals rec)" using Cons.prems by simp
  let ?v = "column_value t (field_type f)"
  have "map_columns ts (Suc i) fs (rec\<lparr>vals := (vals rec)[i := ?v]\<rparr>) =
      Some (rec\<lparr>vals := (take (Suc i) ((vals rec)[i := ?v])) @ map2 (\<lambda>f t. column_value t (field_type f)) fs ts\<rparr>)"
    using Cons.IH [of "Suc i" "rec\<lparr>vals := (vals rec)[i := ?v]\<rparr>"] Cons.prems by simp
  then show ?case using Cons.hyps(1) i by (simp add: map_column_value set_value_def take_Suc_conv_app_nth)
qed simp

text \<open>The values of a scanned row.\<close>

definition row_values :: "schema \<Rightarrow> scan_target list \<Rightarrow> field_value list" where
  "row_values s ts = map2 (\<lambda>f t. column_value t (field_type f)) (sch_fields s) ts"

lemma extract_record_values:
  assumes "list_all2 same_kind (new_scan_target_holder s) ts"
  shows "\<exists>rec. extract_record env now s ts = Some rec \<and> vals rec = row_values s ts"
proof -
  have "list_all2 (\<lambda>f t. same_kind (scan_target_for (field_type f)) t) (sch_fields s) ts"
    using assms by (simp add: new_scan_target_holder_def list_all2_map1)
  from map_columns_value [OF this] show ?thesis by (simp add: extract_record_def new_generic_record_def row_values_def)
qed

lemma row_values_typed:
  assumes "list_all2 same_kind (new_scan_target_holder s) ts"
  shows "map fv_type (row_values s ts) = map (\<lambda>f. column_type (field_type f)) (sch_fields s)"
proof -
  have "list_all2 (\<lambda>f t. same_kind (scan_target_for (field_type f)) t) (sch_fields s) ts"
    using assms by (simp add: new_scan_target_holder_def list_all2_map1)
  then show ?thesis unfolding row_values_def by (induction rule: list_all2_induct) (auto simp: column_value_type)
qed

section \<open>What the goroutine sends\<close>

definition scan_failed :: "('row \<Rightarrow> scan_target list \<Rightarrow> string + scan_target list) \<Rightarrow> schema \<Rightarrow> 'row \<Rightarrow> bool" where
  "scan_failed sc sch r \<longleftrightarrow> isl (sc r (new_scan_target_holder sch))"

text \<open>Every row is accounted for: a row that scans gives one record with its values, in order, and any other one error.\<close>

lemma stream_rows_sends:
  assumes "typed_scan sc"
  shows "\<exists>ss. stream_rows env clk sc sch n rows err = Some ss \<and>
    map (\<lambda>r. vals (the r)) (sent_recs ss) = map (\<lambda>r. row_values sch (projr (sc r (new_scan_target_holder sch)))) (filter (\<lambda>r. \<not> scan_failed sc sch r) rows) \<and>
    None \<notin> set (sent_recs ss) \<and>
    length (sent_errs ss) = length (filter (scan_failed sc sch) rows) + (if err = None then 0 else 1) \<and> None \<notin> set (sent_errs ss)"
proof (induction rows arbitrary: n)
  case Nil
  then show ?case by (cases err) simp_all
next
  case (Cons r rows)
  obtain ss where ss: "stream_rows env clk sc sch (Suc n) rows err = Some ss"
    "map (\<lambda>r. vals (the r)) (sent_recs ss) = map (\<lambda>r. row_values sch (projr (sc r (new_scan_target_holder sch)))) (filter (\<lambda>r. \<not> scan_failed sc sch r) rows)"
    "None \<notin> set (sent_recs ss)" "length (sent_errs ss) = length (filter (scan_failed sc sch) rows) + (if err = None then 0 else 1)"
    "None \<notin> set (sent_errs ss)" using Cons.IH by blast
  show ?case
  proof (cases "sc r (new_scan_target_holder sch)")
    case (Inl e)
    then have "scan_failed sc sch r" by (simp add: scan_failed_def)
    then show ?thesis using ss Inl by simp
  next
    case (Inr ts)
    then have "list_all2 same_kind (new_scan_target_holder sch) ts" using assms unfolding typed_scan_def by blast
    from extract_record_values [OF this, of env "clk n"] obtain rec where
      "extract_record env (clk n) sch ts = Some rec" "vals rec = row_values sch ts" by blast
    moreover have "\<not> scan_failed sc sch r" using Inr by (simp add: scan_failed_def)
    ultimately show ?thesis using ss Inr by simp
  qed
qed

lemma stream_rows_typed:
  assumes "typed_scan sc" "stream_rows env clk sc sch n rows err = Some ss" "Some rec \<in> set (sent_recs ss)"
  shows "map fv_type (vals rec) = map (\<lambda>f. column_type (field_type f)) (sch_fields sch)"
proof -
  obtain ss' where ss': "stream_rows env clk sc sch n rows err = Some ss'"
    "map (\<lambda>r. vals (the r)) (sent_recs ss') = map (\<lambda>r. row_values sch (projr (sc r (new_scan_target_holder sch)))) (filter (\<lambda>r. \<not> scan_failed sc sch r) rows)"
    using stream_rows_sends [OF assms(1)] by blast
  have "vals rec \<in> set (map (\<lambda>r. vals (the r)) (sent_recs ss'))" using assms(2,3) ss'(1) by force
  then obtain r where r: "\<not> scan_failed sc sch r" "vals rec = row_values sch (projr (sc r (new_scan_target_holder sch)))"
    unfolding ss'(2) by auto
  obtain ts where ts: "sc r (new_scan_target_holder sch) = Inr ts" using r(1) by (cases "sc r (new_scan_target_holder sch)") (auto simp: scan_failed_def)
  then have "list_all2 same_kind (new_scan_target_holder sch) ts" using assms(1) unfolding typed_scan_def by blast
  from row_values_typed [OF this] show ?thesis using r(2) ts by simp
qed

section \<open>The breaker and the queries\<close>

text \<open>While its breaker is closed, or absent, a source whose queries succeed does not change.\<close>

definition breaker_closed :: "('k, 'row) sql_source \<Rightarrow> bool" where
  "breaker_closed s \<longleftrightarrow> (case sq_cb s of None \<Rightarrow> True | Some cb \<Rightarrow> cb_state cb = StateClosed)"

lemma breaker_closed_not_open: "breaker_closed s \<Longrightarrow> breaker_is_open t s = (s, False)"
  by (cases "sq_cb s") (auto simp: breaker_closed_def breaker_is_open_def breaker_query_def check_state_transition_def)

lemma query_closed:
  assumes "breaker_closed s" "sq_db s = Some d" "run_query d q args = Inr rows"
  shows "query_with_circuit_breaker t1 t2 s q args = (s, Inr rows)"
  using assms
  by (cases "sq_cb s") (auto simp: breaker_closed_def query_with_circuit_breaker_def execute_def execute_enter_def execute_leave_def
      check_state_transition_def Let_def)

lemma scan_raw_buckets_ok: "list_all2 (\<lambda>r b. sc r = Inr b) rs bs \<Longrightarrow> scan_raw_buckets sc rs None = Inr bs"
  by (induction rule: list_all2_induct) simp_all

section \<open>Properties\<close>


definition id_name_schema :: schema where
  "id_name_schema = \<lparr>sch_fields = [zero_field\<lparr>field_name := ''id'', field_type := TypeInt64\<rparr>, zero_field\<lparr>field_name := ''price'', field_type := TypeDecimal\<rparr>],
     name_idx = None\<rparr>"

definition nat_scan :: "nat \<Rightarrow> scan_target list \<Rightarrow> string + scan_target list" where
  "nat_scan n ts = (if n < 5 then Inr (map (\<lambda>t. case t of NullInt64 _ \<Rightarrow> NullInt64 (Some (int n)) | _ \<Rightarrow> t) ts) else Inl ''bad row'')"

lemma nat_scan_typed: "typed_scan nat_scan"
proof -
  have "same_kind t (case t of NullInt64 _ \<Rightarrow> NullInt64 (Some (int n)) | _ \<Rightarrow> t)" for t n by (cases t) simp_all
  then show ?thesis by (auto simp: typed_scan_def nat_scan_def list_all2_map2 list.rel_refl split: if_splits)
qed


text \<open>C35. A slice read through the two channels: no interleaving of the goroutine and the DoFn runs for ever, and if the
  number of errors is at most the buffer of the channel of errors, every run that can go no further has returned,
  with the records emitted in order and the first error as \<^verbatim>\<open>ProcessElement\<close>'s loops define them.\<close>

theorem slice_run_returns:
  fixes ss :: "('r, 'e) send list"
  assumes "length (sent_errs ss) \<le> sql_err_cap"
  shows "(\<nexists>f :: nat \<Rightarrow> ('r, 'e) pipe. \<forall>i. pipe_step sql_rec_cap sql_err_cap (f i) (f (Suc i))) \<and>
    (\<forall>s. pipe_reach sql_rec_cap sql_err_cap ss s \<longrightarrow> (\<nexists>s'. pipe_step sql_rec_cap sql_err_cap s s') \<longrightarrow>
       (\<exists>e. consumer s = Returned e \<and>
         (emitted s, map_option ErrorInSlice e) = read_slice_with (Some (\<lambda>_. Inr (sent_recs ss, sent_errs ss))) sl))"
proof (intro conjI allI impI)
  show "\<nexists>f :: nat \<Rightarrow> ('r, 'e) pipe. \<forall>i. pipe_step sql_rec_cap sql_err_cap (f i) (f (Suc i))"
    using pipe_no_infinite_run [where 'r = 'r and 'e = 'e] by blast
next
  fix s assume r: "pipe_reach sql_rec_cap sql_err_cap ss s" and f: "\<nexists>s'. pipe_step sql_rec_cap sql_err_cap s s'"
  have c: "consumer s = Returned (first_error (sent_errs ss))"
    using pipe_final_returned [OF pipe_reach_inv [OF r], of sql_rec_cap] f assms by (auto simp: sql_rec_cap_def)
  moreover have "emitted s = present (sent_recs ss)" by (rule pipe_returned(1) [OF pipe_reach_inv [OF r] c])
  ultimately show "\<exists>e. consumer s = Returned e \<and>
         (emitted s, map_option ErrorInSlice e) = read_slice_with (Some (\<lambda>_. Inr (sent_recs ss, sent_errs ss))) sl"
    by (simp add: read_slice_with_def present_def)
qed

theorem slice_run_returns_witness:
  "\<exists>s. pipe_reach sql_rec_cap sql_err_cap [SendRec (Some 1), SendErr (Some ''e''), SendRec (Some (2::nat))] s \<and>
     emitted s = [1, 2] \<and> consumer s = Returned (Some ''e'')"
proof -
  let ?ss = "[SendRec (Some 1), SendErr (Some ''e''), SendRec (Some (2::nat))]"
  obtain s where s: "pipe_reach sql_rec_cap sql_err_cap ?ss s" "\<nexists>s'. pipe_step sql_rec_cap sql_err_cap s s'" using pipe_final_exists by blast
  then have "emitted s = [1, 2] \<and> consumer s = Returned (Some ''e'')"
    using slice_run_returns [of ?ss "()"] by (auto simp: sql_err_cap_def read_slice_with_def)
  then show ?thesis using s(1) by blast
qed

text \<open>C36. The DoFn takes no error before the channel of records is closed, and the goroutine closes it only after its
  last send: when more rows fail to scan than the channel of errors has room for, no run of the two ever returns.\<close>

theorem sql_errors_block_reader:
  assumes "typed_scan sc" "length (filter (scan_failed sc sch) rows) > sql_err_cap"
  shows "\<exists>ss. stream_rows env clk sc sch n rows err = Some ss \<and>
    (\<forall>s e. pipe_reach sql_rec_cap sql_err_cap ss s \<longrightarrow> consumer s \<noteq> Returned e)"
proof -
  obtain ss where ss: "stream_rows env clk sc sch n rows err = Some ss"
    "length (sent_errs ss) = length (filter (scan_failed sc sch) rows) + (if err = None then 0 else 1)"
    using stream_rows_sends [OF assms(1), of env clk sch n rows err] by blast
  have "consumer s \<noteq> Returned e" if "pipe_reach sql_rec_cap sql_err_cap ss s" for s e
    using pipe_returned(3) [OF pipe_reach_inv [OF that]] ss(2) assms(2) by fastforce
  then show ?thesis using ss(1) by blast
qed

theorem sql_errors_block_reader_witness:
  "\<exists>ss. stream_rows sample_env (\<lambda>_. 0) nat_scan id_name_schema 0 (replicate 101 9) None = Some ss \<and>
    {(s, e). pipe_reach sql_rec_cap sql_err_cap ss s \<and> consumer s = Returned e} = {}"
proof -
  have "length (filter (scan_failed nat_scan id_name_schema) (replicate 101 9)) > sql_err_cap"
    by (simp add: scan_failed_def nat_scan_def sql_err_cap_def)
  from sql_errors_block_reader [OF nat_scan_typed this, of sample_env "\<lambda>_. 0" 0 None] show ?thesis by (auto simp del: stream_rows.simps)
qed

section \<open>Reading a whole table\<close>

text \<open>A table behind the driver: its rows, the key of a row, what a query selects, and how a row scans.\<close>

definition serves_table ::
  "('k :: linorder, 'row) sql_driver \<Rightarrow> (string \<Rightarrow> 'k option list \<Rightarrow> 'k option \<Rightarrow> bool) \<Rightarrow> ('row \<Rightarrow> 'k option) \<Rightarrow> 'row list \<Rightarrow>
   ('row \<Rightarrow> scan_target list) \<Rightarrow> schema \<Rightarrow> string \<Rightarrow> string \<Rightarrow> bool \<Rightarrow> bool" where
  "serves_table d sel key rows cells sch base col dollar \<longleftrightarrow> typed_scan (scan_cells d) \<and>
     (\<forall>sl. case build_worker_slice_query base col sl dollar of (q, args) \<Rightarrow>
        run_query d q args = Inr (filter (\<lambda>r. sel q args (key r)) rows, None)) \<and>
     (\<forall>r. scan_cells d r (new_scan_target_holder sch) = Inr (cells r))"

text \<open>A run of the goroutine and the DoFn on one slice that returns without an error, with what it has emitted.\<close>

definition slice_emits ::
  "go_env \<Rightarrow> wm_env \<Rightarrow> (nat \<Rightarrow> int) \<Rightarrow> int \<Rightarrow> int \<Rightarrow> int \<Rightarrow> ('k, 'row) sql_source \<Rightarrow> database_source_config \<Rightarrow> 'k partition_slice \<Rightarrow>
   generic_record list \<Rightarrow> bool" where
  "slice_emits genv env clk t0 t1 t2 s cfg sl recs \<longleftrightarrow> (\<exists>s' ss p. sql_read_partition genv env clk t0 t1 t2 s (DatabaseConfig cfg) sl = (s', Inr (Some ss)) \<and>
     pipe_reach sql_rec_cap sql_err_cap ss p \<and> consumer p = Returned None \<and> emitted p = recs)"

lemma slice_emits_values:
  assumes d: "sq_db s = Some d" "serves_table d sel key rows cells (ds_schema cfg) base (trim_space (pc_partition_column (ds_partition cfg))) (sq_dollar s)"
      "breaker_closed s" "effective_query env cfg = Inr base"
    and e: "slice_emits genv env clk t0 t1 t2 s cfg sl recs"
  shows "map vals recs = map (\<lambda>r. row_values (ds_schema cfg) (cells r))
    (filter (\<lambda>r. slice_selects sel base (trim_space (pc_partition_column (ds_partition cfg))) (sq_dollar s) sl (key r)) rows)"
proof -
  let ?col = "trim_space (pc_partition_column (ds_partition cfg))"
  obtain q args where q: "build_worker_slice_query base ?col sl (sq_dollar s) = (q, args)" by fastforce
  let ?rows = "filter (\<lambda>r. sel q args (key r)) rows"
  note t = d(2) [unfolded serves_table_def]
  have "case build_worker_slice_query base ?col sl (sq_dollar s) of (q, args) \<Rightarrow>
        run_query d q args = Inr (filter (\<lambda>r. sel q args (key r)) rows, None)" by (rule t [THEN conjunct2, THEN conjunct1, THEN spec])
  then have run: "run_query d q args = Inr (?rows, None)" using q by simp
  have sc: "scan_cells d r (new_scan_target_holder (ds_schema cfg)) = Inr (cells r)" for r using d(2) by (simp add: serves_table_def)
  then have nf: "filter (\<lambda>r. \<not> scan_failed (scan_cells d) (ds_schema cfg) r) ?rows = ?rows" by (simp add: scan_failed_def)
  have "typed_scan (scan_cells d)" using d(2) by (simp add: serves_table_def)
  from stream_rows_sends [OF this, of genv clk "ds_schema cfg" 0 ?rows None] obtain ss where
    ss: "stream_rows genv clk (scan_cells d) (ds_schema cfg) 0 ?rows None = Some ss"
    "map (\<lambda>r. vals (the r)) (sent_recs ss) = map (\<lambda>r. row_values (ds_schema cfg) (cells r)) ?rows" "None \<notin> set (sent_recs ss)"
    using nf sc by auto
  have "read_slice genv env clk t0 t1 t2 s cfg sl = (s, Inr (Some ss))"
    using d(1,3,4) q run ss(1) by (simp add: read_slice_def breaker_closed_not_open query_closed Let_def)
  then obtain p where p: "pipe_reach sql_rec_cap sql_err_cap ss p" "consumer p = Returned None" "emitted p = recs"
    using e by (auto simp: slice_emits_def sql_read_partition_def)
  have "recs = present (sent_recs ss)" using pipe_returned(1) [OF pipe_reach_inv [OF p(1)] p(2)] p(3) by simp
  moreover have "filter (\<lambda>r. r \<noteq> None) (sent_recs ss) = sent_recs ss" using ss(3) by (metis (mono_tags, lifting) filter_True)
  ultimately have "map vals recs = map (\<lambda>r. vals (the r)) (sent_recs ss)" by (simp add: present_def comp_def)
  then show ?thesis unfolding ss(2) by (simp add: slice_selects_def q)
qed

lemma slice_emits_exists:
  assumes d: "sq_db s = Some d" "serves_table d sel key rows cells (ds_schema cfg) base (trim_space (pc_partition_column (ds_partition cfg))) (sq_dollar s)"
      "breaker_closed s" "effective_query env cfg = Inr base"
  shows "\<exists>recs. slice_emits genv env clk t0 t1 t2 s cfg sl recs"
proof -
  let ?col = "trim_space (pc_partition_column (ds_partition cfg))"
  obtain q args where q: "build_worker_slice_query base ?col sl (sq_dollar s) = (q, args)" by fastforce
  let ?rows = "filter (\<lambda>r. sel q args (key r)) rows"
  note t = d(2) [unfolded serves_table_def]
  have "case build_worker_slice_query base ?col sl (sq_dollar s) of (q, args) \<Rightarrow>
        run_query d q args = Inr (filter (\<lambda>r. sel q args (key r)) rows, None)" by (rule t [THEN conjunct2, THEN conjunct1, THEN spec])
  then have run: "run_query d q args = Inr (?rows, None)" using q by simp
  have "filter (scan_failed (scan_cells d) (ds_schema cfg)) ?rows = []" using d(2) by (simp add: scan_failed_def serves_table_def)
  moreover have "typed_scan (scan_cells d)" using d(2) by (simp add: serves_table_def)
  ultimately obtain ss where ss: "stream_rows genv clk (scan_cells d) (ds_schema cfg) 0 ?rows None = Some ss" "sent_errs ss = []"
    using stream_rows_sends [of "scan_cells d" genv clk "ds_schema cfg" 0 ?rows None] by auto
  have "read_slice genv env clk t0 t1 t2 s cfg sl = (s, Inr (Some ss))"
    using d(1,3,4) q run ss(1) by (simp add: read_slice_def breaker_closed_not_open query_closed Let_def)
  moreover obtain p where "pipe_reach sql_rec_cap sql_err_cap ss p" "consumer p = Returned None"
    using pipe_run_exists [of sql_rec_cap sql_err_cap ss "start_pipe ss"] ss(2) by (auto simp: sql_rec_cap_def)
  ultimately show ?thesis unfolding slice_emits_def by (auto simp: sql_read_partition_def)
qed


definition table_driver :: "(nat, nat) sql_driver" where
  "table_driver = \<lparr>run_query = (\<lambda>q args. if has_prefix q ''SELECT bucket'' then Inr ([0, 1, 2], None)
       else Inr (filter (\<lambda>r. sample_sel q args (Some r)) [4, 2, 0, 4, 12], None)),
     scan_bucket = (\<lambda>r. Inr (sample_buckets ! r)),
     scan_cells = (\<lambda>n ts. Inr (map (\<lambda>t. case t of NullInt64 _ \<Rightarrow> NullInt64 (Some (int n)) | _ \<Rightarrow> t) ts))\<rparr>"

definition table_cells :: "nat \<Rightarrow> scan_target list" where
  "table_cells n = [NullInt64 (Some (int n)), NullString None]"

lemma table_driver_serves: "serves_table table_driver sample_sel Some [4, 2, 0, 4, 12] table_cells id_name_schema base col dollar"
proof -
  have "same_kind t (case t of NullInt64 _ \<Rightarrow> NullInt64 (Some (int n)) | _ \<Rightarrow> t)" for t n by (cases t) simp_all
  then have "typed_scan (scan_cells table_driver)"
    by (auto simp: typed_scan_def table_driver_def list_all2_map2 list.rel_refl)
  moreover have "scan_cells table_driver r (new_scan_target_holder id_name_schema) = Inr (table_cells r)" for r
    by (simp add: table_driver_def new_scan_target_holder_def id_name_schema_def table_cells_def scan_target_for_def)
  moreover have "\<not> has_prefix (sub_query base @ x) ''SELECT bucket''" for x by (simp add: sub_query_def has_prefix_def)
  moreover from this [of "[]"] have "\<not> has_prefix (sub_query base) ''SELECT bucket''" by simp
  ultimately show ?thesis
    by (auto simp: serves_table_def build_worker_slice_query_def Let_def table_driver_def split: prod.splits)
qed

definition table_source :: "(nat, nat) sql_source" where
  "table_source = new_generic_sql_source 0 (Some table_driver) True"

definition table_config :: database_source_config where
  "table_config = \<lparr>ds_driver = ''postgres'', ds_connection_uri = [], ds_host = [], ds_port = 0, ds_database = [], ds_username = [], ds_password_ref = [],
     ds_query = [], ds_table = ''t'', ds_query_filter = [], ds_columns = [], ds_flatten_nested = False,
     ds_partition = \<lparr>pc_partition_column = ''id'', pc_batch_size = 2, pc_num_partitions = 0\<rparr>,
     ds_pool = \<lparr>pool_max_open = 0, pool_max_idle = 0, pool_lifetime = 0\<rparr>, ds_resilience = zero_resilience, ds_schema = id_name_schema, ds_watermark = None\<rparr>"


end
