(* ===== verification/Secrets.thy ===== *)
theory Secrets
  imports Rest_Source SQL_Source
begin

text \<open>
  Credentials: \<^verbatim>\<open>internal/adapters/secrets/\<close> (\<^verbatim>\<open>uri_normalizer.go\<close>, \<^verbatim>\<open>openbao_secret_resolver.go\<close>, \<^verbatim>\<open>gcp_secret_resolver.go\<close>,
  \<^verbatim>\<open>composite_secret_resolver.go\<close>), and the pools of database connections they are resolved for,
  \<^verbatim>\<open>internal/adapters/partitions/sql/connection_pool.go\<close>, \<^verbatim>\<open>factory.go\<close> and \<^verbatim>\<open>init.go\<close>. The services asked, the environment
  variables, \<^verbatim>\<open>encoding/json\<close> and \<^verbatim>\<open>sql.Open\<close> are arguments.
\<close>

section \<open>References and URIs (uri_normalizer.go)\<close>

record parsed_secret_ref =
  sr_provider :: string
  sr_path :: string
  sr_field :: string

text \<open>The index of the first occurrence of a character, as the parts before and after it.\<close>

definition cut :: "char \<Rightarrow> string \<Rightarrow> (string \<times> string) option" where
  "cut c s = (if c \<in> set s then Some (takeWhile (\<lambda>x. x \<noteq> c) s, tl (dropWhile (\<lambda>x. x \<noteq> c) s)) else None)"

definition parse_secret_ref :: "string \<Rightarrow> parsed_secret_ref" where
  "parse_secret_ref ref =
     (let trimmed = trim_space ref;
          (provider, remainder) = (case cut CHR '':'' trimmed of
              Some (p, r) \<Rightarrow> if slash \<notin> set p then (to_lower p, r) else ([], trimmed)
            | None \<Rightarrow> ([], trimmed));
          (path, fld) = (case cut CHR ''#'' remainder of Some (p, f) \<Rightarrow> (p, f) | None \<Rightarrow> (remainder, []))
      in \<lparr>sr_provider = provider, sr_path = path, sr_field = fld\<rparr>)"

definition trim_slashes :: "string \<Rightarrow> string" where
  "trim_slashes s = trim_right_set {slash} (dropWhile (\<lambda>c. c = slash) s)"

definition normalize_vault_path :: "string \<Rightarrow> string \<times> bool" where
  "normalize_vault_path path =
     (let trimmed = trim_slashes (trim_space path); parts = split_slash trimmed in
      if length parts < 2 then (path, False)
      else let mount = hd parts; subpath = join [slash] (tl parts) in
        if has_prefix subpath ''data/'' \<or> subpath = ''data'' then (trimmed, False)
        else (mount @ ''/data/'' @ subpath, True))"

definition apply_host_override :: "(string \<times> json) list \<Rightarrow> string gomap \<Rightarrow> (string \<times> json) list" where
  "apply_host_override payload overrides =
     (if overrides = [] then payload
      else case map_of payload ''host'' of
          Some (JString h) \<Rightarrow> (case map_of overrides h of Some r \<Rightarrow> gm_set payload ''host'' (JString r) | None \<Rightarrow> payload)
        | _ \<Rightarrow> payload)"

text \<open>The overrides in the order in which the map is ranged over.\<close>

definition override_step :: "database_source_config \<Rightarrow> string \<times> string \<Rightarrow> database_source_config" where
  "override_step cfg tr = (case tr of (target, replacement) \<Rightarrow>
     let u1 = Watermark.replace_all (ds_connection_uri cfg) (''@'' @ target) (''@'' @ replacement);
         u2 = Watermark.replace_all u1 (''('' @ target) (''('' @ replacement)
     in cfg\<lparr>ds_connection_uri := u2, ds_host := (if ds_host cfg = target then replacement else ds_host cfg)\<rparr>)"

definition apply_database_host_overrides :: "database_source_config \<Rightarrow> string gomap \<Rightarrow> database_source_config" where
  "apply_database_host_overrides cfg overrides = foldl override_step cfg overrides"

type_synonym secret_resolver = "string \<Rightarrow> string + string"

definition interpolate_password :: "string \<Rightarrow> string \<Rightarrow> secret_resolver option \<Rightarrow> string + string" where
  "interpolate_password uri password_ref resolver = (case resolver of
      None \<Rightarrow> Inr uri
    | Some rs \<Rightarrow>
        if password_ref = [] then Inr uri
        else (case rs password_ref of
            Inl e \<Rightarrow> Inl (''failed resolving connection password: '' @ e)
          | Inr pwd \<Rightarrow> Inr (Watermark.replace_all (Watermark.replace_all uri ''{{password}}'' pwd) ''{{PASSWORD}}'' pwd)))"

definition resolve_uri_secret :: "string \<Rightarrow> secret_resolver option \<Rightarrow> string + string" where
  "resolve_uri_secret uri resolver = (case resolver of
      None \<Rightarrow> Inr uri
    | Some rs \<Rightarrow>
        if has_prefix uri ''gcp:'' \<or> has_prefix uri ''openbao:'' \<or> has_prefix uri ''vault:''
        then (case rs uri of
            Inl e \<Rightarrow> Inl (''failed resolving connection uri from secret manager: '' @ e)
          | Inr resolved \<Rightarrow> if resolved \<noteq> [] then Inr resolved else Inr uri)
        else Inr uri)"

definition resolve_connection_uri :: "string \<Rightarrow> string \<Rightarrow> secret_resolver option \<Rightarrow> string + string" where
  "resolve_connection_uri uri password_ref resolver =
     (let u = trim_space uri in
      if u = [] then Inl ''connection_uri is required''
      else case interpolate_password u password_ref resolver of
          Inl e \<Rightarrow> Inl e
        | Inr u' \<Rightarrow> resolve_uri_secret u' resolver)"

definition resolve_secret_ref :: "secret_resolver \<Rightarrow> string gomap \<Rightarrow> string \<Rightarrow> string gomap" where
  "resolve_secret_ref rs out ref =
     (if trim_space ref = [] then out
      else case rs ref of Inr v \<Rightarrow> if v \<noteq> [] then gm_set out ref v else out | Inl _ \<Rightarrow> out)"

definition resolve_api_auth :: "api_auth_config option \<Rightarrow> secret_resolver option \<Rightarrow> string gomap" where
  "resolve_api_auth auth resolver = (case (auth, resolver) of
      (Some a, Some rs) \<Rightarrow>
        foldl (resolve_secret_ref rs) [] [au_token_ref a, au_username_ref a, au_password_ref a, au_client_id_ref a, au_client_secret_ref a]
    | _ \<Rightarrow> [])"

section \<open>OpenBaoSecretResolver (openbao_secret_resolver.go)\<close>

text \<open>\<open>vault_get\<close> is the GET of a URL with a token header, if any: an error, or the status and the body read.\<close>

record secret_env =
  getenv :: "string \<Rightarrow> string"
  vault_get :: "string \<Rightarrow> string option \<Rightarrow> string + int \<times> (string + string)"
  secret_version :: "string \<Rightarrow> string + string"
  parse_json :: "string \<Rightarrow> string + (string \<times> json) list"
  print_json :: "(string \<times> json) list \<Rightarrow> string + string"
  any_text :: "json \<Rightarrow> string"
  quoted :: "string \<Rightarrow> string"

fun first_env :: "secret_env \<Rightarrow> string list \<Rightarrow> string" where
  "first_env E [] = []"
| "first_env E (v # vs) = (if trim_space (getenv E v) \<noteq> [] then trim_space (getenv E v) else first_env E vs)"

definition resolve_vault_url :: "secret_env \<Rightarrow> secrets_config option \<Rightarrow> string" where
  "resolve_vault_url E cfg = (case cfg of
      Some c \<Rightarrow> if trim_space (sc_vault_url c) \<noteq> [] then sc_vault_url c else first_env E [''PLATFORM_VAULT_URL'', ''BAO_ADDR'', ''VAULT_ADDR'']
    | None \<Rightarrow> first_env E [''PLATFORM_VAULT_URL'', ''BAO_ADDR'', ''VAULT_ADDR''])"

definition resolve_vault_token :: "secret_env \<Rightarrow> secrets_config option \<Rightarrow> string" where
  "resolve_vault_token E cfg = (case cfg of
      Some c \<Rightarrow> if trim_space (sc_vault_token c) \<noteq> [] then sc_vault_token c else first_env E [''PLATFORM_VAULT_TOKEN'', ''BAO_TOKEN'', ''VAULT_TOKEN'']
    | None \<Rightarrow> first_env E [''PLATFORM_VAULT_TOKEN'', ''BAO_TOKEN'', ''VAULT_TOKEN''])"

record openbao =
  ob_url :: string
  ob_token :: string
  ob_host_override :: "string gomap"

definition new_openbao_secret_resolver :: "secret_env \<Rightarrow> secrets_config option \<Rightarrow> openbao" where
  "new_openbao_secret_resolver E cfg = \<lparr>ob_url = trim_right_set {slash} (resolve_vault_url E cfg), ob_token = resolve_vault_token E cfg,
     ob_host_override = (case cfg of Some c \<Rightarrow> sc_host_override c | None \<Rightarrow> [])\<rparr>"

definition unpack_envelope :: "secret_env \<Rightarrow> string \<Rightarrow> string + (string \<times> json) list" where
  "unpack_envelope E body = (case parse_json E body of
      Inl e \<Rightarrow> Inl (''failed parsing vault json: '' @ e)
    | Inr raw \<Rightarrow> (case map_of raw ''data'' of
        Some (JObject d) \<Rightarrow> (case map_of d ''data'' of Some (JObject inner) \<Rightarrow> Inr inner | _ \<Rightarrow> Inr d)
      | _ \<Rightarrow> Inr raw))"

definition fetch_secret :: "secret_env \<Rightarrow> openbao \<Rightarrow> string \<Rightarrow> string + (string \<times> json) list" where
  "fetch_secret E r api_path =
     (if ob_url r = [] then Inl ''openbao/vault endpoint URL is not configured''
      else let path = (case strip_prefix [slash] api_path of Some p \<Rightarrow> p | None \<Rightarrow> api_path) in
        case vault_get E (ob_url r @ ''/v1/'' @ path) (if ob_token r \<noteq> [] then Some (ob_token r) else None) of
          Inl e \<Rightarrow> Inl (''http request failed: '' @ e)
        | Inr (status, body) \<Rightarrow>
            if status \<noteq> 200 then Inl (''vault returned HTTP '' @ format_int status)
            else (case body of
                Inl e \<Rightarrow> Inl (''failed reading response body: '' @ e)
              | Inr b \<Rightarrow> unpack_envelope E b))"

definition extract_value :: "secret_env \<Rightarrow> openbao \<Rightarrow> (string \<times> json) list \<Rightarrow> string \<Rightarrow> string + string" where
  "extract_value E r payload fld =
     (if fld \<noteq> [] then
        (case map_of payload fld of
           None \<Rightarrow> Inl (''field '' @ quoted E fld @ '' not found in secret payload'')
         | Some v \<Rightarrow> Inr (any_text E v))
      else (case print_json E (apply_host_override payload (ob_host_override r)) of
          Inl e \<Rightarrow> Inl (''failed marshaling secret map: '' @ e)
        | Inr s \<Rightarrow> Inr s))"

definition openbao_resolve :: "secret_env \<Rightarrow> openbao \<Rightarrow> secret_resolver" where
  "openbao_resolve E r ref =
     (if ob_url r = [] then Inl ''openbao/vault endpoint URL is not configured (specify vault_url in secrets_config or set PLATFORM_VAULT_URL / BAO_ADDR / VAULT_ADDR)''
      else let parsed = parse_secret_ref ref; (norm, normalized) = normalize_vault_path (sr_path parsed);
               first = fetch_secret E r norm;
               result = (if isl first \<and> normalized then fetch_secret E r (sr_path parsed) else first)
           in case result of
                Inl e \<Rightarrow> Inl (''failed resolving openbao secret '' @ quoted E (sr_path parsed) @ '': '' @ e)
              | Inr payload \<Rightarrow> extract_value E r payload (sr_field parsed))"

section \<open>GCPSecretManagerResolver (gcp_secret_resolver.go)\<close>

record gcp_resolver =
  gr_project :: string
  gr_connected :: bool

definition resolve_gcp_project :: "secret_env \<Rightarrow> secrets_config option \<Rightarrow> string" where
  "resolve_gcp_project E cfg = (case cfg of
      Some c \<Rightarrow> if trim_space (sc_gcp_project_id c) \<noteq> [] then sc_gcp_project_id c else first_env E [''GCP_PROJECT_ID'', ''GOOGLE_CLOUD_PROJECT'']
    | None \<Rightarrow> first_env E [''GCP_PROJECT_ID'', ''GOOGLE_CLOUD_PROJECT''])"

definition normalize_resource_path :: "gcp_resolver \<Rightarrow> string \<Rightarrow> string + string" where
  "normalize_resource_path r path =
     (let t = trim_space path in
      if has_prefix t ''projects/'' then Inr t
      else if gr_project r = [] then Inl ''gcp project id is not configured (specify gcp_project_id in secrets_config or set GCP_PROJECT_ID / GOOGLE_CLOUD_PROJECT)''
      else Inr (''projects/'' @ gr_project r @ ''/secrets/'' @ t @ ''/versions/latest''))"

definition extract_gcp_payload_field :: "secret_env \<Rightarrow> string \<Rightarrow> string \<Rightarrow> string + string" where
  "extract_gcp_payload_field E d fld = (case parse_json E d of
      Inl e \<Rightarrow> Inl (''secret payload is not valid json for field extraction: '' @ e)
    | Inr payload \<Rightarrow> (case map_of payload fld of
        None \<Rightarrow> Inl (''field '' @ quoted E fld @ '' not found in gcp secret payload'')
      | Some v \<Rightarrow> Inr (any_text E v)))"

definition gcp_resolve :: "secret_env \<Rightarrow> gcp_resolver \<Rightarrow> secret_resolver" where
  "gcp_resolve E r ref =
     (let parsed = parse_secret_ref ref in
      case normalize_resource_path r (sr_path parsed) of
        Inl e \<Rightarrow> Inl e
      | Inr name \<Rightarrow>
          if \<not> gr_connected r then Inl ''gcp secret manager client is not initialized''
          else (case secret_version E name of
              Inl e \<Rightarrow> Inl (''failed accessing gcp secret '' @ quoted E name @ '': '' @ e)
            | Inr d \<Rightarrow> if sr_field parsed \<noteq> [] then extract_gcp_payload_field E d (sr_field parsed) else Inr d))"

section \<open>CompositeSecretResolver (composite_secret_resolver.go)\<close>

record composite =
  co_openbao :: "secret_resolver option"
  co_gcp :: "secret_resolver option"
  co_default :: string

definition new_composite_secret_resolver :: "secret_resolver option \<Rightarrow> secret_resolver option \<Rightarrow> string \<Rightarrow> composite" where
  "new_composite_secret_resolver ob gcp def = \<lparr>co_openbao = ob, co_gcp = gcp, co_default = to_lower (trim_space def)\<rparr>"

definition composite_resolve :: "secret_env \<Rightarrow> composite \<Rightarrow> secret_resolver" where
  "composite_resolve E r ref =
     (let named = sr_provider (parse_secret_ref ref) in
      if named = [] \<and> \<not> contains ref ''/'' then Inr ref
      else let provider = (if named = [] then co_default r else named) in
        if provider = [] then Inl (''secret provider is not specified for ref '' @ quoted E ref @ '' and no default provider is configured in secrets_config'')
        else if provider \<in> {''vault'', ''openbao'', ''bao''} then
          (case co_openbao r of None \<Rightarrow> Inl (''openbao secret resolver not configured for ref '' @ quoted E ref) | Some f \<Rightarrow> f ref)
        else if provider \<in> {''gcp'', ''gcp_sm'', ''gcp_secret_manager''} then
          (case co_gcp r of None \<Rightarrow> Inl (''gcp secret manager resolver not configured for ref '' @ quoted E ref) | Some f \<Rightarrow> f ref)
        else Inl (''unsupported secret provider '' @ quoted E provider @ '' for ref '' @ quoted E ref))"

section \<open>Connection pools (connection_pool.go, factory.go, init.go)\<close>

text \<open>The cache, the pools closed so far and the number of pools opened: a pool is known by its number.\<close>

record sql_pools =
  pool_cache :: "nat gomap"
  pools_closed :: "nat list"
  pools_opened :: nat

definition driver_map :: "string gomap" where
  "driver_map = [(''postgres'', ''pgx''), (''pgx'', ''pgx''), (''mysql'', ''mysql'')]"

definition driver_key :: "string \<Rightarrow> string" where
  "driver_key d = to_lower (trim_space d)"

definition driver_name :: "string \<Rightarrow> string" where
  "driver_name d = (case map_of driver_map (driver_key d) of Some n \<Rightarrow> n | None \<Rightarrow> driver_key d)"

definition get_or_create_db ::
  "(string \<Rightarrow> string \<Rightarrow> string option) \<Rightarrow> secret_resolver option \<Rightarrow> sql_pools \<Rightarrow> database_source_config \<Rightarrow> sql_pools \<times> (string + nat)" where
  "get_or_create_db sql_open resolver P cfg =
     (case resolve_connection_uri (ds_connection_uri cfg) (ds_password_ref cfg) resolver of
        Inl e \<Rightarrow> (P, Inl (''database connection uri resolution failed: '' @ e))
      | Inr uri \<Rightarrow>
          let key = driver_name (ds_driver cfg) @ '':'' @ uri in
          (case map_of (pool_cache P) key of
             Some db \<Rightarrow> (P, Inr db)
           | None \<Rightarrow>
               (case sql_open (driver_name (ds_driver cfg)) uri of
                  Some e \<Rightarrow> (P, Inl (''failed opening sql connection pool: '' @ e))
                | None \<Rightarrow> (P\<lparr>pool_cache := gm_set (pool_cache P) key (pools_opened P), pools_opened := Suc (pools_opened P)\<rparr>, Inr (pools_opened P)))))"

text \<open>\<^verbatim>\<open>db.Close\<close>, and \<^verbatim>\<open>CloseDB\<close>, which drops the first entry of the cache that holds the pool.\<close>

definition db_close :: "nat \<Rightarrow> sql_pools \<Rightarrow> sql_pools" where
  "db_close db P = P\<lparr>pools_closed := db # pools_closed P\<rparr>"

fun drop_entry :: "nat \<Rightarrow> nat gomap \<Rightarrow> nat gomap" where
  "drop_entry db [] = []"
| "drop_entry db ((k, v) # m) = (if v = db then m else (k, v) # drop_entry db m)"

definition close_db :: "nat option \<Rightarrow> sql_pools \<Rightarrow> sql_pools" where
  "close_db db P = (case db of None \<Rightarrow> P | Some n \<Rightarrow> db_close n (P\<lparr>pool_cache := drop_entry n (pool_cache P)\<rparr>))"

text \<open>\<^verbatim>\<open>Close\<close> of a SQL source whose pool is \<open>db\<close>.\<close>

definition sql_close :: "nat option \<Rightarrow> sql_pools \<Rightarrow> sql_pools" where
  "sql_close db P = (if db \<noteq> None then close_db db P else P)"

definition supported_drivers :: "string list" where
  "supported_drivers = [''postgres'', ''pgx'', ''cockroach'', ''mysql'', ''mariadb'']"

definition is_dollar_style :: "string \<Rightarrow> bool" where
  "is_dollar_style d \<longleftrightarrow> driver_key d \<in> {''postgres'', ''pgx'', ''cockroach''}"

text \<open>The reader built for a driver: the pool it uses and the style of its placeholders.\<close>

definition new_sql_reader :: "secret_env \<Rightarrow> string \<Rightarrow> nat \<Rightarrow> string + nat \<times> bool" where
  "new_sql_reader E driver db =
     (if driver_key driver \<notin> set supported_drivers then Inl (''unsupported database driver: '' @ quoted E driver)
      else Inr (db, is_dollar_style (driver_key driver)))"

definition sql_reader_factory ::
  "secret_env \<Rightarrow> (string \<Rightarrow> string \<Rightarrow> string option) \<Rightarrow> secret_resolver option \<Rightarrow> sql_pools \<Rightarrow> database_source_config option \<Rightarrow>
   sql_pools \<times> (string + nat \<times> bool)" where
  "sql_reader_factory E sql_open resolver P cfg = (case cfg of
      None \<Rightarrow> (P, Inl ''database_source configuration is missing'')
    | Some c \<Rightarrow> (case get_or_create_db sql_open resolver P c of
        (P1, Inl e) \<Rightarrow> (P1, Inl (''failed opening database pool: '' @ e))
      | (P1, Inr db) \<Rightarrow> (case new_sql_reader E (ds_driver c) db of
          Inl e \<Rightarrow> (db_close db P1, Inl (''failed creating sql reader: '' @ e))
        | Inr r \<Rightarrow> (P1, Inr r))))"

section \<open>Lemmas\<close>

lemma cut_append: "c \<notin> set a \<Longrightarrow> cut c (a @ c # b) = Some (a, b)"
  by (induction a) (auto simp: cut_def)

lemma cut_None: "c \<notin> set s \<Longrightarrow> cut c s = None"
  by (simp add: cut_def)

lemma trim_slashes_ends:
  assumes "trim_slashes s \<noteq> []" shows "hd (trim_slashes s) \<noteq> slash" "last (trim_slashes s) \<noteq> slash"
proof -
  let ?d = "dropWhile (\<lambda>c. c = slash) s" and ?e = "\<lambda>c :: char. c \<in> {slash}"
  have t: "trim_slashes s = rev (dropWhile ?e (rev ?d))" by (simp add: trim_slashes_def trim_right_set_def)
  have ne: "dropWhile ?e (rev ?d) \<noteq> []" using assms t by simp
  show "last (trim_slashes s) \<noteq> slash" using hd_dropWhile [OF ne] ne by (simp add: t last_rev)
  obtain pre where "rev ?d = pre @ dropWhile ?e (rev ?d)" by (metis takeWhile_dropWhile_id)
  then have d: "?d = trim_slashes s @ rev pre" unfolding t by (metis rev_append rev_rev_ident)
  then have "?d \<noteq> []" using assms by auto
  from hd_dropWhile [OF this] show "hd (trim_slashes s) \<noteq> slash" using d assms by (metis hd_append)
qed

lemma trim_slashes_id: "s = [] \<or> hd s \<noteq> slash \<and> last s \<noteq> slash \<Longrightarrow> trim_slashes s = s"
proof -
  assume a: "s = [] \<or> hd s \<noteq> slash \<and> last s \<noteq> slash"
  have "dropWhile (\<lambda>c. c = slash) s = s" using a by (cases s) auto
  moreover have "dropWhile (\<lambda>c. c \<in> {slash}) (rev s) = rev s" using a by (cases s rule: rev_cases) auto
  ultimately show ?thesis by (simp add: trim_slashes_def trim_right_set_def)
qed

lemma split_slash_hd: "slash \<notin> set (hd (split_slash s))"
  by (induction s) (auto simp: split_slash_Cons, simp add: split_slash_def)

lemma join_Cons_char: "join sep ((c # a) # as) = c # join sep (a # as)"
  by (cases as) simp_all

lemma join_split_slash: "join [slash] (split_slash s) = s"
proof (induction s)
  case (Cons c s)
  then show ?case by (cases "split_slash s") (auto simp: split_slash_Cons join_Cons_char)
qed (simp add: split_slash_def)

lemma trim_space_all_visible:
  assumes "list_all ascii_visible s" shows "trim_space s = s"
proof (cases "s = []")
  case False
  then have "ascii_visible (hd s)" "ascii_visible (last s)" using assms by (simp_all add: list_all_iff)
  then show ?thesis using False by (simp add: trim_space_visible)
qed simp

lemma set_trim_slashes: "set (trim_slashes s) \<subseteq> set s"
  unfolding trim_slashes_def trim_right_set_def by (auto dest!: set_dropWhileD)

lemma normalize_vault_path_data:
  assumes "slash \<notin> set m" "m \<noteq> []" "r \<noteq> []" "last r \<noteq> slash" "list_all ascii_visible (m @ r)"
  shows "normalize_vault_path (m @ ''/data/'' @ r) = (m @ ''/data/'' @ r, False)"
proof -
  let ?p = "m @ slash # ''data'' @ slash # r"
  have vis: "list_all ascii_visible ?p" using assms(5) by (simp add: ascii_visible_def)
  have "hd m \<noteq> slash" using assms(1,2) hd_in_set by metis
  then have t: "trim_slashes (trim_space ?p) = ?p"
    using assms(2-4) trim_space_all_visible [OF vis] by (simp add: trim_slashes_id)
  have "split_slash ?p = m # ''data'' # split_slash r"
    using split_slash_append [of m "''data'' @ slash # r"] split_slash_append [of "''data''" r] assms(1)
    by (simp add: split_slash_no_slash)
  moreover have "join [slash] (''data'' # split_slash r) = ''data/'' @ r"
    using join_split_slash [of r] by (cases "split_slash r") simp_all
  ultimately show ?thesis using t by (simp add: normalize_vault_path_def Let_def has_prefix_def)
qed

section \<open>Properties\<close>

text \<open>Secret references: a reference printed from a lower-case provider, a path and a field parses back to them, and so
  does one without a provider or a field.\<close>

lemma secret_ref_roundtrip:
  assumes "CHR '':'' \<notin> set p" "slash \<notin> set p" "to_lower p = p" "CHR ''#'' \<notin> set path" "list_all ascii_visible (p @ path @ f)"
  shows "parse_secret_ref (p @ '':'' @ path @ ''#'' @ f) = \<lparr>sr_provider = p, sr_path = path, sr_field = f\<rparr> \<and>
    parse_secret_ref (p @ '':'' @ path) = \<lparr>sr_provider = p, sr_path = path, sr_field = []\<rparr> \<and>
    (CHR '':'' \<notin> set path \<longrightarrow> CHR '':'' \<notin> set f \<longrightarrow>
      parse_secret_ref (path @ ''#'' @ f) = \<lparr>sr_provider = [], sr_path = path, sr_field = f\<rparr>)"
proof -
  have v: "trim_space (p @ CHR '':'' # path @ CHR ''#'' # f) = p @ CHR '':'' # path @ CHR ''#'' # f"
    "trim_space (p @ CHR '':'' # path) = p @ CHR '':'' # path" "trim_space (path @ CHR ''#'' # f) = path @ CHR ''#'' # f"
    using assms(5) by (simp_all add: trim_space_all_visible ascii_visible_def)
  have n: "CHR '':'' \<notin> set (path @ CHR ''#'' # f)" if "CHR '':'' \<notin> set path" "CHR '':'' \<notin> set f" using that by simp
  show ?thesis
    using assms v cut_append [of "CHR '':''" p] cut_append [of "CHR ''#''" path f] cut_None [of "CHR ''#''" path] cut_None [OF n]
    by (simp add: parse_secret_ref_def Let_def)
qed

text \<open>\<^verbatim>\<open>NormalizeVaultPath\<close> is a normal form: what it returns is left as it is by a second application, and a path it
  has changed is the mount, the segment \<open>data\<close> and the rest of the path.\<close>

lemma normalize_vault_path_stable:
  assumes "list_all ascii_visible path" "normalize_vault_path path = (q, changed)"
  shows "normalize_vault_path q = (q, False) \<and>
    (changed \<longrightarrow> (\<exists>mount rest. trim_slashes path = mount @ ''/'' @ rest \<and> q = mount @ ''/data/'' @ rest))"
proof -
  let ?t = "trim_slashes path"
  have tp: "trim_space path = path" by (rule trim_space_all_visible [OF assms(1)])
  have vt: "list_all ascii_visible ?t" using assms(1) set_trim_slashes [of path] by (auto simp: list_all_iff)
  note def = normalize_vault_path_def Let_def
  show ?thesis
  proof (cases "length (split_slash ?t) < 2")
    case True
    then show ?thesis using assms(2) tp by (auto simp: def)
  next
    case False
    then obtain m x xs where sp: "split_slash ?t = m # x # xs" by (auto simp: not_less numeral_2_eq_2 Suc_le_length_iff)
    let ?sub = "join [slash] (x # xs)"
    have t: "?t = m @ slash # ?sub" using join_split_slash [of ?t] sp by simp
    have ne: "?t \<noteq> []" using t by simp
    have m: "slash \<notin> set m" using split_slash_hd [of ?t] sp by simp
    have ends: "hd (m @ slash # ?sub) \<noteq> slash" "last (m @ slash # ?sub) \<noteq> slash" using trim_slashes_ends [OF ne] t by simp_all
    have sub: "?sub \<noteq> []"
    proof
      assume "?sub = []"
      then show False using ends(2) by (simp del: join.simps)
    qed
    have e: "m \<noteq> []" "last ?sub \<noteq> slash" using ends sub by (cases m; simp del: join.simps)+
    show ?thesis
    proof (cases "has_prefix ?sub ''data/'' \<or> ?sub = ''data''")
      case True
      then have q: "q = ?t" "changed = False" using assms(2) tp sp False by (auto simp: def)
      have "trim_slashes (trim_space ?t) = ?t"
        using trim_space_all_visible [OF vt] trim_slashes_id trim_slashes_ends [OF ne] by simp
      then show ?thesis using q sp True by (auto simp: def)
    next
      case F: False
      then have q: "q = m @ ''/data/'' @ ?sub" "changed = True" using assms(2) tp sp False by (auto simp: def)
      have "list_all ascii_visible (m @ ?sub)" using vt arg_cong [OF t, of "list_all ascii_visible"] by simp
      from normalize_vault_path_data [OF m e(1) sub e(2) this] show ?thesis using q t by auto
    qed
  qed
qed

text \<open>Pools are handed out by \<^verbatim>\<open>GetOrCreateDB\<close> and closed, through the cache, when a reader is torn down.\<close>

inductive pool_step :: "(string \<Rightarrow> string \<Rightarrow> string option) \<Rightarrow> secret_resolver option \<Rightarrow> sql_pools \<Rightarrow> sql_pools \<Rightarrow> bool" for sql_open resolver where
  get_pool: "pool_step sql_open resolver P (fst (get_or_create_db sql_open resolver P cfg))"
| close_pool: "n < pools_opened P \<Longrightarrow> pool_step sql_open resolver P (close_db (Some n) P)"

definition pools_inv :: "sql_pools \<Rightarrow> bool" where
  "pools_inv P \<longleftrightarrow> map_ok (pool_cache P) \<and> distinct (map snd (pool_cache P)) \<and>
     (\<forall>v \<in> snd ` set (pool_cache P). v < pools_opened P \<and> v \<notin> set (pools_closed P)) \<and> (\<forall>v \<in> set (pools_closed P). v < pools_opened P)"

lemma drop_entry_distinct:
  "distinct (map snd m) \<Longrightarrow> drop_entry db m = filter (\<lambda>kv. snd kv \<noteq> db) m"
proof (induction m)
  case (Cons kv m)
  have "filter (\<lambda>kv. snd kv \<noteq> db) m = m" if "snd kv = db" using Cons.prems that by (intro filter_True) (auto simp: image_iff)
  then show ?case using Cons by (cases kv) auto
qed simp

lemma get_or_create_cases:
  "(\<exists>r. get_or_create_db sql_open resolver P cfg = (P, r) \<and> (\<forall>db. r = Inr db \<longrightarrow> db \<in> snd ` set (pool_cache P))) \<or>
   (\<exists>key. map_of (pool_cache P) key = None \<and> get_or_create_db sql_open resolver P cfg =
      (P\<lparr>pool_cache := gm_set (pool_cache P) key (pools_opened P), pools_opened := Suc (pools_opened P)\<rparr>, Inr (pools_opened P)))"
proof (cases "resolve_connection_uri (ds_connection_uri cfg) (ds_password_ref cfg) resolver")
  case (Inl e)
  then show ?thesis by (simp add: get_or_create_db_def)
next
  case (Inr uri)
  let ?key = "driver_name (ds_driver cfg) @ '':'' @ uri"
  show ?thesis
  proof (cases "map_of (pool_cache P) ?key")
    case (Some db)
    then have "db \<in> snd ` set (pool_cache P)" by (force dest: map_of_SomeD)
    then show ?thesis using Inr Some by (simp add: get_or_create_db_def)
  next
    case None
    then show ?thesis using Inr by (cases "sql_open (driver_name (ds_driver cfg)) uri") (auto simp: get_or_create_db_def intro!: exI [of _ ?key])
  qed
qed

lemma pools_inv_get:
  assumes inv: "pools_inv P" shows "pools_inv (fst (get_or_create_db sql_open resolver P cfg))"
  using get_or_create_cases [of sql_open resolver P cfg]
proof
  assume "\<exists>key. map_of (pool_cache P) key = None \<and> get_or_create_db sql_open resolver P cfg =
      (P\<lparr>pool_cache := gm_set (pool_cache P) key (pools_opened P), pools_opened := Suc (pools_opened P)\<rparr>, Inr (pools_opened P))"
  then obtain key where key: "map_of (pool_cache P) key = None" "fst (get_or_create_db sql_open resolver P cfg) =
      P\<lparr>pool_cache := gm_set (pool_cache P) key (pools_opened P), pools_opened := Suc (pools_opened P)\<rparr>" by auto
  have "gm_set (pool_cache P) key (pools_opened P) = pool_cache P @ [(key, pools_opened P)]"
    using key(1) by (intro gm_set_new) (simp add: map_of_eq_None_iff)
  then show ?thesis using inv key(2) map_ok_gm_set [of "pool_cache P" key "pools_opened P"]
    by (fastforce simp: pools_inv_def)
qed (use inv in auto)

lemma pools_inv_close: "n < pools_opened P \<Longrightarrow> pools_inv P \<Longrightarrow> pools_inv (close_db (Some n) P)"
  by (auto simp: pools_inv_def close_db_def db_close_def drop_entry_distinct map_ok_def distinct_map_filter)

lemma pool_step_inv: "pool_step sql_open resolver P P' \<Longrightarrow> pools_inv P \<Longrightarrow> pools_inv P'"
  by (induction rule: pool_step.induct) (auto intro: pools_inv_get pools_inv_close)

interpretation sql_pool: transition_invariant "pool_step sql_open resolver" pools_inv for sql_open resolver
  by unfold_locales (rule pool_step_inv)



text \<open>The drivers the factory supports but \<^verbatim>\<open>GetOrCreateDB\<close> does not map to a driver it imports.\<close>

lemma unmapped_drivers: "filter (\<lambda>d. driver_name d \<notin> {''pgx'', ''mysql''}) supported_drivers = [''cockroach'', ''mariadb'']"
  by (simp add: supported_drivers_def driver_name_def driver_key_def driver_map_def trim_space_visible ascii_visible_def to_lower_def lower_char_def)

text \<open>A connection URI that names the provider \<open>bao\<close> is taken literally, although the composite resolver knows the provider.\<close>

lemma bao_uri_taken_literally: "resolve_connection_uri ''bao:secret/db#uri'' [] resolver = Inr ''bao:secret/db#uri''"
  by (cases resolver) (simp_all add: resolve_connection_uri_def interpolate_password_def resolve_uri_secret_def trim_space_visible ascii_visible_def
      has_prefix_def Let_def)

text \<open>A credential whose reference cannot be resolved is sent as the reference itself.\<close>

lemma resolve_secret_ref_fails: "isl (rs ref) \<Longrightarrow> map_of out ref = None \<Longrightarrow> map_of (resolve_secret_ref rs out r) ref = None"
  by (auto simp: resolve_secret_ref_def map_of_gm_set split: sum.splits)

lemma unresolved_credential_sent:
  assumes "isl (rs ref)" "ref \<noteq> []" "hc_secrets c = resolve_api_auth (Some a) (Some rs)"
  shows "resolve_secret c ref = ref"
proof -
  have "map_of (resolve_api_auth (Some a) (Some rs)) ref = None"
    using assms(1) by (simp add: resolve_api_auth_def resolve_secret_ref_fails)
  then show ?thesis using assms(2,3) by (simp add: resolve_secret_def)
qed

end
