(* ===== verification/Mongo_Source.thy ===== *)
theory Mongo_Source
  imports Secrets Storage
begin

text \<open>
  The reader of MongoDB collections: \<^verbatim>\<open>internal/adapters/partitions/mongo/document_mapper.go\<close>, 
  \<^verbatim>\<open>mongo_source.go\<close> and \<^verbatim>\<open>init.go\<close>. The driver with its decoding, the verb \<^verbatim>\<open>%v\<close> and \<^verbatim>\<open>encoding/json\<close> are arguments. A map is the
  list of its entries in the order in which it is ranged over.
\<close>

section \<open>Documents (document_mapper.go)\<close>

text \<open>The dynamic types the code distinguishes; an \<^verbatim>\<open>ObjectID\<close> is its twelve bytes, a \<^verbatim>\<open>DateTime\<close> its milliseconds.\<close>

datatype bson =
    BNil | BString string | BInt64 int | BInt32 int | BInt int | BFloat64 u64 | BFloat32 u32 | BBool bool | BTime int | BBytes string
  | BObjectID object_id | BDateTime int | BBinary string | BM "(string \<times> bson) list" | BD "(string \<times> bson) list" | BA "bson list" | BOther string

record bson_env =
  be_text :: "bson \<Rightarrow> string"
  be_json :: "bson \<Rightarrow> string + string"
  be_f64_of_f32 :: "u32 \<Rightarrow> u64"

text \<open>The entries of a \<^verbatim>\<open>bson.D\<close> gathered into a \<^verbatim>\<open>bson.M\<close>: the last entry of a key stays.\<close>

fun bson_map :: "(string \<times> 'v) list \<Rightarrow> (string \<times> 'v) list" where
  "bson_map [] = []"
| "bson_map ((k, v) # d) = (if k \<in> fst ` set d then bson_map d else (k, v) # bson_map d)"

definition full_key :: "string \<Rightarrow> string \<Rightarrow> string" where
  "full_key prefix k = (if prefix \<noteq> [] then prefix @ ''.'' @ k else k)"

lemma bson_map_size: "size_list f (bson_map d) \<le> size_list f d"
proof (induction d)
  case (Cons kv d)
  then show ?case by (cases kv) auto
qed simp

function flatten_document :: "string \<Rightarrow> (string \<times> bson) list \<Rightarrow> bson gomap \<Rightarrow> bson gomap" where
  "flatten_document prefix [] out = out"
| "flatten_document prefix ((k, v) # doc) out =
     flatten_document prefix doc
       (case v of
          BM sub \<Rightarrow> flatten_document (full_key prefix k) sub out
        | BD sub \<Rightarrow> flatten_document (full_key prefix k) (bson_map sub) out
        | _ \<Rightarrow> gm_set out (full_key prefix k) v)"
  by pat_completeness auto
termination
proof (relation "measure (\<lambda>(p, d, out). size_list (\<lambda>kv. size (snd kv)) d)")
  fix prefix k v doc out sub
  have s: "size_list (\<lambda>kv. size (snd kv)) d \<le> size_list (size_prod (\<lambda>_. 0) size) d" for d :: "(string \<times> bson) list"
    by (induction d) auto
  show "((full_key prefix k, sub, out), (prefix, (k, v) # doc, out)) \<in> measure (\<lambda>(p, d, out). size_list (\<lambda>kv. size (snd kv)) d)" if "v = BM sub"
    using that s [of sub] by auto
  show "((full_key prefix k, bson_map sub, out), (prefix, (k, v) # doc, out)) \<in> measure (\<lambda>(p, d, out). size_list (\<lambda>kv. size (snd kv)) d)" if "v = BD sub"
    using that s [of sub] bson_map_size [of "\<lambda>kv. size (snd kv)" sub] by auto
qed auto

text \<open>\<^verbatim>\<open>lookup[f.Name]\<close>, with the fallback for the identifier.\<close>

definition or_nil :: "bson option \<Rightarrow> bson" where
  "or_nil v = (case v of None \<Rightarrow> BNil | Some x \<Rightarrow> x)"

definition lookup_field :: "bson gomap \<Rightarrow> field \<Rightarrow> bson" where
  "lookup_field m f = (case map_of m (field_name f) of
      Some v \<Rightarrow> v
    | None \<Rightarrow> if field_name f = ''id'' \<or> field_name f = ''_id''
        then (let v = or_nil (map_of m ''_id'') in if v = BNil then or_nil (map_of m ''id'') else v)
        else BNil)"

definition incompatible :: "go_env \<Rightarrow> bson_env \<Rightarrow> field \<Rightarrow> bson \<Rightarrow> string \<Rightarrow> string" where
  "incompatible env be f v suffix = ''incompatible value '' @ be_text be v @ '' for '' @ data_type_name (field_type f) @
     '' field '' @ go_quote env (field_name f) @ suffix"

text \<open>One field of a record: the error, or the call of a setter.\<close>

type_synonym setter = "generic_record \<Rightarrow> nat \<Rightarrow> generic_record option"

definition coerced :: "go_env \<Rightarrow> bson_env \<Rightarrow> field \<Rightarrow> bson \<Rightarrow> ('a \<Rightarrow> setter) \<Rightarrow> coerce_error + 'a \<Rightarrow> string + setter" where
  "coerced env be f v put r = (case r of
      Inr x \<Rightarrow> Inr (put x)
    | Inl e \<Rightarrow> Inl (incompatible env be f v ('': '' @ coerce_error_text env e)))"

definition bson_wrapper :: "bson_env \<Rightarrow> go_env \<Rightarrow> field \<Rightarrow> bson \<Rightarrow> (string + setter) option" where
  "bson_wrapper be env f v = (case (v, field_type f) of
      (BObjectID x, TypeString) \<Rightarrow> Some (Inr (\<lambda>r i. set_string r i (hex_digits 24 (unat x))))
    | (BDateTime ms, TypeTimestamp) \<Rightarrow> Some (Inr (\<lambda>r i. set_timestamp r i (ms * 1000000)))
    | (BBinary d, TypeBytes) \<Rightarrow> Some (Inr (\<lambda>r i. set_bytes r i d))
    | (_, TypeString) \<Rightarrow>
        (if (case v of BM _ \<Rightarrow> True | BD _ \<Rightarrow> True | BA _ \<Rightarrow> True | _ \<Rightarrow> False)
         then Some (case be_json be v of
             Inl e \<Rightarrow> Inl (''failed serializing field '' @ go_quote env (field_name f) @ '' to json: '' @ e)
           | Inr s \<Rightarrow> Inr (\<lambda>r i. set_string r i s))
         else None)
    | _ \<Rightarrow> None)"

definition bson_typed :: "go_env \<Rightarrow> bson_env \<Rightarrow> field \<Rightarrow> bson \<Rightarrow> string + setter" where
  "bson_typed env be f v = (case field_type f of
      TypeInt64 \<Rightarrow> (case v of
          BInt64 n \<Rightarrow> Inr (\<lambda>r i. set_int64 r i n) | BInt32 n \<Rightarrow> Inr (\<lambda>r i. set_int64 r i n) | BInt n \<Rightarrow> Inr (\<lambda>r i. set_int64 r i n)
        | BFloat64 x \<Rightarrow> Inr (\<lambda>r i. set_int64 r i (f64_to_i64 env x))
        | BString s \<Rightarrow> coerced env be f v (\<lambda>n r i. set_int64 r i n) (coerce_int64_fast s)
        | _ \<Rightarrow> Inl (incompatible env be f v []))
    | TypeFloat64 \<Rightarrow> (case v of
          BFloat64 x \<Rightarrow> Inr (\<lambda>r i. set_float64 r i x) | BFloat32 x \<Rightarrow> Inr (\<lambda>r i. set_float64 r i (be_f64_of_f32 be x))
        | BInt64 n \<Rightarrow> Inr (\<lambda>r i. set_float64 r i (f64_of_i64 env n)) | BInt32 n \<Rightarrow> Inr (\<lambda>r i. set_float64 r i (f64_of_i64 env n))
        | BInt n \<Rightarrow> Inr (\<lambda>r i. set_float64 r i (f64_of_i64 env n))
        | BString s \<Rightarrow> coerced env be f v (\<lambda>x r i. set_float64 r i x) (coerce_float64_fast env s)
        | _ \<Rightarrow> Inl (incompatible env be f v []))
    | TypeBool \<Rightarrow> (case v of
          BBool b \<Rightarrow> Inr (\<lambda>r i. set_bool r i b)
        | BString s \<Rightarrow> coerced env be f v (\<lambda>b r i. set_bool r i b) (coerce_bool_fast s)
        | _ \<Rightarrow> Inl (incompatible env be f v []))
    | TypeTimestamp \<Rightarrow> (case v of
          BTime t \<Rightarrow> Inr (\<lambda>r i. set_timestamp r i t)
        | BString s \<Rightarrow> coerced env be f v (\<lambda>t r i. set_timestamp r i t) (coerce_timestamp_fast env s)
        | _ \<Rightarrow> Inl (incompatible env be f v []))
    | TypeDecimal \<Rightarrow> coerced env be f v (\<lambda>(m, sc) r i. set_decimal r i m sc)
        (coerce_decimal_fast (case v of BString s \<Rightarrow> s | _ \<Rightarrow> be_text be v) (field_scale f) (on_overflow f))
    | TypeBytes \<Rightarrow> (case v of
          BBytes b \<Rightarrow> Inr (\<lambda>r i. set_bytes r i b) | BBinary b \<Rightarrow> Inr (\<lambda>r i. set_bytes r i b)
        | _ \<Rightarrow> Inl (incompatible env be f v []))
    | _ \<Rightarrow> Inr (\<lambda>r i. set_string r i (be_text be v)))"

definition bson_field :: "go_env \<Rightarrow> bson_env \<Rightarrow> field \<Rightarrow> bson \<Rightarrow> string + setter" where
  "bson_field env be f v =
     (if v = BNil then
        if \<not> nullable f then Inl (''non-nullable field '' @ go_quote env (field_name f) @ '' is missing or null'')
        else Inr (\<lambda>r i. set_null r i (field_type f))
      else case bson_wrapper be env f v of Some r \<Rightarrow> r | None \<Rightarrow> bson_typed env be f v)"

text \<open>The loop over the fields; the inner \<^term>\<open>None\<close> is a write past the end of the values.\<close>

fun map_bson_fields :: "go_env \<Rightarrow> bson_env \<Rightarrow> bson gomap \<Rightarrow> nat \<Rightarrow> field list \<Rightarrow> generic_record \<Rightarrow> string + generic_record option" where
  "map_bson_fields env be m i [] r = Inr (Some r)"
| "map_bson_fields env be m i (f # fs) r = (case bson_field env be f (lookup_field m f) of
      Inl e \<Rightarrow> Inl e
    | Inr put \<Rightarrow> (case put r i of None \<Rightarrow> Inr None | Some r' \<Rightarrow> map_bson_fields env be m (Suc i) fs r'))"

definition map_bson_to_record :: "go_env \<Rightarrow> bson_env \<Rightarrow> (string \<times> bson) list \<Rightarrow> schema \<Rightarrow> bool \<Rightarrow> string + generic_record option" where
  "map_bson_to_record env be doc s flatten_nested =
     map_bson_fields env be (if flatten_nested then flatten_document [] doc [] else doc) 0 (sch_fields s)
       (new_generic_record [] (length (sch_fields s)))"

section \<open>Reading a slice (mongo_source.go)\<close>

text \<open>A cursor yields a decoding error or a document each time, and ends with an error or without.\<close>

fun stream_records ::
  "go_env \<Rightarrow> bson_env \<Rightarrow> schema \<Rightarrow> bool \<Rightarrow> (string + (string \<times> bson) list) list \<Rightarrow> string option \<Rightarrow> (generic_record, string) send list option" where
  "stream_records env be s fl [] err = Some (case err of None \<Rightarrow> [] | Some e \<Rightarrow> [SendErr (Some (''cursor error during iteration: '' @ e))])"
| "stream_records env be s fl (Inl e # ds) err = Some [SendErr (Some (''failed decoding mongo bson document: '' @ e))]"
| "stream_records env be s fl (Inr d # ds) err = (case map_bson_to_record env be d s fl of
      Inl e \<Rightarrow> Some [SendErr (Some (''failed mapping bson to generic record: '' @ e))]
    | Inr None \<Rightarrow> None
    | Inr (Some r) \<Rightarrow> map_option (\<lambda>ss. SendRec (Some r) # ss) (stream_records env be s fl ds err))"

text \<open>A filter is the conditions by field; those of the query filter are the argument \<open>user\<close> once parsed.\<close>

datatype 'c condition = UserCondition 'c | IdRange "id_condition list"

definition apply_bounds_to_filter :: "('c condition) gomap \<Rightarrow> object_id partition_slice \<Rightarrow> ('c condition) gomap" where
  "apply_bounds_to_filter m sl = (case (lower_bound sl, upper_bound sl) of
      (Some _, Some _) \<Rightarrow> gm_set m ''_id'' (IdRange (apply_slice_bounds sl))
    | _ \<Rightarrow> m)"

text \<open>A filter that is the JSON value \<^verbatim>\<open>null\<close> leaves a nil map, \<^term>\<open>None\<close> of \<open>parse\<close>; writing the bounds of a slice to it is a panic,
  the outer \<^term>\<open>None\<close>.\<close>

definition build_filter :: "(string \<Rightarrow> string + 'c gomap option) \<Rightarrow> string \<Rightarrow> object_id partition_slice \<Rightarrow> (string + ('c condition) gomap) option" where
  "build_filter parse query_filter sl =
     (if trim_space query_filter \<noteq> [] then
        (case parse query_filter of
           Inl e \<Rightarrow> Some (Inl (''invalid json/bson query_filter: '' @ e))
         | Inr None \<Rightarrow> if lower_bound sl \<noteq> None \<and> upper_bound sl \<noteq> None then None else Some (Inr [])
         | Inr (Some m) \<Rightarrow> Some (Inr (apply_bounds_to_filter (map (\<lambda>(k, c). (k, UserCondition c)) m) sl)))
      else Some (Inr (apply_bounds_to_filter [] sl)))"

text \<open>A client of the driver: a query over a collection of a database, the first document in ascending or descending order of
  \<^verbatim>\<open>_id\<close>, and the error of disconnecting, if any.\<close>

record 'c mongo_client =
  mc_find :: "string \<Rightarrow> string \<Rightarrow> 'c condition gomap \<Rightarrow> int \<Rightarrow> string + (string + (string \<times> bson) list) list \<times> string option"
  mc_find_one :: "string \<Rightarrow> string \<Rightarrow> bool \<Rightarrow> string + (string \<times> bson) list"
  mc_disconnect :: "string option"

record 'c mongo_source =
  mo_client :: "'c mongo_client option"
  mo_db_name :: string

definition new_mongo_source :: "'c mongo_client option \<Rightarrow> string \<Rightarrow> 'c mongo_source" where
  "new_mongo_source c db = \<lparr>mo_client = c, mo_db_name = db\<rparr>"

text \<open>\<^verbatim>\<open>OpenClient\<close>: \<open>connect\<close> is given the URI and the size of the pool, if one is set, and \<open>ping\<close> tells its error.\<close>

definition open_client ::
  "(string \<Rightarrow> int option \<Rightarrow> string + 'c mongo_client) \<Rightarrow> ('c mongo_client \<Rightarrow> string option) \<Rightarrow> database_source_config \<Rightarrow> secret_resolver option \<Rightarrow>
   string + 'c mongo_client" where
  "open_client connect ping cfg resolver =
     (case resolve_connection_uri (ds_connection_uri cfg) (ds_password_ref cfg) resolver of
        Inl e \<Rightarrow> Inl (''failed resolving mongodb connection uri: '' @ e)
      | Inr uri \<Rightarrow> (case connect uri (if pool_max_open (ds_pool cfg) > 0 then Some (pool_max_open (ds_pool cfg)) else None) of
          Inl e \<Rightarrow> Inl (''failed connecting to mongodb: '' @ e)
        | Inr c \<Rightarrow> (case ping c of Some e \<Rightarrow> Inl (''failed pinging mongodb: '' @ e) | None \<Rightarrow> Inr c)))"

definition mongo_close :: "'c mongo_source \<Rightarrow> string option" where
  "mongo_close m = (case mo_client m of None \<Rightarrow> None | Some c \<Rightarrow> mc_disconnect c)"

definition resolve_database_name :: "'c mongo_source \<Rightarrow> database_source_config \<Rightarrow> string" where
  "resolve_database_name m cfg = (if mo_db_name m \<noteq> [] then mo_db_name m else ds_database cfg)"

definition doc_id :: "(string \<times> bson) list \<Rightarrow> object_id option" where
  "doc_id d = (case map_of d ''_id'' of Some (BObjectID x) \<Rightarrow> Some x | _ \<Rightarrow> None)"

definition fetch_min_max_object_ids :: "'c mongo_client \<Rightarrow> string \<Rightarrow> string \<Rightarrow> (object_id \<times> object_id) option" where
  "fetch_min_max_object_ids c db coll = (case (mc_find_one c db coll True, mc_find_one c db coll False) of
      (Inr lo, Inr hi) \<Rightarrow> (case (doc_id lo, doc_id hi) of (Some l, Some h) \<Rightarrow> Some (l, h) | _ \<Rightarrow> None)
    | _ \<Rightarrow> None)"

definition mongo_error_text :: "mongo_error \<Rightarrow> string" where
  "mongo_error_text e = (case e of
      CollectionEmpty \<Rightarrow> ''mongo collection (table) cannot be empty''
    | DatabaseEmpty \<Rightarrow> ''mongo database name cannot be empty''
    | NotConnected \<Rightarrow> ''mongo client is not connected'')"

definition expected_config :: "string \<Rightarrow> string" where
  "expected_config t = ''expected *domain.DatabaseSourceConfig, got '' @ t"

definition mongo_calculate_partitions :: "'c mongo_source \<Rightarrow> reader_config \<Rightarrow> string + object_id partition_slice list" where
  "mongo_calculate_partitions m src = (case src of
      OtherConfig t \<Rightarrow> Inl (expected_config t)
    | DatabaseConfig cfg \<Rightarrow>
        let db = resolve_database_name m cfg in
        (case calculate_partitions (ds_table cfg) db (pc_num_partitions (ds_partition cfg)) (mo_client m \<noteq> None)
                (Option.bind (mo_client m) (\<lambda>c. fetch_min_max_object_ids c db (ds_table cfg))) of
           Inl e \<Rightarrow> Inl (mongo_error_text e) | Inr sls \<Rightarrow> Inr sls))"

text \<open>\<^verbatim>\<open>ReadPartition\<close>: \<^term>\<open>None\<close> is the panic of building the filter, the inner one a panic of the goroutine.\<close>

definition mongo_read_partition ::
  "go_env \<Rightarrow> bson_env \<Rightarrow> (string \<Rightarrow> string + 'c gomap option) \<Rightarrow> 'c mongo_source \<Rightarrow> reader_config \<Rightarrow> object_id partition_slice \<Rightarrow>
   (string + (generic_record, string) send list option) option" where
  "mongo_read_partition env be parse m src sl = (case src of
      OtherConfig t \<Rightarrow> Some (Inl (expected_config t))
    | DatabaseConfig cfg \<Rightarrow> (case build_filter parse (ds_query_filter cfg) sl of
        None \<Rightarrow> None
      | Some (Inl e) \<Rightarrow> Some (Inl e)
      | Some (Inr flt) \<Rightarrow> Some (case mo_client m of
          None \<Rightarrow> Inl ''mongo client is not connected''
        | Some c \<Rightarrow> (case mc_find c (resolve_database_name m cfg) (ds_table cfg) flt (i32 (pc_batch_size (ds_partition cfg))) of
            Inl e \<Rightarrow> Inl (''failed executing mongo find query: '' @ e)
          | Inr (docs, err) \<Rightarrow> Inr (stream_records env be (ds_schema cfg) (ds_flatten_nested cfg) docs err)))))"

definition mongo_rec_cap :: nat where "mongo_rec_cap = 100"
definition mongo_err_cap :: nat where "mongo_err_cap = 1"

text \<open>\<^verbatim>\<open>init.go\<close>: a watermark is refused.\<close>

definition mongo_reader_factory ::
  "(string \<Rightarrow> int option \<Rightarrow> string + 'c mongo_client) \<Rightarrow> ('c mongo_client \<Rightarrow> string option) \<Rightarrow> secret_resolver option \<Rightarrow> database_source_config option \<Rightarrow>
   string + 'c mongo_source" where
  "mongo_reader_factory connect ping resolver cfg = (case cfg of
      None \<Rightarrow> Inl ''database_source configuration is missing''
    | Some c \<Rightarrow>
        if ds_watermark c \<noteq> None then Inl ''watermark is not supported for mongodb source''
        else (case open_client connect ping c resolver of
            Inl e \<Rightarrow> Inl (''failed connecting to mongodb: '' @ e)
          | Inr cl \<Rightarrow> Inr (new_mongo_source (Some cl) (ds_database c))))"

section \<open>Mapped values\<close>

definition bson_type :: "data_type \<Rightarrow> data_type" where
  "bson_type t = (case t of TypeDate \<Rightarrow> TypeString | TypeJSON \<Rightarrow> TypeString | TypeOther _ \<Rightarrow> TypeString | _ \<Rightarrow> t)"

definition mapped_ok :: "field \<Rightarrow> field_value \<Rightarrow> bool" where
  "mapped_ok f v \<longleftrightarrow> (if is_null v then nullable f \<and> fv_type v = field_type f else fv_type v = bson_type (field_type f))"

text \<open>A call of a setter that stores such a value.\<close>

definition sets_field :: "field \<Rightarrow> setter \<Rightarrow> bool" where
  "sets_field f put \<longleftrightarrow> (\<exists>v. mapped_ok f v \<and> (\<forall>r i. put r i = set_value r i v))"

lemmas setter_defs = set_null_def set_int64_def set_float64_def set_bool_def set_timestamp_def set_bytes_def set_string_def set_decimal_def

lemma sets_fieldI: "mapped_ok f v \<Longrightarrow> sets_field f (\<lambda>r i. set_value r i v)"
  by (auto simp: sets_field_def)

lemma sets_field_setters:
  "nullable f \<Longrightarrow> sets_field f (\<lambda>r i. set_null r i (field_type f))"
  "bson_type (field_type f) = TypeString \<Longrightarrow> sets_field f (\<lambda>r i. set_string r i s)"
  "field_type f = TypeInt64 \<Longrightarrow> sets_field f (\<lambda>r i. set_int64 r i n)"
  "field_type f = TypeFloat64 \<Longrightarrow> sets_field f (\<lambda>r i. set_float64 r i x)"
  "field_type f = TypeBool \<Longrightarrow> sets_field f (\<lambda>r i. set_bool r i b)"
  "field_type f = TypeTimestamp \<Longrightarrow> sets_field f (\<lambda>r i. set_timestamp r i t)"
  "field_type f = TypeBytes \<Longrightarrow> sets_field f (\<lambda>r i. set_bytes r i s)"
  "field_type f = TypeDecimal \<Longrightarrow> sets_field f (\<lambda>r i. set_decimal r i m sc)"
  unfolding setter_defs by (rule sets_fieldI, simp add: mapped_ok_def bson_type_def zero_value_def)+

lemma bson_wrapper_sets: "bson_wrapper be env f v = Some (Inr put) \<Longrightarrow> sets_field f put"
  by (cases "field_type f"; cases v)
    (auto simp: bson_wrapper_def bson_type_def split: sum.splits intro: sets_field_setters)

lemma coerced_sets: "coerced env be f v put r = Inr p \<Longrightarrow> (\<And>x. sets_field f (put x)) \<Longrightarrow> sets_field f p"
  by (auto simp: coerced_def split: sum.splits)

lemma bson_typed_sets:
  assumes "bson_typed env be f v = Inr put" shows "sets_field f put"
proof (cases "field_type f")
  case TypeDecimal
  have "sets_field f ((\<lambda>(m, sc) r i. set_decimal r i m sc) x)" for x using sets_field_setters(8) [OF TypeDecimal] by (cases x) simp
  then show ?thesis using assms TypeDecimal by (auto simp: bson_typed_def dest!: coerced_sets)
qed (use assms in \<open>auto simp: bson_typed_def bson_type_def split: bson.splits dest!: coerced_sets intro: sets_field_setters\<close>)

lemma bson_field_sets: "bson_field env be f v = Inr put \<Longrightarrow> sets_field f put"
  by (auto simp: bson_field_def split: if_splits option.splits intro: sets_field_setters bson_typed_sets bson_wrapper_sets)

lemma map_bson_fields_ok:
  assumes "i + length fs = length (vals r)" "list_all2 mapped_ok gs (take i (vals r))"
    and "map_bson_fields env be m i fs r = Inr res"
  shows "\<exists>r'. res = Some r' \<and> list_all2 mapped_ok (gs @ fs) (vals r')"
  using assms
proof (induction fs arbitrary: i r gs)
  case (Cons f fs)
  obtain put where p: "bson_field env be f (lookup_field m f) = Inr put"
    using Cons.prems(3) by (cases "bson_field env be f (lookup_field m f)") auto
  obtain v where v: "mapped_ok f v" "put r i = set_value r i v" using bson_field_sets [OF p] by (auto simp: sets_field_def)
  have i: "i < length (vals r)" using Cons.prems(1) by simp
  let ?r = "r\<lparr>vals := (vals r)[i := v]\<rparr>"
  have "map_bson_fields env be m (Suc i) fs ?r = Inr res" using Cons.prems(3) p v(2) i by (simp add: set_value_def)
  moreover have "list_all2 mapped_ok (gs @ [f]) (take (Suc i) (vals ?r))"
    using Cons.prems(2) v(1) i by (simp add: take_Suc_conv_app_nth list_all2_appendI)
  ultimately show ?case using Cons.IH [of "Suc i" ?r "gs @ [f]"] Cons.prems(1) by simp
qed (auto simp: list_all2_conv_all_nth)

section \<open>Flattening\<close>

text \<open>The leaves of a document, with their paths.\<close>

definition is_document :: "bson \<Rightarrow> bool" where
  "is_document v = (case v of BM _ \<Rightarrow> True | BD _ \<Rightarrow> True | _ \<Rightarrow> False)"

lemma flatten_no_documents:
  "list_all (\<lambda>kv. \<not> is_document (snd kv)) out \<Longrightarrow> list_all (\<lambda>kv. \<not> is_document (snd kv)) (flatten_document prefix doc out)"
proof (induction prefix doc out rule: flatten_document.induct)
  case (2 prefix k v doc out)
  have "list_all (\<lambda>kv. \<not> is_document (snd kv)) (gm_set out key x)" if "\<not> is_document x" for key x
    using 2(4) that by (induction out) (auto simp: gm_set_def)
  then show ?case using 2 by (cases v) (auto simp: is_document_def)
qed simp

section \<open>Properties\<close>

lemma map_bson_to_record_ok:
  assumes "map_bson_to_record env be doc s fl = Inr res"
  shows "\<exists>r. res = Some r \<and> list_all2 mapped_ok (sch_fields s) (vals r)"
  using map_bson_fields_ok [of 0 "sch_fields s" "new_generic_record [] (length (sch_fields s))" "[]"] assms
  by (simp add: map_bson_to_record_def new_generic_record_def)

lemma stream_records_sends:
  "\<exists>ss. stream_records env be s fl docs err = Some ss \<and> length (sent_errs ss) \<le> 1 \<and>
    (\<forall>r \<in> set (sent_recs ss). \<exists>rec. r = Some rec \<and> list_all2 mapped_ok (sch_fields s) (vals rec)) \<and>
    (sent_errs ss = [] \<longrightarrow> err = None \<and> length (sent_recs ss) = length docs)"
proof (induction env be s fl docs err rule: stream_records.induct)
  case (1 env be s fl err)
  then show ?case by (cases err) simp_all
next
  case (3 env be s fl d ds err)
  show ?case
  proof (cases "map_bson_to_record env be d s fl")
    case (Inr res)
    obtain r where r: "res = Some r" "list_all2 mapped_ok (sch_fields s) (vals r)" using map_bson_to_record_ok [OF Inr] by blast
    obtain ss where "stream_records env be s fl ds err = Some ss" "length (sent_errs ss) \<le> 1"
      "\<forall>r \<in> set (sent_recs ss). \<exists>rec. r = Some rec \<and> list_all2 mapped_ok (sch_fields s) (vals rec)"
      "sent_errs ss = [] \<longrightarrow> err = None \<and> length (sent_recs ss) = length ds" using 3 Inr r(1) by blast
    then show ?thesis using Inr r by simp
  qed simp
qed simp

lemma stream_records_errs: "stream_records env be s fl docs err = Some ss \<Longrightarrow> None \<notin> set (sent_errs ss)"
  by (induction env be s fl docs err arbitrary: ss rule: stream_records.induct)
    (auto split: option.splits sum.splits)

text \<open>A slice of a collection, read through its two channels: the goroutine does not panic and reports at most one error, which
  its channel can hold, so every run of goroutine and DoFn that can go no further has returned. The records emitted have
  one value per field, of the field's type (a string for date, json and unknown types), and a null only where the field is
  nullable; and a run that returns no error has emitted one record per document.\<close>

lemma mongo_slice_run:
  "\<exists>ss. stream_records env be s fl docs err = Some ss \<and>
    (\<forall>p. pipe_reach mongo_rec_cap mongo_err_cap ss p \<longrightarrow> (\<nexists>p'. pipe_step mongo_rec_cap mongo_err_cap p p') \<longrightarrow>
      (\<exists>e. consumer p = Returned e \<and> (\<forall>rec \<in> set (emitted p). list_all2 mapped_ok (sch_fields s) (vals rec)) \<and>
        (e = None \<longrightarrow> err = None \<and> length (emitted p) = length docs)))"
proof -
  obtain ss where ss: "stream_records env be s fl docs err = Some ss" "length (sent_errs ss) \<le> 1"
    "\<forall>r \<in> set (sent_recs ss). \<exists>rec. r = Some rec \<and> list_all2 mapped_ok (sch_fields s) (vals rec)"
    "sent_errs ss = [] \<longrightarrow> err = None \<and> length (sent_recs ss) = length docs" "None \<notin> set (sent_errs ss)"
    using stream_records_sends [of env be s fl docs err] stream_records_errs by blast
  have "\<exists>e. consumer p = Returned e \<and> (\<forall>rec \<in> set (emitted p). list_all2 mapped_ok (sch_fields s) (vals rec)) \<and>
        (e = None \<longrightarrow> err = None \<and> length (emitted p) = length docs)"
    if r: "pipe_reach mongo_rec_cap mongo_err_cap ss p" and f: "\<nexists>p'. pipe_step mongo_rec_cap mongo_err_cap p p'" for p
  proof -
    have c: "consumer p = Returned (first_error (sent_errs ss))"
      using pipe_final_returned [OF pipe_reach_inv [OF r], of mongo_rec_cap] f ss(2) by (auto simp: mongo_rec_cap_def mongo_err_cap_def)
    have e: "emitted p = present (sent_recs ss)" by (rule pipe_returned(1) [OF pipe_reach_inv [OF r] c])
    have all: "filter (\<lambda>r. r \<noteq> None) (sent_recs ss) = sent_recs ss" using ss(3) by (intro filter_True) auto
    have "first_error (sent_errs ss) = None \<longrightarrow> sent_errs ss = []" using ss(5) by (cases "sent_errs ss" rule: first_error.cases) auto
    then show ?thesis using c e ss(3,4) all by (auto simp: present_def)
  qed
  then show ?thesis using ss(1) by blast
qed

text \<open>The bounds of a slice replace any condition the query filter has on the identifier.\<close>

lemma query_filter_id_dropped:
  assumes "build_filter parse qf sl = Some (Inr flt)" "lower_bound sl \<noteq> None" "upper_bound sl \<noteq> None"
  shows "map_of flt ''_id'' = Some (IdRange (apply_slice_bounds sl))"
  using assms by (auto simp: build_filter_def apply_bounds_to_filter_def map_of_gm_set split: if_splits sum.splits option.splits)

text \<open>A query filter of \<^verbatim>\<open>null\<close> is accepted and makes every bounded slice panic.\<close>

lemma null_filter_panics:
  assumes "parse qf = Inr None" "trim_space qf \<noteq> []" "lower_bound sl \<noteq> None" "upper_bound sl \<noteq> None" "ds_query_filter cfg = qf"
  shows "mongo_read_partition env be parse m (DatabaseConfig cfg) sl = None"
  using assms by (simp add: mongo_read_partition_def build_filter_def)

section \<open>A collection read slice by slice\<close>

text \<open>What a document has to satisfy to be found by a filter; \<open>sat\<close> is the meaning of a condition of the query filter.\<close>

definition matches :: "(string \<Rightarrow> 'c \<Rightarrow> (string \<times> bson) list \<Rightarrow> bool) \<Rightarrow> 'c condition gomap \<Rightarrow> (string \<times> bson) list \<Rightarrow> bool" where
  "matches sat flt d = list_all (\<lambda>(k, c). case c of
      UserCondition u \<Rightarrow> sat k u d
    | IdRange cs \<Rightarrow> (case doc_id d of None \<Rightarrow> False | Some x \<Rightarrow> filter_matches cs x)) flt"

definition user_matches :: "(string \<Rightarrow> 'c \<Rightarrow> (string \<times> bson) list \<Rightarrow> bool) \<Rightarrow> 'c gomap \<Rightarrow> (string \<times> bson) list \<Rightarrow> bool" where
  "user_matches sat user d = list_all (\<lambda>(k, u). sat k u d) user"

definition serves_collection ::
  "'c mongo_client \<Rightarrow> (string \<Rightarrow> 'c \<Rightarrow> (string \<times> bson) list \<Rightarrow> bool) \<Rightarrow> string \<Rightarrow> string \<Rightarrow> (string \<times> bson) list list \<Rightarrow> bool" where
  "serves_collection c sat db coll docs \<longleftrightarrow> (\<forall>flt n. mc_find c db coll flt n = Inr (map Inr (filter (matches sat flt) docs), None))"

definition parsed_filter :: "(string \<Rightarrow> string + 'c gomap option) \<Rightarrow> string \<Rightarrow> 'c gomap \<Rightarrow> bool" where
  "parsed_filter parse qf user \<longleftrightarrow> (if trim_space qf = [] then user = [] else parse qf = Inr (Some user))"

definition document_record :: "go_env \<Rightarrow> bson_env \<Rightarrow> database_source_config \<Rightarrow> (string \<times> bson) list \<Rightarrow> generic_record" where
  "document_record env be cfg d = the (projr (map_bson_to_record env be d (ds_schema cfg) (ds_flatten_nested cfg)))"

text \<open>The records the DoFn emits for a slice in a run of the two goroutines that returns no error.\<close>

definition mongo_emits ::
  "go_env \<Rightarrow> bson_env \<Rightarrow> (string \<Rightarrow> string + 'c gomap option) \<Rightarrow> 'c mongo_source \<Rightarrow> database_source_config \<Rightarrow> object_id partition_slice \<Rightarrow>
   generic_record list \<Rightarrow> bool" where
  "mongo_emits env be parse m cfg sl recs \<longleftrightarrow> (\<exists>ss p. mongo_read_partition env be parse m (DatabaseConfig cfg) sl = Some (Inr (Some ss)) \<and>
     pipe_reach mongo_rec_cap mongo_err_cap ss p \<and> consumer p = Returned None \<and> emitted p = recs)"

lemma matches_append: "matches sat (a @ b) d \<longleftrightarrow> matches sat a d \<and> matches sat b d"
  by (simp add: matches_def)

lemma matches_user: "matches sat (map (\<lambda>(k, c). (k, UserCondition c)) user) d \<longleftrightarrow> user_matches sat user d"
  by (simp add: matches_def user_matches_def list_all_iff split: prod.splits)

lemma slice_filter:
  assumes "parsed_filter parse qf user" "''_id'' \<notin> fst ` set user" "lower_bound sl \<noteq> None" "upper_bound sl \<noteq> None"
  shows "build_filter parse qf sl = Some (Inr (map (\<lambda>(k, c). (k, UserCondition c)) user @ [(''_id'', IdRange (apply_slice_bounds sl))]))"
proof -
  have "fst ` set (map (\<lambda>(k, c). (k, UserCondition c)) user) = fst ` set user" by (force simp: image_iff)
  then have "gm_set (map (\<lambda>(k, c). (k, UserCondition c)) user) ''_id'' v = map (\<lambda>(k, c). (k, UserCondition c)) user @ [(''_id'', v)]" for v
    using assms(2) by (simp only: gm_set_new not_False_eq_True)
  then show ?thesis using assms by (auto simp: build_filter_def parsed_filter_def apply_bounds_to_filter_def gm_set_new split: if_splits)
qed

lemma slice_matches:
  assumes "doc_id d = Some x"
  shows "matches sat (map (\<lambda>(k, c). (k, UserCondition c)) user @ [(''_id'', IdRange cs)]) d \<longleftrightarrow> user_matches sat user d \<and> filter_matches cs x"
  using assms by (simp add: matches_append matches_user) (simp add: matches_def)

lemma stream_records_all:
  assumes "stream_records env be s fl (map Inr docs) None = Some ss" "sent_errs ss = []"
  shows "sent_recs ss = map (\<lambda>d. Some (the (projr (map_bson_to_record env be d s fl)))) docs"
  using assms
proof (induction docs arbitrary: ss)
  case (Cons d docs)
  then show ?case by (auto split: sum.splits option.splits)
qed simp

lemma stream_records_exists:
  assumes "list_all (\<lambda>d. \<exists>r. map_bson_to_record env be d s fl = Inr r) docs"
  shows "\<exists>ss. stream_records env be s fl (map Inr docs) None = Some ss \<and> sent_errs ss = []"
  using assms
proof (induction docs)
  case (Cons d docs)
  then show ?case using map_bson_to_record_ok [of env be d s fl] by fastforce
qed simp

lemma mongo_read_run:
  assumes "mo_client m = Some c" "serves_collection c sat (resolve_database_name m cfg) (ds_table cfg) docs"
    and "parsed_filter parse (ds_query_filter cfg) user" "''_id'' \<notin> fst ` set user" "lower_bound sl \<noteq> None" "upper_bound sl \<noteq> None"
    and "list_all (\<lambda>d. doc_id d \<noteq> None) docs"
  shows "mongo_read_partition env be parse m (DatabaseConfig cfg) sl = Some (Inr (stream_records env be (ds_schema cfg) (ds_flatten_nested cfg)
    (map Inr (filter (\<lambda>d. user_matches sat user d \<and> filter_matches (apply_slice_bounds sl) (the (doc_id d))) docs)) None))"
proof -
  let ?flt = "map (\<lambda>(k, c). (k, UserCondition c)) user @ [(''_id'', IdRange (apply_slice_bounds sl))]"
  have "filter (matches sat ?flt) docs = filter (\<lambda>d. user_matches sat user d \<and> filter_matches (apply_slice_bounds sl) (the (doc_id d))) docs"
    using assms(7) by (intro filter_cong refl) (auto simp: list_all_iff slice_matches)
  then show ?thesis using assms(1,2) slice_filter [OF assms(3-6)] by (simp add: mongo_read_partition_def serves_collection_def)
qed

lemma mongo_emits_records:
  assumes c: "mo_client m = Some c" "serves_collection c sat (resolve_database_name m cfg) (ds_table cfg) docs"
      "parsed_filter parse (ds_query_filter cfg) user" "''_id'' \<notin> fst ` set user" "lower_bound sl \<noteq> None" "upper_bound sl \<noteq> None"
      "list_all (\<lambda>d. doc_id d \<noteq> None) docs"
    and e: "mongo_emits env be parse m cfg sl recs"
  shows "recs = map (document_record env be cfg) (filter (\<lambda>d. user_matches sat user d \<and> filter_matches (apply_slice_bounds sl) (the (doc_id d))) docs)"
proof -
  obtain ss p where p: "stream_records env be (ds_schema cfg) (ds_flatten_nested cfg)
      (map Inr (filter (\<lambda>d. user_matches sat user d \<and> filter_matches (apply_slice_bounds sl) (the (doc_id d))) docs)) None = Some ss"
    "pipe_reach mongo_rec_cap mongo_err_cap ss p" "consumer p = Returned None" "emitted p = recs"
    using e mongo_read_run [OF c] by (auto simp: mongo_emits_def)
  note ret = pipe_returned [OF pipe_reach_inv [OF p(2)] p(3)]
  have "sent_errs ss = []" using ret stream_records_errs [OF p(1)] by (cases "sent_errs ss" rule: first_error.cases) auto
  from stream_records_all [OF p(1) this] show ?thesis using ret(1) p(4) by (simp add: present_def document_record_def comp_def)
qed

lemma mongo_emits_exists:
  assumes c: "mo_client m = Some c" "serves_collection c sat (resolve_database_name m cfg) (ds_table cfg) docs"
      "parsed_filter parse (ds_query_filter cfg) user" "''_id'' \<notin> fst ` set user" "lower_bound sl \<noteq> None" "upper_bound sl \<noteq> None"
      "list_all (\<lambda>d. doc_id d \<noteq> None) docs"
    and d: "list_all (\<lambda>d. \<exists>r. map_bson_to_record env be d (ds_schema cfg) (ds_flatten_nested cfg) = Inr r) docs"
  shows "\<exists>recs. mongo_emits env be parse m cfg sl recs"
proof -
  let ?docs = "filter (\<lambda>d. user_matches sat user d \<and> filter_matches (apply_slice_bounds sl) (the (doc_id d))) docs"
  obtain ss where ss: "stream_records env be (ds_schema cfg) (ds_flatten_nested cfg) (map Inr ?docs) None = Some ss" "sent_errs ss = []"
    using stream_records_exists [of env be "ds_schema cfg" "ds_flatten_nested cfg" ?docs] d by (auto simp: list_all_iff)
  obtain p where "pipe_reach mongo_rec_cap mongo_err_cap ss p" "consumer p = Returned None"
    using pipe_run_exists [of mongo_rec_cap mongo_err_cap ss "start_pipe ss"] ss(2) by (auto simp: mongo_rec_cap_def)
  then show ?thesis using mongo_read_run [OF c] ss(1) unfolding mongo_emits_def by auto
qed

lemma slices_loop_bounds: "s \<in> set (slices_loop hi a st n m i cur) \<Longrightarrow> lower_bound s \<noteq> None \<and> upper_bound s \<noteq> None"
  by (induction m arbitrary: i cur) (auto simp: Let_def)

lemma mset_read_twice:
  assumes "\<And>r. r \<in> set rows \<Longrightarrow> length (filter (\<lambda>s. P s r) ss) = (if Q r then if B r then 2 else 1 else 0)"
  shows "mset (concat (map (\<lambda>s. filter (P s) rows) ss)) = mset (filter Q rows) + mset (filter (\<lambda>r. Q r \<and> B r) rows)"
  using assms
proof (induction rows)
  case Nil
  then show ?case by (induction ss) auto
next
  case (Cons r rows)
  then show ?case unfolding mset_concat_filter_Cons by (simp add: numeral_2_eq_2)
qed

text \<open>C11. Reading a collection end to end. For a connected source with a table, a database and at least two partitions, and a collection whose
  documents have object ids that span more than one second, \<^verbatim>\<open>CalculatePartitions\<close> gives the ranges between the least and the greatest id the
  driver reports, and the slices, each read by \<^verbatim>\<open>ReadPartition\<close> through its two channels in a run without an error, yield together the record of
  every document that satisfies the query filter, once each, except a document whose id is the bound between the first two slices, which is read
  twice. The query filter has no condition of its own on \<^verbatim>\<open>_id\<close>.\<close>

theorem mongo_source_reads_collection:
  assumes m: "mo_client m = Some c" "serves_collection c sat (resolve_database_name m cfg) (ds_table cfg) docs"
    and cfg: "ds_table cfg \<noteq> []" "resolve_database_name m cfg \<noteq> []" "n = pc_num_partitions (ds_partition cfg)" "2 \<le> n" "n < 2 ^ 31"
    and flt: "parsed_filter parse (ds_query_filter cfg) user" "''_id'' \<notin> fst ` set user"
    and docs: "list_all (\<lambda>d. doc_id d \<noteq> None) docs"
    and ends: "mc_find_one c (resolve_database_name m cfg) (ds_table cfg) True = Inr first" "doc_id first = Some lo"
      "mc_find_one c (resolve_database_name m cfg) (ds_table cfg) False = Inr final" "doc_id final = Some hi"
    and span: "oid_seconds lo < oid_seconds hi" "oid_seconds lo + n \<le> 2 ^ 32"
    and out: "list_all2 (mongo_emits env be parse m cfg) (build_object_id_ranges lo hi n) out"
  shows "mongo_calculate_partitions m (DatabaseConfig cfg) = Inr (build_object_id_ranges lo hi n) \<and>
    mset (concat out) = image_mset (document_record env be cfg) (mset (filter (user_matches sat user) docs) +
      mset (filter (\<lambda>d. user_matches sat user d \<and> doc_id d = upper_bound (hd (build_object_id_ranges lo hi n))) docs))"
proof
  let ?sls = "build_object_id_ranges lo hi n" and ?rec = "document_record env be cfg"
  let ?P = "\<lambda>sl d. user_matches sat user d \<and> filter_matches (apply_slice_bounds sl) (the (doc_id d))"
  show "mongo_calculate_partitions m (DatabaseConfig cfg) = Inr ?sls"
    using m(1) cfg ends by (simp add: mongo_calculate_partitions_def calculate_partitions_def fetch_min_max_object_ids_def Let_def)
  have sls: "?sls = generate_slices lo hi (oid_seconds lo) (calculate_step (oid_seconds lo) (oid_seconds hi) n) n"
    using cfg(4) span(1) by (simp add: build_object_id_ranges_def Let_def)
  then have b: "lower_bound sl \<noteq> None \<and> upper_bound sl \<noteq> None" if "sl \<in> set ?sls" for sl
    using slices_loop_bounds that by (simp add: generate_slices_def)
  have "?sls \<noteq> []" using cfg(4) unfolding sls generate_slices_def by (cases "nat n") (simp_all add: Let_def)
  then have hd: "doc_id d = upper_bound (hd ?sls) \<longleftrightarrow> the (doc_id d) = the (upper_bound (hd ?sls))" if "d \<in> set docs" for d
    using b [of "hd ?sls"] docs that by (auto simp: list_all_iff)
  have "concat out = concat (map (\<lambda>sl. map ?rec (filter (?P sl) docs)) ?sls)"
    using out b by (induction rule: list_all2_induct) (simp_all add: mongo_emits_records [OF m flt _ _ docs])
  then have "mset (concat out) = image_mset ?rec (mset (concat (map (\<lambda>sl. filter (?P sl) docs) ?sls)))"
    by (simp add: map_concat comp_def flip: mset_map)
  also have "mset (concat (map (\<lambda>sl. filter (?P sl) docs) ?sls)) = mset (filter (user_matches sat user) docs) +
      mset (filter (\<lambda>d. user_matches sat user d \<and> doc_id d = upper_bound (hd ?sls)) docs)"
  proof (rule mset_read_twice)
    fix d assume "d \<in> set docs"
    from hd [OF this] show "length (filter (\<lambda>sl. ?P sl d) ?sls) =
        (if user_matches sat user d then if doc_id d = upper_bound (hd ?sls) then 2 else 1 else 0)"
      using object_id_ranges_count [OF span(1) cfg(4,5) span(2), of "the (doc_id d)"] by auto
  qed
  finally show "mset (concat out) = image_mset ?rec (mset (filter (user_matches sat user) docs) +
      mset (filter (\<lambda>d. user_matches sat user d \<and> doc_id d = upper_bound (hd ?sls)) docs))" .
qed

definition three_documents :: "(string \<times> bson) list list" where
  "three_documents = map (\<lambda>k. [(''_id'', BObjectID (push_bit 64 (word_of_int k))), (''id'', BInt64 k)]) [0, 2, 4]"

definition three_client :: "unit mongo_client" where
  "three_client = \<lparr>mc_find = (\<lambda>db coll flt n. Inr (map Inr (filter (matches (\<lambda>k c d. True) flt) three_documents), None)),
     mc_find_one = (\<lambda>db coll up. Inr (if up then three_documents ! 0 else three_documents ! 2)), mc_disconnect = None\<rparr>"

definition plain_bson :: bson_env where
  "plain_bson = \<lparr>be_text = (\<lambda>_. []), be_json = (\<lambda>_. Inr []), be_f64_of_f32 = (\<lambda>_. 0)\<rparr>"

definition collection_config :: database_source_config where
  "collection_config = table_config\<lparr>ds_partition := \<lparr>pc_partition_column = [], pc_batch_size = 0, pc_num_partitions = 2\<rparr>,
     ds_schema := id_name_schema\<lparr>sch_fields := [zero_field\<lparr>field_name := ''id'', field_type := TypeInt64\<rparr>]\<rparr>\<rparr>"

text \<open>Three documents one of which sits on the bound between the two slices: four records are emitted.\<close>

theorem mongo_source_reads_collection_witness:
  "\<exists>out. list_all2 (mongo_emits sample_env plain_bson (\<lambda>_. Inl []) (new_mongo_source (Some three_client) ''d'') collection_config)
      (build_object_id_ranges 0 (push_bit 64 4) 2) out \<and>
    mset (concat out) = image_mset (document_record sample_env plain_bson collection_config)
      (mset three_documents + {#three_documents ! 1#})"
proof -
  let ?m = "new_mongo_source (Some three_client) ''d''" and ?sat = "\<lambda>k (c :: unit) d :: (string \<times> bson) list. True"
  let ?sls = "build_object_id_ranges 0 (push_bit 64 4) 2"
  have m: "mo_client ?m = Some three_client" "resolve_database_name ?m collection_config = ''d''" "mc_find_one three_client db t up = Inr (if up then three_documents ! 0 else three_documents ! 2)" for db t up
    by (simp_all add: new_mongo_source_def resolve_database_name_def three_client_def)
  have sv: "serves_collection three_client ?sat (resolve_database_name ?m collection_config) (ds_table collection_config) three_documents"
    by (simp add: serves_collection_def three_client_def)
  have cf: "ds_table collection_config \<noteq> []" "2 = pc_num_partitions (ds_partition collection_config)"
    "parsed_filter (\<lambda>_. Inl []) (ds_query_filter collection_config) ([] :: unit gomap)" "\<not> ds_flatten_nested collection_config"
    "sch_fields (ds_schema collection_config) = [zero_field\<lparr>field_name := ''id'', field_type := TypeInt64\<rparr>]"
    by (simp_all add: collection_config_def table_config_def parsed_filter_def trim_space_Nil)
  have ids: "map doc_id three_documents = [Some 0, Some (push_bit 64 2), Some (push_bit 64 4)]"
    by (simp add: three_documents_def doc_id_def)
  have sec: "oid_seconds 0 = 0" "oid_seconds (push_bit 64 4) = 4" by (simp_all add: oid_seconds_def)
  have step: "calculate_step 0 4 2 = 2" by (simp add: calculate_step_def signed_divide_int_def i64_def Let_def)
  have sls: "upper_bound (hd ?sls) = Some (push_bit 64 2)" "\<And>sl. sl \<in> set ?sls \<Longrightarrow> lower_bound sl \<noteq> None \<and> upper_bound sl \<noteq> None"
    unfolding build_object_id_ranges_def Let_def sec
    by (auto simp: step generate_slices_def numeral_2_eq_2 calculate_next_bound_def i64_def Let_def)
  have maps: "list_all (\<lambda>d. \<exists>r. map_bson_to_record sample_env plain_bson d (ds_schema collection_config) (ds_flatten_nested collection_config) = Inr r) three_documents"
    by (simp add: three_documents_def map_bson_to_record_def cf(4,5) zero_field_def lookup_field_def or_nil_def bson_field_def bson_wrapper_def bson_typed_def
        setter_defs set_value_def new_generic_record_def)
  have has: "list_all (\<lambda>d. doc_id d \<noteq> None) three_documents" by (simp add: three_documents_def doc_id_def)
  obtain f where f: "sl \<in> set ?sls \<Longrightarrow> mongo_emits sample_env plain_bson (\<lambda>_. Inl []) ?m collection_config sl (f sl)" for sl
    using mongo_emits_exists [OF m(1) sv cf(3) _ _ _ has maps] sls(2) by (simp, metis)
  then have out: "list_all2 (mongo_emits sample_env plain_bson (\<lambda>_. Inl []) ?m collection_config) ?sls (map f ?sls)"
    by (simp add: list_all2_map2 list.rel_refl_strong)
  have db: "resolve_database_name ?m collection_config \<noteq> []" by (simp add: m(2))
  have on: "filter (user_matches ?sat []) three_documents = three_documents"
    "filter (\<lambda>d. user_matches ?sat [] d \<and> doc_id d = upper_bound (hd ?sls)) three_documents = [three_documents ! 1]"
    unfolding sls(1) by (simp_all add: three_documents_def doc_id_def user_matches_def)
  have "mset (concat (map f ?sls)) = image_mset (document_record sample_env plain_bson collection_config) (mset (filter (user_matches ?sat []) three_documents) +
      mset (filter (\<lambda>d. user_matches ?sat [] d \<and> doc_id d = upper_bound (hd ?sls)) three_documents))"
  proof (rule mongo_source_reads_collection [OF m(1) sv cf(1) db cf(2) _ _ cf(3) _ has m(3) _ m(3) _ _ _ out, THEN conjunct2])
    show "doc_id (if True then three_documents ! 0 else three_documents ! 2) = Some 0"
      "doc_id (if False then three_documents ! 0 else three_documents ! 2) = Some (push_bit 64 4)"
      by (simp_all add: three_documents_def doc_id_def)
  qed (simp_all only: sec, simp_all)
  then show ?thesis unfolding on using out by auto
qed

end
