(* ===== verification/Cloud_Storage.thy ===== *)
theory Cloud_Storage
  imports Stream_Sink
begin

text \<open>
  Object storage: \<^verbatim>\<open>internal/adapters/storage/uri_parser.go\<close>, \<^verbatim>\<open>gcs_storage.go\<close> and \<^verbatim>\<open>storage_resolver.go\<close>. The client
  library of the object store is an argument, with the behaviour the adapter relies on as the predicate \<open>gcs_laws\<close>.
  The adapter is shown to have the laws of \<open>staged_storage\<close> except that its commits are not atomic, and the resolver to
  have them whenever its two backends do; so the sinks' bundles are published whole through either backend.
\<close>

section \<open>ParseGCSURI (uri_parser.go)\<close>

record gcs_path =
  gp_bucket :: string
  gp_object :: string

abbreviation backslash_char :: char where "backslash_char \<equiv> CHR 0x5C"

definition slashes :: "string \<Rightarrow> string" where
  "slashes s = map (\<lambda>c. if c = backslash_char then slash else c) s"

definition parse_gcs_uri :: "go_env \<Rightarrow> string \<Rightarrow> string + gcs_path" where
  "parse_gcs_uri env raw =
     (case strip_prefix ''gs://'' (slashes raw) of
        None \<Rightarrow> Inl (''invalid gcs uri '' @ go_quote env raw @ '': must start with '' @ [CHR 0x27] @ ''gs://'' @ [CHR 0x27])
      | Some trimmed \<Rightarrow>
          (let bucket = takeWhile (\<lambda>c. c \<noteq> slash) trimmed; rest = dropWhile (\<lambda>c. c \<noteq> slash) trimmed in
           if rest = [] \<or> bucket = [] \<or> trim_space (tl rest) = []
           then Inl (''invalid gcs uri '' @ go_quote env raw @ '': missing bucket or object key'')
           else Inr \<lparr>gp_bucket = bucket, gp_object = tl rest\<rparr>))"

definition gcs_uri :: "gcs_path \<Rightarrow> string" where
  "gcs_uri k = ''gs://'' @ gp_bucket k @ ''/'' @ gp_object k"

section \<open>GCSStorage (gcs_storage.go)\<close>

text \<open>The client: the calls the adapter makes on buckets, objects, readers, writers and copiers. A writer is known by
  the object it was opened for. An object iterator gives the names, or an error, until it is done.\<close>

record 'w gcs_client =
  gc_attrs :: "'w \<Rightarrow> gcs_path \<Rightarrow> 'w \<times> (string + int)"
  gc_new_reader :: "'w \<Rightarrow> gcs_path \<Rightarrow> 'w \<times> (string + string)"
  gc_objects :: "'w \<Rightarrow> string \<Rightarrow> string \<Rightarrow> 'w \<times> (string + string) list"
  gc_new_writer :: "'w \<Rightarrow> gcs_path \<Rightarrow> 'w"
  gc_write :: "'w \<Rightarrow> gcs_path \<Rightarrow> string \<Rightarrow> 'w \<times> nat \<times> string option"
  gc_close :: "'w \<Rightarrow> gcs_path \<Rightarrow> 'w \<times> string option"
  gc_copy :: "'w \<Rightarrow> gcs_path \<Rightarrow> gcs_path \<Rightarrow> 'w \<times> string option"
  gc_delete :: "'w \<Rightarrow> gcs_path \<Rightarrow> 'w \<times> string option"
  gc_uuid :: "'w \<Rightarrow> 128 word"

definition gcs_size :: "go_env \<Rightarrow> 'w gcs_client \<Rightarrow> 'w \<Rightarrow> string \<Rightarrow> 'w \<times> (string + int)" where
  "gcs_size env C w uri = (case parse_gcs_uri env uri of
      Inl e \<Rightarrow> (w, Inl e)
    | Inr k \<Rightarrow> (case gc_attrs C w k of
        (w', Inl e) \<Rightarrow> (w', Inl (''failed fetching gcs object attrs for '' @ go_quote env uri @ '': '' @ e))
      | (w', Inr n) \<Rightarrow> (w', Inr n)))"

definition gcs_open :: "go_env \<Rightarrow> 'w gcs_client \<Rightarrow> 'w \<Rightarrow> string \<Rightarrow> 'w \<times> (string + string)" where
  "gcs_open env C w uri = (case parse_gcs_uri env uri of
      Inl e \<Rightarrow> (w, Inl e)
    | Inr k \<Rightarrow> (case gc_new_reader C w k of
        (w', Inl e) \<Rightarrow> (w', Inl (''failed opening gcs object '' @ go_quote env uri @ '': '' @ e))
      | (w', Inr c) \<Rightarrow> (w', Inr c)))"

fun collect_objects :: "string \<Rightarrow> (string + string) list \<Rightarrow> string + string list" where
  "collect_objects bucket [] = Inr []"
| "collect_objects bucket (Inl e # rs) = Inl e"
| "collect_objects bucket (Inr name # rs) =
     (case collect_objects bucket rs of Inl e \<Rightarrow> Inl e
      | Inr us \<Rightarrow> Inr (gcs_uri \<lparr>gp_bucket = bucket, gp_object = name\<rparr> # us))"

definition gcs_list :: "go_env \<Rightarrow> 'w gcs_client \<Rightarrow> 'w \<Rightarrow> string \<Rightarrow> 'w \<times> (string + string list)" where
  "gcs_list env C w pat = (case parse_gcs_uri env pat of
      Inl e \<Rightarrow> (w, Inl e)
    | Inr k \<Rightarrow> (case gc_objects C w (gp_bucket k) (gp_object k) of
        (w', rs) \<Rightarrow> (w', case collect_objects (gp_bucket k) rs of
            Inl e \<Rightarrow> Inl (''failed listing gcs objects with pattern '' @ go_quote env pat @ '': '' @ e)
          | Inr us \<Rightarrow> Inr us)))"

definition temp_object :: "128 word \<Rightarrow> string \<Rightarrow> string" where
  "temp_object u obj = (let dir = path_dir obj; name = ''.temp-'' @ uuid_string u @ ''-'' @ path_base obj in
     if dir \<noteq> ''.'' \<and> dir \<noteq> [slash] then path_join [dir, name] else name)"

definition gcs_create_temp :: "go_env \<Rightarrow> 'w gcs_client \<Rightarrow> 'w \<Rightarrow> string \<Rightarrow> 'w \<times> (string + string)" where
  "gcs_create_temp env C w final_uri = (case parse_gcs_uri env final_uri of
      Inl e \<Rightarrow> (w, Inl e)
    | Inr k \<Rightarrow> let k' = k\<lparr>gp_object := temp_object (gc_uuid C w) (gp_object k)\<rparr> in (gc_new_writer C w k', Inr (gcs_uri k')))"

text \<open>The writer returned by \<^verbatim>\<open>CreateTemp\<close>, known by the temporary URI.\<close>

definition gcs_write :: "go_env \<Rightarrow> 'w gcs_client \<Rightarrow> 'w \<Rightarrow> string \<Rightarrow> string \<Rightarrow> 'w \<times> nat \<times> string option" where
  "gcs_write env C w t b = (case parse_gcs_uri env t of Inl e \<Rightarrow> (w, 0, Some e) | Inr k \<Rightarrow> gc_write C w k b)"

definition gcs_close :: "go_env \<Rightarrow> 'w gcs_client \<Rightarrow> 'w \<Rightarrow> string \<Rightarrow> 'w \<times> string option" where
  "gcs_close env C w t = (case parse_gcs_uri env t of Inl e \<Rightarrow> (w, Some e) | Inr k \<Rightarrow> gc_close C w k)"

definition gcs_commit_temp :: "go_env \<Rightarrow> 'w gcs_client \<Rightarrow> 'w \<Rightarrow> string \<Rightarrow> string \<Rightarrow> 'w \<times> string option" where
  "gcs_commit_temp env C w t f = (case parse_gcs_uri env t of
      Inl e \<Rightarrow> (w, Some e)
    | Inr src \<Rightarrow> (case parse_gcs_uri env f of
        Inl e \<Rightarrow> (w, Some e)
      | Inr dst \<Rightarrow> (case gc_copy C w src dst of
          (w1, Some e) \<Rightarrow> (w1, Some (''failed server-side copy from '' @ go_quote env t @ '' to '' @ go_quote env f @ '': '' @ e))
        | (w1, None) \<Rightarrow> (case gc_delete C w1 src of
            (w2, Some e) \<Rightarrow> (w2, Some (''failed cleaning up staging object '' @ go_quote env t @ '': '' @ e))
          | (w2, None) \<Rightarrow> (w2, None)))))"

definition gcs_abort_temp :: "go_env \<Rightarrow> 'w gcs_client \<Rightarrow> 'w \<Rightarrow> string \<Rightarrow> 'w \<times> string option" where
  "gcs_abort_temp env C w t = (case parse_gcs_uri env t of
      Inl e \<Rightarrow> (w, Some e)
    | Inr k \<Rightarrow> (case gc_delete C w k of
        (w', None) \<Rightarrow> (w', None)
      | (w', Some e) \<Rightarrow> if contains e ''object doesn't exist'' then (w', None)
          else (w', Some (''failed aborting staging object '' @ go_quote env t @ '': '' @ e))))"

definition gcs_storage :: "go_env \<Rightarrow> 'w gcs_client \<Rightarrow> 'w storage" where
  "gcs_storage env C = \<lparr>st_create = gcs_create_temp env C, st_write = gcs_write env C, st_close = gcs_close env C,
     st_commit = gcs_commit_temp env C, st_abort = gcs_abort_temp env C\<rparr>"

section \<open>StorageResolver (storage_resolver.go)\<close>

record 'w resolver =
  rs_local :: "'w storage option"
  rs_gcs :: "'w storage option"

definition gcs_scheme :: "string \<Rightarrow> bool" where
  "gcs_scheme uri \<longleftrightarrow> has_prefix uri ''gs://'' \<or> has_prefix uri (''gs:'' @ [backslash_char])"

definition select_backend :: "go_env \<Rightarrow> 'w resolver \<Rightarrow> string \<Rightarrow> string + 'w storage" where
  "select_backend env r uri =
     (if gcs_scheme uri then
        (case rs_gcs r of
           None \<Rightarrow> Inl (''storage backend not configured for this scheme: gcs storage requested for '' @ go_quote env uri)
         | Some b \<Rightarrow> Inr b)
      else if contains uri ''://'' then
        Inl (''storage backend not configured for this scheme: unsupported scheme for '' @ go_quote env uri)
      else
        (case rs_local r of
           None \<Rightarrow> Inl (''storage backend not configured for this scheme: local storage requested for '' @ go_quote env uri)
         | Some b \<Rightarrow> Inr b))"

definition resolver_create_temp :: "go_env \<Rightarrow> 'w resolver \<Rightarrow> 'w \<Rightarrow> string \<Rightarrow> 'w \<times> (string + string)" where
  "resolver_create_temp env r w f = (case select_backend env r f of Inl e \<Rightarrow> (w, Inl e) | Inr b \<Rightarrow> st_create b w f)"

definition resolver_commit_temp :: "go_env \<Rightarrow> 'w resolver \<Rightarrow> 'w \<Rightarrow> string \<Rightarrow> string \<Rightarrow> 'w \<times> string option" where
  "resolver_commit_temp env r w t f = (case select_backend env r f of Inl e \<Rightarrow> (w, Some e) | Inr b \<Rightarrow> st_commit b w t f)"

definition resolver_abort_temp :: "go_env \<Rightarrow> 'w resolver \<Rightarrow> 'w \<Rightarrow> string \<Rightarrow> 'w \<times> string option" where
  "resolver_abort_temp env r w t = (case select_backend env r t of Inl e \<Rightarrow> (w, Some e) | Inr b \<Rightarrow> st_abort b w t)"

text \<open>\<^verbatim>\<open>Open\<close>, \<^verbatim>\<open>List\<close> and \<^verbatim>\<open>Size\<close> delegate the same way; \<open>ask\<close> is the backend's operation.\<close>

definition resolver_read :: "go_env \<Rightarrow> 'w resolver \<Rightarrow> ('w storage \<Rightarrow> 'w \<Rightarrow> string \<Rightarrow> 'w \<times> (string + 'a)) \<Rightarrow> 'w \<Rightarrow> string \<Rightarrow> 'w \<times> (string + 'a)" where
  "resolver_read env r ask w uri = (case select_backend env r uri of Inl e \<Rightarrow> (w, Inl e) | Inr b \<Rightarrow> ask b w uri)"

text \<open>A writer belongs to the backend that opened it: the backend of the scheme of its temporary URI.\<close>

definition resolver_storage :: "go_env \<Rightarrow> 'w resolver \<Rightarrow> 'w storage" where
  "resolver_storage env r = \<lparr>st_create = resolver_create_temp env r,
     st_write = (\<lambda>w t b. case select_backend env r t of Inl e \<Rightarrow> (w, 0, Some e) | Inr s \<Rightarrow> st_write s w t b),
     st_close = (\<lambda>w t. case select_backend env r t of Inl e \<Rightarrow> (w, Some e) | Inr s \<Rightarrow> st_close s w t),
     st_commit = resolver_commit_temp env r, st_abort = resolver_abort_temp env r\<rparr>"

section \<open>URIs and their parts\<close>

definition gcs_path_ok :: "gcs_path \<Rightarrow> bool" where
  "gcs_path_ok k \<longleftrightarrow> gp_bucket k \<noteq> [] \<and> slash \<notin> set (gp_bucket k) \<and> trim_space (gp_object k) \<noteq> [] \<and>
     backslash_char \<notin> set (gp_bucket k) \<and> backslash_char \<notin> set (gp_object k)"

lemma slashes_id: "backslash_char \<notin> set s \<Longrightarrow> slashes s = s"
  unfolding slashes_def by (rule map_idI) auto

lemma slashes_clean: "backslash_char \<notin> set (slashes s)"
  by (auto simp: slashes_def)

lemma takeWhile_to_slash: "slash \<notin> set b \<Longrightarrow> takeWhile (\<lambda>c. c \<noteq> slash) (b @ slash # r) = b"
  by (induction b) auto

lemma dropWhile_to_slash: "slash \<notin> set b \<Longrightarrow> dropWhile (\<lambda>c. c \<noteq> slash) (b @ slash # r) = slash # r"
  by (induction b) auto

text \<open>Parsing yields well-formed paths, and a well-formed path parses back from its URI.\<close>

lemma parse_gcs_uri_ok:
  assumes "parse_gcs_uri env raw = Inr k" shows "gcs_path_ok k" "slashes raw = gcs_uri k"
proof -
  obtain tr where tr: "strip_prefix ''gs://'' (slashes raw) = Some tr" using assms by (auto simp: parse_gcs_uri_def split: option.splits)
  let ?b = "takeWhile (\<lambda>c. c \<noteq> slash) tr" and ?r = "dropWhile (\<lambda>c. c \<noteq> slash) tr"
  have k: "k = \<lparr>gp_bucket = ?b, gp_object = tl ?r\<rparr>" "?r \<noteq> []" "?b \<noteq> []" "trim_space (tl ?r) \<noteq> []"
    using assms tr by (auto simp: parse_gcs_uri_def Let_def split: if_splits)
  have s: "slashes raw = ''gs://'' @ tr" using tr by (simp add: strip_prefix_Some)
  have h: "hd ?r = slash" using k(2) hd_dropWhile by blast
  have t: "tr = ?b @ slash # tl ?r" using k(2) h by (metis list.collapse takeWhile_dropWhile_id)
  have nb: "backslash_char \<notin> set tr" using slashes_clean [of raw] s by simp
  then have "backslash_char \<notin> set ?b" "backslash_char \<notin> set (tl ?r)" using t
    by (metis set_takeWhileD, metis (no_types, lifting) Un_iff list.set_intros(2) set_append)
  moreover have "slash \<notin> set ?b" using set_takeWhileD by fast
  ultimately show "gcs_path_ok k" using k by (simp add: gcs_path_ok_def)
  show "slashes raw = gcs_uri k" using s t k(1) by (simp add: gcs_uri_def)
qed

lemma parse_gcs_uri_print:
  assumes "gcs_path_ok k" shows "parse_gcs_uri env (gcs_uri k) = Inr k"
proof -
  have "slashes (gcs_uri k) = ''gs://'' @ gp_bucket k @ slash # gp_object k"
    using assms by (simp add: slashes_id gcs_uri_def gcs_path_ok_def)
  moreover have "strip_prefix ''gs://'' (''gs://'' @ x) = Some x" for x by simp
  ultimately show ?thesis using assms
    by (simp add: parse_gcs_uri_def takeWhile_to_slash dropWhile_to_slash gcs_path_ok_def)
qed

section \<open>Names of staging objects\<close>

definition temp_named :: "string \<Rightarrow> bool" where
  "temp_named obj \<longleftrightarrow> has_prefix (last_component obj) ''.temp-''"

lemma visible_not_in_space: "\<forall>p \<in> set space_seqs. \<forall>c \<in> set p. \<not> ascii_visible c"
  by code_simp

lemma trim_left_keeps:
  "\<forall>p \<in> set ps. c \<notin> set p \<Longrightarrow> c \<in> set s \<Longrightarrow> c \<in> set (trim_left_seqs ps s)"
proof (induction ps s rule: trim_left_seqs.induct)
  case (1 ps s)
  show ?case
  proof (cases "first_strip ps s")
    case (Some r)
    then obtain p where p: "p \<in> set ps" "s = p @ r" using first_strip_Some by blast
    then have "c \<in> set r" using 1 by auto
    then show ?thesis using 1 Some by (subst trim_left_seqs.simps) auto
  qed (use 1 in \<open>subst trim_left_seqs.simps, auto\<close>)
qed

lemma trim_space_keeps:
  assumes "c \<in> set s" "ascii_visible c" shows "trim_space s \<noteq> []"
proof -
  have v: "\<forall>p \<in> set space_seqs. c \<notin> set p" using assms(2) visible_not_in_space by blast
  then have "c \<in> set (trim_left_seqs space_seqs s)" using assms(1) by (rule trim_left_keeps)
  then have "c \<in> set (trim_left_seqs (map rev space_seqs) (rev (trim_left_seqs space_seqs s)))"
    using v by (intro trim_left_keeps) auto
  then show ?thesis by (auto simp: trim_space_def trim_right_seqs_def)
qed

lemma set_join: "set (join sep xs) \<subseteq> set sep \<union> \<Union> (set ` set xs)"
  by (induction sep xs rule: join.induct) auto

lemma set_split_slash: "x \<in> set (split_slash p) \<Longrightarrow> set x \<subseteq> set p"
proof (induction p arbitrary: x)
  case (Cons c p)
  have "hd (split_slash p) \<in> set (split_slash p)" by simp
  moreover have "y \<in> set (split_slash p)" if "y \<in> set (tl (split_slash p))" for y using that by (meson list.set_sel(2) split_slash_nonempty)
  ultimately have y: "set y \<subseteq> set p" if "y = hd (split_slash p) \<or> y \<in> set (tl (split_slash p)) \<or> y \<in> set (split_slash p)" for y
    using Cons.IH that by blast
  show ?case using Cons.prems y [of "hd (split_slash p)"] y [of x] by (cases "c = slash") (auto simp: split_slash_Cons)
qed (simp add: split_slash_def)

lemma set_clean_steps:
  "\<Union> (set ` set (foldl (clean_step r) st cs)) \<subseteq> \<Union> (set ` set st) \<union> \<Union> (set ` set cs) \<union> {CHR ''.''}"
proof (induction cs arbitrary: st)
  case (Cons c cs)
  have "\<Union> (set ` set (clean_step r st c)) \<subseteq> \<Union> (set ` set st) \<union> set c \<union> {CHR ''.''}"
    by (auto simp: clean_step_def split: list.splits if_splits)
  moreover have "\<Union> (set ` set (foldl (clean_step r) st (c # cs))) \<subseteq>
      \<Union> (set ` set (clean_step r st c)) \<union> \<Union> (set ` set cs) \<union> {CHR ''.''}" using Cons.IH by simp
  ultimately show ?case by fastforce
qed auto

lemma set_path_clean: "set (path_clean p) \<subseteq> set p \<union> {CHR ''.'', slash}"
proof -
  let ?r = "p \<noteq> [] \<and> hd p = slash"
  have "\<Union> (set ` set (foldl (clean_step ?r) [] (split_slash p))) \<subseteq> set p \<union> {CHR ''.''}"
    using set_clean_steps [of ?r "[]" "split_slash p"] set_split_slash [of _ p] by auto
  then have "set (join [slash] (rev (foldl (clean_step ?r) [] (split_slash p)))) \<subseteq> set p \<union> {CHR ''.'', slash}"
    using set_join [of "[slash]" "rev (foldl (clean_step ?r) [] (split_slash p))"] by (simp add: subset_iff) blast
  then show ?thesis by (auto simp: path_clean_def Let_def)
qed

lemma set_path_dir: "set (path_dir p) \<subseteq> set p \<union> {CHR ''.'', slash}"
proof -
  have "set (up_to_last_slash p) \<subseteq> set p" unfolding up_to_last_slash_def by (metis set_dropWhileD set_rev subsetI)
  then show ?thesis using set_path_clean [of "up_to_last_slash p"] by (auto simp: path_dir_def)
qed

lemma set_path_base: "set (path_base p) \<subseteq> set p \<union> {CHR ''.'', slash}"
proof -
  have "set (last_component q) \<subseteq> set q" for q unfolding last_component_def by (metis set_rev set_takeWhileD subsetI)
  moreover have "set (trim_right_set {slash} p) \<subseteq> set p" unfolding trim_right_set_def by (metis set_dropWhileD set_rev subsetI)
  ultimately show ?thesis by (auto simp: path_base_def Let_def)
qed

lemma uuid_no_backslash: "backslash_char \<notin> set (uuid_string u)"
proof -
  have "hex_digit d \<noteq> backslash_char" if "d < 16" for d
  proof
    assume "hex_digit d = backslash_char"
    then have "(of_char (hex_digit d) :: nat) = 92" by simp
    with that show False by (simp add: hex_digit_def split: if_splits)
  qed
  from this [of "_ mod 16"] have "backslash_char \<notin> set (hex_digits n x)" for n x by (force simp: hex_digits_def)
  then show ?thesis by (fastforce simp: uuid_string_def Let_def dest: in_set_takeD in_set_dropD)
qed

lemma temp_object_name:
  assumes "path_base obj \<noteq> [slash]"
  shows "last_component (temp_object u obj) = ''.temp-'' @ uuid_string u @ ''-'' @ path_base obj"
proof -
  let ?n = "''.temp-'' @ uuid_string u @ ''-'' @ path_base obj"
  have n: "slash \<notin> set ?n" using path_base_component(1) [OF assms] uuid_no_slash by simp
  then have "last_component (path_join [path_dir obj, ?n]) = ?n" by (rule path_join_name) simp
  then show ?thesis using n last_component_id [OF n] by (simp add: temp_object_def Let_def)
qed

lemma temp_object_ok:
  assumes "gcs_path_ok k" "path_base (gp_object k) \<noteq> [slash]"
  shows "gcs_path_ok (k\<lparr>gp_object := temp_object u (gp_object k)\<rparr>)" "temp_named (temp_object u (gp_object k))"
proof -
  let ?t = "temp_object u (gp_object k)" and ?n = "''.temp-'' @ uuid_string u @ ''-'' @ path_base (gp_object k)"
  note l = temp_object_name [OF assms(2), of u]
  show "temp_named ?t" unfolding temp_named_def l has_prefix_def by simp
  have "CHR ''t'' \<in> set (last_component ?t)" unfolding l by simp
  then have t: "CHR ''t'' \<in> set ?t" unfolding last_component_def by (metis set_rev set_takeWhileD)
  have nb: "backslash_char \<notin> set ?n" "backslash_char \<notin> set (path_dir (gp_object k))"
    using assms(1) set_path_base [of "gp_object k"] set_path_dir [of "gp_object k"] uuid_no_backslash by (auto simp: gcs_path_ok_def)
  have "backslash_char \<notin> set (path_join [path_dir (gp_object k), ?n])"
    using nb set_path_clean [of "join [slash] (filter (\<lambda>p. p \<noteq> []) [path_dir (gp_object k), ?n])"] by (auto simp: path_join_def)
  then have "backslash_char \<notin> set ?t" using nb(1) by (simp add: temp_object_def Let_def)
  then show "gcs_path_ok (k\<lparr>gp_object := ?t\<rparr>)" using assms(1) trim_space_keeps [OF t] by (simp add: gcs_path_ok_def ascii_visible_def)
qed

section \<open>What the object store promises\<close>

text \<open>Over the objects and over the bytes given to the writers that are open. A writer makes its object appear when it
  is closed, and not before; a call that returns an error may have taken effect or not.\<close>

definition gcs_laws :: "'w gcs_client \<Rightarrow> ('w \<Rightarrow> gcs_path \<Rightarrow> string option) \<Rightarrow> ('w \<Rightarrow> gcs_path \<Rightarrow> string option) \<Rightarrow> bool" where
  "gcs_laws C objs pend \<longleftrightarrow>
     (\<forall>w k. objs (gc_new_writer C w k) = objs w \<and> pend (gc_new_writer C w k) = (pend w)(k \<mapsto> [])) \<and>
     (\<forall>w k b w' n e. gc_write C w k b = (w', n, e) \<longrightarrow> objs w' = objs w \<and>
        (case pend w k of
           Some c \<Rightarrow> pend w' = (pend w)(k \<mapsto> c @ take n b) \<and> (e = None \<longrightarrow> n = length b)
         | None \<Rightarrow> pend w' = pend w \<and> n = 0 \<and> e \<noteq> None)) \<and>
     (\<forall>w k w' e. gc_close C w k = (w', e) \<longrightarrow> pend w' = (pend w)(k := None) \<and>
        (case (pend w k, e) of (Some c, None) \<Rightarrow> objs w' = (objs w)(k \<mapsto> c) | _ \<Rightarrow> objs w' = objs w)) \<and>
     (\<forall>w k j w' e. gc_copy C w k j = (w', e) \<longrightarrow> pend w' = pend w \<and>
        (objs w' = (objs w)(j := objs w k) \<and> objs w k \<noteq> None \<or> e \<noteq> None \<and> objs w' = objs w)) \<and>
     (\<forall>w k w' e. gc_delete C w k = (w', e) \<longrightarrow> pend w' = pend w \<and>
        (objs w' = (objs w)(k := None) \<or> e \<noteq> None \<and> objs w' = objs w))"

text \<open>The files a client of the adapter sees, by their canonical URIs: the objects and, under a temporary name, the
  bytes of the open writer.\<close>

definition canonical :: "go_env \<Rightarrow> string \<Rightarrow> gcs_path option" where
  "canonical env p = (case parse_gcs_uri env p of Inr k \<Rightarrow> if gcs_uri k = p then Some k else None | Inl _ \<Rightarrow> None)"

definition gcs_view ::
  "go_env \<Rightarrow> ('w \<Rightarrow> gcs_path \<Rightarrow> string option) \<Rightarrow> ('w \<Rightarrow> gcs_path \<Rightarrow> string option) \<Rightarrow> 'w \<Rightarrow> string \<Rightarrow> string option" where
  "gcs_view env objs pend w p = (case canonical env p of
      None \<Rightarrow> None
    | Some k \<Rightarrow> if temp_named (gp_object k) \<and> pend w k \<noteq> None then pend w k else objs w k)"

definition gcs_target :: "go_env \<Rightarrow> string \<Rightarrow> bool" where
  "gcs_target env f = (case canonical env f of None \<Rightarrow> False
     | Some k \<Rightarrow> path_base (gp_object k) \<noteq> [slash] \<and> \<not> temp_named (gp_object k))"

definition gcs_temp :: "go_env \<Rightarrow> string \<Rightarrow> string \<Rightarrow> bool" where
  "gcs_temp env f t \<longleftrightarrow> gcs_target env f \<and> (case canonical env t of None \<Rightarrow> False | Some k \<Rightarrow> temp_named (gp_object k))"

definition gcs_settled :: "go_env \<Rightarrow> ('w \<Rightarrow> gcs_path \<Rightarrow> string option) \<Rightarrow> 'w \<Rightarrow> string \<Rightarrow> bool" where
  "gcs_settled env pend w t = (case canonical env t of None \<Rightarrow> True | Some k \<Rightarrow> pend w k = None)"

lemma gcs_lawsD:
  assumes "gcs_laws C objs pend"
  shows "objs (gc_new_writer C w k) = objs w" "pend (gc_new_writer C w k) = (pend w)(k \<mapsto> [])"
    "gc_write C w k b = (w', n, e) \<Longrightarrow> objs w' = objs w \<and>
        (case pend w k of
           Some c \<Rightarrow> pend w' = (pend w)(k \<mapsto> c @ take n b) \<and> (e = None \<longrightarrow> n = length b)
         | None \<Rightarrow> pend w' = pend w \<and> n = 0 \<and> e \<noteq> None)"
    "gc_close C w k = (w', e) \<Longrightarrow> pend w' = (pend w)(k := None) \<and>
        (case (pend w k, e) of (Some c, None) \<Rightarrow> objs w' = (objs w)(k \<mapsto> c) | _ \<Rightarrow> objs w' = objs w)"
    "gc_copy C w k j = (w', e) \<Longrightarrow> pend w' = pend w \<and>
        (objs w' = (objs w)(j := objs w k) \<and> objs w k \<noteq> None \<or> e \<noteq> None \<and> objs w' = objs w)"
    "gc_delete C w k = (w', e) \<Longrightarrow> pend w' = pend w \<and> (objs w' = (objs w)(k := None) \<or> e \<noteq> None \<and> objs w' = objs w)"
proof -
  note l = assms [unfolded gcs_laws_def]
  show "objs (gc_new_writer C w k) = objs w" "pend (gc_new_writer C w k) = (pend w)(k \<mapsto> [])" using l [THEN conjunct1] by simp_all
  show "gc_write C w k b = (w', n, e) \<Longrightarrow> objs w' = objs w \<and>
        (case pend w k of
           Some c \<Rightarrow> pend w' = (pend w)(k \<mapsto> c @ take n b) \<and> (e = None \<longrightarrow> n = length b)
         | None \<Rightarrow> pend w' = pend w \<and> n = 0 \<and> e \<noteq> None)"
    using l [THEN conjunct2, THEN conjunct1] by blast
  show "gc_close C w k = (w', e) \<Longrightarrow> pend w' = (pend w)(k := None) \<and>
        (case (pend w k, e) of (Some c, None) \<Rightarrow> objs w' = (objs w)(k \<mapsto> c) | _ \<Rightarrow> objs w' = objs w)"
    using l [THEN conjunct2, THEN conjunct2, THEN conjunct1] by blast
  show "gc_copy C w k j = (w', e) \<Longrightarrow> pend w' = pend w \<and>
        (objs w' = (objs w)(j := objs w k) \<and> objs w k \<noteq> None \<or> e \<noteq> None \<and> objs w' = objs w)"
    using l [THEN conjunct2, THEN conjunct2, THEN conjunct2, THEN conjunct1] by blast
  show "gc_delete C w k = (w', e) \<Longrightarrow> pend w' = pend w \<and> (objs w' = (objs w)(k := None) \<or> e \<noteq> None \<and> objs w' = objs w)"
    using l [THEN conjunct2, THEN conjunct2, THEN conjunct2, THEN conjunct2] by blast
qed

lemma canonical_Some: "canonical env p = Some k \<longleftrightarrow> gcs_path_ok k \<and> p = gcs_uri k"
  using parse_gcs_uri_ok(1) [of env p k] parse_gcs_uri_print [of k env]
  by (auto simp: canonical_def split: sum.splits if_splits)

lemma canonical_parse: "canonical env p = Some k \<Longrightarrow> parse_gcs_uri env p = Inr k"
  by (auto simp: canonical_Some parse_gcs_uri_print)

lemma gcs_temp_keys:
  assumes "gcs_temp env f t"
  obtains kf kt where "canonical env f = Some kf" "canonical env t = Some kt" "temp_named (gp_object kt)" "\<not> temp_named (gp_object kf)"
    "path_base (gp_object kf) \<noteq> [slash]"
  using assms by (auto simp: gcs_temp_def gcs_target_def split: option.splits)

text \<open>A change of the state of one object is a change of the view at its canonical URI.\<close>

lemma gcs_view_upd:
  assumes "canonical env t = Some k" "\<And>j. j \<noteq> k \<Longrightarrow> objs w' j = objs w j \<and> pend w' j = pend w j"
    and "(if temp_named (gp_object k) \<and> pend w' k \<noteq> None then pend w' k else objs w' k) = v"
  shows "gcs_view env objs pend w' = (gcs_view env objs pend w)(t := v)"
proof
  fix p
  show "gcs_view env objs pend w' p = ((gcs_view env objs pend w)(t := v)) p"
  proof (cases "p = t")
    case True
    then show ?thesis using assms(1,3) by (simp add: gcs_view_def)
  next
    case False
    then have "canonical env p \<noteq> Some k" using assms(1) by (simp add: canonical_Some)
    then show ?thesis using False assms(2) by (auto simp: gcs_view_def split: option.splits)
  qed
qed

lemma gcs_view_same: "objs w' = objs w \<Longrightarrow> pend w' = pend w \<Longrightarrow> gcs_view env objs pend w' = gcs_view env objs pend w"
  by (rule ext) (auto simp: gcs_view_def split: option.split)

lemma gcs_create_temp_target:
  assumes "gcs_target env f" "gcs_create_temp env C w f = (w', r)"
  obtains k t where "canonical env f = Some k" "r = Inr t" "canonical env t = Some (k\<lparr>gp_object := temp_object (gc_uuid C w) (gp_object k)\<rparr>)"
    "gcs_temp env f t" "w' = gc_new_writer C w (k\<lparr>gp_object := temp_object (gc_uuid C w) (gp_object k)\<rparr>)"
proof -
  obtain k where k: "canonical env f = Some k" "path_base (gp_object k) \<noteq> [slash]"
    using assms(1) by (auto simp: gcs_target_def split: option.splits)
  let ?k = "k\<lparr>gp_object := temp_object (gc_uuid C w) (gp_object k)\<rparr>"
  have t: "gcs_path_ok ?k" "temp_named (gp_object ?k)" using temp_object_ok [of k] k by (simp_all add: canonical_Some)
  then have c: "canonical env (gcs_uri ?k) = Some ?k" by (simp add: canonical_Some)
  have "w' = gc_new_writer C w ?k" "r = Inr (gcs_uri ?k)"
    using assms(2) canonical_parse [OF k(1)] by (simp_all add: gcs_create_temp_def Let_def)
  moreover have "gcs_temp env f (gcs_uri ?k)" using assms(1) c t(2) by (simp add: gcs_temp_def)
  ultimately show ?thesis using that k(1) c by blast
qed

section \<open>The adapter has the laws of staged storage\<close>

lemma gcs_copy_delete:
  assumes laws: "gcs_laws C objs pend" and k: "canonical env f = Some kf" "canonical env t = Some kt" "kt \<noteq> kf" "\<not> temp_named (gp_object kf)"
    and w: "pend w kt = None" "objs w kt = Some c"
    and c: "gcs_commit_temp env C w t f = (w', e)"
  shows "e = None \<Longrightarrow> gcs_view env objs pend w' = (gcs_view env objs pend w)(f \<mapsto> c, t := None)"
    and "(\<forall>p. p \<noteq> t \<longrightarrow> p \<noteq> f \<longrightarrow> gcs_view env objs pend w' p = gcs_view env objs pend w p) \<and>
      (gcs_view env objs pend w' f = gcs_view env objs pend w f \<or> gcs_view env objs pend w' f = Some c)"
proof -
  let ?v = "gcs_view env objs pend"
  have tf: "t \<noteq> f" using k by auto
  obtain w1 e1 where cp: "gc_copy C w kt kf = (w1, e1)" by fastforce
  obtain w2 e2 where dl: "gc_delete C w1 kt = (w2, e2)" by fastforce
  have r: "w' = (if e1 = None then w2 else w1)" "e = None \<longleftrightarrow> e1 = None \<and> e2 = None"
    using c cp dl canonical_parse [OF k(1)] canonical_parse [OF k(2)] by (auto simp: gcs_commit_temp_def split: option.splits)
  have p1: "pend w1 = pend w" and o1: "objs w1 = (objs w)(kf \<mapsto> c) \<or> e1 \<noteq> None \<and> objs w1 = objs w"
    using gcs_lawsD(5) [OF laws cp] w(2) by auto
  have p2: "pend w2 = pend w1" and o2: "objs w2 = (objs w1)(kt := None) \<or> e2 \<noteq> None \<and> objs w2 = objs w1"
    using gcs_lawsD(6) [OF laws dl] by auto
  have v1: "?v w1 = (?v w)(f \<mapsto> c) \<or> e1 \<noteq> None \<and> ?v w1 = ?v w"
    using o1 p1 gcs_view_same [of objs w1 w pend env] gcs_view_upd [OF k(1), of objs w1 w pend "Some c"] k(4) by auto
  have v2: "?v w2 = (?v w1)(t := None) \<or> e2 \<noteq> None \<and> ?v w2 = ?v w1"
    using o2 p1 p2 w(1) gcs_view_same [of objs w2 w1 pend env] gcs_view_upd [OF k(2), of objs w2 w1 pend None] by auto
  show "e = None \<Longrightarrow> ?v w' = (?v w)(f \<mapsto> c, t := None)" using r v1 v2 by auto
  show "(\<forall>p. p \<noteq> t \<longrightarrow> p \<noteq> f \<longrightarrow> ?v w' p = ?v w p) \<and> (?v w' f = ?v w f \<or> ?v w' f = Some c)"
    using r(1) v1 v2 tf by (cases e1) auto
qed

lemma gcs_view_temp: "canonical env t = Some k \<Longrightarrow> temp_named (gp_object k) \<Longrightarrow>
  gcs_view env objs pend w t = (if pend w k \<noteq> None then pend w k else objs w k)"
  by (simp add: gcs_view_def)

lemma gcs_write_view:
  assumes laws: "gcs_laws C objs pend" and k: "canonical env t = Some k" "temp_named (gp_object k)"
    and v: "gcs_view env objs pend w t = Some c" "gcs_write env C w t b = (w', n, e)"
  shows "gcs_view env objs pend w' = (gcs_view env objs pend w)(t \<mapsto> c @ take n b)" "e = None \<Longrightarrow> n = length b"
proof -
  have wr: "gc_write C w k b = (w', n, e)" using v(2) canonical_parse [OF k(1)] by (simp add: gcs_write_def)
  have o: "objs w' = objs w" and p: "case pend w k of Some c \<Rightarrow> pend w' = (pend w)(k \<mapsto> c @ take n b) \<and> (e = None \<longrightarrow> n = length b)
         | None \<Rightarrow> pend w' = pend w \<and> n = 0 \<and> e \<noteq> None" using gcs_lawsD(3) [OF laws wr] by simp_all
  show "gcs_view env objs pend w' = (gcs_view env objs pend w)(t \<mapsto> c @ take n b)" "e = None \<Longrightarrow> n = length b"
    using o p v(1) k gcs_view_upd [OF k(1), of objs w' w pend] gcs_view_same [of objs w' w pend env]
    by (auto simp: gcs_view_temp split: option.splits)
qed

lemma gcs_close_view:
  assumes laws: "gcs_laws C objs pend" and k: "canonical env t = Some k" "temp_named (gp_object k)"
    and c: "gcs_close env C w t = (w', e)"
  shows "e = None \<Longrightarrow> gcs_view env objs pend w' = gcs_view env objs pend w \<and> gcs_settled env pend w' t"
    and "p \<noteq> t \<Longrightarrow> gcs_view env objs pend w' p = gcs_view env objs pend w p"
proof -
  have cl: "gc_close C w k = (w', e)" using c canonical_parse [OF k(1)] by (simp add: gcs_close_def)
  have p: "pend w' = (pend w)(k := None)" and o: "case (pend w k, e) of (Some c, None) \<Rightarrow> objs w' = (objs w)(k \<mapsto> c) | _ \<Rightarrow> objs w' = objs w"
    using gcs_lawsD(4) [OF laws cl] by simp_all
  have v: "gcs_view env objs pend w' = (gcs_view env objs pend w)(t := objs w' k)"
    using o p by (intro gcs_view_upd [OF k(1)]) (auto split: option.splits)
  then show "p \<noteq> t \<Longrightarrow> gcs_view env objs pend w' p = gcs_view env objs pend w p" by simp
  assume e: "e = None"
  have "objs w' k = gcs_view env objs pend w t" using o e k by (auto simp: gcs_view_temp split: option.splits)
  then show "gcs_view env objs pend w' = gcs_view env objs pend w \<and> gcs_settled env pend w' t"
    using v p k(1) by (simp add: gcs_settled_def)
qed

lemma gcs_abort_view:
  assumes laws: "gcs_laws C objs pend" and k: "canonical env t = Some k" "temp_named (gp_object k)" and "p \<noteq> t"
  shows "gcs_view env objs pend (fst (gcs_abort_temp env C w t)) p = gcs_view env objs pend w p"
proof -
  obtain w' e where dl: "gc_delete C w k = (w', e)" by fastforce
  have "fst (gcs_abort_temp env C w t) = w'" using dl canonical_parse [OF k(1)] by (auto simp: gcs_abort_temp_def split: option.splits)
  moreover have "pend w' = pend w" "objs w' = (objs w)(k := None) \<or> objs w' = objs w"
    using gcs_lawsD(6) [OF laws dl] by auto
  ultimately show ?thesis
    using \<open>p \<noteq> t\<close> gcs_view_upd [OF k(1), of objs w' w pend] gcs_view_same [of objs w' w pend env] by auto
qed

lemma gcs_staged:
  assumes laws: "gcs_laws C objs pend"
  shows "staged_storage (gcs_storage env C) (gcs_view env objs pend) (gcs_target env) (gcs_temp env) (gcs_settled env pend) False"
proof
  let ?S = "gcs_storage env C" and ?v = "gcs_view env objs pend"
  fix f t assume ft: "gcs_temp env f t"
  obtain kf kt where k: "canonical env f = Some kf" "canonical env t = Some kt" "temp_named (gp_object kt)" "\<not> temp_named (gp_object kf)"
    using gcs_temp_keys [OF ft] by metis
  have kn: "kt \<noteq> kf" using k by auto
  have "t \<noteq> []" using k(2) by (auto simp: canonical_Some gcs_uri_def)
  then show "t \<noteq> f \<and> t \<noteq> []" using k by auto
  show "n = length b \<and> ?v w' = (?v w)(t \<mapsto> c @ b)" if "?v w t = Some c" "st_write ?S w t b = (w', n, None)" for w c b w' n
    using gcs_write_view [OF laws k(2,3) that(1)] that(2) by (simp add: gcs_storage_def)
  show "?v w' = (?v w)(t \<mapsto> c @ take n b)" if "?v w t = Some c" "st_write ?S w t b = (w', n, Some e)" for w c b w' n e
    using gcs_write_view [OF laws k(2,3) that(1)] that(2) by (simp add: gcs_storage_def)
  show "?v w' = ?v w \<and> gcs_settled env pend w' t" if "st_close ?S w t = (w', None)" for w w'
    using gcs_close_view(1) [OF laws k(2,3)] that by (simp add: gcs_storage_def)
  show "?v (fst (st_close ?S w t)) p = ?v w p" if "p \<noteq> t" for w p
    using gcs_close_view(2) [OF laws k(2,3) _ that, of w "fst (st_close ?S w t)" "snd (st_close ?S w t)"] by (simp add: gcs_storage_def)
  show "?v (fst (st_abort ?S w t)) p = ?v w p" if "p \<noteq> t" for w p
    using gcs_abort_view [OF laws k(2,3) that] by (simp add: gcs_storage_def)
  have s: "pend w kt = None \<and> objs w kt = Some c" if "gcs_settled env pend w t" "?v w t = Some c" for w c
    using that k by (simp add: gcs_settled_def gcs_view_temp)
  show "?v w' = (?v w)(f \<mapsto> c, t := None)"
    if "gcs_settled env pend w t" "?v w t = Some c" "st_commit ?S w t f = (w', None)" for w w' c
    using gcs_copy_delete(1) [OF laws k(1,2) kn k(4), of w c w' None] s [OF that(1,2)] that(3) by (simp add: gcs_storage_def)
  show "(\<forall>p. p \<noteq> t \<longrightarrow> p \<noteq> f \<longrightarrow> ?v w' p = ?v w p) \<and> (?v w' f = ?v w f \<or> \<not> False \<and> ?v w' f = Some c)"
    if "gcs_settled env pend w t" "?v w t = Some c" "st_commit ?S w t f = (w', Some e)" for w w' c e
    using gcs_copy_delete(2) [OF laws k(1,2) kn k(4), of w c w' "Some e"] s [OF that(1,2)] that(3) by (simp add: gcs_storage_def)
next
  let ?S = "gcs_storage env C" and ?v = "gcs_view env objs pend"
  fix f w w' t assume a: "gcs_target env f" "st_create ?S w f = (w', Inr t)"
  then have c: "gcs_create_temp env C w f = (w', Inr t)" by (simp add: gcs_storage_def)
  obtain k where k: "canonical env t = Some (k\<lparr>gp_object := temp_object (gc_uuid C w) (gp_object k)\<rparr>)" "gcs_temp env f t"
      "w' = gc_new_writer C w (k\<lparr>gp_object := temp_object (gc_uuid C w) (gp_object k)\<rparr>)"
    using gcs_create_temp_target [OF a(1) c] by (metis sum.inject(2))
  then have "objs w' = objs w" "pend w' = (pend w)(k\<lparr>gp_object := temp_object (gc_uuid C w) (gp_object k)\<rparr> \<mapsto> [])"
    using gcs_lawsD(1,2) [OF laws] by simp_all
  then have "?v w' = (?v w)(t \<mapsto> [])" using k(1,2) by (intro gcs_view_upd [OF k(1)]) (auto simp: gcs_temp_def)
  then show "gcs_temp env f t \<and> ?v w' = (?v w)(t \<mapsto> [])" using k(2) by simp
next
  fix f w w' e assume "gcs_target env f" "st_create (gcs_storage env C) w f = (w', Inl e)"
  then show "gcs_view env objs pend w' = gcs_view env objs pend w"
    using gcs_create_temp_target [of env f C w w' "Inl e"] by (auto simp: gcs_storage_def)
qed

section \<open>The resolver keeps the laws of its backends\<close>

text \<open>Two backends over one world: each works on its part of it.\<close>

definition on_local :: "'l storage \<Rightarrow> ('l \<times> 'g) storage" where
  "on_local S = \<lparr>st_create = (\<lambda>(l, g) f. case st_create S l f of (l', r) \<Rightarrow> ((l', g), r)),
     st_write = (\<lambda>(l, g) t b. case st_write S l t b of (l', r) \<Rightarrow> ((l', g), r)),
     st_close = (\<lambda>(l, g) t. case st_close S l t of (l', r) \<Rightarrow> ((l', g), r)),
     st_commit = (\<lambda>(l, g) t f. case st_commit S l t f of (l', r) \<Rightarrow> ((l', g), r)),
     st_abort = (\<lambda>(l, g) t. case st_abort S l t of (l', r) \<Rightarrow> ((l', g), r))\<rparr>"

definition on_gcs :: "'g storage \<Rightarrow> ('l \<times> 'g) storage" where
  "on_gcs S = \<lparr>st_create = (\<lambda>(l, g) f. case st_create S g f of (g', r) \<Rightarrow> ((l, g'), r)),
     st_write = (\<lambda>(l, g) t b. case st_write S g t b of (g', r) \<Rightarrow> ((l, g'), r)),
     st_close = (\<lambda>(l, g) t. case st_close S g t of (g', r) \<Rightarrow> ((l, g'), r)),
     st_commit = (\<lambda>(l, g) t f. case st_commit S g t f of (g', r) \<Rightarrow> ((l, g'), r)),
     st_abort = (\<lambda>(l, g) t. case st_abort S g t of (g', r) \<Rightarrow> ((l, g'), r))\<rparr>"

definition local_scheme :: "string \<Rightarrow> bool" where
  "local_scheme uri \<longleftrightarrow> \<not> gcs_scheme uri \<and> \<not> contains uri ''://''"

definition routed_view ::
  "('l \<Rightarrow> string \<Rightarrow> string option) \<Rightarrow> ('g \<Rightarrow> string \<Rightarrow> string option) \<Rightarrow> 'l \<times> 'g \<Rightarrow> string \<Rightarrow> string option" where
  "routed_view vl vg w p = (if gcs_scheme p then vg (snd w) p else if local_scheme p then vl (fst w) p else None)"

definition routed :: "(string \<Rightarrow> bool) \<Rightarrow> (string \<Rightarrow> bool) \<Rightarrow> string \<Rightarrow> bool" where
  "routed ltarget gtarget f \<longleftrightarrow> gcs_scheme f \<and> gtarget f \<or> local_scheme f \<and> ltarget f"

definition routed_temp :: "(string \<Rightarrow> string \<Rightarrow> bool) \<Rightarrow> (string \<Rightarrow> string \<Rightarrow> bool) \<Rightarrow> string \<Rightarrow> string \<Rightarrow> bool" where
  "routed_temp ml mg f t \<longleftrightarrow> gcs_scheme f \<and> gcs_scheme t \<and> mg f t \<or> local_scheme f \<and> local_scheme t \<and> ml f t"

definition routed_settled :: "('l \<Rightarrow> string \<Rightarrow> bool) \<Rightarrow> ('g \<Rightarrow> string \<Rightarrow> bool) \<Rightarrow> 'l \<times> 'g \<Rightarrow> string \<Rightarrow> bool" where
  "routed_settled sl sg w t = (if gcs_scheme t then sg (snd w) t else sl (fst w) t)"

abbreviation two_backends :: "go_env \<Rightarrow> 'l storage \<Rightarrow> 'g storage \<Rightarrow> ('l \<times> 'g) storage" where
  "two_backends env L G \<equiv> resolver_storage env \<lparr>rs_local = Some (on_local L), rs_gcs = Some (on_gcs G)\<rparr>"

lemma select_two_backends:
  "gcs_scheme uri \<Longrightarrow> select_backend env \<lparr>rs_local = Some l, rs_gcs = Some g\<rparr> uri = Inr g"
  "local_scheme uri \<Longrightarrow> select_backend env \<lparr>rs_local = Some l, rs_gcs = Some g\<rparr> uri = Inr l"
  by (simp_all add: select_backend_def local_scheme_def)

lemmas two_backends_simps = resolver_storage_def resolver_create_temp_def resolver_commit_temp_def resolver_abort_temp_def
  select_two_backends on_local_def on_gcs_def

lemma gcs_scheme_not_local [simp]: "gcs_scheme p \<Longrightarrow> \<not> local_scheme p"
  by (simp add: local_scheme_def)

lemma routed_view_gcs: "gcs_scheme f \<Longrightarrow> vg g' = (vg g)(f := x) \<Longrightarrow> routed_view vl vg (l, g') = (routed_view vl vg (l, g))(f := x)"
  by (auto simp: routed_view_def fun_eq_iff)

lemma routed_view_local: "local_scheme f \<Longrightarrow> vl l' = (vl l)(f := x) \<Longrightarrow> routed_view vl vg (l', g) = (routed_view vl vg (l, g))(f := x)"
  by (auto simp: routed_view_def fun_eq_iff)

lemma routed_view_id: "vg g' = vg g \<Longrightarrow> vl l' = vl l \<Longrightarrow> routed_view vl vg (l', g') = routed_view vl vg (l, g)"
  by (simp add: routed_view_def fun_eq_iff)

lemma routed_view_at:
  "gcs_scheme p \<Longrightarrow> routed_view vl vg (l, g) p = vg g p" "local_scheme p \<Longrightarrow> routed_view vl vg (l, g) p = vl l p"
  by (auto simp: routed_view_def)

text \<open>The cases of a temporary name the resolver has given out.\<close>

lemma routed_temp_cases:
  assumes "routed_temp ml mg f t"
  obtains (gcs) "gcs_scheme t" "gcs_scheme f" "mg f t" | (loc) "local_scheme t" "local_scheme f" "ml f t" "\<not> gcs_scheme t" "\<not> gcs_scheme f"
  using assms by (auto simp: routed_temp_def local_scheme_def)

lemma resolver_create_ok:
  assumes L: "staged_storage L vl ltarget ml sl al" and G: "staged_storage G vg gtarget mg sg ag"
    and nl: "\<And>f l l' t. local_scheme f \<Longrightarrow> ltarget f \<Longrightarrow> st_create L l f = (l', Inr t) \<Longrightarrow> local_scheme t"
    and ng: "\<And>f g g' t. gcs_scheme f \<Longrightarrow> gtarget f \<Longrightarrow> st_create G g f = (g', Inr t) \<Longrightarrow> gcs_scheme t"
    and T: "routed ltarget gtarget f" and c: "st_create (two_backends env L G) w f = (w', Inr t)"
  shows "routed_temp ml mg f t \<and> routed_view vl vg w' = (routed_view vl vg w)(t \<mapsto> [])"
proof -
  obtain l g l' g' where w: "w = (l, g)" "w' = (l', g')" by fastforce
  show ?thesis
  proof (cases "gcs_scheme f")
    case True
    then have g: "gtarget f" "st_create G g f = (g', Inr t)" "l' = l" using T c w by (auto simp: routed_def two_backends_simps split: prod.splits)
    show ?thesis using staged_storage.create_ok [OF G g(1,2)] ng [OF True g(1,2)] True w g(3) by (simp add: routed_temp_def routed_view_gcs)
  next
    case False
    then have g: "local_scheme f" "ltarget f" using T by (auto simp: routed_def)
    then have c': "st_create L l f = (l', Inr t)" "g' = g" using c w by (auto simp: two_backends_simps split: prod.splits)
    show ?thesis using staged_storage.create_ok [OF L g(2) c'(1)] nl [OF g c'(1)] g w c'(2) by (simp add: routed_temp_def routed_view_local)
  qed
qed

lemma resolver_create_fails:
  assumes L: "staged_storage L vl ltarget ml sl al" and G: "staged_storage G vg gtarget mg sg ag"
    and T: "routed ltarget gtarget f" and c: "st_create (two_backends env L G) w f = (w', Inl e)"
  shows "routed_view vl vg w' = routed_view vl vg w"
proof -
  obtain l g l' g' where w: "w = (l, g)" "w' = (l', g')" by fastforce
  show ?thesis
  proof (cases "gcs_scheme f")
    case True
    then have g: "gtarget f" "st_create G g f = (g', Inl e)" "l' = l" using T c w by (auto simp: routed_def two_backends_simps split: prod.splits)
    show ?thesis using staged_storage.create_fails [OF G g(1,2)] w g(3) by (simp add: routed_view_id [of vg g' g vl l l])
  next
    case False
    then have g: "local_scheme f" "ltarget f" using T by (auto simp: routed_def)
    then have c': "st_create L l f = (l', Inl e)" "g' = g" using c w by (auto simp: two_backends_simps split: prod.splits)
    show ?thesis using staged_storage.create_fails [OF L g(2) c'(1)] w c'(2) by (simp add: routed_view_id [of vg g g vl l' l])
  qed
qed

lemma resolver_temp:
  assumes L: "staged_storage L vl ltarget ml sl al" and G: "staged_storage G vg gtarget mg sg ag"
    and M: "routed_temp ml mg f t"
  shows "t \<noteq> f \<and> t \<noteq> []"
  using M by (rule routed_temp_cases) (use staged_storage.temp_name [OF G] staged_storage.temp_name [OF L] in blast)+

lemma resolver_close_others:
  assumes L: "staged_storage L vl ltarget ml sl al" and G: "staged_storage G vg gtarget mg sg ag"
    and M: "routed_temp ml mg f t" and p: "p \<noteq> t"
  shows "routed_view vl vg (fst (st_close (two_backends env L G) w t)) p = routed_view vl vg w p"
proof -
  obtain l g where w: "w = (l, g)" by fastforce
  from M show ?thesis
  proof (cases rule: routed_temp_cases)
    case gcs then show ?thesis unfolding w using staged_storage.close_others [OF G gcs(3) p, of g] p
      by (cases "st_close G g t") (auto simp: two_backends_simps routed_view_def)
  next
    case loc then show ?thesis unfolding w using staged_storage.close_others [OF L loc(3) p, of l] p
      by (cases "st_close L l t") (auto simp: two_backends_simps routed_view_def)
  qed
qed

lemma resolver_abort_others:
  assumes L: "staged_storage L vl ltarget ml sl al" and G: "staged_storage G vg gtarget mg sg ag"
    and M: "routed_temp ml mg f t" and p: "p \<noteq> t"
  shows "routed_view vl vg (fst (st_abort (two_backends env L G) w t)) p = routed_view vl vg w p"
proof -
  obtain l g where w: "w = (l, g)" by fastforce
  from M show ?thesis
  proof (cases rule: routed_temp_cases)
    case gcs then show ?thesis unfolding w using staged_storage.abort_others [OF G gcs(3) p, of g] p
      by (cases "st_abort G g t") (auto simp: two_backends_simps routed_view_def)
  next
    case loc then show ?thesis unfolding w using staged_storage.abort_others [OF L loc(3) p, of l] p
      by (cases "st_abort L l t") (auto simp: two_backends_simps routed_view_def)
  qed
qed

lemma resolver_write_ok:
  assumes L: "staged_storage L vl ltarget ml sl al" and G: "staged_storage G vg gtarget mg sg ag"
    and M: "routed_temp ml mg f t" and v: "routed_view vl vg w t = Some c" and r: "st_write (two_backends env L G) w t b = (w', n, None)"
  shows "n = length b \<and> routed_view vl vg w' = (routed_view vl vg w)(t \<mapsto> c @ b)"
proof -
  obtain l g l' g' where w: "w = (l, g)" "w' = (l', g')" by fastforce
  from M show ?thesis
  proof (cases rule: routed_temp_cases)
    case gcs then have "st_write G g t b = (g', n, None)" "l' = l" "vg g t = Some c" using r v w by (auto simp: two_backends_simps routed_view_at split: prod.splits)
    then show ?thesis unfolding w using staged_storage.write_ok [OF G gcs(3)] gcs(1) by (simp add: routed_view_gcs)
  next
    case loc then have "st_write L l t b = (l', n, None)" "g' = g" "vl l t = Some c" using r v w by (auto simp: two_backends_simps routed_view_at split: prod.splits)
    then show ?thesis unfolding w using staged_storage.write_ok [OF L loc(3)] loc(1) by (simp add: routed_view_local)
  qed
qed

lemma resolver_write_fails:
  assumes L: "staged_storage L vl ltarget ml sl al" and G: "staged_storage G vg gtarget mg sg ag"
    and M: "routed_temp ml mg f t" and v: "routed_view vl vg w t = Some c" and r: "st_write (two_backends env L G) w t b = (w', n, Some e)"
  shows "routed_view vl vg w' = (routed_view vl vg w)(t \<mapsto> c @ take n b)"
proof -
  obtain l g l' g' where w: "w = (l, g)" "w' = (l', g')" by fastforce
  from M show ?thesis
  proof (cases rule: routed_temp_cases)
    case gcs then have "st_write G g t b = (g', n, Some e)" "l' = l" "vg g t = Some c" using r v w by (auto simp: two_backends_simps routed_view_at split: prod.splits)
    then show ?thesis unfolding w using staged_storage.write_fails [OF G gcs(3)] gcs(1) by (simp add: routed_view_gcs)
  next
    case loc then have "st_write L l t b = (l', n, Some e)" "g' = g" "vl l t = Some c" using r v w by (auto simp: two_backends_simps routed_view_at split: prod.splits)
    then show ?thesis unfolding w using staged_storage.write_fails [OF L loc(3)] loc(1) by (simp add: routed_view_local)
  qed
qed

lemma resolver_close_ok:
  assumes L: "staged_storage L vl ltarget ml sl al" and G: "staged_storage G vg gtarget mg sg ag"
    and M: "routed_temp ml mg f t" and r: "st_close (two_backends env L G) w t = (w', None)"
  shows "routed_view vl vg w' = routed_view vl vg w \<and> routed_settled sl sg w' t"
proof -
  obtain l g l' g' where w: "w = (l, g)" "w' = (l', g')" by fastforce
  from M show ?thesis
  proof (cases rule: routed_temp_cases)
    case gcs then have "st_close G g t = (g', None)" "l' = l" using r w by (auto simp: two_backends_simps split: prod.splits)
    then show ?thesis unfolding w using staged_storage.close_ok [OF G gcs(3)] gcs(1) by (simp add: routed_view_id [of vg g' g vl l l] routed_settled_def)
  next
    case loc then have "st_close L l t = (l', None)" "g' = g" using r w by (auto simp: two_backends_simps split: prod.splits)
    then show ?thesis unfolding w using staged_storage.close_ok [OF L loc(3)] loc(1)
      by (simp add: routed_view_id [of vg g g vl l' l] routed_settled_def local_scheme_def)
  qed
qed

lemma resolver_commit_ok:
  assumes L: "staged_storage L vl ltarget ml sl al" and G: "staged_storage G vg gtarget mg sg ag"
    and M: "routed_temp ml mg f t" and d: "routed_settled sl sg w t" and v: "routed_view vl vg w t = Some c" and r: "st_commit (two_backends env L G) w t f = (w', None)"
  shows "routed_view vl vg w' = (routed_view vl vg w)(f \<mapsto> c, t := None)"
proof -
  obtain l g l' g' where w: "w = (l, g)" "w' = (l', g')" by fastforce
  from M show ?thesis
  proof (cases rule: routed_temp_cases)
    case gcs
    then have "st_commit G g t f = (g', None)" "l' = l" "vg g t = Some c" "sg g t"
      using r v d w by (auto simp: two_backends_simps routed_view_at routed_settled_def split: prod.splits)
    then show ?thesis unfolding w using staged_storage.commit_ok [OF G gcs(3)] gcs by (auto simp: routed_view_def fun_eq_iff)
  next
    case loc
    then have "st_commit L l t f = (l', None)" "g' = g" "vl l t = Some c" "sl l t"
      using r v d w by (auto simp: two_backends_simps routed_view_at routed_settled_def split: prod.splits)
    then show ?thesis unfolding w using staged_storage.commit_ok [OF L loc(3)] loc by (auto simp: routed_view_def fun_eq_iff)
  qed
qed

lemma resolver_commit_fails:
  assumes L: "staged_storage L vl ltarget ml sl al" and G: "staged_storage G vg gtarget mg sg ag"
    and M: "routed_temp ml mg f t" and d: "routed_settled sl sg w t" and v: "routed_view vl vg w t = Some c" and r: "st_commit (two_backends env L G) w t f = (w', Some e)"
  shows "(\<forall>p. p \<noteq> t \<longrightarrow> p \<noteq> f \<longrightarrow> routed_view vl vg w' p = routed_view vl vg w p) \<and> (routed_view vl vg w' f = routed_view vl vg w f \<or> \<not> (al \<and> ag) \<and> routed_view vl vg w' f = Some c)"
proof -
  obtain l g l' g' where w: "w = (l, g)" "w' = (l', g')" by fastforce
  from M show ?thesis
  proof (cases rule: routed_temp_cases)
    case gcs
    then have "st_commit G g t f = (g', Some e)" "l' = l" "vg g t = Some c" "sg g t"
      using r v d w by (auto simp: two_backends_simps routed_view_at routed_settled_def split: prod.splits)
    then show ?thesis unfolding w using staged_storage.commit_fails [OF G gcs(3)] gcs by (auto simp: routed_view_def)
  next
    case loc
    then have "st_commit L l t f = (l', Some e)" "g' = g" "vl l t = Some c" "sl l t"
      using r v d w by (auto simp: two_backends_simps routed_view_at routed_settled_def split: prod.splits)
    then show ?thesis unfolding w using staged_storage.commit_fails [OF L loc(3)] loc by (auto simp: routed_view_def)
  qed
qed

lemma resolver_staged:
  assumes L: "staged_storage L vl ltarget ml sl al" and G: "staged_storage G vg gtarget mg sg ag"
    and nl: "\<And>f l l' t. local_scheme f \<Longrightarrow> ltarget f \<Longrightarrow> st_create L l f = (l', Inr t) \<Longrightarrow> local_scheme t"
    and ng: "\<And>f g g' t. gcs_scheme f \<Longrightarrow> gtarget f \<Longrightarrow> st_create G g f = (g', Inr t) \<Longrightarrow> gcs_scheme t"
  shows "staged_storage (two_backends env L G) (routed_view vl vg) (routed ltarget gtarget) (routed_temp ml mg) (routed_settled sl sg) (al \<and> ag)"
  by unfold_locales
    (rule resolver_temp [OF L G] resolver_create_ok [OF L G nl ng] resolver_create_fails [OF L G] resolver_write_ok [OF L G]
      resolver_write_fails [OF L G] resolver_close_ok [OF L G] resolver_close_others [OF L G] resolver_commit_ok [OF L G]
      resolver_commit_fails [OF L G] resolver_abort_others [OF L G]; assumption)+

section \<open>Staging names stay with their backend\<close>

text \<open>A cleaned path has no two slashes in a row, so no scheme can appear in a temporary name of local storage.\<close>

abbreviation single_slashes :: "string \<Rightarrow> bool" where
  "single_slashes \<equiv> successively (\<lambda>a b. \<not> (a = slash \<and> b = slash))"

lemma no_slash_single: "slash \<notin> set s \<Longrightarrow> single_slashes s"
  by (induction s rule: induct_list012) auto

lemma single_slashes_scheme: "single_slashes s \<Longrightarrow> \<not> contains s ''://''"
  by (auto simp: contains_iff successively_append_iff)

lemma clean_steps_components:
  "list_all (\<lambda>c. c \<noteq> [] \<and> slash \<notin> set c) st \<Longrightarrow> list_all (\<lambda>c. slash \<notin> set c) cs \<Longrightarrow>
   list_all (\<lambda>c. c \<noteq> [] \<and> slash \<notin> set c) (foldl (clean_step r) st cs)"
proof (induction cs arbitrary: st)
  case (Cons c cs)
  have "list_all (\<lambda>c. c \<noteq> [] \<and> slash \<notin> set c) (clean_step r st c)"
    using Cons.prems by (auto simp: clean_step_def split: list.splits)
  then show ?case using Cons by simp
qed simp

lemma split_slash_components: "list_all (\<lambda>c. slash \<notin> set c) (split_slash p)"
proof (induction p)
  case (Cons c p)
  then show ?case by (cases "split_slash p") (auto simp: split_slash_Cons)
qed (simp add: split_slash_def)

lemma join_single:
  "list_all (\<lambda>c. c \<noteq> [] \<and> slash \<notin> set c) cs \<Longrightarrow> single_slashes (join [slash] cs) \<and> (cs \<noteq> [] \<longrightarrow> join [slash] cs \<noteq> [] \<and> hd (join [slash] cs) \<noteq> slash)"
proof (induction "[slash]" cs rule: join.induct)
  case (3 x y ys)
  moreover have "x \<noteq> []" "slash \<notin> set x" using 3(2) by simp_all
  moreover from this have "last x \<noteq> slash" "hd x \<noteq> slash" using last_in_set [of x] hd_in_set [of x] by metis+
  ultimately show ?case using no_slash_single [of x] by (auto simp: successively_append_iff successively_Cons hd_append)
next
  case (2 x)
  then have "x \<noteq> []" "slash \<notin> set x" by simp_all
  moreover from this have "hd x \<noteq> slash" using hd_in_set [of x] by metis
  ultimately show ?case using no_slash_single [of x] by simp
qed simp

lemma path_clean_single: "single_slashes (path_clean p)"
proof -
  define r where "r = (p \<noteq> [] \<and> hd p = slash)"
  let ?c = "rev (foldl (clean_step r) [] (split_slash p))"
  have "list_all (\<lambda>c. c \<noteq> [] \<and> slash \<notin> set c) ?c"
    using clean_steps_components [of "[]" "split_slash p" r] split_slash_components [of p] by simp
  then have j: "single_slashes (join [slash] ?c)" "?c \<noteq> [] \<longrightarrow> join [slash] ?c \<noteq> [] \<and> hd (join [slash] ?c) \<noteq> slash"
    using join_single by blast+
  moreover have "single_slashes (slash # join [slash] ?c)" using j by (cases "?c = []") (auto simp: successively_Cons)
  ultimately show ?thesis unfolding path_clean_def Let_def r_def [symmetric] by (cases r) simp_all
qed

definition local_target :: "string \<Rightarrow> bool" where
  "local_target f \<longleftrightarrow> file_name f \<and> backslash_char \<notin> set f"

lemma local_temp_scheme:
  assumes "backslash_char \<notin> set f" shows "local_scheme (local_temp_uri u f)"
proof -
  let ?ps = "filter (\<lambda>p. p \<noteq> []) [path_dir f, ''.temp-'' @ uuid_string u @ ''-'' @ path_base f]"
  have t: "local_temp_uri u f = path_clean (join [slash] ?ps)" by (simp add: local_temp_uri_def path_join_def)
  have "backslash_char \<notin> set (join [slash] ?ps)"
    using assms set_path_dir [of f] set_path_base [of f] uuid_no_backslash by auto
  then have b: "backslash_char \<notin> set (local_temp_uri u f)" unfolding t using set_path_clean by fastforce
  have "\<not> contains (local_temp_uri u f) ''://''" unfolding t by (rule single_slashes_scheme [OF path_clean_single])
  moreover from this have "\<not> has_prefix (local_temp_uri u f) ''gs://''"
    by (auto simp: has_prefix_iff contains_iff) (metis append_Cons append_Nil)
  ultimately show ?thesis using b by (auto simp: local_scheme_def gcs_scheme_def has_prefix_iff)
qed

lemma local_staged: "staged_storage (local_storage E) files local_target (\<lambda>f t. t \<noteq> f \<and> t \<noteq> []) (\<lambda>_ _. True) True"
proof (unfold_locales; (rule local.create_ok local.create_fails local.write_ok local.write_fails local.close_ok local.close_others
    local.commit_ok local.commit_fails local.abort_others; (assumption | simp add: local_target_def))?)
qed auto

text \<open>The adapters, behind the resolver.\<close>

lemma resolved_staged:
  assumes "gcs_laws C objs pend"
  shows "staged_storage (two_backends env (local_storage E) (gcs_storage env C)) (routed_view files (gcs_view env objs pend))
    (routed local_target (gcs_target env)) (routed_temp (\<lambda>f t. t \<noteq> f \<and> t \<noteq> []) (gcs_temp env))
    (routed_settled (\<lambda>_ _. True) (gcs_settled env pend)) False"
proof -
  have "local_scheme t" if "local_target f" "st_create (local_storage E) l f = (l', Inr t)" for f l l' t
    using that local_temp_scheme by (auto simp: local_storage_def local_create_temp_def local_target_def Let_def split: option.splits)
  moreover have "gcs_scheme t" if c: "gcs_target env f" "st_create (gcs_storage env C) g f = (g', Inr t)" for f g g' t
    using gcs_create_temp_target [OF c(1), of C g g' "Inr t"] c(2)
    by (auto simp: gcs_storage_def canonical_Some gcs_scheme_def gcs_uri_def has_prefix_iff)
  ultimately show ?thesis using resolver_staged [OF local_staged gcs_staged [OF assms], of E env] by simp
qed

section \<open>Properties\<close>

text \<open>The URIs of objects: what \<^verbatim>\<open>ParseGCSURI\<close> accepts is, with its backslashes turned into slashes, the printed
  form of the path it returns, whose bucket and object are not empty; and the printed form, which \<^verbatim>\<open>List\<close> and
  \<^verbatim>\<open>CreateTemp\<close> hand out, parses back to the same path.\<close>

lemma gcs_uri_roundtrip:
  assumes "parse_gcs_uri env raw = Inr k"
  shows "gcs_uri k = slashes raw \<and> gp_bucket k \<noteq> [] \<and> slash \<notin> set (gp_bucket k) \<and> gp_object k \<noteq> [] \<and>
    parse_gcs_uri env (gcs_uri k) = Inr k"
  using parse_gcs_uri_ok [OF assms] parse_gcs_uri_print [of k env] by (auto simp: gcs_path_ok_def)

text \<open>C16. The file sink behind the resolver, on local files and on an object store any of whose calls may fail: a bundle
  that ends well has published its whole file on the backend of the output's scheme and changed nothing else; a bundle
  that ends with an error has changed nothing but its temporary file or, since the object store commits by copying,
  has published the whole file: never a part of it.\<close>

theorem resolved_sink_whole_file:
  assumes "gcs_laws C objs pend" "ss_stager d = Some s"
    "sg_storage s = Some (two_backends genv (local_storage E) (gcs_storage genv C))" "ss_formatter d = Some f"
    "routed local_target (gcs_target genv) (stager_uri un s)" "int (length rs) < 2 ^ 63"
  shows "case run_bundle (stream_start_bundle env) (stream_process_element env un) stream_finish_bundle w d rs of
    (w', d', e) \<Rightarrow> all_or_nothing False (routed_view files (gcs_view genv objs pend)) w (stager_uri un s) (stream_content env d f rs) (rs = []) w' e"
  by (rule staged_storage.stream_bundle [OF resolved_staged [OF assms(1)] assms(2-6)])

text \<open>An object store held in memory, and a sink that writes to it.\<close>

type_synonym mem_store = "(gcs_path \<rightharpoonup> string) \<times> (gcs_path \<rightharpoonup> string)"

definition mem_client :: "mem_store gcs_client" where
  "mem_client = \<lparr>gc_attrs = (\<lambda>w k. (w, case fst w k of None \<Rightarrow> Inl ''object doesn't exist'' | Some c \<Rightarrow> Inr (int (length c)))),
     gc_new_reader = (\<lambda>w k. (w, case fst w k of None \<Rightarrow> Inl ''object doesn't exist'' | Some c \<Rightarrow> Inr c)),
     gc_objects = (\<lambda>w b p. (w, [])),
     gc_new_writer = (\<lambda>(o1, p) k. (o1, p(k \<mapsto> []))),
     gc_write = (\<lambda>(o1, p) k b. case p k of None \<Rightarrow> ((o1, p), 0, Some ''closed'') | Some c \<Rightarrow> ((o1, p(k \<mapsto> c @ b)), length b, None)),
     gc_close = (\<lambda>(o1, p) k. case p k of None \<Rightarrow> ((o1, p), None) | Some c \<Rightarrow> ((o1(k \<mapsto> c), p(k := None)), None)),
     gc_copy = (\<lambda>(o1, p) k j. case o1 k of None \<Rightarrow> ((o1, p), Some ''object doesn't exist'') | Some c \<Rightarrow> ((o1(j \<mapsto> c), p), None)),
     gc_delete = (\<lambda>(o1, p) k. ((o1, p), Some ''rate limited'')),
     gc_uuid = (\<lambda>w. 0)\<rparr>"

lemma mem_client_laws: "gcs_laws mem_client fst snd"
  by (auto simp: gcs_laws_def mem_client_def split: option.splits)

definition mem_stager :: "(local_fs \<times> mem_store) stager" where
  "mem_stager = new_bundle_file_stager (Some (two_backends sample_env (local_storage (no_faults (\<lambda>_. 0))) (gcs_storage sample_env mem_client)))
     ''gs://b/out'' ''csv'' ''none'' [] True"

definition mem_sink :: "(local_fs \<times> mem_store, unit, nat) stream_sink" where
  "mem_sink = \<lparr>ss_output_dir = ''gs://b/out'', ss_format = ''csv'', ss_compression = ''none'', ss_enc_type = [], ss_single_file = True,
     ss_stager = Some mem_stager, ss_formatter = Some sample_formatter, ss_stream = None\<rparr>"

lemma mem_sink_parts:
  "ss_stager mem_sink = Some mem_stager"
  "sg_storage mem_stager = Some (two_backends sample_env (local_storage (no_faults (\<lambda>_. 0))) (gcs_storage sample_env mem_client))"
  "ss_formatter mem_sink = Some sample_formatter" "stager_uri un mem_stager = ''gs://b/out/output.csv''"
  by (simp_all add: mem_sink_def mem_stager_def stager_uri_def new_bundle_file_stager_def build_output_uri_def trim_right_set_def path_ext_def
      last_component_def to_lower_def lower_char_def or_default_def compression_ext_def encryption_ext_def)

lemma mem_uri_target: "routed local_target (gcs_target sample_env) ''gs://b/out/output.csv''"
  by (simp add: routed_def gcs_scheme_def has_prefix_def gcs_target_def canonical_def parse_gcs_uri_def slashes_def
      trim_space_visible ascii_visible_def gcs_uri_def path_base_def trim_right_set_def last_component_def temp_named_def)

theorem resolved_sink_whole_file_witness:
  "case run_bundle (stream_start_bundle \<lparr>storage_factory = None, formatter_provider = None, compressor_provider = None, encryptor_provider = None\<rparr>)
      (stream_process_element \<lparr>storage_factory = None, formatter_provider = None, compressor_provider = None, encryptor_provider = None\<rparr> (''u'', 0))
      stream_finish_bundle (\<lparr>files = Map.empty, steps = 0\<rparr>, (Map.empty, Map.empty)) mem_sink [1, 2] of
    (w', d', e) \<Rightarrow> all_or_nothing False (routed_view files (gcs_view sample_env fst snd)) (\<lparr>files = Map.empty, steps = 0\<rparr>, (Map.empty, Map.empty))
      ''gs://b/out/output.csv''
      (stream_content \<lparr>storage_factory = None, formatter_provider = None, compressor_provider = None, encryptor_provider = None\<rparr> mem_sink sample_formatter [1, 2]) False w' e"
  using resolved_sink_whole_file [OF mem_client_laws mem_sink_parts(1-3), of "(''u'', 0)" "[1, 2]"] mem_uri_target
  by (simp add: mem_sink_parts(4))

text \<open>\<^verbatim>\<open>CommitTemp\<close> on the object store is a copy and then a deletion, and not atomic: when the deletion fails it
  returns an error although the final object is there with the whole content, so that the caller reports a failed
  bundle whose data is published.\<close>

lemma gcs_commit_error_published:
  assumes "gcs_laws C objs pend" "parse_gcs_uri env t = Inr src" "parse_gcs_uri env f = Inr dst" "src \<noteq> dst" "objs w src = Some c"
    and "gc_copy C w src dst = (w1, None)" "gc_delete C w1 src = (w2, Some e)"
  shows "\<exists>m. gcs_commit_temp env C w t f = (w2, Some m) \<and> objs w2 dst = Some c"
proof -
  have "objs w1 dst = Some c" using gcs_lawsD(5) [OF assms(1,6)] assms(5) by auto
  moreover have "objs w2 dst = objs w1 dst" using gcs_lawsD(6) [OF assms(1,7)] assms(4) by auto
  ultimately show ?thesis using assms(2,3,6,7) by (simp add: gcs_commit_temp_def)
qed

end
