(* ===== verification/Batch_Sinks.thy ===== *)
theory Batch_Sinks
  imports Sinks Http_Client
begin

text \<open>
  The REST sink: the buffer of \<^verbatim>\<open>internal/beam/core/batch_buffer.go\<close>, the DoFn of \<^verbatim>\<open>internal/beam/paged_api/api_sink.go\<close> and the
  adapter of \<^verbatim>\<open>internal/adapters/paged_api/sink/api_sink.go\<close> that posts a batch through the HTTP client. A bundle is shown to send
  its records as the chunks of the batch size, in order.
\<close>

section \<open>BundleBatchBuffer (batch_buffer.go)\<close>

record 'a batch_buffer =
  bb_size :: int
  bb_items :: "'a list"

definition new_bundle_batch_buffer :: "int \<Rightarrow> 'a batch_buffer" where
  "new_bundle_batch_buffer n = \<lparr>bb_size = (if n \<le> 0 then 100 else n), bb_items = []\<rparr>"

definition buffer_reset :: "int \<Rightarrow> 'a batch_buffer \<Rightarrow> 'a batch_buffer" where
  "buffer_reset n b = b\<lparr>bb_size := (if n > 0 then n else bb_size b), bb_items := []\<rparr>"

definition set_batch_size :: "int \<Rightarrow> 'a batch_buffer \<Rightarrow> 'a batch_buffer" where
  "set_batch_size n b = (if n > 0 then b\<lparr>bb_size := n\<rparr> else b)"

text \<open>The flush callback, nil or a function on a world.\<close>

type_synonym ('w, 'a) flush_fn = "('w \<Rightarrow> 'a list \<Rightarrow> 'w \<times> string option) option"

definition buffer_flush :: "('w, 'a) flush_fn \<Rightarrow> 'w \<Rightarrow> 'a batch_buffer \<Rightarrow> 'w \<times> 'a batch_buffer \<times> string option" where
  "buffer_flush f w b = (if bb_items b = [] then (w, b, None)
     else case (case f of None \<Rightarrow> (w, None) | Some g \<Rightarrow> g w (bb_items b)) of
       (w', Some e) \<Rightarrow> (w', b, Some e)
     | (w', None) \<Rightarrow> (w', b\<lparr>bb_items := []\<rparr>, None))"

definition buffer_add :: "('w, 'a) flush_fn \<Rightarrow> 'w \<Rightarrow> 'a batch_buffer \<Rightarrow> 'a \<Rightarrow> 'w \<times> 'a batch_buffer \<times> string option" where
  "buffer_add f w b x = (let b1 = b\<lparr>bb_items := bb_items b @ [x]\<rparr> in
     if int (length (bb_items b1)) \<ge> bb_size b1 then buffer_flush f w b1 else (w, b1, None))"

section \<open>APISinkDoFn (api_sink.go)\<close>

text \<open>\<^verbatim>\<open>WriteBatch\<close> on the world of the service: the records it refused, and an error.\<close>

type_synonym ('a, 'r, 'f) batch_writer = "'a \<Rightarrow> 'r list \<Rightarrow> 'a \<times> 'f list \<times> string option"

record ('a, 's, 'r, 'f) api_sink =
  ak_batch_size :: int
  ak_dlq_path :: string
  ak_writer :: "('a, 'r, 'f) batch_writer option"
  ak_dlq_sink :: "'s storage option"
  ak_buffer :: "'r batch_buffer option"

definition api_setup ::
  "'s factory \<Rightarrow> ('a, 'r, 'f) batch_writer option \<Rightarrow> ('a, 's, 'r, 'f) api_sink \<Rightarrow> ('a, 's, 'r, 'f) api_sink" where
  "api_setup fac writer_factory d = d\<lparr>
     ak_dlq_sink := (case (ak_dlq_sink d, fac) of (None, Some f) \<Rightarrow> if ak_dlq_path d \<noteq> [] then Some (f (ak_dlq_path d)) else None
        | (o', _) \<Rightarrow> o'),
     ak_writer := (case ak_writer d of None \<Rightarrow> writer_factory | o' \<Rightarrow> o')\<rparr>"

fun write_dlq_records :: "('f \<Rightarrow> string + string) \<Rightarrow> 's storage \<Rightarrow> string \<Rightarrow> 's \<Rightarrow> 'f list \<Rightarrow> 's \<times> string option" where
  "write_dlq_records marshal st t s [] = (s, None)"
| "write_dlq_records marshal st t s (r # rs) =
     (case marshal r of
        Inl e \<Rightarrow> (fst (st_abort st (fst (st_close st s t)) t), Some (''failed marshaling DLQ record: '' @ e))
      | Inr line \<Rightarrow> (case st_write st s t (line @ [CHR 0x0A]) of
          (s', _, Some e) \<Rightarrow> (fst (st_abort st (fst (st_close st s' t)) t), Some (''failed writing DLQ record: '' @ e))
        | (s', _, None) \<Rightarrow> write_dlq_records marshal st t s' rs))"

definition write_dlq :: "('f \<Rightarrow> string + string) \<Rightarrow> string \<times> int \<Rightarrow> 's storage \<Rightarrow> string \<Rightarrow> 's \<Rightarrow> 'f list \<Rightarrow> 's \<times> string option" where
  "write_dlq marshal un st path s failed =
     (let fin = build_output_uri (fst un) (snd un) path ''jsonl'' ''none'' ''none'' False in
      case st_create st s fin of
        (s1, Inl e) \<Rightarrow> (s1, Some (''failed creating temp DLQ file: '' @ e))
      | (s1, Inr t) \<Rightarrow>
          (case write_dlq_records marshal st t s1 failed of
             (s2, Some e) \<Rightarrow> (s2, Some e)
           | (s2, None) \<Rightarrow>
               (case st_close st s2 t of
                  (s3, Some e) \<Rightarrow> (fst (st_abort st s3 t), Some (''failed closing DLQ file: '' @ e))
                | (s3, None) \<Rightarrow> st_commit st s3 t fin)))"

text \<open>The random identifier and the clock of the file name are read at each flush: \<open>un\<close> gives them from the world of the service.\<close>

definition flush_batch ::
  "('f \<Rightarrow> string + string) \<Rightarrow> ('a \<Rightarrow> string \<times> int) \<Rightarrow> ('a, 's, 'r, 'f) api_sink \<Rightarrow> 'a \<times> 's \<Rightarrow> 'r list \<Rightarrow> ('a \<times> 's) \<times> string option" where
  "flush_batch marshal un d w batch = (case w of (a, s) \<Rightarrow>
     case ak_writer d of
       None \<Rightarrow> ((a, s), None)
     | Some wr \<Rightarrow> if batch = [] then ((a, s), None)
         else (case wr a batch of
             (a', failed, Some e) \<Rightarrow> ((a', s), Some e)
           | (a', failed, None) \<Rightarrow>
               (case ak_dlq_sink d of
                  Some st \<Rightarrow> if failed \<noteq> [] \<and> ak_dlq_path d \<noteq> []
                    then (case write_dlq marshal (un a') st (ak_dlq_path d) s failed of
                        (s', Some e) \<Rightarrow> ((a', s'), Some (''failed writing API DLQ records: '' @ e))
                      | (s', None) \<Rightarrow> ((a', s'), None))
                    else ((a', s), None)
                | None \<Rightarrow> ((a', s), None))))"

definition api_start_bundle :: "('a, 's, 'r, 'f) api_sink \<Rightarrow> ('a, 's, 'r, 'f) api_sink" where
  "api_start_bundle d = d\<lparr>ak_buffer := Some (case ak_buffer d of
      None \<Rightarrow> new_bundle_batch_buffer (ak_batch_size d) | Some b \<Rightarrow> buffer_reset (ak_batch_size d) b)\<rparr>"

definition api_process_element ::
  "('f \<Rightarrow> string + string) \<Rightarrow> ('a \<Rightarrow> string \<times> int) \<Rightarrow> 'a \<times> 's \<Rightarrow> ('a, 's, 'r, 'f) api_sink \<Rightarrow> 'r \<Rightarrow> ('a \<times> 's) \<times> ('a, 's, 'r, 'f) api_sink \<times> string option" where
  "api_process_element marshal un w d rec =
     (let b = (case ak_buffer d of None \<Rightarrow> new_bundle_batch_buffer (ak_batch_size d) | Some b \<Rightarrow> b) in
      case buffer_add (Some (flush_batch marshal un d)) w b rec of (w', b', e) \<Rightarrow> (w', d\<lparr>ak_buffer := Some b'\<rparr>, e))"

definition api_finish_bundle ::
  "('f \<Rightarrow> string + string) \<Rightarrow> ('a \<Rightarrow> string \<times> int) \<Rightarrow> 'a \<times> 's \<Rightarrow> ('a, 's, 'r, 'f) api_sink \<Rightarrow> ('a \<times> 's) \<times> ('a, 's, 'r, 'f) api_sink \<times> string option" where
  "api_finish_bundle marshal un w d = (case ak_buffer d of
      None \<Rightarrow> (w, d, None)
    | Some b \<Rightarrow> (case buffer_flush (Some (flush_batch marshal un d)) w b of (w', b', e) \<Rightarrow> (w', d\<lparr>ak_buffer := Some b'\<rparr>, e)))"

section \<open>The adapter (adapters/paged_api/sink/api_sink.go)\<close>

record api_adapter =
  aa_endpoint :: api_endpoint_config
  aa_options :: api_sink_options

text \<open>\<^verbatim>\<open>NewAPISink\<close>: the adapter and the client it makes. \<open>rps\<close> is the conversion of the rate to \<^verbatim>\<open>float64\<close>.\<close>

definition new_api_sink :: "int \<Rightarrow> (int \<Rightarrow> u64) \<Rightarrow> api_endpoint_config \<Rightarrow> api_sink_options \<Rightarrow> string \<Rightarrow> api_adapter \<times> http_client" where
  "new_api_sink now rps ep o' token =
     (let secrets = (if ae_credential_ref ep \<noteq> [] \<and> token \<noteq> [] then [(ae_credential_ref ep, token)] else []);
          cfg = \<lparr>as_base_url = ae_base_url ep, as_endpoint = [], as_http_method = [], as_headers = [], as_query_params = [],
            as_auth = Some \<lparr>au_type = ae_auth_type ep, au_token_ref = ae_credential_ref ep, au_api_key_header = [], au_api_key_query = [],
              au_username_ref = [], au_password_ref = [], au_token_url = [], au_client_id_ref = [], au_client_secret_ref = [], au_scopes = []\<rparr>,
            as_pagination = \<lparr>pg_type = OtherPagination [], pg_page_param = [], pg_size_param = [], pg_page_size = 0, pg_initial_page = 0,
              pg_total_pages_hint = 0, pg_max_pages_limit = 0, pg_cursor_param = [], pg_next_cursor_path = [], pg_total_count_path = [],
              pg_has_more_path = []\<rparr>,
            as_retry = zero_resilience\<lparr>rc_max_retries := ao_max_retries o', rc_rate_limit_rps := rps (ao_rate_limit_rps o'),
              rc_timeout_ms := ao_timeout_ms o'\<rparr>,
            as_skip_tls_verify = False, as_records_path = [], as_field_mapping = [], as_schema = \<lparr>sch_fields = [], name_idx = None\<rparr>,
            as_watermark = None\<rparr>
      in (\<lparr>aa_endpoint = ep, aa_options = o'\<rparr>, new_http_client now cfg secrets))"

text \<open>The body: a list of the records as maps, under the envelope key if there is one, or the single map.\<close>

datatype api_payload = PayloadList "(string \<rightharpoonup> go_any) list" | PayloadEnvelope string "(string \<rightharpoonup> go_any) list" | PayloadSingle "string \<rightharpoonup> go_any"

definition payload_of :: "api_sink_options \<Rightarrow> schema \<Rightarrow> generic_record option list \<Rightarrow> api_payload" where
  "payload_of o' s recs =
     (let items = map (\<lambda>r. to_map_from r 0 (sch_fields s) Map.empty) (map the (filter (\<lambda>r. r \<noteq> None) recs)) in
      if ao_body_envelope o' \<noteq> [] then PayloadEnvelope (ao_body_envelope o') items
      else case items of [m] \<Rightarrow> if ao_batch_size o' = 1 then PayloadSingle m else PayloadList items | _ \<Rightarrow> PayloadList items)"

text \<open>One dead letter per record, all with the body of the batch.\<close>

definition batch_letters :: "string \<Rightarrow> string \<Rightarrow> string \<Rightarrow> int \<Rightarrow> 'r list \<Rightarrow> dead_letter_record list" where
  "batch_letters url body msg now recs =
     map (\<lambda>_. \<lparr>raw_payload = body, error_message = msg, failed_column = [], source_file = url, failed_at = now\<rparr>) recs"

text \<open>\<^verbatim>\<open>WriteBatch\<close>; \<open>marshal\<close> is \<^verbatim>\<open>json.Marshal\<close>, \<open>request_err\<close> the error of \<^verbatim>\<open>http.NewRequest\<close>, \<open>status_text\<close> the status line.\<close>

definition write_batch ::
  "http_env \<Rightarrow> (api_payload \<Rightarrow> string + string) \<Rightarrow> (string \<Rightarrow> string \<Rightarrow> string option) \<Rightarrow> (int \<Rightarrow> string) \<Rightarrow> api_adapter \<Rightarrow> schema option \<Rightarrow>
   http_world \<times> http_client \<Rightarrow> generic_record option list \<Rightarrow> (http_world \<times> http_client) \<times> dead_letter_record list \<times> string option" where
  "write_batch henv marshal request_err status_text a sch wc recs = (case wc of (w, c) \<Rightarrow>
     case sch of
       None \<Rightarrow> ((w, c), [], Some ''schema is required'')
     | Some s \<Rightarrow>
         if recs = [] then ((w, c), [], None)
         else (case marshal (payload_of (aa_options a) s recs) of
             Inl e \<Rightarrow> ((w, c), [], Some (''failed marshaling batch payload: '' @ e))
           | Inr body \<Rightarrow> let url = ae_base_url (aa_endpoint a) @ ao_resource_path (aa_options a); m = ao_method (aa_options a) in
               (case request_err m url of
                  Some e \<Rightarrow> ((w, c), [], Some (''failed creating HTTP request: '' @ e))
                | None \<Rightarrow>
                    let hs = foldl (\<lambda>h (k, v). header_set h k v) (header_set [] ''Content-Type'' ''application/json'') (ae_headers (aa_endpoint a)) in
                    (case http_do henv c w \<lparr>rq_method = m, rq_url = url, rq_headers = hs, rq_body = body\<rparr> of
                       (w', c', Inl e) \<Rightarrow>
                         ((w', c'), batch_letters url body (''HTTP '' @ m @ '' failed: '' @ e) (clock_at henv (events w')) recs, None)
                     | (w', c', Inr rs) \<Rightarrow>
                         if rs_status rs \<ge> 400
                         then ((w', c'), batch_letters url body
                           (''API returned HTTP status '' @ format_int (rs_status rs) @ '' '' @ status_text (rs_status rs) @ '': '' @ rs_body rs)
                           (clock_at henv (events w')) recs, None)
                         else ((w', c'), [], None)))))"

section \<open>A bundle is the chunks of its records\<close>

text \<open>The specification: cut the records in pieces of \<open>n\<close> and send them in order, up to the first error.\<close>

function chunks :: "nat \<Rightarrow> 'a list \<Rightarrow> 'a list list" where
  "chunks n xs = (if n = 0 \<or> xs = [] then [] else take n xs # chunks n (drop n xs))"
  by auto
termination by (relation "measure (\<lambda>(n, xs). length xs)") auto

declare chunks.simps [simp del]

fun send_all :: "('w \<Rightarrow> 'a list \<Rightarrow> 'w \<times> string option) \<Rightarrow> 'w \<Rightarrow> 'a list list \<Rightarrow> 'w \<times> string option" where
  "send_all f w [] = (w, None)"
| "send_all f w (c # cs) = (case f w c of (w', Some e) \<Rightarrow> (w', Some e) | (w', None) \<Rightarrow> send_all f w' cs)"

lemma chunks_Nil [simp]: "chunks n [] = []"
  by (simp add: chunks.simps)

lemma chunks_short: "xs \<noteq> [] \<Longrightarrow> length xs \<le> n \<Longrightarrow> chunks n xs = [xs]"
  by (subst chunks.simps) (cases xs, auto)

lemma chunks_full: "0 < n \<Longrightarrow> length xs = n \<Longrightarrow> chunks n (xs @ ys) = xs # chunks n ys"
  by (subst chunks.simps) auto

lemma concat_chunks: "0 < n \<Longrightarrow> concat (chunks n xs) = xs"
proof (induction n xs rule: chunks.induct)
  case (1 n xs)
  then show ?case by (subst chunks.simps) auto
qed

text \<open>Adding every record and flushing what is left.\<close>

fun buffer_run :: "('w, 'a) flush_fn \<Rightarrow> 'w \<Rightarrow> 'a batch_buffer \<Rightarrow> 'a list \<Rightarrow> 'w \<times> string option" where
  "buffer_run f w b [] = (case buffer_flush f w b of (w', b', e) \<Rightarrow> (w', e))"
| "buffer_run f w b (x # xs) = (case buffer_add f w b x of (w', b', Some e) \<Rightarrow> (w', Some e) | (w', b', None) \<Rightarrow> buffer_run f w' b' xs)"

lemma buffer_run_chunks:
  assumes "0 < bb_size b" "int (length (bb_items b)) < bb_size b"
  shows "buffer_run (Some f) w b xs = send_all f w (chunks (nat (bb_size b)) (bb_items b @ xs))"
  using assms
proof (induction xs arbitrary: w b)
  case Nil
  show ?case
  proof (cases "bb_items b = []")
    case True
    then show ?thesis by (simp add: buffer_flush_def)
  next
    case False
    have "chunks (nat (bb_size b)) (bb_items b) = [bb_items b]" using False Nil.prems by (intro chunks_short) linarith+
    then show ?thesis using False by (cases "f w (bb_items b)"; cases "snd (f w (bb_items b))") (simp_all add: buffer_flush_def)
  qed
next
  case (Cons x xs)
  let ?b = "b\<lparr>bb_items := bb_items b @ [x]\<rparr>"
  show ?case
  proof (cases "int (length (bb_items ?b)) \<ge> bb_size b")
    case True
    have len: "length (bb_items b @ [x]) = nat (bb_size b)" using True Cons.prems by simp
    have ch: "chunks (nat (bb_size b)) (bb_items b @ x # xs) = (bb_items b @ [x]) # chunks (nat (bb_size b)) xs"
      using chunks_full [OF _ len, of xs] Cons.prems by simp
    have add: "buffer_add (Some f) w b x = buffer_flush (Some f) w ?b" using True by (simp add: buffer_add_def Let_def)
    obtain w' e where fe: "f w (bb_items b @ [x]) = (w', e)" by (meson surj_pair)
    show ?thesis
    proof (cases e)
      case None
      have "buffer_run (Some f) w' (?b\<lparr>bb_items := []\<rparr>) xs = send_all f w' (chunks (nat (bb_size b)) xs)"
        using Cons.IH [of "?b\<lparr>bb_items := []\<rparr>" w'] Cons.prems by simp
      then show ?thesis using add ch fe None by (simp add: buffer_flush_def)
    next
      case (Some m)
      then show ?thesis using add ch fe by (simp add: buffer_flush_def)
    qed
  next
    case False
    then have "buffer_add (Some f) w b x = (w, ?b, None)" by (simp add: buffer_add_def Let_def)
    then show ?thesis using Cons.IH [of ?b w] Cons.prems False by simp
  qed
qed

section \<open>The REST sink\<close>

fun api_process_all ::
  "('f \<Rightarrow> string + string) \<Rightarrow> ('a \<Rightarrow> string \<times> int) \<Rightarrow> 'a \<times> 's \<Rightarrow> ('a, 's, 'r, 'f) api_sink \<Rightarrow> 'r list \<Rightarrow> ('a \<times> 's) \<times> string option" where
  "api_process_all marshal un w d [] = (case api_finish_bundle marshal un w d of (w', d', e) \<Rightarrow> (w', e))"
| "api_process_all marshal un w d (r # rs) = (case api_process_element marshal un w d r of
      (w', d', Some e) \<Rightarrow> (w', Some e) | (w', d', None) \<Rightarrow> api_process_all marshal un w' d' rs)"

lemma flush_batch_buffer [simp]: "flush_batch marshal un (d\<lparr>ak_buffer := b\<rparr>) = flush_batch marshal un d"
proof -
  have "ak_writer (d\<lparr>ak_buffer := b\<rparr>) = ak_writer d" "ak_dlq_sink (d\<lparr>ak_buffer := b\<rparr>) = ak_dlq_sink d"
    "ak_dlq_path (d\<lparr>ak_buffer := b\<rparr>) = ak_dlq_path d" by simp_all
  then show ?thesis by (intro ext) (simp only: flush_batch_def)
qed

lemma api_process_all_buffer:
  assumes "ak_buffer d = Some b"
  shows "api_process_all marshal un w d rs = buffer_run (Some (flush_batch marshal un d)) w b rs"
  using assms
proof (induction rs arbitrary: w d b)
  case Nil
  then show ?case by (simp add: api_finish_bundle_def split: prod.splits)
next
  case (Cons r rs)
  obtain w' b' e where a: "buffer_add (Some (flush_batch marshal un d)) w b r = (w', b', e)" using prod_cases3 by blast
  show ?case
    using Cons.IH [of "d\<lparr>ak_buffer := Some b'\<rparr>" b' w'] Cons.prems a
    by (cases e) (simp_all add: api_process_element_def)
qed

text \<open>The size a bundle works with: the configured one when positive, else the one the buffer had, 100 at first.\<close>

definition bundle_size :: "('a, 's, 'r, 'f) api_sink \<Rightarrow> int" where
  "bundle_size d = (if ak_batch_size d > 0 then ak_batch_size d else case ak_buffer d of Some b \<Rightarrow> bb_size b | None \<Rightarrow> 100)"

lemma api_start_bundle_buffer:
  "\<exists>b. ak_buffer (api_start_bundle d) = Some b \<and> bb_items b = [] \<and> bb_size b = bundle_size d"
  by (cases "ak_buffer d") (simp_all add: api_start_bundle_def new_bundle_batch_buffer_def buffer_reset_def bundle_size_def)

text \<open>C24. A bundle of the REST sink sends its records as consecutive batches of the batch size, the last one possibly shorter, each
  record in exactly one batch and in order, and stops at the first batch that fails, returning its error: the buffered DoFn is
  the plain loop over the chunks.\<close>

theorem api_sink_sends_chunks:
  assumes "0 < bundle_size d"
  shows "api_process_all marshal un w (api_start_bundle d) recs =
      send_all (flush_batch marshal un d) w (chunks (nat (bundle_size d)) recs) \<and>
    concat (chunks (nat (bundle_size d)) recs) = recs"
proof -
  obtain b where b: "ak_buffer (api_start_bundle d) = Some b" "bb_items b = []" "bb_size b = bundle_size d"
    using api_start_bundle_buffer by blast
  have "flush_batch marshal un (api_start_bundle d) = flush_batch marshal un d" by (simp add: api_start_bundle_def)
  then show ?thesis
    using api_process_all_buffer [OF b(1)] buffer_run_chunks [of b "flush_batch marshal un d" w recs] b assms
    by (simp add: concat_chunks)
qed

section \<open>No record of a batch is lost\<close>

context staged_storage
begin

lemma write_dlq_records_ok:
  "temp f t \<Longrightarrow> view s t = Some c \<Longrightarrow> write_dlq_records marshal S t s rs = (s', None) \<Longrightarrow> view s' = (view s)(t \<mapsto> c @ jsonl_content marshal rs)"
proof (induction rs arbitrary: s c)
  case Nil
  then show ?case by (auto simp: jsonl_content_def)
next
  case (Cons r rs)
  obtain line where l: "marshal r = Inr line" using Cons.prems by (cases "marshal r") simp_all
  obtain s1 n e where w: "st_write S s t (line @ [CHR 0x0A]) = (s1, n, e)" using prod_cases3 by blast
  have e: "e = None" using Cons.prems l w by (cases e) simp_all
  have v: "view s1 = (view s)(t \<mapsto> c @ line @ [CHR 0x0A])" using write_ok Cons.prems(1,2) w e by blast
  have "view s' = (view s1)(t \<mapsto> (c @ line @ [CHR 0x0A]) @ jsonl_content marshal rs)"
    by (rule Cons.IH) (use Cons.prems l w e v in simp_all)
  then show ?case using v l by (simp add: jsonl_content_def)
qed

lemma write_dlq_ok:
  assumes "target (build_output_uri (fst un) (snd un) path ''jsonl'' ''none'' ''none'' False)"
    "write_dlq marshal un S path s failed = (s', None)"
  shows "published view s (build_output_uri (fst un) (snd un) path ''jsonl'' ''none'' ''none'' False) (jsonl_content marshal failed) s'"
proof -
  let ?u = "build_output_uri (fst un) (snd un) path ''jsonl'' ''none'' ''none'' False"
  obtain s1 r where cr: "st_create S s ?u = (s1, r)" by (meson surj_pair)
  then obtain t where t: "r = Inr t" using assms(2) by (cases r) (simp_all add: write_dlq_def)
  have v1: "t \<noteq> ?u" "view s1 = (view s)(t \<mapsto> [])" "temp ?u t" using create_ok [OF assms(1), of s s1 t] temp_name cr t by auto
  obtain s2 e2 where w: "write_dlq_records marshal S t s1 failed = (s2, e2)" by (meson surj_pair)
  have e2: "e2 = None" using assms(2) cr t w by (cases e2) (simp_all add: write_dlq_def)
  have v2: "view s2 = (view s1)(t \<mapsto> jsonl_content marshal failed)"
    using write_dlq_records_ok [OF v1(3), of s1 "[]"] v1 w e2 by simp
  obtain s3 e3 where c: "st_close S s2 t = (s3, e3)" by (meson surj_pair)
  have e3: "e3 = None" using assms(2) cr t w e2 c by (cases e3) (simp_all add: write_dlq_def)
  have v3: "view s3 = view s2" "settled s3 t" using close_ok [OF v1(3), of s2 s3] c e3 by simp_all
  have "st_commit S s3 t ?u = (s', None)" using assms(2) cr t w e2 c e3 by (simp add: write_dlq_def)
  then have "view s' = (view s3)(?u \<mapsto> jsonl_content marshal failed, t := None)"
    using commit_ok [OF v1(3) v3(2), of "jsonl_content marshal failed" s'] v3 v2 v1(1) by simp
  then show ?thesis using v1 v2 v3 by (auto simp: published_def fun_eq_iff intro!: exI [of _ t])
qed

end

text \<open>What \<^verbatim>\<open>WriteBatch\<close> does with a batch that is not empty, when it returns no error.\<close>

definition batch_request :: "api_adapter \<Rightarrow> string \<Rightarrow> http_request" where
  "batch_request a body = \<lparr>rq_method = ao_method (aa_options a), rq_url = ae_base_url (aa_endpoint a) @ ao_resource_path (aa_options a),
     rq_headers = foldl (\<lambda>h (k, v). header_set h k v) (header_set [] ''Content-Type'' ''application/json'') (ae_headers (aa_endpoint a)),
     rq_body = body\<rparr>"

lemma write_batch_ok:
  assumes "write_batch henv marshal re st a (Some s) (w, c) recs = (wc', failed, None)" "recs \<noteq> []"
  shows "\<exists>body res. marshal (payload_of (aa_options a) s recs) = Inr body \<and>
    (\<exists>w' c'. http_do henv c w (batch_request a body) = (w', c', res) \<and> wc' = (w', c')) \<and>
    (failed = [] \<and> (\<exists>rs. res = Inr rs \<and> rs_status rs < 400) \<or>
     length failed = length recs \<and> (\<forall>l \<in> set failed. raw_payload l = body))"
proof -
  obtain body where b: "marshal (payload_of (aa_options a) s recs) = Inr body"
    using assms by (cases "marshal (payload_of (aa_options a) s recs)") (simp_all add: write_batch_def)
  have re: "re (ao_method (aa_options a)) (ae_base_url (aa_endpoint a) @ ao_resource_path (aa_options a)) = None"
    using assms b by (cases "re (ao_method (aa_options a)) (ae_base_url (aa_endpoint a) @ ao_resource_path (aa_options a))")
      (simp_all add: write_batch_def)
  obtain w' c' res where d: "http_do henv c w (batch_request a body) = (w', c', res)" using prod_cases3 by blast
  have d': "http_do henv c w \<lparr>rq_method = ao_method (aa_options a), rq_url = ae_base_url (aa_endpoint a) @ ao_resource_path (aa_options a),
     rq_headers = foldl (\<lambda>h (k, v). header_set h k v) (header_set [] ''Content-Type'' ''application/json'') (ae_headers (aa_endpoint a)),
     rq_body = body\<rparr> = (w', c', res)" using d by (simp only: batch_request_def)
  have l: "\<forall>l \<in> set (batch_letters u body m n recs). raw_payload l = body" "length (batch_letters u body m n recs) = length recs" for u m n
    by (auto simp: batch_letters_def)
  show ?thesis
  proof (cases res)
    case (Inl e)
    then have "wc' = (w', c')" "failed = batch_letters (ae_base_url (aa_endpoint a) @ ao_resource_path (aa_options a)) body
        (''HTTP '' @ ao_method (aa_options a) @ '' failed: '' @ e) (clock_at henv (events w')) recs"
      using assms b re d' by (simp_all add: write_batch_def)
    then show ?thesis using b d l by blast
  next
    case (Inr rs)
    then show ?thesis using assms b re d' d l by (cases "rs_status rs \<ge> 400") (auto simp: write_batch_def)
  qed
qed


section \<open>An example\<close>

definition sample_adapter :: api_adapter where
  "sample_adapter = \<lparr>aa_endpoint = \<lparr>ae_base_url = ''http://h'', ae_credential_ref = [], ae_auth_type = AuthBearer, ae_headers = []\<rparr>,
     aa_options = \<lparr>ao_resource_path = ''/x'', ao_method = ''POST'', ao_batch_size = 2, ao_body_envelope = [], ao_rate_limit_rps = 0,
       ao_timeout_ms = 0, ao_max_retries = 3\<rparr>\<rparr>"

definition sample_api_sink :: "(http_world \<times> http_client, local_fs, generic_record option, dead_letter_record) api_sink" where
  "sample_api_sink = \<lparr>ak_batch_size = 2, ak_dlq_path = ''q'',
     ak_writer = Some (write_batch healthy (\<lambda>p. Inr ''[]'') (\<lambda>me u. None) (\<lambda>n. []) sample_adapter (Some id_schema)),
     ak_dlq_sink = Some (local_storage \<lparr>fault = (\<lambda>n. None), fresh_uuid = (\<lambda>n. 0)\<rparr>), ak_buffer = None\<rparr>"

definition plain_client :: http_client where
  "plain_client = (new_http_client 0 sample_api [])\<lparr>hc_cb := None\<rparr>"

definition empty_fs :: local_fs where
  "empty_fs = \<lparr>files = Map.empty, steps = 0\<rparr>"

lemma sample_api_sink_parts:
  "ak_writer sample_api_sink = Some (write_batch healthy (\<lambda>p. Inr ''[]'') (\<lambda>me u. None) (\<lambda>n. []) sample_adapter (Some id_schema))"
  "ak_dlq_sink sample_api_sink = Some (local_storage \<lparr>fault = (\<lambda>n. None), fresh_uuid = (\<lambda>n. 0)\<rparr>)" "ak_dlq_path sample_api_sink = ''q''"
  "bundle_size sample_api_sink = 2"
  by (simp_all add: sample_api_sink_def bundle_size_def)

theorem api_sink_sends_chunks_witness:
  "api_process_all (\<lambda>l. Inr []) (\<lambda>a. ([], 0)) ((\<lparr>sent = [], events = 0\<rparr>, plain_client), empty_fs) (api_start_bundle sample_api_sink) [None, None, None] =
     send_all (flush_batch (\<lambda>l. Inr []) (\<lambda>a. ([], 0)) sample_api_sink) ((\<lparr>sent = [], events = 0\<rparr>, plain_client), empty_fs) [[None, None], [None]]"
proof -
  have ch: "chunks 2 [None, None, None :: generic_record option] = [[None, None], [None]]" by (simp add: chunks.simps)
  have n: "0 < bundle_size sample_api_sink" "nat (bundle_size sample_api_sink) = 2" by (simp_all add: sample_api_sink_parts)
  show ?thesis
    using conjunct1 [OF api_sink_sends_chunks [OF n(1), where recs = "[None, None, None]" and marshal = "\<lambda>l. Inr []" and un = "\<lambda>a. ([], 0)"
        and w = "((\<lparr>sent = [], events = 0\<rparr>, plain_client), empty_fs)"]]
    unfolding n(2) ch .
qed


section \<open>What is lost\<close>

text \<open>Without a writer a batch is dropped and no error is returned; and without dead-letter files the records a service refused are.\<close>

lemma flush_without_writer: "ak_writer d = None \<Longrightarrow> flush_batch marshal un d w batch = (w, None)"
  by (simp add: flush_batch_def split: prod.splits)

lemma refused_without_dlq:
  "ak_writer d = Some wr \<Longrightarrow> ak_dlq_sink d = None \<Longrightarrow> wr a batch = (a', failed, None) \<Longrightarrow> batch \<noteq> [] \<Longrightarrow>
   flush_batch marshal un d (a, s) batch = ((a', s), None)"
  by (simp add: flush_batch_def)

end
