(* ===== verification/Composition.thy ===== *)
theory Composition
  imports File_Writer Parquet Mongo_Source Cloud_Storage Batch_Sinks
begin

text \<open>
  How a run is put together: the registries of connectors (\<^verbatim>\<open>internal/ports/registry.go\<close>), the factories the adapters
  register (\<^verbatim>\<open>init.go\<close> of the formatters, the REST and the BigQuery adapters), the builders of sources and sinks of the
  packages under \<^verbatim>\<open>internal/beam\<close>, and the functions of \<^verbatim>\<open>cmd/pipeline/registry.go\<close> that use them. A factory is a
  constructor of a datatype, so that the file dispatcher, which looks its target up in the same registry, is a recursion;
  it may not end, and \<^term>\<open>None\<close> is that outcome. The properties say which sink a configuration gets and when there is
  none because the dispatchers send it to each other for ever.
\<close>

section \<open>Registries (ports/registry.go)\<close>

text \<open>Registering a name twice is a panic, \<^term>\<open>Inl\<close> its message.\<close>

definition register_connector :: "go_env \<Rightarrow> string \<Rightarrow> 'f gomap \<Rightarrow> string \<Rightarrow> 'f \<Rightarrow> string + 'f gomap" where
  "register_connector env what reg name f =
     (if gm_has reg name then Inl (''ports: '' @ what @ '' '' @ go_quote env name @ '' already registered'')
      else Inr (gm_set reg name f))"

definition register_source :: "go_env \<Rightarrow> 'f gomap \<Rightarrow> string \<Rightarrow> 'f \<Rightarrow> string + 'f gomap" where
  "register_source env = register_connector env ''source driver''"

definition register_paged_api_source :: "go_env \<Rightarrow> 'f gomap \<Rightarrow> string \<Rightarrow> 'f \<Rightarrow> string + 'f gomap" where
  "register_paged_api_source env = register_connector env ''paged api source''"

definition register_batch_api_writer :: "go_env \<Rightarrow> 'f gomap \<Rightarrow> string \<Rightarrow> 'f \<Rightarrow> string + 'f gomap" where
  "register_batch_api_writer env = register_connector env ''batch api writer''"

definition register_sink :: "go_env \<Rightarrow> 'f gomap \<Rightarrow> string \<Rightarrow> 'f \<Rightarrow> string + 'f gomap" where
  "register_sink env = register_connector env ''sink target''"

definition unregistered :: "go_env \<Rightarrow> string \<Rightarrow> string \<Rightarrow> string" where
  "unregistered env what name = ''unregistered connector: '' @ what @ '' '' @ go_quote env name"

type_synonym 'r connector_factory = "pipeline_config \<Rightarrow> secret_resolver option \<Rightarrow> string + 'r"

definition build_source :: "go_env \<Rightarrow> 'r connector_factory gomap \<Rightarrow> string \<Rightarrow> pipeline_config \<Rightarrow> secret_resolver option \<Rightarrow> string + 'r" where
  "build_source env reg driver cfg sec = (case map_of reg driver of
      None \<Rightarrow> Inl (unregistered env ''source driver'' driver) | Some f \<Rightarrow> f cfg sec)"

definition build_paged_api_source :: "go_env \<Rightarrow> 'r connector_factory gomap \<Rightarrow> string \<Rightarrow> pipeline_config \<Rightarrow> secret_resolver option \<Rightarrow> string + 'r" where
  "build_paged_api_source env reg name cfg sec = (case map_of reg name of
      None \<Rightarrow> Inl (unregistered env ''paged api source'' name) | Some f \<Rightarrow> f cfg sec)"

definition build_batch_api_writer :: "go_env \<Rightarrow> 'r connector_factory gomap \<Rightarrow> string \<Rightarrow> pipeline_config \<Rightarrow> secret_resolver option \<Rightarrow> string + 'r" where
  "build_batch_api_writer env reg name cfg sec = (case map_of reg name of
      None \<Rightarrow> Inl (unregistered env ''batch api writer'' name) | Some f \<Rightarrow> f cfg sec)"

section \<open>Sink builders (beam/streams, beam/paged_api and beam/bigquery)\<close>

record 'w stream_file_beam_sink =
  sf_storage :: "'w storage option"
  sf_formatter :: "record_formatter option"
  sf_output_dir :: string
  sf_format :: string
  sf_compression :: string
  sf_encryption :: encryption_config
  sf_format_options :: format_options
  sf_single_file :: bool
  sf_schema :: schema

record 'w parquet_beam_sink =
  pb_storage :: "'w storage option"
  pb_output_path :: string
  pb_compression :: string
  pb_encryption :: string
  pb_include_source_file :: bool
  pb_schema :: schema

record 'w batch_api_beam_sink =
  ba_endpoint :: api_endpoint_config
  ba_options :: api_sink_options
  ba_schema :: schema
  ba_dlq_path :: string
  ba_secret_token :: string
  ba_writer :: "(api_adapter \<times> http_client) option"
  ba_dlq_sink :: "'w storage option"

record bigquery_sink_builder =
  bb_writer :: write_adapter
  bb_config :: bigquery_config
  bb_schema :: schema

datatype 'w beam_sink =
  StreamFileBeamSink "'w stream_file_beam_sink" | ParquetBeamSink "'w parquet_beam_sink"
| BatchAPIBeamSink "'w batch_api_beam_sink" | BigQuerySinkBuilder bigquery_sink_builder

text \<open>\<^verbatim>\<open>NewStreamFileSinkDoFn\<close> and the \<^verbatim>\<open>BuildSink\<close> methods: the DoFn each builder adds to the graph.\<close>

definition new_stream_file_sink ::
  "'w storage option \<Rightarrow> 'r formatter option \<Rightarrow> string \<Rightarrow> string \<Rightarrow> string \<Rightarrow> encryption_config \<Rightarrow> bool \<Rightarrow> ('w, 'l, 'r) stream_sink" where
  "new_stream_file_sink st fm dir fmt compr enc single =
     \<lparr>ss_output_dir = trim_right_set {slash} dir, ss_format = to_lower fmt, ss_compression = to_lower compr, ss_enc_type = en_type enc,
      ss_single_file = single, ss_stager = Some (new_bundle_file_stager st dir fmt compr (en_type enc) single), ss_formatter = fm, ss_stream = None\<rparr>"

definition stream_file_do_fn :: "go_env \<Rightarrow> json_env \<Rightarrow> 'w stream_file_beam_sink \<Rightarrow> ('w, 'l, generic_record) stream_sink" where
  "stream_file_do_fn env je b = new_stream_file_sink (sf_storage b) (map_option (\<lambda>f. sink_formatter env je f (sf_schema b)) (sf_formatter b))
     (sf_output_dir b) (sf_format b) (sf_compression b) (sf_encryption b) (sf_single_file b)"

definition parquet_do_fn :: "'w parquet_beam_sink \<Rightarrow> ('w, 'p) parquet_sink" where
  "parquet_do_fn b = (new_parquet_sink (pb_storage b) (pb_output_path b) (pb_compression b) (pb_encryption b) (pb_schema b))
     \<lparr>ps_source_file := pb_include_source_file b\<rparr>"

definition batch_api_do_fn :: "(api_adapter \<times> http_client \<Rightarrow> ('a, 'r, 'f) batch_writer) \<Rightarrow> 'w batch_api_beam_sink \<Rightarrow> ('a, 'w, 'r, 'f) api_sink" where
  "batch_api_do_fn port b = \<lparr>ak_batch_size = ao_batch_size (ba_options b), ak_dlq_path = ba_dlq_path b,
     ak_writer = map_option port (ba_writer b), ak_dlq_sink = ba_dlq_sink b, ak_buffer = None\<rparr>"

definition bigquery_do_fn :: "(write_adapter \<Rightarrow> ('a, 'r, 'f) bigquery_writer) \<Rightarrow> bigquery_sink_builder \<Rightarrow> ('a, 'r, 'f) bigquery_sink" where
  "bigquery_do_fn port b = (let n = or_default 0 (bc_batch_size (bb_config b)) 500 in
     \<lparr>bq_batch_size = bc_batch_size (bb_config b), bq_writer = Some (port (bb_writer b)),
      bq_sizer = Some (new_adaptive_batch_sizer n (i64 (n * 10))), bq_stream = [], bq_buffer = [], bq_row_count = 0\<rparr>)"

section \<open>Sink factories (formatters/init.go, paged_api/sink/init.go, bigquery/init.go)\<close>

record 'w sink_deps =
  sd_storage :: "'w storage option"
  sd_secrets :: "secret_resolver option"

definition delimited_sink_factory :: "pipeline_config \<Rightarrow> 'w sink_deps \<Rightarrow> registry_error + 'w beam_sink" where
  "delimited_sink_factory cfg deps =
     (let d = pl_destination cfg; out = de_output_format d in
      case build_formatter formatter_registry out (de_format_options d) of
        Inl e \<Rightarrow> Inl e
      | Inr f \<Rightarrow> Inr (StreamFileBeamSink \<lparr>sf_storage = sd_storage deps, sf_formatter = Some f, sf_output_dir = de_output_path d, sf_format = out,
          sf_compression = de_compression d, sf_encryption = de_encryption d, sf_format_options = de_format_options d,
          sf_single_file = de_single_file d, sf_schema = get_schema cfg\<rparr>))"

definition parquet_sink_factory :: "pipeline_config \<Rightarrow> 'w sink_deps \<Rightarrow> 'w beam_sink" where
  "parquet_sink_factory cfg deps =
     (let d = pl_destination cfg in
      ParquetBeamSink \<lparr>pb_storage = sd_storage deps, pb_output_path = de_output_path d, pb_compression = de_compression d,
        pb_encryption = en_type (de_encryption d), pb_include_source_file = (pl_database cfg = None \<and> pl_api cfg = None), pb_schema = get_schema cfg\<rparr>)"

definition dispatch_target :: "pipeline_config \<Rightarrow> string" where
  "dispatch_target cfg = (let t = de_output_format (pl_destination cfg) in
     if t = [] \<or> t = de_type (pl_destination cfg) then ''parquet'' else t)"

definition resolve_credential :: "go_env \<Rightarrow> secret_resolver option \<Rightarrow> string \<Rightarrow> string + string" where
  "resolve_credential env sec ref = (case sec of
      None \<Rightarrow> Inr []
    | Some f \<Rightarrow> if ref = [] then Inr [] else
        (case f ref of Inl e \<Rightarrow> Inl (''resolving destination credential '' @ go_quote env ref @ '': '' @ e) | Inr token \<Rightarrow> Inr token))"

definition rest_writer_factory :: "go_env \<Rightarrow> int \<Rightarrow> pipeline_config \<Rightarrow> secret_resolver option \<Rightarrow> string + api_adapter \<times> http_client" where
  "rest_writer_factory env now cfg sec = (let d = pl_destination cfg in
     case resolve_credential env sec (ae_credential_ref (de_endpoint d)) of
       Inl e \<Rightarrow> Inl e
     | Inr token \<Rightarrow> Inr (new_api_sink now (f64_of_i64 env) (de_endpoint d) (de_api_options d) token))"

definition rest_sink_builder_factory :: "go_env \<Rightarrow> int \<Rightarrow> pipeline_config \<Rightarrow> 'w sink_deps \<Rightarrow> string + 'w beam_sink" where
  "rest_sink_builder_factory env now cfg deps = (let d = pl_destination cfg in
     case rest_writer_factory env now cfg (sd_secrets deps) of
       Inl e \<Rightarrow> Inl e
     | Inr writer \<Rightarrow> (case resolve_credential env (sd_secrets deps) (ae_credential_ref (de_endpoint d)) of
         Inl e \<Rightarrow> Inl e
       | Inr token \<Rightarrow> Inr (BatchAPIBeamSink \<lparr>ba_endpoint = de_endpoint d, ba_options = de_api_options d, ba_schema = get_schema cfg,
           ba_dlq_path = dl_quarantine_path (pl_dlq cfg), ba_secret_token = token, ba_writer = Some writer, ba_dlq_sink = sd_storage deps\<rparr>)))"

definition bq_sink_factory :: "go_env \<Rightarrow> pipeline_config \<Rightarrow> string + 'w beam_sink" where
  "bq_sink_factory env cfg = (case bigquery_validate env (de_bigquery (pl_destination cfg)) of
      (b, Some e) \<Rightarrow> Inl e
    | (b, None) \<Rightarrow> Inr (BigQuerySinkBuilder \<lparr>bb_writer = new_storage_write_adapter, bb_config = b, bb_schema = get_schema cfg\<rparr>))"

datatype sink_factory = DelimitedSink | ParquetSink | FileDispatcher | RestSink | BigQuerySink

text \<open>What the \<^verbatim>\<open>init\<close> functions of the three packages register.\<close>

definition delimited_names :: "string list" where
  "delimited_names = [''csv'', ''txt'', ''tsv'', ''json'', ''jsonl'', ''jsonlines'']"

definition dispatcher_names :: "string list" where
  "dispatcher_names = [''file'', ''storage'', ''local_storage'', ''gcs'', ''s3'']"

definition sink_registrations :: "(string \<times> sink_factory) list" where
  "sink_registrations = map (\<lambda>n. (n, DelimitedSink)) delimited_names @ [(''parquet'', ParquetSink)] @ map (\<lambda>n. (n, FileDispatcher)) dispatcher_names @
     [(''rest_api'', RestSink), (''http_api'', RestSink)] @ [(''bigquery'', BigQuerySink)]"

fun register_all :: "go_env \<Rightarrow> 'f gomap \<Rightarrow> (string \<times> 'f) list \<Rightarrow> string + 'f gomap" where
  "register_all env reg [] = Inr reg"
| "register_all env reg ((n, f) # rs) = (case register_sink env reg n f of Inl e \<Rightarrow> Inl e | Inr reg' \<Rightarrow> register_all env reg' rs)"

datatype build_error = BuildFailed string | FormatterFailed registry_error | DecoderFailed registry_error

definition lift_error :: "('e \<Rightarrow> build_error) \<Rightarrow> 'e + 'a \<Rightarrow> build_error + 'a" where
  "lift_error f r = (case r of Inl e \<Rightarrow> Inl (f e) | Inr x \<Rightarrow> Inr x)"

text \<open>\<^verbatim>\<open>BuildSink\<close>, with the clock read by the HTTP client of the REST sink.\<close>

partial_function (option) build_sink ::
  "go_env \<Rightarrow> int \<Rightarrow> sink_factory gomap \<Rightarrow> string \<Rightarrow> pipeline_config \<Rightarrow> 'w sink_deps \<Rightarrow> (build_error + 'w beam_sink) option" where
  "build_sink env now reg name cfg deps =
     (case map_of reg name of
        None \<Rightarrow> Some (Inl (BuildFailed (unregistered env ''sink target'' name)))
      | Some f \<Rightarrow> (case f of
            DelimitedSink \<Rightarrow> Some (lift_error FormatterFailed (delimited_sink_factory cfg deps))
          | ParquetSink \<Rightarrow> Some (Inr (parquet_sink_factory cfg deps))
          | FileDispatcher \<Rightarrow> build_sink env now reg (dispatch_target cfg) cfg deps
          | RestSink \<Rightarrow> Some (lift_error BuildFailed (rest_sink_builder_factory env now cfg deps))
          | BigQuerySink \<Rightarrow> Some (lift_error BuildFailed (bq_sink_factory env cfg))))"

section \<open>Sources (cmd/pipeline/registry.go and the source builders)\<close>

record 'k partitioned_beam_source =
  pt_slices :: "'k partition_slice list"
  pt_config :: database_source_config
  pt_secrets :: "secrets_config option"

record paged_api_beam_source =
  pa_pages :: "page_slice list"
  pa_reader :: rest_reader
  pa_config :: "api_source_config option"

record byte_stream_beam_source =
  by_uris :: "string list"
  by_decoder :: stream_decoder
  by_config :: source_config

datatype 'k beam_source =
  PartitionedBeamSource "'k partitioned_beam_source" | PagedAPIBeamSource paged_api_beam_source | ByteStreamBeamSource byte_stream_beam_source

text \<open>A reader of a database as \<^verbatim>\<open>buildDatabaseSource\<close> uses it is its \<^verbatim>\<open>CalculatePartitions\<close>. The host overrides are
  written into the configuration, which the workers are given.\<close>

type_synonym 'k partition_planner = "database_source_config \<Rightarrow> string + 'k partition_slice list"

definition build_database_source ::
  "go_env \<Rightarrow> 'k partition_planner connector_factory gomap \<Rightarrow> pipeline_config \<Rightarrow> secret_resolver option \<Rightarrow> string + 'k beam_source" where
  "build_database_source env reg cfg sec = (case pl_database cfg of
      None \<Rightarrow> Inl ''database_source config is required''
    | Some db0 \<Rightarrow>
        let db = (case pl_secrets cfg of Some sc \<Rightarrow> apply_database_host_overrides db0 (sc_host_override sc) | None \<Rightarrow> db0) in
        (case build_source env reg (ds_driver db) (cfg\<lparr>pl_database := Some db\<rparr>) sec of
           Inl e \<Rightarrow> Inl (''failed creating discovery reader: '' @ e)
         | Inr planner \<Rightarrow> (case planner db of
             Inl e \<Rightarrow> Inl (''failed calculating partitions: '' @ e)
           | Inr slices \<Rightarrow> Inr (PartitionedBeamSource \<lparr>pt_slices = slices, pt_config = db, pt_secrets = pl_secrets cfg\<rparr>))))"

text \<open>\<^verbatim>\<open>restReaderFactory\<close> drops the error of a credential it cannot resolve.\<close>

definition rest_reader_factory :: "int \<Rightarrow> rest_reader connector_factory" where
  "rest_reader_factory now cfg sec = (case pl_api cfg of
      None \<Rightarrow> Inl ''api_source configuration is missing''
    | Some a \<Rightarrow>
        let secrets = (case (as_auth a, sec) of
            (Some au, Some f) \<Rightarrow> if au_token_ref au \<noteq> [] then (case f (au_token_ref au) of Inr t \<Rightarrow> [(au_token_ref au, t)] | Inl e \<Rightarrow> []) else []
          | _ \<Rightarrow> [])
        in Inr (new_rest_reader now a secrets))"

definition paged_api_registry :: "int \<Rightarrow> rest_reader connector_factory gomap" where
  "paged_api_registry now = [(''rest_api'', rest_reader_factory now), (''http_api'', rest_reader_factory now)]"

definition build_api_source ::
  "go_env \<Rightarrow> http_env \<Rightarrow> rest_env \<Rightarrow> rest_reader connector_factory gomap \<Rightarrow> http_world \<Rightarrow> pipeline_config \<Rightarrow> secret_resolver option \<Rightarrow>
   http_world \<times> (string + 'k beam_source)" where
  "build_api_source env henv renv reg w cfg sec =
     (case build_paged_api_source env reg ''rest_api'' cfg sec of
        Inl e \<Rightarrow> (w, Inl (''failed resolving paged api source: '' @ e))
      | Inr r \<Rightarrow> (case estimate_pages henv renv w r (pl_api cfg) of (w', r', pages) \<Rightarrow>
          (w', Inr (PagedAPIBeamSource \<lparr>pa_pages = pages, pa_reader = r', pa_config = pl_api cfg\<rparr>))))"

text \<open>The list of files: a path with a star is expanded by \<^verbatim>\<open>List\<close> of the storage, the others are taken as they are.\<close>

fun expand_paths :: "(string \<Rightarrow> string + string list) \<Rightarrow> string list \<Rightarrow> string + string list" where
  "expand_paths listing [] = Inr []"
| "expand_paths listing (p0 # ps) =
     (let p = trim_space p0 in
      if p = [] then expand_paths listing ps
      else if CHR ''*'' \<in> set p then
        (case listing p of
           Inl e \<Rightarrow> Inl (''failed listing source files for pattern '' @ p @ '': '' @ e)
         | Inr fs \<Rightarrow> (case expand_paths listing ps of Inl e \<Rightarrow> Inl e | Inr rest \<Rightarrow> Inr (fs @ rest)))
      else (case expand_paths listing ps of Inl e \<Rightarrow> Inl e | Inr rest \<Rightarrow> Inr (p # rest)))"

definition source_files :: "(string \<Rightarrow> string + string list) \<Rightarrow> source_config \<Rightarrow> string + string list" where
  "source_files listing s =
     (case (if so_paths s \<noteq> [] then expand_paths listing (so_paths s)
            else if trim_space (so_path s) \<noteq> [] then
              (case listing (so_path s) of Inl e \<Rightarrow> Inl (''failed listing source files: '' @ e) | Inr fs \<Rightarrow> Inr fs)
            else Inr []) of
        Inl e \<Rightarrow> Inl e
      | Inr fs \<Rightarrow> Inr (if fs = [] then all_paths s else fs))"

definition build_byte_stream_source :: "(string \<Rightarrow> string + string list) \<Rightarrow> pipeline_config \<Rightarrow> build_error + 'k beam_source" where
  "build_byte_stream_source listing cfg =
     (case pipeline_build_decoder (Some (pl_source cfg)) of
        Inl e \<Rightarrow> Inl (DecoderFailed e)
      | Inr dec \<Rightarrow> (case source_files listing (pl_source cfg) of
          Inl e \<Rightarrow> Inl (BuildFailed e)
        | Inr fs \<Rightarrow> Inr (ByteStreamBeamSource \<lparr>by_uris = fs, by_decoder = dec, by_config = pl_source cfg\<rparr>)))"

definition build_source_engine ::
  "go_env \<Rightarrow> http_env \<Rightarrow> rest_env \<Rightarrow> 'k partition_planner connector_factory gomap \<Rightarrow> rest_reader connector_factory gomap \<Rightarrow>
   (string \<Rightarrow> string + string list) \<Rightarrow> http_world \<Rightarrow> pipeline_config \<Rightarrow> secret_resolver option \<Rightarrow> http_world \<times> (build_error + 'k beam_source)" where
  "build_source_engine env henv renv dbs apis listing w cfg sec =
     (if pl_database cfg \<noteq> None then (w, lift_error BuildFailed (build_database_source env dbs cfg sec))
      else if pl_api cfg \<noteq> None then (case build_api_source env henv renv apis w cfg sec of (w', r) \<Rightarrow> (w', lift_error BuildFailed r))
      else (w, build_byte_stream_source listing cfg))"

definition build_destination_sink :: "go_env \<Rightarrow> int \<Rightarrow> sink_factory gomap \<Rightarrow> pipeline_config \<Rightarrow> 'w storage option \<Rightarrow> secret_resolver option \<Rightarrow>
   (build_error + 'w beam_sink) option" where
  "build_destination_sink env now reg cfg st sec = build_sink env now reg (de_type (pl_destination cfg)) cfg \<lparr>sd_storage = st, sd_secrets = sec\<rparr>"

text \<open>\<^verbatim>\<open>buildDLQSink\<close> and \<^verbatim>\<open>buildAuditSink\<close>, with the DoFns their builders add.\<close>

definition build_dlq_sink :: "pipeline_config \<Rightarrow> 'w storage option \<Rightarrow> 'w jsonl_sink" where
  "build_dlq_sink cfg st = new_jsonl_sink st (dl_quarantine_path (pl_dlq cfg))"

definition build_audit_sink :: "pipeline_config \<Rightarrow> 'w storage option \<Rightarrow> 'w jsonl_sink option" where
  "build_audit_sink cfg st = (let dir = dl_quarantine_path (pl_dlq cfg) in
     if dir = [] \<or> st = None then None else Some (new_jsonl_sink st dir))"

section \<open>Registration in any order\<close>

text \<open>The packages register their factories in the order in which Go initialises them; since the names differ, the order does
  not matter and no registration panics.\<close>

lemma register_all_distinct:
  assumes "distinct (map fst (reg @ rs))"
  shows "register_all env reg rs = Inr (reg @ rs)"
  using assms
proof (induction rs arbitrary: reg)
  case (Cons r rs)
  obtain n f where r: "r = (n, f)" by fastforce
  then have n: "n \<notin> fst ` set reg" using Cons.prems by auto
  then have "register_sink env reg n f = Inr (reg @ [(n, f)])"
    by (simp add: register_sink_def register_connector_def gm_has_def map_of_eq_None_iff gm_set_new)
  then show ?case using Cons.IH [of "reg @ [r]"] Cons.prems r by simp
qed simp

lemma sink_names_distinct: "distinct (map fst sink_registrations)"
  by (simp add: sink_registrations_def delimited_names_def dispatcher_names_def)

lemma sinks_registered_any_order:
  assumes "mset rs = mset sink_registrations"
  shows "\<exists>reg. register_all env [] rs = Inr reg \<and> map_of reg = map_of sink_registrations"
proof -
  have "mset (map fst rs) = mset (map fst sink_registrations)" using assms by simp
  then have d: "distinct (map fst rs)" using sink_names_distinct by (metis distinct_count_atmost_1 set_mset_mset mset_eq_imp_distinct_iff)
  have "set rs = set sink_registrations" using assms by (rule mset_eq_setD)
  then have "map_of rs = map_of sink_registrations" using d sink_names_distinct by (simp add: map_of_inject_set)
  then show ?thesis using register_all_distinct [of "[]" rs env] d by simp
qed

section \<open>The sink a configuration gets\<close>

lemma map_of_same: "map_of (map (\<lambda>n. (n, c)) ns) n = (if n \<in> set ns then Some c else None)"
  by (induction ns) auto

lemma dispatcher_lookup: "n \<in> set dispatcher_names \<Longrightarrow> map_of sink_registrations n = Some FileDispatcher"
  by (auto simp: sink_registrations_def delimited_names_def dispatcher_names_def)

lemma delimited_lookup: "n \<in> set delimited_names \<Longrightarrow> map_of sink_registrations n = Some DelimitedSink"
  by (auto simp: sink_registrations_def delimited_names_def)

lemma other_lookup: "n \<notin> set dispatcher_names \<Longrightarrow> map_of sink_registrations n \<noteq> Some FileDispatcher"
  by (auto simp: sink_registrations_def map_of_append map_add_def map_of_same split: option.splits if_splits)

lemma build_sink_crossed:
  assumes "map_of reg = map_of sink_registrations" "n \<in> set dispatcher_names" "dispatch_target cfg \<in> set dispatcher_names"
  shows "build_sink env now reg n cfg deps = None"
proof -
  have "build_sink env now reg n cfg deps = Some r \<Longrightarrow>
    map_of reg = map_of sink_registrations \<and> dispatch_target cfg \<in> set dispatcher_names \<longrightarrow> n \<notin> set dispatcher_names" for r
  proof (erule build_sink.raw_induct [rotated])
    fix f :: "go_env \<Rightarrow> int \<Rightarrow> sink_factory gomap \<Rightarrow> string \<Rightarrow> pipeline_config \<Rightarrow> 'a sink_deps \<Rightarrow> (build_error + 'a beam_sink) option"
      and env now reg n cfg deps r
    assume IH: "\<And>env now reg n cfg deps r. f env now reg n cfg deps = Some r \<Longrightarrow>
        map_of reg = map_of sink_registrations \<and> dispatch_target cfg \<in> set dispatcher_names \<longrightarrow> n \<notin> set dispatcher_names"
      and eq: "(case map_of reg n of
        None \<Rightarrow> Some (Inl (BuildFailed (unregistered env ''sink target'' n)))
      | Some fac \<Rightarrow> (case fac of
            DelimitedSink \<Rightarrow> Some (lift_error FormatterFailed (delimited_sink_factory cfg deps))
          | ParquetSink \<Rightarrow> Some (Inr (parquet_sink_factory cfg deps))
          | FileDispatcher \<Rightarrow> f env now reg (dispatch_target cfg) cfg deps
          | RestSink \<Rightarrow> Some (lift_error BuildFailed (rest_sink_builder_factory env now cfg deps))
          | BigQuerySink \<Rightarrow> Some (lift_error BuildFailed (bq_sink_factory env cfg)))) = Some r"
    show "map_of reg = map_of sink_registrations \<and> dispatch_target cfg \<in> set dispatcher_names \<longrightarrow> n \<notin> set dispatcher_names"
      using eq dispatcher_lookup [of n] IH [of env now reg "dispatch_target cfg" cfg deps r] by auto
  qed
  then show ?thesis using assms by (cases "build_sink env now reg n cfg deps") auto
qed

lemma build_sink_direct:
  assumes "map_of reg = map_of sink_registrations" "n \<notin> set dispatcher_names"
  shows "build_sink env now reg n cfg deps \<noteq> None"
  using assms other_lookup [of n]
  by (cases "map_of sink_registrations n") (auto simp: build_sink.simps [of env now reg n] split: sink_factory.splits)

lemma build_sink_parquet:
  "map_of reg = map_of sink_registrations \<Longrightarrow> build_sink env now reg ''parquet'' cfg deps = Some (Inr (parquet_sink_factory cfg deps))"
  by (simp add: build_sink.simps [of env now reg "''parquet''"] sink_registrations_def delimited_names_def)

lemma build_sink_delimited:
  "map_of reg = map_of sink_registrations \<Longrightarrow> n \<in> set delimited_names \<Longrightarrow>
    build_sink env now reg n cfg deps = Some (lift_error FormatterFailed (delimited_sink_factory cfg deps))"
  by (simp add: build_sink.simps [of env now reg n] delimited_lookup)

lemma build_sink_dispatched:
  "map_of reg = map_of sink_registrations \<Longrightarrow> n \<in> set dispatcher_names \<Longrightarrow>
    build_sink env now reg n cfg deps = build_sink env now reg (dispatch_target cfg) cfg deps"
  by (simp add: build_sink.simps [of env now reg n] dispatcher_lookup)

lemma registered_lookup:
  "mset rs = mset sink_registrations \<Longrightarrow> register_all env [] rs = Inr reg \<Longrightarrow> map_of reg = map_of sink_registrations"
  using sinks_registered_any_order [of rs env] by auto

lemma delimited_not_dispatcher: "n \<in> set delimited_names \<Longrightarrow> n \<notin> set dispatcher_names \<and> n \<noteq> []"
  by (auto simp: delimited_names_def dispatcher_names_def)

lemma delimited_destination:
  assumes "map_of reg = map_of sink_registrations" "de_output_format (pl_destination cfg) \<in> set delimited_names"
    and "de_type (pl_destination cfg) \<in> set (dispatcher_names @ delimited_names)"
  shows "build_destination_sink env now reg cfg st sec = Some (lift_error FormatterFailed (delimited_sink_factory cfg \<lparr>sd_storage = st, sd_secrets = sec\<rparr>))"
proof (cases "de_type (pl_destination cfg) \<in> set dispatcher_names")
  case True
  then have "dispatch_target cfg = de_output_format (pl_destination cfg)"
    using delimited_not_dispatcher [OF assms(2)] by (auto simp: dispatch_target_def Let_def)
  then show ?thesis by (simp add: build_destination_sink_def build_sink_dispatched [OF assms(1) True] build_sink_delimited [OF assms(1,2)])
next
  case False
  then have "de_type (pl_destination cfg) \<in> set delimited_names" using assms(3) by simp
  then show ?thesis by (simp add: build_destination_sink_def build_sink_delimited [OF assms(1)])
qed

lemma registry_csv:
  "build_formatter formatter_registry ''csv'' opts = Inr (csv_factory opts)" "build_decoder decoder_registry ''csv'' scfg = Inr (csv_decoder_factory scfg)"
  by (simp_all add: build_formatter_def formatter_registry_def register_formatter_def build_decoder_def decoder_registry_def register_decoder_def
      clean_name_def trim_space_visible ascii_visible_def to_lower_def lower_char_def gm_set_def)

lemma trim_right_set_idem: "trim_right_set cs (trim_right_set cs x) = trim_right_set cs x"
  by (simp add: trim_right_set_def dropWhile_idem)

text \<open>The stager of a plain file sink publishes at the URI of the configured path.\<close>

lemma plain_sink_stager:
  assumes "sf_compression b \<in> {[], ''none''}" "en_type (sf_encryption b) \<in> {[], ''none''}"
  shows "\<exists>sg. ss_stager (stream_file_do_fn env je b) = Some sg \<and> sg_storage sg = sf_storage b \<and>
      stager_uri un sg = build_output_uri (fst un) (snd un) (sf_output_dir b) (to_lower (sf_format b)) [] [] (sf_single_file b)"
    "ss_compression (stream_file_do_fn env je b) \<in> {[], ''none''}" "ss_enc_type (stream_file_do_fn env je b) \<in> {[], ''none''}"
  using assms
  by (auto simp: stream_file_do_fn_def new_stream_file_sink_def stager_uri_def new_bundle_file_stager_def build_output_uri_def trim_right_set_idem
      compression_ext_def encryption_ext_def trim_visible_texts Let_def)

lemma delimited_formatter:
  assumes "f \<in> set delimited_names"
  shows "\<exists>fm. build_formatter formatter_registry f opts = Inr fm"
  using assms
  by (auto simp: delimited_names_def build_formatter_def formatter_registry_def register_formatter_def clean_name_def trim_space_visible
      ascii_visible_def to_lower_def lower_char_def gm_set_def)

section \<open>Properties\<close>

text \<open>C9. The sink a destination gets, whatever the order in which the packages have registered their factories (none of them
  panics): for a type that stands for files, a format that is missing or repeats the type gives the Parquet sink, and a
  delimited format gives the file sink with the formatter of this format and the options, path and schema of the
  configuration; and the construction does not return exactly if the format is another one of the names that stand for
  files, because the dispatcher is then called by itself for ever.\<close>

theorem destination_sink_decided:
  assumes "mset rs = mset sink_registrations"
  shows "\<exists>reg. register_all env [] rs = Inr reg \<and>
    (let d = pl_destination cfg; t = de_type d; f = de_output_format d; sink = build_destination_sink env now reg cfg st sec in
     (sink = None \<longleftrightarrow> t \<in> set dispatcher_names \<and> f \<in> set dispatcher_names \<and> f \<noteq> t) \<and>
     (t \<in> set dispatcher_names \<and> f \<in> {[], t, ''parquet''} \<longrightarrow> sink = Some (Inr (parquet_sink_factory cfg \<lparr>sd_storage = st, sd_secrets = sec\<rparr>))) \<and>
     (t \<in> set (dispatcher_names @ delimited_names) \<and> f \<in> set delimited_names \<longrightarrow>
        (\<exists>fm. build_formatter formatter_registry f (de_format_options d) = Inr fm \<and>
          sink = Some (Inr (StreamFileBeamSink \<lparr>sf_storage = st, sf_formatter = Some fm, sf_output_dir = de_output_path d, sf_format = f,
            sf_compression = de_compression d, sf_encryption = de_encryption d, sf_format_options = de_format_options d,
            sf_single_file = de_single_file d, sf_schema = get_schema cfg\<rparr>)))))"
proof -
  obtain reg where reg: "register_all env [] rs = Inr reg" and lk: "map_of reg = map_of sink_registrations"
    using sinks_registered_any_order [OF assms] by blast
  let ?d = "pl_destination cfg" and ?deps = "\<lparr>sd_storage = st, sd_secrets = sec\<rparr>"
  let ?t = "de_type ?d" and ?f = "de_output_format ?d"
  have np: "[] \<notin> set dispatcher_names" "''parquet'' \<notin> set dispatcher_names" by (simp_all add: dispatcher_names_def)
  note disp = build_sink_dispatched [OF lk, of ?t env now cfg ?deps]
  have none: "build_sink env now reg ?t cfg ?deps = None \<longleftrightarrow> ?t \<in> set dispatcher_names \<and> ?f \<in> set dispatcher_names \<and> ?f \<noteq> ?t"
  proof (cases "?t \<in> set dispatcher_names")
    case True
    show ?thesis
    proof (cases "dispatch_target cfg \<in> set dispatcher_names")
      case False
      then show ?thesis using True disp build_sink_direct [OF lk False, of env now cfg ?deps] np by (auto simp: dispatch_target_def Let_def split: if_splits)
    qed (use True build_sink_crossed [OF lk True, of cfg env now ?deps] np in \<open>auto simp: dispatch_target_def Let_def split: if_splits\<close>)
  qed (use build_sink_direct [OF lk] in simp)
  have parquet: "?t \<in> set dispatcher_names \<Longrightarrow> ?f \<in> {[], ?t, ''parquet''} \<Longrightarrow> build_sink env now reg ?t cfg ?deps = Some (Inr (parquet_sink_factory cfg ?deps))"
    using disp build_sink_parquet [OF lk, of env now cfg ?deps] by (auto simp: dispatch_target_def Let_def split: if_splits)
  note delim = delimited_destination [OF lk, of cfg env now st sec]
  show ?thesis using reg none parquet delim delimited_formatter [of ?f "de_format_options ?d"]
    by (intro exI [of _ reg]) (auto simp: build_destination_sink_def Let_def delimited_sink_factory_def lift_error_def)
qed

text \<open>A configuration of files into files that validation accepts.\<close>

definition file_config :: "string \<Rightarrow> string \<Rightarrow> pipeline_config" where
  "file_config ty fmt = sample_config\<lparr>pl_source := zero_source\<lparr>so_path := ''in.csv'', so_schema := id_schema\<rparr>, pl_database := None,
     pl_destination := zero_destination\<lparr>de_type := ty, de_output_format := fmt, de_output_path := ''/out/data.csv'',
       de_format_options := (de_format_options zero_destination)\<lparr>fo_include_header := True\<rparr>\<rparr>\<rparr>"

lemma file_config_parts:
  assumes "list_all ascii_visible ty" "list_all ascii_visible fmt" "to_lower ty = ty" "to_lower fmt = fmt" "ty \<noteq> []" "fmt \<noteq> []"
  shows "de_type (pl_destination (config_apply_defaults (file_config ty fmt))) = ty"
    "de_output_format (pl_destination (config_apply_defaults (file_config ty fmt))) = fmt"
    "de_output_path (pl_destination (config_apply_defaults (file_config ty fmt))) = ''/out/data.csv''"
    "en_type (de_encryption (pl_destination (config_apply_defaults (file_config ty fmt)))) = ''none''"
  using assms
  by (simp_all add: config_apply_defaults_def copy_schema_def file_config_def sample_config_def zero_destination_def destination_apply_defaults_def
      encryption_apply_defaults_def Let_def or_default_def trim_visible_texts trim_space_visible list_all_iff)

lemma file_config_accepted:
  assumes "list_all ascii_visible ty" "list_all ascii_visible fmt" "to_lower ty = ty" "to_lower fmt = fmt" "ty \<notin> {[], ''rest_api'', ''bigquery''}" "fmt \<noteq> []"
  shows "normalize_and_validate env wenv (file_config ty fmt) = (config_apply_defaults (file_config ty fmt), None)"
proof -
  let ?c = "config_apply_defaults (file_config ty fmt)"
  have t: "trim_space ''in.csv'' = ''in.csv''" "trim_space ''/out/data.csv'' = ''/out/data.csv''" by (simp_all add: trim_space_visible ascii_visible_def)
  have parts: "pl_pipeline_id ?c = ''p''" "pl_run_id ?c = ''r''" "pl_api ?c = None" "pl_database ?c = None"
    "pl_source ?c = source_apply_defaults (zero_source\<lparr>so_path := ''in.csv'', so_schema := id_schema\<rparr>)"
    by (simp_all add: config_apply_defaults_def copy_schema_def file_config_def sample_config_def Let_def)
  note dest = file_config_parts [OF assms(1-4) _ assms(6)]
  have "validate_source_config ?c = None"
    by (simp add: validate_source_config_def parts source_apply_defaults_def zero_source_def or_default_def check_non_negative_def all_paths_def t
        id_schema_def schema_apply_defaults_def)
  moreover have "validate_database_config ?c = None" "validate_api_config wenv ?c = None"
    by (simp_all add: validate_database_config_def validate_api_config_def parts)
  moreover have "validate_destination_config env (pl_destination ?c) = (pl_destination ?c, None)"
    using assms(5) by (simp add: validate_destination_config_def dest t encryption_validate_def trim_visible_texts)
  moreover have "validate_watermark env wenv ?c = None"
    by (simp add: validate_watermark_def active_watermark_def parts source_apply_defaults_def zero_source_def)
  ultimately show ?thesis
    unfolding normalize_and_validate_def config_validate_accepts by (simp add: parts trim_visible_texts)
qed

theorem destination_sink_decided_witness:
  "normalize_and_validate sample_env sample_wm_env (file_config ''gcs'' ''file'') = (config_apply_defaults (file_config ''gcs'' ''file''), None) \<and>
   (\<exists>reg. register_all sample_env [] (rev sink_registrations) = Inr reg \<and>
     build_destination_sink sample_env 0 reg (config_apply_defaults (file_config ''gcs'' ''file'')) (None :: local_fs storage option) None = None)"
proof -
  have v: "list_all ascii_visible ''gcs''" "list_all ascii_visible ''file''" "to_lower ''gcs'' = ''gcs''" "to_lower ''file'' = ''file''"
    by (simp_all add: ascii_visible_def to_lower_def lower_char_def)
  note dest = file_config_parts [OF v]
  have "mset (rev sink_registrations) = mset sink_registrations" by simp
  from destination_sink_decided [OF this, of sample_env "config_apply_defaults (file_config ''gcs'' ''file'')" 0 "None :: local_fs storage option" None]
  show ?thesis using file_config_accepted [OF v, of sample_env sample_wm_env] by (auto simp: Let_def dest dispatcher_names_def)
qed

end
