(* ===== verification/Watermark_Output.thy ===== *)
theory Watermark_Output
  imports Config Metrics
begin

text \<open>
  The watermark a run reports, \<^verbatim>\<open>cmd/pipeline/watermark_output.go\<close>: the largest value of the watermark column in the Parquet
  files written, the incoming one when that is larger, or the offset reached. The Parquet library and the directory are arguments.
\<close>

section \<open>Parquet files\<close>

text \<open>A value, with the kinds the code tells apart; \<^verbatim>\<open>float32\<close> values are given as the \<^verbatim>\<open>float64\<close> they convert to.\<close>

datatype pq_value = PqNull | PqInt64 int | PqInt32 int | PqDouble u64 | PqFloat u64 | PqOther string

text \<open>Pages and their values are read until the end or an error; what was read before the error has been processed.\<close>

type_synonym pq_page = "pq_value list \<times> string option"
type_synonym pq_chunk = "pq_page list \<times> string option"

record pq_file =
  pq_columns :: "(string \<times> int) list"
  pq_row_groups :: "pq_chunk list list"

record pq_env =
  pq_open :: "string \<Rightarrow> string + pq_file"
  pq_read_dir :: "string \<Rightarrow> string + (string \<times> bool) list"
  pq_string :: "pq_value \<Rightarrow> string"
  pq_bytes :: "pq_value \<Rightarrow> string"

datatype output_error =
    OpenFailed string string | ColumnNotFound string string | PageFailed string string | ParseFailed string string watermark_error
  | ValuesFailed string string | BadOffset string | ReadDirFailed string string

section \<open>Reading the largest value\<close>

definition parse_parquet_value :: "wm_env \<Rightarrow> pq_env \<Rightarrow> pq_value \<Rightarrow> watermark_type \<Rightarrow> watermark_error + watermark_value" where
  "parse_parquet_value env pq v t = (case t of
      WmInteger \<Rightarrow> parse_watermark_value env t
        (case v of PqInt64 n \<Rightarrow> format_int n | PqInt32 n \<Rightarrow> format_int n | _ \<Rightarrow> pq_string pq v)
    | WmFloat \<Rightarrow> parse_watermark_value env t
        (case v of PqDouble f \<Rightarrow> format_float env f | PqFloat f \<Rightarrow> format_float env f | _ \<Rightarrow> pq_string pq v)
    | WmTimestamp \<Rightarrow> parse_watermark_value env t
        (case v of PqInt64 n \<Rightarrow> timestamp_text env (n * 1000, 0) | _ \<Rightarrow> pq_bytes pq v)
    | WmDate \<Rightarrow> parse_watermark_value env t
        (case v of PqInt64 n \<Rightarrow> format_time env date_layout (n * 1000, 0) | _ \<Rightarrow> pq_bytes pq v)
    | _ \<Rightarrow> parse_watermark_value env t (pq_bytes pq v))"

text \<open>The nested loops, each carrying the maximum found so far.\<close>

definition max_step :: "watermark_value option \<Rightarrow> watermark_value \<Rightarrow> watermark_value option" where
  "max_step m v = (case m of None \<Rightarrow> Some v | Some x \<Rightarrow> if watermark_compare v x > 0 then Some v else m)"

fun max_of_values ::
  "wm_env \<Rightarrow> pq_env \<Rightarrow> string \<Rightarrow> string \<Rightarrow> watermark_type \<Rightarrow> pq_value list \<Rightarrow> watermark_value option \<Rightarrow> output_error + watermark_value option" where
  "max_of_values env pq file column t [] m = Inr m"
| "max_of_values env pq file column t (v # vs) m =
     (if v = PqNull then max_of_values env pq file column t vs m
      else case parse_parquet_value env pq v t of
          Inl e \<Rightarrow> Inl (ParseFailed column file e)
        | Inr p \<Rightarrow> max_of_values env pq file column t vs (max_step m p))"

fun max_of_pages ::
  "wm_env \<Rightarrow> pq_env \<Rightarrow> string \<Rightarrow> string \<Rightarrow> watermark_type \<Rightarrow> pq_page list \<Rightarrow> string option \<Rightarrow> watermark_value option \<Rightarrow> output_error + watermark_value option" where
  "max_of_pages env pq file column t [] (Some e) m = Inl (PageFailed file e)"
| "max_of_pages env pq file column t [] None m = Inr m"
| "max_of_pages env pq file column t ((vs, err) # ps) last_err m =
     (case max_of_values env pq file column t vs m of
        Inl e \<Rightarrow> Inl e
      | Inr m' \<Rightarrow> (case err of Some e \<Rightarrow> Inl (ValuesFailed file e)
          | None \<Rightarrow> max_of_pages env pq file column t ps last_err m'))"

fun max_of_groups ::
  "wm_env \<Rightarrow> pq_env \<Rightarrow> string \<Rightarrow> string \<Rightarrow> watermark_type \<Rightarrow> int \<Rightarrow> pq_chunk list list \<Rightarrow> watermark_value option \<Rightarrow> output_error + watermark_value option" where
  "max_of_groups env pq file column t idx [] m = Inr m"
| "max_of_groups env pq file column t idx (g # gs) m =
     (if idx \<ge> int (length g) then max_of_groups env pq file column t idx gs m
      else case max_of_pages env pq file column t (fst (g ! nat idx)) (snd (g ! nat idx)) m of
          Inl e \<Rightarrow> Inl e
        | Inr m' \<Rightarrow> max_of_groups env pq file column t idx gs m')"

fun find_column :: "string \<Rightarrow> (string \<times> int) list \<Rightarrow> int" where
  "find_column column [] = - 1"
| "find_column column ((n, i) # cs) = (if n = column then i else find_column column cs)"

fun max_of_files ::
  "wm_env \<Rightarrow> pq_env \<Rightarrow> string \<Rightarrow> watermark_type \<Rightarrow> string list \<Rightarrow> watermark_value option \<Rightarrow> output_error + watermark_value option" where
  "max_of_files env pq column t [] m = Inr m"
| "max_of_files env pq column t (file # files) m =
     (case pq_open pq file of
        Inl e \<Rightarrow> Inl (OpenFailed file e)
      | Inr pf \<Rightarrow> let idx = find_column column (pq_columns pf) in
          if idx = - 1 then Inl (ColumnNotFound column file)
          else (case max_of_groups env pq file column t idx (pq_row_groups pf) m of
              Inl e \<Rightarrow> Inl e
            | Inr m' \<Rightarrow> max_of_files env pq column t files m'))"

definition max_parquet_column :: "wm_env \<Rightarrow> pq_env \<Rightarrow> string list \<Rightarrow> string \<Rightarrow> watermark_type \<Rightarrow> output_error + watermark_value option" where
  "max_parquet_column env pq files column t = max_of_files env pq column t files None"

section \<open>resolveWatermarkOutput\<close>

definition report :: "watermark_config \<Rightarrow> string option \<Rightarrow> watermark_output option" where
  "report wm v = Some \<lparr>wo_column = wc_column wm, wo_type = watermark_type_name (wc_type wm), wo_value = v\<rparr>"

definition incoming_text :: "watermark_config \<Rightarrow> string option" where
  "incoming_text wm = (case wc_value wm of Some s \<Rightarrow> if trim_space s \<noteq> [] then Some (trim_space s) else None | None \<Rightarrow> None)"

definition has_suffix :: "string \<Rightarrow> string \<Rightarrow> bool" where
  "has_suffix s suf \<longleftrightarrow> has_prefix (rev s) (rev suf)"

definition parquet_files :: "string \<Rightarrow> (string \<times> bool) list \<Rightarrow> string list" where
  "parquet_files out_dir entries =
     map (\<lambda>(n, d). path_join [out_dir, n]) (filter (\<lambda>(n, is_dir). \<not> is_dir \<and> has_suffix n ''.parquet'') entries)"

definition resolve_offset_output :: "watermark_config \<Rightarrow> int \<Rightarrow> output_error + watermark_output option" where
  "resolve_offset_output wm total_read = (case incoming_text wm of
      None \<Rightarrow> Inr (report wm (Some (format_int (i64 total_read))))
    | Some s \<Rightarrow> (case strconv_parse_int s of
        None \<Rightarrow> Inl (BadOffset (the (wc_value wm)))
      | Some n \<Rightarrow> Inr (report wm (Some (format_int (i64 (n + total_read)))))))"

definition resolve_watermark_output ::
  "wm_env \<Rightarrow> pq_env \<Rightarrow> pipeline_config option \<Rightarrow> string \<Rightarrow> int \<Rightarrow> int \<Rightarrow> output_error + watermark_output option" where
  "resolve_watermark_output env pq cfg out_dir total_read written =
     (case cfg of None \<Rightarrow> Inr None | Some c \<Rightarrow>
      case active_watermark c of
        None \<Rightarrow> Inr None
      | Some (wm, is_offset) \<Rightarrow>
          if is_offset then resolve_offset_output wm total_read
          else if written = 0 then Inr (report wm (incoming_text wm))
          else case pq_read_dir pq out_dir of
              Inl e \<Rightarrow> Inl (ReadDirFailed out_dir e)
            | Inr entries \<Rightarrow>
                (case max_parquet_column env pq (parquet_files out_dir entries) (wc_column wm) (wc_type wm) of
                   Inl e \<Rightarrow> Inl e
                 | Inr None \<Rightarrow> Inr (report wm (incoming_text wm))
                 | Inr (Some m) \<Rightarrow>
                     let final = (case watermark_incoming env wm of
                         Inr (Some inc) \<Rightarrow> if watermark_compare inc m > 0 then inc else m
                       | _ \<Rightarrow> m)
                     in Inr (report wm (Some (watermark_string env final)))))"

section \<open>The maximum\<close>

text \<open>The values of the column in the files, in the order they are read.\<close>

definition group_values :: "int \<Rightarrow> pq_chunk list \<Rightarrow> pq_value list" where
  "group_values idx g = (if idx \<ge> int (length g) then [] else concat (map fst (fst (g ! nat idx))))"

definition file_values :: "string \<Rightarrow> pq_file \<Rightarrow> pq_value list" where
  "file_values column pf = concat (map (group_values (find_column column (pq_columns pf))) (pq_row_groups pf))"

definition column_values :: "pq_env \<Rightarrow> string \<Rightarrow> string list \<Rightarrow> pq_value list" where
  "column_values pq column files =
     filter (\<lambda>v. v \<noteq> PqNull) (concat (map (\<lambda>f. case pq_open pq f of Inr pf \<Rightarrow> file_values column pf | Inl _ \<Rightarrow> []) files))"

text \<open>One value after another: all of them parse, and the result is the fold of the step.\<close>

lemma max_of_values_fold:
  "max_of_values env pq file column t vs m = Inr m' \<Longrightarrow>
   \<exists>ps. map (\<lambda>v. parse_parquet_value env pq v t) (filter (\<lambda>v. v \<noteq> PqNull) vs) = map Inr ps \<and> m' = foldl max_step m ps"
proof (induction vs arbitrary: m)
  case (Cons v vs)
  show ?case
  proof (cases "v = PqNull")
    case True
    then show ?thesis using Cons by simp
  next
    case False
    then obtain p where p: "parse_parquet_value env pq v t = Inr p"
      and r: "max_of_values env pq file column t vs (max_step m p) = Inr m'"
      using Cons.prems by (auto split: sum.splits)
    obtain ps where "map (\<lambda>v. parse_parquet_value env pq v t) (filter (\<lambda>v. v \<noteq> PqNull) vs) = map Inr ps"
      "m' = foldl max_step (max_step m p) ps"
      using Cons.IH [OF r] by blast
    then show ?thesis using False p by (intro exI [of _ "p # ps"]) simp
  qed
qed simp

text \<open>What a list of values gives: parsed values folded from the maximum so far.\<close>

definition folds_to ::
  "wm_env \<Rightarrow> pq_env \<Rightarrow> watermark_type \<Rightarrow> pq_value list \<Rightarrow> watermark_value option \<Rightarrow> watermark_value option \<Rightarrow> bool" where
  "folds_to env pq t vs m m' \<longleftrightarrow>
     (\<exists>ps. map (\<lambda>v. parse_parquet_value env pq v t) (filter (\<lambda>v. v \<noteq> PqNull) vs) = map Inr ps \<and> m' = foldl max_step m ps)"

lemma folds_to_Nil [simp]: "folds_to env pq t [] m m' \<longleftrightarrow> m' = m"
  by (auto simp: folds_to_def)

lemma folds_to_append:
  assumes "folds_to env pq t vs m m1" "folds_to env pq t ws m1 m2"
  shows "folds_to env pq t (vs @ ws) m m2"
proof -
  obtain ps qs where "map (\<lambda>v. parse_parquet_value env pq v t) (filter (\<lambda>v. v \<noteq> PqNull) vs) = map Inr ps" "m1 = foldl max_step m ps"
    "map (\<lambda>v. parse_parquet_value env pq v t) (filter (\<lambda>v. v \<noteq> PqNull) ws) = map Inr qs" "m2 = foldl max_step m1 qs"
    using assms by (auto simp: folds_to_def)
  then show ?thesis unfolding folds_to_def by (intro exI [of _ "ps @ qs"]) simp
qed

lemma max_of_pages_fold:
  "max_of_pages env pq file column t ps le m = Inr m' \<Longrightarrow> folds_to env pq t (concat (map fst ps)) m m'"
proof (induction ps arbitrary: m)
  case Nil
  then show ?case by (cases le) simp_all
next
  case (Cons p ps)
  obtain vs err where pe: "p = (vs, err)" by (cases p)
  then obtain m1 where v: "max_of_values env pq file column t vs m = Inr m1"
    and r: "max_of_pages env pq file column t ps le m1 = Inr m'"
    using Cons.prems by (auto split: sum.splits option.splits)
  have "folds_to env pq t vs m m1" using max_of_values_fold [OF v] by (simp add: folds_to_def)
  then show ?case using Cons.IH [OF r] by (simp add: folds_to_append pe)
qed

lemma max_of_groups_fold:
  "max_of_groups env pq file column t idx gs m = Inr m' \<Longrightarrow> folds_to env pq t (concat (map (group_values idx) gs)) m m'"
proof (induction gs arbitrary: m)
  case (Cons g gs)
  show ?case
  proof (cases "idx \<ge> int (length g)")
    case True
    then show ?thesis using Cons by (simp add: group_values_def)
  next
    case False
    then obtain m1 where p: "max_of_pages env pq file column t (fst (g ! nat idx)) (snd (g ! nat idx)) m = Inr m1"
      and r: "max_of_groups env pq file column t idx gs m1 = Inr m'"
      using Cons.prems by (auto split: sum.splits)
    show ?thesis using folds_to_append [OF max_of_pages_fold [OF p] Cons.IH [OF r]] False by (simp add: group_values_def)
  qed
qed simp

lemma max_of_files_fold:
  "max_of_files env pq column t files m = Inr m' \<Longrightarrow>
   folds_to env pq t (concat (map (\<lambda>f. case pq_open pq f of Inr pf \<Rightarrow> file_values column pf | Inl _ \<Rightarrow> []) files)) m m'"
proof (induction files arbitrary: m)
  case (Cons f files)
  then obtain pf m1 where o: "pq_open pq f = Inr pf"
    and g: "max_of_groups env pq f column t (find_column column (pq_columns pf)) (pq_row_groups pf) m = Inr m1"
    and r: "max_of_files env pq column t files m1 = Inr m'"
    by (auto simp: Let_def split: sum.splits if_splits)
  show ?case using folds_to_append [OF max_of_groups_fold [OF g] Cons.IH [OF r]] o by (simp add: file_values_def)
qed simp

text \<open>The step keeps the largest.\<close>

definition bounds :: "watermark_type \<Rightarrow> watermark_value set \<Rightarrow> watermark_value option \<Rightarrow> bool" where
  "bounds t vs m \<longleftrightarrow> (case m of None \<Rightarrow> vs = {} | Some x \<Rightarrow> x \<in> vs \<and> watermark_ok t x \<and> (\<forall>v \<in> vs. watermark_le v x))"

lemma max_step_bounds:
  assumes "bounds t vs m" "watermark_ok t p" "\<forall>v \<in> vs. watermark_ok t v"
  shows "bounds t (insert p vs) (max_step m p)"
proof (cases m)
  case None
  then show ?thesis using assms by (simp add: bounds_def max_step_def watermark_le_refl)
next
  case (Some x)
  then have x: "x \<in> vs" "watermark_ok t x" "\<forall>v \<in> vs. watermark_le v x" using assms(1) by (auto simp: bounds_def)
  show ?thesis
  proof (cases "watermark_compare p x > 0")
    case True
    then have "watermark_le x p" using watermark_le_total [OF assms(2) x(2)] by (auto simp: watermark_le_def)
    then have "watermark_le v p" if "v \<in> vs" for v
      using watermark_le_trans [of t v x p] that x assms(2,3) by blast
    then show ?thesis using True Some assms(2) by (simp add: bounds_def max_step_def watermark_le_refl)
  next
    case False
    then show ?thesis using Some x by (simp add: bounds_def max_step_def watermark_le_def)
  qed
qed

lemma fold_bounds:
  assumes "bounds t vs m" "\<forall>v \<in> vs. watermark_ok t v" "\<forall>p \<in> set ps. watermark_ok t p"
  shows "bounds t (vs \<union> set ps) (foldl max_step m ps)"
  using assms
proof (induction ps arbitrary: vs m)
  case (Cons p ps)
  have "bounds t (insert p vs) (max_step m p)" using max_step_bounds Cons.prems by simp
  then show ?case using Cons.IH [of "insert p vs" "max_step m p"] Cons.prems by (simp add: insert_commute Un_commute)
qed simp

lemma parse_parquet_ok: "parse_parquet_value env pq v t = Inr p \<Longrightarrow> watermark_ok t p"
  by (cases t) (auto simp: parse_parquet_value_def dest: parse_watermark_ok)

lemma max_parquet_column_correct:
  assumes "max_parquet_column env pq files column t = Inr m"
  shows "\<exists>ps. map (\<lambda>v. parse_parquet_value env pq v t) (column_values pq column files) = map Inr ps \<and> bounds t (set ps) m \<and>
    (\<forall>p \<in> set ps. watermark_ok t p)"
proof -
  obtain ps where ps: "map (\<lambda>v. parse_parquet_value env pq v t) (column_values pq column files) = map Inr ps"
    and m: "m = foldl max_step None ps"
    using max_of_files_fold [OF assms [unfolded max_parquet_column_def]] by (auto simp: folds_to_def column_values_def)
  have ok: "watermark_ok t p" if "p \<in> set ps" for p
  proof -
    have "Inr p \<in> set (map (\<lambda>v. parse_parquet_value env pq v t) (column_values pq column files))" using ps that by simp
    then obtain v where "parse_parquet_value env pq v t = Inr p" by auto
    then show ?thesis by (rule parse_parquet_ok)
  qed
  have "bounds t {} None" by (simp add: bounds_def)
  from fold_bounds [OF this] ok show ?thesis using ps m by (intro exI [of _ ps]) simp
qed

lemma report_value: "report wm v = Some out \<Longrightarrow> wo_value out = v"
  by (auto simp: report_def)

text \<open>The value reported, when the largest value of the column is \<open>x\<close>: the incoming one if it is larger.\<close>

lemma reported_watermark:
  assumes "bounds (wc_type wm) (set ps) (Some x)" "\<forall>p \<in> set ps. watermark_ok (wc_type wm) p"
    and "final = (case watermark_incoming env wm of Inr (Some inc) \<Rightarrow> if watermark_compare inc x > 0 then inc else x | _ \<Rightarrow> x)"
  shows "(\<forall>p \<in> set ps. watermark_le p final) \<and> (final \<in> set ps \<or> watermark_incoming env wm = Inr (Some final)) \<and>
    (\<forall>inc. watermark_incoming env wm = Inr (Some inc) \<longrightarrow> watermark_le inc final)"
proof (cases "\<exists>inc. watermark_incoming env wm = Inr (Some inc) \<and> watermark_compare inc x > 0")
  case True
  then obtain inc where inc: "watermark_incoming env wm = Inr (Some inc)" "watermark_compare inc x > 0" by blast
  have x: "watermark_ok (wc_type wm) x" "\<forall>p \<in> set ps. watermark_le p x" using assms(1) by (auto simp: bounds_def)
  have "watermark_le x inc" using watermark_le_total [OF x(1) incoming_ok [OF inc(1)]] inc(2) by (auto simp: watermark_le_def)
  then have "\<forall>p \<in> set ps. watermark_le p inc" using watermark_le_trans [OF _ x(1) incoming_ok [OF inc(1)]] assms(2) x(2) by blast
  then show ?thesis using assms(3) inc by (simp add: watermark_le_refl)
next
  case False
  then have "final = x" using assms(3) by (auto split: sum.splits option.splits)
  then show ?thesis using False assms(1) by (auto simp: watermark_le_def bounds_def)
qed


text \<open>A directory with one file whose column holds 3, nothing and 7, read after a run that had reached 5.\<close>

definition sample_pq :: pq_env where
  "sample_pq = \<lparr>pq_open = (\<lambda>f. Inr \<lparr>pq_columns = [(''id'', 0)], pq_row_groups = [[([([PqInt64 3, PqNull, PqInt64 7], None)], None)]]\<rparr>),
     pq_read_dir = (\<lambda>d. Inr [(''a.parquet'', False)]), pq_string = (\<lambda>v. []), pq_bytes = (\<lambda>v. [])\<rparr>"

definition sample_incremental :: pipeline_config where
  "sample_incremental = sample_config\<lparr>pl_database := Some (sample_database\<lparr>ds_watermark :=
     Some \<lparr>wc_column = ''id'', wc_type = WmInteger, wc_value = Some ''5''\<rparr>\<rparr>)\<rparr>"

lemma digit_watermark:
  assumes "is_digit d"
  shows "parse_watermark_value env WmInteger [d] = Inr (zero_watermark WmInteger\<lparr>wv_int := int (digit_val d)\<rparr>)"
proof -
  have t: "trim_space [d] = [d]" using assms by (simp add: trim_space_visible is_digit_visible)
  have s: "d \<noteq> CHR ''-''" "d \<noteq> CHR ''+''" using assms by (auto simp: is_digit_def)
  have v: "dec_val [d] = digit_val d" using dec_val_snoc [of "[]" d] by simp
  have "in_i64 (int (digit_val d))" using digit_val_lt [OF assms] by (simp add: in_i64_def)
  then show ?thesis using assms s by (simp add: parse_watermark_value_def t strconv_parse_int_def v Let_def)
qed

lemma sample_output:
  "resolve_watermark_output sample_wm_env sample_pq (Some sample_incremental) ''out'' 0 2 =
     Inr (Some \<lparr>wo_column = ''id'', wo_type = ''integer'', wo_value = Some ''7''\<rparr>)"
proof -
  have a: "active_watermark sample_incremental = Some (\<lparr>wc_column = ''id'', wc_type = WmInteger, wc_value = Some ''5''\<rparr>, False)"
    by (simp add: active_watermark_def sample_incremental_def sample_config_def)
  have d: "is_digit CHR ''3''" "is_digit CHR ''5''" "is_digit CHR ''7''" by (simp_all add: is_digit_def)
  have f: "format_int 3 = ''3''" "format_int 7 = ''7''" by code_simp+
  have v: "digit_val CHR ''3'' = 3" "digit_val CHR ''5'' = 5" "digit_val CHR ''7'' = 7" by (simp_all add: digit_val_def)
  have p: "parse_parquet_value sample_wm_env sample_pq (PqInt64 3) WmInteger = Inr (zero_watermark WmInteger\<lparr>wv_int := 3\<rparr>)"
    "parse_parquet_value sample_wm_env sample_pq (PqInt64 7) WmInteger = Inr (zero_watermark WmInteger\<lparr>wv_int := 7\<rparr>)"
    by (simp_all add: parse_parquet_value_def f digit_watermark d v)
  have files: "parquet_files ''out'' [(''a.parquet'', False)] = [path_join [''out'', ''a.parquet'']]"
    by (simp add: parquet_files_def has_suffix_def has_prefix_def)
  have m: "max_parquet_column sample_wm_env sample_pq [path_join [''out'', ''a.parquet'']] ''id'' WmInteger =
      Inr (Some (zero_watermark WmInteger\<lparr>wv_int := 7\<rparr>))"
    by (simp add: max_parquet_column_def sample_pq_def [THEN arg_cong, of pq_open] p max_step_def watermark_compare_def
        zero_watermark_def three_way_def)
  have i: "watermark_incoming sample_wm_env \<lparr>wc_column = ''id'', wc_type = WmInteger, wc_value = Some ''5''\<rparr> =
      Inr (Some (zero_watermark WmInteger\<lparr>wv_int := 5\<rparr>))"
    by (simp add: watermark_incoming_def digit_watermark d v trim_space_visible is_digit_visible)
  have rd: "pq_read_dir sample_pq ''out'' = Inr [(''a.parquet'', False)]" by (simp add: sample_pq_def)
  show ?thesis
    by (simp add: resolve_watermark_output_def a rd files m i report_def Let_def watermark_compare_def zero_watermark_def three_way_def
        watermark_string_def f)
qed


end
