(* ===== verification/Execution.thy ===== *)
theory Execution
  imports Composition Watermark_Output
begin

text \<open>
  The end of a run and the program around it: the metrics file written after the pipeline has run
  (\<^verbatim>\<open>cmd/pipeline/metrics_writer.go\<close>), the error file (\<^verbatim>\<open>error_file.go\<close>) and the functions of \<^verbatim>\<open>main.go\<close> and
  \<^verbatim>\<open>worker_init.go\<close> that read the manifest, set up storage and secrets and run the parts in order. The operations of the
  operating system are arguments. The properties relate the counts of the metrics file to the file a sink has published,
  and show where the file is looked for in the wrong directory.
\<close>

section \<open>The metrics file (metrics_writer.go)\<close>

text \<open>What \<^verbatim>\<open>os.Open\<close> gives is the bytes that can be read and the error after them, if it is not the end of the file;
  opening a directory succeeds, and reading it fails at once.\<close>

record metrics_fs =
  mf_mkdir :: "string \<Rightarrow> string option"
  mf_read_dir :: "string \<Rightarrow> (string \<times> bool) list"
  mf_size :: "string \<Rightarrow> int option"
  mf_open :: "string \<Rightarrow> (string \<times> string option) option"
  mf_parquet_rows :: "string \<Rightarrow> int option"
  mf_md5 :: "string \<Rightarrow> string"
  mf_write :: "string \<Rightarrow> string \<Rightarrow> string option"

record output_counts =
  oc_rows :: int
  oc_bytes :: int
  oc_files :: int
  oc_checksum :: string

definition no_counts :: output_counts where
  "no_counts = \<lparr>oc_rows = 0, oc_bytes = 0, oc_files = 0, oc_checksum = []\<rparr>"

definition metrics_out_dir :: "pipeline_config \<Rightarrow> string" where
  "metrics_out_dir cfg =
     (if de_output_path (pl_destination cfg) \<noteq> [] then path_dir (de_output_path (pl_destination cfg))
      else if dl_quarantine_path (pl_dlq cfg) \<noteq> [] then path_dir (dl_quarantine_path (pl_dlq cfg)) else [])"

definition skipped_entry :: "string \<times> bool \<Rightarrow> bool" where
  "skipped_entry e \<longleftrightarrow> snd e \<or> fst e = ''metrics.json'' \<or> fst e = ''dlq.jsonl'' \<or> has_suffix (fst e) ''.jsonl''"

text \<open>The lines of a file that are not blank, read with a \<^verbatim>\<open>bufio.Scanner\<close> of the default size.\<close>

definition default_scan_limit :: nat where "default_scan_limit = 64 * 1024"

definition count_lines :: "string \<Rightarrow> int" where
  "count_lines txt = int (length (filter (\<lambda>l. trim_space l \<noteq> []) (fst (scan_lines default_scan_limit txt))))"

definition data_lines :: "bool \<Rightarrow> int \<Rightarrow> int" where
  "data_lines header n = (if n > 0 \<and> header then n - 1 else n)"

definition entry_rows :: "metrics_fs \<Rightarrow> bool \<Rightarrow> string \<Rightarrow> string \<Rightarrow> int" where
  "entry_rows fs header name path =
     (if has_suffix name ''.parquet'' then
        (if mf_open fs path = None then 0 else (case mf_parquet_rows fs path of Some n \<Rightarrow> n | None \<Rightarrow> 0))
      else if has_suffix name ''.csv'' \<or> has_suffix name ''.txt'' then
        (case mf_open fs path of None \<Rightarrow> 0 | Some (txt, _) \<Rightarrow> data_lines header (count_lines txt))
      else 0)"

definition count_entry :: "metrics_fs \<Rightarrow> string \<Rightarrow> bool \<Rightarrow> output_counts \<Rightarrow> string \<times> bool \<Rightarrow> output_counts" where
  "count_entry fs dir header n e =
     (let path = path_join [dir, fst e] in
      if skipped_entry e then n
      else case mf_size fs path of
          None \<Rightarrow> n
        | Some sz \<Rightarrow>
            \<lparr>oc_rows = i64 (oc_rows n + entry_rows fs header (fst e) path), oc_bytes = i64 (oc_bytes n + sz), oc_files = i64 (oc_files n + 1),
             oc_checksum = (case mf_open fs path of Some (txt, None) \<Rightarrow> mf_md5 fs txt | _ \<Rightarrow> oc_checksum n)\<rparr>)"

definition count_output :: "metrics_fs \<Rightarrow> string \<Rightarrow> bool \<Rightarrow> output_counts" where
  "count_output fs dir header = foldl (count_entry fs dir header) no_counts (mf_read_dir fs dir)"

definition count_dead_letters :: "metrics_fs \<Rightarrow> pipeline_config \<Rightarrow> string \<Rightarrow> int" where
  "count_dead_letters fs cfg dir =
     (let path = (if dl_quarantine_path (pl_dlq cfg) = [] then path_join [dir, ''dlq.jsonl''] else dl_quarantine_path (pl_dlq cfg)) in
      case mf_open fs path of None \<Rightarrow> 0 | Some (txt, _) \<Rightarrow> count_lines txt)"

definition zero_columns :: "string \<Rightarrow> field list \<Rightarrow> int gomap \<Rightarrow> int gomap" where
  "zero_columns prefix fs m = foldl (\<lambda>m f. gm_set m (prefix @ field_name f) 0) m fs"

definition execution_metrics :: "pipeline_config \<Rightarrow> output_counts \<Rightarrow> int \<Rightarrow> watermark_output option \<Rightarrow> pipeline_metrics" where
  "execution_metrics cfg n dlq wm = (new_pipeline_metrics (pl_pipeline_id cfg) (pl_run_id cfg))\<lparr>
     total_records_read := i64 (oc_rows n + dlq), rows_written := oc_rows n, row_count := oc_rows n, dead_letter_count := dlq,
     bytes_written := oc_bytes n, files_written := oc_files n, pm_checksum := oc_checksum n,
     column_null_counts := Some (zero_columns ''null_count_'' (sch_fields (get_schema cfg)) []),
     invalid_value_counts := Some (zero_columns ''invalid_value_count_'' (sch_fields (get_schema cfg)) []), pm_watermark := wm\<rparr>"

text \<open>What the run ends with: the metrics it has written and where, or the error; nothing when there is no directory.\<close>

datatype metrics_error = MetricsDirectory string | MetricsWatermark output_error | MetricsMarshal string | MetricsFile string

definition write_execution_metrics ::
  "wm_env \<Rightarrow> pq_env \<Rightarrow> metrics_fs \<Rightarrow> (pipeline_metrics \<Rightarrow> string + string) \<Rightarrow> pipeline_config \<Rightarrow> metrics_error + (string \<times> pipeline_metrics) option" where
  "write_execution_metrics wenv pq fs marshal cfg =
     (let dir = metrics_out_dir cfg in
      if dir = [] \<or> has_prefix dir ''gs://'' then Inr None
      else case mf_mkdir fs dir of
        Some e \<Rightarrow> Inl (MetricsDirectory e)
      | None \<Rightarrow>
          (let n = count_output fs dir (fo_include_header (de_format_options (pl_destination cfg)));
               dlq = count_dead_letters fs cfg dir
           in case resolve_watermark_output wenv pq (Some cfg) dir (i64 (oc_rows n + dlq)) (oc_rows n) of
                Inl e \<Rightarrow> Inl (MetricsWatermark e)
              | Inr wm \<Rightarrow>
                  (let m = execution_metrics cfg n dlq wm in
                   case marshal m of
                     Inl e \<Rightarrow> Inl (MetricsMarshal e)
                   | Inr bytes \<Rightarrow> (case mf_write fs (path_join [dir, ''metrics.json'']) bytes of
                       Some e \<Rightarrow> Inl (MetricsFile e)
                     | None \<Rightarrow> Inr (Some (path_join [dir, ''metrics.json''], m))))))"

section \<open>The error file (error_file.go)\<close>

text \<open>The file written, if any; failures are only logged.\<close>

definition write_error_file :: "metrics_fs \<Rightarrow> string \<Rightarrow> string option \<Rightarrow> (string \<times> string) option" where
  "write_error_file fs dir err = (case err of
      None \<Rightarrow> None
    | Some e \<Rightarrow>
        if dir = [] \<or> is_gcs dir then None
        else if mf_mkdir fs dir \<noteq> None then None
        else let target = path_join [dir, ''error.txt''] in if mf_write fs target e = None then Some (target, e) else None)"

section \<open>Setting up a run (main.go)\<close>

definition read_manifest_payload :: "(string \<Rightarrow> string + string) \<Rightarrow> string \<Rightarrow> string \<Rightarrow> string \<Rightarrow> string + string" where
  "read_manifest_payload read_file config_path payload payload_path =
     (if config_path \<noteq> [] then read_file config_path
      else if payload \<noteq> [] then Inr payload
      else if payload_path \<noteq> [] then read_file payload_path
      else Inl ''missing required configuration: pass --config, --config_payload, or --config_payload_path'')"

text \<open>The client of the object store is made only when a path of the configuration needs it.\<close>

definition init_storage_resolver :: "'w storage \<Rightarrow> string + 'w storage \<Rightarrow> pipeline_config \<Rightarrow> string + 'w resolver" where
  "init_storage_resolver local_st new_gcs cfg =
     (if requires_gcs cfg then
        (case new_gcs of
           Inl e \<Rightarrow> Inl (''failed initializing required GCS storage: '' @ e)
         | Inr g \<Rightarrow> Inr \<lparr>rs_local = Some local_st, rs_gcs = Some g\<rparr>)
      else Inr \<lparr>rs_local = Some local_st, rs_gcs = None\<rparr>)"

text \<open>The Secret Manager is used only with a project, and a client that cannot be made is only logged; \<open>dial\<close> is its error.\<close>

definition build_secret_resolver :: "secret_env \<Rightarrow> string option \<Rightarrow> secrets_config option \<Rightarrow> secret_resolver" where
  "build_secret_resolver E dial cfg =
     (let openbao = openbao_resolve E (new_openbao_secret_resolver E cfg);
          gcp = (case cfg of
              Some c \<Rightarrow> if sc_gcp_project_id c \<noteq> [] \<and> dial = None
                then Some (gcp_resolve E \<lparr>gr_project = resolve_gcp_project E cfg, gr_connected = True\<rparr>) else None
            | None \<Rightarrow> None);
          provider = (case cfg of Some c \<Rightarrow> sc_provider c | None \<Rightarrow> [])
      in composite_resolve E (new_composite_secret_resolver (Some openbao) gcp provider))"

section \<open>Running (executePipeline and main)\<close>

record ('w, 'k) execution_plan =
  ep_source :: "'k beam_source"
  ep_sink :: "'w beam_sink"
  ep_dlq :: "'w jsonl_sink"
  ep_audit :: "'w jsonl_sink option"
  ep_schema :: schema
  ep_quality :: quality_config
  ep_security :: security_config
  ep_metrics_dir :: string

text \<open>The platform: libraries, services and the operating system, with the runner of Beam as a function of the graph.\<close>

record ('w, 'k) platform =
  pf_go :: go_env
  pf_wm :: wm_env
  pf_http :: http_env
  pf_rest :: rest_env
  pf_secret_env :: secret_env
  pf_dial :: "string option"
  pf_local :: "'w storage"
  pf_new_gcs :: "string + 'w storage"
  pf_listing :: "string \<Rightarrow> string + string list"
  pf_sinks :: "sink_factory gomap"
  pf_databases :: "'k partition_planner connector_factory gomap"
  pf_now :: int
  pf_fs :: metrics_fs
  pf_pq :: pq_env
  pf_marshal :: "pipeline_metrics \<Rightarrow> string + string"
  pf_run :: "string \<Rightarrow> ('w, 'k) execution_plan \<Rightarrow> string option"

datatype execution_error = StorageFailed string | BuildError build_error | RunFailed string | MetricsFailed metrics_error

text \<open>\<^verbatim>\<open>executePipeline\<close>: \<^term>\<open>None\<close> when the construction of the sink does not return.\<close>

definition execute_pipeline ::
  "('w, 'k) platform \<Rightarrow> http_world \<Rightarrow> pipeline_config \<Rightarrow> (http_world \<times> (execution_error + (string \<times> pipeline_metrics) option)) option" where
  "execute_pipeline P w cfg0 =
     (let cfg = config_apply_defaults cfg0 in
      case init_storage_resolver (pf_local P) (pf_new_gcs P) cfg of
        Inl e \<Rightarrow> Some (w, Inl (StorageFailed e))
      | Inr rs \<Rightarrow>
          (let st = Some (resolver_storage (pf_go P) rs); sec = Some (build_secret_resolver (pf_secret_env P) (pf_dial P) (pl_secrets cfg)) in
           case build_destination_sink (pf_go P) (pf_now P) (pf_sinks P) cfg st sec of
             None \<Rightarrow> None
           | Some (Inl e) \<Rightarrow> Some (w, Inl (BuildError e))
           | Some (Inr sink) \<Rightarrow>
               (case build_source_engine (pf_go P) (pf_http P) (pf_rest P) (pf_databases P) (paged_api_registry (pf_now P)) (pf_listing P) w cfg sec of
                  (w', Inl e) \<Rightarrow> Some (w', Inl (BuildError e))
                | (w', Inr source) \<Rightarrow>
                    (case pf_run P (pl_runner cfg) \<lparr>ep_source = source, ep_sink = sink, ep_dlq = build_dlq_sink cfg st, ep_audit = build_audit_sink cfg st,
                         ep_schema = get_schema cfg, ep_quality = pl_quality cfg, ep_security = pl_security cfg,
                         ep_metrics_dir = get_metrics_output_dir cfg\<rparr> of
                       Some e \<Rightarrow> Some (w', Inl (RunFailed (''beam pipeline execution failed: '' @ e)))
                     | None \<Rightarrow> (case write_execution_metrics (pf_wm P) (pf_pq P) (pf_fs P) (pf_marshal P) cfg of
                         Inl e \<Rightarrow> Some (w', Inl (MetricsFailed e))
                       | Inr m \<Rightarrow> Some (w', Inr m))))))"

text \<open>\<^verbatim>\<open>main\<close>: the exit code and the error file. \<open>describe\<close> is the text of an error.\<close>

definition main_program ::
  "('w, 'k) platform \<Rightarrow> (execution_error \<Rightarrow> string) \<Rightarrow> (string \<Rightarrow> string + string) \<Rightarrow> (string \<Rightarrow> string + pipeline_config) \<Rightarrow> string \<times> string \<times> string \<Rightarrow>
   string \<Rightarrow> http_world \<Rightarrow> (int \<times> (string \<times> string) option) option" where
  "main_program P describe read_file parse_json_config flags runner w =
     (case read_manifest_payload read_file (fst flags) (fst (snd flags)) (snd (snd flags)) of
        Inl e \<Rightarrow> Some (1, None)
      | Inr bytes \<Rightarrow>
          (case parse_pipeline_config (pf_go P) (pf_wm P) parse_json_config bytes of
             Inl e \<Rightarrow> Some (1, None)
           | Inr cfg0 \<Rightarrow>
               (let cfg = (if runner \<noteq> [] then cfg0\<lparr>pl_runner := runner\<rparr> else cfg0) in
                case execute_pipeline P w cfg of
                  None \<Rightarrow> None
                | Some (w', Inl e) \<Rightarrow> Some (1, write_error_file (pf_fs P) (get_metrics_output_dir (config_apply_defaults cfg)) (Some (describe e)))
                | Some (w', Inr m) \<Rightarrow> Some (0, None))))"

section \<open>Workers (worker_init.go)\<close>

record 'w worker_providers =
  wp_storage :: "'w resolver"
  wp_decoder :: "source_config \<Rightarrow> stream_decoder option"
  wp_formatter :: "string \<Rightarrow> format_options \<Rightarrow> record_formatter option"

definition ok_or_none :: "'e + 'a \<Rightarrow> 'a option" where
  "ok_or_none r = (case r of Inl _ \<Rightarrow> None | Inr x \<Rightarrow> Some x)"

definition register_worker_providers :: "'w storage \<Rightarrow> string + 'w storage \<Rightarrow> 'w worker_providers" where
  "register_worker_providers local_st new_gcs =
     \<lparr>wp_storage = \<lparr>rs_local = Some local_st, rs_gcs = ok_or_none new_gcs\<rparr>,
      wp_decoder = (\<lambda>s. ok_or_none (pipeline_build_decoder (Some s))),
      wp_formatter = (\<lambda>fmt opts. ok_or_none (build_formatter formatter_registry fmt opts))\<rparr>"

text \<open>\<^verbatim>\<open>workerDBProvider\<close> with the other parts of the configuration it makes at their zero values.\<close>

definition worker_db_provider ::
  "go_env \<Rightarrow> secret_env \<Rightarrow> string option \<Rightarrow> 'r connector_factory gomap \<Rightarrow> pipeline_config \<Rightarrow> database_source_config \<Rightarrow> secrets_config option \<Rightarrow> string + 'r" where
  "worker_db_provider env E dial reg zero db sc =
     build_source env reg (ds_driver db) (zero\<lparr>pl_database := Some db, pl_secrets := sc\<rparr>) (Some (build_secret_resolver E dial sc))"

section \<open>The guard for object stores never holds\<close>

text \<open>A cleaned path has no two slashes in a row, so the directory of a \<^verbatim>\<open>gs://\<close> path begins with \<^verbatim>\<open>gs:/\<close> and is
  taken for a local one.\<close>

lemma split_slash_parts: "c \<in> set (split_slash p) \<Longrightarrow> slash \<notin> set c"
proof (induction p arbitrary: c)
  case Nil
  then show ?case by (simp add: split_slash_def)
next
  case (Cons a p)
  then show ?case using hd_in_set [OF split_slash_nonempty, of p] list.set_sel(2) [OF split_slash_nonempty, of c p]
    by (auto simp: split_slash_Cons split: if_splits)
qed

lemma clean_step_parts:
  assumes "slash \<notin> set c" "list_all (\<lambda>c. c \<noteq> [] \<and> slash \<notin> set c) st"
  shows "list_all (\<lambda>c. c \<noteq> [] \<and> slash \<notin> set c) (clean_step rooted st c)"
  using assms by (cases st) (simp_all add: clean_step_def)

lemma clean_parts:
  assumes "\<forall>c \<in> set cs. slash \<notin> set c" "list_all (\<lambda>c. c \<noteq> [] \<and> slash \<notin> set c) st"
  shows "list_all (\<lambda>c. c \<noteq> [] \<and> slash \<notin> set c) (foldl (clean_step rooted) st cs)"
  using assms
proof (induction cs arbitrary: st)
  case (Cons c cs)
  then show ?case using Cons.IH [OF _ clean_step_parts [of c st rooted]] by simp
qed simp

lemma join_two_slashes:
  assumes "list_all (\<lambda>c. c \<noteq> [] \<and> slash \<notin> set c) comps" "slash \<notin> set pre"
  shows "join [slash] comps \<noteq> pre @ slash # slash # rest"
proof (cases comps)
  case (Cons c cs)
  then have c: "slash \<notin> set c" using assms(1) by simp
  show ?thesis
  proof (cases cs)
    case Nil
    then show ?thesis using Cons c by auto
  next
    case (Cons d ds)
    then obtain x d' where d: "d = x # d'" "x \<noteq> slash" using assms(1) \<open>comps = c # cs\<close> by (cases d) auto
    obtain tail where t: "join [slash] (d # ds) = x # tail" using d by (cases ds) auto
    have "c = pre" if "c @ slash # x # tail = pre @ slash # slash # rest"
      using arg_cong [OF that, of "takeWhile (\<lambda>x. x \<noteq> slash)"] c assms(2) by (auto simp: takeWhile_append split: if_splits)
    then show ?thesis using \<open>comps = c # cs\<close> Cons t d(2) by auto
  qed
qed simp

lemma clean_path_not_gs: "\<not> has_prefix (path_clean p) ''gs://''"
proof
  assume "has_prefix (path_clean p) ''gs://''"
  then obtain rest where r: "path_clean p = ''gs:'' @ slash # slash # rest" by (auto simp: has_prefix_iff)
  let ?rooted = "p \<noteq> [] \<and> hd p = slash"
  let ?comps = "rev (foldl (clean_step ?rooted) [] (split_slash p))"
  have "list_all (\<lambda>c. c \<noteq> [] \<and> slash \<notin> set c) ?comps" using clean_parts [of "split_slash p" "[]" ?rooted] split_slash_parts by simp
  from join_two_slashes [OF this, of "''gs:''" rest] r show False
    by (auto simp: path_clean_def Let_def split: if_splits)
qed

section \<open>The lines of a written file\<close>

lemma trim_left_all:
  "trim_left_seqs qs y = [] \<Longrightarrow> y = [] \<or> (\<exists>q \<in> set qs. \<exists>z. y = z @ q)"
proof (induction qs y rule: trim_left_seqs.induct)
  case (1 qs y)
  show ?case
  proof (cases "first_strip qs y")
    case None
    then show ?thesis using "1.prems" by (simp add: trim_left_seqs.simps [of qs y])
  next
    case (Some r)
    then obtain q where q: "q \<in> set qs" "y = q @ r" using first_strip_Some by blast
    show ?thesis
    proof (cases "length r < length y")
      case True
      then have "trim_left_seqs qs r = []" using "1.prems" Some by (simp add: trim_left_seqs.simps [of qs y])
      from "1.IH" [OF Some True this] q show ?thesis by (metis append.assoc append_Nil append_Nil2)
    qed (use "1.prems" Some in \<open>simp add: trim_left_seqs.simps [of qs y]\<close>)
  qed
qed

text \<open>A text that is not empty and does not begin with a space is not blank.\<close>

lemma not_blank:
  assumes "x \<noteq> []" "first_strip space_seqs x = None"
  shows "trim_space x \<noteq> []"
proof
  have l: "trim_left_seqs space_seqs x = x" using assms(2) by (simp add: trim_left_seqs.simps [of space_seqs x])
  assume "trim_space x = []"
  then have "trim_left_seqs (map rev space_seqs) (rev x) = []" by (simp add: trim_space_def trim_right_seqs_def l)
  from trim_left_all [OF this] assms(1) obtain q z where "q \<in> set space_seqs" "rev x = z @ rev q" by auto
  then have "has_prefix x q" by (metis has_prefix_iff rev_append rev_rev_ident)
  then show False using assms(2) \<open>q \<in> set space_seqs\<close> by (metis first_strip_None)
qed

lemma visible_start: "ascii_visible c \<Longrightarrow> first_strip space_seqs (c # x) = None"
  using space_seqs_not_visible space_seqs_nonempty by (fastforce simp: first_strip_None has_prefix_iff Cons_eq_append_conv)

lemma csv_row_not_blank:
  assumes d: "plain_delim d" and row: "row \<noteq> []" "row \<noteq> [[]]"
  shows "trim_space (join [d] (map (csv_field d) row)) \<noteq> []"
proof -
  obtain f fs where r: "row = f # fs" using row(1) by (cases row) auto
  have vis: "ascii_visible d" "ascii_visible quote" "(of_char d :: nat) < 128" using d by (simp_all add: plain_delim_def ascii_visible_def)
  have line: "join [d] (map (csv_field d) row) = csv_field d f @ (if fs = [] then [] else d # join [d] (map (csv_field d) fs))"
    using r by (cases fs) simp_all
  consider "f = []" "fs \<noteq> []" | "field_needs_quotes d f" | "f \<noteq> []" "\<not> field_needs_quotes d f" using row(2) r by auto
  then have "join [d] (map (csv_field d) row) \<noteq> [] \<and> first_strip space_seqs (join [d] (map (csv_field d) row)) = None"
  proof cases
    case 1
    then show ?thesis using visible_start [OF vis(1)] by (simp add: line csv_field_def field_needs_quotes_def)
  next
    case 2
    then show ?thesis using visible_start [OF vis(2)] by (simp add: line csv_field_def)
  next
    case 3
    then have "first_strip space_seqs f = None" by (simp add: field_needs_quotes_def)
    then show ?thesis using 3 first_strip_append [of f d] vis(3) by (simp add: line csv_field_def)
  qed
  then show ?thesis using not_blank by blast
qed

lemma csv_row_chars:
  assumes "c \<in> set (join [d] (map (csv_field d) row))"
  shows "c = d \<or> c = quote \<or> (\<exists>f \<in> set row. c \<in> set f)"
proof -
  have q: "c \<in> set (csv_field d f) \<Longrightarrow> c = quote \<or> c \<in> set f" for c f by (auto simp: csv_field_def escape_quotes_def split: if_splits)
  show ?thesis using assms
  proof (induction row)
    case (Cons f fs)
    then show ?case using q by (cases fs) auto
  qed simp
qed

lemma scan_lines_written:
  assumes "line_end t" "\<forall>l \<in> set ls. line_feed \<notin> set l \<and> carriage \<notin> set l \<and> Suc (length l) < limit"
  shows "scan_lines limit (concat (map (\<lambda>l. l @ t) ls)) = (ls, None)"
  using assms(2)
proof (induction ls)
  case Nil
  then show ?case by (simp add: scan_lines.simps)
next
  case (Cons l ls)
  let ?rest = "concat (map (\<lambda>l. l @ t) ls)"
  obtain cr where t: "t = cr @ [line_feed]" "cr = [] \<or> cr = [carriage]" using assms(1) by (auto simp: line_end_def)
  have whole: "concat (map (\<lambda>l. l @ t) (l # ls)) = (l @ cr) @ line_feed # ?rest" by (simp add: t(1))
  have no_lf: "\<forall>c \<in> set (l @ cr). c \<noteq> line_feed" using Cons.prems t(2) by auto
  have w: "takeWhile (\<lambda>c. c \<noteq> line_feed) ((l @ cr) @ line_feed # ?rest) = l @ cr" using no_lf by (subst takeWhile_append2) auto
  have "drop_carriage (l @ cr) = l" using t(2) Cons.prems by (cases l rule: rev_cases) (auto simp: drop_carriage_def butlast_append)
  moreover have "length (l @ cr) < limit" using t(2) Cons.prems by auto
  moreover have "drop (Suc (length (l @ cr))) ((l @ cr) @ line_feed # ?rest) = ?rest" by simp
  moreover have "scan_lines limit ?rest = (ls, None)" using Cons by simp
  ultimately show ?case unfolding whole by (subst scan_lines.simps) (simp only: w Let_def append_is_Nil_conv list.distinct simp_thms if_False prod.case, simp)
qed

text \<open>The rows of a file fit: no line breaks, and lines the scanner takes.\<close>

definition one_line :: "char \<Rightarrow> string list \<Rightarrow> bool" where
  "one_line d row \<longleftrightarrow> row_ok row \<and> (\<forall>f \<in> set row. line_feed \<notin> set f) \<and> Suc (length (join [d] (map (csv_field d) row))) < default_scan_limit"

lemma csv_lines_counted:
  assumes "plain_delim d" "line_end t" "\<forall>row \<in> set rows. one_line d row"
  shows "count_lines (concat (map (\<lambda>row. join [d] (map (csv_field d) row) @ t) rows)) = int (length rows)"
proof -
  let ?ls = "map (\<lambda>row. join [d] (map (csv_field d) row)) rows"
  have "\<forall>l \<in> set ?ls. line_feed \<notin> set l \<and> carriage \<notin> set l \<and> Suc (length l) < default_scan_limit"
    using assms(3) csv_row_chars plain_delim_not [OF assms(1)] by (fastforce simp: one_line_def row_ok_def)
  from scan_lines_written [OF assms(2) this] have "fst (scan_lines default_scan_limit (concat (map (\<lambda>row. join [d] (map (csv_field d) row) @ t) rows))) = ?ls"
    by (simp add: comp_def)
  moreover have "filter (\<lambda>l. trim_space l \<noteq> []) ?ls = ?ls"
    using assms(3) csv_row_not_blank [OF assms(1)] by (auto simp: one_line_def row_ok_def)
  ultimately show ?thesis by (simp add: count_lines_def)
qed

text \<open>The file system after a run, as the metrics see it: the files, and a listing of the directories.\<close>

definition disk_after :: "(string \<Rightarrow> string) \<Rightarrow> (string \<Rightarrow> (string \<times> bool) list) \<Rightarrow> (string \<Rightarrow> int option) \<Rightarrow> local_fs \<Rightarrow> metrics_fs" where
  "disk_after digest listing parquet_rows w = \<lparr>mf_mkdir = (\<lambda>_. None), mf_read_dir = listing,
     mf_size = (\<lambda>p. map_option (\<lambda>t. int (length t)) (files w p)), mf_open = (\<lambda>p. map_option (\<lambda>t. (t, None)) (files w p)),
     mf_parquet_rows = parquet_rows, mf_md5 = digest, mf_write = (\<lambda>_ _. None)\<rparr>"

lemma disk_after_ops [simp]:
  "mf_mkdir (disk_after digest listing pr w) q = None" "mf_read_dir (disk_after digest listing pr w) q = listing q"
  "mf_size (disk_after digest listing pr w) q = map_option (\<lambda>t. int (length t)) (files w q)"
  "mf_open (disk_after digest listing pr w) q = map_option (\<lambda>t. (t, None)) (files w q)"
  "mf_md5 (disk_after digest listing pr w) = digest" "mf_write (disk_after digest listing pr w) q b = None"
  by (simp_all add: disk_after_def)

lemma foldl_skipped: "list_all skipped_entry es \<Longrightarrow> foldl (count_entry fs dir header) n es = n"
  by (induction es) (auto simp: count_entry_def Let_def)

lemma count_one_file:
  assumes "mf_read_dir fs dir = before @ (name, False) # after" "list_all skipped_entry (before @ after)" "\<not> skipped_entry (name, False)"
    and "mf_open fs (path_join [dir, name]) = Some (txt, None)" "mf_size fs (path_join [dir, name]) = Some (int (length txt))" "int (length txt) < 2 ^ 63"
    and "in_i64 (entry_rows fs header name (path_join [dir, name]))"
  shows "count_output fs dir header = \<lparr>oc_rows = entry_rows fs header name (path_join [dir, name]), oc_bytes = int (length txt), oc_files = 1, oc_checksum = mf_md5 fs txt\<rparr>"
proof -
  have "i64 (int (length txt)) = int (length txt)" "i64 1 = 1" using assms(6) by (simp_all add: i64_id in_i64_def)
  then show ?thesis using assms foldl_skipped [of before fs dir header no_counts] foldl_skipped [of after fs dir header]
    by (simp add: count_output_def count_entry_def no_counts_def Let_def i64_id)
qed

lemma out_dir_usable:
  assumes "metrics_out_dir cfg \<noteq> []"
  shows "\<not> has_prefix (metrics_out_dir cfg) ''gs://''"
  using assms clean_path_not_gs by (auto simp: metrics_out_dir_def path_dir_def)

lemma csv_entry: "has_suffix name ''.csv'' \<Longrightarrow> \<not> skipped_entry (name, False) \<and> \<not> has_suffix name ''.parquet''"
  by (auto simp: skipped_entry_def has_suffix_def has_prefix_iff)

definition csv_text :: "go_env \<Rightarrow> csv_formatter \<Rightarrow> schema \<Rightarrow> generic_record list \<Rightarrow> string" where
  "csv_text env f sch recs = concat (map (\<lambda>row. join [cf_delimiter f] (map (csv_field (cf_delimiter f)) row) @ cf_line_terminator f)
     (map field_name (sch_fields sch) # map (csv_columns env sch) recs))"

lemma csv_text_chunks:
  assumes "plain_delim (cf_delimiter f)" "cf_include_header f" "sch_fields sch \<noteq> []"
  shows "concat (stream_chunks (sink_formatter env je (CSVFormatter f) sch) recs) = csv_text env f sch recs"
    "\<not> isl (fm_header (sink_formatter env je (CSVFormatter f) sch))"
    "list_all (\<lambda>r. \<not> isl (fm_record (sink_formatter env je (CSVFormatter f) sch) r)) recs"
  using assms
  by (simp_all add: stream_chunks_def sink_formatter_def concat_nonempty csv_text_def csv_format_header_def csv_format_record_def format_row_text
      csv_columns_def comp_def list_all_iff del: filter.simps)

section \<open>Properties\<close>

text \<open>C18. The metrics file agrees with the run: when a bundle of the CSV sink with a header has published its file and this is the
  only file of its directory that is counted, the metrics written afterwards give the number of records of the bundle as the
  rows written, one file, the size of the file and its checksum, provided no value or name has a line break and no line is
  as long as the buffer of the scanner.\<close>

theorem csv_metrics_count_records:
  assumes f: "plain_delim (cf_delimiter f)" "line_end (cf_line_terminator f)" "cf_include_header f"
    and rows: "sch_fields sch \<noteq> []" "one_line (cf_delimiter f) (map field_name (sch_fields sch))"
      "list_all (\<lambda>rec. one_line (cf_delimiter f) (csv_columns env sch rec)) recs" "recs \<noteq> []"
      "int (length recs) < 2 ^ 63" "int (length (csv_text env f sch recs)) < 2 ^ 63"
    and sink: "ss_stager d = Some s" "sg_storage s = Some (local_storage (no_faults u))" "file_name (stager_uri un s)"
      "ss_formatter d = Some (sink_formatter env je (CSVFormatter f) sch)" "ss_compression d \<in> {[], ''none''}" "ss_enc_type d \<in> {[], ''none''}"
    and cfg: "fo_include_header (de_format_options (pl_destination cfg))" "active_watermark cfg = None" "metrics_out_dir cfg \<noteq> []"
      "stager_uri un s = path_join [metrics_out_dir cfg, name]" "has_suffix name ''.csv''"
      "listing (metrics_out_dir cfg) = before @ (name, False) # after" "list_all skipped_entry (before @ after)" "\<not> isl (marshal_result)"
  shows "case run_bundle (stream_start_bundle senv) (stream_process_element senv un) stream_finish_bundle w d recs of (w', d', e) \<Rightarrow>
    e = None \<and> (\<exists>txt m. files w' (stager_uri un s) = Some txt \<and>
      write_execution_metrics wenv pq (disk_after digest listing parquet_rows w') (\<lambda>_. marshal_result) cfg = Inr (Some (path_join [metrics_out_dir cfg, ''metrics.json''], m)) \<and>
      rows_written m = int (length recs) \<and> files_written m = 1 \<and> bytes_written m = int (length txt) \<and> pm_checksum m = digest txt)"
proof -
  obtain w' d' e where run: "run_bundle (stream_start_bundle senv) (stream_process_element senv un) stream_finish_bundle w d recs = (w', d', e)"
    using prod_cases3 by blast
  let ?txt = "csv_text env f sch recs" and ?fs = "disk_after digest listing parquet_rows w'" and ?dir = "metrics_out_dir cfg"
  note chunks = csv_text_chunks [OF f(1,3) rows(1), where env = env and je = je]
  from reliable.stream_bundle_total [OF sink(1,2,4,3) rows(5,4) chunks(2,3) sink(5,6), where env = senv and w = w] run
  have e: "e = None" and written: "files w' (path_join [?dir, name]) = Some ?txt" by (auto simp: published_def chunks(1) cfg(4))
  have "\<forall>row \<in> set (map field_name (sch_fields sch) # map (csv_columns env sch) recs). one_line (cf_delimiter f) row"
    using rows(2,3) by (auto simp: list_all_iff)
  from csv_lines_counted [OF f(1,2) this] have n: "count_lines ?txt = int (length recs) + 1" by (simp add: csv_text_def)
  have er: "entry_rows ?fs True name (path_join [?dir, name]) = int (length recs)"
    using written n csv_entry [OF cfg(5)] cfg(5) by (simp add: entry_rows_def data_lines_def)
  have "count_output ?fs ?dir True = \<lparr>oc_rows = int (length recs), oc_bytes = int (length ?txt), oc_files = 1, oc_checksum = digest ?txt\<rparr>"
    using count_one_file [of ?fs ?dir before name after ?txt True] cfg(6,7) csv_entry [OF cfg(5)] written rows(5,6) er
    by (simp add: in_i64_def)
  then have "\<exists>m. write_execution_metrics wenv pq ?fs (\<lambda>_. marshal_result) cfg = Inr (Some (path_join [?dir, ''metrics.json''], m)) \<and>
      rows_written m = int (length recs) \<and> files_written m = 1 \<and> bytes_written m = int (length ?txt) \<and> pm_checksum m = digest ?txt"
    using cfg(1,2,3,8) out_dir_usable [OF cfg(3)]
    by (cases marshal_result) (auto simp: write_execution_metrics_def Let_def resolve_watermark_output_def execution_metrics_def)
  then show ?thesis using run e written by (auto simp: cfg(4))
qed

text \<open>The example: two records of one text each written to \<^verbatim>\<open>/out/output.csv\<close>.\<close>

definition one_text :: "string \<Rightarrow> generic_record" where
  "one_text t = \<lparr>schema_id = [], vals = [zero_value\<lparr>fv_type := TypeString, str_val := t\<rparr>], audit_fields = []\<rparr>"

definition plain_workers :: "(local_fs, unit, generic_record) sink_env" where
  "plain_workers = \<lparr>storage_factory = None, formatter_provider = None, compressor_provider = None, encryptor_provider = None\<rparr>"

definition comma_formatter :: csv_formatter where
  "comma_formatter = \<lparr>cf_delimiter = CHR '','', cf_include_header = True, cf_line_terminator = [line_feed]\<rparr>"

definition comma_sink :: "(local_fs, unit, generic_record) stream_sink" where
  "comma_sink = \<lparr>ss_output_dir = ''/out'', ss_format = ''csv'', ss_compression = ''none'', ss_enc_type = [], ss_single_file = True,
     ss_stager = Some (sample_stager (no_faults (\<lambda>_. 0))),
     ss_formatter = Some (sink_formatter sample_env \<lparr>json_quote = id, json_bytes = id\<rparr> (CSVFormatter comma_formatter) id_schema), ss_stream = None\<rparr>"

lemma one_text_value: "csv_value sample_env (one_text t) 0 = t"
  by (simp add: csv_value_def one_text_def rec_get_def fv_string_def zero_value_def)

lemma one_text_columns: "csv_columns sample_env id_schema (one_text t) = [t]"
  by (simp add: csv_columns_def one_text_value id_schema_def)

theorem csv_metrics_count_records_witness:
  "case run_bundle (stream_start_bundle plain_workers) (stream_process_element plain_workers (''u'', 0)) stream_finish_bundle
      \<lparr>files = Map.empty, steps = 0\<rparr> comma_sink [one_text ''a'', one_text ''b''] of (w', d', e) \<Rightarrow>
    e = None \<and> (\<exists>txt m. files w' ''/out/output.csv'' = Some txt \<and>
      write_execution_metrics sample_wm_env sample_pq (disk_after id (\<lambda>_. [(''output.csv'', False), (''quarantine'', True)]) (\<lambda>_. None) w') (\<lambda>_. Inr [])
        (file_config ''file'' ''csv'') = Inr (Some (''/out/metrics.json'', m)) \<and>
      rows_written m = 2 \<and> files_written m = 1 \<and> bytes_written m = int (length txt) \<and> pm_checksum m = txt)"
proof -
  have f: "plain_delim (cf_delimiter comma_formatter)" "line_end (cf_line_terminator comma_formatter)" "cf_include_header comma_formatter"
    by (simp_all add: comma_formatter_def plain_delim_def ascii_visible_def line_end_def)
  have simple: "csv_field (CHR '','') t = t" if "t \<in> {''a'', ''b'', ''id''}" for t
    using that visible_start by (auto simp: csv_field_def field_needs_quotes_def plain_delim_bytes plain_delim_def ascii_visible_def has_prefix_def)
  have rows: "sch_fields id_schema \<noteq> []" "one_line (cf_delimiter comma_formatter) (map field_name (sch_fields id_schema))"
    "list_all (\<lambda>rec. one_line (cf_delimiter comma_formatter) (csv_columns sample_env id_schema rec)) [one_text ''a'', one_text ''b'']"
    "int (length (csv_text sample_env comma_formatter id_schema [one_text ''a'', one_text ''b''])) < 2 ^ 63"
    by (simp_all add: one_line_def row_ok_def one_text_columns simple comma_formatter_def default_scan_limit_def csv_text_def) (simp_all add: id_schema_def simple)
  have sink: "ss_stager comma_sink = Some (sample_stager (no_faults (\<lambda>_. 0)))" "ss_compression comma_sink = ''none''" "ss_enc_type comma_sink = []"
    "ss_formatter comma_sink = Some (sink_formatter sample_env \<lparr>json_quote = id, json_bytes = id\<rparr> (CSVFormatter comma_formatter) id_schema)"
    by (simp_all add: comma_sink_def)
  have dir: "metrics_out_dir (file_config ''file'' ''csv'') = ''/out''"
    by (simp add: metrics_out_dir_def file_config_def) code_simp
  have paths: "path_join [''/out'', ''output.csv''] = ''/out/output.csv''" "path_join [''/out'', ''metrics.json''] = ''/out/metrics.json''" by code_simp+
  have cfg: "fo_include_header (de_format_options (pl_destination (file_config ''file'' ''csv'')))" "active_watermark (file_config ''file'' ''csv'') = None"
    by (simp_all add: file_config_def active_watermark_def sample_config_def zero_source_def zero_destination_def)
  show ?thesis
    using csv_metrics_count_records [where un = "(''u'', 0)" and name = "''output.csv''" and before = "[]" and after = "[(''quarantine'', True)]"
        and listing = "\<lambda>_. [(''output.csv'', False), (''quarantine'', True)]" and marshal_result = "Inr []" and senv = plain_workers
        and w = "\<lparr>files = Map.empty, steps = 0\<rparr>" and digest = id and cfg = "file_config ''file'' ''csv''" and parquet_rows = "\<lambda>_. None"
        and wenv = sample_wm_env and pq = sample_pq, OF f rows(1-3) _ _ rows(4) sink(1) sample_sink_parts(2) _ sink(4) _ _ cfg]
    by (simp add: sink dir paths sample_sink_parts(6,7) skipped_entry_def has_suffix_def has_prefix_def)
qed

text \<open>For an output path that is a directory, written without a slash at its end, the sinks publish their files below it, but
  the metrics are taken from the directory above: whatever the run has published, if that directory has no other files, the
  metrics file is written there with no rows and no files, and the watermark of an incremental run is reported as it came
  in, so the next run starts from the same place again.\<close>

lemma directory_output_watermark_stuck:
  assumes "de_output_path (pl_destination cfg) = p" "p \<noteq> []" "trim_right_set {slash} p = p" "path_ext p = []"
    and "active_watermark cfg = Some (wm, False)" "list_all skipped_entry (mf_read_dir fs (path_dir p))"
    and "mf_mkdir fs (path_dir p) = None" "marshal (execution_metrics cfg no_counts (count_dead_letters fs cfg (path_dir p)) (report wm (incoming_text wm))) = Inr bytes"
      "mf_write fs (path_join [path_dir p, ''metrics.json'']) bytes = None"
  shows "(\<exists>rest. build_output_uri uuid now p ''parquet'' compression encryption single = p @ slash # rest) \<and>
    (\<exists>m. write_execution_metrics wenv pq fs marshal cfg = Inr (Some (path_join [path_dir p, ''metrics.json''], m)) \<and>
      rows_written m = 0 \<and> files_written m = 0 \<and> pm_watermark m = report wm (incoming_text wm))"
proof
  show "\<exists>rest. build_output_uri uuid now p ''parquet'' compression encryption single = p @ slash # rest"
    using assms(3,4) by (simp add: build_output_uri_def Let_def)
  have dir: "metrics_out_dir cfg = path_dir p" using assms(1,2) by (simp add: metrics_out_dir_def)
  have counts: "count_output fs (path_dir p) header = no_counts" for header using foldl_skipped [OF assms(6)] by (simp add: count_output_def)
  have "resolve_watermark_output wenv pq (Some cfg) (path_dir p) total 0 = Inr (report wm (incoming_text wm))" for total
    using assms(5) by (simp add: resolve_watermark_output_def)
  then show "\<exists>m. write_execution_metrics wenv pq fs marshal cfg = Inr (Some (path_join [path_dir p, ''metrics.json''], m)) \<and>
      rows_written m = 0 \<and> files_written m = 0 \<and> pm_watermark m = report wm (incoming_text wm)"
    using assms(7-9) path_dir_nonempty [of p] out_dir_usable [of cfg] by (simp add: write_execution_metrics_def dir counts Let_def)
      (simp add: execution_metrics_def no_counts_def)
qed

end
