(* ===== verification/Byte_Stream.thy ===== *)
theory Byte_Stream
  imports Trackers
begin

text \<open>
  Reading a file in parallel byte ranges: \<^verbatim>\<open>internal/beam/streams/byte_stream_sdf.go\<close>. A restriction is
  split into chunks; the worker of a chunk that does not start at offset 0 discards one record first, then
  claims and reads records until the next one starts outside its range. The runner may split the tracker
  between two records: \<open>sched\<close> holds the split attempts made before each claim. The file content and whether
  its reader can seek are arguments; cancellation and failures of the storage are not modelled.
\<close>

section \<open>Configuration and restrictions\<close>

record stream_config =
  src_compression :: string
  src_chunk_size_bytes :: int
  src_quote_char :: string
  src_multiline :: bool

definition create_initial_restriction :: "string + int \<Rightarrow> string + range" where
  "create_initial_restriction sz = (case sz of Inl e \<Rightarrow> Inl e | Inr n \<Rightarrow> Inr (0, n))"

text \<open>The loop of \<^verbatim>\<open>SplitRestriction\<close>. Its arithmetic wraps, so it is written as a function that may fail to
  return.\<close>

partial_function (option) split_loop :: "int \<Rightarrow> int \<Rightarrow> int \<Rightarrow> range list option" where
  "split_loop chunk stop start =
     (if start < stop then
        let e = i64 (start + chunk); e' = (if e > stop then stop else e) in
        Option.bind (split_loop chunk stop (i64 (start + chunk))) (\<lambda>rs. Some ((start, e') # rs))
      else Some [])"

definition split_restriction :: "stream_config \<Rightarrow> range \<Rightarrow> range list option" where
  "split_restriction cfg r =
     (let comp = to_lower (trim_space (src_compression cfg)) in
      if comp \<noteq> [] \<and> comp \<noteq> ''none'' then Some [r]
      else let chunk = (if src_chunk_size_bytes cfg \<le> 0 then 64 * 1024 * 1024 else src_chunk_size_bytes cfg) in
        if i64 (snd r - fst r) \<le> chunk then Some [r] else split_loop chunk (snd r) (fst r))"

definition restriction_size :: "range \<Rightarrow> int" where
  "restriction_size r = (if snd r < fst r then 0 else i64 (snd r - fst r))"

section \<open>Records of a stream (readRecordBytes)\<close>

text \<open>\<^verbatim>\<open>bufio.Reader.ReadBytes('\n')\<close>: the line with its newline, what follows, and whether it met the end.\<close>

definition read_line :: "string \<Rightarrow> string \<times> string \<times> bool" where
  "read_line bs = (let pre = takeWhile (\<lambda>b. b \<noteq> newline) bs in
     if length pre = length bs then (bs, [], True) else (pre @ [newline], drop (Suc (length pre)) bs, False))"

fun scan_quotes :: "char \<Rightarrow> bool \<Rightarrow> char option \<Rightarrow> string \<Rightarrow> bool" where
  "scan_quotes q inq prev [] = inq"
| "scan_quotes q inq prev (b # bs) =
     (if b = q then
        if inq \<and> bs \<noteq> [] \<and> hd bs = q then scan_quotes q inq (Some (hd bs)) (tl bs)
        else if prev = Some backslash then scan_quotes q inq (Some b) bs
        else scan_quotes q (\<not> inq) (Some b) bs
      else scan_quotes q inq (Some b) bs)"

lemma read_line_append: "read_line bs = (line, rest, eof) \<Longrightarrow> line @ rest = bs"
proof -
  assume r: "read_line bs = (line, rest, eof)"
  let ?pre = "takeWhile (\<lambda>b. b \<noteq> newline) bs"
  show ?thesis
  proof (cases "length ?pre = length bs")
    case True
    then show ?thesis using r by (auto simp: read_line_def Let_def)
  next
    case False
    then have "length ?pre < length bs" using length_takeWhile_le le_neq_implies_less by blast
    then have "drop (length ?pre) bs = newline # drop (Suc (length ?pre)) bs"
      using nth_length_takeWhile [of "\<lambda>b. b \<noteq> newline" bs] by (simp flip: Cons_nth_drop_Suc)
    then have "?pre @ newline # drop (Suc (length ?pre)) bs = bs"
      by (metis append_take_drop_id takeWhile_eq_take)
    then show ?thesis using r False by (auto simp: read_line_def Let_def)
  qed
qed

lemma read_line_less: "(line, rest, eof) = read_line bs \<Longrightarrow> line \<noteq> [] \<Longrightarrow> length rest < length bs"
  using read_line_append [of bs line rest eof] by auto

function read_multi :: "char \<Rightarrow> bool \<Rightarrow> string \<Rightarrow> string \<Rightarrow> string \<times> string \<times> bool" where
  "read_multi q inq full bs =
     (case read_line bs of (line, rest, eof) \<Rightarrow>
        if line \<noteq> [] then
          let inq' = scan_quotes q inq None line in
          if \<not> inq' \<or> eof then (full @ line, rest, eof) else read_multi q inq' (full @ line) rest
        else (full, rest, eof))"
  by auto
termination
  by (relation "measure (\<lambda>(q, inq, full, bs). length bs)") (auto dest: read_line_less)

declare read_multi.simps [simp del]

definition read_record_bytes :: "char \<Rightarrow> bool \<Rightarrow> string \<Rightarrow> string \<times> string \<times> bool" where
  "read_record_bytes q0 multi bs =
     (if \<not> multi then read_line bs else read_multi (if q0 = CHR 0x00 then CHR 0x22 else q0) False [] bs)"

lemma read_multi_append: "read_multi q inq full bs = (line, rest, eof) \<Longrightarrow> line @ rest = full @ bs"
proof (induction q inq full bs arbitrary: line rest eof rule: read_multi.induct)
  case (1 q inq full bs)
  obtain l r e where rl: "read_line bs = (l, r, e)" by (metis prod.exhaust)
  note app = read_line_append [OF rl]
  show ?case
  proof (cases "l = [] \<or> \<not> scan_quotes q inq None l \<or> e")
    case True
    then show ?thesis using "1.prems" rl app by (auto simp: read_multi.simps [of q inq full bs] Let_def split: if_splits)
  next
    case False
    then have "read_multi q (scan_quotes q inq None l) (full @ l) r = (line, rest, eof)"
      using "1.prems" rl by (simp add: read_multi.simps [of q inq full bs] Let_def)
    then show ?thesis using "1.IH" [OF rl [symmetric]] False app by auto
  qed
qed

lemma read_record_append: "read_record_bytes q multi bs = (line, rest, eof) \<Longrightarrow> line @ rest = bs"
  unfolding read_record_bytes_def by (auto split: if_splits dest: read_line_append read_multi_append)

lemma read_record_less:
  "(line, rest, eof) = read_record_bytes q multi bs \<Longrightarrow> line \<noteq> [] \<Longrightarrow> length rest < length bs"
  using read_record_append [of q multi bs line rest eof] by auto

lemma read_line_eof: "read_line bs = (line, rest, eof) \<Longrightarrow> (line = [] \<longrightarrow> bs = []) \<and> (eof \<longrightarrow> rest = [])"
  by (auto simp: read_line_def Let_def split: if_splits)

lemma read_multi_eof:
  "read_multi q inq full bs = (line, rest, eof) \<Longrightarrow>
    \<exists>s. line = full @ s \<and> (s = [] \<longrightarrow> bs = []) \<and> (eof \<longrightarrow> rest = [])"
proof (induction q inq full bs arbitrary: line rest eof rule: read_multi.induct)
  case (1 q inq full bs)
  obtain l r e where rl: "read_line bs = (l, r, e)" by (metis prod.exhaust)
  note eof = read_line_eof [OF rl]
  show ?case
  proof (cases "l = [] \<or> \<not> scan_quotes q inq None l \<or> e")
    case True
    then show ?thesis using "1.prems" rl eof by (auto simp: read_multi.simps [of q inq full bs] Let_def split: if_splits)
  next
    case False
    then have "read_multi q (scan_quotes q inq None l) (full @ l) r = (line, rest, eof)"
      using "1.prems" rl by (simp add: read_multi.simps [of q inq full bs] Let_def)
    then show ?thesis using "1.IH" [OF rl [symmetric]] False by fastforce
  qed
qed

lemma read_record_eof:
  "read_record_bytes q multi bs = (line, rest, eof) \<Longrightarrow> (line = [] \<longrightarrow> bs = []) \<and> (eof \<longrightarrow> rest = [])"
  unfolding read_record_bytes_def by (auto split: if_splits dest: read_line_eof read_multi_eof)

section \<open>The worker of a range (ProcessElement)\<close>

definition attempt_splits :: "fraction list \<Rightarrow> range_tracker \<Rightarrow> range_tracker" where
  "attempt_splits fs t = foldl (\<lambda>t f. fst (bo_try_split t f)) t fs"

function feed :: "char \<Rightarrow> bool \<Rightarrow> int \<Rightarrow> range_tracker \<Rightarrow> int \<Rightarrow> string \<Rightarrow> fraction list list \<Rightarrow>
  range_tracker \<times> string list" where
  "feed q multi stop t pos bs sched =
     (if pos \<ge> stop then (t, [])
      else case bo_claim_offset (attempt_splits (case sched of [] \<Rightarrow> [] | fs # _ \<Rightarrow> fs) t) pos of (t1, ok) \<Rightarrow>
        if \<not> ok then (t1, [])
        else case read_record_bytes q multi bs of (line, rest, eof) \<Rightarrow>
          if line = [] then (t1, [])
          else if eof then (t1, [line])
          else case feed q multi stop t1 (i64 (pos + int (length line))) rest (tl sched) of (t2, ls) \<Rightarrow> (t2, line # ls))"
  by auto
termination
  by (relation "measure (\<lambda>(q, multi, stop, t, pos, bs, sched). length bs)")
    (auto dest: read_record_less)

declare feed.simps [simp del]

datatype stream_error = SeekFailed | DiscardFailed

definition process_range ::
  "stream_config \<Rightarrow> bool \<Rightarrow> string \<Rightarrow> range_tracker \<Rightarrow> fraction list list \<Rightarrow> range_tracker \<times> (stream_error + string list)" where
  "process_range cfg seekable file t sched =
     (let (s, e) = bo_get_restriction t;
          q = (if src_quote_char cfg = [] then CHR 0x22 else hd (src_quote_char cfg));
          multi = src_multiline cfg in
      if seekable \<and> s < 0 then (bo_mark_done t, Inl SeekFailed)
      else if \<not> seekable \<and> s > int (length file) then (bo_mark_done t, Inl DiscardFailed)
      else let bs = drop (nat s) file in
        if s > 0 then
          case read_record_bytes q multi bs of (line, rest, eof) \<Rightarrow>
            let pos = i64 (s + int (length line)) in
            if pos \<ge> e then (bo_mark_done t, Inr [])
            else case feed q multi e t pos rest sched of (t', ls) \<Rightarrow> (bo_mark_done t', Inr ls)
        else case feed q multi e t s bs sched of (t', ls) \<Rightarrow> (bo_mark_done t', Inr ls))"

section \<open>Records with their offsets\<close>

function records_at :: "char \<Rightarrow> bool \<Rightarrow> int \<Rightarrow> string \<Rightarrow> (int \<times> string) list" where
  "records_at q multi pos bs = (case read_record_bytes q multi bs of (line, rest, eof) \<Rightarrow>
     if line = [] then [] else (pos, line) # records_at q multi (pos + int (length line)) rest)"
  by auto
termination
  by (relation "measure (\<lambda>(q, multi, pos, bs). length bs)") (auto dest: read_record_less)

declare records_at.simps [simp del]

lemma read_record_Nil: "read_record_bytes q multi [] = ([], [], True)"
  by (simp add: read_record_bytes_def read_line_def read_multi.simps)

lemma records_at_Nil [simp]: "records_at q multi pos [] = []"
  by (simp add: records_at.simps read_record_Nil)

lemma records_at_Cons:
  assumes "read_record_bytes q multi bs = (line, rest, eof)" "line \<noteq> []"
  shows "records_at q multi pos bs = (pos, line) # records_at q multi (pos + int (length line)) rest"
  using assms by (simp add: records_at.simps [of q multi pos bs])

lemma records_induct [case_names Nil Record]:
  assumes "\<And>pos. P pos []"
    and "\<And>pos bs line rest eof. read_record_bytes q multi bs = (line, rest, eof) \<Longrightarrow> line \<noteq> [] \<Longrightarrow> bs = line @ rest \<Longrightarrow>
      P (pos + int (length line)) rest \<Longrightarrow> P pos bs"
  shows "P pos bs"
proof (induction "length bs" arbitrary: pos bs rule: less_induct)
  case less
  obtain line rest eof where rd: "read_record_bytes q multi bs = (line, rest, eof)" by (metis prod.exhaust)
  show ?case
  proof (cases "line = []")
    case True
    then have "bs = []" using read_record_eof [OF rd] by simp
    then show ?thesis using assms(1) by simp
  next
    case False
    moreover have "length rest < length bs" using rd [symmetric] False by (rule read_record_less)
    ultimately show ?thesis using assms(2) [OF rd False] read_record_append [OF rd] less by simp
  qed
qed

lemma records_at_bounds: "r \<in> set (records_at q multi pos bs) \<Longrightarrow> pos \<le> fst r \<and> fst r < pos + int (length bs)"
proof (induction pos bs rule: records_induct [of _ q multi])
  case (Record pos bs line rest eof)
  then show ?case using records_at_Cons [OF Record(1,2), of pos] by (cases line; cases "r = (pos, line)") auto
qed simp

lemma records_at_sorted: "sorted_wrt (\<lambda>x y. fst x < fst y) (records_at q multi pos bs)"
proof (induction pos bs rule: records_induct [of _ q multi])
  case (Record pos bs line rest eof)
  have "pos < fst y" if "y \<in> set (records_at q multi (pos + int (length line)) rest)" for y
  proof -
    have "0 < int (length line)" using Record(2) by simp
    then show ?thesis using records_at_bounds [OF that] by linarith
  qed
  then show ?case using Record(4) unfolding records_at_Cons [OF Record(1,2)] by simp
qed simp

lemma records_at_concat: "concat (map snd (records_at q multi pos bs)) = bs"
proof (induction pos bs rule: records_induct [of _ q multi])
  case (Record pos bs line rest eof)
  then show ?case using records_at_Cons [OF Record(1,2), of pos] by simp
qed simp

section \<open>What a worker reads\<close>

definition quiet :: "range_tracker \<Rightarrow> range_tracker \<Rightarrow> bool" where
  "quiet t t' \<longleftrightarrow> tracker_inv t' \<and> stopped t' = stopped t \<and> rest_start t' = rest_start t \<and>
     rest_end t' \<le> rest_end t \<and> claimed t' = claimed t"

lemma bo_try_split_quiet: "tracker_inv t \<Longrightarrow> quiet t (fst (bo_try_split t f))"
  by (auto simp: quiet_def bo_try_split_def tracker_inv_def Let_def)

lemma attempt_splits_quiet: "tracker_inv t \<Longrightarrow> quiet t (attempt_splits fs t)"
proof (induction fs arbitrary: t)
  case (Cons f fs)
  have q: "quiet t (fst (bo_try_split t f))" using Cons.prems by (rule bo_try_split_quiet)
  then have "quiet (fst (bo_try_split t f)) (attempt_splits fs (fst (bo_try_split t f)))"
    by (intro Cons.IH) (simp add: quiet_def)
  then show ?case using q by (auto simp: quiet_def attempt_splits_def)
qed (simp add: attempt_splits_def quiet_def)

lemma no_records_from: "stop \<le> pos \<Longrightarrow> filter (\<lambda>r. fst r < stop) (records_at q multi pos bs) = []"
  by (force simp: filter_empty_conv dest: records_at_bounds)

text \<open>A claim after some splits: refused at or behind the end of what is left, or the new position of the tracker.\<close>

lemma claim_after_splits:
  assumes "tracker_inv t" "\<not> stopped t" "rest_end t \<le> stop" "rest_start t \<le> pos" "claimed t < pos"
    and "bo_claim_offset (attempt_splits fs t) pos = (t1, ok)"
  shows "rest_end t1 \<le> rest_end t \<and> claimed t \<le> claimed t1 \<and> claimed t1 < rest_end t1"
    "\<not> ok \<Longrightarrow> rest_end t1 \<le> pos"
    "ok \<Longrightarrow> tracker_inv t1 \<and> \<not> stopped t1 \<and> rest_end t1 \<le> stop \<and> rest_start t1 \<le> pos \<and> claimed t1 = pos"
  using attempt_splits_quiet [OF assms(1), of fs] assms
  by (auto simp: bo_claim_offset_def quiet_def tracker_inv_def split: if_splits)

lemma feed_reads:
  assumes "tracker_inv t" "\<not> stopped t" "rest_end t \<le> stop" "rest_start t \<le> pos" "claimed t < pos"
    "0 \<le> pos" "pos + int (length bs) < 2 ^ 63" "feed q multi stop t pos bs sched = (t', ls)"
  shows "ls = map snd (filter (\<lambda>r. fst r < rest_end t') (records_at q multi pos bs)) \<and>
    rest_end t' \<le> rest_end t \<and> claimed t \<le> claimed t' \<and> claimed t' < rest_end t'"
  using assms
proof (induction q multi stop t pos bs sched arbitrary: t' ls rule: feed.induct)
  case (1 q multi stop t pos bs sched)
  obtain t1 ok where cl: "bo_claim_offset (attempt_splits (case sched of [] \<Rightarrow> [] | fs # _ \<Rightarrow> fs) t) pos = (t1, ok)" by fastforce
  obtain line rest eof where rd: "read_record_bytes q multi bs = (line, rest, eof)" by (metis prod.exhaust)
  note fd = "1.prems"(8) and claim = claim_after_splits [OF "1.prems"(1-5) cl]
  show ?case
  proof (cases "stop \<le> pos \<or> \<not> ok")
    case True
    then show ?thesis using fd claim(1,2) "1.prems"(1,3) cl
      by (auto simp: feed.simps [of q multi stop t] no_records_from tracker_inv_def split: if_splits)
  next
    case False
    then have running: "\<not> stop \<le> pos" and ok: "ok" by simp_all
    note inv = claim(3) [OF ok]
    show ?thesis
    proof (cases "line = [] \<or> eof")
      case True
      have "eof \<longrightarrow> rest = []" "line = [] \<longrightarrow> bs = []" using read_record_eof [OF rd] by auto
      then show ?thesis using fd running cl ok rd True claim(1) inv records_at_Cons [OF rd, of pos]
        by (cases "line = []") (auto simp: feed.simps [of q multi stop t])
    next
      case False
      then have nl: "line \<noteq> []" and nf: "\<not> eof" by simp_all
      have len: "length bs = length line + length rest" using read_record_append [OF rd] by auto
      have pos: "i64 (pos + int (length line)) = pos + int (length line)" using "1.prems"(6,7) len by (intro i64_id in_i64I) auto
      obtain ls2 where rec: "feed q multi stop t1 (pos + int (length line)) rest (tl sched) = (t', ls2)" and ls: "ls = line # ls2"
        using fd running cl ok rd nl nf pos by (auto simp: feed.simps [of q multi stop t] split: prod.splits)
      have "ls2 = map snd (filter (\<lambda>r. fst r < rest_end t') (records_at q multi (pos + int (length line)) rest)) \<and>
          rest_end t' \<le> rest_end t1 \<and> claimed t1 \<le> claimed t' \<and> claimed t' < rest_end t'"
        using "1.IH" [OF running cl [symmetric] _ rd [symmetric] refl nl, unfolded pos] rec inv "1.prems"(6,7) len ok nf nl by simp
      then show ?thesis using records_at_Cons [OF rd nl, of pos] ls claim(1) inv "1.prems"(5) by auto
    qed
  qed
qed

lemma takeWhile_upto: "\<forall>b \<in> set xs. b \<noteq> c \<Longrightarrow> takeWhile (\<lambda>b. b \<noteq> c) (xs @ c # ys) = xs"
  by (induction xs) auto

lemma read_line_drop:
  assumes "read_line bs = (line, rest, eof)" "k < length line"
  shows "read_line (drop k bs) = (drop k line, rest, eof)"
proof -
  let ?pre = "takeWhile (\<lambda>b. b \<noteq> newline) bs"
  show ?thesis
  proof (cases "length ?pre = length bs")
    case True
    then have "?pre = bs" by (metis append_eq_conv_conj append_Nil2 takeWhile_dropWhile_id)
    then have "\<forall>b \<in> set bs. b \<noteq> newline" by (simp add: takeWhile_eq_all_conv)
    then have "takeWhile (\<lambda>b. b \<noteq> newline) (drop k bs) = drop k bs"
      by (auto simp: takeWhile_eq_all_conv dest: in_set_dropD)
    then have "read_line (drop k bs) = (drop k bs, [], True)" unfolding read_line_def Let_def
      by (simp only: simp_thms if_True)
    moreover have "line = bs" "rest = []" "eof" using True assms(1) by (auto simp: read_line_def Let_def)
    ultimately show ?thesis by simp
  next
    case False
    then have l: "line = ?pre @ [newline]" "rest = drop (Suc (length ?pre)) bs" "\<not> eof"
      using assms(1) by (auto simp: read_line_def Let_def)
    then have bs: "bs = ?pre @ newline # rest" using read_line_append [OF assms(1)] by simp
    have k: "k \<le> length ?pre" using assms(2) l(1) by simp
    have d: "drop k bs = drop k ?pre @ newline # rest" using k by (subst bs) simp
    have "\<forall>b \<in> set (drop k ?pre). b \<noteq> newline"
    proof
      fix b assume "b \<in> set (drop k ?pre)"
      then have "b \<in> set ?pre" by (rule in_set_dropD)
      then show "b \<noteq> newline" by (rule set_takeWhileD [THEN conjunct2])
    qed
    then have "takeWhile (\<lambda>b. b \<noteq> newline) (drop k ?pre @ newline # rest) = drop k ?pre"
      by (rule takeWhile_upto)
    then have tw: "takeWhile (\<lambda>b. b \<noteq> newline) (drop k bs) = drop k ?pre"
      by (simp only: d)
    have len: "length (drop k ?pre) \<noteq> length (drop k bs)" unfolding d by simp
    have rest: "drop (Suc (length (drop k ?pre))) (drop k bs) = rest" unfolding d by simp
    have line: "drop k ?pre @ [newline] = drop k line" unfolding l(1) using k by simp
    show ?thesis unfolding read_line_def tw Let_def rest line using len l(3) by (simp only: if_False)
  qed
qed

text \<open>Discarding one line from a position inside the stream leaves the records that start after it.\<close>

lemma discard_line:
  assumes "0 < k" "k \<le> length bs" "read_line (drop k bs) = (line, rest, eof)"
  shows "records_at q False (pos + int k + int (length line)) rest =
    filter (\<lambda>r. pos + int k < fst r) (records_at q False pos bs)"
  using assms
proof (induction pos bs arbitrary: k rule: records_induct [of _ q False])
  case (Record pos bs l r e)
  have rl: "read_line bs = (l, r, e)" using Record(1) by (simp add: read_record_bytes_def)
  note recs = records_at_Cons [OF Record(1,2), of pos]
  show ?case
  proof (cases "k < length l")
    case True
    then have "line = drop k l" "rest = r" using read_line_drop [OF rl True] Record.prems(3) by auto
    moreover have "filter (\<lambda>r. pos + int k < fst r) (records_at q False (pos + int (length l)) r) =
        records_at q False (pos + int (length l)) r"
      using True by (intro filter_True) (auto dest!: records_at_bounds)
    ultimately show ?thesis using True recs by (simp add: of_nat_diff)
  next
    case False
    let ?k = "k - length l"
    have d: "drop k bs = drop ?k r" using False Record(3) by simp
    have k: "int k = int (length l) + int ?k" using False by simp
    show ?thesis
    proof (cases "?k = 0")
      case True
      then have kl: "k = length l" using False by simp
      show ?thesis
      proof (cases "r = []")
        case True
        then have "line = []" "rest = []" using Record.prems(3) d by (simp_all add: read_line_def)
        then show ?thesis using recs True kl by simp
      next
        case r: False
        have rr: "read_record_bytes q False r = (line, rest, eof)"
          using Record.prems(3) d True by (simp add: read_record_bytes_def)
        then have ne: "line \<noteq> []" using read_record_eof r by fastforce
        then obtain c cs where "line = c # cs" by (cases line) auto
        then have "filter (\<lambda>r. pos + int k < fst r) (records_at q False (pos + int k + int (length line)) rest) =
            records_at q False (pos + int k + int (length line)) rest"
          by (intro filter_True) (auto dest!: records_at_bounds)
        then show ?thesis using recs records_at_Cons [OF rr ne, of "pos + int k"] kl by simp
      qed
    next
      case pos: False
      have kr: "?k \<le> length r" using Record.prems(2) Record(3) by simp
      have rr: "read_line (drop ?k r) = (line, rest, eof)" using Record.prems(3) unfolding d .
      have "0 < ?k" using pos by simp
      from Record(4) [OF this kr rr] have "records_at q False (pos + int (length l) + int ?k + int (length line)) rest =
          filter (\<lambda>x. pos + int (length l) + int ?k < fst x) (records_at q False (pos + int (length l)) r)" .
      moreover have "pos + int (length l) + int ?k = pos + int k" unfolding k by (rule add.assoc)
      moreover have "\<not> pos + int k < fst (pos, l)" by simp
      ultimately show ?thesis unfolding recs filter.simps by (simp only: if_False)
    qed
  qed
qed simp

definition quote_of :: "stream_config \<Rightarrow> char" where
  "quote_of cfg = (if src_quote_char cfg = [] then CHR 0x22 else hd (src_quote_char cfg))"

lemma process_range_reads:
  assumes "valid_range (s, e)" "s \<le> int (length file)" "length file < 2 ^ 63" "\<not> src_multiline cfg \<or> s = 0"
    "process_range cfg seekable file (new_byte_offset_tracker (s, e)) sched = (t', res)"
  shows "res = Inr (map snd (filter (\<lambda>r. (s = 0 \<or> s < fst r) \<and> fst r < rest_end t')
      (records_at (quote_of cfg) (src_multiline cfg) 0 file))) \<and> rest_end t' \<le> e"
proof -
  let ?t = "new_byte_offset_tracker (s, e)" and ?q = "quote_of cfg"
  have t: "tracker_inv ?t" "\<not> stopped ?t" "rest_start ?t = s" "rest_end ?t = e" "claimed ?t < s"
    using bo.start_ok [OF assms(1)]
    by (simp_all add: new_byte_offset_tracker_def tracker_of_def bo_get_restriction_def)
  have se: "0 \<le> s" "s \<le> e" using assms(1) by (simp_all add: valid_range_def)
  have pr: "process_range cfg seekable file ?t sched =
      (if s > 0 then
          case read_record_bytes ?q (src_multiline cfg) (drop (nat s) file) of (line, rest, eof) \<Rightarrow>
            if i64 (s + int (length line)) \<ge> e then (bo_mark_done ?t, Inr [])
            else case feed ?q (src_multiline cfg) e ?t (i64 (s + int (length line))) rest sched of (t', ls) \<Rightarrow> (bo_mark_done t', Inr ls)
        else case feed ?q (src_multiline cfg) e ?t s (drop (nat s) file) sched of (t', ls) \<Rightarrow> (bo_mark_done t', Inr ls))"
    using se assms(2) t unfolding process_range_def quote_of_def bo_get_restriction_def by (simp add: Let_def)
  show ?thesis
  proof (cases "s > 0")
    case False
    then have s: "s = 0" using se by simp
    obtain t2 ls where fd: "feed ?q (src_multiline cfg) e ?t s file sched = (t2, ls)" by fastforce
    have "ls = map snd (filter (\<lambda>r. fst r < rest_end t2) (records_at ?q (src_multiline cfg) s file)) \<and> rest_end t2 \<le> e"
      using feed_reads [OF t(1,2) _ _ _ _ _ fd] t s assms(3) by simp
    moreover have "t' = bo_mark_done t2" "res = Inr ls" using assms(5) pr fd s by simp_all
    ultimately show ?thesis using s by (simp add: bo_mark_done_def)
  next
    case True
    then have multi: "\<not> src_multiline cfg" using assms(4) by simp
    define k where "k = nat s"
    have k: "0 < k" "k \<le> length file" "int k = s" using True assms(2) by (simp_all add: k_def)
    obtain line rest eof where rl: "read_line (drop k file) = (line, rest, eof)" by (metis prod.exhaust)
    have len: "length file = k + length line + length rest"
      using read_line_append [OF rl] k(2) by (metis add.assoc append_take_drop_id length_append length_take min.absorb2)
    have pos: "i64 (s + int (length line)) = s + int (length line)"
      using assms(3) len k(3) se by (intro i64_id in_i64I) auto
    note recs = discard_line [OF k(1,2) rl, where pos = 0 and q = ?q, unfolded k(3)]
    have rb: "read_record_bytes ?q (src_multiline cfg) (drop (nat s) file) = (line, rest, eof)"
      using rl multi by (simp add: read_record_bytes_def k_def)
    show ?thesis
    proof (cases "s + int (length line) \<ge> e")
      case fin: True
      then have "t' = bo_mark_done ?t" "res = Inr []" using assms(5) pr rb True pos by simp_all
      moreover have "filter (\<lambda>r. s < fst r \<and> fst r < e) (records_at ?q False 0 file) = []"
        using no_records_from [OF fin, of ?q False rest] recs by (simp add: conj_commute)
      ultimately show ?thesis using t True multi by (simp add: bo_mark_done_def)
    next
      case False
      obtain t2 ls where fd: "feed ?q (src_multiline cfg) e ?t (s + int (length line)) rest sched = (t2, ls)" by fastforce
      have "ls = map snd (filter (\<lambda>r. fst r < rest_end t2) (records_at ?q False (s + int (length line)) rest)) \<and> rest_end t2 \<le> e"
        using feed_reads [OF t(1,2) _ _ _ _ _ fd] t se assms(3) len k(3) multi by simp
      moreover have "t' = bo_mark_done t2" "res = Inr ls" using assms(5) pr rb fd True pos False by simp_all
      ultimately show ?thesis using recs True multi by (simp add: bo_mark_done_def conj_commute)
    qed
  qed
qed

section \<open>Splitting into chunks\<close>

text \<open>Consecutive ranges from \<open>lo\<close> to \<open>hi\<close>.\<close>

fun tiles :: "int \<Rightarrow> range list \<Rightarrow> int \<Rightarrow> bool" where
  "tiles lo [] hi \<longleftrightarrow> lo = hi"
| "tiles lo ((a, b) # cs) hi \<longleftrightarrow> a = lo \<and> a < b \<and> tiles b cs hi"

lemma tiles_le: "tiles lo cs hi \<Longrightarrow> lo \<le> hi"
  by (induction lo cs hi rule: tiles.induct) auto

lemma tiles_valid: "tiles lo cs hi \<Longrightarrow> 0 \<le> lo \<Longrightarrow> hi < 2 ^ 63 \<Longrightarrow> r \<in> set cs \<Longrightarrow> valid_range r \<and> snd r \<le> hi \<and> lo \<le> fst r"
proof (induction lo cs hi rule: tiles.induct)
  case (2 lo a b cs hi)
  then show ?case using tiles_le [of b cs hi] by (auto simp: valid_range_def)
qed simp

lemma tiles_starts: "tiles lo cs hi \<Longrightarrow> r \<in> set cs \<Longrightarrow> lo \<le> fst r"
  by (induction lo cs hi rule: tiles.induct) force+

lemma feed_no_splits: "feed q multi stop t pos bs [] = (t', ls) \<Longrightarrow> rest_end t' = rest_end t"
proof (induction "length bs" arbitrary: t pos bs t' ls rule: less_induct)
  case less
  obtain t1 ok where cl: "bo_claim_offset t pos = (t1, ok)" by fastforce
  obtain line rest eof where rd: "read_record_bytes q multi bs = (line, rest, eof)" by (metis prod.exhaust)
  have t1: "rest_end t1 = rest_end t" using cl by (auto simp: bo_claim_offset_def split: if_splits)
  show ?case
  proof (cases "stop \<le> pos \<or> \<not> ok \<or> line = [] \<or> eof")
    case True
    then show ?thesis using less.prems cl rd t1
      by (auto simp: feed.simps [of q multi stop t] attempt_splits_def split: if_splits)
  next
    case False
    then obtain ls2 where rec: "feed q multi stop t1 (i64 (pos + int (length line))) rest [] = (t', ls2)"
      using less.prems cl rd by (auto simp: feed.simps [of q multi stop t] attempt_splits_def split: prod.splits)
    have "length rest < length bs" using rd [symmetric] False by (intro read_record_less) auto
    from less.hyps [OF this rec] t1 show ?thesis by simp
  qed
qed

lemma process_range_no_splits:
  assumes "process_range cfg seekable file t [] = (t', res)" shows "rest_end t' = rest_end t"
  using assms
  by (auto simp: process_range_def bo_get_restriction_def bo_mark_done_def Let_def split: prod.splits if_splits
      dest!: feed_no_splits)

lemma split_loop_tiles:
  assumes "0 < chunk" "chunk \<le> 2 ^ 62" "stop \<le> 2 ^ 62" "0 \<le> start"
  shows "\<exists>cs. split_loop chunk stop start = Some cs \<and> (start \<le> stop \<longrightarrow> tiles start cs stop)"
  using assms(4)
proof (induction "nat (stop - start)" arbitrary: start rule: less_induct)
  case less
  show ?case
  proof (cases "start < stop")
    case True
    have w: "i64 (start + chunk) = start + chunk"
      using True assms less.prems by (intro i64_id in_i64I) auto
    have "nat (stop - (start + chunk)) < nat (stop - start)" using True assms(1) by simp
    from less.hyps [OF this] obtain cs where cs: "split_loop chunk stop (start + chunk) = Some cs"
      "start + chunk \<le> stop \<longrightarrow> tiles (start + chunk) cs stop" using assms(1) less.prems by auto
    show ?thesis
    proof (cases "start + chunk \<le> stop")
      case le: True
      then show ?thesis using True cs w assms(1)
        by (subst split_loop.simps) (simp add: Let_def)
    next
      case False
      then have "cs = []" using cs(1) by (subst (asm) split_loop.simps) simp
      then show ?thesis using True cs w False
        by (subst split_loop.simps) (simp add: Let_def)
    qed
  next
    case False
    then show ?thesis by (subst split_loop.simps) simp
  qed
qed

lemma split_restriction_tiles:
  assumes "src_chunk_size_bytes cfg \<le> 2 ^ 62" "0 \<le> lo" "lo < hi" "hi \<le> 2 ^ 62"
  shows "\<exists>cs. split_restriction cfg (lo, hi) = Some cs \<and> tiles lo cs hi"
proof -
  have single: "\<exists>cs. Some [(lo, hi)] = Some cs \<and> tiles lo cs hi" using assms(3) by simp
  have default: "\<exists>cs. split_loop 67108864 hi lo = Some cs \<and> tiles lo cs hi"
    using split_loop_tiles [of 67108864 hi lo] assms by simp
  have chunk: "\<exists>cs. split_loop (src_chunk_size_bytes cfg) hi lo = Some cs \<and> tiles lo cs hi"
    if "0 < src_chunk_size_bytes cfg" using split_loop_tiles [OF that, of hi lo] assms by simp
  show ?thesis
    unfolding split_restriction_def Let_def fst_conv snd_conv
    using single default chunk by (simp split: if_split) 
qed

lemma filter_at:
  assumes "sorted_wrt (\<lambda>x y. fst x < fst y) (L :: (int \<times> 'a) list)"
  shows "filter (\<lambda>x. Q x \<and> fst x < b) L @ filter (\<lambda>x. Q x \<and> b \<le> fst x) L = filter Q L"
  using assms
proof (induction L)
  case (Cons x L)
  show ?case
  proof (cases "fst x < b")
    case False
    then have "filter (\<lambda>x. Q x \<and> fst x < b) L = []" "filter (\<lambda>x. Q x \<and> b \<le> fst x) L = filter Q L"
      using Cons.prems by (auto simp: filter_empty_conv intro!: filter_cong)
    then show ?thesis using False by auto
  qed (use Cons in auto)
qed simp

text \<open>The records that the workers of consecutive chunks read, in order: all but those that start exactly
  where a chunk after the first starts.\<close>

lemma filter_tiles:
  assumes "sorted_wrt (\<lambda>x y. fst x < fst y) (L :: (int \<times> 'a) list)" "tiles lo cs hi" "0 \<le> lo"
    "\<forall>x \<in> set L. 0 \<le> fst x \<and> fst x < hi"
  shows "concat (map (\<lambda>(a, b). filter (\<lambda>x. (a = 0 \<or> a < fst x) \<and> fst x < b) L) cs) =
    filter (\<lambda>x. lo \<le> fst x \<and> (fst x = 0 \<or> fst x \<notin> fst ` set cs)) L"
  using assms
proof (induction lo cs hi rule: tiles.induct)
  case (1 lo hi)
  then have "filter (\<lambda>x. hi \<le> fst x) L = []" by (fastforce simp: filter_empty_conv)
  with 1 show ?case by simp
next
  case (2 lo a b cs hi)
  have t: "tiles b cs hi" "lo < b" "0 \<le> b" and a: "a = lo" using "2.prems" by auto
  let ?Q = "\<lambda>x. lo \<le> fst x \<and> (fst x = 0 \<or> fst x \<notin> fst ` set ((a, b) # cs))"
  have starts: "c \<in> fst ` set cs \<Longrightarrow> b \<le> c" for c
    using tiles_starts [OF t(1)] by auto
  have "filter (\<lambda>x. (a = 0 \<or> a < fst x) \<and> fst x < b) L = filter (\<lambda>x. ?Q x \<and> fst x < b) L"
    using "2.prems"(3,4) a starts by (intro filter_cong) (auto simp: image_iff, force+)
  moreover have "filter (\<lambda>x. b \<le> fst x \<and> (fst x = 0 \<or> fst x \<notin> fst ` set cs)) L = filter (\<lambda>x. ?Q x \<and> b \<le> fst x) L"
    using t a "2.prems"(3) by (intro filter_cong) auto
  ultimately show ?case using "2.IH" [OF "2.prems"(1) t(1,3) "2.prems"(4)] filter_at [OF "2.prems"(1), of ?Q b]
    by (simp only: list.map concat.simps prod.case)
qed


section \<open>Properties\<close>

text \<open>C7. What the worker of a byte range reads, however the runner splits its tracker meanwhile: from a
  tracker for \<open>[s, e)\<close> it feeds the decoder exactly the records of the file that start below the end the
  tracker has left, and, unless \<open>s\<close> is 0, strictly after \<open>s\<close>; each once and in order. With \<open>s = 0\<close> this
  holds with quoted newlines too.\<close>

theorem worker_reads_range:
  assumes "valid_range (s, e)" "s \<le> int (length file)" "length file < 2 ^ 63" "\<not> src_multiline cfg \<or> s = 0"
    "process_range cfg seekable file (new_byte_offset_tracker (s, e)) sched = (t', res)"
  shows "res = Inr (map snd (filter (\<lambda>r. (s = 0 \<or> s < fst r) \<and> fst r < rest_end t')
      (records_at (quote_of cfg) (src_multiline cfg) 0 file))) \<and> rest_end t' \<le> e"
  using assms by (rule process_range_reads)

definition line_config :: "int \<Rightarrow> stream_config" where
  "line_config chunk = \<lparr>src_compression = [], src_chunk_size_bytes = chunk, src_quote_char = [], src_multiline = False\<rparr>"

definition two_lines :: string where
  "two_lines = [CHR ''a'', newline, CHR ''b'', newline]"

lemma records_two_lines: "records_at q False 0 two_lines = [(0, [CHR ''a'', newline]), (2, [CHR ''b'', newline])]"
  by (simp add: two_lines_def records_at.simps read_record_bytes_def read_line_def newline_def)

theorem worker_reads_range_witness:
  "\<exists>t'. process_range (line_config 0) True two_lines (new_byte_offset_tracker (1, 4)) [[]] = (t', Inr [[CHR ''b'', newline]])"
proof -
  obtain t' res where pr: "process_range (line_config 0) True two_lines (new_byte_offset_tracker (1, 4)) [[]] = (t', res)"
    by fastforce
  have "t' = bo_mark_done (fst (feed (CHR 0x22) False 4 (new_byte_offset_tracker (1, 4)) 2 [CHR ''b'', newline] [[]]))"
    using pr by (auto simp: process_range_def line_config_def two_lines_def bo_get_restriction_def new_byte_offset_tracker_def
        tracker_of_def read_record_bytes_def read_line_def newline_def i64_def split: prod.splits)
  moreover have "rest_end (fst (feed (CHR 0x22) False 4 (new_byte_offset_tracker (1, 4)) 2 [CHR ''b'', newline] [[]])) = 4"
    by (simp add: feed.simps attempt_splits_def bo_claim_offset_def new_byte_offset_tracker_def tracker_of_def
        read_record_bytes_def read_line_def newline_def i64_def)
  ultimately have "rest_end t' = 4" by (simp add: bo_mark_done_def)
  moreover have "res = Inr (map snd (filter (\<lambda>r. (1 = (0::int) \<or> 1 < fst r) \<and> fst r < rest_end t')
      (records_at (quote_of (line_config 0)) (src_multiline (line_config 0)) 0 two_lines))) \<and> rest_end t' \<le> 4"
    using pr by (intro worker_reads_range [where sched = "[[]]" and seekable = True])
      (simp_all add: valid_range_def two_lines_def line_config_def)
  ultimately show ?thesis using pr by (simp add: records_two_lines line_config_def)
qed

text \<open>C8. Reading a whole uncompressed file of lines in parallel chunks: \<^verbatim>\<open>SplitRestriction\<close> returns (its loop
  ends) consecutive chunks from 0 to the file size, and the workers of the chunks together read, each once
  and in order, exactly the lines that do not start at the first byte of a chunk after the first one. A line
  that starts exactly at a chunk boundary is read by no worker.\<close>

theorem chunked_read_drops_boundary_lines:
  assumes "file \<noteq> []" "\<not> src_multiline cfg" "src_chunk_size_bytes cfg \<le> 2 ^ 62" "length file \<le> 2 ^ 62"
  shows "\<exists>cs. split_restriction cfg (0, int (length file)) = Some cs \<and> tiles 0 cs (int (length file)) \<and>
    concat (map (\<lambda>c. projr (snd (process_range cfg seekable file (new_byte_offset_tracker c) []))) cs) =
      map snd (filter (\<lambda>r. fst r = 0 \<or> fst r \<notin> fst ` set cs) (records_at (quote_of cfg) False 0 file)) \<and>
    concat (map snd (records_at (quote_of cfg) False 0 file)) = file"
proof -
  let ?L = "records_at (quote_of cfg) False 0 file" and ?n = "int (length file)"
  have sorted: "sorted_wrt (\<lambda>x y. fst x < fst y) ?L" by (rule records_at_sorted)
  have bounds: "0 \<le> fst x \<and> fst x < ?n" if "x \<in> set ?L" for x using records_at_bounds [OF that] by simp
  obtain cs where cs: "split_restriction cfg (0, ?n) = Some cs" "tiles 0 cs ?n"
    using split_restriction_tiles [of cfg 0 ?n] assms by auto
  have worker: "projr (snd (process_range cfg seekable file (new_byte_offset_tracker c) [])) =
      map snd ((\<lambda>(a, b). filter (\<lambda>x. (a = 0 \<or> a < fst x) \<and> fst x < b) ?L) c)" if "c \<in> set cs" for c
  proof -
    obtain a b where c: "c = (a, b)" by fastforce
    have v: "valid_range (a, b)" "b \<le> ?n" using tiles_valid [OF cs(2) _ _ that] assms(4) c by auto
    obtain t' res where pr: "process_range cfg seekable file (new_byte_offset_tracker (a, b)) [] = (t', res)" by fastforce
    have "rest_end t' = b"
      using process_range_no_splits [OF pr] by (simp add: new_byte_offset_tracker_def tracker_of_def)
    moreover have "a \<le> ?n" using v by (simp add: valid_range_def)
    ultimately show ?thesis
      using process_range_reads [OF v(1) _ _ _ pr] assms c pr by simp
  qed
  have "concat (map (\<lambda>c. projr (snd (process_range cfg seekable file (new_byte_offset_tracker c) []))) cs) =
      map snd (concat (map (\<lambda>(a, b). filter (\<lambda>x. (a = 0 \<or> a < fst x) \<and> fst x < b) ?L) cs))"
    by (simp add: map_concat worker cong: map_cong)
  also have "\<dots> = map snd (filter (\<lambda>x. 0 \<le> fst x \<and> (fst x = 0 \<or> fst x \<notin> fst ` set cs)) ?L)"
    using filter_tiles [OF sorted cs(2)] bounds by simp
  also have "\<dots> = map snd (filter (\<lambda>r. fst r = 0 \<or> fst r \<notin> fst ` set cs) ?L)"
    using bounds by (intro arg_cong [of _ _ "map snd"] filter_cong) auto
  finally show ?thesis using cs records_at_concat by blast
qed


text \<open>The boundary case in the smallest file: two lines of two bytes and chunks of two bytes.\<close>

theorem chunked_read_drops_boundary_lines_witness:
  "\<exists>cs. split_restriction (line_config 2) (0, 4) = Some cs \<and>
    concat (map (\<lambda>c. projr (snd (process_range (line_config 2) True two_lines (new_byte_offset_tracker c) []))) cs) =
      map snd (filter (\<lambda>r. fst r = 0 \<or> fst r \<notin> fst ` set cs) [(0, [CHR ''a'', newline]), (2, [CHR ''b'', newline])])"
proof -
  have n: "int (length two_lines) = 4" by (simp add: two_lines_def)
  have "two_lines \<noteq> []" "\<not> src_multiline (line_config 2)" "src_chunk_size_bytes (line_config 2) \<le> 2 ^ 62"
    "length two_lines \<le> 2 ^ 62" by (simp_all add: line_config_def two_lines_def)
  from chunked_read_drops_boundary_lines [OF this, of True, unfolded n records_two_lines] show ?thesis by blast
qed

text \<open>Data loss at chunk boundaries: a file of the two lines \<^verbatim>\<open>a\<close> and \<^verbatim>\<open>b\<close>, read in chunks of two bytes,
  yields the first line only; the chunks cover the file and every worker ends without an error.\<close>

lemma chunk_boundary_line_lost:
  "split_restriction (line_config 2) (0, 4) = Some [(0, 2), (2, 4)] \<and>
   snd (process_range (line_config 2) True two_lines (new_byte_offset_tracker (0, 2)) []) = Inr [[CHR ''a'', newline]] \<and>
   snd (process_range (line_config 2) True two_lines (new_byte_offset_tracker (2, 4)) []) = Inr []"
proof (intro conjI)
  show "split_restriction (line_config 2) (0, 4) = Some [(0, 2), (2, 4)]"
    by (simp add: split_restriction_def line_config_def to_lower_def i64_def Let_def)
      (simp add: split_loop.simps i64_def Let_def)
  note defs = process_range_def line_config_def two_lines_def bo_get_restriction_def new_byte_offset_tracker_def
    tracker_of_def read_record_bytes_def read_line_def newline_def i64_def feed.simps attempt_splits_def
    bo_claim_offset_def Let_def
  show "snd (process_range (line_config 2) True two_lines (new_byte_offset_tracker (0, 2)) []) = Inr [[CHR ''a'', newline]]"
    by (simp add: defs)
  show "snd (process_range (line_config 2) True two_lines (new_byte_offset_tracker (2, 4)) []) = Inr []"
    by (simp add: defs)
qed

end
