(* ===== verification/Workers.thy ===== *)
theory Workers
  imports Execution Byte_Stream Partitions
begin

text \<open>
  What runs on a worker. A DoFn reaches a worker with its exported fields only; its storage, decoder, formatter or reader
  is rebuilt from the providers registered at start (\<^verbatim>\<open>reader_provider.go\<close> of the source packages, \<^verbatim>\<open>storage_provider.go\<close>,
  \<^verbatim>\<open>cmd/pipeline/worker_init.go\<close>). Here are the whole \<^verbatim>\<open>ByteStreamSourceSDF\<close>, from opening the file to the records it emits,
  the lifecycles of the two slice sources, and the file sink after serialisation. The properties compare a worker
  with the process that submitted the run.
\<close>

section \<open>Providers (reader_provider.go)\<close>

text \<open>A \<^verbatim>\<open>ports.StorageReader\<close>; a stream is the bytes it delivers.\<close>

record 'w storage_reader =
  rd_open :: "'w \<Rightarrow> string \<Rightarrow> 'w \<times> (string + string)"
  rd_size :: "'w \<Rightarrow> string \<Rightarrow> 'w \<times> (string + int)"

type_synonym stream_wrapper = "string \<Rightarrow> source_config \<Rightarrow> string + string"

record 'w reader_providers =
  storage_reader_provider :: "(string \<Rightarrow> 'w storage_reader option) option"
  stream_wrapper_provider :: "(source_config \<Rightarrow> stream_wrapper option) option"
  stream_decoder_provider :: "(source_config \<Rightarrow> stream_decoder option) option"

definition no_providers :: "'w reader_providers" where
  "no_providers = \<lparr>storage_reader_provider = None, stream_wrapper_provider = None, stream_decoder_provider = None\<rparr>"

definition set_storage_reader_provider :: "(string \<Rightarrow> 'w storage_reader option) option \<Rightarrow> 'w reader_providers \<Rightarrow> 'w reader_providers" where
  "set_storage_reader_provider p G = G\<lparr>storage_reader_provider := p\<rparr>"

definition set_stream_wrapper_provider :: "(source_config \<Rightarrow> stream_wrapper option) option \<Rightarrow> 'w reader_providers \<Rightarrow> 'w reader_providers" where
  "set_stream_wrapper_provider p G = G\<lparr>stream_wrapper_provider := p\<rparr>"

definition set_stream_decoder_provider :: "(source_config \<Rightarrow> stream_decoder option) option \<Rightarrow> 'w reader_providers \<Rightarrow> 'w reader_providers" where
  "set_stream_decoder_provider p G = G\<lparr>stream_decoder_provider := p\<rparr>"

text \<open>What \<^verbatim>\<open>registerWorkerStorageProviders\<close> and \<^verbatim>\<open>registerWorkerStreamProviders\<close> set for the source. The builder they make has no
  decryptor.\<close>

definition worker_readers :: "go_env \<Rightarrow> (string, 'l) codec_lib \<Rightarrow> 'w storage_reader \<Rightarrow> 'w reader_providers" where
  "worker_readers env lib rd =
     set_stream_decoder_provider (Some (\<lambda>cfg. ok_or_none (pipeline_build_decoder (Some cfg))))
      (set_stream_wrapper_provider (Some (\<lambda>_. Some (wrap_stream env lib None)))
        (set_storage_reader_provider (Some (\<lambda>_. Some rd)) no_providers))"

section \<open>ByteStreamSourceSDF (byte_stream_sdf.go)\<close>

record 'w byte_stream_sdf =
  sdf_cfg :: source_config
  sdf_reader :: "'w storage_reader option"
  sdf_wrapper :: "stream_wrapper option"
  sdf_decoder :: "stream_decoder option"

definition new_byte_stream_source_sdf :: "'w storage_reader option \<Rightarrow> stream_wrapper option \<Rightarrow> stream_decoder option \<Rightarrow> source_config \<Rightarrow> 'w byte_stream_sdf" where
  "new_byte_stream_source_sdf rd wr dec cfg = \<lparr>sdf_cfg = cfg, sdf_reader = rd, sdf_wrapper = wr, sdf_decoder = dec\<rparr>"

text \<open>\<^verbatim>\<open>x == nil && provider != nil\<close>, as all the lazy fields are filled.\<close>

definition provided :: "'a option \<Rightarrow> ('k \<Rightarrow> 'a option) option \<Rightarrow> 'k \<Rightarrow> 'a option" where
  "provided x p k = (case (x, p) of (None, Some f) \<Rightarrow> f k | _ \<Rightarrow> x)"

definition ensure_reader :: "'w reader_providers \<Rightarrow> string \<Rightarrow> 'w byte_stream_sdf \<Rightarrow> 'w byte_stream_sdf \<times> string option" where
  "ensure_reader G uri fn = (let fn' = fn\<lparr>sdf_reader := provided (sdf_reader fn) (storage_reader_provider G) uri\<rparr> in
     (fn', if sdf_reader fn' = None then Some ''storage reader is not initialized'' else None))"

definition ensure_decoder_and_wrapper :: "'w reader_providers \<Rightarrow> 'w byte_stream_sdf \<Rightarrow> 'w byte_stream_sdf \<times> string option" where
  "ensure_decoder_and_wrapper G fn =
     (let fn1 = fn\<lparr>sdf_decoder := provided (sdf_decoder fn) (stream_decoder_provider G) (sdf_cfg fn)\<rparr> in
      if sdf_decoder fn1 = None then (fn1, Some ''stream decoder is not initialized'')
      else (fn1\<lparr>sdf_wrapper := provided (sdf_wrapper fn1) (stream_wrapper_provider G) (sdf_cfg fn1)\<rparr>, None))"

definition sdf_create_initial_restriction :: "go_env \<Rightarrow> 'w reader_providers \<Rightarrow> 'w \<Rightarrow> 'w byte_stream_sdf \<Rightarrow> string \<Rightarrow> 'w \<times> 'w byte_stream_sdf \<times> (string + range)" where
  "sdf_create_initial_restriction env G w fn uri = (case ensure_reader G uri fn of
      (fn1, Some e) \<Rightarrow> (w, fn1, Inl e)
    | (fn1, None) \<Rightarrow> (case rd_size (the (sdf_reader fn1)) w uri of
        (w1, Inl e) \<Rightarrow> (w1, fn1, Inl (''failed getting size for initial restriction on '' @ go_quote env uri @ '': '' @ e))
      | (w1, Inr n) \<Rightarrow> (w1, fn1, create_initial_restriction (Inr n))))"

text \<open>The part of the configuration the reading of lines depends on.\<close>

definition stream_config_of :: "source_config \<Rightarrow> stream_config" where
  "stream_config_of c = \<lparr>src_compression = so_compression c, src_chunk_size_bytes = so_chunk_size_bytes c, src_quote_char = so_quote_char c,
     src_multiline = so_multiline c\<rparr>"

text \<open>The first record of a range after the first is discarded; when it reaches the end of the range, no decoder is started.\<close>

definition nothing_after_boundary :: "stream_config \<Rightarrow> string \<Rightarrow> range_tracker \<Rightarrow> bool" where
  "nothing_after_boundary cfg file t = (let (s, e) = bo_get_restriction t in
     s > 0 \<and> i64 (s + int (length (fst (read_record_bytes (quote_of cfg) (src_multiline cfg) (drop (nat s) file))))) \<ge> e)"

definition range_error :: "go_env \<Rightarrow> string \<Rightarrow> range \<Rightarrow> stream_error \<Rightarrow> string" where
  "range_error env uri r e = (case e of
      SeekFailed \<Rightarrow> ''failed seeking to offset '' @ format_int (fst r) @ '' in '' @ go_quote env uri
    | DiscardFailed \<Rightarrow> ''failed discarding '' @ format_int (fst r) @ '' bytes in '' @ go_quote env uri)"

text \<open>The decoders behind \<^verbatim>\<open>ports.StreamDecoder\<close>: the records sent and the errors, in order; \<open>jsonl\<close> is the JSON lines parser with
  its library. \<^term>\<open>None\<close> is a decoder that does not return.\<close>

definition decode_stream ::
  "(schema \<Rightarrow> string \<Rightarrow> string \<Rightarrow> (string + generic_record) list option) \<Rightarrow> stream_decoder \<Rightarrow> schema \<Rightarrow> string \<Rightarrow> string \<Rightarrow> (generic_record list \<times> string list) option" where
  "decode_stream jsonl dec sch uri s = (case dec of
      CSVParser p \<Rightarrow> map_option (\<lambda>(recs, e). (recs, case e of None \<Rightarrow> [] | Some e \<Rightarrow> [e])) (csv_decode (\<lambda>_. None) p sch uri s)
    | JSONLParser \<Rightarrow> map_option (\<lambda>out. (map projr (filter (\<lambda>x. \<not> isl x) out), map projl (filter isl out))) (jsonl sch uri s))"

text \<open>\<^verbatim>\<open>ProcessElement\<close>: the tracker afterwards, the records emitted and the error. The feeding goroutine and the decoder meet in a
  pipe that passes bytes on in order, so the decoder reads the lines fed, one after the other; the tracker is the one a feeder
  leaves that has run to its end.\<close>

definition sdf_process_element ::
  "go_env \<Rightarrow> (schema \<Rightarrow> string \<Rightarrow> string \<Rightarrow> (string + generic_record) list option) \<Rightarrow> 'w reader_providers \<Rightarrow> bool \<Rightarrow> fraction list list \<Rightarrow>
   'w \<Rightarrow> 'w byte_stream_sdf \<Rightarrow> range_tracker \<Rightarrow> string \<Rightarrow> 'w \<times> 'w byte_stream_sdf \<times> range_tracker \<times> (generic_record list \<times> string option) option" where
  "sdf_process_element env jsonl G seekable sched w fn t uri =
     (case ensure_reader G uri fn of
        (fn1, Some e) \<Rightarrow> (w, fn1, bo_mark_done t, Some ([], Some e))
      | (fn1, None) \<Rightarrow>
          (case ensure_decoder_and_wrapper G fn1 of
             (fn2, Some e) \<Rightarrow> (w, fn2, bo_mark_done t, Some ([], Some e))
           | (fn2, None) \<Rightarrow>
               (case rd_open (the (sdf_reader fn2)) w uri of
                  (w1, Inl e) \<Rightarrow> (w1, fn2, bo_mark_done t, Some ([], Some (''failed opening '' @ go_quote env uri @ '': '' @ e)))
                | (w1, Inr txt) \<Rightarrow>
                    (let cfg = stream_config_of (sdf_cfg fn2) in
                     case process_range cfg seekable txt t sched of
                       (t', Inl e) \<Rightarrow> (w1, fn2, t', Some ([], Some (range_error env uri (bo_get_restriction t) e)))
                     | (t', Inr ls) \<Rightarrow>
                         if nothing_after_boundary cfg txt t then (w1, fn2, t', Some ([], None))
                         else (w1, fn2, t',
                           (case (case sdf_wrapper fn2 of None \<Rightarrow> Inr (concat ls) | Some wr \<Rightarrow> wr (concat ls) (sdf_cfg fn2)) of
                              Inl e \<Rightarrow> Some ([], Some (''failed wrapping stream for '' @ go_quote env uri @ '': '' @ e))
                            | Inr s \<Rightarrow>
                                map_option (\<lambda>(recs, errs). (recs, case errs of [] \<Rightarrow> None
                                    | e # _ \<Rightarrow> Some (''stream read error in '' @ go_quote env uri @ '': '' @ e)))
                                  (decode_stream jsonl (the (sdf_decoder fn2)) (so_schema (sdf_cfg fn2)) uri s)))))))"

section \<open>Slice sources (partition_query_sdf.go, paged_api_sdf.go)\<close>

record 'rd partition_query_sdf =
  qs_db :: database_source_config
  qs_secrets :: "secrets_config option"
  qs_reader :: "'rd option"

definition new_partition_query_source_sdf :: "'rd option \<Rightarrow> database_source_config \<Rightarrow> secrets_config option \<Rightarrow> 'rd partition_query_sdf" where
  "new_partition_query_source_sdf rd db sc = \<lparr>qs_db = db, qs_secrets = sc, qs_reader = rd\<rparr>"

type_synonym ('w, 'rd) partitioned_reader_provider = "'w \<Rightarrow> database_source_config \<Rightarrow> secrets_config option \<Rightarrow> 'w \<times> (string + 'rd)"

definition partition_setup :: "go_env \<Rightarrow> ('w, 'rd) partitioned_reader_provider option \<Rightarrow> 'w \<Rightarrow> 'rd partition_query_sdf \<Rightarrow> 'w \<times> 'rd partition_query_sdf \<times> string option" where
  "partition_setup env prov w fn = (case qs_reader fn of
      Some _ \<Rightarrow> (w, fn, None)
    | None \<Rightarrow> (case prov of
        None \<Rightarrow> (w, fn, Some ''PartitionQuerySourceSDF: globalPartitionedReaderProvider not registered'')
      | Some p \<Rightarrow> (case p w (qs_db fn) (qs_secrets fn) of
          (w1, Inl e) \<Rightarrow> (w1, fn, Some (''PartitionQuerySourceSDF.Setup: failed initializing reader for driver '' @ go_quote env (ds_driver (qs_db fn)) @ '': '' @ e))
        | (w1, Inr rd) \<Rightarrow> (w1, fn\<lparr>qs_reader := Some rd\<rparr>, None))))"

definition partition_teardown :: "('rd \<Rightarrow> 'w \<Rightarrow> 'w \<times> string option) \<Rightarrow> 'w \<Rightarrow> 'rd partition_query_sdf \<Rightarrow> 'w \<times> string option" where
  "partition_teardown close w fn = (case qs_reader fn of Some rd \<Rightarrow> close rd w | None \<Rightarrow> (w, None))"

text \<open>The estimates of \<^verbatim>\<open>RestrictionSize\<close>; the products are exact in a float below \<open>2 ^ 53\<close>.\<close>

definition partition_restriction_size :: "database_source_config option \<Rightarrow> range \<Rightarrow> int" where
  "partition_restriction_size db r = (if snd r < fst r then 0
     else (case db of Some c \<Rightarrow> if pc_batch_size (ds_partition c) > 0 then pc_batch_size (ds_partition c) else 2500 | None \<Rightarrow> 2500) * i64 (snd r - fst r))"

record 'rd paged_api_sdf =
  gs_api :: "api_source_config option"
  gs_reader :: "'rd option"

definition new_paged_api_source_sdf :: "'rd option \<Rightarrow> api_source_config option \<Rightarrow> 'rd paged_api_sdf" where
  "new_paged_api_source_sdf rd api = \<lparr>gs_api = api, gs_reader = rd\<rparr>"

definition paged_setup :: "(api_source_config option \<Rightarrow> 'rd option) option \<Rightarrow> 'rd paged_api_sdf \<Rightarrow> 'rd paged_api_sdf \<times> string option" where
  "paged_setup prov fn = (case gs_reader fn of
      Some _ \<Rightarrow> (fn, None)
    | None \<Rightarrow> (case prov of
        None \<Rightarrow> (fn, Some ''PagedAPISourceSDF: globalPagedAPIReaderProvider not registered'')
      | Some p \<Rightarrow> (let fn' = fn\<lparr>gs_reader := p (gs_api fn)\<rparr> in
          (fn', if gs_reader fn' = None then Some ''PagedAPISourceSDF.Setup: provider returned nil reader'' else None))))"

definition paged_teardown :: "'rd paged_api_sdf \<Rightarrow> 'rd paged_api_sdf \<times> string option" where
  "paged_teardown fn = (fn\<lparr>gs_reader := None\<rparr>, None)"

definition paged_restriction_size :: "page_slice \<Rightarrow> range \<Rightarrow> int" where
  "paged_restriction_size pg r = (if snd r < fst r then 0 else (if ps_size pg > 0 then ps_size pg else 100) * i64 (snd r - fst r))"

section \<open>DoFns after serialisation\<close>

text \<open>\<^verbatim>\<open>ByteStreamBeamSource.BuildSource\<close> gives the DoFn its reader, the builder of \<^verbatim>\<open>codecs\<close> and its decoder; on a worker they are nil.\<close>

definition byte_stream_do_fn :: "go_env \<Rightarrow> (string, 'l) codec_lib \<Rightarrow> 'w storage_reader \<Rightarrow> byte_stream_beam_source \<Rightarrow> 'w byte_stream_sdf" where
  "byte_stream_do_fn env lib rd b = new_byte_stream_source_sdf (Some rd) (Some (wrap_stream env lib None)) (Some (by_decoder b)) (by_config b)"

definition received_source :: "'w byte_stream_sdf \<Rightarrow> 'w byte_stream_sdf" where
  "received_source fn = fn\<lparr>sdf_reader := None, sdf_wrapper := None, sdf_decoder := None\<rparr>"

definition received_sink :: "('w, 'l, 'r) stream_sink \<Rightarrow> ('w, 'l, 'r) stream_sink" where
  "received_sink d = d\<lparr>ss_stager := None, ss_formatter := None, ss_stream := None\<rparr>"

definition received_pages :: "'rd paged_api_sdf \<Rightarrow> 'rd paged_api_sdf" where
  "received_pages fn = fn\<lparr>gs_reader := None\<rparr>"

text \<open>The providers of \<^verbatim>\<open>worker_init.go\<close> as the file sink of a builder sees them: they are called with its format, options and schema.\<close>

definition worker_sink_env ::
  "go_env \<Rightarrow> json_env \<Rightarrow> ('r, 'l) codec_lib \<Rightarrow> 'w worker_providers \<Rightarrow> 'w stream_file_beam_sink \<Rightarrow> ('w, 'l, generic_record) sink_env" where
  "worker_sink_env env je lib P b =
     \<lparr>storage_factory = Some (\<lambda>_. resolver_storage env (wp_storage P)),
      formatter_provider = map_option (\<lambda>f. sink_formatter env je f (sf_schema b)) (wp_formatter P (to_lower (sf_format b)) (sf_format_options b)),
      compressor_provider = Some (wrap_compressor env lib), encryptor_provider = None\<rparr>"

section \<open>Lemmas\<close>

lemma to_lower_idem [simp]: "to_lower (to_lower s) = to_lower s"
  by (simp add: to_lower_def comp_def)

lemma clean_name_lower [simp]: "clean_name (to_lower s) = clean_name s"
  by (simp add: clean_name_def trim_space_lower)

lemma build_formatter_lower: "ok_or_none (build_formatter reg (to_lower f) opts) = ok_or_none (build_formatter reg f opts)"
  by (simp add: build_formatter_def ok_or_none_def split: option.splits)

text \<open>A sink received by a worker is, once its bundle has started, the sink that was sent.\<close>

lemma received_sink_starts:
  assumes "sf_storage b = Some st" "storage_factory senv = Some (\<lambda>_. st)"
    and "formatter_provider senv = map_option (\<lambda>f. sink_formatter env je f (sf_schema b)) (sf_formatter b)"
  shows "stream_start_bundle senv (stream_setup senv (received_sink (stream_file_do_fn env je b))) = stream_start_bundle senv (stream_file_do_fn env je b)"
  using assms by (cases "sf_formatter b")
    (simp_all add: stream_start_bundle_def stream_setup_def received_sink_def stream_file_do_fn_def new_stream_file_sink_def stream_new_stager_def
      stager_setup_def new_bundle_file_stager_def stager_start_bundle_def trim_right_set_idem)

lemma received_source_runs:
  assumes "pipeline_build_decoder (Some (by_config b)) = Inr (by_decoder b)"
  shows "sdf_process_element env jsonl (worker_readers env lib rd) seekable sched w (received_source (byte_stream_do_fn env lib rd b)) t uri =
    sdf_process_element env jsonl (worker_readers env lib rd) seekable sched w (byte_stream_do_fn env lib rd b) t uri"
  using assms
  by (simp add: sdf_process_element_def ensure_reader_def ensure_decoder_and_wrapper_def received_source_def byte_stream_do_fn_def
      new_byte_stream_source_sdf_def worker_readers_def set_stream_decoder_provider_def set_stream_wrapper_provider_def
      set_storage_reader_provider_def provided_def ok_or_none_def Let_def)

lemma wrap_stream_plain:
  assumes "clean_name (so_compression cfg) \<in> {[], ''none''}" "clean_name (so_charset cfg) \<in> {[], ''utf-8'', ''utf8''}"
  shows "wrap_stream env lib None s cfg = Inr s"
  using assms by (auto simp: wrap_stream_def wrap_decompressor_def wrap_normalizer_def Let_def)

lemma csv_decode_Nil: "valid_delim (parser_comma p) \<Longrightarrow> csv_decode (\<lambda>_. None) p sch src [] = Some ([], None)"
proof -
  assume v: "valid_delim (parser_comma p)"
  have "csv_read d [] = None" for d using csv_read_length [of d "[]"] by (cases "csv_read d []") auto
  then show ?thesis using v by (simp add: csv_decode_def csv_loop.simps [of _ _ _ _ _ _ _ "[]"])
qed

lemma quiet_boundary:
  assumes "nothing_after_boundary cfg file t" "process_range cfg seekable file t sched = (t', Inr ls)"
  shows "ls = []"
  using assms by (auto simp: nothing_after_boundary_def process_range_def quote_of_def Let_def split: prod.splits if_splits)

text \<open>What a worker emits for a range of a plain CSV file: what the parser reads from the lines of the range.\<close>

lemma sdf_csv_range:
  assumes "sdf_cfg fn = cfg" "sdf_decoder fn = Some (CSVParser p)" "sdf_wrapper fn = Some (wrap_stream env lib None)" "sdf_reader fn = Some rd"
    and "clean_name (so_compression cfg) \<in> {[], ''none''}" "clean_name (so_charset cfg) \<in> {[], ''utf-8'', ''utf8''}"
    and "rd_open rd w uri = (w1, Inr txt)" "valid_delim (parser_comma p)"
    and "process_range (stream_config_of cfg) seekable txt t sched = (t', Inr ls)"
    and "csv_decode (\<lambda>_. None) p (so_schema cfg) uri (concat ls) = Some (out, None)"
  shows "sdf_process_element env jsonl G seekable sched w fn t uri = (w1, fn, t', Some (out, None))"
proof -
  have fn: "ensure_reader G uri fn = (fn, None)" "ensure_decoder_and_wrapper G fn = (fn, None)"
    using assms(2-4) by (simp_all add: ensure_reader_def ensure_decoder_and_wrapper_def provided_def)
  have "out = []" if "nothing_after_boundary (stream_config_of cfg) txt t"
    using quiet_boundary [OF that assms(9)] csv_decode_Nil [OF assms(8)] assms(10) by simp
  then show ?thesis using assms(10)
    by (simp add: sdf_process_element_def fn assms(1-4,7,9) wrap_stream_plain [OF assms(5,6)] decode_stream_def Let_def)
qed

text \<open>The file of one chunk: its initial restriction is the whole file, and its worker reads all of it.\<close>

definition local_reader :: "local_env \<Rightarrow> local_fs storage_reader" where
  "local_reader E = \<lparr>rd_open = local_open E, rd_size = local_size E\<rparr>"

lemma whole_range_lines:
  assumes "length txt < 2 ^ 63" "txt \<noteq> []"
  shows "\<exists>t' ls. process_range cfg seekable txt (new_byte_offset_tracker (0, int (length txt))) [] = (t', Inr ls) \<and> concat ls = txt"
proof -
  let ?t = "new_byte_offset_tracker (0, int (length txt))"
  obtain t' res where pr: "process_range cfg seekable txt ?t [] = (t', res)" by fastforce
  have e: "rest_end t' = int (length txt)" using process_range_no_splits [OF pr] by (simp add: new_byte_offset_tracker_def tracker_of_def)
  have v: "valid_range (0, int (length txt))" using assms by (simp add: valid_range_def)
  have all: "filter (\<lambda>r. fst r < int (length txt)) (records_at q m 0 txt) = records_at q m 0 txt" for q m
    by (rule filter_True) (use records_at_bounds in fastforce)
  show ?thesis using process_range_reads [OF v _ assms(1) _ pr] pr e records_at_concat [of "quote_of cfg" "src_multiline cfg" 0 "txt"]
    by (simp add: all)
qed

lemma csv_source_reads_file:
  assumes "sdf_cfg fn = cfg" "sdf_decoder fn = Some (CSVParser p)" "sdf_wrapper fn = Some (wrap_stream env lib None)"
    "sdf_reader fn = Some (local_reader (no_faults u))"
    and "clean_name (so_compression cfg) \<in> {[], ''none''}" "clean_name (so_charset cfg) \<in> {[], ''utf-8'', ''utf8''}"
    and "valid_delim (parser_comma p)" "files w uri = Some txt" "path_clean uri = uri" "txt \<noteq> []" "length txt < 2 ^ 63"
    and "csv_decode (\<lambda>_. None) p (so_schema cfg) uri txt = Some (out, None)"
  shows "\<exists>w1 w2 r t'. sdf_create_initial_restriction env G w fn uri = (w1, fn, Inr r) \<and>
    sdf_process_element env jsonl G seekable [] w1 fn (new_byte_offset_tracker r) uri = (w2, fn, t', Some (out, None))"
proof -
  let ?E = "no_faults u" and ?w = "w\<lparr>steps := Suc (steps w)\<rparr>"
  have init: "sdf_create_initial_restriction env G w fn uri = (?w, fn, Inr (0, int (length txt)))"
    using assms(4,8,9) by (simp add: sdf_create_initial_restriction_def ensure_reader_def provided_def local_reader_def local_size_def no_faults_def
        create_initial_restriction_def Let_def)
  have opened: "rd_open (local_reader ?E) ?w uri = (?w\<lparr>steps := Suc (steps ?w)\<rparr>, Inr txt)"
    using assms(8) by (simp add: local_reader_def local_open_def no_faults_def)
  obtain t' ls where pr: "process_range (stream_config_of cfg) seekable txt (new_byte_offset_tracker (0, int (length txt))) [] = (t', Inr ls)" "concat ls = txt"
    using whole_range_lines [OF assms(11,10)] by blast
  show ?thesis using init sdf_csv_range [OF assms(1-6) opened assms(7) pr(1), unfolded pr(2), OF assms(12)] by blast
qed

text \<open>A REST source that reaches a worker has no reader, and \<^verbatim>\<open>worker_init.go\<close> registers no provider for one.\<close>

lemma rest_source_fails_on_worker:
  "paged_setup None (received_pages (new_paged_api_source_sdf rd api)) =
    (new_paged_api_source_sdf None api, Some ''PagedAPISourceSDF: globalPagedAPIReaderProvider not registered'')"
  by (simp add: paged_setup_def received_pages_def new_paged_api_source_sdf_def)

section \<open>Properties\<close>


text \<open>The example: a pipeline from files to \<^verbatim>\<open>/out/data.csv\<close> and a source over the same file.\<close>

definition csv_config :: pipeline_config where
  "csv_config = config_apply_defaults (file_config ''file'' ''csv'')"

lemma csv_config_parts:
  "de_type (pl_destination csv_config) = ''file''" "de_output_format (pl_destination csv_config) = ''csv''"
  "de_compression (pl_destination csv_config) = []" "en_type (de_encryption (pl_destination csv_config)) = ''none''"
  "de_output_path (pl_destination csv_config) = ''/out/data.csv''"
  "de_format_options (pl_destination csv_config) = \<lparr>fo_delimiter = '','', fo_include_header = True, fo_charset = ''utf-8'', fo_line_terminator = [line_feed], fo_quote_all = False\<rparr>"
  "so_format (pl_source csv_config) = ''csv''" "so_delimiter (pl_source csv_config) = '',''" "get_schema csv_config = id_schema"
  "so_schema (pl_source csv_config) = id_schema" "clean_name (so_compression (pl_source csv_config)) = ''none''" "clean_name (so_charset (pl_source csv_config)) = ''utf-8''"
  "source_files (\<lambda>_. Inr [''/out/data.csv'']) (pl_source csv_config) = Inr [''/out/data.csv'']"
  "so_path (pl_source csv_config) = ''in.csv''" "so_paths (pl_source csv_config) = []" "dl_quarantine_path (pl_dlq csv_config) = ''q''"
proof -
  have v: "list_all ascii_visible ''file''" "list_all ascii_visible ''csv''" "to_lower ''file'' = ''file''" "to_lower ''csv'' = ''csv''"
    by (simp_all add: ascii_visible_def to_lower_def lower_char_def)
  show "de_type (pl_destination csv_config) = ''file''" "de_output_format (pl_destination csv_config) = ''csv''"
    "en_type (de_encryption (pl_destination csv_config)) = ''none''" "de_output_path (pl_destination csv_config) = ''/out/data.csv''"
    using file_config_parts [OF v] by (simp_all add: csv_config_def)
  show "de_compression (pl_destination csv_config) = []"
    "de_format_options (pl_destination csv_config) = \<lparr>fo_delimiter = '','', fo_include_header = True, fo_charset = ''utf-8'', fo_line_terminator = [line_feed], fo_quote_all = False\<rparr>"
    "so_format (pl_source csv_config) = ''csv''" "so_delimiter (pl_source csv_config) = '',''" "get_schema csv_config = id_schema"
    "so_schema (pl_source csv_config) = id_schema" "clean_name (so_compression (pl_source csv_config)) = ''none''" "clean_name (so_charset (pl_source csv_config)) = ''utf-8''"
    "source_files (\<lambda>_. Inr [''/out/data.csv'']) (pl_source csv_config) = Inr [''/out/data.csv'']"
    by (simp_all add: csv_config_def config_apply_defaults_def copy_schema_def file_config_def sample_config_def zero_destination_def
        destination_apply_defaults_def format_apply_defaults_def source_apply_defaults_def zero_source_def or_default_def Let_def trim_visible_texts
        get_schema_def get_source_schema_def schema_apply_defaults_def id_schema_def zero_field_def
        clean_name_def source_files_def all_paths_def trim_space_visible ascii_visible_def to_lower_def lower_char_def)
  show "so_path (pl_source csv_config) = ''in.csv''" "so_paths (pl_source csv_config) = []" "dl_quarantine_path (pl_dlq csv_config) = ''q''"
    by (simp_all add: csv_config_def config_apply_defaults_def copy_schema_def file_config_def sample_config_def zero_destination_def quarantine_default_def
        destination_apply_defaults_def source_apply_defaults_def zero_source_def trim_visible_texts Let_def)
qed

text \<open>Codecs that change nothing.\<close>

definition plain_codecs :: "(string, unit) codec_lib" where
  "plain_codecs = (let l = \<lparr>ly_state = (), ly_write = (\<lambda>_ b. ((), b)), ly_close = (\<lambda>_. [])\<rparr> in
     \<lparr>cl_gunzip = Inr, cl_unzstd = Inr, cl_unsnappy = id, cl_bunzip2 = id, cl_latin1 = id, cl_windows1252 = id, cl_utf16le = id, cl_utf16be = id,
      cl_gzip = l, cl_zstd = l, cl_snappy = l\<rparr>)"


end
