(* ===== verification/Pipeline.thy ===== *)
theory Pipeline
  imports Validation Metrics
begin

text \<open>
  The pipeline graph of \<^verbatim>\<open>internal/beam/core/graph_builder.go\<close>: the nil filter, the fused ingestion
  stage, and the metrics stage that counts valid records and dead letters per origin and folds the counts
  into one \<^verbatim>\<open>PipelineMetrics\<close>. Collections are lists of their elements; the clock of an element is the
  reading its worker makes. How Beam bundles the inputs of the two combines is the argument \<open>runner\<close>, of
  which only this is used: every element is in exactly one bundle.
\<close>

section \<open>Stages (graph_builder.go)\<close>

definition filter_non_nil_record_fn :: "'a option \<Rightarrow> 'a list" where
  "filter_non_nil_record_fn rec = (case rec of None \<Rightarrow> [] | Some r \<Rightarrow> [r])"

definition valid_record_metric_kv_fn :: "generic_record \<Rightarrow> string \<times> bool" where
  "valid_record_metric_kv_fn rec =
     (if gm_get (audit_fields rec) ''_source_file'' \<noteq> [] then gm_get (audit_fields rec) ''_source_file''
      else if schema_id rec \<noteq> [] then schema_id rec
      else ''default'', False)"

definition dlq_record_metric_kv_fn :: "dead_letter_record \<Rightarrow> string \<times> bool" where
  "dlq_record_metric_kv_fn rec = (if source_file rec \<noteq> [] then source_file rec else ''unknown'', True)"

definition origin_kv_to_summary_fn :: "string \<times> origin_metric \<Rightarrow> origin_summary" where
  "origin_kv_to_summary_fn kv = \<lparr>os_origin = fst kv, os_metric = snd kv\<rparr>"

text \<open>One element with its clock reading through the ingestion stage; \<^term>\<open>None\<close> would be a panic.\<close>

definition ingest_element ::
  "go_env \<Rightarrow> fused_fn \<Rightarrow> int \<times> generic_record option \<Rightarrow> outputs list option" where
  "ingest_element env fn e =
     (case filter_non_nil_record_fn (snd e) of
        [] \<Rightarrow> Some []
      | r # _ \<Rightarrow> map_option (\<lambda>o'. [o']) (fu_process_element env (fst e) fn (Some r)))"

fun ingest_all :: "go_env \<Rightarrow> fused_fn \<Rightarrow> (int \<times> generic_record option) list \<Rightarrow> outputs list option" where
  "ingest_all env fn [] = Some []"
| "ingest_all env fn (e # es) =
     (case ingest_element env fn e of
        None \<Rightarrow> None
      | Some os \<Rightarrow> map_option ((@) os) (ingest_all env fn es))"

definition apply_ingestion_stage ::
  "go_env \<Rightarrow> (int \<times> generic_record option) list \<Rightarrow> schema \<Rightarrow> quality_rule list \<Rightarrow> string list \<Rightarrow>
   (generic_record list \<times> dead_letter_record list \<times> audit_record list) option" where
  "apply_ingestion_stage env raw s rules sens =
     map_option (\<lambda>os. (concat (map out_valid os), concat (map out_dlq os), concat (map out_audit os)))
       (ingest_all env (new_fused_fn env s [] [] rules sens) raw)"

record runner =
  bundle_values :: "string \<Rightarrow> bool list \<Rightarrow> bool combine_plan"
  bundle_summaries :: "origin_summary list \<Rightarrow> origin_summary combine_plan"

definition faithful_runner :: "runner \<Rightarrow> bool" where
  "faithful_runner rn \<longleftrightarrow> (\<forall>k vs. plan_inputs (bundle_values rn k vs) = mset vs) \<and>
     (\<forall>ss. plan_inputs (bundle_summaries rn ss) = mset ss)"

definition values_of :: "string \<Rightarrow> (string \<times> bool) list \<Rightarrow> bool list" where
  "values_of k kvs = map snd (filter (\<lambda>kv. fst kv = k) kvs)"

definition combine_per_origin :: "runner \<Rightarrow> (string \<times> bool) list \<Rightarrow> (string \<times> origin_metric) list" where
  "combine_per_origin rn kvs =
     map (\<lambda>k. (k, oc_extract (run_combine oc_create oc_add oc_merge (bundle_values rn k (values_of k kvs)))))
       (remdups (map fst kvs))"

definition apply_metrics_stage ::
  "runner \<Rightarrow> generic_record list \<Rightarrow> dead_letter_record list \<Rightarrow> pipeline_metrics" where
  "apply_metrics_stage rn valid dlq =
     (let all_kv = map valid_record_metric_kv_fn valid @ map dlq_record_metric_kv_fn dlq;
          summaries = map origin_kv_to_summary_fn (combine_per_origin rn all_kv)
      in ms_extract (run_combine ms_create ms_add ms_merge (bundle_summaries rn summaries)))"

definition build_pipeline ::
  "go_env \<Rightarrow> runner \<Rightarrow> (int \<times> generic_record option) list \<Rightarrow> schema \<Rightarrow> quality_rule list \<Rightarrow> string list \<Rightarrow>
   (generic_record list \<times> dead_letter_record list \<times> audit_record list \<times> pipeline_metrics) option" where
  "build_pipeline env rn raw s rules sens =
     map_option (\<lambda>(valid, dlq, audit). (valid, dlq, audit, apply_metrics_stage rn valid dlq))
       (apply_ingestion_stage env raw s rules sens)"

section \<open>Lemmas\<close>

definition element_outputs :: "outputs \<Rightarrow> bool" where
  "element_outputs o' \<longleftrightarrow> length (out_valid o') + length (out_dlq o') = 1"

lemma ingest_all_total:
  "\<exists>os. ingest_all env (new_fused_fn env s job exec rules sens) raw = Some os \<and>
     list_all element_outputs os \<and> length os = length (filter (\<lambda>e. snd e \<noteq> None) raw) \<and>
     list_all (\<lambda>o'. list_all (\<lambda>v. conforming (sch_fields s) (vals v)) (out_valid o')) os"
proof (induction raw)
  case (Cons e es)
  then obtain os where os: "ingest_all env (new_fused_fn env s job exec rules sens) es = Some os"
    "list_all element_outputs os" "length os = length (filter (\<lambda>e. snd e \<noteq> None) es)"
    "list_all (\<lambda>o'. list_all (\<lambda>v. conforming (sch_fields s) (vals v)) (out_valid o')) os" by blast
  show ?case
  proof (cases "snd e")
    case None
    then show ?thesis using os by (simp add: ingest_element_def filter_non_nil_record_fn_def)
  next
    case (Some r)
    let ?r = "fu_enrich env (fst e) (new_fused_fn env s job exec rules sens) r"
    obtain o' where o': "fu_process_element env (fst e) (new_fused_fn env s job exec rules sens) (Some r) = Some o'"
      "stage_result (sch_fields s) ?r o'"
      using validate_record_stage unfolding fu_process_new by blast
    from o'(2) have "element_outputs o'" "list_all (\<lambda>v. conforming (sch_fields s) (vals v)) (out_valid o')"
      by (auto elim!: stage_resultE simp: element_outputs_def)
    then show ?thesis using os o'(1) Some by (simp add: ingest_element_def filter_non_nil_record_fn_def)
  qed
qed simp

lemma length_valid_dlq:
  "list_all element_outputs os \<Longrightarrow>
   length (concat (map out_valid os)) + length (concat (map out_dlq os)) = length os"
  by (induction os) (auto simp: element_outputs_def)

definition origin_counts :: "(string \<times> bool) list \<Rightarrow> string \<Rightarrow> origin_metric" where
  "origin_counts kvs k = \<lparr>om_total_read = i64 (int (length (values_of k kvs))),
     om_valid = i64 (int (length (filter (\<lambda>b. \<not> b) (values_of k kvs)))),
     om_dlq = i64 (int (length (filter (\<lambda>b. b) (values_of k kvs))))\<rparr>"

lemma count_mset_bool:
  "count (mset bs) False = length (filter (\<lambda>b. \<not> b) bs)" "count (mset bs) True = length (filter (\<lambda>b. b) bs)"
  by (induction bs) auto

lemma combine_per_origin_eq:
  assumes "faithful_runner rn"
  shows "combine_per_origin rn kvs = map (\<lambda>k. (k, origin_counts kvs k)) (remdups (map fst kvs))"
proof -
  have "oc_extract (run_combine oc_create oc_add oc_merge (bundle_values rn k (values_of k kvs))) =
      origin_counts kvs k" for k
    using oc.run_combine_repr [of "bundle_values rn k (values_of k kvs)"] assms
    by (simp add: faithful_runner_def oc_repr_def oc_extract_def origin_counts_def count_mset_bool)
  then show ?thesis by (simp add: combine_per_origin_def)
qed

lemma once_per_origin_distinct:
  "distinct ks \<Longrightarrow> once_per_origin (mset (map (\<lambda>k. \<lparr>os_origin = k, os_metric = f k\<rparr>) ks))"
proof -
  assume "distinct ks"
  moreover have "image_mset os_origin (mset (map (\<lambda>k. \<lparr>os_origin = k, os_metric = f k\<rparr>) ks)) = mset ks"
    by (induction ks) auto
  ultimately show ?thesis unfolding once_per_origin_def by (simp add: distinct_count_atmost_1)
qed

lemma sum_values_of:
  assumes "finite K" "fst ` set kvs \<subseteq> K"
  shows "(\<Sum>k\<in>K. int (length (filter Q (values_of k kvs)))) = int (length (filter (\<lambda>kv. Q (snd kv)) kvs))"
  using assms(2)
proof (induction kvs)
  case (Cons kv kvs)
  have "int (length (filter Q (values_of k (kv # kvs)))) =
      (if fst kv = k then (if Q (snd kv) then 1 else 0) else 0) + int (length (filter Q (values_of k kvs)))" for k
    by (simp add: values_of_def)
  then show ?case using Cons assms(1) by (simp add: sum.distrib sum.delta)
qed (simp add: values_of_def)

lemma i64_sum_list: "i64 (\<Sum>k\<leftarrow>ks. i64 (f k)) = i64 (\<Sum>k\<leftarrow>ks. f k)"
proof (induction ks)
  case (Cons k ks)
  have "i64 (i64 (f k) + (\<Sum>k\<leftarrow>ks. i64 (f k))) = i64 (f k + i64 (\<Sum>k\<leftarrow>ks. i64 (f k)))" by simp
  also have "\<dots> = i64 (f k + (\<Sum>k\<leftarrow>ks. f k))" by (simp only: Cons.IH i64_add_right)
  finally show ?case by simp
qed simp

lemma i64_sum_origins:
  "i64 (\<Sum>k\<leftarrow>remdups (map fst kvs). i64 (int (length (filter Q (values_of k kvs))))) =
     i64 (int (length (filter (\<lambda>kv. Q (snd kv)) kvs)))"
proof -
  have "(\<Sum>k\<leftarrow>remdups (map fst kvs). int (length (filter Q (values_of k kvs)))) =
      (\<Sum>k\<in>fst ` set kvs. int (length (filter Q (values_of k kvs))))"
    by (simp add: sum_list_distinct_conv_sum_set)
  then show ?thesis by (simp add: i64_sum_list sum_values_of)
qed

lemma metrics_stage_repr:
  fixes valid :: "generic_record list" and dlq :: "dead_letter_record list"
  assumes "faithful_runner rn"
  defines "kvs \<equiv> map valid_record_metric_kv_fn valid @ map dlq_record_metric_kv_fn dlq"
  shows "ms_repr (apply_metrics_stage rn valid dlq)
    (mset (map (\<lambda>k. \<lparr>os_origin = k, os_metric = origin_counts kvs k\<rparr>) (remdups (map fst kvs))))"
proof -
  let ?ss = "map (\<lambda>k. \<lparr>os_origin = k, os_metric = origin_counts kvs k\<rparr>) (remdups (map fst kvs))"
  have eq: "map origin_kv_to_summary_fn (combine_per_origin rn kvs) = ?ss"
    using assms(1) by (simp add: combine_per_origin_eq origin_kv_to_summary_fn_def)
  have inp: "plan_inputs (bundle_summaries rn ?ss) = mset ?ss"
    using assms(1) unfolding faithful_runner_def by blast
  have "once_per_origin (plan_inputs (bundle_summaries rn ?ss))"
    unfolding inp by (rule once_per_origin_distinct) simp
  from ms.run_combine_repr [OF this] show ?thesis
    unfolding apply_metrics_stage_def Let_def ms_extract_def inp kvs_def [symmetric] eq .
qed

lemma metrics_stage_counts:
  fixes valid :: "generic_record list" and dlq :: "dead_letter_record list"
  assumes "faithful_runner rn"
  defines "kvs \<equiv> map valid_record_metric_kv_fn valid @ map dlq_record_metric_kv_fn dlq"
  defines "m \<equiv> apply_metrics_stage rn valid dlq"
  shows "total_records_read m = i64 (int (length valid + length dlq))"
    and "rows_written m = i64 (int (length valid))"
    and "dead_letter_count m = i64 (int (length dlq))"
    and "map_ok (map_entries (origin_metrics m))"
    and "set (map_entries (origin_metrics m)) = (\<lambda>k. (k, origin_counts kvs k)) ` fst ` set kvs"
proof -
  let ?ks = "remdups (map fst kvs)"
  have kv: "filter (\<lambda>kv. snd kv) kvs = map dlq_record_metric_kv_fn dlq"
    "filter (\<lambda>kv. \<not> snd kv) kvs = map valid_record_metric_kv_fn valid" "length kvs = length valid + length dlq"
    by (auto simp: kvs_def filter_map o_def valid_record_metric_kv_fn_def dlq_record_metric_kv_fn_def)
  note r = metrics_stage_repr [OF assms(1), of valid dlq, folded kvs_def m_def, unfolded ms_repr_def]
  show "rows_written m = i64 (int (length valid))"
    using r i64_sum_origins [of "\<lambda>b. \<not> b" kvs] kv by (simp add: sum_mset_sum_list o_def origin_counts_def flip: mset_map)
  show "dead_letter_count m = i64 (int (length dlq))"
    using r i64_sum_origins [of "\<lambda>b. b" kvs] kv by (simp add: sum_mset_sum_list o_def origin_counts_def flip: mset_map)
  show "total_records_read m = i64 (int (length valid + length dlq))"
    using r i64_sum_origins [of "\<lambda>b. True" kvs] kv by (simp add: sum_mset_sum_list o_def origin_counts_def flip: mset_map)
  show "map_ok (map_entries (origin_metrics m))" using r by simp
  show "set (map_entries (origin_metrics m)) = (\<lambda>k. (k, origin_counts kvs k)) ` fst ` set kvs"
    using r by (simp add: image_image)
qed

lemma origin_counts_conserved: "om_total_read (origin_counts kvs k) =
    i64 (om_valid (origin_counts kvs k) + om_dlq (origin_counts kvs k))"
proof -
  have "length (values_of k kvs) =
      length (filter (\<lambda>b. \<not> b) (values_of k kvs)) + length (filter (\<lambda>b. b) (values_of k kvs))"
    using sum_length_filter_compl [of "\<lambda>b. b" "values_of k kvs"] by simp
  then show ?thesis by (simp add: origin_counts_def)
qed

text \<open>The counts of the metrics for the collections the pipeline has returned.\<close>

lemma pipeline_counts:
  assumes "faithful_runner rn" "build_pipeline env rn raw s rules sens = Some (valid, dlq, audit, m)"
  shows "length valid + length dlq = length (filter (\<lambda>e. snd e \<noteq> None) raw)"
    "total_records_read m = i64 (int (length (filter (\<lambda>e. snd e \<noteq> None) raw)))"
    "rows_written m = i64 (int (length valid))" "dead_letter_count m = i64 (int (length dlq))"
proof -
  obtain os where os: "ingest_all env (new_fused_fn env s [] [] rules sens) raw = Some os"
    "list_all element_outputs os" "length os = length (filter (\<lambda>e. snd e \<noteq> None) raw)"
    using ingest_all_total by blast
  then have v: "valid = concat (map out_valid os)" "dlq = concat (map out_dlq os)" "m = apply_metrics_stage rn valid dlq"
    using assms(2) by (auto simp: build_pipeline_def apply_ingestion_stage_def)
  show len: "length valid + length dlq = length (filter (\<lambda>e. snd e \<noteq> None) raw)"
    using length_valid_dlq [OF os(2)] os(3) v(1,2) by simp
  show "total_records_read m = i64 (int (length (filter (\<lambda>e. snd e \<noteq> None) raw)))"
    "rows_written m = i64 (int (length valid))" "dead_letter_count m = i64 (int (length dlq))"
    using metrics_stage_counts [OF assms(1), of valid dlq] v(3) len by simp_all
qed

section \<open>Properties\<close>

text \<open>C1. Conservation: whatever the raw records, the schema and the rules, the pipeline returns, every
  valid record conforms to the schema, and the numbers of valid records and dead letters add up to the
  number of raw records that are not nil. The metrics it returns are these three counts, satisfy
  \<^verbatim>\<open>IsStrictlyConserved\<close> and \<^verbatim>\<open>IsConservedPerOrigin\<close>, and have one entry per origin with that origin's
  counts, for every way the runner bundles and merges.\<close>

theorem pipeline_conservation:
  assumes "faithful_runner rn"
  shows "\<exists>valid dlq audit m. build_pipeline env rn raw s rules sens = Some (valid, dlq, audit, m) \<and>
    length valid + length dlq = length (filter (\<lambda>e. snd e \<noteq> None) raw) \<and>
    list_all (\<lambda>v. conforming (sch_fields s) (vals v)) valid \<and>
    total_records_read m = i64 (int (length (filter (\<lambda>e. snd e \<noteq> None) raw))) \<and>
    rows_written m = i64 (int (length valid)) \<and> dead_letter_count m = i64 (int (length dlq)) \<and>
    is_strictly_conserved m \<and> is_conserved_per_origin m \<and> map_ok (map_entries (origin_metrics m)) \<and>
    set (map_entries (origin_metrics m)) =
      (let kvs = map valid_record_metric_kv_fn valid @ map dlq_record_metric_kv_fn dlq
       in (\<lambda>k. (k, origin_counts kvs k)) ` fst ` set kvs)"
proof -
  obtain os where os: "ingest_all env (new_fused_fn env s [] [] rules sens) raw = Some os"
    "list_all element_outputs os" "length os = length (filter (\<lambda>e. snd e \<noteq> None) raw)"
    "list_all (\<lambda>o'. list_all (\<lambda>v. conforming (sch_fields s) (vals v)) (out_valid o')) os"
    using ingest_all_total by blast
  let ?v = "concat (map out_valid os)" and ?d = "concat (map out_dlq os)"
  let ?m = "apply_metrics_stage rn ?v ?d"
  note mc = metrics_stage_counts [OF assms, of ?v ?d]
  have len: "length ?v + length ?d = length (filter (\<lambda>e. snd e \<noteq> None) raw)"
    using length_valid_dlq [OF os(2)] os(3) by simp
  have "is_conserved_per_origin ?m"
    unfolding is_conserved_per_origin_def list_all_iff mc(5) by (auto simp: origin_counts_conserved)
  moreover have "is_strictly_conserved ?m" using mc(1-3) by (simp add: is_strictly_conserved_def)
  moreover have "list_all (\<lambda>v. conforming (sch_fields s) (vals v)) ?v" using os(4) by (auto simp: list_all_iff)
  moreover have "build_pipeline env rn raw s rules sens = Some (?v, ?d, concat (map out_audit os), ?m)"
    using os(1) by (simp add: build_pipeline_def apply_ingestion_stage_def)
  ultimately show ?thesis using len mc unfolding Let_def by (intro exI conjI) (auto simp only: len)
qed

theorem pipeline_conservation_witness:
  "let rn = \<lparr>bundle_values = (\<lambda>k vs. MergePlans (Bundle (take 1 vs)) (Bundle (drop 1 vs))),
       bundle_summaries = Bundle\<rparr> in
   \<exists>valid dlq audit m. build_pipeline sample_env rn [(0, None), (1, Some (secret_record ''x''))] secret_schema [] [] =
       Some (valid, dlq, audit, m) \<and>
     length valid + length dlq = 1 \<and> total_records_read m = 1 \<and> is_strictly_conserved m"
proof -
  let ?rn = "\<lparr>bundle_values = (\<lambda>k vs. MergePlans (Bundle (take 1 vs)) (Bundle (drop 1 vs))),
       bundle_summaries = Bundle\<rparr>"
  have "faithful_runner ?rn"
    unfolding faithful_runner_def by (simp flip: mset_append)
  from pipeline_conservation [OF this, of sample_env "[(0, None), (1, Some (secret_record ''x''))]" secret_schema "[]" "[]"]
  show ?thesis by (auto simp: i64_def)
qed

end
