(* ===== verification/Sink_Stage.thy ===== *)
theory Sink_Stage
  imports Workers Pipeline
begin

text \<open>
  The sink stage of the graph (\<^verbatim>\<open>applySinkStage\<close> and the builders of \<^verbatim>\<open>internal/beam/core/graph_builder.go\<close>): the valid records, the
  dead letters and the audit events go to their sinks in bundles, which the runner forms and interleaves as it likes, each on an
  instance of the DoFn. The locale \<open>bundle_writes\<close> says what a bundle promises: its own file and no other. Together with the
  conservation of records this gives the property of a whole run: every record that is read is in one of the files.
\<close>

section \<open>Bundles of the three sinks\<close>

datatype sink_bundle =
    ValidBundle (bundle_id: "string \<times> int") "generic_record list"
  | DlqBundle (bundle_id: "string \<times> int") "dead_letter_record list"
  | AuditBundle (bundle_id: "string \<times> int") "audit_record list"

fun valid_part :: "sink_bundle \<Rightarrow> generic_record list" where
  "valid_part (ValidBundle _ rs) = rs" | "valid_part _ = []"

fun dlq_part :: "sink_bundle \<Rightarrow> dead_letter_record list" where
  "dlq_part (DlqBundle _ rs) = rs" | "dlq_part _ = []"

fun audit_part :: "sink_bundle \<Rightarrow> audit_record list" where
  "audit_part (AuditBundle _ rs) = rs" | "audit_part _ = []"

definition bundle_empty :: "sink_bundle \<Rightarrow> bool" where
  "bundle_empty e \<longleftrightarrow> valid_part e = [] \<and> dlq_part e = [] \<and> audit_part e = []"

definition bundle_count :: "sink_bundle \<Rightarrow> nat" where
  "bundle_count e = length (valid_part e) + length (dlq_part e) + length (audit_part e)"

text \<open>The DoFns the builders have put into the graph, with what they call: the providers of the file sink and \<^verbatim>\<open>json.Marshal\<close>.\<close>

record ('w, 'l) stage_sinks =
  sk_valid :: "('w, 'l, generic_record) stream_sink"
  sk_dlq :: "'w jsonl_sink"
  sk_audit :: "'w jsonl_sink option"
  sk_env :: "('w, 'l, generic_record) sink_env"
  sk_dlq_json :: "dead_letter_record \<Rightarrow> string + string"
  sk_audit_json :: "audit_record \<Rightarrow> string + string"

text \<open>\<^verbatim>\<open>DefaultAuditBeamSink.BuildAuditSink\<close> adds no DoFn without storage or directory.\<close>

definition default_audit_do_fn :: "'w storage option \<Rightarrow> string \<Rightarrow> 'w jsonl_sink option" where
  "default_audit_do_fn st dir = (if st = None \<or> dir = [] then None else Some (new_jsonl_sink st dir))"

definition default_dlq_do_fn :: "'w storage option \<Rightarrow> string \<Rightarrow> 'w jsonl_sink" where
  "default_dlq_do_fn st dir = new_jsonl_sink st dir"

lemma built_quarantine_sinks:
  "build_dlq_sink cfg st = default_dlq_do_fn st (dl_quarantine_path (pl_dlq cfg))" "build_audit_sink cfg st = default_audit_do_fn st (dl_quarantine_path (pl_dlq cfg))"
  by (auto simp: build_dlq_sink_def default_dlq_do_fn_def build_audit_sink_def default_audit_do_fn_def Let_def)

definition apply_sink_stage :: "('w, 'l) stage_sinks \<Rightarrow> sink_bundle \<Rightarrow> 'w \<Rightarrow> 'w \<times> string option" where
  "apply_sink_stage K e w = (case e of
      ValidBundle un rs \<Rightarrow> (case run_bundle (stream_start_bundle (sk_env K)) (stream_process_element (sk_env K) un) stream_finish_bundle w (sk_valid K) rs of
          (w', _, err) \<Rightarrow> (w', err))
    | DlqBundle un rs \<Rightarrow> (case run_bundle jsonl_start_bundle (dlq_process_element (sk_dlq_json K) (storage_factory (sk_env K)) un) jsonl_finish_bundle w (sk_dlq K) rs of
          (w', _, err) \<Rightarrow> (w', err))
    | AuditBundle un rs \<Rightarrow> (case sk_audit K of
          None \<Rightarrow> (w, None)
        | Some a \<Rightarrow> (case run_bundle jsonl_start_bundle (audit_process_element (sk_audit_json K) (storage_factory (sk_env K)) un) jsonl_finish_bundle w a rs of
            (w', _, err) \<Rightarrow> (w', err))))"

fun run_events :: "('e \<Rightarrow> 'w \<Rightarrow> 'w \<times> string option) \<Rightarrow> 'w \<Rightarrow> 'e list \<Rightarrow> 'w \<times> string option" where
  "run_events run w [] = (w, None)"
| "run_events run w (e # es) = (case run e w of (w', Some err) \<Rightarrow> (w', Some err) | (w', None) \<Rightarrow> run_events run w' es)"

section \<open>What a bundle promises\<close>

text \<open>\<open>uri e\<close> is the file of a bundle, \<open>content e\<close> what it will hold, and \<open>scratch e\<close> the names a bundle may use on the way.\<close>

locale bundle_writes =
  fixes run :: "'e \<Rightarrow> 'w \<Rightarrow> 'w \<times> string option" and view :: "'w \<Rightarrow> string \<Rightarrow> string option"
    and ok :: "'e \<Rightarrow> bool" and uri content :: "'e \<Rightarrow> string" and scratch :: "'e \<Rightarrow> string \<Rightarrow> bool"
  assumes writes: "ok e \<Longrightarrow> run e w = (w', err) \<Longrightarrow> err = None \<and> view w' (uri e) = Some (content e)"
    and keeps: "ok e \<Longrightarrow> run e w = (w', err) \<Longrightarrow> p \<noteq> uri e \<Longrightarrow> \<not> scratch e p \<Longrightarrow> view w' p = view w p"
begin

lemma run_events_keeps:
  assumes "list_all ok es" "p \<notin> uri ` set es" "\<forall>e \<in> set es. \<not> scratch e p" "run_events run w es = (w', err)"
  shows "view w' p = view w p"
  using assms
proof (induction es arbitrary: w)
  case (Cons e es)
  obtain w1 x where r: "run e w = (w1, x)" by fastforce
  have "x = None" "view w1 p = view w p" using writes [OF _ r] keeps [OF _ r, of p] Cons.prems by auto
  then show ?case using Cons r by simp
qed simp

lemma run_events_writes:
  assumes "list_all ok es" "distinct (map uri es)" "\<forall>e \<in> set es. \<forall>e' \<in> set es. \<not> scratch e (uri e')"
  shows "\<exists>w'. run_events run w es = (w', None) \<and> (\<forall>e \<in> set es. view w' (uri e) = Some (content e))"
  using assms
proof (induction es arbitrary: w)
  case (Cons e es)
  obtain w1 x where r: "run e w = (w1, x)" by fastforce
  have x: "x = None" "view w1 (uri e) = Some (content e)" using writes [OF _ r] Cons.prems by auto
  obtain w2 where w2: "run_events run w1 es = (w2, None)" "\<forall>e \<in> set es. view w2 (uri e) = Some (content e)" using Cons by fastforce
  have "view w2 (uri e) = view w1 (uri e)" using run_events_keeps [OF _ _ _ w2(1), of "uri e"] Cons.prems by auto
  then show ?case using r x w2 by simp
qed simp

end

section \<open>JSON lines sinks when nothing fails\<close>

context reliable_storage
begin

lemma jsonl_process_total:
  assumes "staged S view temp w0 fin c w s" "js_stager d = Some s" "\<not> isl (marshal r)"
  shows "\<exists>w' d'. jsonl_process_element mm wm marshal fac un w d r = (w', d', None)"
proof -
  have s: "jsonl_stager d = s" "sg_storage s = Some S" using assms(1,2) by (simp_all add: jsonl_stager_def staged_def)
  obtain line where line: "marshal r = Inr line" using assms(3) by (cases "marshal r") auto
  obtain w2 n where "st_write S w (sg_temp_uri s) (line @ [CHR 0x0A]) = (w2, n, None)" using write_total by (metis prod.collapse)
  then show ?thesis using s line ensure_open_staged [OF assms(1)] by (auto simp: jsonl_process_element_def)
qed

lemma jsonl_process_all_total:
  assumes "staged S view temp w0 fin c w s" "js_stager d = Some s" "list_all (\<lambda>r. \<not> isl (marshal r)) rs"
  shows "\<exists>w' d'. process_all (jsonl_process_element mm wm marshal fac un) w d rs = (w', d', None)"
  using assms
proof (induction rs arbitrary: w d s c)
  case (Cons r rs)
  obtain w' d' where p: "jsonl_process_element mm wm marshal fac un w d r = (w', d', None)"
    using jsonl_process_total [OF Cons.prems(1,2), where marshal = marshal and r = r and mm = mm and wm = wm and fac = fac and un = un] Cons.prems(3) by auto
  have next_state: "staged S view temp w0 fin (c @ projr (marshal r) @ [CHR 0x0A]) w' (increment_record s)" "js_stager d' = Some (increment_record s)"
    using jsonl_process_staged [OF Cons.prems(1,2), where mm = mm and wm = wm and marshal = marshal and fac = fac and un = un and r = r] p staged_increment by auto
  show ?case using Cons.IH [OF next_state] Cons.prems(3) p by simp
qed simp

lemma jsonl_bundle_total:
  assumes s: "js_stager d = Some s" "sg_storage s = Some S" and fin: "target (stager_uri un s)" and len: "int (length rs) < 2 ^ 63" and ne: "rs \<noteq> []"
    and ok: "list_all (\<lambda>r. \<not> isl (marshal r)) rs"
  shows "case run_bundle jsonl_start_bundle (jsonl_process_element mm wm marshal fac un) jsonl_finish_bundle w d rs of
    (w', d', e) \<Rightarrow> e = None \<and> published view w (stager_uri un s) (jsonl_content marshal rs) w'"
proof -
  define s0 where "s0 = stager_start_bundle s"
  define d0 where "d0 = jsonl_start_bundle d"
  let ?f = "jsonl_process_element mm wm marshal fac un" and ?u = "stager_uri un s"
  have s0: "sg_writer s0 = None" "sg_storage s0 = Some S" "stager_uri un s0 = ?u" "sg_record_count s0 = 0"
    using s by (simp_all add: s0_def stager_start_bundle_def stager_uri_def)
  have d0: "jsonl_stager d0 = s0" using s by (simp add: d0_def s0_def jsonl_start_bundle_def jsonl_stager_def)
  obtain w1 t where cr: "st_create S w ?u = (w1, Inr t)" using create_total by blast
  let ?s1 = "s0\<lparr>sg_final_uri := ?u, sg_temp_uri := t, sg_writer := Some t\<rparr>"
  have eo: "ensure_open fac un w s0 = (w1, ?s1, Inr t)" using cr s0 by (simp add: ensure_open_def stager_setup_def)
  have st: "staged S view temp w ?u [] w1 ?s1"
    using ensure_open_new [OF s0(1,2), where un = un and fac = fac and w = w, unfolded s0(3), OF fin] eo by simp
  let ?d1 = "d0\<lparr>js_stager := Some ?s1\<rparr>"
  have d1: "js_stager ?d1 = Some ?s1" "jsonl_stager ?d1 = ?s1" by (simp_all add: jsonl_stager_def)
  obtain r rs' where rs: "rs = r # rs'" using ne by (cases rs) auto
  have "?f w d0 r = ?f w1 ?d1 r" using eo d0 d1 ensure_open_staged [OF st, of fac un]
    by (simp add: jsonl_process_element_def split: sum.splits option.splits prod.splits)
  then have pa: "process_all ?f w d0 rs = process_all ?f w1 ?d1 rs" by (simp add: rs)
  obtain w2 d2 where p: "process_all ?f w d0 rs = (w2, d2, None)" using jsonl_process_all_total [OF st d1(1) ok] pa by metis
  obtain s2 where s2: "js_stager d2 = Some s2" "staged S view temp w ?u (jsonl_content marshal rs) w2 s2" "sg_record_count s2 = int (length rs)"
    using jsonl_process_all_staged [OF st d1(1), where mm = mm and wm = wm and marshal = marshal and fac = fac and un = un and rs = rs, folded pa] p s0(4) len by auto
  have "commit_or_abort None w2 s2 = commit_or_abort (Some (\<lambda>w. (w, None))) w2 s2"
    by (cases "sg_writer s2"; cases "sg_storage s2") (simp_all add: commit_or_abort_def)
  then have "snd (snd (commit_or_abort None w2 s2)) = None"
    using commit_total_staged [OF s2(2), where f = "\<lambda>w. (w, None)"] s2(2,3) ne by simp
  moreover have "case commit_or_abort None w2 s2 of (w', s', None) \<Rightarrow> published view w ?u (jsonl_content marshal rs) w' | (w', s', Some e) \<Rightarrow> True"
    using commit_staged [OF s2(2), of None "jsonl_content marshal rs"] s2(3) ne by (auto split: prod.splits option.splits)
  ultimately show ?thesis using p s2(1) by (auto simp: run_bundle_def d0_def [symmetric] jsonl_finish_bundle_def split: prod.splits)
qed

end

section \<open>A file that a bundle does not own\<close>

text \<open>The files with one name \<open>p\<close> replaced by the question whether its content is still \<open>old\<close>. Local storage keeps the laws of
  storage for this view too, if \<open>p\<close> is neither a target nor a temporary name, so a bundle leaves \<open>p\<close> alone.\<close>

definition watched :: "string \<Rightarrow> string option \<Rightarrow> local_fs \<Rightarrow> string \<Rightarrow> string option" where
  "watched p old w q = (if q = p then (if files w p = old then None else Some []) else files w q)"

lemma quiet_local:
  "st_create (local_storage (no_faults u)) w f =
    (w\<lparr>steps := Suc (steps w), files := (files w)(local_temp_uri (u (steps w)) f \<mapsto> [])\<rparr>, Inr (local_temp_uri (u (steps w)) f))"
  "st_write (local_storage (no_faults u)) w t b = (w\<lparr>steps := Suc (steps w), files := (files w)(t := map_option (\<lambda>c. c @ b) (files w t))\<rparr>, length b, None)"
  "st_close (local_storage (no_faults u)) w t = (w\<lparr>steps := Suc (steps w)\<rparr>, None)"
  "files w t = Some c \<Longrightarrow> t \<noteq> f \<Longrightarrow> st_commit (local_storage (no_faults u)) w t f = (w\<lparr>steps := Suc (steps w), files := (files w)(f \<mapsto> c, t := None)\<rparr>, None)"
  "files w t \<noteq> None \<Longrightarrow> snd (st_commit (local_storage (no_faults u)) w t f) = None"
  "fst (st_abort (local_storage (no_faults u)) w t) = w\<lparr>steps := Suc (steps w), files := (files w)(t := None)\<rparr>"
  by (auto simp: local_storage_def no_faults_def local_create_temp_def local_write_def local_close_def local_commit_temp_def local_abort_temp_def Let_def)

lemma watched_upd:
  "q \<noteq> p \<Longrightarrow> watched p old (w\<lparr>steps := n, files := (files w)(q := x)\<rparr>) = (watched p old w)(q := x)"
  "watched p old (w\<lparr>steps := n\<rparr>) = watched p old w"
  "q \<noteq> p \<Longrightarrow> q' \<noteq> p \<Longrightarrow> watched p old (w\<lparr>steps := n, files := (files w)(q := x, q' := y)\<rparr>) = (watched p old w)(q := x, q' := y)"
  "q \<noteq> p \<Longrightarrow> watched p old w q = files w q"
  by (auto simp: watched_def fun_eq_iff)

interpretation guarded: reliable_storage "local_storage (no_faults u)" "watched p old"
  "\<lambda>f. file_name f \<and> f \<noteq> p \<and> (\<forall>n. local_temp_uri (u n) f \<noteq> p)" "\<lambda>f t. t \<noteq> f \<and> t \<noteq> [] \<and> t \<noteq> p \<and> f \<noteq> p" "\<lambda>_ _. True" True for u p old
proof unfold_locales
  fix f w w' t assume "file_name f \<and> f \<noteq> p \<and> (\<forall>n. local_temp_uri (u n) f \<noteq> p)" "st_create (local_storage (no_faults u)) w f = (w', Inr t)"
  then show "(t \<noteq> f \<and> t \<noteq> [] \<and> t \<noteq> p \<and> f \<noteq> p) \<and> watched p old w' = (watched p old w)(t \<mapsto> [])"
    using local_temp_uri_distinct [of f "u (steps w)"] by (auto simp: quiet_local watched_upd)
next
  fix f t w c w' e assume "t \<noteq> f \<and> t \<noteq> [] \<and> t \<noteq> p \<and> f \<noteq> p" "watched p old w t = Some c" "st_commit (local_storage (no_faults u)) w t f = (w', Some e)"
  then show "(\<forall>q. q \<noteq> t \<longrightarrow> q \<noteq> f \<longrightarrow> watched p old w' q = watched p old w q) \<and> (watched p old w' f = watched p old w f \<or> \<not> True \<and> watched p old w' f = Some c)"
    by (simp add: quiet_local(4) watched_upd)
qed (auto simp: quiet_local watched_upd)

lemma kept_by_bundle:
  assumes "published (watched p (files w p)) w fin c w'" "p \<noteq> fin" shows "files w' p = files w p"
proof -
  have "watched p (files w p) w p = None" by (simp add: watched_def)
  then have "watched p (files w p) w' p = None" using assms by (auto simp: published_def)
  then show ?thesis by (simp add: watched_def split: if_splits)
qed

text \<open>A temporary file is recognised by its name.\<close>

lemma temp_component:
  assumes "file_name f" shows "has_prefix (last_component (local_temp_uri u f)) ''.temp-''"
proof -
  let ?n = "''.temp-'' @ uuid_string u @ ''-'' @ path_base f"
  have "path_base f \<noteq> [slash]" using assms by (simp add: file_name_def)
  then have "slash \<notin> set ?n" using path_base_component(1) uuid_no_slash by simp
  then have "last_component (local_temp_uri u f) = ?n" unfolding local_temp_uri_def by (rule path_join_name) simp
  then show ?thesis by (simp only: has_prefix_iff) blast
qed

text \<open>A bundle of the file sink and of a JSON lines sink on local storage.\<close>

lemma local_stream_bundle:
  assumes s: "ss_stager d = Some s" "sg_storage s = Some (local_storage (no_faults u))" "ss_formatter d = Some f" "file_name (stager_uri un s)"
    and rs: "int (length rs) < 2 ^ 63" "rs \<noteq> []" "\<not> isl (fm_header f)" "list_all (\<lambda>r. \<not> isl (fm_record f r)) rs"
    and layers: "ss_compression d \<in> {[], ''none''}" "ss_enc_type d \<in> {[], ''none''}"
    and run: "run_bundle (stream_start_bundle env) (stream_process_element env un) stream_finish_bundle w d rs = (w', d', e)"
  shows "e = None" "files w' (stager_uri un s) = Some (concat (stream_chunks f rs))"
    "p \<noteq> stager_uri un s \<Longrightarrow> \<forall>n. local_temp_uri (u n) (stager_uri un s) \<noteq> p \<Longrightarrow> files w' p = files w p"
proof -
  show "e = None" "files w' (stager_uri un s) = Some (concat (stream_chunks f rs))"
    using reliable.stream_bundle_total [OF s rs layers, where env = env and w = w] run by (auto simp: published_def)
  assume p: "p \<noteq> stager_uri un s" "\<forall>n. local_temp_uri (u n) (stager_uri un s) \<noteq> p"
  show "files w' p = files w p"
    using guarded.stream_bundle_total [OF s(1-3) _ rs layers, where env = env and w = w and un = un and p = p and old = "files w p"] s(4) p run
    by (auto intro!: kept_by_bundle)
qed

lemma local_jsonl_bundle:
  assumes s: "js_stager d = Some s" "sg_storage s = Some (local_storage (no_faults u))" "file_name (stager_uri un s)"
    and rs: "int (length rs) < 2 ^ 63" "rs \<noteq> []" "list_all (\<lambda>r. \<not> isl (marshal r)) rs"
    and run: "run_bundle jsonl_start_bundle (jsonl_process_element mm wm marshal fac un) jsonl_finish_bundle w d rs = (w', d', e)"
  shows "e = None" "files w' (stager_uri un s) = Some (jsonl_content marshal rs)"
    "p \<noteq> stager_uri un s \<Longrightarrow> \<forall>n. local_temp_uri (u n) (stager_uri un s) \<noteq> p \<Longrightarrow> files w' p = files w p"
proof -
  show "e = None" "files w' (stager_uri un s) = Some (jsonl_content marshal rs)"
    using reliable.jsonl_bundle_total [OF s rs, where mm = mm and wm = wm and fac = fac and w = w] run by (auto simp: published_def)
  assume p: "p \<noteq> stager_uri un s" "\<forall>n. local_temp_uri (u n) (stager_uri un s) \<noteq> p"
  show "files w' p = files w p"
    using guarded.jsonl_bundle_total [OF s(1,2) _ rs, where mm = mm and wm = wm and fac = fac and w = w and un = un and p = p and old = "files w p"] s(3) p run
    by (auto intro!: kept_by_bundle)
qed

section \<open>The stage on local storage\<close>

text \<open>The sinks of a run that writes CSV with a header to a local directory.\<close>

definition stage_stager :: "('w, 'l) stage_sinks \<Rightarrow> sink_bundle \<Rightarrow> 'w stager" where
  "stage_stager K e = (case e of ValidBundle _ _ \<Rightarrow> stream_new_stager (sk_valid K) | DlqBundle _ _ \<Rightarrow> jsonl_stager (sk_dlq K)
     | AuditBundle _ _ \<Rightarrow> jsonl_stager (the (sk_audit K)))"

definition stage_uri :: "('w, 'l) stage_sinks \<Rightarrow> sink_bundle \<Rightarrow> string" where
  "stage_uri K e = stager_uri (bundle_id e) (stage_stager K e)"

definition stage_content :: "('w, 'l) stage_sinks \<Rightarrow> sink_bundle \<Rightarrow> string" where
  "stage_content K e = (case e of ValidBundle _ rs \<Rightarrow> concat (stream_chunks (the (ss_formatter (sk_valid K))) rs)
     | DlqBundle _ rs \<Rightarrow> jsonl_content (sk_dlq_json K) rs | AuditBundle _ rs \<Rightarrow> jsonl_content (sk_audit_json K) rs)"

definition local_stage :: "(nat \<Rightarrow> 128 word) \<Rightarrow> (local_fs, 'l) stage_sinks \<Rightarrow> bool" where
  "local_stage u K \<longleftrightarrow> (\<exists>s f. ss_stager (sk_valid K) = Some s \<and> sg_storage s = Some (local_storage (no_faults u)) \<and> ss_formatter (sk_valid K) = Some f \<and>
       \<not> isl (fm_header f) \<and> (\<forall>r. \<not> isl (fm_record f r))) \<and>
     ss_compression (sk_valid K) \<in> {[], ''none''} \<and> ss_enc_type (sk_valid K) \<in> {[], ''none''} \<and>
     (\<exists>s. js_stager (sk_dlq K) = Some s \<and> sg_storage s = Some (local_storage (no_faults u))) \<and> (\<forall>r. \<not> isl (sk_dlq_json K r)) \<and>
     (\<forall>a. sk_audit K = Some a \<longrightarrow> (\<exists>s. js_stager a = Some s \<and> sg_storage s = Some (local_storage (no_faults u)))) \<and> (\<forall>r. \<not> isl (sk_audit_json K r))"

definition stage_bundle_ok :: "('w, 'l) stage_sinks \<Rightarrow> sink_bundle \<Rightarrow> bool" where
  "stage_bundle_ok K e \<longleftrightarrow> \<not> bundle_empty e \<and> int (bundle_count e) < 2 ^ 63 \<and> file_name (stage_uri K e) \<and> (audit_part e \<noteq> [] \<longrightarrow> sk_audit K \<noteq> None)"

lemma local_stage_run:
  assumes "local_stage u K" "stage_bundle_ok K e" "apply_sink_stage K e w = (w', err)"
  shows "err = None" "files w' (stage_uri K e) = Some (stage_content K e)"
    "p \<noteq> stage_uri K e \<Longrightarrow> \<forall>n. local_temp_uri (u n) (stage_uri K e) \<noteq> p \<Longrightarrow> files w' p = files w p"
proof -
  have "err = None \<and> files w' (stage_uri K e) = Some (stage_content K e) \<and>
    (p \<noteq> stage_uri K e \<longrightarrow> (\<forall>n. local_temp_uri (u n) (stage_uri K e) \<noteq> p) \<longrightarrow> files w' p = files w p)"
  proof (cases e)
    case (ValidBundle un rs)
    obtain s f where s: "ss_stager (sk_valid K) = Some s" "sg_storage s = Some (local_storage (no_faults u))" "ss_formatter (sk_valid K) = Some f"
      "\<not> isl (fm_header f)" "\<And>r. \<not> isl (fm_record f r)" using assms(1) by (auto simp: local_stage_def)
    have u: "stage_uri K e = stager_uri un s" using s(1) ValidBundle by (simp add: stage_uri_def stage_stager_def stream_new_stager_def)
    obtain d' where run: "run_bundle (stream_start_bundle (sk_env K)) (stream_process_element (sk_env K) un) stream_finish_bundle w (sk_valid K) rs = (w', d', err)"
      using assms(3) ValidBundle by (auto simp: apply_sink_stage_def split: prod.splits)
    have rs: "int (length rs) < 2 ^ 63" "rs \<noteq> []" "file_name (stager_uri un s)" using assms(2) ValidBundle u by (auto simp: stage_bundle_ok_def bundle_empty_def bundle_count_def)
    have l: "ss_compression (sk_valid K) \<in> {[], ''none''}" "ss_enc_type (sk_valid K) \<in> {[], ''none''}" using assms(1) by (auto simp: local_stage_def)
    note b = local_stream_bundle [OF s(1-3) rs(3,1,2) s(4) _ l run]
    show ?thesis using b s(3,5) u ValidBundle by (simp add: stage_content_def list_all_iff)
  next
    case (DlqBundle un rs)
    obtain s where s: "js_stager (sk_dlq K) = Some s" "sg_storage s = Some (local_storage (no_faults u))" using assms(1) by (auto simp: local_stage_def)
    have u: "stage_uri K e = stager_uri un s" using s(1) DlqBundle by (simp add: stage_uri_def stage_stager_def jsonl_stager_def)
    obtain d' where run: "run_bundle jsonl_start_bundle (dlq_process_element (sk_dlq_json K) (storage_factory (sk_env K)) un) jsonl_finish_bundle w (sk_dlq K) rs = (w', d', err)"
      using assms(3) DlqBundle by (auto simp: apply_sink_stage_def split: prod.splits)
    have rs: "int (length rs) < 2 ^ 63" "rs \<noteq> []" "file_name (stager_uri un s)" "list_all (\<lambda>r. \<not> isl (sk_dlq_json K r)) rs"
      using assms(1,2) DlqBundle u by (auto simp: stage_bundle_ok_def bundle_empty_def bundle_count_def local_stage_def list_all_iff)
    show ?thesis using local_jsonl_bundle [OF s rs(3,1,2,4) run [unfolded dlq_process_element_def]] u DlqBundle by (simp add: stage_content_def)
  next
    case (AuditBundle un rs)
    obtain a where a: "sk_audit K = Some a" using assms(2) AuditBundle by (auto simp: stage_bundle_ok_def bundle_empty_def)
    obtain s where s: "js_stager a = Some s" "sg_storage s = Some (local_storage (no_faults u))" using assms(1) a by (auto simp: local_stage_def)
    have u: "stage_uri K e = stager_uri un s" using s(1) a AuditBundle by (simp add: stage_uri_def stage_stager_def jsonl_stager_def)
    obtain d' where run: "run_bundle jsonl_start_bundle (audit_process_element (sk_audit_json K) (storage_factory (sk_env K)) un) jsonl_finish_bundle w a rs = (w', d', err)"
      using assms(3) AuditBundle a by (auto simp: apply_sink_stage_def split: prod.splits)
    have rs: "int (length rs) < 2 ^ 63" "rs \<noteq> []" "file_name (stager_uri un s)" "list_all (\<lambda>r. \<not> isl (sk_audit_json K r)) rs"
      using assms(1,2) AuditBundle u by (auto simp: stage_bundle_ok_def bundle_empty_def bundle_count_def local_stage_def list_all_iff)
    show ?thesis using local_jsonl_bundle [OF s rs(3,1,2,4) run [unfolded audit_process_element_def]] u AuditBundle by (simp add: stage_content_def)
  qed
  then show "err = None" "files w' (stage_uri K e) = Some (stage_content K e)"
    "p \<noteq> stage_uri K e \<Longrightarrow> \<forall>n. local_temp_uri (u n) (stage_uri K e) \<noteq> p \<Longrightarrow> files w' p = files w p" by blast+
qed

interpretation stage: bundle_writes "apply_sink_stage K" files "\<lambda>e. local_stage u K \<and> stage_bundle_ok K e" "stage_uri K" "stage_content K"
  "\<lambda>e p. \<exists>n. local_temp_uri (u n) (stage_uri K e) = p" for K u
  by unfold_locales (auto dest: local_stage_run)

section \<open>Properties\<close>

text \<open>The sinks of a configuration, on local storage that does not fail.\<close>

definition csv_stage ::
  "go_env \<Rightarrow> json_env \<Rightarrow> (local_fs, 'l, generic_record) sink_env \<Rightarrow> (dead_letter_record \<Rightarrow> string + string) \<Rightarrow> (audit_record \<Rightarrow> string + string) \<Rightarrow>
   (nat \<Rightarrow> 128 word) \<Rightarrow> pipeline_config \<Rightarrow> local_fs stream_file_beam_sink \<Rightarrow> (local_fs, 'l) stage_sinks" where
  "csv_stage env je senv dj aj u cfg b = (let st = Some (local_storage (no_faults u)) in
     \<lparr>sk_valid = stream_file_do_fn env je b, sk_dlq = build_dlq_sink cfg st, sk_audit = build_audit_sink cfg st, sk_env = senv, sk_dlq_json = dj, sk_audit_json = aj\<rparr>)"

text \<open>A runner hands each record of the three collections to its sink in one bundle, and no bundle is empty.\<close>

definition faithful_bundles :: "sink_bundle list \<Rightarrow> generic_record list \<Rightarrow> dead_letter_record list \<Rightarrow> audit_record list \<Rightarrow> bool" where
  "faithful_bundles es valid dlq audit \<longleftrightarrow> mset (concat (map valid_part es)) = mset valid \<and> mset (concat (map dlq_part es)) = mset dlq \<and>
     mset (concat (map audit_part es)) = mset audit \<and> list_all (\<lambda>e. \<not> bundle_empty e \<and> int (bundle_count e) < 2 ^ 63) es"

lemma csv_stage_local:
  fixes senv :: "(local_fs, 'l, generic_record) sink_env"
  assumes "mset rs = mset sink_registrations" "register_all env [] rs = Inr reg"
    and "de_type (pl_destination cfg) \<in> set (dispatcher_names @ delimited_names)" "de_output_format (pl_destination cfg) = ''csv''"
      "de_compression (pl_destination cfg) \<in> {[], ''none''}" "en_type (de_encryption (pl_destination cfg)) \<in> {[], ''none''}"
    and "plain_delim (cf_delimiter (new_csv_formatter (de_format_options (pl_destination cfg))))" "fo_include_header (de_format_options (pl_destination cfg))"
      "sch_fields (get_schema cfg) \<noteq> []"
    and "\<forall>r. \<not> isl (dj r)" "\<forall>r. \<not> isl (aj r)"
    and "build_destination_sink env now reg cfg (Some (local_storage (no_faults u))) sec = Some (Inr (StreamFileBeamSink b))"
  shows "local_stage u (csv_stage env je senv dj aj u cfg b)"
    "stage_content (csv_stage env je senv dj aj u cfg b) (ValidBundle un recs) = csv_text env (new_csv_formatter (de_format_options (pl_destination cfg))) (get_schema cfg) recs"
proof -
  let ?d = "pl_destination cfg" and ?st = "Some (local_storage (no_faults u))" and ?f = "new_csv_formatter (de_format_options (pl_destination cfg))"
  let ?D = "stream_file_do_fn env je b :: (local_fs, 'l, generic_record) stream_sink"
  have b: "sf_storage b = ?st" "sf_formatter b = Some (CSVFormatter ?f)" "sf_compression b = de_compression ?d" "sf_encryption b = de_encryption ?d" "sf_schema b = get_schema cfg"
    using delimited_destination [OF registered_lookup [OF assms(1,2)] _ assms(3), of env now ?st sec] assms(4,12)
    by (auto simp: delimited_sink_factory_def registry_csv csv_factory_def lift_error_def delimited_names_def Let_def)
  have k: "ss_compression ?D \<in> {[], ''none''}" "ss_enc_type ?D \<in> {[], ''none''}"
    using plain_sink_stager(2,3) [of b env je] assms(5,6) b by simp_all
  have fm: "ss_formatter ?D = Some (sink_formatter env je (CSVFormatter ?f) (get_schema cfg))"
    using b by (simp add: stream_file_do_fn_def new_stream_file_sink_def)
  have inc: "cf_include_header ?f" using assms(8) by (simp add: new_csv_formatter_def)
  note chunks = csv_text_chunks [OF assms(7) inc assms(9), where env = env and je = je]
  show "stage_content (csv_stage env je senv dj aj u cfg b) (ValidBundle un recs) = csv_text env ?f (get_schema cfg) recs"
    using fm chunks(1) by (simp add: stage_content_def csv_stage_def Let_def)
  have "\<not> isl (fm_record (sink_formatter env je (CSVFormatter ?f) (get_schema cfg)) r)" for r using chunks(3) [of "[r]"] by simp
  then show "local_stage u (csv_stage env je senv dj aj u cfg b)"
    using fm k chunks(2) b(1) assms(10,11)
    by (simp add: local_stage_def csv_stage_def Let_def build_dlq_sink_def build_audit_sink_def new_jsonl_sink_def new_bundle_file_stager_def)
      (simp add: stream_file_do_fn_def new_stream_file_sink_def new_bundle_file_stager_def)
qed


text \<open>The example: of a nil and a record with an integer, the record is published in \<^verbatim>\<open>/out/data.csv\<close>.\<close>

definition with_id :: generic_record where
  "with_id = \<lparr>schema_id = [], vals = [zero_value\<lparr>fv_type := TypeInt64\<rparr>], audit_fields = []\<rparr>"

definition one_bundle :: runner where
  "one_bundle = \<lparr>bundle_values = (\<lambda>k vs. Bundle vs), bundle_summaries = Bundle\<rparr>"

definition quiet_stage :: "local_fs stream_file_beam_sink \<Rightarrow> (local_fs, unit) stage_sinks" where
  "quiet_stage = csv_stage sample_env \<lparr>json_quote = id, json_bytes = id\<rparr> plain_workers (\<lambda>_. Inr []) (\<lambda>_. Inr []) (\<lambda>_. 0) csv_config"

lemma with_id_ingested:
  "\<exists>v. apply_ingestion_stage sample_env [(0, None), (1, Some with_id)] id_schema [] [] = Some ([v], [], [])"
proof -
  have "map_option (\<lambda>(v, d, a). (length v, d, a)) (apply_ingestion_stage sample_env [(0, None), (1, Some with_id)] id_schema [] []) = Some (1, [], [])"
    by code_simp
  then show ?thesis by (auto simp: length_Suc_conv)
qed


end
