(* ===== verification/Token_Bucket.thy ===== *)
theory Token_Bucket
  imports Omni_Prelude Complex_Main
begin

text \<open>
  The rate limiter of the HTTP client, \<^verbatim>\<open>internal/adapters/paged_api/source/token_bucket.go\<close>. A float is the rational number it stands for,
  and \<open>rnd\<close> is the rounding of an exact result to a float (results beyond the largest float do not arise: tokens are at most 1). An iteration of
  the loop of \<^verbatim>\<open>Wait\<close> holds the lock, so any number of waiting goroutines is a sequence of iterations at the times
  their clock gives, in nanoseconds of the monotonic clock.
\<close>

section \<open>The bucket (token_bucket.go)\<close>

record token_bucket =
  tb_rate :: rat
  tb_capacity :: rat
  tb_tokens :: rat
  tb_last_refill :: int

definition new_token_bucket :: "rat \<Rightarrow> int \<Rightarrow> token_bucket option" where
  "new_token_bucket rps now = (if rps \<le> 0 then None else Some \<lparr>tb_rate = rps, tb_capacity = 1, tb_tokens = 1, tb_last_refill = now\<rparr>)"

text \<open>\<^verbatim>\<open>Duration.Seconds\<close>: whole seconds and the rest, each converted and then added; a difference of times is not negative.\<close>

definition seconds :: "(rat \<Rightarrow> rat) \<Rightarrow> int \<Rightarrow> rat" where
  "seconds rnd d = rnd (rnd (of_int (d div 1000000000)) + rnd (of_int (d mod 1000000000) / 1000000000))"

definition refill :: "(rat \<Rightarrow> rat) \<Rightarrow> int \<Rightarrow> token_bucket \<Rightarrow> token_bucket" where
  "refill rnd now tb = (let t = rnd (tb_tokens tb + rnd (seconds rnd (now - tb_last_refill tb) * tb_rate tb)) in
     tb\<lparr>tb_tokens := (if t > tb_capacity tb then tb_capacity tb else t), tb_last_refill := now\<rparr>)"

text \<open>One iteration: a token is taken, or the time to wait for one.\<close>

definition wait_step :: "(rat \<Rightarrow> rat) \<Rightarrow> int \<Rightarrow> token_bucket \<Rightarrow> token_bucket \<times> int option" where
  "wait_step rnd now tb0 = (let tb = refill rnd now tb0 in
     if tb_tokens tb \<ge> 1 then (tb\<lparr>tb_tokens := rnd (tb_tokens tb - 1)\<rparr>, None)
     else (tb, Some \<lfloor>rnd (rnd (rnd (1 - tb_tokens tb) / tb_rate tb) * 1000000000)\<rfloor>))"

text \<open>\<^verbatim>\<open>Wait\<close> of one goroutine: the list holds, for each iteration, the time and whether the context ends before the timer;
  \<^term>\<open>None\<close> is a call that is still waiting at the end of the list.\<close>

fun wait_loop :: "(rat \<Rightarrow> rat) \<Rightarrow> token_bucket \<Rightarrow> (int \<times> string option) list \<Rightarrow> token_bucket \<times> string option option" where
  "wait_loop rnd tb [] = (tb, None)"
| "wait_loop rnd tb ((now, ctx) # clock_readings) = (case wait_step rnd now tb of
      (tb', None) \<Rightarrow> (tb', Some None)
    | (tb', Some _) \<Rightarrow> (case ctx of Some e \<Rightarrow> (tb', Some (Some e)) | None \<Rightarrow> wait_loop rnd tb' clock_readings))"

definition token_wait :: "(rat \<Rightarrow> rat) \<Rightarrow> string option \<Rightarrow> (int \<times> string option) list \<Rightarrow> token_bucket option \<Rightarrow> token_bucket option \<times> string option option" where
  "token_wait rnd ctx_err readings tb = (case tb of
      None \<Rightarrow> (None, Some None)
    | Some b \<Rightarrow> (case ctx_err of Some e \<Rightarrow> (Some b, Some (Some e)) | None \<Rightarrow> (case wait_loop rnd b readings of (b', r) \<Rightarrow> (Some b', r))))"

section \<open>Iterations of all goroutines\<close>

fun wait_steps :: "(rat \<Rightarrow> rat) \<Rightarrow> token_bucket \<Rightarrow> int list \<Rightarrow> token_bucket \<times> bool list" where
  "wait_steps rnd tb [] = (tb, [])"
| "wait_steps rnd tb (now # ts) = (case wait_step rnd now tb of (tb1, r) \<Rightarrow> (case wait_steps rnd tb1 ts of (tb2, gs) \<Rightarrow> (tb2, (r = None) # gs)))"

text \<open>What is used of the rounding: it is monotone, keeps 0 and 1, and an exact result is exceeded by at most the relative error \<open>eps\<close>
  and, below the normal floats, the absolute error \<open>dlt\<close>; for IEEE double precision these are \<open>2 ^ -53\<close> and \<open>2 ^ -1075\<close>.\<close>

definition rounding :: "(rat \<Rightarrow> rat) \<Rightarrow> rat \<Rightarrow> rat \<Rightarrow> bool" where
  "rounding rnd eps dlt \<longleftrightarrow> (\<forall>x y. x \<le> y \<longrightarrow> rnd x \<le> rnd y) \<and> rnd 0 = 0 \<and> rnd 1 = 1 \<and> 0 \<le> eps \<and> 0 \<le> dlt \<and>
     (\<forall>x. 0 \<le> x \<longrightarrow> rnd x \<le> (1 + eps) * x + dlt)"

definition bucket_ok :: "token_bucket \<Rightarrow> bool" where
  "bucket_ok tb \<longleftrightarrow> 0 < tb_rate tb \<and> tb_capacity tb = 1 \<and> 0 \<le> tb_tokens tb \<and> tb_tokens tb \<le> 1"

lemma rounding_nonneg: "rounding rnd eps dlt \<Longrightarrow> 0 \<le> x \<Longrightarrow> 0 \<le> rnd x"
  unfolding rounding_def by metis

lemma seconds_nonneg:
  assumes "rounding rnd eps dlt" "0 \<le> d" shows "0 \<le> seconds rnd d"
  using assms unfolding seconds_def
  by (intro rounding_nonneg [OF assms(1)] add_nonneg_nonneg) (simp_all add: pos_imp_zdiv_nonneg_iff)

lemma seconds_bound:
  assumes "rounding rnd eps dlt" "0 \<le> d"
  shows "seconds rnd d \<le> (1 + eps) ^ 2 * (of_int d / 1000000000) + (2 * (1 + eps) + 1) * dlt"
proof -
  let ?s = "of_int (d div 1000000000) :: rat" and ?n = "of_int (d mod 1000000000) / 1000000000 :: rat" and ?a = "1 + eps"
  have pos: "0 \<le> ?s" "0 \<le> ?n" "0 \<le> eps" "0 \<le> dlt" using assms by (simp_all add: rounding_def pos_imp_zdiv_nonneg_iff)
  have up: "rnd x \<le> ?a * x + dlt" if "0 \<le> x" for x using assms(1) that by (simp add: rounding_def)
  have "0 \<le> rnd ?s + rnd ?n" using rounding_nonneg [OF assms(1)] pos by simp
  then have "seconds rnd d \<le> ?a * (rnd ?s + rnd ?n) + dlt" unfolding seconds_def by (rule up)
  also have "\<dots> \<le> ?a * ((?a * ?s + dlt) + (?a * ?n + dlt)) + dlt"
    using up [OF pos(1)] up [OF pos(2)] pos(3) by (intro add_right_mono mult_left_mono) simp_all
  also have "\<dots> = ?a ^ 2 * (?s + ?n) + (2 * ?a + 1) * dlt" by (simp add: power2_eq_square algebra_simps)
  also have "?s + ?n = of_int d / 1000000000"
  proof -
    have "(of_int d :: rat) = of_int (1000000000 * (d div 1000000000) + d mod 1000000000)" by simp
    also have "\<dots> = 1000000000 * ?s + of_int (d mod 1000000000)" by (simp only: of_int_add of_int_mult of_int_numeral)
    finally show ?thesis by (simp add: field_simps)
  qed
  finally show ?thesis .
qed

text \<open>What the errors of one refill add to, as a multiple of \<open>dlt\<close>.\<close>

definition refill_slack :: "rat \<Rightarrow> rat \<Rightarrow> rat" where
  "refill_slack eps rate = (1 + eps) * (2 * (1 + eps) + 1) * rate + 2"

lemma refill_amount:
  assumes "rounding rnd eps dlt" "0 \<le> d" "0 < rate"
  shows "0 \<le> rnd (seconds rnd d * rate)"
    "rnd (seconds rnd d * rate) + dlt \<le> (1 + eps) ^ 3 * rate * (of_int d / 1000000000) + refill_slack eps rate * dlt"
proof -
  let ?a = "1 + eps" and ?x = "of_int d / 1000000000 :: rat"
  have nn: "0 \<le> seconds rnd d * rate" using seconds_nonneg [OF assms(1,2)] assms(3) by simp
  then show "0 \<le> rnd (seconds rnd d * rate)" by (rule rounding_nonneg [OF assms(1)])
  have "rnd (seconds rnd d * rate) \<le> ?a * (seconds rnd d * rate) + dlt" using assms(1) nn by (simp add: rounding_def)
  also have "\<dots> \<le> ?a * ((?a ^ 2 * ?x + (2 * ?a + 1) * dlt) * rate) + dlt"
    using seconds_bound [OF assms(1,2)] assms(1,3) by (intro add_right_mono mult_left_mono mult_right_mono) (simp_all add: rounding_def)
  finally show "rnd (seconds rnd d * rate) + dlt \<le> ?a ^ 3 * rate * ?x + refill_slack eps rate * dlt"
    by (simp add: refill_slack_def power2_eq_square power3_eq_cube algebra_simps)
qed

lemma refill_bounds:
  assumes "rounding rnd eps dlt" "bucket_ok tb" "tb_last_refill tb \<le> now"
  shows "bucket_ok (refill rnd now tb)" "tb_rate (refill rnd now tb) = tb_rate tb" "tb_last_refill (refill rnd now tb) = now"
    "tb_tokens (refill rnd now tb) \<le> (1 + eps) * (tb_tokens tb + ((1 + eps) ^ 3 * tb_rate tb * (of_int (now - tb_last_refill tb) / 1000000000) +
       refill_slack eps (tb_rate tb) * dlt))"
proof -
  let ?p = "rnd (seconds rnd (now - tb_last_refill tb) * tb_rate tb)" and ?a = "1 + eps"
  have b: "0 < tb_rate tb" "tb_capacity tb = 1" "0 \<le> tb_tokens tb" "0 \<le> now - tb_last_refill tb" using assms(2,3) by (simp_all add: bucket_ok_def)
  note amt = refill_amount [OF assms(1) b(4,1)]
  have nn: "0 \<le> tb_tokens tb + ?p" using amt(1) b(3) by simp
  have e: "0 \<le> eps" "0 \<le> dlt" using assms(1) by (simp_all add: rounding_def)
  show "bucket_ok (refill rnd now tb)" "tb_rate (refill rnd now tb) = tb_rate tb" "tb_last_refill (refill rnd now tb) = now"
    using b rounding_nonneg [OF assms(1) nn] by (simp_all add: refill_def bucket_ok_def Let_def)
  have "tb_tokens (refill rnd now tb) \<le> rnd (tb_tokens tb + ?p)" by (simp add: refill_def Let_def)
  also have "\<dots> \<le> ?a * (tb_tokens tb + ?p) + dlt" using assms(1) nn by (simp add: rounding_def)
  also have "\<dots> \<le> ?a * (tb_tokens tb + ?p) + ?a * dlt" using e by (simp add: mult_le_cancel_right1 algebra_simps)
  also have "\<dots> = ?a * (tb_tokens tb + (?p + dlt))" by (simp add: algebra_simps)
  also have "\<dots> \<le> ?a * (tb_tokens tb + (?a ^ 3 * tb_rate tb * (of_int (now - tb_last_refill tb) / 1000000000) + refill_slack eps (tb_rate tb) * dlt))"
    using amt(2) e by (intro mult_left_mono add_left_mono) simp_all
  finally show "tb_tokens (refill rnd now tb) \<le> (1 + eps) * (tb_tokens tb + ((1 + eps) ^ 3 * tb_rate tb * (of_int (now - tb_last_refill tb) / 1000000000) +
       refill_slack eps (tb_rate tb) * dlt))" .
qed

text \<open>A granted token was a whole one: the bucket is empty afterwards.\<close>

lemma wait_step_bounds:
  assumes "rounding rnd eps dlt" "bucket_ok tb" "tb_last_refill tb \<le> now" "wait_step rnd now tb = (tb', r)"
  shows "bucket_ok tb'" "tb_rate tb' = tb_rate tb" "tb_last_refill tb' = now"
    "r = None \<Longrightarrow> tb_tokens tb' = 0 \<and> tb_tokens (refill rnd now tb) = 1" "r \<noteq> None \<Longrightarrow> tb' = refill rnd now tb"
proof -
  note rf = refill_bounds [OF assms(1-3)]
  have zero: "rnd 0 = 0" using assms(1) by (simp add: rounding_def)
  have one: "tb_tokens (refill rnd now tb) = 1" if "1 \<le> tb_tokens (refill rnd now tb)" using rf(1) that by (simp add: bucket_ok_def)
  show "bucket_ok tb'" "tb_rate tb' = tb_rate tb" "tb_last_refill tb' = now"
    "r = None \<Longrightarrow> tb_tokens tb' = 0 \<and> tb_tokens (refill rnd now tb) = 1" "r \<noteq> None \<Longrightarrow> tb' = refill rnd now tb"
    using assms(4) rf(1-3) one zero by (auto simp: wait_step_def bucket_ok_def Let_def split: if_splits)
qed

lemma tokens_until_grant:
  assumes "rounding rnd eps dlt" "bucket_ok tb" "sorted (tb_last_refill tb # ts @ [t])" "snd (wait_steps rnd tb (ts @ [t])) = replicate (length ts) False @ [True]"
  shows "1 \<le> (1 + eps) ^ Suc (length ts) * (tb_tokens tb + ((1 + eps) ^ 3 * tb_rate tb * (of_int (t - tb_last_refill tb) / 1000000000) +
    of_nat (Suc (length ts)) * (refill_slack eps (tb_rate tb) * dlt)))"
  using assms(2-4)
proof (induction ts arbitrary: tb)
  case Nil
  obtain tb' r where st: "wait_step rnd t tb = (tb', r)" by fastforce
  have "r = None" using Nil(3) st by simp
  then have "tb_tokens (refill rnd t tb) = 1" using wait_step_bounds(4) [OF assms(1) Nil(1) _ st] Nil(2) by simp
  then show ?case using refill_bounds(4) [OF assms(1) Nil(1), of t] Nil(2) by simp
next
  case (Cons s ts)
  let ?a = "1 + eps" and ?k = "refill_slack eps (tb_rate tb) * dlt" and ?c = "(1 + eps) ^ 3 * tb_rate tb"
  obtain tb' r where st: "wait_step rnd s tb = (tb', r)" by fastforce
  obtain gs tb2 where rest: "wait_steps rnd tb' (ts @ [t]) = (tb2, gs)" by fastforce
  have le: "tb_last_refill tb \<le> s" using Cons.prems(2) by simp
  have r: "r \<noteq> None" "gs = replicate (length ts) False @ [True]" using Cons.prems(3) st rest by simp_all
  note b = wait_step_bounds [OF assms(1) Cons.prems(1) le st]
  have tb': "tb_tokens tb' \<le> ?a * (tb_tokens tb + (?c * (of_int (s - tb_last_refill tb) / 1000000000) + ?k))"
    using refill_bounds(4) [OF assms(1) Cons.prems(1) le] b(5) [OF r(1)] by simp
  have e: "1 \<le> ?a" "0 \<le> dlt" using assms(1) by (simp_all add: rounding_def)
  have slack: "0 \<le> ?k" using e Cons.prems(1) by (simp add: refill_slack_def bucket_ok_def)
  have c: "0 \<le> ?c" using e Cons.prems(1) by (simp add: bucket_ok_def)
  have later: "0 \<le> ?c * (of_int (t - s) / 1000000000) + of_nat (Suc (length ts)) * ?k" (is "0 \<le> ?rest")
  proof (rule add_nonneg_nonneg)
    show "0 \<le> ?c * (of_int (t - s) / 1000000000)" by (rule mult_nonneg_nonneg [OF c]) (use Cons.prems(2) in simp)
    show "0 \<le> of_nat (Suc (length ts)) * ?k" by (rule mult_nonneg_nonneg [OF _ slack]) simp
  qed
  have "1 \<le> ?a ^ Suc (length ts) * (tb_tokens tb' + ?rest)"
    using Cons.IH [OF b(1)] Cons.prems(2) r(2) rest b(2,3) by simp
  also have "\<dots> \<le> ?a ^ Suc (length ts) * (?a * (tb_tokens tb + (?c * (of_int (s - tb_last_refill tb) / 1000000000) + ?k)) + ?a * ?rest)"
    using tb' e(1) later by (intro mult_left_mono add_mono) (simp_all add: mult_le_cancel_right1)
  also have "\<dots> = ?a ^ Suc (Suc (length ts)) * (tb_tokens tb + (?c * (of_int (t - tb_last_refill tb) / 1000000000) + of_nat (Suc (Suc (length ts))) * ?k))"
    by (simp add: algebra_simps add_divide_distrib diff_divide_distrib)
  finally show ?case by simp
qed

section \<open>Properties\<close>

text \<open>C30. The limiter keeps its rate. However many goroutines wait, the tokens of a bucket stay between 0 and 1, and when an iteration at
  time \<open>t0\<close> and, after \<open>n\<close> iterations that took no token, one at time \<open>t\<close> take a token, then at least the time for one token has passed between
  them: the rate times the seconds from \<open>t0\<close> to \<open>t\<close> is at least 1, up to the rounding of the arithmetic. So no burst is possible, even after a
  long pause.\<close>

theorem token_bucket_keeps_rate:
  assumes "rounding rnd eps dlt" "new_token_bucket rps start = Some tb0" "sorted (start # ts0 @ t0 # ts @ [t])"
    and "wait_steps rnd tb0 ts0 = (tb, gs)" "snd (wait_steps rnd tb (t0 # ts @ [t])) = True # replicate (length ts) False @ [True]"
  shows "0 \<le> tb_tokens tb \<and> tb_tokens tb \<le> 1 \<and>
    1 \<le> (1 + eps) ^ Suc (length ts) * ((1 + eps) ^ 3 * rps * (of_int (t - t0) / 1000000000) + of_nat (Suc (length ts)) * (refill_slack eps rps * dlt))"
proof -
  have run: "bucket_ok tb \<and> tb_rate tb = tb_rate tb1 \<and> (\<exists>l. tb_last_refill tb = l \<and> sorted (l # t0 # ts @ [t]))"
    if "bucket_ok tb1" "sorted (tb_last_refill tb1 # ts1 @ t0 # ts @ [t])" "wait_steps rnd tb1 ts1 = (tb, gs)" for tb1 ts1 gs
    using that
  proof (induction ts1 arbitrary: tb1 gs)
    case (Cons s ts1)
    obtain tb' r where st: "wait_step rnd s tb1 = (tb', r)" by fastforce
    obtain gs' where rest: "wait_steps rnd tb' ts1 = (tb, gs')" using Cons.prems(3) st by (auto split: prod.splits)
    have le: "tb_last_refill tb1 \<le> s" using Cons.prems(2) by simp
    note b = wait_step_bounds [OF assms(1) Cons.prems(1) le st]
    show ?case using Cons.IH [OF b(1) _ rest] Cons.prems(2) b(2,3) by simp
  qed auto
  have tb0: "bucket_ok tb0" "tb_rate tb0 = rps" "tb_last_refill tb0 = start" using assms(2) by (auto simp: new_token_bucket_def bucket_ok_def split: if_splits)
  have tb: "bucket_ok tb" "tb_rate tb = rps" "sorted (tb_last_refill tb # t0 # ts @ [t])" using run [OF tb0(1) _ assms(4)] assms(3) tb0(2,3) by auto
  obtain tb' r where st: "wait_step rnd t0 tb = (tb', r)" by fastforce
  have le: "tb_last_refill tb \<le> t0" using tb(3) by simp
  have g: "r = None" "snd (wait_steps rnd tb' (ts @ [t])) = replicate (length ts) False @ [True]" using assms(5) st by (auto split: prod.splits)
  note b = wait_step_bounds [OF assms(1) tb(1) le st]
  show ?thesis using tokens_until_grant [OF assms(1) b(1) _ g(2)] tb b(2,3) b(4) [OF g(1)] by (simp add: bucket_ok_def)
qed

text \<open>The example: one token a second, with exact arithmetic; the second token is taken after a second, not after half of one.\<close>

theorem token_bucket_keeps_rate_witness:
  "snd (wait_steps id \<lparr>tb_rate = 1, tb_capacity = 1, tb_tokens = 1, tb_last_refill = 0\<rparr> [5, 500000005, 1000000005]) = [True, False, True] \<and>
   (1 :: rat) \<le> of_int (1000000005 - 5) / 1000000000"
proof -
  let ?tb = "\<lparr>tb_rate = 1, tb_capacity = 1, tb_tokens = 1, tb_last_refill = 0\<rparr>"
  have run: "snd (wait_steps id ?tb (5 # [500000005] @ [1000000005])) = True # replicate (length [500000005 :: int]) False @ [True]"
    by (simp add: wait_step_def refill_def seconds_def Let_def)
  show ?thesis
    using token_bucket_keeps_rate [of id 0 0 1 0 ?tb "[]" 5 "[500000005]" 1000000005 ?tb "[]"] run
    by (simp add: rounding_def new_token_bucket_def)
qed

end
