(* ===== verification/Prefetch.thy ===== *)
theory Prefetch
  imports Omni_Prelude
begin

text \<open>
  The prefetching reader of \<^verbatim>\<open>pkg/ioutils/prefetch_reader.go\<close>: a goroutine reads chunks from the underlying reader into a
  bounded channel, and \<^verbatim>\<open>Read\<close> takes them from there. The goroutine and its client are a step relation in which the two
  run in any order. The property shows that the client sees what it would see without the goroutine: the same bytes in the
  same order, then the same end of file or error, and that it is never left waiting.
\<close>

section \<open>The reader (prefetch_reader.go)\<close>

datatype read_error = EndOfFile | ReadFailed string

text \<open>The underlying \<^verbatim>\<open>io.Reader\<close>: the size of the buffer and its state give the new state, the bytes read and the error.\<close>

type_synonym 'u reader_fun = "nat \<Rightarrow> 'u \<Rightarrow> 'u \<times> string \<times> read_error option"

record prefetch_chunk =
  pc_data :: string
  pc_err :: "string option"

text \<open>Where \<^verbatim>\<open>prefetchLoop\<close> is: before the call of \<^verbatim>\<open>Read\<close>, in \<^verbatim>\<open>sendChunk\<close> with the bytes of that call and its error still
  to be looked at, in \<^verbatim>\<open>sendChunk\<close> with the error, or returned, with the channel closed.\<close>

datatype prefetch_loop = Fetching | SendingData string "read_error option" | SendingError string | Stopped

record 'u prefetch_reader =
  underlying :: 'u
  chunks_ch :: "prefetch_chunk list"
  loop :: prefetch_loop
  current :: string
  pos :: nat
  closed_ch :: bool
  read_err :: "string option"

definition default_chunk_size :: int where "default_chunk_size = 64 * 1024"
definition default_buffer_count :: int where "default_buffer_count = 2"

definition effective_size :: "int \<Rightarrow> int \<Rightarrow> nat" where
  "effective_size dflt n = nat (if n \<le> 0 then dflt else n)"

definition new_prefetch_reader :: "'u \<Rightarrow> 'u prefetch_reader" where
  "new_prefetch_reader u = \<lparr>underlying = u, chunks_ch = [], loop = Fetching, current = [], pos = 0, closed_ch = False, read_err = None\<rparr>"

text \<open>The rest of an iteration after the bytes are sent, and the iteration from the call of \<^verbatim>\<open>Read\<close> on.\<close>

fun after_data :: "read_error option \<Rightarrow> prefetch_loop" where
  "after_data None = Fetching"
| "after_data (Some EndOfFile) = Stopped"
| "after_data (Some (ReadFailed e)) = SendingError e"

definition fetch :: "'u reader_fun \<Rightarrow> nat \<Rightarrow> 'u prefetch_reader \<Rightarrow> 'u prefetch_reader" where
  "fetch rd n p = (case rd n (underlying p) of (u, d, e) \<Rightarrow>
     p\<lparr>underlying := u, loop := (if d \<noteq> [] then SendingData d e else after_data e)\<rparr>)"

text \<open>\<^verbatim>\<open>sendChunk\<close> has two ways out, the channel of chunks and the closed reader; it waits while there is none.\<close>

inductive loop_step :: "'u reader_fun \<Rightarrow> nat \<Rightarrow> nat \<Rightarrow> 'u prefetch_reader \<Rightarrow> 'u prefetch_reader \<Rightarrow> bool" for rd n cap where
  fetch: "loop p = Fetching \<Longrightarrow> loop_step rd n cap p (fetch rd n p)"
| send_data: "loop p = SendingData d e \<Longrightarrow> length (chunks_ch p) < cap \<Longrightarrow>
    loop_step rd n cap p (p\<lparr>chunks_ch := chunks_ch p @ [\<lparr>pc_data = d, pc_err = None\<rparr>], loop := after_data e\<rparr>)"
| send_error: "loop p = SendingError x \<Longrightarrow> length (chunks_ch p) < cap \<Longrightarrow>
    loop_step rd n cap p (p\<lparr>chunks_ch := chunks_ch p @ [\<lparr>pc_data = [], pc_err = Some x\<rparr>], loop := Stopped\<rparr>)"
| give_up: "loop p = SendingData d e \<or> loop p = SendingError x \<Longrightarrow> closed_ch p \<Longrightarrow> loop_step rd n cap p (p\<lparr>loop := Stopped\<rparr>)"

inductive_cases loop_stepE: "loop_step rd n cap p p'"

text \<open>\<^verbatim>\<open>Read\<close> with a buffer of \<open>len\<close> bytes: the new state, the bytes and the error; \<^term>\<open>None\<close> while it waits for a chunk.\<close>

definition read_next_chunk :: "'u prefetch_reader \<Rightarrow> nat \<Rightarrow> ('u prefetch_reader \<times> string \<times> read_error option) option" where
  "read_next_chunk p len =
     (if closed_ch p then Some (p, [], Some EndOfFile)
      else case chunks_ch p of
          [] \<Rightarrow> if loop p = Stopped then Some (p, [], Some EndOfFile) else None
        | c # cs \<Rightarrow> (case pc_err c of
              Some e \<Rightarrow> Some (p\<lparr>chunks_ch := cs, read_err := Some e\<rparr>, [], Some (ReadFailed e))
            | None \<Rightarrow> Some (p\<lparr>chunks_ch := cs, current := pc_data c, pos := length (take len (pc_data c))\<rparr>, take len (pc_data c), None)))"

definition prefetch_read :: "'u prefetch_reader \<Rightarrow> nat \<Rightarrow> ('u prefetch_reader \<times> string \<times> read_error option) option" where
  "prefetch_read p len =
     (if closed_ch p then Some (p, [], Some EndOfFile)
      else if pos p < length (current p) then
        (let d = take len (drop (pos p) (current p)) in Some (p\<lparr>pos := pos p + length d\<rparr>, d, None))
      else case read_err p of
          Some e \<Rightarrow> Some (p, [], Some (ReadFailed e))
        | None \<Rightarrow> read_next_chunk p len)"

text \<open>\<^verbatim>\<open>Close\<close>, with the closing of the underlying reader as an argument, when it has one.\<close>

definition prefetch_close :: "('u \<Rightarrow> 'u \<times> string option) option \<Rightarrow> 'u prefetch_reader \<Rightarrow> 'u prefetch_reader \<times> string option" where
  "prefetch_close closer p =
     (let q = p\<lparr>closed_ch := True\<rparr> in
      case closer of None \<Rightarrow> (q, None) | Some f \<Rightarrow> (case f (underlying q) of (u, e) \<Rightarrow> (q\<lparr>underlying := u\<rparr>, e)))"

section \<open>The reader and its client\<close>

text \<open>The client of an open reader, with the bytes it has got and the error it has met; \<open>calls\<close> counts the calls of the
  underlying reader.\<close>

record 'u prefetch_run =
  rdr :: "'u prefetch_reader"
  got :: string
  outcome :: "read_error option"
  calls :: nat

definition start_run :: "'u \<Rightarrow> 'u prefetch_run" where
  "start_run u = \<lparr>rdr = new_prefetch_reader u, got = [], outcome = None, calls = 0\<rparr>"

inductive run_step :: "'u reader_fun \<Rightarrow> nat \<Rightarrow> nat \<Rightarrow> 'u prefetch_run \<Rightarrow> 'u prefetch_run \<Rightarrow> bool" for rd n cap where
  goroutine: "loop_step rd n cap (rdr s) p \<Longrightarrow>
    run_step rd n cap s (s\<lparr>rdr := p, calls := calls s + (if loop (rdr s) = Fetching then 1 else 0)\<rparr>)"
| client: "outcome s = None \<Longrightarrow> 0 < len \<Longrightarrow> prefetch_read (rdr s) len = Some (p, d, e) \<Longrightarrow>
    run_step rd n cap s (s\<lparr>rdr := p, got := got s @ d, outcome := e\<rparr>)"

inductive_cases run_stepE: "run_step rd n cap s s'"

text \<open>The specification: the underlying reader called directly \<open>k\<close> times, or until it returns an error.\<close>

fun direct_reads :: "'u reader_fun \<Rightarrow> nat \<Rightarrow> nat \<Rightarrow> 'u \<Rightarrow> 'u \<times> string \<times> read_error option" where
  "direct_reads rd n 0 u = (u, [], None)"
| "direct_reads rd n (Suc k) u =
     (case rd n u of (u', d, e) \<Rightarrow>
        case e of Some x \<Rightarrow> (u', d, Some x)
        | None \<Rightarrow> (case direct_reads rd n k u' of (u'', bs, e') \<Rightarrow> (u'', d @ bs, e')))"

lemma direct_reads_next:
  "direct_reads rd n k u = (u', bs, None) \<Longrightarrow> rd n u' = (u'', d, e) \<Longrightarrow> direct_reads rd n (Suc k) u = (u'', bs @ d, e)"
proof (induction k arbitrary: u bs)
  case (Suc k)
  then obtain a b bs' where a: "rd n u = (a, b, None)" "direct_reads rd n k a = (u', bs', None)" "bs = b @ bs'"
    by (auto split: prod.splits option.splits)
  then show ?case using Suc.IH [OF a(2) Suc.prems(2)] by (simp only: direct_reads.simps(2) [of rd n "Suc k" u]) simp
qed (auto split: prod.splits option.splits)

lemma direct_reads_stop:
  "direct_reads rd n k u = (u', bs, Some e) \<Longrightarrow> direct_reads rd n (k + m) u = (u', bs, Some e)"
  by (induction k arbitrary: u bs) (auto split: prod.splits option.splits)

section \<open>The invariant\<close>

fun in_hand :: "prefetch_loop \<Rightarrow> string" where
  "in_hand (SendingData d e) = d"
| "in_hand _ = []"

definition queue_error :: "prefetch_chunk list \<Rightarrow> read_error" where
  "queue_error q = (case filter (\<lambda>c. pc_err c \<noteq> None) q of [] \<Rightarrow> EndOfFile | c # _ \<Rightarrow> ReadFailed (the (pc_err c)))"

definition met_error :: "'u prefetch_reader \<Rightarrow> read_error option" where
  "met_error p = (case loop p of
      Fetching \<Rightarrow> None
    | SendingData d e \<Rightarrow> e
    | SendingError x \<Rightarrow> Some (ReadFailed x)
    | Stopped \<Rightarrow> (case read_err p of Some x \<Rightarrow> Some (ReadFailed x) | None \<Rightarrow> Some (queue_error (chunks_ch p))))"

text \<open>The bytes the underlying reader has returned are those the client has got, the rest of the current chunk, the
  channel, and what the goroutine holds, in this order.\<close>

definition ahead :: "'u prefetch_reader \<Rightarrow> string" where
  "ahead p = drop (pos p) (current p) @ concat (map pc_data (chunks_ch p)) @ in_hand (loop p)"

definition chunk_ok :: "prefetch_chunk \<Rightarrow> bool" where
  "chunk_ok c \<longleftrightarrow> (pc_err c = None \<longleftrightarrow> pc_data c \<noteq> [])"

definition run_inv :: "'u reader_fun \<Rightarrow> nat \<Rightarrow> 'u \<Rightarrow> 'u prefetch_run \<Rightarrow> bool" where
  "run_inv rd n u s \<longleftrightarrow> (let p = rdr s in
     direct_reads rd n (calls s) u = (underlying p, got s @ ahead p, met_error p) \<and>
     \<not> closed_ch p \<and> list_all chunk_ok (chunks_ch p) \<and> (loop p \<noteq> Stopped \<longrightarrow> list_all (\<lambda>c. pc_err c = None) (chunks_ch p)) \<and>
     list_all (\<lambda>c. pc_err c = None) (butlast (chunks_ch p)) \<and>
     (\<forall>d e. loop p = SendingData d e \<longrightarrow> d \<noteq> []) \<and>
     (read_err p \<noteq> None \<longrightarrow> loop p = Stopped \<and> chunks_ch p = [] \<and> ahead p = []) \<and>
     (outcome s \<noteq> None \<longrightarrow> loop p = Stopped \<and> chunks_ch p = [] \<and> ahead p = [] \<and> outcome s = met_error p))"

lemma run_inv_start: "run_inv rd n u (start_run u)"
  by (simp add: run_inv_def start_run_def new_prefetch_reader_def ahead_def met_error_def)

lemma queue_error_simps [simp]:
  "queue_error [] = EndOfFile"
  "queue_error (c # q) = (case pc_err c of None \<Rightarrow> queue_error q | Some x \<Rightarrow> ReadFailed x)"
  "queue_error (q @ [c]) = (if list_all (\<lambda>c. pc_err c = None) q then queue_error [c] else queue_error q)"
  by (auto simp: queue_error_def list_all_iff filter_empty_conv split: option.splits list.splits)

lemma no_queue_error: "list_all (\<lambda>c. pc_err c = None) q \<Longrightarrow> queue_error q = EndOfFile"
  by (induction q) auto

lemma fetch_inv:
  assumes "run_inv rd n u s" "loop (rdr s) = Fetching"
  shows "run_inv rd n u (s\<lparr>rdr := fetch rd n (rdr s), calls := calls s + 1\<rparr>)"
proof -
  obtain v d e where r: "rd n (underlying (rdr s)) = (v, d, e)" using prod_cases3 by blast
  have "direct_reads rd n (calls s) u = (underlying (rdr s), got s @ ahead (rdr s), None)"
    using assms by (simp add: run_inv_def met_error_def Let_def)
  from direct_reads_next [OF this r] assms show ?thesis
    by (cases e rule: after_data.cases) (auto simp: run_inv_def fetch_def r Let_def ahead_def met_error_def no_queue_error)
qed

lemma loop_step_inv:
  assumes "loop_step rd n cap (rdr s) p" "run_inv rd n u s"
  shows "run_inv rd n u (s\<lparr>rdr := p, calls := calls s + (if loop (rdr s) = Fetching then 1 else 0)\<rparr>)"
  using assms(1)
proof (cases rule: loop_step.cases)
  case fetch
  then show ?thesis using fetch_inv [OF assms(2)] by simp
next
  case (send_data d e)
  then show ?thesis using assms(2)
    by (cases e rule: after_data.cases)
      (auto simp: run_inv_def Let_def ahead_def met_error_def chunk_ok_def no_queue_error list_all_iff dest: in_set_butlastD)
next
  case (send_error x)
  then show ?thesis using assms(2) by (auto simp: run_inv_def Let_def ahead_def met_error_def chunk_ok_def butlast_append)
next
  case give_up
  then show ?thesis using assms(2) by (simp add: run_inv_def Let_def)
qed

lemma take_advance: "take m (drop k xs) @ drop (k + min (length xs - k) m) xs = drop k xs"
proof -
  have "drop (k + min (length xs - k) m) xs = drop m (drop k xs)" by (simp add: min_def add.commute)
  then show ?thesis by (simp only: append_take_drop_id)
qed

lemma take_rest: "take m xs @ drop (min (length xs) m) xs = xs" "take m xs @ drop (min (length xs) m) xs @ ys = xs @ ys"
  using take_advance [of m 0 xs] by (simp_all flip: append_assoc)

lemma next_chunk_inv:
  assumes r: "read_next_chunk (rdr s) len = Some (p, d, e)" and inv: "run_inv rd n u s"
    and spent: "length (current (rdr s)) \<le> pos (rdr s)" "read_err (rdr s) = None" "outcome s = None"
  shows "run_inv rd n u (s\<lparr>rdr := p, got := got s @ d, outcome := e\<rparr>)"
proof (cases "chunks_ch (rdr s)")
  case Nil
  then have "loop (rdr s) = Stopped" "p = rdr s" "d = []" "e = Some EndOfFile"
    using r inv by (auto simp: read_next_chunk_def run_inv_def Let_def split: if_splits)
  then show ?thesis using Nil spent inv by (auto simp: run_inv_def Let_def met_error_def ahead_def)
next
  case (Cons c cs)
  have nc: "\<not> closed_ch (rdr s)" using inv by (simp add: run_inv_def Let_def)
  show ?thesis
  proof (cases "pc_err c")
    case None
    then have "p = (rdr s)\<lparr>chunks_ch := cs, current := pc_data c, pos := length (take len (pc_data c))\<rparr>" "d = take len (pc_data c)" "e = None"
      using r nc Cons by (auto simp: read_next_chunk_def)
    then show ?thesis using Cons None spent inv
      by (cases "loop (rdr s)") (auto simp: run_inv_def Let_def met_error_def ahead_def take_rest split: if_splits)
  next
    case (Some x)
    then have "p = (rdr s)\<lparr>chunks_ch := cs, read_err := Some x\<rparr>" "d = []" "e = Some (ReadFailed x)"
      using r nc Cons by (auto simp: read_next_chunk_def)
    then show ?thesis using Cons Some spent inv
      by (auto simp: run_inv_def Let_def met_error_def ahead_def chunk_ok_def split: if_splits prefetch_loop.splits)
  qed
qed

lemma client_inv:
  assumes "prefetch_read (rdr s) len = Some (p, d, e)" "outcome s = None" "run_inv rd n u s"
  shows "run_inv rd n u (s\<lparr>rdr := p, got := got s @ d, outcome := e\<rparr>)"
proof (cases "pos (rdr s) < length (current (rdr s))")
  case True
  have "\<not> closed_ch (rdr s)" using assms(3) by (simp add: run_inv_def Let_def)
  then have p: "p = (rdr s)\<lparr>pos := pos (rdr s) + length d\<rparr>" "d = take len (drop (pos (rdr s)) (current (rdr s)))" "e = None"
    using assms(1) True by (auto simp: prefetch_read_def Let_def)
  have "d @ drop (pos p) (current p) = drop (pos (rdr s)) (current (rdr s))"
    using take_advance [of len "pos (rdr s)" "current (rdr s)"] by (simp add: p)
  then have "d @ ahead p = ahead (rdr s)" using p(1) by (simp add: ahead_def flip: append_assoc)
  moreover have "met_error p = met_error (rdr s)" using p(1) by (cases "loop (rdr s)") (simp_all add: met_error_def split: option.split)
  moreover have "read_err (rdr s) = None" using True assms(3) by (auto simp: run_inv_def Let_def ahead_def)
  ultimately show ?thesis using assms p by (simp add: run_inv_def Let_def)
next
  case False
  have nc: "\<not> closed_ch (rdr s)" using assms(3) by (simp add: run_inv_def Let_def)
  show ?thesis
  proof (cases "read_err (rdr s)")
    case (Some x)
    then have "p = rdr s" "d = []" "e = Some (ReadFailed x)" using assms(1) False nc by (auto simp: prefetch_read_def)
    then show ?thesis using Some assms(3) by (auto simp: run_inv_def Let_def met_error_def)
  next
    case None
    then show ?thesis using next_chunk_inv [OF _ assms(3) _ _ assms(2), of len p d e] assms(1) False nc by (simp add: prefetch_read_def)
  qed
qed

interpretation prefetch: transition_invariant "run_step rd n cap" "run_inv rd n u" for rd n cap u
  by unfold_locales (auto elim!: run_stepE intro: loop_step_inv client_inv)

lemma run_reach_inv: "(run_step rd n cap)\<^sup>*\<^sup>* (start_run u) s \<Longrightarrow> run_inv rd n u s"
  by (rule prefetch.reachable_keeps [OF _ run_inv_start])

section \<open>Progress\<close>

lemma direct_reads_prefix:
  "direct_reads rd n k u = (u', bs, e) \<Longrightarrow> direct_reads rd n (k + m) u = (u'', bs', e') \<Longrightarrow> \<exists>more. bs' = bs @ more"
  by (induction k arbitrary: u bs bs') (auto split: prod.splits option.splits)

lemma read_available:
  assumes "run_inv rd n u s" "outcome s = None" "0 < len" "loop (rdr s) = Stopped \<or> chunks_ch (rdr s) \<noteq> []"
  shows "\<exists>p d e. prefetch_read (rdr s) len = Some (p, d, e)"
  using assms by (cases "chunks_ch (rdr s)") (auto simp: prefetch_read_def read_next_chunk_def Let_def split: option.splits)

lemma run_progress:
  assumes "run_inv rd n u s" "outcome s = None" "0 < cap"
  shows "\<exists>s'. run_step rd n cap s s'"
proof (cases "\<exists>p. loop_step rd n cap (rdr s) p")
  case True
  then show ?thesis by (auto intro: run_step.goroutine)
next
  case False
  then have "loop (rdr s) = Stopped \<or> chunks_ch (rdr s) \<noteq> []"
    using assms(3) loop_step.fetch [of "rdr s" rd n cap] loop_step.send_data [of "rdr s" _ _ cap rd n] loop_step.send_error [of "rdr s" _ cap rd n]
    by (cases "loop (rdr s)") fastforce+
  from read_available [OF assms(1,2) zero_less_one this] assms(2) show ?thesis by (auto intro: run_step.client)
qed

text \<open>Every step decreases this measure, for a source that ends after \<open>k\<close> calls with \<open>total\<close> bytes.\<close>

fun loop_rank :: "prefetch_loop \<Rightarrow> nat" where
  "loop_rank (SendingData d e) = 2"
| "loop_rank (SendingError x) = 1"
| "loop_rank _ = 0"

definition run_measure :: "nat \<Rightarrow> nat \<Rightarrow> 'u prefetch_run \<Rightarrow> nat" where
  "run_measure k bytes s = 3 * (k - calls s) + loop_rank (loop (rdr s)) + (bytes - length (got s)) + (if outcome s = None then 1 else 0)"

lemma rank_after_data: "loop_rank (after_data e) < 2"
  by (cases e rule: after_data.cases) simp_all

lemma rank_fetch: "loop_rank (loop (fetch rd n p)) < 3"
proof -
  have "loop_rank (after_data e) < 3" for e using rank_after_data [of e] by simp
  then show ?thesis by (simp add: fetch_def split: prod.split)
qed

lemma got_prefix:
  assumes "run_inv rd n u s" "direct_reads rd n k u = (u', bs, Some e)"
  shows "\<exists>more. bs = got s @ more" "met_error (rdr s) = None \<Longrightarrow> calls s < k" "outcome s \<noteq> None \<Longrightarrow> outcome s = Some e \<and> got s = bs"
proof -
  have r: "direct_reads rd n (calls s) u = (underlying (rdr s), got s @ ahead (rdr s), met_error (rdr s))"
    using assms(1) by (simp add: run_inv_def Let_def)
  have later: "direct_reads rd n (k + m) u = (u', bs, Some e)" for m by (rule direct_reads_stop [OF assms(2)])
  from direct_reads_prefix [OF r, of k u' bs "Some e"] later [of "calls s"] show "\<exists>more. bs = got s @ more"
    by (auto simp: add.commute)
  show "met_error (rdr s) = None \<Longrightarrow> calls s < k"
    using r later [of "calls s - k"] by (cases "calls s < k") auto
  assume o: "outcome s \<noteq> None"
  then obtain x where x: "met_error (rdr s) = Some x" "outcome s = Some x" "ahead (rdr s) = []" using assms(1) by (auto simp: run_inv_def Let_def)
  from direct_reads_stop [of rd n "calls s" u _ _ x k] later [of "calls s"] r x show "outcome s = Some e \<and> got s = bs"
    by (auto simp: add.commute)
qed

lemma read_gives:
  assumes "run_inv rd n u s" "prefetch_read (rdr s) len = Some (p, d, e)" "0 < len"
  shows "d \<noteq> [] \<or> e \<noteq> None" "loop p = loop (rdr s)"
  using assms by (auto simp: prefetch_read_def read_next_chunk_def run_inv_def Let_def chunk_ok_def list_all_iff split: if_splits option.splits list.splits)

lemma run_step_measure:
  assumes "run_step rd n cap s s'" "run_inv rd n u s" "direct_reads rd n k u = (u', bs, Some e)"
  shows "run_measure k (length bs) s' < run_measure k (length bs) s"
  using assms(1)
proof (cases rule: run_step.cases)
  case (goroutine p)
  have c: "loop (rdr s) = Fetching \<Longrightarrow> calls s < k" using got_prefix(2) [OF assms(2,3)] by (simp add: met_error_def)
  from goroutine(2) show ?thesis
  proof (cases rule: loop_step.cases)
    case fetch
    then show ?thesis using goroutine(1) c rank_fetch [of rd n "rdr s"] by (simp add: run_measure_def)
  qed (use goroutine(1) rank_after_data in \<open>auto simp: run_measure_def\<close>)
next
  case (client len p d x)
  obtain more where "bs = got s' @ more"
    using got_prefix(1) [OF _ assms(3), of s'] prefetch.step_keeps [OF assms(1,2)] by blast
  then show ?thesis using client read_gives [OF assms(2) client(4,3)] by (auto simp: run_measure_def)
qed

text \<open>After \<^verbatim>\<open>Close\<close> nobody takes chunks any more, and the goroutine comes to its end: it always has a step until it has
  stopped, and every step decreases the measure, for a reader that never returns no bytes and no error.\<close>

fun closing_rank :: "prefetch_loop \<Rightarrow> nat" where
  "closing_rank Fetching = 3"
| "closing_rank (SendingData d e) = 2"
| "closing_rank (SendingError x) = 1"
| "closing_rank Stopped = 0"

lemma close_stops_goroutine:
  assumes "closed_ch p" "\<And>u u' d e. rd n u = (u', d, e) \<Longrightarrow> d \<noteq> [] \<or> e \<noteq> None"
  shows "loop p = Stopped \<or> (\<exists>p'. loop_step rd n cap p p')"
    and "loop_step rd n cap p p' \<Longrightarrow> closed_ch p' \<and>
      3 * (cap - length (chunks_ch p')) + closing_rank (loop p') < 3 * (cap - length (chunks_ch p)) + closing_rank (loop p)"
proof -
  show "loop p = Stopped \<or> (\<exists>p'. loop_step rd n cap p p')"
    using assms(1) by (cases "loop p") (auto intro: loop_step.intros)
  have a: "closing_rank (after_data e) \<le> 3" "e \<noteq> None \<Longrightarrow> closing_rank (after_data e) \<le> 1" for e
    by (cases e rule: after_data.cases; simp)+
  assume "loop_step rd n cap p p'"
  then show "closed_ch p' \<and> 3 * (cap - length (chunks_ch p')) + closing_rank (loop p') < 3 * (cap - length (chunks_ch p)) + closing_rank (loop p)"
  proof (cases rule: loop_step.cases)
    case fetch
    obtain u d e where r: "rd n (underlying p) = (u, d, e)" using prod_cases3 by blast
    then show ?thesis using fetch assms(1) assms(2) [OF r] a(2) [of e] by (auto simp: fetch_def)
  next
    case (send_data d e)
    then show ?thesis using assms(1) a(1) [of e] by simp
  qed (use assms(1) in auto)
qed

section \<open>Properties\<close>

text \<open>C10. The prefetching reader is transparent, for every interleaving of its goroutine with a client that reads it to the end,
  and whatever sizes are asked for: when the underlying reader, called directly, gives some bytes and then ends with end of
  file or an error, the client has at any time got the first of these bytes, in order; it is never stuck before it has got
  all of them and this error; and no run goes on for ever.\<close>

theorem prefetch_reader_transparent:
  assumes "direct_reads rd n k u = (u', bs, Some e)" "n = effective_size default_chunk_size chunk" "cap = effective_size default_buffer_count buffers"
    and "(run_step rd n cap)\<^sup>*\<^sup>* (start_run u) s"
  shows "(\<exists>more. bs = got s @ more) \<and>
    (outcome s = None \<and> (\<exists>s'. run_step rd n cap s s') \<or> outcome s = Some e \<and> got s = bs) \<and>
    \<not> (\<exists>f. f 0 = s \<and> (\<forall>i. run_step rd n cap (f i) (f (Suc i))))"
proof -
  have inv: "run_inv rd n u s" by (rule run_reach_inv [OF assms(4)])
  have cap: "0 < cap" using assms(3) by (simp add: effective_size_def default_buffer_count_def)
  have "\<not> (f 0 = s \<and> (\<forall>i. run_step rd n cap (f i) (f (Suc i))))" for f
  proof
    assume f: "f 0 = s \<and> (\<forall>i. run_step rd n cap (f i) (f (Suc i)))"
    have "run_inv rd n u (f i)" for i using f inv by (induction i) (auto intro: prefetch.step_keeps)
    then have "(f (Suc i), f i) \<in> measure (run_measure k (length bs))" for i
      using f by (auto intro!: run_step_measure [OF _ _ assms(1)])
    then show False using wf_no_infinite_down_chainE [OF wf_measure] by blast
  qed
  then show ?thesis using got_prefix [OF inv assms(1)] run_progress [OF inv _ cap] by (cases "outcome s") auto
qed

definition list_reader :: "(string \<times> read_error option) list reader_fun" where
  "list_reader n u = (case u of [] \<Rightarrow> ([], [], Some EndOfFile) | (d, e) # us \<Rightarrow> (us, d, e))"

definition two_bytes_read :: "(string \<times> read_error option) list prefetch_run" where
  "two_bytes_read = \<lparr>rdr = \<lparr>underlying = [], chunks_ch = [], loop = Stopped, current = ''ab'', pos = 2, closed_ch = False, read_err = None\<rparr>,
     got = ''ab'', outcome = Some EndOfFile, calls = 1\<rparr>"

lemma two_bytes_run: "(run_step list_reader 65536 2)\<^sup>*\<^sup>* (start_run [(''ab'', Some EndOfFile)]) two_bytes_read"
proof -
  let ?p = "new_prefetch_reader [(''ab'', Some EndOfFile)]" and ?step = "run_step list_reader 65536 2"
  let ?p1 = "?p\<lparr>underlying := [], loop := SendingData ''ab'' (Some EndOfFile)\<rparr>"
  let ?p2 = "?p1\<lparr>chunks_ch := [\<lparr>pc_data = ''ab'', pc_err = None\<rparr>], loop := Stopped\<rparr>"
  let ?p3 = "?p2\<lparr>chunks_ch := [], current := ''ab'', pos := 2\<rparr>"
  let ?s1 = "\<lparr>rdr = ?p1, got = [], outcome = None, calls = 1\<rparr>" and ?s2 = "\<lparr>rdr = ?p2, got = [], outcome = None, calls = 1\<rparr>"
    and ?s3 = "\<lparr>rdr = ?p3, got = ''ab'', outcome = None, calls = 1\<rparr>"
  have "?step (start_run [(''ab'', Some EndOfFile)]) ?s1"
    using run_step.goroutine [OF loop_step.fetch, of "start_run [(''ab'', Some EndOfFile)]" list_reader 65536 2]
    by (simp add: start_run_def new_prefetch_reader_def fetch_def list_reader_def)
  moreover have "?step ?s1 ?s2"
    using run_step.goroutine [OF loop_step.send_data, of ?s1 "''ab''" "Some EndOfFile" 2 list_reader 65536] by (simp add: new_prefetch_reader_def)
  moreover have "?step ?s2 ?s3"
    using run_step.client [of ?s2 2 ?p3 "''ab''" None list_reader 65536 2] by (simp add: new_prefetch_reader_def prefetch_read_def read_next_chunk_def)
  moreover have "?step ?s3 two_bytes_read"
    using run_step.client [of ?s3 1 ?p3 "[]" "Some EndOfFile" list_reader 65536 2]
    by (simp add: new_prefetch_reader_def prefetch_read_def read_next_chunk_def two_bytes_read_def)
  ultimately show ?thesis by (meson converse_rtranclp_into_rtranclp rtranclp.rtrancl_refl)
qed

theorem prefetch_reader_transparent_witness:
  "direct_reads list_reader 65536 1 [(''ab'', Some EndOfFile)] = ([], ''ab'', Some EndOfFile) \<and>
   65536 = effective_size default_chunk_size 0 \<and> 2 = effective_size default_buffer_count (-1) \<and>
   (run_step list_reader 65536 2)\<^sup>*\<^sup>* (start_run [(''ab'', Some EndOfFile)]) two_bytes_read \<and>
   outcome two_bytes_read = Some EndOfFile \<and> got two_bytes_read = ''ab'' \<and>
   \<not> (\<exists>f. f 0 = two_bytes_read \<and> (\<forall>i. run_step list_reader 65536 2 (f i) (f (Suc i))))"
proof -
  have d: "direct_reads list_reader 65536 1 [(''ab'', Some EndOfFile)] = ([], ''ab'', Some EndOfFile)"
    by (simp add: list_reader_def)
  have e: "65536 = effective_size default_chunk_size 0" "2 = effective_size default_buffer_count (-1)"
    by (simp_all add: effective_size_def default_chunk_size_def default_buffer_count_def)
  from prefetch_reader_transparent [OF d e two_bytes_run] d e two_bytes_run show ?thesis by (simp add: two_bytes_read_def)
qed

end
