(* ===== verification/Intern.thy ===== *)
theory Intern
  imports Omni_Prelude
begin

text \<open>
  The pool of interned strings of \<^verbatim>\<open>pkg/intern/intern.go\<close>, which \<^verbatim>\<open>SetString\<close> of a record uses. A string of Go is modelled
  with its memory, since \<^verbatim>\<open>Bytes\<close> looks at the buffer of the caller without copying it: a string either owns its text or
  is a view of a buffer. The two critical sections of \<^verbatim>\<open>String\<close> are separate operations, so that other goroutines may change
  the pool between them. The lemmas show that interning never changes a text and keeps the pool bounded, and when the result
  of \<^verbatim>\<open>Bytes\<close> shares the buffer of the caller.
\<close>

section \<open>Strings and buffers\<close>

type_synonym buffers = "nat \<Rightarrow> string"

datatype go_string = Owned string | View nat nat

fun text_of :: "buffers \<Rightarrow> go_string \<Rightarrow> string" where
  "text_of mem (Owned t) = t"
| "text_of mem (View a n) = take n (mem a)"

section \<open>The pool (intern.go)\<close>

definition max_intern_string_len :: nat where "max_intern_string_len = 64"
definition max_intern_pool_size :: nat where "max_intern_pool_size = 16384"

type_synonym intern_pool = "string gomap"

text \<open>The section under the read lock, and the section under the write lock with its result.\<close>

definition pool_lookup :: "intern_pool \<Rightarrow> string \<Rightarrow> string option" where
  "pool_lookup pool t = map_of pool t"

definition pool_insert :: "buffers \<Rightarrow> intern_pool \<Rightarrow> go_string \<Rightarrow> intern_pool \<times> go_string" where
  "pool_insert mem pool s =
     (let t = text_of mem s in
      if length pool \<ge> max_intern_pool_size then (pool, s)
      else case map_of pool t of
          Some v \<Rightarrow> (pool, Owned v)
        | None \<Rightarrow> (gm_set pool t t, Owned t))"

text \<open>\<^verbatim>\<open>String\<close>; \<open>others\<close> is what the other goroutines do to the pool between the two sections.\<close>

definition intern_string :: "buffers \<Rightarrow> (intern_pool \<Rightarrow> intern_pool) \<Rightarrow> intern_pool \<Rightarrow> go_string \<Rightarrow> intern_pool \<times> go_string" where
  "intern_string mem others pool s =
     (let t = text_of mem s in
      if t = [] then (pool, Owned [])
      else if length t > max_intern_string_len then (pool, s)
      else case pool_lookup pool t of
          Some v \<Rightarrow> (pool, Owned v)
        | None \<Rightarrow> pool_insert mem (others pool) s)"

text \<open>\<^verbatim>\<open>Bytes\<close> of the first \<open>n\<close> bytes of a buffer.\<close>

definition intern_bytes :: "buffers \<Rightarrow> (intern_pool \<Rightarrow> intern_pool) \<Rightarrow> intern_pool \<Rightarrow> nat \<Rightarrow> nat \<Rightarrow> intern_pool \<times> go_string" where
  "intern_bytes mem others pool a n =
     (let b = take n (mem a) in
      if b = [] then (pool, Owned [])
      else if length b > max_intern_string_len then (pool, Owned b)
      else intern_string mem others pool (View a n))"

section \<open>Texts are kept and the pool is bounded\<close>

definition pool_ok :: "intern_pool \<Rightarrow> bool" where
  "pool_ok pool \<longleftrightarrow> map_ok pool \<and> length pool \<le> max_intern_pool_size \<and>
     list_all (\<lambda>(k, v). v = k \<and> k \<noteq> [] \<and> length k \<le> max_intern_string_len) pool"

lemma pool_ok_lookup: "pool_ok pool \<Longrightarrow> map_of pool t = Some v \<Longrightarrow> v = t"
  by (auto simp: pool_ok_def list_all_iff dest: map_of_SomeD)

lemma pool_insert_ok:
  assumes "pool_ok pool" "text_of mem s \<noteq> []" "length (text_of mem s) \<le> max_intern_string_len" "pool_insert mem pool s = (pool', r)"
  shows "pool_ok pool' \<and> text_of mem r = text_of mem s"
proof (cases "length pool < max_intern_pool_size \<and> map_of pool (text_of mem s) = None")
  case True
  then have "gm_set pool (text_of mem s) (text_of mem s) = pool @ [(text_of mem s, text_of mem s)]"
    by (simp add: gm_set_new map_of_eq_None_iff)
  then have "pool' = pool @ [(text_of mem s, text_of mem s)]" "r = Owned (text_of mem s)" using True assms(4) by (auto simp: pool_insert_def Let_def)
  then show ?thesis using True assms by (auto simp: pool_ok_def map_ok_def map_of_eq_None_iff)
next
  case False
  then show ?thesis using assms pool_ok_lookup by (auto simp: pool_insert_def Let_def split: if_splits option.splits)
qed

lemma intern_string_keeps_text:
  assumes "pool_ok pool" "pool_ok (others pool)" "intern_string mem others pool s = (pool', r)"
  shows "text_of mem r = text_of mem s" "pool_ok pool'"
  using assms pool_insert_ok [of "others pool" mem s pool' r]
  by (auto simp: intern_string_def Let_def pool_lookup_def pool_ok_lookup split: if_splits option.splits)

text \<open>\<^verbatim>\<open>Bytes\<close> returns a string with the bytes given to it, and keeps the pool within its bounds, whatever other goroutines
  have done to the pool in between; the string has its own memory, so it stays the same when the caller reuses the buffer,
  unless the text was not in the pool and the pool is full: then it is the buffer of the caller itself.\<close>

lemma interned_bytes_shared_when_full:
  assumes "pool_ok pool" "pool_ok (others pool)" "intern_bytes mem others pool a n = (pool', r)"
  shows "pool_ok pool' \<and> text_of mem r = take n (mem a) \<and>
    (if take n (mem a) \<noteq> [] \<and> length (take n (mem a)) \<le> max_intern_string_len \<and> map_of pool (take n (mem a)) = None \<and>
        length (others pool) = max_intern_pool_size
     then r = View a n else r = Owned (take n (mem a)))"
proof -
  define t where "t = take n (mem a)"
  have ib: "(if t = [] then (pool, Owned []) else if length t > max_intern_string_len then (pool, Owned t)
      else case map_of pool t of Some v \<Rightarrow> (pool, Owned v) | None \<Rightarrow> pool_insert mem (others pool) (View a n)) = (pool', r)"
    using assms(3) by (auto simp: intern_bytes_def intern_string_def Let_def pool_lookup_def t_def simp del: length_take take_eq_Nil split: if_splits)
  have view: "text_of mem (View a n) = t" by (simp add: t_def)
  have bound: "length (others pool) \<le> max_intern_pool_size" using assms(2) by (simp add: pool_ok_def)
  have "pool_ok pool' \<and> text_of mem r = t \<and>
    (if t \<noteq> [] \<and> length t \<le> max_intern_string_len \<and> map_of pool t = None \<and> length (others pool) = max_intern_pool_size
     then r = View a n else r = Owned t)"
  proof (cases "t \<noteq> [] \<and> length t \<le> max_intern_string_len \<and> map_of pool t = None")
    case True
    then have i: "pool_insert mem (others pool) (View a n) = (pool', r)" using ib by auto
    have "if length (others pool) = max_intern_pool_size then r = View a n else r = Owned t"
      using i bound view pool_ok_lookup [OF assms(2)] by (auto simp: pool_insert_def Let_def split: option.splits)
    then show ?thesis using True view pool_insert_ok [OF assms(2) _ _ i] by simp
  next
    case False
    then show ?thesis using ib assms(1) pool_ok_lookup [OF assms(1)] by (auto split: if_splits option.splits)
  qed
  then show ?thesis unfolding t_def .
qed

definition full_pool :: intern_pool where
  "full_pool = map (\<lambda>(i, j). ([char_of i, char_of j], [char_of i, char_of j])) (List.product [0..<(128::nat)] [0..<(128::nat)])"

lemma full_pool_ok: "pool_ok full_pool" "length full_pool = max_intern_pool_size" "map_of full_pool ''abc'' = None"
proof -
  have "inj_on (\<lambda>(i, j). [char_of i, char_of j]) ({0..<(128::nat)} \<times> {0..<(128::nat)})"
    by (auto simp: inj_on_def char_of_eq_iff take_bit_nat_eq_self)
  then have "distinct (map fst full_pool)"
    by (simp add: full_pool_def distinct_map distinct_product comp_def case_prod_unfold)
  then show "pool_ok full_pool"
    by (auto simp: pool_ok_def map_ok_def list_all_iff full_pool_def max_intern_pool_size_def max_intern_string_len_def length_product)
  show "length full_pool = max_intern_pool_size" by (simp add: full_pool_def max_intern_pool_size_def length_product)
  show "map_of full_pool ''abc'' = None" by (auto simp: map_of_eq_None_iff full_pool_def)
qed

end
