(* ===== verification/Database_Sources.thy ===== *)
theory Database_Sources
  imports Composition
begin

text \<open>
  The database readers in the registry (\<^verbatim>\<open>init.go\<close> of \<^verbatim>\<open>adapters/partitions/sql\<close> and \<^verbatim>\<open>adapters/partitions/mongo\<close>) and the discovery of
  \<^verbatim>\<open>buildDatabaseSource\<close> (\<^verbatim>\<open>cmd/pipeline/registry.go\<close>) with its effect on the cache of connection pools, which \<open>Composition\<close> leaves out: a
  reader is built, asked for its partitions, and closed on every path. The lemmas say which drivers are registered, and that discovery
  leaves no pool open.
\<close>

section \<open>Registrations (sql/init.go, mongo/init.go)\<close>

datatype source_factory = SqlReaderFactory | MongoReaderFactory

definition source_registrations :: "(string \<times> source_factory) list" where
  "source_registrations = map (\<lambda>n. (n, SqlReaderFactory)) [''postgres'', ''pgx'', ''cockroach'', ''mysql'', ''mariadb''] @
     map (\<lambda>n. (n, MongoReaderFactory)) [''mongo'', ''mongodb'']"

fun register_sources :: "go_env \<Rightarrow> 'f gomap \<Rightarrow> (string \<times> 'f) list \<Rightarrow> string + 'f gomap" where
  "register_sources env reg [] = Inr reg"
| "register_sources env reg ((n, f) # rs) = (case register_source env reg n f of Inl e \<Rightarrow> Inl e | Inr reg' \<Rightarrow> register_sources env reg' rs)"

section \<open>Readers\<close>

text \<open>A SQL reader is known by its pool and the style of its placeholders. What the outside provides: the errors of opening a pool, the driver
  behind a pool, and the MongoDB driver.\<close>

datatype 'c partitioned_reader = SqlPartitions nat bool | MongoPartitions "'c mongo_source"

datatype 'k planned_slices = SqlSlices "'k partition_slice list" | MongoSlices "object_id partition_slice list"

record ('k, 'row, 'c) database_env =
  de_open :: "string \<Rightarrow> string \<Rightarrow> string option"
  de_driver :: "nat \<Rightarrow> ('k, 'row) sql_driver"
  de_connect :: "string \<Rightarrow> int option \<Rightarrow> string + 'c mongo_client"
  de_ping :: "'c mongo_client \<Rightarrow> string option"

definition build_partitioned_reader ::
  "go_env \<Rightarrow> secret_env \<Rightarrow> ('k, 'row, 'c) database_env \<Rightarrow> source_factory gomap \<Rightarrow> sql_pools \<Rightarrow> string \<Rightarrow> database_source_config option \<Rightarrow> secret_resolver option \<Rightarrow>
   sql_pools \<times> (string + 'c partitioned_reader)" where
  "build_partitioned_reader env E D reg P driver db sec = (case map_of reg driver of
      None \<Rightarrow> (P, Inl (unregistered env ''source driver'' driver))
    | Some SqlReaderFactory \<Rightarrow> (case sql_reader_factory E (de_open D) sec P db of
          (P', Inl e) \<Rightarrow> (P', Inl e) | (P', Inr (pool, dollar)) \<Rightarrow> (P', Inr (SqlPartitions pool dollar)))
    | Some MongoReaderFactory \<Rightarrow> (P, case mongo_reader_factory (de_connect D) (de_ping D) sec db of
          Inl e \<Rightarrow> Inl e | Inr m \<Rightarrow> Inr (MongoPartitions m)))"

text \<open>\<^verbatim>\<open>CalculatePartitions\<close> and \<^verbatim>\<open>Close\<close> of either reader; \<open>now\<close> is the time at which the breaker of a new reader is made and read, and
  \<open>render\<close> the text of an error of the SQL source.\<close>

definition reader_partitions ::
  "(sql_error \<Rightarrow> string) \<Rightarrow> wm_env \<Rightarrow> int \<Rightarrow> ('k, 'row, 'c) database_env \<Rightarrow> 'c partitioned_reader \<Rightarrow> reader_config \<Rightarrow> string + 'k planned_slices" where
  "reader_partitions render wenv now D r src = (case r of
      SqlPartitions pool dollar \<Rightarrow>
        (case snd (sql_calculate_partitions wenv now now now (new_generic_sql_source now (Some (de_driver D pool)) dollar) src) of
           Inl e \<Rightarrow> Inl (render e) | Inr sls \<Rightarrow> Inr (SqlSlices sls))
    | MongoPartitions m \<Rightarrow> (case mongo_calculate_partitions m src of Inl e \<Rightarrow> Inl e | Inr sls \<Rightarrow> Inr (MongoSlices sls)))"

definition close_reader :: "'c partitioned_reader \<Rightarrow> sql_pools \<Rightarrow> sql_pools" where
  "close_reader r P = (case r of SqlPartitions pool _ \<Rightarrow> sql_close (Some pool) P | MongoPartitions _ \<Rightarrow> P)"

section \<open>Discovery (buildDatabaseSource)\<close>

definition discover_partitions ::
  "go_env \<Rightarrow> secret_env \<Rightarrow> wm_env \<Rightarrow> (sql_error \<Rightarrow> string) \<Rightarrow> int \<Rightarrow> ('k, 'row, 'c) database_env \<Rightarrow> source_factory gomap \<Rightarrow> sql_pools \<Rightarrow> pipeline_config \<Rightarrow>
   secret_resolver option \<Rightarrow> sql_pools \<times> (string + 'k planned_slices \<times> database_source_config)" where
  "discover_partitions env E wenv render now D reg P cfg sec = (case pl_database cfg of
      None \<Rightarrow> (P, Inl ''database_source config is required'')
    | Some db0 \<Rightarrow>
        let db = (case pl_secrets cfg of Some sc \<Rightarrow> apply_database_host_overrides db0 (sc_host_override sc) | None \<Rightarrow> db0) in
        (case build_partitioned_reader env E D reg P (ds_driver db) (Some db) sec of
           (P1, Inl e) \<Rightarrow> (P1, Inl (''failed creating discovery reader: '' @ e))
         | (P1, Inr r) \<Rightarrow> (close_reader r P1, case reader_partitions render wenv now D r (DatabaseConfig db) of
             Inl e \<Rightarrow> Inl (''failed calculating partitions: '' @ e)
           | Inr sls \<Rightarrow> Inr (sls, db))))"

section \<open>Lemmas\<close>

lemma register_sources_distinct:
  assumes "distinct (map fst (reg @ rs))"
  shows "register_sources env reg rs = Inr (reg @ rs)"
  using assms
proof (induction rs arbitrary: reg)
  case (Cons r rs)
  obtain n f where r: "r = (n, f)" by fastforce
  then have n: "n \<notin> fst ` set reg" using Cons.prems by auto
  then have "register_source env reg n f = Inr (reg @ [(n, f)])"
    by (simp add: register_source_def register_connector_def gm_has_def map_of_eq_None_iff gm_set_new)
  then show ?case using Cons.IH [of "reg @ [r]"] Cons.prems r by simp
qed simp

text \<open>The registrations do not panic, and a driver name is registered exactly if the validation of the SQL factory accepts it as written, or it
  names MongoDB.\<close>

lemma sources_registered:
  "register_sources env [] source_registrations = Inr source_registrations"
  "map_of source_registrations n = (if n \<in> set supported_drivers then Some SqlReaderFactory
    else if n \<in> {''mongo'', ''mongodb''} then Some MongoReaderFactory else None)"
proof -
  have "distinct (map fst source_registrations)" by (simp add: source_registrations_def)
  then show "register_sources env [] source_registrations = Inr source_registrations" by (simp add: register_sources_distinct)
qed (simp add: source_registrations_def supported_drivers_def)

text \<open>Discovery keeps the invariant of the cache. Whatever its outcome, the pools cached afterwards were cached before: the one it used is closed
  and dropped, so a worker opens its own.\<close>

lemma sql_factory_registered:
  assumes "map_of source_registrations driver = Some SqlReaderFactory" "driver = ds_driver db"
  shows "sql_reader_factory E opn sec P (Some db) = (case get_or_create_db opn sec P db of
      (P1, Inl e) \<Rightarrow> (P1, Inl (''failed opening database pool: '' @ e)) | (P1, Inr n) \<Rightarrow> (P1, Inr (n, is_dollar_style driver)))"
proof -
  have "driver \<in> set supported_drivers" using assms(1) unfolding sources_registered(2) by (auto split: if_splits)
  then have "driver_key driver = driver"
    by (auto simp: supported_drivers_def driver_key_def trim_space_visible ascii_visible_def to_lower_def lower_char_def)
  then show ?thesis using \<open>driver \<in> set supported_drivers\<close> assms(2) by (simp add: sql_reader_factory_def new_sql_reader_def split: prod.splits sum.splits)
qed

lemma close_got_pool:
  assumes "pools_inv P" "get_or_create_db opn sec P db = (P1, Inr n)"
  shows "pools_inv (sql_close (Some n) P1) \<and> set (pool_cache (sql_close (Some n) P1)) \<subseteq> set (pool_cache P) \<and>
    n \<in> set (pools_closed (sql_close (Some n) P1))"
proof -
  have inv: "pools_inv P1" using pools_inv_get [OF assms(1), of opn sec db] assms(2) by simp
  have n: "n < pools_opened P1 \<and> (\<forall>kv \<in> set (pool_cache P1). kv \<in> set (pool_cache P) \<or> snd kv = n)"
    using get_or_create_cases [of opn sec P db]
  proof
    assume "\<exists>key. map_of (pool_cache P) key = None \<and> get_or_create_db opn sec P db =
      (P\<lparr>pool_cache := gm_set (pool_cache P) key (pools_opened P), pools_opened := Suc (pools_opened P)\<rparr>, Inr (pools_opened P))"
    then show ?thesis using assms(2) by (auto simp: gm_set_new map_of_eq_None_iff)
  next
    assume "\<exists>r. get_or_create_db opn sec P db = (P, r) \<and> (\<forall>db. r = Inr db \<longrightarrow> db \<in> snd ` set (pool_cache P))"
    then show ?thesis using assms by (auto simp: pools_inv_def)
  qed
  have "sql_close (Some n) P1 = close_db (Some n) P1" by (simp add: sql_close_def)
  moreover have "set (pool_cache (close_db (Some n) P1)) \<subseteq> set (pool_cache P)"
    using n inv by (auto simp: close_db_def db_close_def drop_entry_distinct pools_inv_def)
  moreover have "n \<in> set (pools_closed (close_db (Some n) P1))" by (simp add: close_db_def db_close_def)
  ultimately show ?thesis using pools_inv_close [of n P1] n inv by simp
qed

lemma failed_get_keeps: "get_or_create_db opn sec P db = (P1, Inl e) \<Longrightarrow> P1 = P"
  using get_or_create_cases [of opn sec P db] by auto

lemma discovery_keeps_pools:
  assumes "pools_inv P" "discover_partitions env E wenv render now D source_registrations P cfg sec = (P', res)"
  shows "pools_inv P' \<and> set (pool_cache P') \<subseteq> set (pool_cache P)"
proof (cases "pl_database cfg")
  case None
  then show ?thesis using assms by (simp add: discover_partitions_def)
next
  case (Some db0)
  define db where "db = (case pl_secrets cfg of Some sc \<Rightarrow> apply_database_host_overrides db0 (sc_host_override sc) | None \<Rightarrow> db0)"
  have b: "(case build_partitioned_reader env E D source_registrations P (ds_driver db) (Some db) sec of
      (P1, Inl e) \<Rightarrow> P1 = P | (P1, Inr r) \<Rightarrow> pools_inv (close_reader r P1) \<and> set (pool_cache (close_reader r P1)) \<subseteq> set (pool_cache P))"
  proof (cases "map_of source_registrations (ds_driver db)")
    case (Some f)
    then show ?thesis using assms(1) sql_factory_registered [of "ds_driver db" db E "de_open D" sec P] close_got_pool [OF assms(1), of "de_open D" sec db]
        failed_get_keeps [of "de_open D" sec P db]
      by (cases f) (auto simp: build_partitioned_reader_def close_reader_def split: sum.splits prod.splits)
  qed (simp add: build_partitioned_reader_def)
  then show ?thesis using assms Some
    by (auto simp: discover_partitions_def Let_def simp flip: db_def split: prod.splits sum.splits)
qed

end
