(* ===== verification/Codec_Pool.thy ===== *)
theory Codec_Pool
  imports Formats
begin

text \<open>
  The compressors and decompressors are reused through \<^verbatim>\<open>sync.Pool\<close> (\<^verbatim>\<open>codecs/compression/compressor.go\<close>, \<^verbatim>\<open>decompressor.go\<close>). The rest of
  the development gives every stream a layer of its own; here a stream has a reference to an object that other streams have used before it and
  will use after it. The objects are a list, a reference is a position in it, and a pool holds the references that were put back, of which
  \<^verbatim>\<open>Get\<close> may return any or make a new object. The property is that the streams do not disturb each other as long as each is closed at most
  once; closing one twice puts its object in the pool twice, and two later streams share it.
\<close>

section \<open>Pools (sync.Pool)\<close>

datatype codec_kind = Gzip | Zstd | Snappy

record 'o object_pool =
  op_objects :: "'o list"
  op_idle :: "codec_kind \<Rightarrow> nat list"

text \<open>\<open>pick\<close> tells which idle object is returned; one that does not exist stands for a new object.\<close>

definition pool_get :: "'o \<Rightarrow> codec_kind \<Rightarrow> nat \<Rightarrow> 'o object_pool \<Rightarrow> nat \<times> 'o object_pool" where
  "pool_get fresh k pick P = (let idle = op_idle P k in
     if pick < length idle
     then (idle ! pick, P\<lparr>op_idle := (op_idle P)(k := take pick idle @ drop (Suc pick) idle)\<rparr>)
     else (length (op_objects P), P\<lparr>op_objects := op_objects P @ [fresh]\<rparr>))"

definition pool_put :: "codec_kind \<Rightarrow> nat \<Rightarrow> 'o object_pool \<Rightarrow> 'o object_pool" where
  "pool_put k i P = P\<lparr>op_idle := (op_idle P)(k := op_idle P k @ [i])\<rparr>"

definition set_object :: "nat \<Rightarrow> 'o \<Rightarrow> 'o object_pool \<Rightarrow> 'o object_pool" where
  "set_object i x P = P\<lparr>op_objects := (op_objects P)[i := x]\<rparr>"

definition idle_all :: "'o object_pool \<Rightarrow> nat list" where
  "idle_all P = op_idle P Gzip @ op_idle P Zstd @ op_idle P Snappy"

text \<open>What may be done with a pool: the owners of objects take one, change their own, or put one back.\<close>

inductive pool_use :: "nat list \<times> 'o object_pool \<Rightarrow> nat list \<times> 'o object_pool \<Rightarrow> bool" where
  take_object: "pool_get fresh k pick P = (i, P') \<Longrightarrow> mset own' = add_mset i (mset own) \<Longrightarrow> pool_use (own, P) (own', set_object i x P')"
| use_object: "i \<in> set own \<Longrightarrow> pool_use (own, P) (own, set_object i x P)"
| return_object: "mset own = add_mset i (mset own') \<Longrightarrow> pool_use (own, P) (own', pool_put k i (set_object i x P))"
| taken_and_returned: "pool_get fresh k pick P = (i, P') \<Longrightarrow> pool_use (own, P) (own, pool_put k i (set_object i x P'))"

definition objects_ok :: "nat list \<times> 'o object_pool \<Rightarrow> bool" where
  "objects_ok op \<longleftrightarrow> distinct (fst op @ idle_all (snd op)) \<and> set (fst op @ idle_all (snd op)) \<subseteq> {..<length (op_objects (snd op))}"

section \<open>Writers (compressor.go)\<close>

text \<open>A compressor: the destination it was last reset to, \<^term>\<open>None\<close> for \<^verbatim>\<open>io.Discard\<close>, and its layer. A stream is a destination of its own, the
  object behind it, and the calls made on it: what was passed to \<^verbatim>\<open>Write\<close> with whether the destination took the bytes, and whether it was
  closed, likewise.\<close>

record 'l compressor =
  cm_target :: "nat option"
  cm_layer :: "'l stream_layer"

record out_stream =
  os_kind :: codec_kind
  os_object :: nat
  os_calls :: "(string \<times> bool) list"
  os_closed :: "bool option"

record 'l codec_writers =
  wr_pool :: "'l compressor object_pool"
  wr_streams :: "out_stream list"
  wr_files :: "string list"

definition new_layer :: "('r, 'l) codec_lib \<Rightarrow> codec_kind \<Rightarrow> 'l stream_layer" where
  "new_layer lib k = (case k of Gzip \<Rightarrow> cl_gzip lib | Zstd \<Rightarrow> cl_zstd lib | Snappy \<Rightarrow> cl_snappy lib)"

definition discarding :: "('r, 'l) codec_lib \<Rightarrow> codec_kind \<Rightarrow> 'l compressor" where
  "discarding lib k = \<lparr>cm_target = None, cm_layer = new_layer lib k\<rparr>"

text \<open>The branches of \<^verbatim>\<open>WrapCompressor\<close> that use a pool, for a new destination.\<close>

definition compressor_kind :: "string \<Rightarrow> codec_kind option" where
  "compressor_kind ty = (let c = clean_name ty in
     if c = ''gzip'' \<or> c = ''gz'' then Some Gzip else if c = ''zstd'' then Some Zstd
     else if c = ''snappy'' \<or> c = ''sz'' then Some Snappy else None)"

definition open_writer :: "('r, 'l) codec_lib \<Rightarrow> codec_kind \<Rightarrow> nat \<Rightarrow> 'l codec_writers \<Rightarrow> 'l codec_writers" where
  "open_writer lib k pick W = (case pool_get (discarding lib k) k pick (wr_pool W) of (i, P) \<Rightarrow>
     \<lparr>wr_pool = set_object i \<lparr>cm_target = Some (length (wr_files W)), cm_layer = new_layer lib k\<rparr> P,
      wr_streams = wr_streams W @ [\<lparr>os_kind = k, os_object = i, os_calls = [], os_closed = None\<rparr>], wr_files = wr_files W @ [[]]\<rparr>)"

definition emit :: "nat option \<Rightarrow> bool \<Rightarrow> string \<Rightarrow> string list \<Rightarrow> string list" where
  "emit target ok b fs = (case target of None \<Rightarrow> fs | Some f \<Rightarrow> if ok then fs[f := fs ! f @ b] else fs)"

definition write_stream :: "nat \<Rightarrow> bool \<Rightarrow> string \<Rightarrow> 'l codec_writers \<Rightarrow> 'l codec_writers" where
  "write_stream s ok b W =
     (let st = wr_streams W ! s; c = op_objects (wr_pool W) ! os_object st; y = cm_layer c in
      case ly_write y (ly_state y) b of (l, out) \<Rightarrow>
        \<lparr>wr_pool = set_object (os_object st) (c\<lparr>cm_layer := y\<lparr>ly_state := l\<rparr>\<rparr>) (wr_pool W),
         wr_streams = (wr_streams W)[s := st\<lparr>os_calls := os_calls st @ [(b, ok)]\<rparr>], wr_files = emit (cm_target c) ok out (wr_files W)\<rparr>)"

text \<open>\<^verbatim>\<open>Close\<close> of the three closers: the compressor is flushed, reset to discard and put back, with or without an error.\<close>

definition close_compressor :: "('r, 'l) codec_lib \<Rightarrow> codec_kind \<Rightarrow> nat \<Rightarrow> bool \<Rightarrow> 'l codec_writers \<Rightarrow> 'l codec_writers" where
  "close_compressor lib k s ok W =
     (let st = wr_streams W ! s; c = op_objects (wr_pool W) ! os_object st; y = cm_layer c in
      \<lparr>wr_pool = pool_put k (os_object st) (set_object (os_object st) (discarding lib k) (wr_pool W)),
       wr_streams = (wr_streams W)[s := st\<lparr>os_closed := Some ok\<rparr>], wr_files = emit (cm_target c) ok (ly_close y (ly_state y)) (wr_files W)\<rparr>)"

definition pooled_gzip_close :: "('r, 'l) codec_lib \<Rightarrow> nat \<Rightarrow> bool \<Rightarrow> 'l codec_writers \<Rightarrow> 'l codec_writers" where
  "pooled_gzip_close lib = close_compressor lib Gzip"

definition pooled_zstd_close :: "('r, 'l) codec_lib \<Rightarrow> nat \<Rightarrow> bool \<Rightarrow> 'l codec_writers \<Rightarrow> 'l codec_writers" where
  "pooled_zstd_close lib = close_compressor lib Zstd"

definition pooled_snappy_close :: "('r, 'l) codec_lib \<Rightarrow> nat \<Rightarrow> bool \<Rightarrow> 'l codec_writers \<Rightarrow> 'l codec_writers" where
  "pooled_snappy_close lib = close_compressor lib Snappy"

definition close_stream :: "('r, 'l) codec_lib \<Rightarrow> nat \<Rightarrow> bool \<Rightarrow> 'l codec_writers \<Rightarrow> 'l codec_writers" where
  "close_stream lib s ok W = (case os_kind (wr_streams W ! s) of
      Gzip \<Rightarrow> pooled_gzip_close lib s ok W | Zstd \<Rightarrow> pooled_zstd_close lib s ok W | Snappy \<Rightarrow> pooled_snappy_close lib s ok W)"

text \<open>Streams are opened, written to and closed in any order, each only until it is closed.\<close>

inductive codec_step :: "('r, 'l) codec_lib \<Rightarrow> 'l codec_writers \<Rightarrow> 'l codec_writers \<Rightarrow> bool" for lib where
  step_open: "compressor_kind ty = Some k \<Longrightarrow> codec_step lib W (open_writer lib k pick W)"
| step_write: "s < length (wr_streams W) \<Longrightarrow> os_closed (wr_streams W ! s) = None \<Longrightarrow> codec_step lib W (write_stream s ok b W)"
| step_close: "s < length (wr_streams W) \<Longrightarrow> os_closed (wr_streams W ! s) = None \<Longrightarrow> codec_step lib W (close_stream lib s ok W)"

definition no_writers :: "'l codec_writers" where
  "no_writers = \<lparr>wr_pool = \<lparr>op_objects = [], op_idle = (\<lambda>_. [])\<rparr>, wr_streams = [], wr_files = []\<rparr>"

section \<open>Readers (decompressor.go)\<close>

text \<open>A decompressor is what it has still to yield. Resetting one for gzip and zstd reads the header and may fail; the object goes back to its
  pool then.\<close>

record decoders =
  dd_gzip :: "string \<Rightarrow> string + string"
  dd_zstd :: "string \<Rightarrow> string + string"
  dd_snappy :: "string \<Rightarrow> string"

record in_stream =
  is_kind :: codec_kind
  is_object :: nat
  is_source :: string
  is_read :: string
  is_open :: bool

record readers =
  rd_pool :: "string object_pool"
  rd_streams :: "in_stream list"

definition reset_reader :: "decoders \<Rightarrow> codec_kind \<Rightarrow> string \<Rightarrow> string + string" where
  "reset_reader D k src = (case k of
      Gzip \<Rightarrow> (case dd_gzip D src of Inl e \<Rightarrow> Inl (''failed to reset gzip reader: '' @ e) | Inr d \<Rightarrow> Inr d)
    | Zstd \<Rightarrow> (case dd_zstd D src of Inl e \<Rightarrow> Inl (''failed to reset zstd reader: '' @ e) | Inr d \<Rightarrow> Inr d)
    | Snappy \<Rightarrow> Inr (dd_snappy D src))"

definition open_reader :: "decoders \<Rightarrow> codec_kind \<Rightarrow> nat \<Rightarrow> string \<Rightarrow> readers \<Rightarrow> readers \<times> string option" where
  "open_reader D k pick src R = (case pool_get [] k pick (rd_pool R) of (i, P) \<Rightarrow>
     (case reset_reader D k src of
        Inl e \<Rightarrow> (R\<lparr>rd_pool := pool_put k i (set_object i [] P)\<rparr>, Some e)
      | Inr d \<Rightarrow> (R\<lparr>rd_pool := set_object i d P,
           rd_streams := rd_streams R @ [\<lparr>is_kind = k, is_object = i, is_source = src, is_read = [], is_open = True\<rparr>]\<rparr>, None)))"

definition read_stream :: "nat \<Rightarrow> nat \<Rightarrow> readers \<Rightarrow> readers" where
  "read_stream s n R = (let st = rd_streams R ! s; d = op_objects (rd_pool R) ! is_object st in
     \<lparr>rd_pool = set_object (is_object st) (drop n d) (rd_pool R), rd_streams = (rd_streams R)[s := st\<lparr>is_read := is_read st @ take n d\<rparr>]\<rparr>)"

text \<open>\<^verbatim>\<open>Close\<close>: a gzip reader is put back as it is, the others are reset to no input first.\<close>

definition close_decompressor :: "codec_kind \<Rightarrow> (string \<Rightarrow> string) \<Rightarrow> nat \<Rightarrow> readers \<Rightarrow> readers" where
  "close_decompressor k reset s R = (let st = rd_streams R ! s; d = op_objects (rd_pool R) ! is_object st in
     \<lparr>rd_pool = pool_put k (is_object st) (set_object (is_object st) (reset d) (rd_pool R)), rd_streams = (rd_streams R)[s := st\<lparr>is_open := False\<rparr>]\<rparr>)"

definition close_gzip_reader :: "nat \<Rightarrow> readers \<Rightarrow> readers" where
  "close_gzip_reader = close_decompressor Gzip (\<lambda>d. d)"

definition close_zstd_reader :: "nat \<Rightarrow> readers \<Rightarrow> readers" where
  "close_zstd_reader = close_decompressor Zstd (\<lambda>_. [])"

definition close_snappy_reader :: "nat \<Rightarrow> readers \<Rightarrow> readers" where
  "close_snappy_reader = close_decompressor Snappy (\<lambda>_. [])"

definition close_in_stream :: "nat \<Rightarrow> readers \<Rightarrow> readers" where
  "close_in_stream s R = (case is_kind (rd_streams R ! s) of
      Gzip \<Rightarrow> close_gzip_reader s R | Zstd \<Rightarrow> close_zstd_reader s R | Snappy \<Rightarrow> close_snappy_reader s R)"

inductive reader_step :: "decoders \<Rightarrow> readers \<Rightarrow> readers \<Rightarrow> bool" for D where
  reader_open: "reader_step D R (fst (open_reader D k pick src R))"
| reader_read: "s < length (rd_streams R) \<Longrightarrow> is_open (rd_streams R ! s) \<Longrightarrow> reader_step D R (read_stream s n R)"
| reader_close: "s < length (rd_streams R) \<Longrightarrow> is_open (rd_streams R ! s) \<Longrightarrow> reader_step D R (close_in_stream s R)"

section \<open>Objects have one owner\<close>

lemma mset_take_drop: "i < length xs \<Longrightarrow> mset xs = add_mset (xs ! i) (mset (take i xs @ drop (Suc i) xs))"
  by (metis id_take_nth_drop mset.simps(2) mset_append union_mset_add_mset_right)

lemma idle_all_put [simp]: "mset (idle_all (pool_put k i P)) = add_mset i (mset (idle_all P))" "op_objects (pool_put k i P) = op_objects P"
  by (cases k) (simp_all add: idle_all_def pool_put_def)

lemma idle_all_set [simp]: "idle_all (set_object i x P) = idle_all P" "length (op_objects (set_object i x P)) = length (op_objects P)"
  by (simp_all add: idle_all_def set_object_def)

lemma pool_get_cases:
  assumes "pool_get fresh k pick P = (i, P')"
  shows "mset (idle_all P) = add_mset i (mset (idle_all P')) \<and> op_objects P' = op_objects P \<or>
    idle_all P' = idle_all P \<and> i = length (op_objects P) \<and> op_objects P' = op_objects P @ [fresh]"
proof (cases "pick < length (op_idle P k)")
  case True
  then have "i = op_idle P k ! pick" "P' = P\<lparr>op_idle := (op_idle P)(k := take pick (op_idle P k) @ drop (Suc pick) (op_idle P k))\<rparr>"
    using assms by (simp_all add: pool_get_def Let_def)
  then show ?thesis using mset_take_drop [OF True] by (cases k) (simp_all add: idle_all_def)
next
  case False
  then show ?thesis using assms by (auto simp: pool_get_def Let_def idle_all_def)
qed

text \<open>Distinct references within the objects, as a statement on the multiset of references.\<close>

definition refs_ok :: "nat multiset \<Rightarrow> nat \<Rightarrow> bool" where
  "refs_ok M n \<longleftrightarrow> (\<forall>i. count M i \<le> (if i < n then 1 else 0))"

lemma objects_ok_refs: "objects_ok (own, P) \<longleftrightarrow> refs_ok (mset own + mset (idle_all P)) (length (op_objects P))"
proof -
  have "distinct xs \<and> set xs \<subseteq> {..<n} \<longleftrightarrow> refs_ok (mset xs) n" for xs :: "nat list" and n
  proof
    assume "distinct xs \<and> set xs \<subseteq> {..<n}"
    then show "refs_ok (mset xs) n" by (auto simp: refs_ok_def distinct_count_atmost_1)
  next
    assume r: "refs_ok (mset xs) n"
    then have "count (mset xs) i = (if i \<in> set xs then 1 else 0)" for i
      using r [unfolded refs_ok_def, rule_format, of i] count_greater_zero_iff [of "mset xs" i]
      by (auto split: if_splits intro!: le_antisym simp: Suc_le_eq)
    moreover have "i < n" if "i \<in> set xs" for i
      using r [unfolded refs_ok_def, rule_format, of i] that by (auto split: if_splits)
    ultimately show "distinct xs \<and> set xs \<subseteq> {..<n}" by (auto simp: distinct_count_atmost_1)
  qed
  from this [of "own @ idle_all P"] show ?thesis by (simp only: objects_ok_def fst_conv snd_conv mset_append)
qed

lemma refs_ok_new: "refs_ok M n \<Longrightarrow> refs_ok (add_mset n M) (Suc n)"
proof -
  assume r: "refs_ok M n"
  have "count (add_mset n M) i \<le> (if i < Suc n then 1 else 0)" for i
    using r [unfolded refs_ok_def, rule_format, of i] by (auto split: if_splits)
  then show "refs_ok (add_mset n M) (Suc n)" by (simp add: refs_ok_def)
qed

lemma pool_use_ok: "pool_use s s' \<Longrightarrow> objects_ok s \<Longrightarrow> objects_ok s'"
proof (induction rule: pool_use.induct)
  case (take_object fresh k pick P i P' own' own x)
  then show ?case using pool_get_cases [OF take_object(1)] refs_ok_new [of "mset own + mset (idle_all P)" "length (op_objects P)"]
    by (auto simp: objects_ok_refs)
next
  case (return_object own i own' k P x)
  then show ?case by (simp add: objects_ok_refs)
next
  case (taken_and_returned fresh k pick P i P' own x)
  then show ?case using pool_get_cases [OF taken_and_returned(1)] refs_ok_new [of "mset own + mset (idle_all P)" "length (op_objects P)"]
    by (auto simp: objects_ok_refs)
qed (simp add: objects_ok_refs)

text \<open>The contract of a component that uses a pool: every step of it is a use by the owners. Then no two owners ever have the same object.\<close>

locale pool_client =
  fixes step :: "'s \<Rightarrow> 's \<Rightarrow> bool" and own :: "'s \<Rightarrow> nat list" and pool :: "'s \<Rightarrow> 'o object_pool"
  assumes uses: "step s s' \<Longrightarrow> pool_use (own s, pool s) (own s', pool s')"
begin

lemma pool_keeps: "step\<^sup>*\<^sup>* s s' \<Longrightarrow> objects_ok (own s, pool s) \<Longrightarrow> objects_ok (own s', pool s')"
  by (induction rule: rtranclp_induct) (auto dest: uses intro: pool_use_ok)

end

section \<open>The streams do not disturb each other\<close>

text \<open>What a compressor of its own would have written for the calls of a stream.\<close>

fun run_calls :: "'l stream_layer \<Rightarrow> (string \<times> bool) list \<Rightarrow> 'l stream_layer \<times> string" where
  "run_calls y [] = (y, [])"
| "run_calls y ((b, ok) # cs) = (case ly_write y (ly_state y) b of (l, out) \<Rightarrow>
     (case run_calls (y\<lparr>ly_state := l\<rparr>) cs of (y', out') \<Rightarrow> (y', (if ok then out else []) @ out')))"

definition stream_bytes :: "('r, 'l) codec_lib \<Rightarrow> out_stream \<Rightarrow> string" where
  "stream_bytes lib st = (case run_calls (new_layer lib (os_kind st)) (os_calls st) of (y, out) \<Rightarrow>
     out @ (if os_closed st = Some True then ly_close y (ly_state y) else []))"

definition writer_owners :: "'l codec_writers \<Rightarrow> nat list" where
  "writer_owners W = map os_object (filter (\<lambda>st. os_closed st = None) (wr_streams W))"

definition streams_ok :: "('r, 'l) codec_lib \<Rightarrow> 'l codec_writers \<Rightarrow> bool" where
  "streams_ok lib W \<longleftrightarrow> length (wr_files W) = length (wr_streams W) \<and> (\<forall>s < length (wr_streams W). let st = wr_streams W ! s in
     wr_files W ! s = stream_bytes lib st \<and>
     (os_closed st = None \<longrightarrow> op_objects (wr_pool W) ! os_object st = \<lparr>cm_target = Some s, cm_layer = fst (run_calls (new_layer lib (os_kind st)) (os_calls st))\<rparr>))"

lemma run_calls_snoc:
  "run_calls y (cs @ [(b, ok)]) = (case run_calls y cs of (y', out) \<Rightarrow> (case ly_write y' (ly_state y') b of (l, o') \<Rightarrow>
     (y'\<lparr>ly_state := l\<rparr>, out @ (if ok then o' else []))))"
  by (induction y cs rule: run_calls.induct) (auto split: prod.splits)

lemma mset_filter_update:
  assumes "s < length xs" "P (xs ! s)" "\<not> P x"
  shows "mset (map f (filter P xs)) = add_mset (f (xs ! s)) (mset (map f (filter P (xs[s := x]))))"
  using assms
proof (induction xs arbitrary: s)
  case (Cons a xs)
  then show ?case by (cases s) auto
qed simp

lemma filter_update_same:
  assumes "s < length xs" "P x = P (xs ! s)" "f x = f (xs ! s)"
  shows "map f (filter P (xs[s := x])) = map f (filter P xs)"
  using assms
proof (induction xs arbitrary: s)
  case (Cons a xs)
  then show ?case by (cases s) auto
qed simp

lemma owner_mem: "s < length (wr_streams W) \<Longrightarrow> os_closed (wr_streams W ! s) = None \<Longrightarrow> os_object (wr_streams W ! s) \<in> set (writer_owners W)"
  by (auto simp: writer_owners_def)

lemma close_stream_eq: "close_stream lib s ok W = close_compressor lib (os_kind (wr_streams W ! s)) s ok W"
  by (simp add: close_stream_def pooled_gzip_close_def pooled_zstd_close_def pooled_snappy_close_def split: codec_kind.splits)

lemma write_stream_pool:
  assumes "s < length (wr_streams W)"
  shows "writer_owners (write_stream s ok b W) = writer_owners W \<and> (\<exists>x. wr_pool (write_stream s ok b W) = set_object (os_object (wr_streams W ! s)) x (wr_pool W))"
  using filter_update_same [OF assms, where P = "\<lambda>st. os_closed st = None" and f = os_object
      and x = "(wr_streams W ! s)\<lparr>os_calls := os_calls (wr_streams W ! s) @ [(b, ok)]\<rparr>"]
  by (auto simp: write_stream_def Let_def writer_owners_def split: prod.splits)

interpretation pooled_writers: pool_client "codec_step lib" writer_owners wr_pool for lib
proof
  fix W W'
  assume "codec_step lib W W'"
  then show "pool_use (writer_owners W, wr_pool W) (writer_owners W', wr_pool W')"
  proof cases
    case (step_open ty k pick)
    obtain i P where g: "pool_get (discarding lib k) k pick (wr_pool W) = (i, P)" by fastforce
    show ?thesis unfolding step_open(1) open_writer_def g by (auto intro!: take_object [OF g] simp: writer_owners_def)
  next
    case (step_write s ok b)
    then show ?thesis using write_stream_pool [OF step_write(2), of ok b] use_object [OF owner_mem [OF step_write(2,3)]] by auto
  next
    case (step_close s ok)
    then show ?thesis using mset_filter_update [OF step_close(2), where P = "\<lambda>st. os_closed st = None" and f = os_object]
      by (auto simp: close_stream_eq close_compressor_def Let_def writer_owners_def intro!: return_object)
  qed
qed

lemma pool_get_owner:
  assumes "objects_ok (own, P)" "pool_get fresh k pick P = (i, P')"
  shows "i < length (op_objects P') \<and> i \<notin> set own \<and> (\<forall>j \<in> set own. op_objects P' ! j = op_objects P ! j)"
  using pool_get_cases [OF assms(2)]
proof
  assume a: "mset (idle_all P) = add_mset i (mset (idle_all P')) \<and> op_objects P' = op_objects P"
  then have "i \<in> set (idle_all P)" by (metis set_mset_mset union_single_eq_member)
  then show ?thesis using a assms(1) by (auto simp: objects_ok_def)
qed (use assms(1) in \<open>auto simp: objects_ok_def nth_append\<close>)

lemma distinct_filtered:
  assumes "distinct (map f (filter P xs))" "s < length xs" "t < length xs" "s \<noteq> t" "P (xs ! s)" "P (xs ! t)"
  shows "f (xs ! s) \<noteq> f (xs ! t)"
  using assms
proof (induction xs arbitrary: s t)
  case (Cons a xs)
  have "f a \<noteq> f (xs ! n)" if "P a" "P (xs ! n)" "n < length xs" for n using Cons.prems(1) that by auto
  then show ?case using Cons.prems Cons.IH [of "s - 1" "t - 1"] by (cases s; cases t) (auto split: if_splits dest: sym)
qed simp

lemma owners_differ:
  assumes "objects_ok (writer_owners W, P)" "s < length (wr_streams W)" "t < length (wr_streams W)" "s \<noteq> t"
    "os_closed (wr_streams W ! s) = None" "os_closed (wr_streams W ! t) = None"
  shows "os_object (wr_streams W ! s) \<noteq> os_object (wr_streams W ! t)"
  using assms distinct_filtered [of os_object "\<lambda>st. os_closed st = None" "wr_streams W" s t] by (simp add: objects_ok_def writer_owners_def)

lemma open_writer_ok:
  assumes "objects_ok (writer_owners W, wr_pool W)" "streams_ok lib W"
  shows "streams_ok lib (open_writer lib k pick W)"
proof -
  obtain i P where g: "pool_get (discarding lib k) k pick (wr_pool W) = (i, P)" by fastforce
  note p = pool_get_owner [OF assms(1) g]
  show ?thesis using assms(2) p owner_mem [of _ W]
    by (fastforce simp: streams_ok_def open_writer_def g Let_def nth_append set_object_def stream_bytes_def less_Suc_eq nth_list_update)
qed

lemma write_stream_ok:
  assumes "objects_ok (writer_owners W, wr_pool W)" "streams_ok lib W" "s < length (wr_streams W)" "os_closed (wr_streams W ! s) = None"
  shows "streams_ok lib (write_stream s ok b W)"
proof -
  let ?st = "wr_streams W ! s" and ?i = "os_object (wr_streams W ! s)"
  obtain y out where r: "run_calls (new_layer lib (os_kind ?st)) (os_calls ?st) = (y, out)" by fastforce
  obtain l o' where w: "ly_write y (ly_state y) b = (l, o')" by fastforce
  have obj: "op_objects (wr_pool W) ! ?i = \<lparr>cm_target = Some s, cm_layer = y\<rparr>" "wr_files W ! s = out" "length (wr_files W) = length (wr_streams W)"
    using assms(2-4) r by (auto simp: streams_ok_def Let_def stream_bytes_def)
  have i: "?i < length (op_objects (wr_pool W))" using assms(1) owner_mem [OF assms(3,4)] by (auto simp: objects_ok_def)
  show ?thesis using assms(2) owners_differ [OF assms(1,3)] obj i assms(3,4) r w
    by (auto simp: streams_ok_def write_stream_def Let_def set_object_def stream_bytes_def emit_def nth_list_update run_calls_snoc)
qed

lemma close_stream_ok:
  assumes "objects_ok (writer_owners W, wr_pool W)" "streams_ok lib W" "s < length (wr_streams W)" "os_closed (wr_streams W ! s) = None"
  shows "streams_ok lib (close_stream lib s ok W)"
proof -
  let ?st = "wr_streams W ! s" and ?i = "os_object (wr_streams W ! s)"
  obtain y out where r: "run_calls (new_layer lib (os_kind ?st)) (os_calls ?st) = (y, out)" by fastforce
  have obj: "op_objects (wr_pool W) ! ?i = \<lparr>cm_target = Some s, cm_layer = y\<rparr>" "wr_files W ! s = out" "length (wr_files W) = length (wr_streams W)"
    using assms(2-4) r by (auto simp: streams_ok_def Let_def stream_bytes_def)
  show ?thesis using assms(2) owners_differ [OF assms(1,3)] obj assms(3,4) r
    by (auto simp: streams_ok_def close_stream_eq close_compressor_def Let_def set_object_def stream_bytes_def emit_def nth_list_update)
qed

interpretation isolated_writers: transition_invariant "codec_step lib" "\<lambda>W. objects_ok (writer_owners W, wr_pool W) \<and> streams_ok lib W" for lib
proof
  fix W W'
  assume s: "codec_step lib W W'" and inv: "objects_ok (writer_owners W, wr_pool W) \<and> streams_ok lib W"
  have "streams_ok lib W'" using s inv by cases (auto intro: open_writer_ok write_stream_ok close_stream_ok)
  then show "objects_ok (writer_owners W', wr_pool W') \<and> streams_ok lib W'" using pool_use_ok [OF pooled_writers.uses [OF s]] inv by blast
qed

text \<open>C13. Pooled compressors. However streams are opened, written to and closed, each until it is closed and no further, and whichever idle
  object the pool returns, the bytes at the destination of every stream are those a compressor of its own would have written for the calls
  made on that stream (less those the destination refused), and two open streams never share a compressor.\<close>

theorem pooled_writers_isolated:
  assumes "(codec_step lib)\<^sup>*\<^sup>* no_writers W" "s < length (wr_streams W)"
  shows "wr_files W ! s = stream_bytes lib (wr_streams W ! s) \<and>
    (\<forall>t < length (wr_streams W). s \<noteq> t \<longrightarrow> os_closed (wr_streams W ! s) = None \<longrightarrow> os_closed (wr_streams W ! t) = None \<longrightarrow>
      os_object (wr_streams W ! s) \<noteq> os_object (wr_streams W ! t))"
proof -
  have "objects_ok (writer_owners W, wr_pool W) \<and> streams_ok lib W"
    by (rule isolated_writers.reachable_keeps [OF assms(1)]) (simp add: no_writers_def objects_ok_def streams_ok_def idle_all_def writer_owners_def)
  then show ?thesis using assms(2) owners_differ [of W "wr_pool W" s] by (auto simp: streams_ok_def Let_def)
qed

text \<open>A compressor that counts what it is given, and writes each piece after a mark and the count at the end.\<close>

definition counting_codecs :: "(string, nat) codec_lib" where
  "counting_codecs = (let y = \<lparr>ly_state = 0, ly_write = (\<lambda>n b. (n + length b, CHR ''<'' # b)), ly_close = (\<lambda>n. replicate n CHR ''.'')\<rparr> in
     \<lparr>cl_gunzip = Inr, cl_unzstd = Inr, cl_unsnappy = (\<lambda>r. r), cl_bunzip2 = (\<lambda>r. r), cl_latin1 = (\<lambda>r. r), cl_windows1252 = (\<lambda>r. r),
      cl_utf16le = (\<lambda>r. r), cl_utf16be = (\<lambda>r. r), cl_gzip = y, cl_zstd = y, cl_snappy = y\<rparr>)"

lemmas pool_run_simps = no_writers_def open_writer_def write_stream_def close_stream_eq close_compressor_def pool_get_def pool_put_def set_object_def
  discarding_def new_layer_def counting_codecs_def emit_def Let_def

theorem pooled_writers_isolated_witness:
  "\<exists>W. (codec_step counting_codecs)\<^sup>*\<^sup>* no_writers W \<and> length (wr_streams W) = 2 \<and> wr_files W ! 1 = ''<cd''"
proof -
  let ?W1 = "open_writer counting_codecs Gzip 0 no_writers" let ?W2 = "write_stream 0 True ''ab'' ?W1"
  let ?W3 = "close_stream counting_codecs 0 True ?W2" let ?W4 = "open_writer counting_codecs Gzip 0 ?W3" let ?W = "write_stream 1 True ''cd'' ?W4"
  have k: "compressor_kind ''gzip'' = Some Gzip" by (simp add: compressor_kind_def clean_name_def trim_space_visible ascii_visible_def to_lower_def lower_char_def)
  have "codec_step counting_codecs no_writers ?W1" by (rule step_open [OF k])
  moreover have "codec_step counting_codecs ?W1 ?W2" by (rule step_write) (simp_all add: pool_run_simps)
  moreover have "codec_step counting_codecs ?W2 ?W3" by (rule step_close) (simp_all add: pool_run_simps)
  moreover have "codec_step counting_codecs ?W3 ?W4" by (rule step_open [OF k])
  moreover have "codec_step counting_codecs ?W4 ?W" by (rule step_write) (simp_all add: pool_run_simps)
  ultimately have r: "(codec_step counting_codecs)\<^sup>*\<^sup>* no_writers ?W" by (meson converse_rtranclp_into_rtranclp rtranclp.rtrancl_refl)
  have st: "length (wr_streams ?W) = 2" "wr_streams ?W ! 1 = \<lparr>os_kind = Gzip, os_object = 0, os_calls = [(''cd'', True)], os_closed = None\<rparr>"
    by (simp_all add: pool_run_simps)
  from pooled_writers_isolated [OF r, of 1] st have "wr_files ?W ! 1 = ''<cd''"
    by (simp add: stream_bytes_def new_layer_def counting_codecs_def Let_def)
  then show ?thesis using r st(1) by blast
qed

text \<open>A closer called twice: \<^verbatim>\<open>DelimitedFileWriter.Close\<close> closes the compressor, and on an error \<^verbatim>\<open>abort\<close> closes it again. The object is then
  twice in the pool; the next two streams share it, and what is written to the first arrives in the file of the second.\<close>

lemma double_close_mixes_streams:
  "wr_files (write_stream 1 True ''ab'' (open_writer counting_codecs Gzip 0 (open_writer counting_codecs Gzip 0
     (close_stream counting_codecs 0 True (close_stream counting_codecs 0 False (open_writer counting_codecs Gzip 0 no_writers)))))) = [[], [], ''<ab'']"
  by (simp add: pool_run_simps)

section \<open>Pooled readers\<close>

definition reader_owners :: "readers \<Rightarrow> nat list" where
  "reader_owners R = map is_object (filter is_open (rd_streams R))"

definition readers_ok :: "decoders \<Rightarrow> readers \<Rightarrow> bool" where
  "readers_ok D R \<longleftrightarrow> (\<forall>s < length (rd_streams R). let st = rd_streams R ! s in is_open st \<longrightarrow>
     reset_reader D (is_kind st) (is_source st) = Inr (is_read st @ op_objects (rd_pool R) ! is_object st))"

lemma close_in_stream_eq: "\<exists>f. close_in_stream s R = close_decompressor (is_kind (rd_streams R ! s)) f s R"
  by (auto simp: close_in_stream_def close_gzip_reader_def close_zstd_reader_def close_snappy_reader_def split: codec_kind.splits)

interpretation pooled_readers: pool_client "reader_step D" reader_owners rd_pool for D
proof
  fix R R'
  assume "reader_step D R R'"
  then show "pool_use (reader_owners R, rd_pool R) (reader_owners R', rd_pool R')"
  proof cases
    case (reader_open k pick src)
    obtain i P where g: "pool_get [] k pick (rd_pool R) = (i, P)" by fastforce
    show ?thesis unfolding reader_open(1) open_reader_def g
      by (cases "reset_reader D k src") (auto intro!: take_object [OF g] taken_and_returned [OF g] simp: reader_owners_def)
  next
    case (reader_read s n)
    have "is_object (rd_streams R ! s) \<in> set (reader_owners R)" using reader_read(2,3) by (auto simp: reader_owners_def)
    then show ?thesis using filter_update_same [OF reader_read(2), where P = is_open and f = is_object
        and x = "(rd_streams R ! s)\<lparr>is_read := is_read (rd_streams R ! s) @ take n (op_objects (rd_pool R) ! is_object (rd_streams R ! s))\<rparr>"]
      by (simp add: reader_read(1) read_stream_def Let_def reader_owners_def use_object)
  next
    case (reader_close s)
    obtain f where "close_in_stream s R = close_decompressor (is_kind (rd_streams R ! s)) f s R" using close_in_stream_eq by blast
    then show ?thesis using mset_filter_update [OF reader_close(2), where P = is_open and f = is_object] reader_close(1,3)
      by (auto simp: close_decompressor_def Let_def reader_owners_def intro!: return_object)
  qed
qed

lemma reader_owner_mem: "s < length (rd_streams R) \<Longrightarrow> is_open (rd_streams R ! s) \<Longrightarrow> is_object (rd_streams R ! s) \<in> set (reader_owners R)"
  by (auto simp: reader_owners_def)

lemma readers_differ:
  assumes "objects_ok (reader_owners R, P)" "s < length (rd_streams R)" "t < length (rd_streams R)" "s \<noteq> t" "is_open (rd_streams R ! s)" "is_open (rd_streams R ! t)"
  shows "is_object (rd_streams R ! s) \<noteq> is_object (rd_streams R ! t)"
  using assms distinct_filtered [of is_object is_open "rd_streams R" s t] by (simp add: objects_ok_def reader_owners_def)

lemma open_reader_ok:
  assumes "objects_ok (reader_owners R, rd_pool R)" "readers_ok D R"
  shows "readers_ok D (fst (open_reader D k pick src R))"
proof -
  obtain i P where g: "pool_get [] k pick (rd_pool R) = (i, P)" by fastforce
  note p = pool_get_owner [OF assms(1) g]
  show ?thesis using assms(2) p reader_owner_mem [of _ R]
    by (cases "reset_reader D k src") (fastforce simp: readers_ok_def open_reader_def g Let_def nth_append set_object_def less_Suc_eq nth_list_update)+
qed

lemma read_stream_ok:
  assumes "objects_ok (reader_owners R, rd_pool R)" "readers_ok D R" "s < length (rd_streams R)" "is_open (rd_streams R ! s)"
  shows "readers_ok D (read_stream s n R)"
proof -
  have "is_object (rd_streams R ! s) < length (op_objects (rd_pool R))" using assms(1) reader_owner_mem [OF assms(3,4)] by (auto simp: objects_ok_def)
  then show ?thesis using assms(2-4) readers_differ [OF assms(1,3)]
    by (auto simp: readers_ok_def read_stream_def Let_def set_object_def nth_list_update)
qed

lemma close_in_stream_ok:
  assumes "objects_ok (reader_owners R, rd_pool R)" "readers_ok D R" "s < length (rd_streams R)" "is_open (rd_streams R ! s)"
  shows "readers_ok D (close_in_stream s R)"
proof -
  obtain f where "close_in_stream s R = close_decompressor (is_kind (rd_streams R ! s)) f s R" using close_in_stream_eq by blast
  then show ?thesis using assms(2-4) readers_differ [OF assms(1,3)]
    by (auto simp: readers_ok_def close_decompressor_def Let_def set_object_def nth_list_update)
qed

interpretation isolated_readers: transition_invariant "reader_step D" "\<lambda>R. objects_ok (reader_owners R, rd_pool R) \<and> readers_ok D R" for D
proof
  fix R R'
  assume s: "reader_step D R R'" and inv: "objects_ok (reader_owners R, rd_pool R) \<and> readers_ok D R"
  have "readers_ok D R'" using s inv by cases (auto intro: open_reader_ok read_stream_ok close_in_stream_ok)
  then show "objects_ok (reader_owners R', rd_pool R') \<and> readers_ok D R'" using pool_use_ok [OF pooled_readers.uses [OF s]] inv by blast
qed

text \<open>Every open reader yields the decoded bytes of its own source, piece by piece, whatever the objects were used for before.\<close>

lemma pooled_readers_isolated:
  assumes "(reader_step D)\<^sup>*\<^sup>* \<lparr>rd_pool = \<lparr>op_objects = [], op_idle = (\<lambda>_. [])\<rparr>, rd_streams = []\<rparr> R"
    and "s < length (rd_streams R)" "is_open (rd_streams R ! s)"
  shows "\<exists>rest. reset_reader D (is_kind (rd_streams R ! s)) (is_source (rd_streams R ! s)) = Inr (is_read (rd_streams R ! s) @ rest)"
proof -
  have "objects_ok (reader_owners R, rd_pool R) \<and> readers_ok D R"
    by (rule isolated_readers.reachable_keeps [OF assms(1)]) (simp add: objects_ok_def readers_ok_def idle_all_def reader_owners_def)
  then show ?thesis using assms(2,3) by (auto simp: readers_ok_def Let_def)
qed

end
