(* ===== verification/Logging.thy ===== *)
theory Logging
  imports Validation
begin

text \<open>
  The structured logger, \<^verbatim>\<open>internal/adapters/telemetry/logger.go\<close>: the arguments of a log call, the trace fields added to them and the
  redaction of sensitive values. How \<^verbatim>\<open>log/slog\<close> reads a list of arguments (a string is a key for the argument after it, an attribute stands
  for itself, anything else has no key) is written out from its documentation, since redaction depends on it.
\<close>

section \<open>Arguments (logger.go)\<close>

text \<open>An argument of type \<^verbatim>\<open>any\<close>: a string, an attribute with its key, or another value.\<close>

datatype log_arg = ArgString string | ArgAttr string go_any | ArgOther go_any

definition arg_value :: "log_arg \<Rightarrow> go_any" where
  "arg_value a = (case a of ArgString s \<Rightarrow> GoString s | ArgAttr _ v \<Rightarrow> v | ArgOther v \<Rightarrow> v)"

definition sanitize_arg :: "string \<Rightarrow> string list \<Rightarrow> log_arg \<Rightarrow> log_arg" where
  "sanitize_arg k custom a = (if is_sensitive_key k custom then ArgString redacted else a)"

definition with_trace_fields :: "string \<Rightarrow> string \<Rightarrow> log_arg list \<Rightarrow> log_arg list" where
  "with_trace_fields trace_id span_id args = args @ [ArgAttr ''trace_id'' (GoString trace_id), ArgAttr ''span_id'' (GoString span_id)]"

text \<open>The loop steps by two, whatever the argument at the place of a key is.\<close>

fun sanitize_args :: "string list \<Rightarrow> log_arg list \<Rightarrow> log_arg list" where
  "sanitize_args custom (k # v # args) = k # (case k of ArgString s \<Rightarrow> sanitize_arg s custom v | _ \<Rightarrow> v) # sanitize_args custom args"
| "sanitize_args custom args = args"

definition log_context :: "string \<Rightarrow> string \<Rightarrow> log_arg list \<Rightarrow> log_arg list" where
  "log_context trace_id span_id args = sanitize_args [] (with_trace_fields trace_id span_id args)"

section \<open>What is logged (log/slog)\<close>

fun logged :: "log_arg list \<Rightarrow> (string \<times> go_any) list" where
  "logged [] = []"
| "logged (ArgString k # v # args) = (k, arg_value v) # logged args"
| "logged [ArgString k] = [(''!BADKEY'', GoString k)]"
| "logged (ArgAttr k v # args) = (k, v) # logged args"
| "logged (ArgOther v # args) = (''!BADKEY'', v) # logged args"

section \<open>Redaction\<close>

text \<open>Keys and values in turn, as the comment of \<^verbatim>\<open>sanitizeArgs\<close> asks for.\<close>

fun in_turn :: "log_arg list \<Rightarrow> bool" where
  "in_turn [] = True" | "in_turn (ArgString _ # v # args) = in_turn args" | "in_turn _ = False"

text \<open>With keys and values in turn, no sensitive value is logged: every pair is passed on with its value redacted if the key is sensitive, and
  the trace fields follow. With an attribute among the arguments the loop takes keys for values, and a password is logged.\<close>

lemma log_context_redacts:
  assumes "in_turn args"
  shows "logged (log_context t s args) =
    map (\<lambda>(k, v). (k, if is_sensitive_key k [] then GoString redacted else v)) (logged args) @ [(''trace_id'', GoString t), (''span_id'', GoString s)]"
  using assms
proof (induction args rule: in_turn.induct)
  case (2 k v args)
  then show ?case by (cases "is_sensitive_key k []") (simp_all add: log_context_def with_trace_fields_def sanitize_arg_def arg_value_def)
qed (simp_all add: log_context_def with_trace_fields_def)

lemma attribute_shifts_redaction:
  "(''password'', GoString ''hunter2'') \<in> set (logged (log_context t s [ArgAttr ''job'' (GoString ''j''), ArgString ''password'', ArgString ''hunter2'']))"
  by (simp add: log_context_def with_trace_fields_def arg_value_def)

lemma password_is_sensitive: "is_sensitive_key ''password'' custom"
proof -
  have "contains ''password'' ''password''" by (simp only: contains_iff) (rule exI [of _ "[]"], simp)
  then show ?thesis by (simp add: is_sensitive_key_def default_sensitive_keywords_def trim_space_visible ascii_visible_def to_lower_def lower_char_def Let_def)
qed

end
