(* ===== verification/Spec2Isabelle.thy ===== *)
theory Spec2Isabelle
  imports Coders Batch_Coder BigQuery Sink_Stage Token_Bucket Prefetch Intern Database_Sources Codec_Pool Logging
begin

text \<open>
  A verification of OmniBeam, a batch data pipeline in Go (under \<^verbatim>\<open>src/\<close>) that reads records from files, databases or REST services,
  validates them against a schema, writes the valid ones to a file, a service or a table and the others to a quarantine, and reports counts.

  \<^bold>\<open>The program and the theories.\<close> A run starts in \<^verbatim>\<open>cmd/pipeline/main.go\<close>: a manifest is read and checked, a source and three sinks are built
  through registries of connectors, a graph is built and given to a Beam runner, and after the run a metrics file is written. The theories
  follow that structure; names of definitions are those of the Go functions in lower case with underscores.

  \<^item> \<open>Omni_Prelude\<close>, \<open>Go_Paths\<close>, \<open>Csv\<close>: what the sources use of the language and its library. Machine integers with their wrap-around
    (\<open>i64\<close>, \<open>i32\<close>, words of 32 and 64 bits), \<^verbatim>\<open>strings\<close>, \<^verbatim>\<open>strconv\<close>, maps as lists of entries, \<^verbatim>\<open>path/filepath\<close>, the reader and writer of
    \<^verbatim>\<open>encoding/csv\<close>; and the two locales \<open>transition_invariant\<close> and \<open>simulation\<close> that invariants and refinements are instances of. A string is the list
    of its bytes. \<open>Go_Paths\<close> also has the output file names of \<^verbatim>\<open>domain/uri_builder.go\<close>.
  \<^item> \<open>Coercion\<close>, \<open>Records\<close>, \<open>Record_Batch\<close>, \<open>Watermark\<close>, \<open>Config\<close>: the package \<^verbatim>\<open>internal/domain\<close> with \<^verbatim>\<open>pkg/fastnum\<close>. Numbers from text
    (an integer is accepted exactly if it is a numeral in range, decimals are rounded half up), schema and records, the columnar batch as a
    refinement of a list of rows, watermark values and their SQL literals, and the manifest with all its defaults and checks and what an
    accepted one guarantees.
  \<^item> \<open>Validation\<close>, \<open>Metrics\<close>, \<open>Pipeline\<close>: the stages of the graph in \<^verbatim>\<open>internal/beam/core\<close>. Each element goes to exactly one of the valid stream and
    the dead letters; the fused stage equals the two it replaces; a dead letter does not depend on sensitive columns; both combiners have the
    contract \<open>combine_fn\<close>, so their result does not depend on how the runner bundles and merges; the counts of a run balance.
  \<^item> \<open>Wire\<close>, \<open>Coders\<close>, \<open>Batch_Coder\<close>: the binary coders, each an interpretation of the locale \<open>codec\<close>; round trips with trailing bytes, and what is lost.
  \<^item> \<open>Trackers\<close>, \<open>Byte_Stream\<close>, \<open>Partitions\<close>, \<open>Channels\<close>: splittable reading. The three trackers are interpretations of \<open>restriction_tracker\<close>: for every
    interleaving of claims and splits the residuals are exactly what was not claimed. A worker of a file feeds the records of its range;
    the slices of a table and of a collection; the goroutine of a reader and the DoFn over two bounded channels as a step relation.
  \<^item> \<open>SQL_Source\<close>, \<open>Secrets\<close>, \<open>Mongo_Source\<close>, \<open>Database_Sources\<close>: \<^verbatim>\<open>internal/adapters/partitions\<close> and \<^verbatim>\<open>internal/adapters/secrets\<close>. Reading a table or a
    collection end to end, the typing of the records, references to secrets and their resolvers, the cache of connection pools, and the
    discovery of partitions.
  \<^item> \<open>Http_Client\<close>, \<open>Token_Bucket\<close>, \<open>Resilience\<close>, \<open>Rest_Source\<close>, \<open>Batch_Sinks\<close>, \<open>BigQuery\<close>: services. The retry loop, the rate limiter, the circuit breaker as
    a state machine with concurrent calls, pages of a service, and the two batching sinks.
  \<^item> \<open>Storage\<close>, \<open>Sinks\<close>, \<open>Stream_Sink\<close>, \<open>Cloud_Storage\<close>, \<open>Formats\<close>, \<open>File_Writer\<close>, \<open>Parquet\<close>, \<open>Codec_Pool\<close>, \<open>Prefetch\<close>: files. A \<^verbatim>\<open>StorageWriter\<close> is the
    locale \<open>staged_storage\<close>, with the local file system, the object store and the resolver over both as its instances; the sinks are proved
    over the locale, so a bundle publishes a whole file or nothing on each of them. Formatters, parsers and codecs; compressors reused
    through a pool; the reader that fetches ahead.
  \<^item> \<open>Composition\<close>, \<open>Execution\<close>, \<open>Watermark_Output\<close>, \<open>Workers\<close>, \<open>Sink_Stage\<close>: the composition root, the program, and what a worker rebuilds.
    \<open>Sink_Stage\<close> joins the graph and the sinks: every record read is in one of the published files.
  \<^item> \<open>Intern\<close>, \<open>Logging\<close>: the pool of strings, and the redaction of log arguments.

  This theory holds the property that runs through most of them: from a manifest through the registry, the file sink and the published file
  to a second run that reads the records back.

  \<^bold>\<open>How code becomes definitions.\<close> A struct is a record, a set of cases a datatype, a fallible function returns a sum whose left side is the
  error (its text where the code makes one), a panic or a loop that does not end is \<^term>\<open>None\<close>. State is passed explicitly: the files, the pools,
  the clock, the world of a service. What runs concurrently is a step relation, and its properties hold for every reachable state. What the
  runner of Beam may choose (bundles, their order, splits, merges) is quantified over.

  \<^bold>\<open>What is an argument.\<close> Code that is not in the repository is a parameter of the definitions: floating point, time and \<^verbatim>\<open>%v\<close> (\<open>go_env\<close>, \<open>wm_env\<close>; the
  rate limiter has an argument that rounds), \<^verbatim>\<open>encoding/json\<close> (\<open>json_env\<close>, \<open>json_decoder\<close>, \<open>rest_env\<close>, \<open>metrics_json\<close>, the functions named \<open>marshal\<close> and
  \<open>parse\<close>), the network (\<open>http_env\<close>), databases (\<open>sql_driver\<close>, \<open>mongo_client\<close>, \<open>bson_env\<close>), secret managers (\<open>secret_env\<close>), the client of the object store
  (\<open>gcs_client\<close>, with the laws \<open>gcs_laws\<close>), Parquet (\<open>parquet_lib\<close>, \<open>layout\<close>, \<open>pq_env\<close>), the compressors and character sets (\<open>codec_lib\<close>), the operating system
  (\<open>local_env\<close>, whose oracle \<open>fault\<close> may fail any step, and \<open>metrics_fs\<close>), and the runner (\<open>runner\<close> and its contract \<open>faithful_runner\<close>). Every property with such
  a hypothesis has a witness with a concrete instance.

  \<^bold>\<open>Bounds and fuel.\<close> Loops are structural or have a termination proof. The exceptions: the dispatch of sink factories, which is a
  \<^verbatim>\<open>partial_function\<close>, since two factories can call each other for ever, and the loop over a JSON array, which has fuel: one unit for each
  element and one more is enough if the decoder moves on at every element (\<open>array_enough_fuel\<close>), and no fuel is enough for an element on which it
  stays (\<open>malformed_array_never_ends\<close>). Hypotheses such as
  \<open>length s < 2 ^ 63\<close> say that a length is a Go \<^verbatim>\<open>int\<close>.

  \<^bold>\<open>What is not modelled.\<close> The configuration of OpenTelemetry exporters, spans and Beam counters (they do not affect data); the trap for
  operating-system signals and the flags of the program; the cancellation of a context while a goroutine is blocked in a send; directories as
  objects of the file system; the JSON coders of slices (\<^verbatim>\<open>encoding/json\<close> both ways); the generators of test fixtures; functions named
  \<^verbatim>\<open>ForTesting\<close>. Reuse of byte buffers (\<^verbatim>\<open>formatters/pool.go\<close>, the mask buffers of the coders) is not represented, since each is emptied before use.
\<close>

section \<open>From records to a file and back\<close>

lemma csv_text_decodes:
  assumes "plain_delim (cf_delimiter f)" "line_end (cf_line_terminator f)" "cf_include_header f"
    and "parser_comma p = cf_delimiter f" "cp_has_header p"
    and "sch_fields sch = fld # flds" "trim_space (field_name fld) = field_name fld" "row_ok (map field_name (sch_fields sch))"
    and "list_all (\<lambda>rec. row_ok (csv_columns env sch rec)) recs"
  shows "\<exists>out. csv_decode (\<lambda>_. None) p sch src (csv_text env f sch recs) = Some (out, None) \<and>
    map vals out = map (\<lambda>rec. map (\<lambda>(i, fl). read_cell fl (csv_value env rec i)) (enumerate 0 (sch_fields sch))) recs"
proof -
  have "csv_text env f sch recs = concat (projr (csv_format_header f (Some sch)) # map (\<lambda>r. projr (csv_format_record env f (Some r) (Some sch))) recs)"
    using assms(1,3,6) by (simp add: csv_text_def csv_format_header_def csv_format_record_def format_row_text csv_columns_def comp_def)
  then show ?thesis using csv_text_decoded [OF assms] by (simp add: csv_columns_read comp_def)
qed

text \<open>C5. A run from the configuration to the file, and a run that reads it again. Whatever the order in which the sinks were
  registered, a configuration whose destination is one of the file types with \<^verbatim>\<open>output_format\<close> csv, no compression and no
  encryption builds a stream file sink; its DoFn, run over a bundle of records whose texts have no carriage return and which are
  not a single empty column, ends without an error. A file source over the published file, with the same delimiter, no compression
  and UTF-8, is built, takes the whole file as its restriction, and its worker emits one record per input record, in order and without
  an error; each value is the text of the value written without the spaces around it, and a null where that is empty.\<close>

theorem csv_run_reads_back:
  fixes senv :: "(local_fs, 'l, generic_record) sink_env"
  assumes reg: "mset rs = mset sink_registrations" "register_all env [] rs = Inr reg"
    and dest: "de_type (pl_destination cfg) \<in> set (dispatcher_names @ delimited_names)" "de_output_format (pl_destination cfg) = ''csv''"
      "de_compression (pl_destination cfg) \<in> {[], ''none''}" "en_type (de_encryption (pl_destination cfg)) \<in> {[], ''none''}"
    and opts: "fo_delimiter (de_format_options (pl_destination cfg)) = ch # ds" "plain_delim ch"
      "line_end (fo_line_terminator (de_format_options (pl_destination cfg)))" "fo_include_header (de_format_options (pl_destination cfg))"
    and src: "so_format (pl_source rcfg) = ''csv''" "so_delimiter (pl_source rcfg) = ch # ds'" "so_schema (pl_source rcfg) = get_schema cfg"
      "clean_name (so_compression (pl_source rcfg)) \<in> {[], ''none''}" "clean_name (so_charset (pl_source rcfg)) \<in> {[], ''utf-8'', ''utf8''}"
      "source_files listing (pl_source rcfg) = Inr [uri]"
    and sch: "sch_fields (get_schema cfg) = fld # flds" "trim_space (field_name fld) = field_name fld" "row_ok (map field_name (sch_fields (get_schema cfg)))"
    and recs: "list_all (\<lambda>rec. row_ok (csv_columns env (get_schema cfg) rec)) recs" "recs \<noteq> []" "int (length recs) < 2 ^ 63"
      "length (csv_text env (new_csv_formatter (de_format_options (pl_destination cfg))) (get_schema cfg) recs) < 2 ^ 63"
    and uri: "uri = build_output_uri (fst un) (snd un) (de_output_path (pl_destination cfg)) ''csv'' [] [] (de_single_file (pl_destination cfg))" "file_name uri"
      "path_clean uri = uri"
  shows "\<exists>b sb. build_destination_sink env now reg cfg (Some (local_storage (no_faults u))) sec = Some (Inr (StreamFileBeamSink b)) \<and>
    build_byte_stream_source listing rcfg = Inr (ByteStreamBeamSource sb) \<and> by_uris sb = [uri] \<and>
    (case run_bundle (stream_start_bundle senv) (stream_process_element senv un) stream_finish_bundle w (stream_file_do_fn env je b) recs of
       (w', d', e) \<Rightarrow> e = None \<and> (let fn = byte_stream_do_fn env lib (local_reader (no_faults u)) sb in
         \<exists>w1 w2 r t' out. sdf_create_initial_restriction env G w' fn uri = (w1, fn, Inr r) \<and>
           sdf_process_element env jsonl G seekable [] w1 fn (new_byte_offset_tracker r) uri = (w2, fn, t', Some (out, None)) \<and>
           map vals out = map (\<lambda>rec. map (\<lambda>(i, fl). read_cell fl (csv_value env rec i)) (enumerate 0 (sch_fields (get_schema cfg)))) recs))"
proof -
  let ?d = "pl_destination cfg" and ?p = "new_csv_parser (ch # ds') True" and ?sch = "get_schema cfg" and ?s = "pl_source rcfg"
  let ?f = "new_csv_formatter (de_format_options ?d)" and ?st = "Some (local_storage (no_faults u))"
  let ?txt = "csv_text env ?f ?sch recs" and ?sb = "\<lparr>by_uris = [uri], by_decoder = CSVParser ?p, by_config = ?s\<rparr>"
  have source: "build_byte_stream_source listing rcfg = Inr (ByteStreamBeamSource ?sb)"
    using src by (simp add: build_byte_stream_source_def pipeline_build_decoder_def registry_csv csv_decoder_factory_def)
  obtain b where b: "build_destination_sink env now reg cfg ?st sec = Some (Inr (StreamFileBeamSink b))"
    "sf_storage b = ?st" "sf_formatter b = Some (CSVFormatter ?f)" "sf_output_dir b = de_output_path ?d" "sf_format b = ''csv''"
    "sf_compression b = de_compression ?d" "sf_encryption b = de_encryption ?d" "sf_single_file b = de_single_file ?d" "sf_schema b = ?sch"
    using delimited_destination [OF registered_lookup [OF reg] _ dest(1), of env now ?st sec] dest(2)
    by (simp add: delimited_sink_factory_def registry_csv csv_factory_def lift_error_def delimited_names_def Let_def)
  define dofn :: "(local_fs, 'l, generic_record) stream_sink" where "dofn = stream_file_do_fn env je b"
  obtain sg where sg: "ss_stager dofn = Some sg" "sg_storage sg = ?st" "stager_uri un sg = uri"
    using plain_sink_stager(1) [of b env je un] dest(3,4) uri(1) b by (auto simp: dofn_def trim_visible_texts to_lower_def lower_char_def)
  have fm: "ss_formatter dofn = Some (sink_formatter env je (CSVFormatter ?f) ?sch)"
    using b by (simp add: dofn_def stream_file_do_fn_def new_stream_file_sink_def)
  have kinds: "ss_compression dofn \<in> {[], ''none''}" "ss_enc_type dofn \<in> {[], ''none''}"
    using plain_sink_stager(2,3) [of b env je] dest(3,4) b by (simp_all add: dofn_def)
  have f: "plain_delim (cf_delimiter ?f)" "line_end (cf_line_terminator ?f)" "cf_include_header ?f" "parser_comma ?p = cf_delimiter ?f" "cp_has_header ?p"
    using opts by (auto simp: new_csv_formatter_def parser_comma_def new_csv_parser_def line_end_def)
  have chunks: "concat (stream_chunks (sink_formatter env je (CSVFormatter ?f) ?sch) recs) = ?txt"
    "\<not> isl (fm_header (sink_formatter env je (CSVFormatter ?f) ?sch))" "list_all (\<lambda>r. \<not> isl (fm_record (sink_formatter env je (CSVFormatter ?f) ?sch) r)) recs"
    using csv_text_chunks [OF f(1,3), of ?sch] sch(1) by auto
  obtain w' d' e where run: "run_bundle (stream_start_bundle senv) (stream_process_element senv un) stream_finish_bundle w dofn recs = (w', d', e)"
    using prod_cases3 by blast
  have e: "e = None" and written: "files w' uri = Some ?txt"
    using reliable.stream_bundle_total [OF sg(1,2) fm _ recs(3,2) chunks(2,3) kinds, of un, unfolded sg(3), OF uri(2), where env = senv and w = w] run
    by (auto simp: published_def chunks(1))
  obtain out where out: "csv_decode (\<lambda>_. None) ?p ?sch uri ?txt = Some (out, None)"
    "map vals out = map (\<lambda>rec. map (\<lambda>(i, fl). read_cell fl (csv_value env rec i)) (enumerate 0 (sch_fields ?sch))) recs"
    using csv_text_decodes [OF f sch recs(1), of uri] by blast
  have valid: "valid_delim (parser_comma ?p)" using plain_delim_valid [OF f(1)] f(4) by simp
  have nonempty: "?txt \<noteq> []" using out recs(2) csv_decode_Nil [OF valid, of ?sch uri] by auto
  let ?fn = "byte_stream_do_fn env lib (local_reader (no_faults u)) ?sb"
  have fn: "sdf_cfg ?fn = ?s" "sdf_decoder ?fn = Some (CSVParser ?p)" "sdf_wrapper ?fn = Some (wrap_stream env lib None)" "sdf_reader ?fn = Some (local_reader (no_faults u))"
    by (simp_all add: byte_stream_do_fn_def new_byte_stream_source_sdf_def)
  have decoded: "csv_decode (\<lambda>_. None) ?p (so_schema ?s) uri ?txt = Some (out, None)" using out(1) src(3) by simp
  note read = csv_source_reads_file [OF fn src(4,5) valid written uri(3) nonempty recs(4) decoded, where G = G and seekable = seekable and jsonl = jsonl]
  show ?thesis using b(1) source read e out(2) run by (intro exI [of _ b] exI [of _ ?sb]) (auto simp: Let_def dofn_def)
qed

text \<open>The example: two records of one text each.\<close>

theorem csv_run_reads_back_witness:
  "\<exists>reg b sb. register_all sample_env [] sink_registrations = Inr reg \<and>
    build_destination_sink sample_env 0 reg csv_config (Some (local_storage (no_faults (\<lambda>_. 0)))) None = Some (Inr (StreamFileBeamSink b)) \<and>
    build_byte_stream_source (\<lambda>_. Inr [''/out/data.csv'']) csv_config = Inr (ByteStreamBeamSource sb) \<and>
    (case run_bundle (stream_start_bundle plain_workers) (stream_process_element plain_workers (''u'', 0)) stream_finish_bundle \<lparr>files = Map.empty, steps = 0\<rparr>
        (stream_file_do_fn sample_env \<lparr>json_quote = id, json_bytes = id\<rparr> b) [one_text ''a,b'', one_text ''c''] of
       (w', d', e) \<Rightarrow> e = None \<and> (let fn = byte_stream_do_fn sample_env plain_codecs (local_reader (no_faults (\<lambda>_. 0))) sb in
         \<exists>w1 w2 r t' out. sdf_create_initial_restriction sample_env no_providers w' fn ''/out/data.csv'' = (w1, fn, Inr r) \<and>
           sdf_process_element sample_env (\<lambda>_ _ _. None) no_providers True [] w1 fn (new_byte_offset_tracker r) ''/out/data.csv'' = (w2, fn, t', Some (out, None)) \<and>
           map (map str_val) (map vals out) = [[''a,b''], [''c'']]))"
proof -
  let ?recs = "[one_text ''a,b'', one_text ''c'']" and ?uri = "''/out/data.csv''"
  obtain reg where reg: "register_all sample_env [] sink_registrations = Inr reg" using sinks_registered_any_order [of sink_registrations] by blast
  note c = csv_config_parts
  have delim: "plain_delim (CHR '','')" "line_end [line_feed]" by (simp_all add: plain_delim_def ascii_visible_def line_end_def)
  obtain fld where fld: "sch_fields id_schema = [fld]" "field_name fld = ''id''" by (simp add: id_schema_def)
  have sch: "trim_space (field_name fld) = field_name fld" "row_ok (map field_name (sch_fields id_schema))"
    using fld by (simp_all add: trim_space_visible ascii_visible_def row_ok_def)
  have rows: "list_all (\<lambda>rec. row_ok (csv_columns sample_env id_schema rec)) ?recs" by (simp add: one_text_columns row_ok_def)
  have fields: "csv_field (CHR '','') ''a,b'' = [CHR 0x22] @ ''a,b'' @ [CHR 0x22]" "csv_field (CHR '','') ''c'' = ''c''" "csv_field (CHR '','') ''id'' = ''id''"
    using delim(1) visible_start by (auto simp: csv_field_def field_needs_quotes_def plain_delim_bytes contains_char plain_delim_def ascii_visible_def has_prefix_def escape_quotes_def)
  have size: "length (csv_text sample_env (new_csv_formatter (de_format_options (pl_destination csv_config))) id_schema ?recs) < 2 ^ 63"
    by (simp add: csv_text_def c new_csv_formatter_def one_text_columns fld fields)
  have uri: "build_output_uri ''u'' 0 ?uri ''csv'' [] [] (de_single_file (pl_destination csv_config)) = ?uri"
    "file_name ?uri" "path_clean ?uri = ?uri"
    by (simp_all add: build_output_uri_def trim_right_set_def path_ext_def last_component_def file_name_def path_base_def) code_simp
  have cells: "str_val (read_cell fl ''a,b'') = ''a,b''" "str_val (read_cell fl ''c'') = ''c''" for fl
    by (simp_all add: read_cell_def trim_space_visible ascii_visible_def)
  have file_type: "''file'' \<in> set (dispatcher_names @ delimited_names)" by (simp add: dispatcher_names_def)
  note run = csv_run_reads_back [OF refl reg, where cfg = csv_config and rcfg = csv_config and ch = "CHR '',''" and ds = "[]" and ds' = "[]" and listing = "\<lambda>_. Inr [?uri]"
      and fld = fld and flds = "[]" and recs = ?recs and uri = ?uri and un = "(''u'', 0)" and now = 0 and G = no_providers and seekable = True and jsonl = "\<lambda>_ _ _. None"
      and u = "\<lambda>_. 0" and sec = None and senv = plain_workers and w = "\<lparr>files = Map.empty, steps = 0\<rparr>" and lib = plain_codecs
      and je = "\<lparr>json_quote = id, json_bytes = id\<rparr>"]
  have "\<exists>b sb. build_destination_sink sample_env 0 reg csv_config (Some (local_storage (no_faults (\<lambda>_. 0)))) None = Some (Inr (StreamFileBeamSink b)) \<and>
      build_byte_stream_source (\<lambda>_. Inr [?uri]) csv_config = Inr (ByteStreamBeamSource sb) \<and> by_uris sb = [?uri] \<and>
      (case run_bundle (stream_start_bundle plain_workers) (stream_process_element plain_workers (''u'', 0)) stream_finish_bundle \<lparr>files = Map.empty, steps = 0\<rparr>
        (stream_file_do_fn sample_env \<lparr>json_quote = id, json_bytes = id\<rparr> b) ?recs of
       (w', d', e) \<Rightarrow> e = None \<and> (let fn = byte_stream_do_fn sample_env plain_codecs (local_reader (no_faults (\<lambda>_. 0))) sb in
         \<exists>w1 w2 r t' out. sdf_create_initial_restriction sample_env no_providers w' fn ?uri = (w1, fn, Inr r) \<and>
           sdf_process_element sample_env (\<lambda>_ _ _. None) no_providers True [] w1 fn (new_byte_offset_tracker r) ?uri = (w2, fn, t', Some (out, None)) \<and>
           map vals out = map (\<lambda>rec. map (\<lambda>(i, fl). read_cell fl (csv_value sample_env rec i)) (enumerate 0 (sch_fields (get_schema csv_config)))) ?recs))"
    by (rule run) (use file_type sch(2) rows size in \<open>simp_all add: c delim sch(1) fld(1) uri\<close>)
  then show ?thesis using reg unfolding c
    by (elim exE conjE) (intro exI [of _ reg] exI conjI, assumption+, auto simp: Let_def fld(1) one_text_value cells split: prod.splits)
qed

end
